(* ===== verification/Prelude.thy ===== *)
theory Prelude
  imports Main
begin

text \<open>
  Shared vocabulary of the development: results with errors as values, folds that stop at the
  first error, splicing of lists (JavaScript's \<open>toSpliced\<close>), insertion-ordered maps
  (JavaScript's \<open>Map\<close>), and the contract of an event projection.
\<close>

named_theorems res_simps \<open>how results with errors compute\<close>
named_theorems splice_simps \<open>lists after a splice\<close>
named_theorems amap_simps \<open>insertion-ordered maps\<close>

section \<open>Results: an error or a value\<close>

type_synonym ('e, 'a) res = "'e + 'a"

definition rbind :: "('e, 'a) res \<Rightarrow> ('a \<Rightarrow> ('e, 'b) res) \<Rightarrow> ('e, 'b) res" where
  "rbind m f = (case m of Inl e \<Rightarrow> Inl e | Inr a \<Rightarrow> f a)"

definition require :: "bool \<Rightarrow> 'e \<Rightarrow> ('e, unit) res" where
  "require b e = (if b then Inr () else Inl e)"

lemma rbind_simps [simp, res_simps]:
  "rbind (Inl e) f = Inl e"
  "rbind (Inr a) f = f a"
  by (simp_all add: rbind_def)

lemma rbind_eq_Inr: "rbind m f = Inr b \<longleftrightarrow> (\<exists>a. m = Inr a \<and> f a = Inr b)"
  by (cases m) simp_all

lemma rbind_eq_Inl: "rbind m f = Inl e \<longleftrightarrow> m = Inl e \<or> (\<exists>a. m = Inr a \<and> f a = Inl e)"
  by (cases m) auto

lemma require_eq_Inr [simp, res_simps]: "require b e = Inr u \<longleftrightarrow> b"
  by (simp add: require_def)

lemma require_eq_Inl [simp, res_simps]: "require b e = Inl e' \<longleftrightarrow> \<not> b \<and> e' = e"
  by (auto simp: require_def)

definition is_ok :: "('e, 'a) res \<Rightarrow> bool" where
  "is_ok r = (case r of Inl _ \<Rightarrow> False | Inr _ \<Rightarrow> True)"

lemma is_ok_simps [simp, res_simps]: "is_ok (Inr a)" "\<not> is_ok (Inl e)"
  by (simp_all add: is_ok_def)

lemma is_ok_iff: "is_ok r \<longleftrightarrow> (\<exists>a. r = Inr a)"
  by (cases r) simp_all

text \<open>A loop whose body may throw: the fold stops at the first error.\<close>

fun fold_res :: "('s \<Rightarrow> 'x \<Rightarrow> ('e, 's) res) \<Rightarrow> 's \<Rightarrow> 'x list \<Rightarrow> ('e, 's) res" where
  "fold_res f s [] = Inr s"
| "fold_res f s (x # xs) = (case f s x of Inl e \<Rightarrow> Inl e | Inr s' \<Rightarrow> fold_res f s' xs)"

lemma fold_res_append:
  "fold_res f s (xs @ ys) = (case fold_res f s xs of Inl e \<Rightarrow> Inl e | Inr s' \<Rightarrow> fold_res f s' ys)"
  by (induction xs arbitrary: s) (auto split: sum.splits)

lemma fold_res_snoc:
  "fold_res f s (xs @ [x]) = (case fold_res f s xs of Inl e \<Rightarrow> Inl e | Inr s' \<Rightarrow> f s' x)"
  by (auto simp: fold_res_append split: sum.splits)

lemma fold_res_invariant:
  assumes "P s" and "\<And>s x s'. P s \<Longrightarrow> x \<in> set xs \<Longrightarrow> f s x = Inr s' \<Longrightarrow> P s'"
    and "fold_res f s xs = Inr t"
  shows "P t"
  using assms
proof (induction xs arbitrary: s)
  case (Cons x xs)
  from Cons.prems(3) obtain s' where s': "f s x = Inr s'" "fold_res f s' xs = Inr t"
    by (auto split: sum.splits)
  have "P s'" using Cons.prems(1,2) s'(1) by (meson list.set_intros(1))
  then show ?case using Cons.IH [of s'] Cons.prems(2) s'(2) by (meson list.set_intros(2))
qed simp

lemma map_filter_append: "List.map_filter f (xs @ ys) = List.map_filter f xs @ List.map_filter f ys"
  by (simp add: List.map_filter_def)

section \<open>Stateful operations that may throw\<close>

text \<open>
  An operation on a state returns the state it leaves and its result; what an operation did before
  it threw stays done.
\<close>

type_synonym ('s, 'e, 'a) sx = "'s \<Rightarrow> 's \<times> ('e, 'a) res"

definition sx_return :: "'a \<Rightarrow> ('s, 'e, 'a) sx" where
  "sx_return a s = (s, Inr a)"

definition sx_throw :: "'e \<Rightarrow> ('s, 'e, 'a) sx" where
  "sx_throw e s = (s, Inl e)"

definition sx_bind :: "('s, 'e, 'a) sx \<Rightarrow> ('a \<Rightarrow> ('s, 'e, 'b) sx) \<Rightarrow> ('s, 'e, 'b) sx" where
  "sx_bind m f s = (case m s of (s', Inl e) \<Rightarrow> (s', Inl e) | (s', Inr a) \<Rightarrow> f a s')"

definition sx_lift :: "('e, 'a) res \<Rightarrow> ('s, 'e, 'a) sx" where
  "sx_lift r s = (s, r)"

definition sx_get :: "('s \<Rightarrow> ('e, 'a) res) \<Rightarrow> ('s, 'e, 'a) sx" where
  "sx_get f s = (s, f s)"

lemma sx_simps [res_simps]:
  "sx_return a s = (s, Inr a)"
  "sx_throw e s = (s, Inl e)"
  "sx_bind m f s = (case m s of (s', Inl e) \<Rightarrow> (s', Inl e) | (s', Inr a) \<Rightarrow> f a s')"
  "sx_lift r s = (s, r)"
  "sx_get g s = (s, g s)"
  by (simp_all add: sx_return_def sx_throw_def sx_bind_def sx_lift_def sx_get_def)

lemma fst_sx_bind: "fst (sx_bind m f s) = (case m s of (s', Inl e) \<Rightarrow> s' | (s', Inr a) \<Rightarrow> fst (f a s'))"
  by (auto simp: sx_bind_def split: prod.splits sum.splits)

lemma snd_sx_bind: "snd (sx_bind m f s) = (case m s of (s', Inl e) \<Rightarrow> Inl e | (s', Inr a) \<Rightarrow> snd (f a s'))"
  by (auto simp: sx_bind_def split: prod.splits sum.splits)

section \<open>Splicing lists\<close>

definition spliced :: "'a list \<Rightarrow> nat \<Rightarrow> nat \<Rightarrow> 'a list \<Rightarrow> 'a list" where
  "spliced xs i n ys = take i xs @ ys @ drop (i + n) xs"

lemma length_spliced [simp, splice_simps]:
  "i + n \<le> length xs \<Longrightarrow> length (spliced xs i n ys) = length xs - n + length ys"
  by (simp add: spliced_def)

lemma spliced_zero_append [simp, splice_simps]: "spliced xs (length xs) 0 ys = xs @ ys"
  by (simp add: spliced_def)

lemma spliced_zero_prepend [simp, splice_simps]: "spliced xs 0 0 ys = ys @ xs"
  by (simp add: spliced_def)

lemma spliced_all [simp, splice_simps]: "spliced xs 0 (length xs) [] = []"
  by (simp add: spliced_def)

lemma set_spliced_subset: "set (spliced xs i n ys) \<subseteq> set xs \<union> set ys"
  using set_take_subset [of i xs] set_drop_subset [of "i + n" xs] by (auto simp: spliced_def)

lemma take_slice_drop: "xs = take i xs @ take n (drop i xs) @ drop (i + n) xs"
  by (metis add.commute append_take_drop_id drop_drop)

lemma mset_like_spliced:
  "set xs = set (take i xs) \<union> set (take n (drop i xs)) \<union> set (drop (i + n) xs)"
  by (metis set_append take_slice_drop Un_assoc)

lemma sorted_wrt_take: "sorted_wrt P xs \<Longrightarrow> sorted_wrt P (take n xs)"
  by (metis append_take_drop_id sorted_wrt_append)

section \<open>Insertion-ordered maps\<close>

text \<open>
  JavaScript's \<open>Map\<close> iterates in insertion order: \<open>set\<close> on a present key updates in place, on an
  absent key appends; \<open>delete\<close> removes the entry.
\<close>

type_synonym ('k, 'v) amap = "('k \<times> 'v) list"

definition amap_get :: "('k, 'v) amap \<Rightarrow> 'k \<Rightarrow> 'v option" where
  "amap_get m k = map_of m k"

fun amap_set :: "('k, 'v) amap \<Rightarrow> 'k \<Rightarrow> 'v \<Rightarrow> ('k, 'v) amap" where
  "amap_set [] k v = [(k, v)]"
| "amap_set ((k', v') # m) k v = (if k' = k then (k, v) # m else (k', v') # amap_set m k v)"

definition amap_del :: "('k, 'v) amap \<Rightarrow> 'k \<Rightarrow> ('k, 'v) amap" where
  "amap_del m k = filter (\<lambda>(k', _). k' \<noteq> k) m"

definition amap_keys :: "('k, 'v) amap \<Rightarrow> 'k list" where
  "amap_keys m = map fst m"

definition amap_wf :: "('k, 'v) amap \<Rightarrow> bool" where
  "amap_wf m = distinct (map fst m)"

lemma amap_get_empty [simp, amap_simps]: "amap_get [] k = None"
  by (simp add: amap_get_def)

lemma amap_get_set [simp, amap_simps]:
  "amap_get (amap_set m k v) k' = (if k' = k then Some v else amap_get m k')"
  by (induction m k v rule: amap_set.induct) (auto simp: amap_get_def)

lemma amap_get_del [simp, amap_simps]:
  "amap_get (amap_del m k) k' = (if k' = k then None else amap_get m k')"
  by (induction m) (auto simp: amap_get_def amap_del_def)

lemma set_keys_amap_set [simp, amap_simps]:
  "set (amap_keys (amap_set m k v)) = insert k (set (amap_keys m))"
  by (induction m k v rule: amap_set.induct) (auto simp: amap_keys_def)

lemma set_keys_amap_del [simp, amap_simps]:
  "set (amap_keys (amap_del m k)) = set (amap_keys m) - {k}"
  by (induction m) (auto simp: amap_keys_def amap_del_def)

lemma amap_wf_Nil [simp, intro]: "amap_wf []"
  by (simp add: amap_wf_def)

lemma amap_wf_set [simp, intro]: "amap_wf m \<Longrightarrow> amap_wf (amap_set m k v)"
proof (induction m k v rule: amap_set.induct)
  case (2 k' v' m k v)
  then show ?case
    using set_keys_amap_set [of m k v] by (auto simp: amap_wf_def amap_keys_def)
qed (simp add: amap_wf_def)

lemma amap_wf_del [simp, intro]: "amap_wf m \<Longrightarrow> amap_wf (amap_del m k)"
  by (induction m) (auto simp: amap_wf_def amap_del_def)

lemma amap_get_Some_iff: "(\<exists>v. amap_get m k = Some v) \<longleftrightarrow> k \<in> set (amap_keys m)"
  by (induction m) (auto simp: amap_get_def amap_keys_def)

lemma amap_get_None_iff: "amap_get m k = None \<longleftrightarrow> k \<notin> set (amap_keys m)"
  by (metis amap_get_Some_iff not_Some_eq)

section \<open>Positions in a list\<close>

text \<open>\<open>Array.indexOf\<close>: the first position of a value, when there is one.\<close>

fun index_of :: "'a list \<Rightarrow> 'a \<Rightarrow> nat option" where
  "index_of [] x = None"
| "index_of (y # ys) x = (if y = x then Some 0 else map_option Suc (index_of ys x))"

lemma index_of_Some: "index_of xs x = Some i \<Longrightarrow> i < length xs \<and> xs ! i = x"
  by (induction xs arbitrary: i) (auto split: if_splits)

lemma index_of_None: "index_of xs x = None \<longleftrightarrow> x \<notin> set xs"
  by (induction xs) auto

lemma index_of_unique: "distinct xs \<Longrightarrow> n < length xs \<Longrightarrow> index_of xs (xs ! n) = Some n"
  by (induction xs arbitrary: n) (auto simp: nth_Cons split: nat.splits)

section \<open>Decimal numerals\<close>

text \<open>\<open>String(n)\<close> for a natural number.\<close>

definition digit_char :: "nat \<Rightarrow> char" where
  "digit_char d = char_of (48 + d)"

fun show_nat :: "nat \<Rightarrow> string" where
  "show_nat n = (if n < 10 then [digit_char n] else show_nat (n div 10) @ [digit_char (n mod 10)])"

declare show_nat.simps [simp del]

lemma digit_char_inj: "a < 10 \<Longrightarrow> b < 10 \<Longrightarrow> digit_char a = digit_char b \<Longrightarrow> a = b"
proof -
  assume l: "a < 10" "b < 10" and e: "digit_char a = digit_char b"
  have "of_char (digit_char a) = (of_char (digit_char b) :: nat)" using e by simp
  then show "a = b" using l by (simp add: digit_char_def)
qed

lemma show_nat_inj: "show_nat m = show_nat n \<longleftrightarrow> m = n"
proof (induction m arbitrary: n rule: show_nat.induct)
  case (1 m)
  have ne: "show_nat k \<noteq> []" for k by (simp add: show_nat.simps)
  show ?case
  proof (cases "m < 10"; cases "n < 10")
    assume "m < 10" "n < 10"
    then show ?thesis using digit_char_inj by (auto simp: show_nat.simps)
  next
    assume "\<not> m < 10" "\<not> n < 10"
    then have "show_nat m = show_nat n \<longleftrightarrow> m div 10 = n div 10 \<and> digit_char (m mod 10) = digit_char (n mod 10)"
      using 1 by (simp add: show_nat.simps [of m] show_nat.simps [of n])
    also have "\<dots> \<longleftrightarrow> m = n" using digit_char_inj [of "m mod 10" "n mod 10"] by (metis div_mod_decomp mod_less_divisor zero_less_numeral)
    finally show ?thesis .
  qed (use ne [symmetric] in \<open>auto simp: show_nat.simps [of m] show_nat.simps [of n] ne\<close>)
qed

section \<open>Projections of an event log\<close>

text \<open>
  A projection folds a session log with a pure step that may reject an event. What a consumer
  relies on is stated once: a projection resumed from a checkpoint equals the projection of the
  whole log, and an invariant of the step holds of every state the fold returns.
\<close>

locale event_projection =
  fixes init :: 's
    and apply_event :: "'s \<Rightarrow> 'ev \<Rightarrow> ('e, 's) res"
    and inv :: "'s \<Rightarrow> bool"
  assumes init_inv: "inv init"
    and apply_inv: "inv s \<Longrightarrow> apply_event s ev = Inr s' \<Longrightarrow> inv s'"
begin

lemma run_inv: "inv s \<Longrightarrow> fold_res apply_event s evs = Inr t \<Longrightarrow> inv t"
  by (rule fold_res_invariant [where P = inv]) (auto intro: apply_inv)

lemma replay_inv: "fold_res apply_event init evs = Inr t \<Longrightarrow> inv t"
  using init_inv by (rule run_inv)

lemma resume_from_checkpoint:
  "fold_res apply_event init evs = Inr c \<Longrightarrow>
   fold_res apply_event init (evs @ more) = fold_res apply_event c more"
  by (simp add: fold_res_append)

lemma rejected_prefix_rejects:
  "fold_res apply_event init evs = Inl e \<Longrightarrow> fold_res apply_event init (evs @ more) = Inl e"
  by (simp add: fold_res_append)

end

section \<open>Reading a growing log incrementally\<close>

text \<open>
  A reader keeps private state about the part of an append-only log it has processed. What its
  clients rely on: a read answers for the whole log whatever was read before, and neither reads nor
  appends spoil the reader.
\<close>

locale log_reader =
  fixes read :: "'p \<Rightarrow> 'ev list \<Rightarrow> 'm \<Rightarrow> 'm \<times> 'r"
    and ok :: "'p \<Rightarrow> 'ev list \<Rightarrow> 'm \<Rightarrow> bool"
    and answer :: "'p \<Rightarrow> 'ev list \<Rightarrow> 'r"
  assumes read_answer: "ok p evs m \<Longrightarrow> snd (read p evs m) = answer p evs"
    and read_ok: "ok p evs m \<Longrightarrow> ok p evs (fst (read p evs m))"
    and append_ok: "ok p evs m \<Longrightarrow> ok p (evs @ later) m"
begin

lemma read_after_append: "ok p evs m \<Longrightarrow> snd (read p (evs @ later) m) = answer p (evs @ later)"
  by (rule read_answer) (rule append_ok)

lemma reads_agree: "ok p evs m \<Longrightarrow> ok p evs m' \<Longrightarrow> snd (read p evs m) = snd (read p evs m')"
  by (simp add: read_answer)

lemma read_cases: "ok p evs m \<Longrightarrow> \<exists>m'. read p evs m = (m', answer p evs) \<and> ok p evs m'"
  using read_answer read_ok by (metis prod.collapse)

end

end
