(* ===== verification/Json.thy ===== *)
theory Json
  imports Prelude Complex_Main
begin

text \<open>
  JSON values as the runtime sees them, JavaScript's number tests on them, and the structural
  equality of \<open>isDeepEqualJson\<close> (\<open>packages/core/session/src/surface.ts\<close>). A finite number is an
  integer, negative zero or a fraction; an object is the list of its own entries.
\<close>

datatype jnum = JInt int | JNegZero | JFrac rat

datatype json =
    JNull
  | JBool bool
  | JNum jnum
  | JStr string
  | JArr "json list"
  | JObj "(string \<times> json) list"

definition MAX_SAFE_INTEGER :: int where
  "MAX_SAFE_INTEGER = 9007199254740991"

text \<open>\<open>Number.isSafeInteger\<close>: negative zero is a safe integer.\<close>

fun isSafeInteger :: "json \<Rightarrow> bool" where
  "isSafeInteger (JNum (JInt i)) = (\<bar>i\<bar> \<le> MAX_SAFE_INTEGER)"
| "isSafeInteger (JNum JNegZero) = True"
| "isSafeInteger _ = False"

fun isRecord :: "json \<Rightarrow> bool" where
  "isRecord (JObj _) = True"
| "isRecord _ = False"

text \<open>Reading a property; \<open>None\<close> is \<open>undefined\<close>.\<close>

fun jget :: "json \<Rightarrow> string \<Rightarrow> json option" where
  "jget (JObj fs) k = map_of fs k"
| "jget _ k = None"

definition hasOwn :: "json \<Rightarrow> string \<Rightarrow> bool" where
  "hasOwn v k = (jget v k \<noteq> None)"

fun jset :: "json \<Rightarrow> string \<Rightarrow> json \<Rightarrow> json" where
  "jset (JObj fs) k v = JObj (amap_set fs k v)"
| "jset j k v = j"

fun jkeys :: "json \<Rightarrow> string list" where
  "jkeys (JObj fs) = map fst fs"
| "jkeys _ = []"

fun num_eq :: "jnum \<Rightarrow> jnum \<Rightarrow> bool" where
  "num_eq JNegZero JNegZero = True"
| "num_eq JNegZero (JInt i) = (i = 0)"
| "num_eq (JInt i) JNegZero = (i = 0)"
| "num_eq (JInt i) (JInt j) = (i = j)"
| "num_eq (JFrac q) (JFrac r) = (q = r)"
| "num_eq _ _ = False"

text \<open>
  Structural equality; a shared reference (\<open>a === b\<close>) is structurally equal as well. Objects are
  compared by key, whatever the order of their entries.
\<close>

lemma size_zip_fst [termination_simp]: "(a, b) \<in> set (zip xs ys) \<Longrightarrow> size a < Suc (size_list size xs)"
  by (meson le_imp_less_Suc order_refl set_zip_leftD size_list_estimation')

fun isDeepEqualJson :: "json \<Rightarrow> json \<Rightarrow> bool" where
  "isDeepEqualJson JNull JNull = True"
| "isDeepEqualJson (JBool a) (JBool b) = (a = b)"
| "isDeepEqualJson (JNum a) (JNum b) = num_eq a b"
| "isDeepEqualJson (JStr a) (JStr b) = (a = b)"
| "isDeepEqualJson (JArr xs) (JArr ys) =
     (length xs = length ys \<and> list_all (\<lambda>(x, y). isDeepEqualJson x y) (zip xs ys))"
| "isDeepEqualJson (JObj fs) (JObj gs) =
     (length fs = length gs \<and>
      list_all (\<lambda>(k, v). case map_of gs k of None \<Rightarrow> False | Some w \<Rightarrow> isDeepEqualJson v w) fs)"
| "isDeepEqualJson _ _ = False"

text \<open>A JSON object has distinct keys, at every depth.\<close>

fun json_wf :: "json \<Rightarrow> bool" where
  "json_wf (JArr xs) = list_all json_wf xs"
| "json_wf (JObj fs) = (distinct (map fst fs) \<and> list_all (\<lambda>(k, v). json_wf v) fs)"
| "json_wf _ = True"

lemma num_eq_refl [simp]: "num_eq a a"
  by (cases a) auto

lemma num_eq_sym: "num_eq a b = num_eq b a"
  by (cases a; cases b) auto

lemma num_eq_trans: "num_eq a b \<Longrightarrow> num_eq b c \<Longrightarrow> num_eq a c"
  by (cases a; cases b; cases c) auto

lemma isDeepEqualJson_obj_iff:
  "isDeepEqualJson (JObj fs) (JObj gs) \<longleftrightarrow> length fs = length gs \<and>
     (\<forall>k v. (k, v) \<in> set fs \<longrightarrow> (\<exists>w. map_of gs k = Some w \<and> isDeepEqualJson v w))"
  by (force simp: list_all_iff split: option.splits)

lemma isDeepEqualJson_refl: "json_wf a \<Longrightarrow> isDeepEqualJson a a"
proof (induction a rule: json_wf.induct)
  case (1 xs)
  then show ?case by (auto simp: list_all_iff zip_same_conv_map)
next
  case (2 fs)
  have "map_of fs k = Some v \<and> isDeepEqualJson v v" if "(k, v) \<in> set fs" for k v
    using 2(1) [OF that refl] 2(2) that by (auto simp: list_all_iff)
  then show ?case unfolding isDeepEqualJson_obj_iff by blast
qed auto

text \<open>Two key lists of the same length, one contained in the other, have the same keys.\<close>

lemma same_keys:
  assumes "distinct xs" "distinct ys" "length xs = length ys" "set xs \<subseteq> set ys"
  shows "set xs = set ys"
  using assms by (metis List.finite_set card_subset_eq distinct_card)

lemma isDeepEqualJson_obj:
  assumes "json_wf (JObj fs)" "json_wf (JObj gs)"
  shows "isDeepEqualJson (JObj fs) (JObj gs) \<longleftrightarrow>
     fst ` set fs = fst ` set gs \<and>
     (\<forall>k v w. (k, v) \<in> set fs \<longrightarrow> (k, w) \<in> set gs \<longrightarrow> isDeepEqualJson v w)"
proof
  assume eq: "isDeepEqualJson (JObj fs) (JObj gs)"
  have "set (map fst fs) \<subseteq> set (map fst gs)"
  proof
    fix k assume "k \<in> set (map fst fs)"
    then obtain v where "(k, v) \<in> set fs" by auto
    then obtain w where "map_of gs k = Some w" using eq unfolding isDeepEqualJson_obj_iff by blast
    then show "k \<in> set (map fst gs)" by (auto dest!: map_of_SomeD intro: rev_image_eqI)
  qed
  moreover have "length (map fst fs) = length (map fst gs)" using eq by simp
  ultimately have "set (map fst fs) = set (map fst gs)"
    using same_keys [of "map fst fs" "map fst gs"] assms by simp
  moreover have "isDeepEqualJson v w" if "(k, v) \<in> set fs" "(k, w) \<in> set gs" for k v w
  proof -
    have "map_of gs k = Some w" using that(2) assms(2) by simp
    then show ?thesis using eq that(1) unfolding isDeepEqualJson_obj_iff by fastforce
  qed
  ultimately show "fst ` set fs = fst ` set gs \<and>
     (\<forall>k v w. (k, v) \<in> set fs \<longrightarrow> (k, w) \<in> set gs \<longrightarrow> isDeepEqualJson v w)" by auto
next
  assume r: "fst ` set fs = fst ` set gs \<and>
     (\<forall>k v w. (k, v) \<in> set fs \<longrightarrow> (k, w) \<in> set gs \<longrightarrow> isDeepEqualJson v w)"
  have "length (map fst fs) = card (fst ` set fs)"
    using assms(1) distinct_card [of "map fst fs"] by simp
  also have "\<dots> = length (map fst gs)"
    using r assms(2) distinct_card [of "map fst gs"] by simp
  finally have "length fs = length gs" by simp
  moreover have "\<exists>w. map_of gs k = Some w \<and> isDeepEqualJson v w"
    if "(k, v) \<in> set fs" for k v
  proof -
    from that r have "k \<in> fst ` set gs" by (metis fst_conv image_eqI)
    then obtain w where "map_of gs k = Some w" by (metis map_of_eq_None_iff not_Some_eq)
    then show ?thesis using r that by (auto dest: map_of_SomeD)
  qed
  ultimately show "isDeepEqualJson (JObj fs) (JObj gs)" unfolding isDeepEqualJson_obj_iff by blast
qed

lemma json_wf_obj_memD: "json_wf (JObj fs) \<Longrightarrow> (k, v) \<in> set fs \<Longrightarrow> json_wf v"
  by (auto simp: list_all_iff)

lemma isDeepEqualJson_sym: "json_wf a \<Longrightarrow> json_wf b \<Longrightarrow> isDeepEqualJson a b \<Longrightarrow> isDeepEqualJson b a"
proof (induction a b rule: isDeepEqualJson.induct)
  case (5 xs ys)
  show ?case
    using 5 by (auto simp: list_all_iff set_zip) (metis (no_types, lifting) nth_mem)
next
  case (6 fs gs)
  note wf = 6(2,3)
  have r: "fst ` set fs = fst ` set gs"
    "\<And>k v w. (k, v) \<in> set fs \<Longrightarrow> (k, w) \<in> set gs \<Longrightarrow> isDeepEqualJson v w"
    using isDeepEqualJson_obj [OF wf] 6(4) by blast+
  have "isDeepEqualJson w v" if "(k, v) \<in> set fs" "(k, w) \<in> set gs" for k v w
  proof -
    have "map_of gs k = Some w" using that(2) wf(2) by simp
    then show ?thesis
      using 6(1) [OF that(1) refl, of w] that r(2) json_wf_obj_memD [OF wf(1) that(1)]
        json_wf_obj_memD [OF wf(2) that(2)] by auto
  qed
  then show ?case using isDeepEqualJson_obj [OF wf(2,1)] r(1) by blast
qed (auto simp: num_eq_sym)

lemma isDeepEqualJson_trans:
  "json_wf a \<Longrightarrow> json_wf b \<Longrightarrow> json_wf c \<Longrightarrow> isDeepEqualJson a b \<Longrightarrow> isDeepEqualJson b c \<Longrightarrow>
   isDeepEqualJson a c"
proof (induction a b arbitrary: c rule: isDeepEqualJson.induct)
  case (3 a b)
  then show ?case by (cases c) (auto intro: num_eq_trans)
next
  case (5 xs ys)
  then obtain zs where c: "c = JArr zs" by (cases c) auto
  show ?case unfolding c
    using 5 c by (auto simp: list_all_iff set_zip) (metis (no_types, lifting) nth_mem)
next
  case (6 fs gs)
  then obtain hs where c: "c = JObj hs" by (cases c) auto
  note wf = 6(2,3,4) [unfolded c]
  have ab: "fst ` set fs = fst ` set gs"
      "\<And>k v w. (k, v) \<in> set fs \<Longrightarrow> (k, w) \<in> set gs \<Longrightarrow> isDeepEqualJson v w"
    using isDeepEqualJson_obj [OF wf(1,2)] 6(5) by blast+
  have bc: "fst ` set gs = fst ` set hs"
      "\<And>k v w. (k, v) \<in> set gs \<Longrightarrow> (k, w) \<in> set hs \<Longrightarrow> isDeepEqualJson v w"
    using isDeepEqualJson_obj [OF wf(2,3)] 6(6) c by blast+
  have "isDeepEqualJson v u" if "(k, v) \<in> set fs" "(k, u) \<in> set hs" for k v u
  proof -
    from that(1) ab(1) have "k \<in> fst ` set gs" by (metis fst_conv image_eqI)
    then obtain w where w: "(k, w) \<in> set gs" by auto
    then have "map_of gs k = Some w" using wf(2) by simp
    then show ?thesis
      using 6(1) [OF that(1) refl, of w u] ab(2) [OF that(1) w] bc(2) [OF w that(2)]
        json_wf_obj_memD [OF wf(1) that(1)] json_wf_obj_memD [OF wf(2) w]
        json_wf_obj_memD [OF wf(3) that(2)] by blast
  qed
  then show ?case unfolding c using isDeepEqualJson_obj [OF wf(1,3)] ab(1) bc(1) by auto
qed auto

end
