(* ===== verification/Session_Surface.thy ===== *)
theory Session_Surface
  imports Json
begin

text \<open>
  The surface layer of the session log (\<open>packages/core/session/src/surface.ts\<close>): which events are
  model-visible, in which order, and which replacements are admitted. Events carry their raw JSON
  data and raw surface metadata, as the code validates them; \<open>oref\<close> is the identity of the event
  object (\<open>===\<close>). Message projections are plugin-owned code and stay parameters.
\<close>

section \<open>Events and errors\<close>

record raw_event =
  etype :: string
  eseq :: nat
  etime :: nat
  edata :: json
  surface_op :: "json option"
  source_seqs :: "json option"
  ignorable :: bool
  oref :: nat

datatype surface_op_t = OpAppend | OpReplace nat nat

datatype surface_error =
    Not_Contiguous
  | Not_Eligible_SurfaceOp | Not_Eligible_Sources | Missing_SurfaceOp
  | Invalid_SurfaceOp | Invalid_ReplaceOp | Replace_Not_Earlier
  | Assistant_Sources | Sources_Not_Array | Sources_Empty | Sources_Not_Seqs | Sources_Duplicate
  | Sources_Not_Earlier | Sources_Missing
  | Dev_Role | Dev_Blocks_Role | Dev_Tool_Name | Dev_Inline_Tool | Dev_HeaderSeq
  | Header_Data | Header_Not_Object | Header_System | Header_Empty_Tools | Header_Empty_Defaults
  | Result_Data | Result_Error
  | Dev_Header_Ref | Dev_Tool_Count | Dev_Tool_Incomplete | Dev_Defer_Loading
  | Start_Not_Found | End_Not_Found | Start_After_End
  | Result_One_Node | Result_Target | Result_Only_Content | System_Head
  | Missing_Projection string | Projection_Failed string | Projection_Removed string

definition SURFACE_EVENT_TYPES :: "string list" where
  "SURFACE_EVENT_TYPES =
     [''system/message'', ''developer/message'', ''user/message'', ''assistant/message'', ''tool/result'']"

definition KNOWN_SESSION_EVENT_TYPES :: "string list" where
  "KNOWN_SESSION_EVENT_TYPES =
    [''agent-preset/selected'', ''agent/inbox/spliced'', ''approval/asked'', ''approval/decided'',
     ''approval/policy'', ''assistant/attempt'', ''assistant/message'', ''command/done'',
     ''command/run'', ''compaction/end'', ''compaction/prune'', ''compaction/start'',
     ''compaction/summary'', ''deliverables/presented'', ''developer/message'',
     ''feedback/message-delete'', ''feedback/message-put'', ''feedback/record'', ''goal/change'',
     ''hook/invoked'', ''hook/result'', ''image/offload'', ''llm/retry'', ''llm/retry-started'',
     ''model/selection'', ''permission/preset'', ''plan/mode'', ''request/context'',
     ''request/header'', ''sandbox/mode'', ''schedule/change'',
     ''session-log-deepseek/delivery-accepted'', ''session/end-seed'', ''session/title'',
     ''session/title-llm-request'', ''step/end'', ''step/start'', ''subagent/catalog'',
     ''subagent/descriptor'', ''subagent/model-selection-policy'', ''system/message'',
     ''team/member'', ''team/message/delivered'', ''team/message/queued'', ''team/task'',
     ''todo/write'', ''tool-workflow/agent-end'', ''tool-workflow/agent-start'',
     ''tool-workflow/run-end'', ''tool-workflow/run-start'', ''tool/call'', ''tool/ptc-dispatch'',
     ''tool/ptc-dispatch-start'', ''tool/result'', ''turn/end'', ''turn/start'', ''user/message'',
     ''web/deepseek-search-llm-request'', ''workspace/changes'']"

definition MESSAGE_PROJECTION_EVENT_TYPES :: "string list" where
  "MESSAGE_PROJECTION_EVENT_TYPES = [''image/offload'']"

definition isSurfaceEligibleType :: "string \<Rightarrow> bool" where
  "isSurfaceEligibleType t = List.member SURFACE_EVENT_TYPES t"

definition isSurfaceEvent :: "raw_event \<Rightarrow> bool" where
  "isSurfaceEvent e =
     (if \<not> isSurfaceEligibleType (etype e) then False else surface_op e \<noteq> None)"

definition isAppendSurfaceEvent :: "raw_event \<Rightarrow> bool" where
  "isAppendSurfaceEvent e = (isSurfaceEvent e \<and> surface_op e = Some (JStr ''append''))"

definition isReplacementSurfaceEvent :: "raw_event \<Rightarrow> bool" where
  "isReplacementSurfaceEvent e = (isSurfaceEvent e \<and> surface_op e \<noteq> Some (JStr ''append''))"

text \<open>
  \<open>deriveEventMessage\<close>: the projected message if there is one, otherwise the event's own. The result
  is \<open>None\<close> for \<open>null\<close>.
\<close>

fun content_empty :: "json option \<Rightarrow> bool" where
  "content_empty (Some m) = (jget m ''content'' = Some (JArr []))"
| "content_empty None = False"

definition deriveEventMessage :: "raw_event \<Rightarrow> (nat, json) amap \<Rightarrow> json option" where
  "deriveEventMessage e projected =
     (case amap_get projected (eseq e) of
        Some m \<Rightarrow> Some m
      | None \<Rightarrow>
          if etype e = ''user/message'' then Some (edata e)
          else if List.member [''system/message'', ''developer/message'', ''assistant/message''] (etype e)
          then (if content_empty (jget (edata e) ''message'') then None else jget (edata e) ''message'')
          else if etype e = ''tool/result'' then jget (edata e) ''message''
          else None)"

section \<open>Validation of one event\<close>

fun isEventSeq :: "json \<Rightarrow> bool" where
  "isEventSeq (JNum (JInt i)) = (0 \<le> i \<and> i \<le> MAX_SAFE_INTEGER)"
| "isEventSeq _ = False"

fun seq_val :: "json \<Rightarrow> nat" where
  "seq_val (JNum (JInt i)) = nat i"
| "seq_val _ = 0"

fun jarr :: "json option \<Rightarrow> json list option" where
  "jarr (Some (JArr xs)) = Some xs"
| "jarr _ = None"

definition is_tool_change :: "json \<Rightarrow> bool" where
  "is_tool_change b = (isRecord b \<and>
     (jget b ''type'' = Some (JStr ''tool-addition'') \<or> jget b ''type'' = Some (JStr ''tool-removal'')))"

definition is_tool_addition :: "json \<Rightarrow> bool" where
  "is_tool_addition b = (isRecord b \<and> jget b ''type'' = Some (JStr ''tool-addition''))"

fun nonempty_string :: "json option \<Rightarrow> bool" where
  "nonempty_string (Some (JStr s)) = (s \<noteq> [])"
| "nonempty_string _ = False"

text \<open>The block loop of a developer message; the result is \<open>hasAdditions\<close>.\<close>

fun developer_blocks :: "json list \<Rightarrow> bool \<Rightarrow> (surface_error, bool) res" where
  "developer_blocks [] has = Inr has"
| "developer_blocks (b # bs) has =
     (if \<not> is_tool_change b then developer_blocks bs has
      else if \<not> nonempty_string (jget b ''toolName'') then Inl Dev_Tool_Name
      else if is_tool_addition b
      then (if hasOwn b ''tool'' then Inl Dev_Inline_Tool else developer_blocks bs True)
      else developer_blocks bs has)"

definition validate_message_event :: "string \<Rightarrow> json \<Rightarrow> (surface_error, unit) res" where
  "validate_message_event t data =
     (if isSurfaceEligibleType t \<and> isRecord data then
        (case (if t = ''user/message'' then Some data else jget data ''message'') of
           None \<Rightarrow> Inr ()
         | Some message \<Rightarrow>
             if \<not> isRecord message then Inr ()
             else rbind (require ((t = ''developer/message'')
                            = (jget message ''role'' = Some (JStr ''developer''))) Dev_Role)
               (\<lambda>_. case jarr (jget message ''content'') of
                  None \<Rightarrow> Inr ()
                | Some blocks \<Rightarrow>
                    rbind (require (\<not> (jget message ''role'' \<noteq> Some (JStr ''developer'')
                                      \<and> list_ex is_tool_change blocks)) Dev_Blocks_Role)
                      (\<lambda>_. if t \<noteq> ''developer/message'' then Inr ()
                          else rbind (developer_blocks blocks False)
                            (\<lambda>has. require
                               (if has then (case jget data ''headerSeq'' of Some s \<Rightarrow> isEventSeq s | None \<Rightarrow> False)
                                else \<not> hasOwn data ''headerSeq'') Dev_HeaderSeq))))
      else Inr ())"

definition validateSessionEventData :: "string \<Rightarrow> json \<Rightarrow> (surface_error, unit) res" where
  "validateSessionEventData t data =
     rbind (validate_message_event t data)
       (\<lambda>_. if t = ''request/header'' then
              rbind (require (isRecord data) Header_Data) (\<lambda>_.
              case jget data ''header'' of
                None \<Rightarrow> Inl Header_Not_Object
              | Some header \<Rightarrow>
                  rbind (require (isRecord header) Header_Not_Object) (\<lambda>_.
                  rbind (require (\<not> hasOwn header ''system'') Header_System) (\<lambda>_.
                  rbind (require (jget header ''tools'' \<noteq> Some (JArr [])) Header_Empty_Tools) (\<lambda>_.
                  require (jget header ''adapterDefaults'' \<noteq> Some (JObj [])) Header_Empty_Defaults))))
            else if t = ''tool/result'' then
              rbind (require (isRecord data) Result_Data) (\<lambda>_.
              if jget data ''error'' = None then Inr ()
              else require (case jget data ''message'' of
                              Some m \<Rightarrow> isRecord m \<and> jget m ''isError'' = Some (JBool True)
                            | None \<Rightarrow> False) Result_Error)
            else Inr ())"

fun isReplaceOp :: "json \<Rightarrow> bool" where
  "isReplaceOp (JObj fs) =
     (length fs = 3 \<and> hasOwn (JObj fs) ''op'' \<and> hasOwn (JObj fs) ''startSeq'' \<and> hasOwn (JObj fs) ''endSeq''
      \<and> jget (JObj fs) ''op'' = Some (JStr ''replace'')
      \<and> (case jget (JObj fs) ''startSeq'' of Some s \<Rightarrow> isEventSeq s | None \<Rightarrow> False)
      \<and> (case jget (JObj fs) ''endSeq'' of Some s \<Rightarrow> isEventSeq s | None \<Rightarrow> False))"
| "isReplaceOp _ = False"

definition seq_field :: "json \<Rightarrow> string \<Rightarrow> nat" where
  "seq_field op k = (case jget op k of Some s \<Rightarrow> seq_val s | None \<Rightarrow> 0)"

definition surfaceOpOf :: "raw_event \<Rightarrow> (surface_error, surface_op_t option) res" where
  "surfaceOpOf e =
     (if \<not> isSurfaceEligibleType (etype e) then
        (if \<not> List.member KNOWN_SESSION_EVENT_TYPES (etype e) \<and> ignorable e then Inr None
         else if surface_op e \<noteq> None then Inl Not_Eligible_SurfaceOp
         else if source_seqs e \<noteq> None then Inl Not_Eligible_Sources
         else Inr None)
      else case surface_op e of
        None \<Rightarrow> Inl Missing_SurfaceOp
      | Some op \<Rightarrow>
          if op = JStr ''append'' then Inr (Some OpAppend)
          else if \<not> isRecord op then Inl Invalid_SurfaceOp
          else if \<not> isReplaceOp op then Inl Invalid_ReplaceOp
          else Inr (Some (OpReplace (seq_field op ''startSeq'') (seq_field op ''endSeq''))))"

text \<open>The cited sources of an event, read from its raw \<open>sourceEventSeqs\<close>.\<close>

fun cited :: "json option \<Rightarrow> nat list" where
  "cited (Some (JArr xs)) = map seq_val xs"
| "cited _ = []"

definition assertSourceEventReferences :: "raw_event \<Rightarrow> nat list \<Rightarrow> (surface_error, unit) res" where
  "assertSourceEventReferences e shadowed =
     (if etype e = ''assistant/message'' \<and> source_seqs e \<noteq> None then Inl Assistant_Sources
      else rbind
        (case source_seqs e of
           None \<Rightarrow> Inr ()
         | Some (JArr xs) \<Rightarrow>
             if xs = [] then Inl Sources_Empty
             else if \<not> list_all isEventSeq xs then Inl Sources_Not_Seqs
             else if \<not> distinct (map seq_val xs) then Inl Sources_Duplicate
             else if list_ex (\<lambda>s. eseq e \<le> seq_val s) xs then Inl Sources_Not_Earlier
             else Inr ()
         | Some _ \<Rightarrow> Inl Sources_Not_Array)
        (\<lambda>_. require (filter (\<lambda>s. \<not> List.member (cited (source_seqs e)) s) shadowed = [])
               Sources_Missing))"

definition validateSurfaceMetadata :: "raw_event \<Rightarrow> (surface_error, surface_op_t option) res" where
  "validateSurfaceMetadata e =
     rbind (surfaceOpOf e) (\<lambda>op.
       case op of
         None \<Rightarrow> Inr None
       | Some OpAppend \<Rightarrow> rbind (assertSourceEventReferences e []) (\<lambda>_. Inr op)
       | Some (OpReplace s t) \<Rightarrow>
           rbind (require (s < eseq e \<and> t < eseq e) Replace_Not_Earlier) (\<lambda>_.
           rbind (assertSourceEventReferences e []) (\<lambda>_. Inr op)))"

section \<open>Planning and committing one transition\<close>

text \<open>A plugin's interpreter of message changes; \<open>p_id\<close> is the identity of the definition object.\<close>

record projection_def =
  p_id :: nat
  p_type :: string
  p_project :: "raw_event \<Rightarrow> nat list \<Rightarrow> raw_event list \<Rightarrow> nat \<Rightarrow> (nat, json) amap
                  \<Rightarrow> (surface_error, (nat, json) amap) res"

record surface_state =
  nodes :: "nat list"
  replaceGeneration :: nat
  contentGeneration :: nat
  projectedMessages :: "(nat, json) amap"
  used_projections :: "(nat \<times> string) list"

definition createFoldState :: surface_state where
  "createFoldState = \<lparr>nodes = [], replaceGeneration = 0, contentGeneration = 0,
     projectedMessages = [], used_projections = []\<rparr>"

datatype surface_plan =
    PAppend nat
  | PReplace nat nat nat nat nat "nat list"
      \<comment> \<open>seq, start, end, startIdx, endIdx, shadowedSeqs\<close>
  | PProject nat string "(nat, json) amap"

record replacement =
  r_seq :: nat
  r_start :: nat
  r_end :: nat
  shadowedSeqs :: "nat list"

definition event_at :: "raw_event list \<Rightarrow> nat \<Rightarrow> nat \<Rightarrow> raw_event option" where
  "event_at events base s =
     (if base \<le> s \<and> s - base < length events then Some (events ! (s - base)) else None)"

definition replacementRange :: "surface_state \<Rightarrow> nat \<Rightarrow> nat \<Rightarrow> (surface_error, nat \<times> nat \<times> nat list) res" where
  "replacementRange st s t =
     (case index_of (nodes st) s of
        None \<Rightarrow> Inl Start_Not_Found
      | Some i \<Rightarrow>
          (case index_of (nodes st) t of
             None \<Rightarrow> Inl End_Not_Found
           | Some j \<Rightarrow>
               if i > j then Inl Start_After_End
               else Inr (i, j, take (j + 1 - i) (drop i (nodes st)))))"

definition header_tools :: "raw_event \<Rightarrow> json list" where
  "header_tools h =
     (case jget (edata h) ''header'' of
        None \<Rightarrow> []
      | Some hdr \<Rightarrow> (case jarr (jget hdr ''tools'') of None \<Rightarrow> [] | Some ts \<Rightarrow> ts))"

definition check_addition :: "raw_event \<Rightarrow> json \<Rightarrow> (surface_error, unit) res" where
  "check_addition h block =
     (if \<not> is_tool_addition block then Inr ()
      else case filter (\<lambda>tool. jget tool ''name'' = jget block ''toolName'') (header_tools h) of
        [definition] \<Rightarrow>
          rbind (require ((case jget definition ''description'' of Some (JStr _) \<Rightarrow> True | _ \<Rightarrow> False)
                    \<and> (case jget definition ''parameters'' of Some ps \<Rightarrow> isRecord ps | None \<Rightarrow> False))
                   Dev_Tool_Incomplete)
            (\<lambda>_. require (\<not> (hasOwn definition ''deferLoading''
                             \<and> jget definition ''deferLoading'' \<noteq> Some (JBool True))) Dev_Defer_Loading)
      | _ \<Rightarrow> Inl Dev_Tool_Count)"

fun check_additions :: "raw_event \<Rightarrow> json list \<Rightarrow> (surface_error, unit) res" where
  "check_additions h [] = Inr ()"
| "check_additions h (b # bs) = rbind (check_addition h b) (\<lambda>_. check_additions h bs)"

definition message_content :: "json \<Rightarrow> json list" where
  "message_content data =
     (case jget data ''message'' of
        None \<Rightarrow> []
      | Some m \<Rightarrow> (case jarr (jget m ''content'') of None \<Rightarrow> [] | Some bs \<Rightarrow> bs))"

definition assertDeveloperHeader :: "raw_event \<Rightarrow> raw_event list \<Rightarrow> nat \<Rightarrow> (surface_error, unit) res" where
  "assertDeveloperHeader e events base =
     (if etype e \<noteq> ''developer/message'' then Inr ()
      else rbind (validateSessionEventData (etype e) (edata e)) (\<lambda>_.
        case jget (edata e) ''headerSeq'' of
          None \<Rightarrow> Inr ()
        | Some hs \<Rightarrow>
            (case event_at events base (seq_val hs) of
               Some h \<Rightarrow>
                 if seq_val hs \<ge> eseq e \<or> etype h \<noteq> ''request/header'' then Inl Dev_Header_Ref
                 else check_additions h (message_content (edata e))
             | None \<Rightarrow> Inl Dev_Header_Ref)))"

definition without_content :: "json \<Rightarrow> json" where
  "without_content data =
     jset data ''message''
       (case jget data ''message'' of
          Some (JObj fs) \<Rightarrow> jset (JObj fs) ''content'' JNull
        | _ \<Rightarrow> JObj [(''content'', JNull)])"

definition assertToolResultRewrite ::
  "raw_event \<Rightarrow> nat list \<Rightarrow> raw_event list \<Rightarrow> nat \<Rightarrow> (surface_error, unit) res" where
  "assertToolResultRewrite e shadowed events base =
     (if etype e \<noteq> ''tool/result'' then Inr ()
      else case shadowed of
        [s] \<Rightarrow>
          (case event_at events base s of
             Some original \<Rightarrow>
               if etype original \<noteq> ''tool/result'' then Inl Result_Target
               else require (isDeepEqualJson (without_content (edata original))
                               (without_content (edata e))) Result_Only_Content
           | None \<Rightarrow> Inl Result_Target)
      | _ \<Rightarrow> Inl Result_One_Node)"

definition assertSystemHeadRewrite ::
  "raw_event \<Rightarrow> surface_state \<Rightarrow> nat \<Rightarrow> nat list \<Rightarrow> raw_event list \<Rightarrow> nat \<Rightarrow> (surface_error, unit) res" where
  "assertSystemHeadRewrite e st startIdx shadowed events base =
     (if startIdx \<noteq> 0 then Inr ()
      else case nodes st of
        [] \<Rightarrow> Inr ()
      | n # _ \<Rightarrow>
          (case event_at events base n of
             Some hdr \<Rightarrow>
               if etype hdr \<noteq> ''system/message'' then Inr ()
               else require (etype e = ''system/message'' \<and> length shadowed = 1) System_Head
           | None \<Rightarrow> Inr ()))"

definition find_projection :: "projection_def list \<Rightarrow> string \<Rightarrow> projection_def option" where
  "find_projection ps t = List.find (\<lambda>p. p_type p = t) ps"

definition plan_replace ::
  "surface_state \<Rightarrow> raw_event \<Rightarrow> nat \<Rightarrow> nat \<Rightarrow> raw_event list \<Rightarrow> nat \<Rightarrow> (surface_error, surface_plan option) res" where
  "plan_replace st e s t events base =
     rbind (replacementRange st s t) (\<lambda>(i, j, shadowed).
     rbind (assertSourceEventReferences e shadowed) (\<lambda>_.
     rbind (assertToolResultRewrite e shadowed events base) (\<lambda>_.
     rbind (assertSystemHeadRewrite e st i shadowed events base) (\<lambda>_.
     Inr (Some (PReplace (eseq e) s t i j shadowed))))))"

definition planSurfaceEvent ::
  "projection_def list \<Rightarrow> surface_state \<Rightarrow> raw_event \<Rightarrow> nat \<Rightarrow> raw_event list \<Rightarrow> nat
     \<Rightarrow> (surface_error, surface_plan option) res" where
  "planSurfaceEvent ps st e expectedSeq events base =
     (if eseq e \<noteq> expectedSeq then Inl Not_Contiguous
      else rbind (validateSurfaceMetadata e) (\<lambda>op.
        rbind (assertDeveloperHeader e events base) (\<lambda>_.
        case find_projection ps (etype e) of
          Some p \<Rightarrow> rbind (p_project p e (nodes st) events base (projectedMessages st))
                      (\<lambda>ms. Inr (Some (PProject (p_id p) (p_type p) ms)))
        | None \<Rightarrow>
            if List.member MESSAGE_PROJECTION_EVENT_TYPES (etype e)
            then Inl (Missing_Projection (etype e))
            else (case op of
                None \<Rightarrow> Inr None
              | Some OpAppend \<Rightarrow> Inr (Some (PAppend (eseq e)))
              | Some (OpReplace s t) \<Rightarrow> plan_replace st e s t events base))))"

fun set_all :: "(nat, json) amap \<Rightarrow> (nat, json) amap \<Rightarrow> (nat, json) amap" where
  "set_all m [] = m"
| "set_all m ((s, msg) # ms) = set_all (amap_set m s msg) ms"

fun applySurfacePlan :: "surface_state \<Rightarrow> surface_plan option \<Rightarrow> surface_state" where
  "applySurfacePlan st None = st"
| "applySurfacePlan st (Some (PAppend s)) = st\<lparr>nodes := nodes st @ [s]\<rparr>"
| "applySurfacePlan st (Some (PReplace s _ _ i j _)) =
     st\<lparr>nodes := spliced (nodes st) i (j - i + 1) [s],
        replaceGeneration := replaceGeneration st + 1,
        contentGeneration := contentGeneration st + 1\<rparr>"
| "applySurfacePlan st (Some (PProject pid t ms)) =
     st\<lparr>projectedMessages := set_all (projectedMessages st) ms,
        used_projections := (if List.member (used_projections st) (pid, t) then used_projections st
                             else used_projections st @ [(pid, t)]),
        contentGeneration := contentGeneration st + 1\<rparr>"

fun plan_replacement :: "surface_plan option \<Rightarrow> replacement option" where
  "plan_replacement (Some (PReplace s a b _ _ sh)) =
     Some \<lparr>r_seq = s, r_start = a, r_end = b, shadowedSeqs = sh\<rparr>"
| "plan_replacement _ = None"

definition applySurfaceEvent ::
  "projection_def list \<Rightarrow> surface_state \<Rightarrow> raw_event \<Rightarrow> nat \<Rightarrow> raw_event list \<Rightarrow> nat
     \<Rightarrow> (surface_error, surface_state \<times> replacement option) res" where
  "applySurfaceEvent ps st e expectedSeq events base =
     rbind (planSurfaceEvent ps st e expectedSeq events base)
       (\<lambda>plan. Inr (applySurfacePlan st plan, plan_replacement plan))"

section \<open>The complete fold\<close>

text \<open>\<open>fold_rest\<close> is the loop of \<open>foldSurface\<close> from index \<open>k\<close> on, over the events not yet applied.\<close>

fun fold_rest ::
  "projection_def list \<Rightarrow> raw_event list \<Rightarrow> nat \<Rightarrow> nat \<Rightarrow> surface_state \<times> replacement list \<Rightarrow> raw_event list
     \<Rightarrow> (surface_error, surface_state \<times> replacement list) res" where
  "fold_rest ps events base k acc [] = Inr acc"
| "fold_rest ps events base k (st, rs) (e # es) =
     rbind (applySurfaceEvent ps st e (base + k) events base)
       (\<lambda>(st', r). fold_rest ps events base (Suc k)
          (st', case r of None \<Rightarrow> rs | Some x \<Rightarrow> rs @ [x]) es)"

definition foldSurface ::
  "projection_def list \<Rightarrow> raw_event list \<Rightarrow> (surface_error, surface_state \<times> replacement list) res" where
  "foldSurface ps events = fold_rest ps events 0 0 (createFoldState, []) events"

section \<open>The incremental manager\<close>

record manager =
  mstate :: surface_state
  lastProcessed :: int
  pending :: "(raw_event \<times> nat \<times> surface_plan option) option"

definition new_manager :: "nat \<Rightarrow> manager" where
  "new_manager base = \<lparr>mstate = createFoldState, lastProcessed = int base - 1, pending = None\<rparr>"

text \<open>One turn of \<open>_processDelta\<close>'s loop; an error leaves the earlier turns committed.\<close>

definition delta_turn ::
  "projection_def list \<Rightarrow> raw_event list \<Rightarrow> nat \<Rightarrow> manager \<Rightarrow> nat \<Rightarrow> raw_event \<Rightarrow> (surface_error, manager) res" where
  "delta_turn ps evs base m s e =
     (let planned = (case pending m of
                       Some (pe, ps', plan) \<Rightarrow> if oref pe = oref e \<and> ps' = s then Some plan else None
                     | None \<Rightarrow> None);
          result = (case planned of
                      Some plan \<Rightarrow> Inr (applySurfacePlan (mstate m) plan)
                    | None \<Rightarrow> rbind (applySurfaceEvent ps (mstate m) e s evs base) (\<lambda>(st, _). Inr st))
      in rbind result (\<lambda>st. Inr (m\<lparr>mstate := st,
           pending := (case pending m of Some (pe, ps', plan) \<Rightarrow> if ps' \<le> s then None else pending m
                                       | None \<Rightarrow> None),
           lastProcessed := int s\<rparr>)))"

fun processDelta_from ::
  "projection_def list \<Rightarrow> raw_event list \<Rightarrow> nat \<Rightarrow> manager \<Rightarrow> nat \<Rightarrow> raw_event list \<Rightarrow> manager \<times> surface_error option" where
  "processDelta_from ps evs base m s [] = (m, None)"
| "processDelta_from ps evs base m s (e # es) =
     (case delta_turn ps evs base m s e of
        Inl err \<Rightarrow> (m, Some err)
      | Inr m' \<Rightarrow> processDelta_from ps evs base m' (Suc s) es)"

definition processDelta ::
  "projection_def list \<Rightarrow> raw_event list \<Rightarrow> nat \<Rightarrow> manager \<Rightarrow> manager \<times> surface_error option" where
  "processDelta ps evs base m =
     (let s = nat (lastProcessed m + 1) in processDelta_from ps evs base m s (drop (s - base) evs))"

definition assertProjections ::
  "projection_def list \<Rightarrow> raw_event list \<Rightarrow> nat \<Rightarrow> manager \<Rightarrow> (surface_error, unit) res" where
  "assertProjections ps evs base m =
     (let extra = (case pending m of
                     Some (pe, s, Some (PProject pid t ms)) \<Rightarrow>
                       (case event_at evs base s of
                          Some e \<Rightarrow> if oref e = oref pe then [(pid, t)] else []
                        | None \<Rightarrow> [])
                   | _ \<Rightarrow> [])
      in case List.find (\<lambda>(pid, t). \<not> list_ex (\<lambda>p. p_id p = pid) ps) (used_projections (mstate m) @ extra) of
           None \<Rightarrow> Inr ()
         | Some (pid, t) \<Rightarrow> Inl (Projection_Removed t))"

text \<open>Every getter synchronises first; \<open>validateNext\<close> then plans the candidate.\<close>

definition synchronize ::
  "projection_def list \<Rightarrow> raw_event list \<Rightarrow> nat \<Rightarrow> manager \<Rightarrow> manager \<times> surface_error option" where
  "synchronize ps evs base m =
     (case assertProjections ps evs base m of
        Inl err \<Rightarrow> (m, Some err)
      | Inr _ \<Rightarrow>
          if lastProcessed m < int base + int (length evs) - 1 then processDelta ps evs base m
          else (m, None))"

definition validateNext ::
  "projection_def list \<Rightarrow> raw_event list \<Rightarrow> nat \<Rightarrow> manager \<Rightarrow> raw_event \<Rightarrow> manager \<times> surface_error option" where
  "validateNext ps evs base m e =
     (case synchronize ps evs base m of
        (m', Some err) \<Rightarrow> (m', Some err)
      | (m', None) \<Rightarrow>
          (let s = base + length evs in
           case planSurfaceEvent ps (mstate m') e s evs base of
             Inl err \<Rightarrow> (m', Some err)
           | Inr plan \<Rightarrow> (m'\<lparr>pending := Some (e, s, plan)\<rparr>, None)))"

definition manager_nodes ::
  "projection_def list \<Rightarrow> raw_event list \<Rightarrow> nat \<Rightarrow> manager \<Rightarrow> manager \<times> (surface_error, nat list) res" where
  "manager_nodes ps evs base m =
     (case synchronize ps evs base m of
        (m', Some err) \<Rightarrow> (m', Inl err)
      | (m', None) \<Rightarrow> (m', Inr (nodes (mstate m'))))"

definition manager_derive ::
  "projection_def list \<Rightarrow> raw_event list \<Rightarrow> nat \<Rightarrow> manager \<Rightarrow> raw_event
     \<Rightarrow> manager \<times> (surface_error, json option) res" where
  "manager_derive ps evs base m e =
     (case synchronize ps evs base m of
        (m', Some err) \<Rightarrow> (m', Inl err)
      | (m', None) \<Rightarrow> (m', Inr (deriveEventMessage e (projectedMessages (mstate m')))))"

end
