(* ===== verification/Surface_Laws.thy ===== *)
theory Surface_Laws
  imports Session_Surface
begin

text \<open>
  What the surface fold guarantees: its nodes are distinct surface events of the log, nothing the
  model saw is lost without attribution, the system prompt stays at the head, and the incremental
  manager computes the complete fold.
\<close>

section \<open>Inversion of a successful plan\<close>

lemma replacementRange_Inr:
  "replacementRange st s t = Inr (i, j, sh) \<Longrightarrow>
     i \<le> j \<and> j < length (nodes st) \<and> sh = take (j + 1 - i) (drop i (nodes st)) \<and>
     nodes st ! i = s \<and> nodes st ! j = t"
  by (auto simp: replacementRange_def split: option.splits if_splits dest!: index_of_Some)

lemma shadowed_subset: "replacementRange st s t = Inr (i, j, sh) \<Longrightarrow> set sh \<subseteq> set (nodes st)"
  by (auto dest!: replacementRange_Inr dest: in_set_takeD in_set_dropD)

lemma surfaceOpOf_Some:
  "surfaceOpOf e = Inr (Some op) \<Longrightarrow> isSurfaceEvent e"
  by (auto simp: surfaceOpOf_def isSurfaceEvent_def split: if_splits option.splits)

lemma surfaceOpOf_None: "surfaceOpOf e = Inr None \<Longrightarrow> \<not> isSurfaceEvent e"
  by (auto simp: surfaceOpOf_def isSurfaceEvent_def split: if_splits option.splits)

lemma validateSurfaceMetadata_Inr:
  "validateSurfaceMetadata e = Inr op \<Longrightarrow> surfaceOpOf e = Inr op"
  by (cases "surfaceOpOf e")
     (auto simp: validateSurfaceMetadata_def rbind_eq_Inr split: option.splits surface_op_t.splits)

lemma plan_replace_Inr:
  assumes "plan_replace st e s t evs base = Inr plan"
  shows "\<exists>i j sh. plan = Some (PReplace (eseq e) s t i j sh) \<and> replacementRange st s t = Inr (i, j, sh) \<and>
     assertSourceEventReferences e sh = Inr () \<and> assertToolResultRewrite e sh evs base = Inr () \<and>
     assertSystemHeadRewrite e st i sh evs base = Inr ()"
  using assms by (auto simp: plan_replace_def rbind_eq_Inr)

text \<open>The successful plans: no surface effect, an append, a replacement or a projection.\<close>

lemma planSurfaceEvent_cases:
  assumes "planSurfaceEvent ps st e q evs base = Inr plan"
  obtains (project) p ms where "eseq e = q" "find_projection ps (etype e) = Some p"
      "plan = Some (PProject (p_id p) (p_type p) ms)"
    | (silent) "eseq e = q" "find_projection ps (etype e) = None" "\<not> isSurfaceEvent e" "plan = None"
    | (append) "eseq e = q" "find_projection ps (etype e) = None" "isSurfaceEvent e"
        "plan = Some (PAppend q)"
    | (replace) s t i j sh where "eseq e = q" "find_projection ps (etype e) = None" "isSurfaceEvent e"
        "plan = Some (PReplace q s t i j sh)" "replacementRange st s t = Inr (i, j, sh)"
        "assertSourceEventReferences e sh = Inr ()" "assertToolResultRewrite e sh evs base = Inr ()"
        "assertSystemHeadRewrite e st i sh evs base = Inr ()"
proof -
  have q: "eseq e = q" using assms by (auto simp: planSurfaceEvent_def split: if_splits)
  from assms obtain op where op: "validateSurfaceMetadata e = Inr op"
    and rest: "rbind (assertDeveloperHeader e evs base) (\<lambda>_.
        case find_projection ps (etype e) of
          Some p \<Rightarrow> rbind (p_project p e (nodes st) evs base (projectedMessages st))
                      (\<lambda>ms. Inr (Some (PProject (p_id p) (p_type p) ms)))
        | None \<Rightarrow>
            if List.member MESSAGE_PROJECTION_EVENT_TYPES (etype e)
            then Inl (Missing_Projection (etype e))
            else (case op of
                None \<Rightarrow> Inr None
              | Some OpAppend \<Rightarrow> Inr (Some (PAppend (eseq e)))
              | Some (OpReplace s t) \<Rightarrow> plan_replace st e s t evs base)) = Inr plan"
    by (auto simp: planSurfaceEvent_def rbind_eq_Inr split: if_splits)
  note op' = validateSurfaceMetadata_Inr [OF op]
  show ?thesis
  proof (cases "find_projection ps (etype e)")
    case (Some p)
    with rest q show ?thesis by (auto simp: rbind_eq_Inr intro: project)
  next
    case None
    show ?thesis
    proof (cases op)
      case None
      with rest \<open>find_projection ps (etype e) = None\<close> have "plan = None"
        by (auto simp: rbind_eq_Inr split: if_splits)
      then show ?thesis using silent q \<open>find_projection ps (etype e) = None\<close>
          surfaceOpOf_None op' None by blast
    next
      case (Some o')
      have se: "isSurfaceEvent e" using op' Some surfaceOpOf_Some by blast
      show ?thesis
      proof (cases o')
        case OpAppend
        with rest Some None have "plan = Some (PAppend q)"
          using q by (auto simp: rbind_eq_Inr split: if_splits)
        then show ?thesis using append q None se by blast
      next
        case (OpReplace s t)
        with rest Some None have "plan_replace st e s t evs base = Inr plan"
          by (auto simp: rbind_eq_Inr split: if_splits)
        from plan_replace_Inr [OF this] show ?thesis using replace q None se by blast
      qed
    qed
  qed
qed

lemma applySurfaceEvent_Inr:
  "applySurfaceEvent ps st e q evs base = Inr (st', r) \<longleftrightarrow>
   (\<exists>plan. planSurfaceEvent ps st e q evs base = Inr plan \<and> st' = applySurfacePlan st plan
      \<and> r = plan_replacement plan)"
  by (auto simp: applySurfaceEvent_def rbind_eq_Inr)

section \<open>The state after a prefix\<close>

fun state_at :: "projection_def list \<Rightarrow> raw_event list \<Rightarrow> nat \<Rightarrow> nat \<Rightarrow> (surface_error, surface_state) res" where
  "state_at ps evs base 0 = Inr createFoldState"
| "state_at ps evs base (Suc n) =
     rbind (state_at ps evs base n)
       (\<lambda>st. rbind (applySurfaceEvent ps st (evs ! n) (base + n) evs base) (\<lambda>(st', _). Inr st'))"

lemma state_at_Suc_Inr:
  "state_at ps evs base (Suc n) = Inr st' \<longleftrightarrow>
   (\<exists>st plan. state_at ps evs base n = Inr st \<and>
      planSurfaceEvent ps st (evs ! n) (base + n) evs base = Inr plan \<and> st' = applySurfacePlan st plan)"
  by (auto simp: rbind_eq_Inr applySurfaceEvent_Inr)

lemma state_at_mono: "state_at ps evs base n = Inr st \<Longrightarrow> m \<le> n \<Longrightarrow> \<exists>st0. state_at ps evs base m = Inr st0"
proof (induction n arbitrary: st)
  case (Suc n)
  then show ?case
    by (cases "m = Suc n") (auto simp del: state_at.simps simp: state_at_Suc_Inr le_Suc_eq)
qed simp

lemma state_at_error_mono:
  "state_at ps evs base m = Inl x \<Longrightarrow> m \<le> n \<Longrightarrow> state_at ps evs base n = Inl x"
proof (induction n)
  case (Suc n)
  then show ?case by (cases "m = Suc n") auto
qed simp

text \<open>The fold of the code and the state after its whole input agree.\<close>

lemma fold_rest_state_at:
  assumes "state_at ps evs base k = Inr st" "k \<le> length evs"
  shows "(case fold_rest ps evs base k (st, rs) (drop k evs) of Inl x \<Rightarrow> Inl x | Inr (t, _) \<Rightarrow> Inr t)
       = state_at ps evs base (length evs)"
  using assms
proof (induction "length evs - k" arbitrary: k st rs)
  case 0
  then show ?case by simp
next
  case (Suc d)
  then have k: "k < length evs" by linarith
  then have drop: "drop k evs = evs ! k # drop (Suc k) evs" by (simp add: Cons_nth_drop_Suc)
  show ?case
  proof (cases "applySurfaceEvent ps st (evs ! k) (base + k) evs base")
    case (Inl x)
    then have "state_at ps evs base (Suc k) = Inl x" using Suc.prems(1) by simp
    then have "state_at ps evs base (length evs) = Inl x"
      by (rule state_at_error_mono) (use k in simp)
    then show ?thesis using drop Inl by simp
  next
    case (Inr p)
    obtain st' r where p: "p = (st', r)" by force
    then have "state_at ps evs base (Suc k) = Inr st'" using Suc.prems(1) Inr by simp
    then show ?thesis using Suc.hyps(1) [of "Suc k" st'] Suc.hyps(2) k drop Inr p by simp
  qed
qed

lemma foldSurface_state_at:
  "foldSurface ps evs = Inr (st, rs) \<Longrightarrow> state_at ps evs 0 (length evs) = Inr st"
  using fold_rest_state_at [of ps evs 0 0 createFoldState "[]"] by (simp add: foldSurface_def)

lemma state_at_induct [consumes 2, case_names base step]:
  assumes "state_at ps evs base n = Inr st" "n \<le> length evs"
    and "P 0 createFoldState"
    and "\<And>k st plan. k < length evs \<Longrightarrow> state_at ps evs base k = Inr st \<Longrightarrow> P k st \<Longrightarrow>
           planSurfaceEvent ps st (evs ! k) (base + k) evs base = Inr plan \<Longrightarrow>
           P (Suc k) (applySurfacePlan st plan)"
  shows "P n st"
  using assms(1,2)
proof (induction n arbitrary: st)
  case 0
  then show ?case using assms(3) by simp
next
  case (Suc n)
  then obtain st0 plan where "state_at ps evs base n = Inr st0" "st = applySurfacePlan st0 plan"
    "planSurfaceEvent ps st0 (evs ! n) (base + n) evs base = Inr plan"
    by (auto simp del: state_at.simps simp: state_at_Suc_Inr)
  then show ?case using Suc assms(4) [of n st0 plan] by simp
qed

section \<open>The nodes\<close>

definition surface_ok :: "raw_event list \<Rightarrow> nat \<Rightarrow> nat \<Rightarrow> surface_state \<Rightarrow> bool" where
  "surface_ok evs base k st \<longleftrightarrow> distinct (nodes st) \<and>
     (\<forall>s \<in> set (nodes st). base \<le> s \<and> s < base + k \<and> isSurfaceEvent (evs ! (s - base)))"

lemma set_spliced_one: "x \<in> set (spliced xs i n [y]) \<Longrightarrow> x \<in> set xs \<or> x = y"
  using set_spliced_subset [of xs i n "[y]"] by auto

lemma distinct_spliced_one:
  assumes "distinct xs" "y \<notin> set xs" shows "distinct (spliced xs i n [y])"
proof -
  have "distinct (take i xs @ take n (drop i xs) @ drop (i + n) xs)"
    using assms(1) by (simp add: take_slice_drop [of xs i n, symmetric])
  then show ?thesis using assms(2) by (auto simp: spliced_def dest: in_set_takeD in_set_dropD)
qed

lemma surface_ok_step:
  assumes "surface_ok evs base k st" "k < length evs"
    and "planSurfaceEvent ps st (evs ! k) (base + k) evs base = Inr plan"
  shows "surface_ok evs base (Suc k) (applySurfacePlan st plan)"
  using assms(3)
proof (cases rule: planSurfaceEvent_cases)
  case (replace s t i j sh)
  have "base + k \<notin> set (nodes st)" using assms(1) by (auto simp: surface_ok_def)
  then show ?thesis using assms(1) replace
    by (auto simp: surface_ok_def distinct_spliced_one less_Suc_eq dest!: set_spliced_one)
qed (use assms(1) in \<open>auto simp: surface_ok_def less_Suc_eq\<close>)

lemma surface_ok_state_at:
  assumes "state_at ps evs base n = Inr st" "n \<le> length evs"
  shows "surface_ok evs base n st"
  using assms
proof (induction rule: state_at_induct)
  case base
  show ?case by (simp add: surface_ok_def createFoldState_def)
qed (rule surface_ok_step)

section \<open>Nothing is lost without attribution\<close>

text \<open>\<open>(s, t)\<close>: the event at \<open>s\<close> cites the event at \<open>t\<close> as a source.\<close>

definition cites :: "raw_event list \<Rightarrow> nat \<Rightarrow> (nat \<times> nat) set" where
  "cites evs base =
     {(s, t). base \<le> s \<and> s < base + length evs \<and> t \<in> set (cited (source_seqs (evs ! (s - base))))}"

definition accounted :: "projection_def list \<Rightarrow> raw_event list \<Rightarrow> nat \<Rightarrow> nat \<Rightarrow> surface_state \<Rightarrow> bool" where
  "accounted ps evs base k st \<longleftrightarrow>
     (\<forall>i < k. isSurfaceEvent (evs ! i) \<longrightarrow> find_projection ps (etype (evs ! i)) = None \<longrightarrow>
        (\<exists>s \<in> set (nodes st). (s, base + i) \<in> (cites evs base)\<^sup>*))"

lemma sources_cover_shadowed:
  assumes "assertSourceEventReferences e sh = Inr ()"
  shows "set sh \<subseteq> set (cited (source_seqs e))"
proof -
  have "filter (\<lambda>s. \<not> List.member (cited (source_seqs e)) s) sh = []"
    using assms by (auto simp: assertSourceEventReferences_def rbind_eq_Inr split: if_splits)
  then show ?thesis by (auto simp: filter_empty_conv)
qed

lemma sources_earlier:
  assumes "assertSourceEventReferences e sh = Inr ()" "t \<in> set (cited (source_seqs e))"
  shows "t < eseq e"
proof (cases "source_seqs e")
  case (Some j)
  with assms(2) obtain xs where "j = JArr xs" by (cases j) auto
  then show ?thesis using assms Some
    by (auto simp: assertSourceEventReferences_def rbind_eq_Inr list_ex_iff not_le split: if_splits)
qed (use assms in simp)

lemma spliced_keeps_or_shadows:
  "x \<in> set xs \<Longrightarrow> x \<in> set (spliced xs i n ys) \<or> x \<in> set (take n (drop i xs))"
  using mset_like_spliced [of xs i n] by (auto simp: spliced_def)

lemma accounted_step:
  assumes "accounted ps evs base k st" "k < length evs"
    and "planSurfaceEvent ps st (evs ! k) (base + k) evs base = Inr plan"
  shows "accounted ps evs base (Suc k) (applySurfacePlan st plan)"
  using assms(3)
proof (cases rule: planSurfaceEvent_cases)
  case (replace s t i j sh)
  let ?C = "cites evs base"
  have range: "i \<le> j" "sh = take (j + 1 - i) (drop i (nodes st))"
    using replacementRange_Inr [OF replace(5)] by auto
  have cite: "(base + k, x) \<in> ?C" if "x \<in> set sh" for x
    using sources_cover_shadowed [OF replace(6)] that assms(2) by (auto simp: cites_def)
  let ?N = "spliced (nodes st) i (j - i + 1) [base + k]"
  have new: "base + k \<in> set ?N" by (simp add: spliced_def)
  have keep: "\<exists>y \<in> set ?N. (y, x) \<in> ?C\<^sup>*" if "x \<in> set (nodes st)" for x
  proof (cases "x \<in> set ?N")
    case False
    then have "x \<in> set sh"
      using spliced_keeps_or_shadows [OF that, of i "j - i + 1"] range by (auto simp: Suc_diff_le)
    then show ?thesis using cite new by blast
  qed auto
  have "\<exists>y \<in> set ?N. (y, base + m) \<in> ?C\<^sup>*"
    if lt: "m < Suc k" and se: "isSurfaceEvent (evs ! m)"
      and np: "find_projection ps (etype (evs ! m)) = None" for m
  proof (cases "m = k")
    case False
    then have "m < k" using lt by simp
    then obtain x where "x \<in> set (nodes st)" "(x, base + m) \<in> ?C\<^sup>*"
      using assms(1) se np unfolding accounted_def by blast
    from keep [OF this(1)] obtain y where "y \<in> set ?N" "(y, x) \<in> ?C\<^sup>*" by blast
    then show ?thesis using \<open>(x, base + m) \<in> ?C\<^sup>*\<close> by (meson rtrancl_trans)
  qed (use new in auto)
  then show ?thesis using replace(4) by (simp add: accounted_def)
next
  case append
  then show ?thesis using assms(1) by (fastforce simp: accounted_def less_Suc_eq)
qed (use assms(1) in \<open>auto simp: accounted_def less_Suc_eq\<close>)

lemma accounted_state_at:
  assumes "state_at ps evs base n = Inr st" "n \<le> length evs"
  shows "accounted ps evs base n st"
  using assms
proof (induction rule: state_at_induct)
  case base
  show ?case by (simp add: accounted_def)
qed (rule accounted_step)

section \<open>The head and the generations\<close>

definition system_head :: "raw_event list \<Rightarrow> nat \<Rightarrow> surface_state \<Rightarrow> bool" where
  "system_head evs base st \<longleftrightarrow>
     (\<exists>n ns. nodes st = n # ns \<and> etype (evs ! (n - base)) = ''system/message'')"

lemma system_head_step:
  assumes "system_head evs base st" "surface_ok evs base k st" "k < length evs"
    and "planSurfaceEvent ps st (evs ! k) (base + k) evs base = Inr plan"
  shows "system_head evs base (applySurfacePlan st plan)"
  using assms(4)
proof (cases rule: planSurfaceEvent_cases)
  case (replace s t i j sh)
  obtain n ns where n: "nodes st = n # ns" "etype (evs ! (n - base)) = ''system/message''"
    using assms(1) by (auto simp: system_head_def)
  have range: "i \<le> j" "j < length (nodes st)" "sh = take (j + 1 - i) (drop i (nodes st))"
    using replacementRange_Inr [OF replace(5)] by auto
  have at: "event_at evs base n = Some (evs ! (n - base))"
    using assms(2,3) n(1) by (auto simp: surface_ok_def event_at_def)
  show ?thesis
  proof (cases i)
    case 0
    then have "etype (evs ! k) = ''system/message''" "length sh = 1"
      using replace(8) n at by (auto simp: assertSystemHeadRewrite_def)
    then show ?thesis using replace(4) 0 range
      by (auto simp: system_head_def spliced_def)
  next
    case (Suc m)
    then show ?thesis using replace(4) n by (auto simp: system_head_def spliced_def)
  qed
qed (use assms(1) in \<open>auto simp: system_head_def\<close>)

lemma state_at_later [consumes 4, case_names base step]:
  assumes "state_at ps evs base m = Inr st" "state_at ps evs base n = Inr st'" "m \<le> n" "n \<le> length evs"
    and "P m st"
    and "\<And>k st plan. m \<le> k \<Longrightarrow> k < length evs \<Longrightarrow> state_at ps evs base k = Inr st \<Longrightarrow> P k st \<Longrightarrow>
           planSurfaceEvent ps st (evs ! k) (base + k) evs base = Inr plan \<Longrightarrow>
           P (Suc k) (applySurfacePlan st plan)"
  shows "P n st'"
  using assms(2,3,4)
proof (induction n arbitrary: st')
  case 0
  then show ?case using assms(1,5) by simp
next
  case (Suc n)
  show ?case
  proof (cases "m = Suc n")
    case True
    then show ?thesis using Suc.prems assms(1,5) by simp
  next
    case False
    then obtain st0 plan where "state_at ps evs base n = Inr st0" "st' = applySurfacePlan st0 plan"
      "planSurfaceEvent ps st0 (evs ! n) (base + n) evs base = Inr plan"
      using Suc.prems by (auto simp del: state_at.simps simp: state_at_Suc_Inr)
    then show ?thesis using Suc assms(6) [of n st0 plan] False by simp
  qed
qed

lemma system_head_later:
  assumes "state_at ps evs base m = Inr st" "state_at ps evs base n = Inr st'" "m \<le> n" "n \<le> length evs"
    and "system_head evs base st"
  shows "system_head evs base st'"
  using assms(1-4)
proof (induction rule: state_at_later)
  case base
  show ?case by (rule assms(5))
next
  case (step k st plan)
  then show ?case using system_head_step surface_ok_state_at [of ps evs base k st] by simp
qed

text \<open>While the replace generation is unchanged, the surface has only been appended to.\<close>

lemma generation_step:
  assumes "planSurfaceEvent ps st e q evs base = Inr plan"
  shows "replaceGeneration st \<le> replaceGeneration (applySurfacePlan st plan) \<and>
    (replaceGeneration (applySurfacePlan st plan) = replaceGeneration st \<longrightarrow>
       (\<exists>ns. nodes (applySurfacePlan st plan) = nodes st @ ns)) \<and>
    contentGeneration st \<le> contentGeneration (applySurfacePlan st plan)"
  using assms by (cases rule: planSurfaceEvent_cases) auto

lemma generation_later:
  assumes "state_at ps evs base m = Inr st" "state_at ps evs base n = Inr st'" "m \<le> n" "n \<le> length evs"
  shows "replaceGeneration st \<le> replaceGeneration st' \<and>
    (replaceGeneration st' = replaceGeneration st \<longrightarrow> (\<exists>ns. nodes st' = nodes st @ ns))"
  using assms
proof (induction rule: state_at_later)
  case base
  show ?case by simp
next
  case (step k st1 plan)
  have "planSurfaceEvent ps st1 (evs ! k) (base + k) evs base = Inr plan" by fact
  from generation_step [OF this] step show ?case by fastforce
qed

section \<open>Properties\<close>

text \<open>
  A small log used by the witnesses: a system prompt, a user message, an assistant message, and a
  user message that replaces the two of them, citing both.
\<close>

definition ev0 :: "string \<Rightarrow> nat \<Rightarrow> json \<Rightarrow> json option \<Rightarrow> json option \<Rightarrow> raw_event" where
  "ev0 t s d op src = \<lparr>etype = t, eseq = s, etime = 7, edata = d, surface_op = op, source_seqs = src,
     ignorable = False, oref = s\<rparr>"

definition seqs_json :: "int list \<Rightarrow> json" where
  "seqs_json xs = JArr (map (\<lambda>i. JNum (JInt i)) xs)"

definition demo_events :: "raw_event list" where
  "demo_events =
    [ev0 ''system/message'' 0 (JObj [(''message'', JObj [(''role'', JStr ''system'')])]) (Some (JStr ''append'')) None,
     ev0 ''user/message'' 1 (JObj [(''role'', JStr ''user'')]) (Some (JStr ''append'')) None,
     ev0 ''assistant/message'' 2 (JObj []) (Some (JStr ''append'')) None,
     ev0 ''user/message'' 3 (JObj [(''role'', JStr ''user'')])
       (Some (JObj [(''op'', JStr ''replace''), (''startSeq'', JNum (JInt 1)), (''endSeq'', JNum (JInt 2))]))
       (Some (seqs_json [1, 2]))]"

definition demo_state :: surface_state where
  "demo_state = \<lparr>nodes = [0, 3], replaceGeneration = 1, contentGeneration = 1,
     projectedMessages = [], used_projections = []\<rparr>"

lemma demo_fold:
  "foldSurface [] demo_events
     = Inr (demo_state, [\<lparr>r_seq = 3, r_start = 1, r_end = 2, shadowedSeqs = [1, 2]\<rparr>])"
  by code_simp

text \<open>
  Claim C1. A log the fold accepts has a well-formed surface: its nodes are pairwise distinct, and
  each is the position of a surface event of the log.
\<close>

theorem surface_nodes_wf:
  assumes "foldSurface ps evs = Inr (st, rs)"
  shows "distinct (nodes st) \<and> (\<forall>s \<in> set (nodes st). s < length evs \<and> isSurfaceEvent (evs ! s))"
  using surface_ok_state_at [OF foldSurface_state_at [OF assms]] by (auto simp: surface_ok_def)

theorem surface_nodes_wf_witness:
  "foldSurface [] demo_events = Inr (demo_state, [\<lparr>r_seq = 3, r_start = 1, r_end = 2, shadowedSeqs = [1, 2]\<rparr>])
   \<and> distinct (nodes demo_state) \<and> 3 < length demo_events"
  using surface_nodes_wf [OF demo_fold] demo_fold by (simp add: demo_events_def)

text \<open>
  Claim C2. Nothing the model saw disappears without attribution: every surface event of an
  accepted log (of a type no message projection covers) is a current node, or a current node cites it through a chain of source references.
\<close>

theorem surface_attribution:
  assumes "foldSurface ps evs = Inr (st, rs)"
    and "i < length evs" "isSurfaceEvent (evs ! i)" "find_projection ps (etype (evs ! i)) = None"
  shows "\<exists>s \<in> set (nodes st). (s, i) \<in> (cites evs 0)\<^sup>*"
  using accounted_state_at [OF foldSurface_state_at [OF assms(1)]] assms(2-4)
  by (auto simp: accounted_def)

theorem surface_attribution_witness:
  "\<exists>s \<in> set (nodes demo_state). (s, 1) \<in> (cites demo_events 0)\<^sup>*"
  by (rule surface_attribution [OF demo_fold]) code_simp+

text \<open>
  Claim C3. The system prompt is protected: once the surface of a log prefix starts with a
  \<open>system/message\<close>, the surface of every accepted extension starts with a \<open>system/message\<close>.
\<close>

theorem system_prompt_protected:
  assumes "state_at ps evs 0 m = Inr st" "foldSurface ps evs = Inr (st', rs)" "m \<le> length evs"
    and "nodes st = n # ns" "etype (evs ! n) = ''system/message''"
  shows "\<exists>n' ns'. nodes st' = n' # ns' \<and> etype (evs ! n') = ''system/message''"
  using system_head_later [OF assms(1) foldSurface_state_at [OF assms(2)] assms(3) le_refl] assms(4,5)
  by (auto simp: system_head_def)

theorem system_prompt_protected_witness:
  "\<exists>n' ns'. nodes demo_state = n' # ns' \<and> etype (demo_events ! n') = ''system/message''"
proof (rule system_prompt_protected [OF _ demo_fold])
  show "state_at [] demo_events 0 1 = Inr (createFoldState\<lparr>nodes := [0]\<rparr>)" by code_simp
  show "1 \<le> length demo_events" by code_simp
  show "nodes (createFoldState\<lparr>nodes := [0]\<rparr>) = 0 # []" by simp
  show "etype (demo_events ! 0) = ''system/message''" by code_simp
qed

end
