(* ===== verification/Surface_Manager.thy ===== *)
theory Surface_Manager
  imports Surface_Laws
begin

text \<open>
  The incremental \<open>SurfaceManager\<close> computes the complete fold, whatever the interleaving of
  validations, appends and reads. What the manager relies on: a plugin projection reads only the
  events before its candidate (its documented contract), and the identity of an event object
  determines its value (events are frozen).
\<close>

section \<open>Plans read only the prefix before their event\<close>

definition projection_local :: "projection_def \<Rightarrow> bool" where
  "projection_local p \<longleftrightarrow>
     (\<forall>e ns evs base ms n. eseq e = base + n \<longrightarrow> n \<le> length evs \<longrightarrow>
        p_project p e ns evs base ms = p_project p e ns (take n evs) base ms)"

definition projections_local :: "projection_def list \<Rightarrow> bool" where
  "projections_local ps \<longleftrightarrow> (\<forall>p \<in> set ps. projection_local p)"

lemma event_at_take: "s < base + n \<Longrightarrow> event_at (take n evs) base s = event_at evs base s"
  by (auto simp: event_at_def)

lemma event_at_take_ge: "base + n \<le> s \<Longrightarrow> event_at (take n evs) base s = None"
  by (auto simp: event_at_def)

lemma developer_header_local:
  assumes "eseq e = base + n"
  shows "assertDeveloperHeader e (take n evs) base = assertDeveloperHeader e evs base"
proof -
  have "(case event_at (take n evs) base q of
          Some h \<Rightarrow> if q \<ge> eseq e \<or> etype h \<noteq> ''request/header'' then Inl Dev_Header_Ref else f h
        | None \<Rightarrow> Inl Dev_Header_Ref)
      = (case event_at evs base q of
          Some h \<Rightarrow> if q \<ge> eseq e \<or> etype h \<noteq> ''request/header'' then Inl Dev_Header_Ref else f h
        | None \<Rightarrow> Inl Dev_Header_Ref)" for q and f :: "raw_event \<Rightarrow> (surface_error, unit) res"
  proof (cases "q < base + n")
    case False
    then show ?thesis using assms by (simp add: event_at_take_ge split: option.splits)
  qed (simp add: event_at_take)
  then show ?thesis by (simp only: assertDeveloperHeader_def)
qed

lemma plan_replace_local:
  assumes "\<forall>s \<in> set (nodes st). s < base + n"
  shows "plan_replace st e s t (take n evs) base = plan_replace st e s t evs base"
proof (cases "replacementRange st s t")
  case (Inr r)
  obtain i j sh where r: "r = (i, j, sh)" by (cases r)
  have sh: "\<forall>s \<in> set sh. s < base + n"
    using shadowed_subset [of st s t i j sh] Inr r assms by auto
  have "assertToolResultRewrite e sh (take n evs) base = assertToolResultRewrite e sh evs base"
    using sh by (auto simp: assertToolResultRewrite_def event_at_take split: list.splits)
  moreover have "assertSystemHeadRewrite e st i sh (take n evs) base
      = assertSystemHeadRewrite e st i sh evs base"
    using assms by (auto simp: assertSystemHeadRewrite_def event_at_take split: list.splits)
  ultimately show ?thesis by (simp add: plan_replace_def Inr r)
qed (simp add: plan_replace_def)

lemma find_projection_in: "find_projection ps t = Some p \<Longrightarrow> p \<in> set ps"
  by (auto simp: find_projection_def find_Some_iff)

lemma plan_local:
  assumes "projections_local ps" "n \<le> length evs" "\<forall>s \<in> set (nodes st). s < base + n"
  shows "planSurfaceEvent ps st e (base + n) (take n evs) base
       = planSurfaceEvent ps st e (base + n) evs base"
proof (cases "eseq e = base + n")
  case True
  have proj: "p_project p e (nodes st) (take n evs) base ms = p_project p e (nodes st) evs base ms"
    if "find_projection ps (etype e) = Some p" for p ms
    using find_projection_in [OF that] assms(1,2) True
    unfolding projections_local_def projection_local_def by metis
  show ?thesis
    unfolding planSurfaceEvent_def
    using True developer_header_local [OF True, of evs] plan_replace_local [OF assms(3)] proj
    by (auto intro!: arg_cong2 [of _ _ _ _ rbind] split: option.splits surface_op_t.splits)
qed (simp add: planSurfaceEvent_def)

lemma apply_local:
  assumes "projections_local ps" "n \<le> length evs" "\<forall>s \<in> set (nodes st). s < base + n"
  shows "applySurfaceEvent ps st e (base + n) (take n evs) base
       = applySurfaceEvent ps st e (base + n) evs base"
  using plan_local [OF assms] by (simp add: applySurfaceEvent_def)

lemma nodes_before:
  "state_at ps evs base n = Inr st \<Longrightarrow> n \<le> length evs \<Longrightarrow> \<forall>s \<in> set (nodes st). s < base + n"
  using surface_ok_state_at by (auto simp: surface_ok_def)

text \<open>The state after a prefix does not depend on what the log holds beyond it.\<close>

lemma state_at_take:
  assumes "projections_local ps" "n \<le> m" "m \<le> length evs"
  shows "state_at ps (take m evs) base n = state_at ps evs base n"
  using assms(2)
proof (induction n)
  case (Suc n)
  show ?case
  proof (cases "state_at ps evs base n")
    case (Inr st)
    then have st: "state_at ps (take m evs) base n = Inr st" using Suc by simp
    have b: "\<forall>s \<in> set (nodes st). s < base + n"
      using nodes_before [OF Inr] Suc.prems assms(3) by simp
    have "applySurfaceEvent ps st (evs ! n) (base + n) (take m evs) base
        = applySurfaceEvent ps st (evs ! n) (base + n) evs base"
      using apply_local [OF assms(1), of n evs st] apply_local [OF assms(1), of n "take m evs" st]
        b Suc.prems assms(3) by (simp add: min_absorb1)
    then show ?thesis using Inr st Suc.prems by simp
  qed (use Suc in simp)
qed simp

lemma state_at_append:
  assumes "projections_local ps" "n \<le> length evs"
  shows "state_at ps (evs @ later) base n = state_at ps evs base n"
  using state_at_take [OF assms(1,2), of "evs @ later" base] by simp

section \<open>Synchronised managers\<close>

definition unique_refs :: "raw_event list \<Rightarrow> raw_event \<Rightarrow> bool" where
  "unique_refs evs e \<longleftrightarrow> (\<forall>x \<in> set evs. oref x = oref e \<longrightarrow> x = e)"

text \<open>
  The committed state is the fold of the processed prefix, and a pending plan is the plan of its
  candidate at the position it was validated for.
\<close>

definition synced :: "projection_def list \<Rightarrow> raw_event list \<Rightarrow> nat \<Rightarrow> manager \<Rightarrow> bool" where
  "synced ps evs base m \<longleftrightarrow>
     (\<exists>k. lastProcessed m = int base + int k - 1 \<and> k \<le> length evs \<and>
        state_at ps evs base k = Inr (mstate m) \<and>
        (\<forall>e s plan. pending m = Some (e, s, plan) \<longrightarrow>
           base + k \<le> s \<and> s \<le> base + length evs \<and> unique_refs evs e \<and>
           (\<exists>st. state_at ps evs base (s - base) = Inr st \<and>
              planSurfaceEvent ps st e s evs base = Inr plan)))"

definition processed_count :: "nat \<Rightarrow> manager \<Rightarrow> nat" where
  "processed_count base m = nat (lastProcessed m + 1) - base"

lemma synced_new: "synced ps evs base (new_manager base)"
  by (auto simp: synced_def new_manager_def intro!: exI [of _ 0])

lemma delta_turn_synced:
  assumes s: "synced ps evs base m" and k: "processed_count base m = k" "k < length evs"
  shows "(case delta_turn ps evs base m (base + k) (evs ! k) of
            Inl err \<Rightarrow> state_at ps evs base (Suc k) = Inl err
          | Inr m' \<Rightarrow> synced ps evs base m' \<and> processed_count base m' = Suc k \<and>
                      state_at ps evs base (Suc k) = Inr (mstate m'))"
proof -
  from s obtain k' where k': "lastProcessed m = int base + int k' - 1" "k' \<le> length evs"
    "state_at ps evs base k' = Inr (mstate m)"
    and pend: "\<And>e s plan. pending m = Some (e, s, plan) \<Longrightarrow>
           base + k' \<le> s \<and> s \<le> base + length evs \<and> unique_refs evs e \<and>
           (\<exists>st. state_at ps evs base (s - base) = Inr st \<and>
              planSurfaceEvent ps st e s evs base = Inr plan)"
    by (auto simp: synced_def)
  have [simp]: "k' = k" using k k' by (simp add: processed_count_def)
  let ?st = "mstate m"
  let ?planned = "case pending m of
                       Some (pe, ps', plan) \<Rightarrow> if oref pe = oref (evs ! k) \<and> ps' = base + k then Some plan else None
                     | None \<Rightarrow> None"
  have planned: "planSurfaceEvent ps ?st (evs ! k) (base + k) evs base = Inr plan"
    if planned_eq: "?planned = Some plan" for plan
  proof -
    from planned_eq obtain pe where pe: "pending m = Some (pe, base + k, plan)" "oref pe = oref (evs ! k)"
      by (auto split: option.splits if_splits)
    have "evs ! k = pe"
      using pend [OF pe(1)] pe(2) k(2) unfolding unique_refs_def by (metis nth_mem)
    then show ?thesis using pend [OF pe(1)] k'(3) by auto
  qed
  let ?result = "case ?planned of
                      Some plan \<Rightarrow> Inr (applySurfacePlan ?st plan)
                    | None \<Rightarrow> rbind (applySurfaceEvent ps ?st (evs ! k) (base + k) evs base) (\<lambda>(st, _). Inr st)"
  have next_state: "?result = state_at ps evs base (Suc k)"
  proof (cases ?planned)
    case (Some plan)
    then show ?thesis using planned [OF Some] k'(3) by (simp add: applySurfaceEvent_def)
  qed (use k'(3) in simp)
  have turn: "delta_turn ps evs base m (base + k) (evs ! k) = rbind ?result (\<lambda>st. Inr (m\<lparr>mstate := st,
           pending := (case pending m of Some (pe, ps', plan) \<Rightarrow> if ps' \<le> base + k then None else pending m
                                       | None \<Rightarrow> None),
           lastProcessed := int (base + k)\<rparr>))"
    by (simp add: delta_turn_def Let_def)
  show ?thesis
  proof (cases "state_at ps evs base (Suc k)")
    case (Inl err)
    then show ?thesis using turn next_state by simp
  next
    case (Inr st')
    let ?m = "m\<lparr>mstate := st',
           pending := (case pending m of Some (pe, ps', plan) \<Rightarrow> if ps' \<le> base + k then None else pending m
                                       | None \<Rightarrow> None),
           lastProcessed := int (base + k)\<rparr>"
    have "delta_turn ps evs base m (base + k) (evs ! k) = Inr ?m"
      unfolding turn next_state Inr by simp
    moreover have "synced ps evs base ?m"
      unfolding synced_def using Inr k pend
      by (intro exI [of _ "Suc k"]) (auto split: option.splits if_splits)
    moreover have "processed_count base ?m = Suc k" by (simp add: processed_count_def)
    ultimately show ?thesis using Inr by simp
  qed
qed

lemma processDelta_from_synced:
  assumes "synced ps evs base m" "processed_count base m = k" "k \<le> length evs"
  shows "(case processDelta_from ps evs base m (base + k) (drop k evs) of
            (m', Some err) \<Rightarrow> synced ps evs base m' \<and> state_at ps evs base (length evs) = Inl err
          | (m', None) \<Rightarrow> synced ps evs base m' \<and> processed_count base m' = length evs \<and>
                          state_at ps evs base (length evs) = Inr (mstate m'))"
  using assms
proof (induction "length evs - k" arbitrary: k m)
  case 0
  then have "k = length evs" by simp
  moreover from 0(2) obtain k' where "lastProcessed m = int base + int k' - 1"
    "state_at ps evs base k' = Inr (mstate m)" by (auto simp: synced_def)
  moreover have "k' = k" using 0(3) \<open>lastProcessed m = _\<close> by (auto simp: processed_count_def)
  ultimately show ?case using 0(2,3) by simp
next
  case (Suc d)
  then have k: "k < length evs" by linarith
  then have drop: "drop k evs = evs ! k # drop (Suc k) evs" by (simp add: Cons_nth_drop_Suc)
  note turn = delta_turn_synced [OF Suc.prems(1,2) k]
  show ?case
  proof (cases "delta_turn ps evs base m (base + k) (evs ! k)")
    case (Inl err)
    then have "state_at ps evs base (Suc k) = Inl err" using turn by simp
    then have "state_at ps evs base (length evs) = Inl err"
      by (rule state_at_error_mono) (use k in simp)
    then show ?thesis using drop Inl Suc.prems(1) by simp
  next
    case (Inr m')
    then have "synced ps evs base m'" "processed_count base m' = Suc k" using turn by auto
    then show ?thesis using Suc.hyps(1) [of "Suc k" m'] Suc.hyps(2) k drop Inr by simp
  qed
qed

lemma processDelta_synced:
  assumes "synced ps evs base m"
  shows "(case processDelta ps evs base m of
            (m', Some err) \<Rightarrow> synced ps evs base m' \<and> state_at ps evs base (length evs) = Inl err
          | (m', None) \<Rightarrow> synced ps evs base m' \<and> processed_count base m' = length evs \<and>
                          state_at ps evs base (length evs) = Inr (mstate m'))"
proof -
  from assms obtain k where k: "lastProcessed m = int base + int k - 1" "k \<le> length evs"
    by (auto simp: synced_def)
  then have "nat (lastProcessed m + 1) = base + k" "processed_count base m = k"
    by (auto simp: processed_count_def)
  then show ?thesis
    using processDelta_from_synced [OF assms _ k(2)] by (simp add: processDelta_def Let_def)
qed

lemma synchronize_synced:
  assumes "synced ps evs base m" "assertProjections ps evs base m = Inr ()"
  shows "(case synchronize ps evs base m of
            (m', Some err) \<Rightarrow> synced ps evs base m' \<and> state_at ps evs base (length evs) = Inl err
          | (m', None) \<Rightarrow> synced ps evs base m' \<and> processed_count base m' = length evs \<and>
                          state_at ps evs base (length evs) = Inr (mstate m'))"
proof (cases "lastProcessed m < int base + int (length evs) - 1")
  case True
  then show ?thesis using processDelta_synced [OF assms(1)] assms(2) by (simp add: synchronize_def)
next
  case False
  from assms(1) obtain k where "lastProcessed m = int base + int k - 1" "k \<le> length evs"
    "state_at ps evs base k = Inr (mstate m)" by (auto simp: synced_def)
  then show ?thesis using False assms by (auto simp: synchronize_def processed_count_def)
qed

lemma synchronize_keeps_synced: "synced ps evs base m \<Longrightarrow> synced ps evs base (fst (synchronize ps evs base m))"
  using synchronize_synced [of ps evs base m]
  by (cases "assertProjections ps evs base m") (auto simp: synchronize_def split: prod.splits option.splits)

lemma validateNext_keeps_synced:
  assumes "synced ps evs base m" "unique_refs evs e"
  shows "synced ps evs base (fst (validateNext ps evs base m e))"
proof (cases "synchronize ps evs base m")
  case (Pair m' err)
  note keep = synchronize_keeps_synced [OF assms(1)]
  show ?thesis
  proof (cases err)
    case None
    have "assertProjections ps evs base m = Inr ()"
      using Pair None by (cases "assertProjections ps evs base m") (auto simp: synchronize_def)
    then have m': "synced ps evs base m'" "processed_count base m' = length evs"
      "state_at ps evs base (length evs) = Inr (mstate m')"
      using synchronize_synced [OF assms(1)] Pair None by auto
    then obtain k where "lastProcessed m' = int base + int k - 1" "k \<le> length evs"
      by (auto simp: synced_def)
    then have "lastProcessed m' = int base + int (length evs) - 1"
      using m'(2) by (simp add: processed_count_def)
    then show ?thesis
      using m' Pair None assms(2)
      by (auto simp: validateNext_def Let_def synced_def intro!: exI [of _ "length evs"]
          split: sum.splits)
  qed (use Pair keep in \<open>simp add: validateNext_def\<close>)
qed

text \<open>Appending to the log keeps a manager synchronised.\<close>

lemma synced_append:
  assumes "projections_local ps" "synced ps evs base m"
    and "\<And>pe s plan. pending m = Some (pe, s, plan) \<Longrightarrow> unique_refs (evs @ later) pe"
  shows "synced ps (evs @ later) base m"
proof -
  from assms(2) obtain k where k: "lastProcessed m = int base + int k - 1" "k \<le> length evs"
    "state_at ps evs base k = Inr (mstate m)"
    and pend: "\<And>e s plan. pending m = Some (e, s, plan) \<Longrightarrow>
           base + k \<le> s \<and> s \<le> base + length evs \<and> unique_refs evs e \<and>
           (\<exists>st. state_at ps evs base (s - base) = Inr st \<and>
              planSurfaceEvent ps st e s evs base = Inr plan)"
    by (auto simp: synced_def)
  have "state_at ps (evs @ later) base k = Inr (mstate m)"
    using state_at_append [OF assms(1) k(2)] k(3) by simp
  moreover have "\<exists>st. state_at ps (evs @ later) base (s - base) = Inr st \<and>
      planSurfaceEvent ps st e s (evs @ later) base = Inr plan"
    if p: "pending m = Some (e, s, plan)" for e s plan
  proof -
    from pend [OF p] obtain st where st: "base + k \<le> s" "s \<le> base + length evs"
      "state_at ps evs base (s - base) = Inr st" "planSurfaceEvent ps st e s evs base = Inr plan" by auto
    then have n: "s = base + (s - base)" "s - base \<le> length evs" by auto
    have b: "\<forall>x \<in> set (nodes st). x < base + (s - base)"
      using nodes_before [OF st(3) n(2)] by simp
    have "planSurfaceEvent ps st e (base + (s - base)) (evs @ later) base
        = planSurfaceEvent ps st e (base + (s - base)) (take (s - base) (evs @ later)) base"
      using plan_local [OF assms(1) _ b, of "evs @ later" e] n by simp
    also have "\<dots> = planSurfaceEvent ps st e (base + (s - base)) evs base"
      using plan_local [OF assms(1) n(2) b, of e] n by simp
    finally show ?thesis using st n state_at_append [OF assms(1) n(2), of later base] by auto
  qed
  moreover have "s \<le> base + length (evs @ later)" if "pending m = Some (e, s, plan)" for e s plan
    using pend [OF that] by simp
  ultimately show ?thesis
    unfolding synced_def using k pend assms(3) by (intro exI [of _ k]) fastforce
qed

section \<open>A manager in use\<close>

text \<open>The definitions a manager used or is about to use are among its projections.\<close>

definition known_projection :: "projection_def list \<Rightarrow> nat \<times> string \<Rightarrow> bool" where
  "known_projection ps u \<longleftrightarrow> list_ex (\<lambda>p. p_id p = fst u) ps"

lemma plan_known:
  assumes "planSurfaceEvent ps st e q evs base = Inr (Some (PProject pid t ms))"
  shows "known_projection ps (pid, t)"
  using assms
proof (cases rule: planSurfaceEvent_cases)
  case (project p ms')
  then show ?thesis using find_projection_in by (auto simp: known_projection_def list_ex_iff)
qed auto

lemma used_known:
  assumes "state_at ps evs base n = Inr st" "n \<le> length evs"
  shows "\<forall>u \<in> set (used_projections st). known_projection ps u"
  using assms
proof (induction rule: state_at_induct)
  case base
  show ?case by (simp add: createFoldState_def)
next
  case (step k st plan)
  have plan: "planSurfaceEvent ps st (evs ! k) (base + k) evs base = Inr plan" by fact
  then show ?case
  proof (cases rule: planSurfaceEvent_cases)
    case (project p ms)
    then show ?thesis using step plan_known [of ps st "evs ! k" "base + k" evs base] plan by auto
  qed (use step in auto)
qed

lemma assertProjections_synced:
  assumes "synced ps evs base m" shows "assertProjections ps evs base m = Inr ()"
proof -
  have used: "\<forall>u \<in> set (used_projections (mstate m)). known_projection ps u"
    using assms used_known by (auto simp: synced_def)
  have extra: "known_projection ps (pid, t)"
    if pend: "pending m = Some (pe, s, Some (PProject pid t ms))" for pe s pid t ms
    using assms that plan_known unfolding synced_def by blast
  have none: "List.find (\<lambda>(pid, t). \<not> list_ex (\<lambda>p. p_id p = pid) ps) us = None"
    if "\<forall>u \<in> set us. known_projection ps u" for us
    using that by (fastforce simp: find_None_iff known_projection_def)
  show ?thesis
    unfolding assertProjections_def Let_def
    by (subst none) (use used extra extra [OF sym] in \<open>auto split: option.splits prod.splits surface_plan.splits\<close>)
qed

datatype manager_op = LogAppend raw_event | Validate raw_event | ReadNodes

fun manager_step ::
  "projection_def list \<Rightarrow> raw_event list \<times> manager \<Rightarrow> manager_op \<Rightarrow> raw_event list \<times> manager" where
  "manager_step ps (evs, m) (LogAppend e) = (evs @ [e], m)"
| "manager_step ps (evs, m) (Validate e) = (evs, fst (validateNext ps evs 0 m e))"
| "manager_step ps (evs, m) ReadNodes = (evs, fst (manager_nodes ps evs 0 m))"

fun manager_run ::
  "projection_def list \<Rightarrow> raw_event list \<times> manager \<Rightarrow> manager_op list \<Rightarrow> raw_event list \<times> manager" where
  "manager_run ps c [] = c"
| "manager_run ps c (x # xs) = manager_run ps (manager_step ps c x) xs"

fun op_events :: "manager_op list \<Rightarrow> raw_event list" where
  "op_events [] = []"
| "op_events (LogAppend e # xs) = e # op_events xs"
| "op_events (Validate e # xs) = e # op_events xs"
| "op_events (ReadNodes # xs) = op_events xs"

text \<open>Objects are immutable: two mentions of one object are one event.\<close>

definition object_identity :: "raw_event list \<Rightarrow> bool" where
  "object_identity xs \<longleftrightarrow> list_all (\<lambda>x. list_all (\<lambda>y. oref x = oref y \<longrightarrow> x = y) xs) xs"

lemma object_identity_unique:
  "object_identity xs \<Longrightarrow> set ys \<subseteq> set xs \<Longrightarrow> e \<in> set xs \<Longrightarrow> unique_refs ys e"
  by (auto simp: object_identity_def unique_refs_def list_all_iff)

lemma pending_synchronize:
  "pending (fst (synchronize ps evs base m)) = None \<or> pending (fst (synchronize ps evs base m)) = pending m"
proof -
  have "pending (fst (processDelta_from ps evs base m s es)) = None
      \<or> pending (fst (processDelta_from ps evs base m s es)) = pending m" for m s es
  proof (induction es arbitrary: m s)
    case (Cons e es)
    show ?case
    proof (cases "delta_turn ps evs base m s e")
      case (Inr m')
      then have "pending m' = None \<or> pending m' = pending m"
        by (auto simp: delta_turn_def Let_def rbind_eq_Inr split: option.splits prod.splits if_splits)
      then show ?thesis using Cons.IH [of m' "Suc s"] Inr by auto
    qed simp
  qed simp
  then show ?thesis by (auto simp: synchronize_def processDelta_def Let_def split: sum.splits)
qed

lemma pending_validateNext:
  assumes "pending (fst (validateNext ps evs base m e)) = Some (pe, s, plan)"
  shows "pe = e \<or> (\<exists>s plan. pending m = Some (pe, s, plan))"
proof (cases "pending (fst (synchronize ps evs base m)) = Some (pe, s, plan)")
  case True
  then show ?thesis using pending_synchronize [of ps evs base m] by (metis option.distinct(1))
next
  case False
  then show ?thesis using assms
    by (cases "synchronize ps evs base m")
       (auto simp: validateNext_def Let_def split: option.splits sum.splits)
qed

lemma pending_nodes:
  "fst (manager_nodes ps evs base m) = fst (synchronize ps evs base m)"
  by (auto simp: manager_nodes_def split: prod.splits option.splits)

lemma manager_run_synced:
  assumes "projections_local ps" "object_identity all"
    and "set evs \<union> set (op_events xs) \<subseteq> set all"
    and "synced ps evs 0 m" "\<And>pe s plan. pending m = Some (pe, s, plan) \<Longrightarrow> pe \<in> set all"
    and "manager_run ps (evs, m) xs = (evs', m')"
  shows "synced ps evs' 0 m'"
  using assms(3-6)
proof (induction xs arbitrary: evs m)
  case (Cons x xs)
  show ?case
  proof (cases x)
    case (LogAppend e)
    have "synced ps (evs @ [e]) 0 m"
      using Cons.prems LogAppend object_identity_unique [OF assms(2), of "evs @ [e]"]
      by (intro synced_append [OF assms(1)]) auto
    then show ?thesis using Cons.IH [of "evs @ [e]" m] Cons.prems LogAppend by auto
  next
    case (Validate e)
    let ?m = "fst (validateNext ps evs 0 m e)"
    have "synced ps evs 0 ?m"
      using Cons.prems Validate object_identity_unique [OF assms(2), of evs e]
      by (intro validateNext_keeps_synced) auto
    moreover have "pe \<in> set all" if "pending ?m = Some (pe, s, plan)" for pe s plan
      using pending_validateNext [OF that] Cons.prems Validate by auto
    ultimately show ?thesis using Cons.IH [of evs ?m] Cons.prems Validate by auto
  next
    case ReadNodes
    let ?m = "fst (manager_nodes ps evs 0 m)"
    have "synced ps evs 0 ?m"
      using synchronize_keeps_synced [OF Cons.prems(2)] by (simp add: pending_nodes)
    moreover have "pe \<in> set all" if "pending ?m = Some (pe, s, plan)" for pe s plan
      using that pending_synchronize [of ps evs 0 m] Cons.prems(3)
      by (metis option.distinct(1) pending_nodes)
    ultimately show ?thesis using Cons.IH [of evs ?m] Cons.prems ReadNodes by auto
  qed
qed simp

text \<open>
  Claim C4. However validations, appends and reads were interleaved before, a read of the
  incremental manager returns the nodes the complete fold of the current log computes.
\<close>

theorem manager_reads_fold:
  assumes "projections_local ps" "object_identity (op_events xs)"
    and "manager_run ps ([], new_manager 0) xs = (evs, m)"
    and "foldSurface ps evs = Inr (st, rs)"
  shows "snd (manager_nodes ps evs 0 m) = Inr (nodes st)"
proof -
  have "synced ps evs 0 m"
    by (rule manager_run_synced [OF assms(1,2) _ synced_new _ assms(3)]) (auto simp: new_manager_def)
  then show ?thesis
    using synchronize_synced [OF _ assertProjections_synced] foldSurface_state_at [OF assms(4)]
    by (fastforce simp: manager_nodes_def split: prod.splits option.splits)
qed

definition demo_ops :: "manager_op list" where
  "demo_ops =
     [Validate (demo_events ! 0), LogAppend (demo_events ! 0), LogAppend (demo_events ! 1), ReadNodes,
      LogAppend (demo_events ! 2), Validate (demo_events ! 3), LogAppend (demo_events ! 3)]"

theorem manager_reads_fold_witness:
  "snd (manager_nodes [] demo_events 0 (snd (manager_run [] ([], new_manager 0) demo_ops))) = Inr [0, 3]"
proof -
  have r: "manager_run [] ([], new_manager 0) demo_ops
      = (demo_events, snd (manager_run [] ([], new_manager 0) demo_ops))"
    by code_simp
  have "snd (manager_nodes [] demo_events 0 (snd (manager_run [] ([], new_manager 0) demo_ops)))
      = Inr (nodes demo_state)"
    by (rule manager_reads_fold [OF _ _ r demo_fold]) (simp add: projections_local_def, code_simp)
  then show ?thesis by (simp add: demo_state_def)
qed

end
