(* ===== verification/Session_Events.thy ===== *)
theory Session_Events
  imports Json
begin

text \<open>
  The typed view of the session log (\<open>SessionEventMap\<close> and its envelope in
  \<open>packages/core/session/src/types.ts\<close>), with the payloads the modelled folds read. Payloads owned
  by plugins outside the model are \<open>OtherEvent\<close> with their type name.
\<close>

datatype cancel_cause = By_User | By_Parent | By_Hook string | By_Disposed | By_Legacy

datatype end_reason =
    Completed | Aborted cancel_cause | Blocked | Errored string | Max_Tokens | Interrupted | Forked

datatype content_block = TextBlock string | ToolCallBlock string | OtherBlock string

record tool_message =
  tm_id :: string
  tm_toolCallId :: string
  tm_isError :: bool
  tm_sourceCallId :: string
  tm_content :: "content_block list"

record tool_error =
  te_name :: string
  te_code :: string

datatype message_source =
    SrcUser
  | SrcGoal string jnum jnum          \<comment> \<open>goalId, revision, round\<close>
  | SrcCheckpoint string "string option"   \<comment> \<open>compactionId, sourceCommandId\<close>
  | SrcOther string

record user_message =
  um_id :: string
  um_source :: message_source
  um_content :: "content_block list"

datatype inbox_target = Next_Turn | Next_Step

record inbox_splice =
  sp_target :: inbox_target
  sp_start :: jnum
  sp_removed :: "jnum option"
  sp_inserted :: "user_message list"
  sp_canceled :: bool

record epoch_header =
  eh_config :: json
  eh_reasoningEffort :: "bool option"
  eh_maxTokens :: "bool option"
  eh_tools :: "json list option"

datatype payload =
    TurnStart nat
  | TurnEnd nat end_reason
  | StepStart nat nat
  | StepEnd nat nat
  | UserMessage user_message
  | DeveloperMessage nat nat
  | SystemMessage nat nat
  | AssistantMessage nat nat "content_block list"
  | AssistantAttempt nat nat
  | ToolCall nat nat string
  | ToolResult nat nat tool_message "tool_error option"
  | RequestHeader epoch_header
  | RequestContext
  | EndSeed bool
  | InboxSpliced inbox_splice
  | GoalChange json
  | CompactionStart string "string option" "nat option"
  | CompactionSummary string "string option" nat nat "nat list" int
  | CompactionPrune nat nat "nat list"
  | CompactionEnd string "string option" "nat option" bool
      \<comment> \<open>compactionId, sourceCommandId, turn, whether it carries an error\<close>
  | OtherEvent string

datatype surface_place = AppendPlace | ReplacePlace nat nat

record event =
  ev_seq :: nat
  ev_time :: nat
  ev_data :: payload
  ev_place :: "surface_place option"
  ev_sources :: "nat list option"

text \<open>A contiguous log: every event sits at its own sequence number.\<close>

definition contiguous_from :: "nat \<Rightarrow> event list \<Rightarrow> bool" where
  "contiguous_from b es = (map ev_seq es = [b..<b + length es])"

abbreviation contiguous :: "event list \<Rightarrow> bool" where
  "contiguous es \<equiv> contiguous_from 0 es"

lemma contiguous_from_Nil [simp]: "contiguous_from b []"
  by (simp add: contiguous_from_def)

lemma contiguous_from_Cons [simp]:
  "contiguous_from b (e # es) \<longleftrightarrow> ev_seq e = b \<and> contiguous_from (Suc b) es"
  by (auto simp: contiguous_from_def upt_conv_Cons simp del: upt_Suc)

lemma contiguous_from_append:
  "contiguous_from b (xs @ ys) \<longleftrightarrow> contiguous_from b xs \<and> contiguous_from (b + length xs) ys"
  by (induction xs arbitrary: b) auto

lemma contiguous_nth: "contiguous es \<Longrightarrow> i < length es \<Longrightarrow> ev_seq (es ! i) = i"
  by (metis add_0 contiguous_from_def length_map nth_map nth_upt)

lemma contiguous_last: "contiguous es \<Longrightarrow> es \<noteq> [] \<Longrightarrow> ev_seq (last es) = length es - 1"
  by (simp add: last_conv_nth contiguous_nth)

end
