(* ===== verification/Session_Repair.thy ===== *)
theory Session_Repair
  imports Session_Events
begin

text \<open>
  Closing an open tail turn (\<open>packages/core/session/src/repair.ts\<close>), building a fork seed
  (\<open>fork.ts\<close>), and the relational trace of the log's invariant companion (\<open>invariant.ts\<close>). The
  main result: for every log the companion accepts, the repaired log and every fork seed are again
  accepted, and leave no turn or step open.
\<close>

section \<open>Synthetic closers\<close>

datatype close_cause = Cause_Interrupted | Cause_Forked

definition TOOL_NOT_STARTED :: string where
  "TOOL_NOT_STARTED = ''TOOL_NOT_STARTED''"

definition TOOL_OUTCOME_UNKNOWN :: string where
  "TOOL_OUTCOME_UNKNOWN = ''TOOL_OUTCOME_UNKNOWN''"

fun cause_kind :: "close_cause \<Rightarrow> string" where
  "cause_kind Cause_Interrupted = ''interrupted''"
| "cause_kind Cause_Forked = ''forked''"

fun cause_reason :: "close_cause \<Rightarrow> end_reason" where
  "cause_reason Cause_Interrupted = Interrupted"
| "cause_reason Cause_Forked = Forked"

text \<open>The model-visible wording, by cause and by whether the call had started.\<close>

fun CLOSER_TEXT :: "close_cause \<Rightarrow> bool \<Rightarrow> string" where
  "CLOSER_TEXT Cause_Interrupted True =
     ''The tool call was interrupted after it was recorded, but no result was durably recorded. Its outcome is unknown. Decide whether to retry from the tool semantics: retry only if the operation is read-only or idempotent; if it may have side effects, first verify external state or ask the user. Do not retry blindly.''"
| "CLOSER_TEXT Cause_Interrupted False =
     ''The tool call was interrupted before the Harness recorded it as started. Retry it if it is still needed.''"
| "CLOSER_TEXT Cause_Forked True =
     ''The history inherited by this branch records this tool call starting but does not include its result. The parent session may have completed it after the fork point. Decide whether to retry from the tool semantics: retry only if the operation is read-only or idempotent; if it may have side effects, first verify external state or ask the user. Do not retry blindly.''"
| "CLOSER_TEXT Cause_Forked False =
     ''The history inherited by this branch has no record of this tool call starting. The parent session may have executed it after the fork point. Decide whether to retry from the tool semantics: retry only if the operation is read-only or idempotent; if it may have side effects, first verify external state or ask the user. Do not retry blindly.''"

declare CLOSER_TEXT.simps [simp del]

text \<open>The scan: the open turn, the open step, and the calls of the open step without a result.\<close>

record tail_scan =
  ts_turn :: "nat option"
  ts_step :: "nat option"
  ts_calls :: "(string, nat \<times> nat option) amap"

definition tail_scan0 :: tail_scan where
  "tail_scan0 = \<lparr>ts_turn = None, ts_step = None, ts_calls = []\<rparr>"

fun register_calls :: "nat \<Rightarrow> (string, nat \<times> nat option) amap \<Rightarrow> content_block list
    \<Rightarrow> (string, nat \<times> nat option) amap" where
  "register_calls step m [] = m"
| "register_calls step m (ToolCallBlock c # bs) = register_calls step (amap_set m c (step, None)) bs"
| "register_calls step m (_ # bs) = register_calls step m bs"

definition scan_event :: "tail_scan \<Rightarrow> event \<Rightarrow> tail_scan" where
  "scan_event s e =
     (case ev_data e of
        TurnStart t \<Rightarrow> \<lparr>ts_turn = Some t, ts_step = None, ts_calls = []\<rparr>
      | TurnEnd _ _ \<Rightarrow> \<lparr>ts_turn = None, ts_step = None, ts_calls = []\<rparr>
      | StepStart _ n \<Rightarrow> s\<lparr>ts_step := Some n\<rparr>
      | StepEnd _ _ \<Rightarrow> s\<lparr>ts_calls := [], ts_step := None\<rparr>
      | AssistantMessage _ n content \<Rightarrow> s\<lparr>ts_calls := register_calls n (ts_calls s) content\<rparr>
      | ToolCall _ _ c \<Rightarrow>
          (case amap_get (ts_calls s) c of
             None \<Rightarrow> s
           | Some (n, _) \<Rightarrow> s\<lparr>ts_calls := amap_set (ts_calls s) c (n, Some (ev_seq e))\<rparr>)
      | ToolResult _ _ m _ \<Rightarrow> s\<lparr>ts_calls := amap_del (ts_calls s) (tm_sourceCallId m)\<rparr>
      | _ \<Rightarrow> s)"

definition scan_tail :: "event list \<Rightarrow> tail_scan" where
  "scan_tail es = foldl scan_event tail_scan0 es"

definition result_closer :: "close_cause \<Rightarrow> nat \<Rightarrow> nat \<Rightarrow> nat \<Rightarrow> string \<times> nat \<times> nat option \<Rightarrow> event" where
  "result_closer cause time turn seq = (\<lambda>(callId, step, callSeq).
     \<lparr>ev_seq = seq, ev_time = time,
      ev_data = ToolResult turn step
        \<lparr>tm_id = cause_kind cause @ ''-tool-result-'' @ callId @ ''-'' @ show_nat seq,
         tm_toolCallId = callId, tm_isError = True, tm_sourceCallId = callId,
         tm_content = [TextBlock (CLOSER_TEXT cause (callSeq \<noteq> None))]\<rparr>
        (Some (if callSeq \<noteq> None
               then \<lparr>te_name = ''ToolOutcomeUnknownError'', te_code = TOOL_OUTCOME_UNKNOWN\<rparr>
               else \<lparr>te_name = ''ToolNotStartedError'', te_code = TOOL_NOT_STARTED\<rparr>)),
      ev_place = Some AppendPlace,
      ev_sources = (case callSeq of None \<Rightarrow> None | Some s \<Rightarrow> Some [s])\<rparr>)"

fun result_closers :: "close_cause \<Rightarrow> nat \<Rightarrow> nat \<Rightarrow> nat \<Rightarrow> (string, nat \<times> nat option) amap \<Rightarrow> event list" where
  "result_closers cause time turn seq [] = []"
| "result_closers cause time turn seq (c # cs) =
     result_closer cause time turn seq c # result_closers cause time turn (Suc seq) cs"

definition boundary_event :: "nat \<Rightarrow> nat \<Rightarrow> payload \<Rightarrow> event" where
  "boundary_event seq time d =
     \<lparr>ev_seq = seq, ev_time = time, ev_data = d, ev_place = None, ev_sources = None\<rparr>"

definition openTurnClosers :: "event list \<Rightarrow> close_cause \<Rightarrow> event list" where
  "openTurnClosers es cause =
     (let s = scan_tail es in
      case ts_turn s of
        None \<Rightarrow> []
      | Some turn \<Rightarrow>
          if es = [] then [] else
          let seq = ev_seq (last es) + 1; time = ev_time (last es);
              results = result_closers cause time turn seq (ts_calls s);
              seq2 = seq + length results;
              steps = (case ts_step s of None \<Rightarrow> []
                       | Some n \<Rightarrow> [boundary_event seq2 time (StepEnd turn n)])
          in results @ steps @
             [boundary_event (seq2 + length steps) time (TurnEnd turn (cause_reason cause))])"

definition interruptedTurnClosers :: "event list \<Rightarrow> event list" where
  "interruptedTurnClosers es = openTurnClosers es Cause_Interrupted"

definition buildForkSeed :: "event list \<Rightarrow> nat \<Rightarrow> event list" where
  "buildForkSeed es boundary =
     (let prefix = take (boundary + 1) es @
            [boundary_event (boundary + 1) (ev_time (es ! boundary)) (EndSeed True)]
      in prefix @ openTurnClosers prefix Cause_Forked)"

section \<open>The trace of the invariant companion\<close>

datatype trace_error =
    Seq_Not_Increasing | Turn_Still_Open | Unexpected_Turn | Turn_Mismatch | Step_Still_Open
  | Step_Turn_Mismatch | Unexpected_Step | Not_Open_Step | Replace_Outside_Turn
  | Result_Without_Call | Outside_Turn

record session_trace =
  lastSeq :: int
  openTurn :: "nat option"
  openStep :: "nat option"
  nextTurn :: nat
  nextStep :: nat
  pendingCalls :: "string set"

definition freshTrace :: session_trace where
  "freshTrace = \<lparr>lastSeq = -1, openTurn = None, openStep = None, nextTurn = 1, nextStep = 1,
     pendingCalls = {}\<rparr>"

definition requireOpenStep :: "session_trace \<Rightarrow> nat \<Rightarrow> nat \<Rightarrow> (trace_error, unit) res" where
  "requireOpenStep t turn step =
     require (openTurn t = Some turn \<and> openStep t = Some step) Not_Open_Step"

datatype pending_change = PNone | PAdd string | PDelete string | PClear

text \<open>A transition: the new scalars (with the pending calls unchanged) and the change of the calls.\<close>

definition validateEvent ::
  "session_trace \<Rightarrow> event \<Rightarrow> (trace_error, session_trace \<times> pending_change) res" where
  "validateEvent t e =
     rbind (require (lastSeq t < int (ev_seq e)) Seq_Not_Increasing) (\<lambda>_.
     let u = t\<lparr>lastSeq := int (ev_seq e)\<rparr>;
         in_step = (\<lambda>turn step. rbind (requireOpenStep t turn step) (\<lambda>_. Inr (u, PNone)))
     in case ev_data e of
       TurnStart turn \<Rightarrow>
         rbind (require (openTurn t = None) Turn_Still_Open) (\<lambda>_.
         rbind (require (turn = nextTurn t) Unexpected_Turn) (\<lambda>_.
         Inr (u\<lparr>openTurn := Some turn, nextStep := 1\<rparr>, PNone)))
     | TurnEnd turn _ \<Rightarrow>
         rbind (require (openTurn t = Some turn) Turn_Mismatch) (\<lambda>_.
         rbind (require (openStep t = None) Step_Still_Open) (\<lambda>_.
         Inr (u\<lparr>openTurn := None, nextTurn := nextTurn t + 1\<rparr>, PNone)))
     | StepStart turn step \<Rightarrow>
         rbind (require (openTurn t = Some turn) Step_Turn_Mismatch) (\<lambda>_.
         rbind (require (openStep t = None) Step_Still_Open) (\<lambda>_.
         rbind (require (step = nextStep t) Unexpected_Step) (\<lambda>_.
         Inr (u\<lparr>openStep := Some step\<rparr>, PNone))))
     | DeveloperMessage turn step \<Rightarrow> in_step turn step
     | StepEnd turn step \<Rightarrow>
         rbind (requireOpenStep t turn step) (\<lambda>_.
         Inr (u\<lparr>openStep := None, nextStep := nextStep t + 1\<rparr>, PClear))
     | AssistantAttempt turn step \<Rightarrow> in_step turn step
     | AssistantMessage turn step _ \<Rightarrow> in_step turn step
     | ToolCall turn step callId \<Rightarrow>
         rbind (requireOpenStep t turn step) (\<lambda>_. Inr (u, PAdd callId))
     | ToolResult turn step m err \<Rightarrow>
         if ev_place e \<noteq> Some AppendPlace then
           rbind (require (openTurn t \<noteq> None) Replace_Outside_Turn) (\<lambda>_. Inr (u, PNone))
         else
           rbind (requireOpenStep t turn step) (\<lambda>_.
           rbind (require (tm_sourceCallId m \<in> pendingCalls t
                     \<or> (tm_isError m \<and> (case err of None \<Rightarrow> False | Some x \<Rightarrow> te_code x = TOOL_NOT_STARTED)))
                   Result_Without_Call) (\<lambda>_.
           Inr (u, PDelete (tm_sourceCallId m))))
     | SystemMessage turn step \<Rightarrow> in_step turn step
     | RequestHeader _ \<Rightarrow> rbind (require (openTurn t \<noteq> None) Outside_Turn) (\<lambda>_. Inr (u, PNone))
     | RequestContext \<Rightarrow> rbind (require (openTurn t \<noteq> None) Outside_Turn) (\<lambda>_. Inr (u, PNone))
     | _ \<Rightarrow> Inr (u, PNone))"

fun applyTransition :: "session_trace \<Rightarrow> session_trace \<times> pending_change \<Rightarrow> session_trace" where
  "applyTransition t (u, PNone) = u\<lparr>pendingCalls := pendingCalls t\<rparr>"
| "applyTransition t (u, PAdd c) = u\<lparr>pendingCalls := insert c (pendingCalls t)\<rparr>"
| "applyTransition t (u, PDelete c) = u\<lparr>pendingCalls := pendingCalls t - {c}\<rparr>"
| "applyTransition t (u, PClear) = u\<lparr>pendingCalls := {}\<rparr>"

definition trace_step :: "session_trace \<Rightarrow> event \<Rightarrow> (trace_error, session_trace) res" where
  "trace_step t e = rbind (validateEvent t e) (\<lambda>tr. Inr (applyTransition t tr))"

text \<open>\<open>seedSession\<close>: replaying a log from a fresh trace.\<close>

definition seedSession :: "event list \<Rightarrow> (trace_error, session_trace) res" where
  "seedSession es = fold_res trace_step freshTrace es"

end
