(* ===== verification/Repair_Laws.thy ===== *)
theory Repair_Laws
  imports Session_Repair "HOL-Library.Sublist"
begin

text \<open>
  Repaired logs and fork seeds satisfy the log's own relational invariant, are balanced and stay
  contiguous. The simulation \<open>tracks\<close> relates the repair scan to the companion's trace.
\<close>

section \<open>The scan follows the trace\<close>

definition tracks :: "session_trace \<Rightarrow> tail_scan \<Rightarrow> bool" where
  "tracks t s \<longleftrightarrow>
     ts_turn s = openTurn t \<and> ts_step s = openStep t \<and> (openTurn t = None \<longrightarrow> openStep t = None) \<and>
     amap_wf (ts_calls s) \<and>
     (\<forall>c n q. amap_get (ts_calls s) c = Some (n, q) \<longrightarrow>
        openStep t = Some n \<and> (q \<noteq> None \<longrightarrow> c \<in> pendingCalls t))"

lemma tracks_fresh: "tracks freshTrace tail_scan0"
  by (simp add: tracks_def freshTrace_def tail_scan0_def)

lemma register_calls_get:
  "amap_get (register_calls n m bs) c = Some (k, q) \<Longrightarrow>
     (k = n \<and> q = None) \<or> amap_get m c = Some (k, q)"
  by (induction n m bs rule: register_calls.induct) (auto split: if_splits)

lemma register_calls_wf: "amap_wf m \<Longrightarrow> amap_wf (register_calls n m bs)"
  by (induction n m bs rule: register_calls.induct) auto

lemmas trace_step_defs = trace_step_def validateEvent_def requireOpenStep_def rbind_eq_Inr Let_def

lemma trace_step_seq: "trace_step t e = Inr t' \<Longrightarrow> lastSeq t < int (ev_seq e) \<and> lastSeq t' = int (ev_seq e)"
  by (cases "ev_data e") (auto simp: trace_step_defs split: if_splits)

lemma tracks_step:
  assumes "tracks t s" "trace_step t e = Inr t'"
  shows "tracks t' (scan_event s e)"
proof (cases "ev_data e")
  case (AssistantMessage turn n content)
  then have "openStep t = Some n" "t' = t\<lparr>lastSeq := int (ev_seq e)\<rparr>"
    using assms(2) by (auto simp: trace_step_defs)
  then show ?thesis
    using assms(1) AssistantMessage register_calls_wf
    by (fastforce simp: tracks_def scan_event_def dest: register_calls_get)
next
  case (ToolCall turn n c)
  then have t': "openStep t = Some n"
    "t' = t\<lparr>lastSeq := int (ev_seq e), pendingCalls := insert c (pendingCalls t)\<rparr>"
    using assms(2) by (auto simp: trace_step_defs)
  show ?thesis
  proof (cases "amap_get (ts_calls s) c")
    case None
    then show ?thesis using assms(1) ToolCall t' by (auto simp: tracks_def scan_event_def)
  next
    case (Some p)
    obtain k r where p: "p = (k, r)" by force
    have s': "scan_event s e = s\<lparr>ts_calls := amap_set (ts_calls s) c (k, Some (ev_seq e))\<rparr>"
      using ToolCall Some p by (simp add: scan_event_def)
    have "openStep t = Some k" using assms(1) Some p by (auto simp: tracks_def)
    then show ?thesis using assms(1) t' unfolding s' by (fastforce simp: tracks_def split: if_splits)
  qed
next
  case (ToolResult turn n m err)
  then have "openTurn t' = openTurn t" "openStep t' = openStep t"
    "\<forall>c. c \<noteq> tm_sourceCallId m \<longrightarrow> c \<in> pendingCalls t \<longrightarrow> c \<in> pendingCalls t'"
    using assms(2) by (auto simp: trace_step_defs split: if_splits)
  then show ?thesis using assms(1) ToolResult
    by (auto simp: tracks_def scan_event_def split: if_splits)
qed (use assms in \<open>auto simp: tracks_def scan_event_def trace_step_defs split: if_splits\<close>)

lemma tracks_fold:
  assumes "tracks t s" "fold_res trace_step t es = Inr t'"
  shows "tracks t' (foldl scan_event s es)"
  using assms
proof (induction es arbitrary: t s)
  case (Cons e es)
  then obtain u where "trace_step t e = Inr u" "fold_res trace_step u es = Inr t'"
    by (auto split: sum.splits)
  then show ?case using Cons.IH [OF tracks_step [OF Cons.prems(1)]] by simp
qed simp

lemma tracks_log: "seedSession es = Inr t \<Longrightarrow> tracks t (scan_tail es)"
  using tracks_fold [OF tracks_fresh] by (simp add: seedSession_def scan_tail_def)

lemma lastSeq_fold:
  "fold_res trace_step t es = Inr t' \<Longrightarrow> es \<noteq> [] \<Longrightarrow> lastSeq t' = int (ev_seq (last es))"
proof (induction es arbitrary: t)
  case (Cons e es)
  then obtain u where u: "trace_step t e = Inr u" "fold_res trace_step u es = Inr t'"
    by (auto split: sum.splits)
  then show ?case using Cons trace_step_seq [OF u(1)] by (cases es) auto
qed simp

lemma seedSession_append:
  "seedSession (xs @ ys) = (case seedSession xs of Inl e \<Rightarrow> Inl e | Inr t \<Rightarrow> fold_res trace_step t ys)"
  by (simp add: seedSession_def fold_res_append)

lemma seedSession_take: "seedSession es = Inr t \<Longrightarrow> \<exists>t'. seedSession (take n es) = Inr t'"
  using seedSession_append [of "take n es" "drop n es"] by (auto split: sum.splits)

section \<open>The trace accepts the closers\<close>

lemma length_result_closers [simp]: "length (result_closers cause time turn seq cs) = length cs"
  by (induction cs arbitrary: seq) auto

lemma result_closer_step:
  assumes "openTurn t = Some turn" "openStep t = Some n" "q \<noteq> None \<longrightarrow> c \<in> pendingCalls t"
    and "lastSeq t < int seq"
  shows "trace_step t (result_closer cause time turn seq (c, n, q))
       = Inr (t\<lparr>lastSeq := int seq, pendingCalls := pendingCalls t - {c}\<rparr>)"
  using assms by (auto simp: trace_step_def validateEvent_def requireOpenStep_def Let_def
      result_closer_def require_def)

lemma result_closers_accepted:
  assumes "openTurn t = Some turn" "lastSeq t < int seq" "distinct (map fst cs)"
    and "\<And>c n q. (c, n, q) \<in> set cs \<Longrightarrow> openStep t = Some n \<and> (q \<noteq> None \<longrightarrow> c \<in> pendingCalls t)"
  shows "\<exists>t'. fold_res trace_step t (result_closers cause time turn seq cs) = Inr t' \<and>
     openTurn t' = Some turn \<and> openStep t' = openStep t \<and> nextTurn t' = nextTurn t \<and>
     nextStep t' = nextStep t \<and> lastSeq t' < int (seq + length cs)"
  using assms
proof (induction cs arbitrary: t seq)
  case (Cons x cs)
  obtain c n q where x: "x = (c, n, q)" by (cases x)
  let ?t = "t\<lparr>lastSeq := int seq, pendingCalls := pendingCalls t - {c}\<rparr>"
  have step: "trace_step t (result_closer cause time turn seq x) = Inr ?t"
    unfolding x using Cons.prems(1,2) Cons.prems(4) [of c n q] x by (intro result_closer_step) auto
  have "openStep ?t = Some m \<and> (r \<noteq> None \<longrightarrow> d \<in> pendingCalls ?t)" if "(d, m, r) \<in> set cs" for d m r
    using Cons.prems(3) Cons.prems(4) [of d m r] that x by force
  from Cons.IH [of ?t "Suc seq", OF _ _ _ this] Cons.prems(1,3) step show ?case by auto
qed auto

lemma boundary_step_end:
  assumes "openTurn t = Some turn" "openStep t = Some n" "lastSeq t < int seq"
  shows "trace_step t (boundary_event seq time (StepEnd turn n))
       = Inr (t\<lparr>lastSeq := int seq, openStep := None, nextStep := nextStep t + 1, pendingCalls := {}\<rparr>)"
  using assms by (simp add: trace_step_def validateEvent_def requireOpenStep_def Let_def
      boundary_event_def require_def)

lemma boundary_turn_end:
  assumes "openTurn t = Some turn" "openStep t = None" "lastSeq t < int seq"
  shows "trace_step t (boundary_event seq time (TurnEnd turn r))
       = Inr (t\<lparr>lastSeq := int seq, openTurn := None, nextTurn := nextTurn t + 1\<rparr>)"
  using assms by (simp add: trace_step_def validateEvent_def Let_def boundary_event_def require_def)

lemma closers_unfold:
  assumes "ts_turn (scan_tail es) = Some turn" "es \<noteq> []"
  defines "s \<equiv> scan_tail es" and "seq \<equiv> ev_seq (last es) + 1" and "time \<equiv> ev_time (last es)"
  shows "openTurnClosers es cause =
     result_closers cause time turn seq (ts_calls s) @
     (case ts_step s of
        None \<Rightarrow> [boundary_event (seq + length (ts_calls s)) time (TurnEnd turn (cause_reason cause))]
      | Some n \<Rightarrow> [boundary_event (seq + length (ts_calls s)) time (StepEnd turn n),
                  boundary_event (seq + length (ts_calls s) + 1) time (TurnEnd turn (cause_reason cause))])"
  using assms by (auto simp: openTurnClosers_def Let_def split: option.splits)

lemma scan_tail_Nil: "ts_turn (scan_tail []) = None"
  by (simp add: scan_tail_def tail_scan0_def)

text \<open>The heart of the matter, for any accepted log.\<close>

lemma closers_accepted:
  assumes "seedSession es = Inr t"
  shows "\<exists>t'. fold_res trace_step t (openTurnClosers es cause) = Inr t' \<and>
           openTurn t' = None \<and> openStep t' = None"
proof (cases "ts_turn (scan_tail es)")
  case None
  then have "openTurn t = None" "openStep t = None"
    using tracks_log [OF assms] by (auto simp: tracks_def)
  then show ?thesis using None by (simp add: openTurnClosers_def Let_def)
next
  case (Some turn)
  then have ne: "es \<noteq> []" using scan_tail_Nil by auto
  let ?s = "scan_tail es" and ?seq = "ev_seq (last es) + 1" and ?time = "ev_time (last es)"
  have tr: "tracks t ?s" by (rule tracks_log [OF assms])
  then have o: "openTurn t = Some turn" "openStep t = ts_step ?s" "distinct (map fst (ts_calls ?s))"
    using Some by (auto simp: tracks_def amap_wf_def)
  have last: "lastSeq t < int ?seq" using lastSeq_fold assms ne by (auto simp: seedSession_def)
  have "openStep t = Some n \<and> (q \<noteq> None \<longrightarrow> c \<in> pendingCalls t)" if "(c, n, q) \<in> set (ts_calls ?s)" for c n q
    using tr that o(3) by (auto simp: tracks_def amap_get_def)
  from result_closers_accepted [OF o(1) last o(3) this, of cause ?time]
  obtain u where u: "fold_res trace_step t (result_closers cause ?time turn ?seq (ts_calls ?s)) = Inr u"
    "openTurn u = Some turn" "openStep u = openStep t" "lastSeq u < int (?seq + length (ts_calls ?s))"
    by blast
  show ?thesis
  proof (cases "ts_step ?s")
    case None
    then show ?thesis
      using closers_unfold [OF Some ne, of cause] u o(2) boundary_turn_end [of u turn]
      by (simp add: fold_res_append)
  next
    case (Some n)
    let ?v = "u\<lparr>lastSeq := int (?seq + length (ts_calls ?s)), openStep := None,
       nextStep := nextStep u + 1, pendingCalls := {}\<rparr>"
    have "trace_step u (boundary_event (?seq + length (ts_calls ?s)) ?time (StepEnd turn n)) = Inr ?v"
      using u o(2) Some by (intro boundary_step_end) auto
    moreover have "trace_step ?v (boundary_event (?seq + length (ts_calls ?s) + 1) ?time
        (TurnEnd turn (cause_reason cause)))
      = Inr (?v\<lparr>lastSeq := int (?seq + length (ts_calls ?s) + 1), openTurn := None,
          nextTurn := nextTurn ?v + 1\<rparr>)"
      using u(2) by (intro boundary_turn_end) auto
    ultimately show ?thesis
      using closers_unfold [OF \<open>ts_turn (scan_tail es) = Some turn\<close> ne, of cause] u(1) Some
      by (simp add: fold_res_append)
  qed
qed

lemma repaired_accepted:
  assumes "seedSession es = Inr t"
  shows "\<exists>t'. seedSession (es @ openTurnClosers es cause) = Inr t' \<and> openTurn t' = None \<and> openStep t' = None"
  using closers_accepted [OF assms, of cause] assms by (simp add: seedSession_append)

lemma closers_of_closed: "seedSession es = Inr t \<Longrightarrow> openTurn t = None \<Longrightarrow> openTurnClosers es cause = []"
  using tracks_log [of es t] by (simp add: tracks_def openTurnClosers_def Let_def)

lemma result_closers_seqs:
  "contiguous_from seq (result_closers cause time turn seq cs)"
  by (induction cs arbitrary: seq) (auto simp: result_closer_def split: prod.splits)

lemma closers_contiguous:
  assumes "es \<noteq> [] \<Longrightarrow> ev_seq (last es) + 1 = n"
  shows "contiguous_from n (openTurnClosers es cause)"
proof (cases "ts_turn (scan_tail es)")
  case (Some turn)
  then have ne: "es \<noteq> []" using scan_tail_Nil by auto
  then show ?thesis
    using closers_unfold [OF Some ne, of cause] result_closers_seqs assms
    by (auto simp: contiguous_from_append boundary_event_def split: option.splits)
qed (simp add: openTurnClosers_def Let_def)

lemma repaired_contiguous: "contiguous es \<Longrightarrow> contiguous (es @ openTurnClosers es cause)"
  using closers_contiguous [of es "length es" cause] contiguous_last [of es]
  by (cases "es = []") (auto simp: contiguous_from_append)

section \<open>Fork seeds\<close>

lemma fork_prefix_accepted:
  assumes "seedSession es = Inr t" "contiguous es" "b < length es"
  defines "p \<equiv> take (b + 1) es @ [boundary_event (b + 1) (ev_time (es ! b)) (EndSeed True)]"
  shows "\<exists>t'. seedSession p = Inr t'" and "contiguous p" and "p \<noteq> []"
proof -
  obtain u where u: "seedSession (take (b + 1) es) = Inr u" using seedSession_take [OF assms(1)] by blast
  have "last (take (b + 1) es) = es ! b" using assms(3) by (simp add: take_Suc_conv_app_nth)
  then have "lastSeq u = int b"
    using lastSeq_fold [of freshTrace "take (b + 1) es" u] u contiguous_nth [OF assms(2,3)] assms(3)
    by (cases "es = []") (auto simp: seedSession_def)
  then show "\<exists>t'. seedSession p = Inr t'"
    unfolding p_def seedSession_append u
    by (simp add: trace_step_def validateEvent_def boundary_event_def require_def)
  have "contiguous (take (b + 1) es @ drop (b + 1) es)" using assms(2) by simp
  then have "contiguous (take (b + 1) es)" unfolding contiguous_from_append by blast
  then show "contiguous p"
    unfolding p_def contiguous_from_append using assms(3) by (simp add: boundary_event_def)
  show "p \<noteq> []" by (simp add: p_def)
qed

section \<open>Properties\<close>

definition answered_call :: "event \<Rightarrow> (string \<times> string) option" where
  "answered_call e = (case ev_data e of
     ToolResult _ _ m (Some err) \<Rightarrow> Some (tm_sourceCallId m, te_code err) | _ \<Rightarrow> None)"

lemma answered_result_closers:
  "List.map_filter answered_call (result_closers cause time turn seq cs)
   = map (\<lambda>(c, n, q). (c, if q = None then TOOL_NOT_STARTED else TOOL_OUTCOME_UNKNOWN)) cs"
  by (induction cs arbitrary: seq)
     (auto simp: List.map_filter_simps answered_call_def result_closer_def split: prod.splits)

lemma answered_boundary [simp]:
  "answered_call (boundary_event s tm (StepEnd a b)) = None"
  "answered_call (boundary_event s tm (TurnEnd a d)) = None"
  by (simp_all add: answered_call_def boundary_event_def)

definition plain :: "nat \<Rightarrow> payload \<Rightarrow> event" where
  "plain s d = \<lparr>ev_seq = s, ev_time = 5, ev_data = d, ev_place = None, ev_sources = None\<rparr>"

definition crashed_log :: "event list" where
  "crashed_log =
    [plain 0 (TurnStart 1), plain 1 (StepStart 1 1),
     plain 2 (AssistantMessage 1 1 [TextBlock ''hi'', ToolCallBlock ''a'', ToolCallBlock ''b'']),
     plain 3 (ToolCall 1 1 ''a'')]"

definition crashed_trace :: session_trace where
  "crashed_trace = \<lparr>lastSeq = 3, openTurn = Some 1, openStep = Some 1, nextTurn = 1, nextStep = 1,
     pendingCalls = {''a''}\<rparr>"

lemma crashed_log_trace: "seedSession crashed_log = Inr crashed_trace"
  by (simp add: seedSession_def crashed_log_def crashed_trace_def plain_def trace_step_def
      validateEvent_def requireOpenStep_def require_def freshTrace_def Let_def)

text \<open>
  Claim C5. Crash recovery balances every log the invariant companion accepts: the log with its
  closers is accepted again, leaves no turn and no step open, and needs no further closers.
\<close>

theorem crash_recovery_balances:
  assumes "seedSession es = Inr t"
  shows "\<exists>t'. seedSession (es @ interruptedTurnClosers es) = Inr t' \<and> openTurn t' = None \<and>
     openStep t' = None \<and> interruptedTurnClosers (es @ interruptedTurnClosers es) = []"
  using repaired_accepted [OF assms, of Cause_Interrupted] closers_of_closed
  unfolding interruptedTurnClosers_def by blast

theorem crash_recovery_balances_witness:
  "length (interruptedTurnClosers crashed_log) = 4 \<and>
   (\<exists>t'. seedSession (crashed_log @ interruptedTurnClosers crashed_log) = Inr t' \<and> openTurn t' = None)"
proof -
  have "length (interruptedTurnClosers crashed_log) = 4" by code_simp
  then show ?thesis using crash_recovery_balances [OF crashed_log_trace] by blast
qed

text \<open>
  The closers answer exactly the calls of the open step that lack a result, in transcript
  order, as not started or, if the log recorded the call starting, as of unknown outcome.
\<close>

theorem closers_answer_pending:
  assumes "seedSession es = Inr t"
  shows "List.map_filter answered_call (openTurnClosers es cause)
    = map (\<lambda>(c, n, q). (c, if q = None then TOOL_NOT_STARTED else TOOL_OUTCOME_UNKNOWN))
        (ts_calls (scan_tail es))"
proof (cases "ts_turn (scan_tail es)")
  case None
  have "ts_calls (scan_tail es) = []"
  proof (rule ccontr)
    assume "ts_calls (scan_tail es) \<noteq> []"
    then obtain c n q cs where "ts_calls (scan_tail es) = (c, n, q) # cs"
      by (metis list.exhaust prod.collapse)
    then have "amap_get (ts_calls (scan_tail es)) c = Some (n, q)" by (simp add: amap_get_def)
    then show False using tracks_log [OF assms] None by (auto simp: tracks_def)
  qed
  then show ?thesis using None by (simp add: openTurnClosers_def Let_def List.map_filter_simps)
next
  case (Some turn)
  then have ne: "es \<noteq> []" using scan_tail_Nil by auto
  show ?thesis
    unfolding closers_unfold [OF Some ne, of cause]
    by (simp add: map_filter_append answered_result_closers List.map_filter_simps split: option.splits)
qed

theorem closers_answer_pending_witness:
  "List.map_filter answered_call (openTurnClosers crashed_log Cause_Interrupted)
   = [(''a'', TOOL_OUTCOME_UNKNOWN), (''b'', TOOL_NOT_STARTED)]"
  using closers_answer_pending [OF crashed_log_trace, of Cause_Interrupted]
  by (simp add: crashed_log_def plain_def scan_tail_def tail_scan0_def scan_event_def amap_get_def)

text \<open>
  Claim C6. A fork seed inherits the exact source prefix, continues its sequence numbers, and is a
  balanced log the invariant companion accepts.
\<close>

theorem fork_seed_sound:
  assumes "seedSession es = Inr t" "contiguous es" "b < length es"
  shows "prefix (take (b + 1) es) (buildForkSeed es b) \<and> contiguous (buildForkSeed es b) \<and>
     (\<exists>t'. seedSession (buildForkSeed es b) = Inr t' \<and> openTurn t' = None \<and> openStep t' = None)"
proof -
  let ?p = "take (b + 1) es @ [boundary_event (b + 1) (ev_time (es ! b)) (EndSeed True)]"
  note p = fork_prefix_accepted [OF assms]
  obtain u where u: "seedSession ?p = Inr u" using p(1) by blast
  have seed: "buildForkSeed es b = ?p @ openTurnClosers ?p Cause_Forked"
    by (simp add: buildForkSeed_def Let_def)
  have "prefix (take (b + 1) es) (buildForkSeed es b)" unfolding seed by simp
  moreover have "contiguous (buildForkSeed es b)"
    unfolding seed using repaired_contiguous [OF p(2)] .
  ultimately show ?thesis
    unfolding seed using repaired_accepted [OF u, of Cause_Forked] by blast
qed

theorem fork_seed_sound_witness:
  "prefix (take 3 crashed_log) (buildForkSeed crashed_log 2) \<and> contiguous (buildForkSeed crashed_log 2)"
proof -
  have c: "contiguous crashed_log" by (simp add: crashed_log_def plain_def)
  have "2 < length crashed_log" by (simp add: crashed_log_def)
  from fork_seed_sound [OF crashed_log_trace c this] show ?thesis by simp
qed

end
