(* ===== verification/Seq_Ranges.thy ===== *)
theory Seq_Ranges
  imports Json
begin

text \<open>
  The lossless range encoding of \<open>sourceEventSeqs\<close> (\<open>packages/core/session/src/seq-ranges.ts\<close>):
  runs of three or more consecutive sequences are stored as inclusive pairs.
\<close>

section \<open>Encoding\<close>

definition isStrictlyIncreasing :: "nat list \<Rightarrow> bool" where
  "isStrictlyIncreasing vs = list_all (\<lambda>i. i = 0 \<or> vs ! (i - 1) < vs ! i) [0..<length vs]"

definition json_seq :: "nat \<Rightarrow> json" where
  "json_seq n = JNum (JInt (int n))"

text \<open>The inner loop: the last index of the run of consecutive values that contains \<open>e\<close>.\<close>

function run_end :: "nat list \<Rightarrow> nat \<Rightarrow> nat" where
  "run_end vs e =
     (if e + 1 < length vs \<and> vs ! (e + 1) = vs ! e + 1 then run_end vs (e + 1) else e)"
  by pat_completeness auto
termination
  by (relation "measure (\<lambda>(vs, e). length vs - e)") auto

declare run_end.simps [simp del]

lemma run_end_ge: "e \<le> run_end vs e"
proof (induction vs e rule: run_end.induct)
  case (1 vs e)
  then show ?case by (subst run_end.simps) auto
qed

function encode_from :: "nat list \<Rightarrow> nat \<Rightarrow> json list" where
  "encode_from vs start =
     (if start < length vs then
        (let e = run_end vs start
         in (if e - start \<ge> 2 then [JArr [json_seq (vs ! start), json_seq (vs ! e)]]
             else map (\<lambda>i. json_seq (vs ! i)) [start..<e + 1]) @ encode_from vs (e + 1))
      else [])"
  by pat_completeness auto
termination
  by (relation "measure (\<lambda>(vs, s). length vs - s)")
     (auto, meson diff_less_mono2 le_imp_less_Suc run_end_ge)

declare encode_from.simps [simp del]

definition encodeSeqRanges :: "nat list \<Rightarrow> json list" where
  "encodeSeqRanges vs = (if \<not> isStrictlyIncreasing vs then map json_seq vs else encode_from vs 0)"

section \<open>Decoding\<close>

datatype seq_error =
    Must_Be_Array | Not_A_Seq | Exceeds_Event | Not_A_Pair | Range_Order | Range_Exceeds
  | Negative_Zero | Not_Increasing

fun assertSeq :: "json \<Rightarrow> (seq_error, unit) res" where
  "assertSeq (JNum (JInt i)) = require (0 \<le> i \<and> i \<le> MAX_SAFE_INTEGER) Not_A_Seq"
| "assertSeq (JNum JNegZero) = Inr ()"
| "assertSeq _ = Inl Not_A_Seq"

fun num_val :: "json \<Rightarrow> int" where
  "num_val (JNum (JInt i)) = i"
| "num_val _ = 0"

text \<open>\<open>SessionSeq\<close> refuses negative zero, which \<open>assertSeq\<close> lets through.\<close>

fun session_seq :: "json \<Rightarrow> (seq_error, nat) res" where
  "session_seq (JNum (JInt i)) = Inr (nat i)"
| "session_seq _ = Inl Negative_Zero"

fun isNumber :: "json \<Rightarrow> bool" where
  "isNumber (JNum _) = True"
| "isNumber _ = False"

definition decode_range :: "json \<Rightarrow> json \<Rightarrow> nat \<Rightarrow> nat list \<Rightarrow> (seq_error, nat list) res" where
  "decode_range s e maxEntries decoded =
     rbind (assertSeq s) (\<lambda>_.
     rbind (assertSeq e) (\<lambda>_.
     rbind (require (num_val s \<le> num_val e) Range_Order) (\<lambda>_.
     rbind (require (num_val e - num_val s + 1 \<le> int maxEntries - int (length decoded)) Range_Exceeds) (\<lambda>_.
     rbind (session_seq s) (\<lambda>first.
     Inr (decoded @ [first..<nat (num_val e) + 1]))))))"

fun decode_entries :: "nat \<Rightarrow> json list \<Rightarrow> nat list \<Rightarrow> bool \<Rightarrow> (seq_error, nat list \<times> bool) res" where
  "decode_entries maxEntries [] decoded hasRange = Inr (decoded, hasRange)"
| "decode_entries maxEntries (x # xs) decoded hasRange =
     (if isNumber x then
        rbind (assertSeq x) (\<lambda>_.
        if length decoded \<ge> maxEntries then Inl Exceeds_Event
        else rbind (session_seq x) (\<lambda>n. decode_entries maxEntries xs (decoded @ [n]) hasRange))
      else case x of
        JArr [s, e] \<Rightarrow>
          rbind (decode_range s e maxEntries decoded)
            (\<lambda>decoded'. decode_entries maxEntries xs decoded' True)
      | _ \<Rightarrow> Inl Not_A_Pair)"

fun decodeSeqRanges :: "json \<Rightarrow> nat \<Rightarrow> (seq_error, nat list) res" where
  "decodeSeqRanges (JArr xs) maxEntries =
     rbind (decode_entries maxEntries xs [] False)
       (\<lambda>(decoded, hasRange).
          if hasRange \<and> \<not> isStrictlyIncreasing decoded then Inl Not_Increasing else Inr decoded)"
| "decodeSeqRanges _ _ = Inl Must_Be_Array"

section \<open>Runs\<close>

lemma run_end_less: "e < length vs \<Longrightarrow> run_end vs e < length vs"
proof (induction vs e rule: run_end.induct)
  case (1 vs e)
  then show ?case by (subst run_end.simps) auto
qed

lemma run_consecutive: "i \<le> run_end vs e - e \<Longrightarrow> vs ! (e + i) = vs ! e + i"
proof (induction vs e arbitrary: i rule: run_end.induct)
  case (1 vs e)
  show ?case
  proof (cases "e + 1 < length vs \<and> vs ! (e + 1) = vs ! e + 1")
    case True
    show ?thesis
    proof (cases i)
      case (Suc j)
      have "j \<le> run_end vs (e + 1) - (e + 1)"
        using "1.prems" True Suc by (simp add: run_end.simps [of vs e])
      then show ?thesis using "1.IH" [OF True, of j] True Suc by simp
    qed simp
  next
    case False
    then have "run_end vs e = e" by (auto simp: run_end.simps [of vs e])
    then show ?thesis using "1.prems" by simp
  qed
qed

lemma run_slice:
  assumes "start < length vs"
  shows "map ((!) vs) [start..<run_end vs start + 1] = [vs ! start..<vs ! run_end vs start + 1]"
proof -
  have "vs ! run_end vs start = vs ! start + (run_end vs start - start)"
    using run_consecutive [of "run_end vs start - start" vs start] run_end_ge [of start vs] by simp
  moreover have "vs ! (start + i) = vs ! start + i" if "i < run_end vs start + 1 - start" for i
    using run_consecutive [of i vs start] that by linarith
  ultimately show ?thesis
    using run_end_ge [of start vs] by (intro nth_equalityI) (auto simp del: upt_Suc)
qed

lemma map_nth_drop:
  assumes "s \<le> e" "e \<le> length vs"
  shows "map ((!) vs) [s..<e] @ drop e vs = drop s vs"
proof -
  have d: "drop n vs = map ((!) vs) [n..<length vs]" for n by (intro nth_equalityI) auto
  have "[s..<e] @ [e..<length vs] = [s..<length vs]"
    using assms upt_add_eq_append [of s e "length vs - e"] by simp
  then show ?thesis unfolding d by (metis map_append)
qed

section \<open>Decoding what was encoded\<close>

lemma session_seq_json [simp]: "session_seq (json_seq n) = Inr n"
  by (simp add: json_seq_def)

lemma assertSeq_json [simp]: "int n \<le> MAX_SAFE_INTEGER \<Longrightarrow> assertSeq (json_seq n) = Inr ()"
  by (simp add: json_seq_def require_def)

lemma num_val_json [simp]: "num_val (json_seq n) = int n" "isNumber (json_seq n)"
  by (simp_all add: json_seq_def)

lemma decode_plain:
  "\<forall>v \<in> set vs. int v \<le> MAX_SAFE_INTEGER \<Longrightarrow> length decoded + length vs \<le> maxEntries \<Longrightarrow>
   decode_entries maxEntries (map json_seq vs @ rest) decoded h
   = decode_entries maxEntries rest (decoded @ vs) h"
  by (induction vs arbitrary: decoded) auto

lemma decode_range_json:
  assumes "a \<le> b" "int b \<le> MAX_SAFE_INTEGER" "length decoded + (b + 1 - a) \<le> maxEntries"
  shows "decode_range (json_seq a) (json_seq b) maxEntries decoded = Inr (decoded @ [a..<b + 1])"
  using assms by (simp add: decode_range_def require_def)

lemma decode_encode_from:
  assumes "\<forall>v \<in> set vs. int v \<le> MAX_SAFE_INTEGER" "length decoded + length (drop s vs) \<le> maxEntries"
  shows "\<exists>h'. decode_entries maxEntries (encode_from vs s) decoded h = Inr (decoded @ drop s vs, h')"
  using assms
proof (induction vs s arbitrary: decoded h rule: encode_from.induct)
  case (1 vs start)
  show ?case
  proof (cases "start < length vs")
    case True
    let ?e = "run_end vs start" and ?run = "map ((!) vs) [start..<run_end vs start + 1]"
    have e: "start \<le> ?e" "?e < length vs" using run_end_ge run_end_less True by auto
    have split: "?run @ drop (?e + 1) vs = drop start vs" by (rule map_nth_drop) (use e in auto)
    have len: "length (decoded @ ?run) + length (drop (?e + 1) vs) \<le> maxEntries"
      using "1.prems"(2) e by simp
    have IH: "\<exists>h'. decode_entries maxEntries (encode_from vs (?e + 1)) (decoded @ ?run) g
        = Inr ((decoded @ ?run) @ drop (?e + 1) vs, h')" for g
      by (rule "1.IH" [OF True refl "1.prems"(1) len])
    show ?thesis
    proof (cases "2 \<le> ?e - start")
      case True
      have last: "vs ! ?e = vs ! start + (?e - start)"
        using run_consecutive [of "?e - start" vs start] e by simp
      have "vs ! ?e \<in> set vs" using e(2) by simp
      then have "int (vs ! ?e) \<le> MAX_SAFE_INTEGER" using "1.prems"(1) by blast
      then have "decode_range (json_seq (vs ! start)) (json_seq (vs ! ?e)) maxEntries decoded
          = Inr (decoded @ ?run)"
        using decode_range_json [of "vs ! start" "vs ! ?e" decoded maxEntries] last len e
          run_slice [OF \<open>start < length vs\<close>] by (simp del: upt_Suc)
      then show ?thesis
        using IH True split \<open>start < length vs\<close>
        by (simp add: encode_from.simps [of vs start] Let_def del: upt_Suc)
    next
      case False
      have enc: "encode_from vs start = map json_seq ?run @ encode_from vs (?e + 1)"
        using False \<open>start < length vs\<close> by (simp add: encode_from.simps [of vs start] Let_def del: upt_Suc)
      have "\<forall>v \<in> set ?run. int v \<le> MAX_SAFE_INTEGER" using "1.prems"(1) e by auto
      then have "decode_entries maxEntries (encode_from vs start) decoded h
          = decode_entries maxEntries (encode_from vs (?e + 1)) (decoded @ ?run) h"
        unfolding enc using len by (intro decode_plain) auto
      then show ?thesis using IH split by (simp del: upt_Suc)
    qed
  qed (simp add: encode_from.simps [of vs start])
qed

lemma decode_entries_bound:
  "decode_entries maxEntries xs decoded h = Inr (vs, h') \<Longrightarrow> length decoded \<le> maxEntries \<Longrightarrow>
   length vs \<le> maxEntries"
proof (induction maxEntries xs decoded h rule: decode_entries.induct)
  case (2 m x xs decoded h)
  show ?case
  proof (cases "isNumber x")
    case True
    then show ?thesis using 2(1) 2(3,4) by (fastforce simp: rbind_eq_Inr split: if_splits)
  next
    case False
    then obtain s e where x: "x = JArr [s, e]"
      using 2(3) by (auto split: json.splits list.splits)
    obtain d' where d': "decode_range s e m decoded = Inr d'" "decode_entries m xs d' True = Inr (vs, h')"
      using 2(3) False x by (auto simp: rbind_eq_Inr)
    then have "length d' \<le> m"
      by (cases s rule: session_seq.cases) (auto simp: decode_range_def rbind_eq_Inr nat_le_iff)
    then show ?thesis using 2(2) [OF False x refl refl refl d'(2)] by simp
  qed
qed auto

section \<open>Properties\<close>

text \<open>
  Claim C11. The range encoding is lossless: whatever sequences an event cites, decoding the encoded
  array with room for them returns exactly those sequences in order.
\<close>

theorem seq_ranges_roundtrip:
  assumes "\<forall>v \<in> set vs. int v \<le> MAX_SAFE_INTEGER" "length vs \<le> maxEntries"
  shows "decodeSeqRanges (JArr (encodeSeqRanges vs)) maxEntries = Inr vs"
proof (cases "isStrictlyIncreasing vs")
  case True
  then show ?thesis
    using decode_encode_from [OF assms(1), of "[]" 0 maxEntries False] assms(2)
    by (auto simp: encodeSeqRanges_def)
next
  case False
  then show ?thesis
    using decode_plain [OF assms(1), of "[]" maxEntries "[]" False] assms(2)
    by (simp add: encodeSeqRanges_def)
qed

theorem seq_ranges_roundtrip_witness:
  "encodeSeqRanges [3, 4, 5, 9, 10] = [JArr [json_seq 3, json_seq 5], json_seq 9, json_seq 10]
   \<and> decodeSeqRanges (JArr (encodeSeqRanges [3, 4, 5, 9, 10])) 5 = Inr [3, 4, 5, 9, 10]"
proof -
  have "decodeSeqRanges (JArr (encodeSeqRanges [3, 4, 5, 9, 10])) 5 = Inr [3, 4, 5, 9, 10]"
    by (rule seq_ranges_roundtrip) (simp_all add: MAX_SAFE_INTEGER_def)
  moreover have "encodeSeqRanges [3, 4, 5, 9, 10] = [JArr [json_seq 3, json_seq 5], json_seq 9, json_seq 10]"
    by code_simp
  ultimately show ?thesis by simp
qed

text \<open>
  A stored array never expands beyond the size its event permits: a decoded list has at
  most \<open>maxEntries\<close> entries, whatever ranges the stored value declares.
\<close>

theorem seq_ranges_bounded:
  assumes "decodeSeqRanges j maxEntries = Inr vs"
  shows "length vs \<le> maxEntries"
proof -
  obtain xs where j: "j = JArr xs" using assms by (cases j) auto
  then obtain h where "decode_entries maxEntries xs [] False = Inr (vs, h)"
    using assms by (auto simp: rbind_eq_Inr split: if_splits)
  from decode_entries_bound [OF this] show ?thesis by simp
qed

theorem seq_ranges_bounded_witness: "length [2::nat, 3, 4] \<le> 3"
  by (rule seq_ranges_bounded [of "JArr [JArr [json_seq 2, json_seq 4]]"]) code_simp

end
