(* ===== verification/Deque.thy ===== *)
theory Deque
  imports Prelude
begin

text \<open>
  The circular deque of \<open>packages/util/deque/src/index.ts\<close>: a power-of-two ring buffer with a head
  index and an entry count. A hole of the buffer (JavaScript's \<open>undefined\<close>) is \<open>None\<close>. The
  queue contract it promises to its clients is the locale \<open>fifo_store\<close>.
\<close>

section \<open>State and operations\<close>

definition MIN_CAPACITY :: nat where
  "MIN_CAPACITY = 16"

record 'a deque =
  buffer :: "'a option list"
  head :: nat
  dcount :: nat

definition new_deque :: "'a deque" where
  "new_deque = \<lparr>buffer = replicate MIN_CAPACITY None, head = 0, dcount = 0\<rparr>"

definition deque_size :: "'a deque \<Rightarrow> nat" where
  "deque_size d = dcount d"

text \<open>The copy loop of \<open>resize\<close>: \<open>n\<close> entries from index \<open>source\<close>, wrapping at the end.\<close>

fun copy_entries :: "'a option list \<Rightarrow> nat \<Rightarrow> nat \<Rightarrow> 'a option list" where
  "copy_entries buf source 0 = []"
| "copy_entries buf source (Suc n) =
     buf ! source # copy_entries buf (if Suc source = length buf then 0 else Suc source) n"

definition resize :: "nat \<Rightarrow> 'a deque \<Rightarrow> 'a deque" where
  "resize capacity d =
     (let live = copy_entries (buffer d) (head d) (dcount d)
      in d\<lparr>buffer := live @ replicate (capacity - length live) None, head := 0\<rparr>)"

definition ensureCapacity :: "'a deque \<Rightarrow> 'a deque" where
  "ensureCapacity d =
     (if dcount d < length (buffer d) then d else resize (length (buffer d) * 2) d)"

definition compact :: "'a deque \<Rightarrow> 'a deque" where
  "compact d =
     (if dcount d = 0 then d\<lparr>head := 0\<rparr>
      else if length (buffer d) > MIN_CAPACITY \<and> 4 * dcount d \<le> length (buffer d)
      then resize (max MIN_CAPACITY (length (buffer d) div 2)) d
      else d)"

definition pushBack :: "'a \<Rightarrow> 'a deque \<Rightarrow> 'a deque" where
  "pushBack v d0 =
     (let d = ensureCapacity d0;
          tail = head d + dcount d;
          i = (if tail < length (buffer d) then tail else tail - length (buffer d))
      in d\<lparr>buffer := (buffer d)[i := Some v], dcount := dcount d + 1\<rparr>)"

definition pushFront :: "'a \<Rightarrow> 'a deque \<Rightarrow> 'a deque" where
  "pushFront v d0 =
     (let d = ensureCapacity d0;
          h = (if head d = 0 then length (buffer d) - 1 else head d - 1)
      in d\<lparr>buffer := (buffer d)[h := Some v], head := h, dcount := dcount d + 1\<rparr>)"

definition popFront :: "'a deque \<Rightarrow> 'a option \<times> 'a deque" where
  "popFront d =
     (if dcount d = 0 then (None, d)
      else let v = buffer d ! head d;
               h = (if head d + 1 = length (buffer d) then 0 else head d + 1)
           in (v, compact (d\<lparr>buffer := (buffer d)[head d := None], head := h,
                             dcount := dcount d - 1\<rparr>)))"

definition clear_deque :: "'a deque \<Rightarrow> 'a deque" where
  "clear_deque d = \<lparr>buffer = replicate MIN_CAPACITY None, head = 0, dcount = 0\<rparr>"

section \<open>Abstraction and invariant\<close>

definition slot :: "'a deque \<Rightarrow> nat \<Rightarrow> nat" where
  "slot d i = (head d + i) mod length (buffer d)"

definition entries :: "'a deque \<Rightarrow> 'a option list" where
  "entries d = map (\<lambda>i. buffer d ! slot d i) [0..<dcount d]"

definition contents :: "'a deque \<Rightarrow> 'a list" where
  "contents d = map the (entries d)"

text \<open>
  Live slots hold values and every other slot is cleared; the capacity is a power of two of at
  least sixteen and, beyond that minimum, less than four times the entry count.
\<close>

definition ring_ok :: "'a deque \<Rightarrow> bool" where
  "ring_ok d \<longleftrightarrow>
     head d < length (buffer d) \<and> dcount d \<le> length (buffer d) \<and>
     (\<forall>j < length (buffer d). (buffer d ! j \<noteq> None) = (\<exists>i < dcount d. j = slot d i))"

definition capacity_ok :: "'a deque \<Rightarrow> bool" where
  "capacity_ok d \<longleftrightarrow>
     (\<exists>k. length (buffer d) = MIN_CAPACITY * 2 ^ k) \<and>
     (length (buffer d) = MIN_CAPACITY \<or> length (buffer d) < 4 * dcount d)"

definition deque_inv :: "'a deque \<Rightarrow> bool" where
  "deque_inv d \<longleftrightarrow> ring_ok d \<and> capacity_ok d"

section \<open>Slots\<close>

lemma wrap_mod: "h < L \<Longrightarrow> i \<le> L \<Longrightarrow> (h + i) mod L = (if h + i < L then h + i else h + i - (L::nat))"
  by (auto simp: mod_if)

lemma slot_lt: "head d < length (buffer d) \<Longrightarrow> slot d i < length (buffer d)"
  unfolding slot_def by (rule mod_less_divisor) linarith

lemma slot_inj:
  "head d < length (buffer d) \<Longrightarrow> i < length (buffer d) \<Longrightarrow> j < length (buffer d) \<Longrightarrow>
   slot d i = slot d j \<Longrightarrow> i = j"
  by (auto simp: slot_def wrap_mod split: if_splits)

lemma ring_ok_live: "ring_ok d \<Longrightarrow> i < dcount d \<Longrightarrow> buffer d ! slot d i \<noteq> None"
  unfolding ring_ok_def by (metis slot_lt)

lemma length_entries [simp]: "length (entries d) = dcount d"
  by (simp add: entries_def)

lemma length_contents [simp]: "length (contents d) = dcount d"
  by (simp add: contents_def)

lemma nth_contents: "i < dcount d \<Longrightarrow> contents d ! i = the (buffer d ! slot d i)"
  by (simp add: contents_def entries_def)

lemma copy_entries_eq:
  "source < length buf \<Longrightarrow> n \<le> length buf \<Longrightarrow>
   copy_entries buf source n = map (\<lambda>i. buf ! ((source + i) mod length buf)) [0..<n]"
proof (induction n arbitrary: source)
  case (Suc n)
  let ?next = "if Suc source = length buf then 0 else Suc source"
  have "?next = Suc source mod length buf" using Suc.prems by (simp add: mod_if)
  moreover have "copy_entries buf ?next n = map (\<lambda>i. buf ! ((?next + i) mod length buf)) [0..<n]"
    using Suc.prems by (intro Suc.IH) auto
  ultimately have "copy_entries buf ?next n
      = map (\<lambda>i. buf ! ((source + Suc i) mod length buf)) [0..<n]"
    by (simp add: mod_simps)
  then show ?case using Suc.prems(1)
    by (simp add: upt_conv_Cons map_Suc_upt [symmetric] del: upt_Suc)
qed simp

lemma copy_entries_entries: "ring_ok d \<Longrightarrow> copy_entries (buffer d) (head d) (dcount d) = entries d"
  by (simp add: ring_ok_def copy_entries_eq entries_def slot_def)

section \<open>Every operation keeps the ring and does what its contract says\<close>

lemma resize_ring:
  assumes "ring_ok d" "dcount d \<le> c" "0 < c"
  shows "ring_ok (resize c d)" and "contents (resize c d) = contents d"
    and "length (buffer (resize c d)) = c" and "dcount (resize c d) = dcount d"
proof -
  have b: "buffer (resize c d) = entries d @ replicate (c - dcount d) None"
    by (simp add: resize_def copy_entries_entries assms(1) Let_def)
  show len: "length (buffer (resize c d)) = c" using b assms(2) by simp
  show cnt: "dcount (resize c d) = dcount d" by (simp add: resize_def Let_def)
  have hd0: "head (resize c d) = 0" by (simp add: resize_def Let_def)
  have slots: "slot (resize c d) i = i" if "i < c" for i
    using that by (simp add: slot_def hd0 len)
  have nth: "buffer (resize c d) ! i = (if i < dcount d then entries d ! i else None)" if "i < c" for i
    using that by (simp add: b nth_append)
  have "entries d ! i \<noteq> None" if "i < dcount d" for i
    using that ring_ok_live [OF assms(1)] by (simp add: entries_def)
  then show "ring_ok (resize c d)"
    unfolding ring_ok_def using assms(2,3) slots nth by (auto simp: len cnt hd0)
  show "contents (resize c d) = contents d"
    using assms(2) slots nth
    by (intro nth_equalityI) (auto simp: cnt nth_contents entries_def)
qed

lemma resize_capacity:
  "ring_ok d \<Longrightarrow> dcount d \<le> c \<Longrightarrow> 0 < c \<Longrightarrow> \<exists>k. c = MIN_CAPACITY * 2 ^ k \<Longrightarrow>
   c = MIN_CAPACITY \<or> c < 4 * dcount d \<Longrightarrow> capacity_ok (resize c d)"
  by (simp add: capacity_ok_def resize_ring)

lemma ensureCapacity_ring:
  assumes "ring_ok d"
  shows "ring_ok (ensureCapacity d)" and "contents (ensureCapacity d) = contents d"
    and "dcount (ensureCapacity d) = dcount d"
    and "dcount (ensureCapacity d) < length (buffer (ensureCapacity d))"
proof -
  have "0 < length (buffer d)" and "dcount d \<le> length (buffer d)"
    using assms by (auto simp: ring_ok_def)
  then show "ring_ok (ensureCapacity d)" "contents (ensureCapacity d) = contents d"
    "dcount (ensureCapacity d) = dcount d"
    "dcount (ensureCapacity d) < length (buffer (ensureCapacity d))"
    using resize_ring [OF assms, of "length (buffer d) * 2"] assms
    by (auto simp: ensureCapacity_def)
qed

lemma ensureCapacity_capacity:
  assumes "deque_inv d"
  shows "\<exists>k. length (buffer (ensureCapacity d)) = MIN_CAPACITY * 2 ^ k"
    and "length (buffer (ensureCapacity d)) = MIN_CAPACITY
       \<or> length (buffer (ensureCapacity d)) < 4 * Suc (dcount d)"
proof -
  from assms have r: "ring_ok d" and c: "capacity_ok d" by (auto simp: deque_inv_def)
  from c obtain k where k: "length (buffer d) = MIN_CAPACITY * 2 ^ k" by (auto simp: capacity_ok_def)
  have "0 < length (buffer d)" and "dcount d \<le> length (buffer d)" using r by (auto simp: ring_ok_def)
  then have len: "length (buffer (ensureCapacity d))
      = (if dcount d < length (buffer d) then length (buffer d) else length (buffer d) * 2)"
    using resize_ring(3) [OF r, of "length (buffer d) * 2"] by (auto simp: ensureCapacity_def)
  have "length (buffer d) * 2 = MIN_CAPACITY * 2 ^ Suc k" using k by simp
  with k len show "\<exists>k. length (buffer (ensureCapacity d)) = MIN_CAPACITY * 2 ^ k"
    by (metis (full_types))
  show "length (buffer (ensureCapacity d)) = MIN_CAPACITY
       \<or> length (buffer (ensureCapacity d)) < 4 * Suc (dcount d)"
    using c len by (auto simp: capacity_ok_def)
qed


lemma pushBack_at:
  fixes d :: "'a deque" and v :: 'a
  assumes "ring_ok d" "dcount d < length (buffer d)"
  defines "d' \<equiv> d\<lparr>buffer := (buffer d)[slot d (dcount d) := Some v], dcount := dcount d + 1\<rparr>"
  shows "ring_ok d'" and "contents d' = contents d @ [v]"
proof -
  let ?L = "length (buffer d)"
  have h: "head d < ?L" using assms(1) by (simp add: ring_ok_def)
  have slots: "slot d' i = slot d i" for i by (simp add: d'_def slot_def)
  have neq: "slot d i \<noteq> slot d (dcount d)" if "i < dcount d" for i
    using slot_inj [OF h, of i "dcount d"] that assms(2) by auto
  have nth: "buffer d' ! slot d i = (if i = dcount d then Some v else buffer d ! slot d i)"
    if "i \<le> dcount d" for i
    using that neq [of i] slot_lt [OF h, of "dcount d"]
    by (cases "i = dcount d") (auto simp: d'_def nth_list_update)
  show "contents d' = contents d @ [v]"
  proof (rule nth_equalityI)
    fix i assume "i < length (contents d')"
    then have "i < Suc (dcount d)" by (simp add: d'_def)
    then show "contents d' ! i = (contents d @ [v]) ! i"
      using nth [of i] slots by (auto simp: nth_append nth_contents d'_def less_Suc_eq)
  qed (simp add: d'_def)
  have "(buffer d' ! j \<noteq> None) = (\<exists>i < dcount d'. j = slot d' i)" if "j < ?L" for j
  proof (cases "j = slot d (dcount d)")
    case True
    then show ?thesis using that slots by (auto simp: d'_def)
  next
    case False
    then have "buffer d' ! j = buffer d ! j" by (simp add: d'_def)
    then show ?thesis
      using assms(1) that False slots by (auto simp: ring_ok_def d'_def less_Suc_eq)
  qed
  then show "ring_ok d'" using assms(1,2) by (auto simp: ring_ok_def d'_def)
qed

lemma pushBack_unfold:
  assumes "ring_ok d"
  shows "pushBack v d = (let e = ensureCapacity d in
     e\<lparr>buffer := (buffer e)[slot e (dcount e) := Some v], dcount := dcount e + 1\<rparr>)"
proof -
  have "head (ensureCapacity d) < length (buffer (ensureCapacity d))"
    and "dcount (ensureCapacity d) < length (buffer (ensureCapacity d))"
    using ensureCapacity_ring [OF assms] by (auto simp: ring_ok_def)
  then show ?thesis by (simp add: pushBack_def Let_def slot_def wrap_mod)
qed

lemma pushBack_correct:
  assumes "deque_inv d"
  shows "deque_inv (pushBack v d)" and "contents (pushBack v d) = contents d @ [v]"
proof -
  have r: "ring_ok d" using assms by (simp add: deque_inv_def)
  note e = ensureCapacity_ring [OF r]
  show "contents (pushBack v d) = contents d @ [v]"
    using pushBack_at(2) [OF e(1,4), of v] e(2) by (simp add: pushBack_unfold [OF r] Let_def)
  have "ring_ok (pushBack v d)"
    using pushBack_at(1) [OF e(1,4), of v] by (simp add: pushBack_unfold [OF r] Let_def)
  moreover have "capacity_ok (pushBack v d)"
    using ensureCapacity_capacity [OF assms] e(3)
    by (simp add: pushBack_unfold [OF r] Let_def capacity_ok_def)
  ultimately show "deque_inv (pushBack v d)" by (simp add: deque_inv_def)
qed

lemma pushFront_at:
  fixes d :: "'a deque" and v :: 'a
  assumes "ring_ok d" "dcount d < length (buffer d)"
  defines "h \<equiv> (if head d = 0 then length (buffer d) - 1 else head d - 1)"
  defines "d' \<equiv> d\<lparr>buffer := (buffer d)[h := Some v], head := h, dcount := dcount d + 1\<rparr>"
  shows "ring_ok d'" and "contents d' = v # contents d"
proof -
  let ?L = "length (buffer d)"
  have hl: "head d < ?L" using assms(1) by (simp add: ring_ok_def)
  have h: "h < ?L" using hl by (auto simp: h_def)
  have slots: "slot d' 0 = h" "\<And>i. i < ?L \<Longrightarrow> slot d' (Suc i) = slot d i"
    using h hl by (auto simp: d'_def slot_def h_def wrap_mod mod_if)
  have hlast: "h = slot d (?L - 1)"
  proof (cases "head d = 0")
    case False
    then have "head d + (?L - 1) = (head d - 1) + ?L" using hl by linarith
    then have "slot d (?L - 1) = (head d - 1) mod ?L" by (simp only: slot_def mod_add_self2)
    then show ?thesis using False hl by (simp add: h_def)
  qed (use hl in \<open>simp add: h_def slot_def\<close>)
  have neq: "slot d i \<noteq> h" if "i < dcount d" for i
    using slot_inj [OF hl, of i "?L - 1"] that assms(2) hlast by auto
  have nth: "buffer d' ! slot d i = buffer d ! slot d i" if "i < dcount d" for i
    using neq [OF that] by (simp add: d'_def)
  show "contents d' = v # contents d"
  proof (rule nth_equalityI)
    fix i assume "i < length (contents d')"
    then have "i < Suc (dcount d)" by (simp add: d'_def)
    moreover have "dcount d' = Suc (dcount d)" "buffer d' ! h = Some v" using h by (simp_all add: d'_def)
    ultimately show "contents d' ! i = (v # contents d) ! i"
      using nth slots assms(2) by (cases i) (auto simp: nth_contents)
  qed (simp add: d'_def)
  have ex: "(\<exists>i < Suc (dcount d). j = slot d' i) = (j = h \<or> (\<exists>i < dcount d. j = slot d i))" for j
  proof
    assume "\<exists>i < Suc (dcount d). j = slot d' i"
    then obtain i where "i < Suc (dcount d)" "j = slot d' i" by blast
    then show "j = h \<or> (\<exists>i < dcount d. j = slot d i)"
      using slots(1) slots(2) [of "i - 1"] assms(2) by (cases i) auto
  next
    assume "j = h \<or> (\<exists>i < dcount d. j = slot d i)"
    then show "\<exists>i < Suc (dcount d). j = slot d' i"
    proof
      assume "\<exists>i < dcount d. j = slot d i"
      then obtain i where "i < dcount d" "j = slot d i" by blast
      then show ?thesis using slots(2) [of i] assms(2) by (intro exI [of _ "Suc i"]) simp
    qed (use slots(1) in \<open>auto intro!: exI [of _ 0]\<close>)
  qed
  have "(buffer d' ! j \<noteq> None) = (\<exists>i < dcount d'. j = slot d' i)" if "j < ?L" for j
  proof (cases "j = h")
    case True
    then show ?thesis using that ex by (simp add: d'_def)
  next
    case False
    then have "buffer d' ! j = buffer d ! j" by (simp add: d'_def)
    then show ?thesis
      using assms(1) that False ex [of j] by (simp add: ring_ok_def d'_def)
  qed
  then show "ring_ok d'" using assms(2) h by (auto simp: ring_ok_def d'_def)
qed

lemma pushFront_correct:
  assumes "deque_inv d"
  shows "deque_inv (pushFront v d)" and "contents (pushFront v d) = v # contents d"
proof -
  have r: "ring_ok d" using assms by (simp add: deque_inv_def)
  note e = ensureCapacity_ring [OF r]
  show "contents (pushFront v d) = v # contents d"
    using pushFront_at(2) [OF e(1,4), of v] e(2) by (simp add: pushFront_def Let_def)
  have "ring_ok (pushFront v d)"
    using pushFront_at(1) [OF e(1,4), of v] by (simp add: pushFront_def Let_def)
  moreover have "capacity_ok (pushFront v d)"
    using ensureCapacity_capacity [OF assms] e(3) by (simp add: pushFront_def Let_def capacity_ok_def)
  ultimately show "deque_inv (pushFront v d)" by (simp add: deque_inv_def)
qed

lemma pop_at:
  assumes "ring_ok d" "0 < dcount d"
  defines "h \<equiv> (if head d + 1 = length (buffer d) then 0 else head d + 1)"
  defines "d' \<equiv> d\<lparr>buffer := (buffer d)[head d := None], head := h, dcount := dcount d - 1\<rparr>"
  shows "ring_ok d'" and "contents d = the (buffer d ! head d) # contents d'"
    and "buffer d ! head d = Some (hd (contents d))"
proof -
  let ?L = "length (buffer d)"
  have hl: "head d < ?L" and cl: "dcount d \<le> ?L" using assms(1) by (auto simp: ring_ok_def)
  have h: "h < ?L" using hl by (auto simp: h_def)
  have s0: "slot d 0 = head d" using hl by (simp add: slot_def)
  have "h = Suc (head d) mod ?L" using hl by (simp add: h_def mod_if)
  then have slots: "slot d' i = slot d (Suc i)" for i
    by (simp add: d'_def slot_def mod_simps)
  have neq: "head d \<noteq> slot d (Suc i)" if "Suc i < dcount d" for i
  proof
    assume "head d = slot d (Suc i)"
    then have "slot d (Suc i) = slot d 0" by (simp add: s0)
    moreover have "Suc i < ?L" "0 < ?L" using that cl by linarith+
    ultimately have "Suc i = 0" using slot_inj [OF hl] by blast
    then show False by simp
  qed
  show hdv: "contents d = the (buffer d ! head d) # contents d'"
  proof (rule nth_equalityI)
    fix i assume "i < length (contents d)"
    then have "i < dcount d" by simp
    then show "contents d ! i = (the (buffer d ! head d) # contents d') ! i"
      using slots neq s0 by (cases i) (auto simp: nth_contents d'_def)
  qed (use assms(2) in \<open>simp add: d'_def\<close>)
  show "buffer d ! head d = Some (hd (contents d))"
    using ring_ok_live [OF assms(1,2)] s0 hdv by auto
  have ex: "(\<exists>i < dcount d. j = slot d i) = (j = head d \<or> (\<exists>i < dcount d - 1. j = slot d' i))" for j
  proof
    assume "\<exists>i < dcount d. j = slot d i"
    then obtain i where "i < dcount d" "j = slot d i" by auto
    then show "j = head d \<or> (\<exists>i < dcount d - 1. j = slot d' i)"
    proof (cases i)
      case 0
      then show ?thesis using s0 \<open>j = slot d i\<close> by simp
    next
      case (Suc m)
      then have "m < dcount d - 1" "slot d' m = j"
        using \<open>i < dcount d\<close> \<open>j = slot d i\<close> slots [of m] by auto
      then show ?thesis by blast
    qed
  next
    assume "j = head d \<or> (\<exists>i < dcount d - 1. j = slot d' i)"
    then show "\<exists>i < dcount d. j = slot d i"
    proof
      assume "j = head d"
      then show ?thesis using s0 assms(2) by (intro exI [of _ 0]) simp
    next
      assume "\<exists>i < dcount d - 1. j = slot d' i"
      then obtain i where i: "i < dcount d - 1" "j = slot d' i" by blast
      then have "Suc i < dcount d" by linarith
      then show ?thesis using slots [of i] i(2) by (intro exI [of _ "Suc i"]) simp
    qed
  qed
  have "(buffer d' ! j \<noteq> None) = (\<exists>i < dcount d'. j = slot d' i)" if "j < ?L" for j
  proof (cases "j = head d")
    case True
    have "slot d' i \<noteq> head d" if "i < dcount d - 1" for i
      using neq [of i] slots [of i] that by (auto simp: less_diff_conv)
    moreover have "buffer d' ! j = None" using True hl by (simp add: d'_def)
    moreover have "dcount d' = dcount d - 1" by (simp add: d'_def)
    ultimately show ?thesis using True by (metis (no_types))
  next
    case False
    then show ?thesis
      using assms(1) that ex [of j] by (simp add: ring_ok_def d'_def)
  qed
  then show "ring_ok d'" using cl h by (auto simp: ring_ok_def d'_def)
qed

lemma compact_correct:
  assumes "ring_ok d" "\<exists>k. length (buffer d) = MIN_CAPACITY * 2 ^ k"
    and "length (buffer d) = MIN_CAPACITY \<or> length (buffer d) < 4 * Suc (dcount d)"
  shows "deque_inv (compact d)" and "contents (compact d) = contents d"
proof -
  let ?L = "length (buffer d)"
  have L: "head d < ?L" "dcount d \<le> ?L" using assms(1) by (auto simp: ring_ok_def)
  obtain k where k: "?L = MIN_CAPACITY * 2 ^ k" using assms(2) by blast
  consider (empty) "dcount d = 0"
    | (shrink) "dcount d \<noteq> 0" "MIN_CAPACITY < ?L" "4 * dcount d \<le> ?L"
    | (keep) "dcount d \<noteq> 0" "\<not> (MIN_CAPACITY < ?L \<and> 4 * dcount d \<le> ?L)" by blast
  then have "deque_inv (compact d) \<and> contents (compact d) = contents d"
  proof cases
    case empty
    then have "?L = MIN_CAPACITY" using assms(3) k by (auto simp: MIN_CAPACITY_def)
    with empty show ?thesis using assms(1,2) L
      by (auto simp: compact_def deque_inv_def ring_ok_def capacity_ok_def contents_def entries_def)
  next
    case shrink
    then obtain k' where k': "k = Suc k'" using k by (cases k) auto
    have half: "max MIN_CAPACITY (?L div 2) = MIN_CAPACITY * 2 ^ k'"
      using k k' by (simp add: max_def)
    have c: "compact d = resize (MIN_CAPACITY * 2 ^ k') d"
      using shrink half by (simp add: compact_def)
    have le: "dcount d \<le> MIN_CAPACITY * 2 ^ k'" "0 < MIN_CAPACITY * 2 ^ k'"
      using shrink(3) k k' by (simp_all add: MIN_CAPACITY_def)
    have "2 * (MIN_CAPACITY * 2 ^ k') < 4 * Suc (dcount d)" using assms(3) k k' shrink(2) by auto
    moreover have "x < 4 * c" if "2 * x < 4 * Suc c" "0 < c" for x c :: nat using that by presburger
    ultimately have "MIN_CAPACITY * 2 ^ k' < 4 * dcount d" using shrink(1) by simp
    then have "capacity_ok (resize (MIN_CAPACITY * 2 ^ k') d)"
      using resize_capacity [OF assms(1) le] by blast
    then show ?thesis using resize_ring [OF assms(1) le] c by (simp add: deque_inv_def)
  next
    case keep
    then have "compact d = d" by (auto simp: compact_def)
    moreover have "?L = MIN_CAPACITY \<or> MIN_CAPACITY < ?L"
    proof (cases k)
      case (Suc m)
      have "(1::nat) < 2 ^ Suc m" by (rule one_less_power) auto
      then show ?thesis using k Suc by (simp add: MIN_CAPACITY_def)
    qed (use k in simp)
    ultimately show ?thesis using keep assms(1,2) by (auto simp: deque_inv_def capacity_ok_def)
  qed
  then show "deque_inv (compact d)" "contents (compact d) = contents d" by auto
qed

lemma popFront_correct:
  assumes "deque_inv d" "0 < dcount d"
  shows "deque_inv (snd (popFront d))"
    and "contents (snd (popFront d)) = tl (contents d)"
    and "fst (popFront d) = Some (hd (contents d))"
proof -
  have r: "ring_ok d" and c: "capacity_ok d" using assms(1) by (auto simp: deque_inv_def)
  note p = pop_at [OF r assms(2)]
  let ?d = "d\<lparr>buffer := (buffer d)[head d := None],
     head := if head d + 1 = length (buffer d) then 0 else head d + 1, dcount := dcount d - 1\<rparr>"
  have k: "\<exists>k. length (buffer ?d) = MIN_CAPACITY * 2 ^ k"
    "length (buffer ?d) = MIN_CAPACITY \<or> length (buffer ?d) < 4 * Suc (dcount ?d)"
    using c assms(2) by (auto simp: capacity_ok_def)
  show "deque_inv (snd (popFront d))"
    using compact_correct(1) [OF p(1) k] assms(2) by (simp add: popFront_def Let_def)
  show "contents (snd (popFront d)) = tl (contents d)"
    using compact_correct(2) [OF p(1) k] assms(2) p(2) by (simp add: popFront_def Let_def)
  show "fst (popFront d) = Some (hd (contents d))"
    using p(3) assms(2) by (simp add: popFront_def Let_def)
qed

lemma popFront_empty: "dcount d = 0 \<Longrightarrow> popFront d = (None, d)"
  by (simp add: popFront_def)

lemma new_deque_correct: "deque_inv new_deque" "contents new_deque = []"
  by (auto simp: new_deque_def deque_inv_def ring_ok_def capacity_ok_def contents_def entries_def
      MIN_CAPACITY_def intro!: exI [of _ 0])

lemma clear_deque_correct: "deque_inv (clear_deque d)" "contents (clear_deque d) = []"
  using new_deque_correct by (simp_all add: clear_deque_def new_deque_def)


section \<open>The contract clients rely on\<close>

text \<open>
  The operations the queue clients of the repository call, and the laws they rely on. A script of
  calls behaves on any provider as it does on a plain list.
\<close>

datatype 'a fifo_call = Back 'a | Front 'a | Pop | Clear

fun list_call :: "'a list \<Rightarrow> 'a fifo_call \<Rightarrow> 'a list \<times> 'a option" where
  "list_call xs (Back v) = (xs @ [v], None)"
| "list_call xs (Front v) = (v # xs, None)"
| "list_call xs Pop = (tl xs, if xs = [] then None else Some (hd xs))"
| "list_call xs Clear = ([], None)"

fun list_script :: "'a list \<Rightarrow> 'a fifo_call list \<Rightarrow> 'a list \<times> 'a option list" where
  "list_script xs [] = (xs, [])"
| "list_script xs (c # cs) =
     (let (xs', out) = list_call xs c; (ys, outs) = list_script xs' cs in (ys, out # outs))"

locale fifo_store =
  fixes fresh :: 'q
    and put_back :: "'a \<Rightarrow> 'q \<Rightarrow> 'q"
    and put_front :: "'a \<Rightarrow> 'q \<Rightarrow> 'q"
    and pop :: "'q \<Rightarrow> 'a option \<times> 'q"
    and wipe :: "'q \<Rightarrow> 'q"
    and size_of :: "'q \<Rightarrow> nat"
    and items :: "'q \<Rightarrow> 'a list"
    and inv :: "'q \<Rightarrow> bool"
  assumes fresh_inv: "inv fresh" and fresh_items: "items fresh = []"
    and back_inv: "inv q \<Longrightarrow> inv (put_back v q)" and back_items: "inv q \<Longrightarrow> items (put_back v q) = items q @ [v]"
    and front_inv: "inv q \<Longrightarrow> inv (put_front v q)" and front_items: "inv q \<Longrightarrow> items (put_front v q) = v # items q"
    and pop_inv: "inv q \<Longrightarrow> inv (snd (pop q))" and pop_items: "inv q \<Longrightarrow> items (snd (pop q)) = tl (items q)"
    and pop_value: "inv q \<Longrightarrow> fst (pop q) = (if items q = [] then None else Some (hd (items q)))"
    and wipe_inv: "inv q \<Longrightarrow> inv (wipe q)" and wipe_items: "inv q \<Longrightarrow> items (wipe q) = []"
    and size_items: "inv q \<Longrightarrow> size_of q = length (items q)"
begin

lemmas store_inv = fresh_inv back_inv front_inv pop_inv wipe_inv
lemmas store_items = fresh_items back_items front_items pop_items wipe_items

fun store_call :: "'q \<Rightarrow> 'a fifo_call \<Rightarrow> 'q \<times> 'a option" where
  "store_call q (Back v) = (put_back v q, None)"
| "store_call q (Front v) = (put_front v q, None)"
| "store_call q Pop = (snd (pop q), fst (pop q))"
| "store_call q Clear = (wipe q, None)"

fun store_script :: "'q \<Rightarrow> 'a fifo_call list \<Rightarrow> 'q \<times> 'a option list" where
  "store_script q [] = (q, [])"
| "store_script q (c # cs) =
     (let (q', out) = store_call q c; (r, outs) = store_script q' cs in (r, out # outs))"

lemma call_refines:
  "inv q \<Longrightarrow> inv (fst (store_call q c)) \<and> items (fst (store_call q c)) = fst (list_call (items q) c)
     \<and> snd (store_call q c) = snd (list_call (items q) c)"
  by (cases c) (simp_all add: store_inv store_items pop_value)

lemma script_refines:
  "inv q \<Longrightarrow> inv (fst (store_script q cs)) \<and>
     items (fst (store_script q cs)) = fst (list_script (items q) cs) \<and>
     snd (store_script q cs) = snd (list_script (items q) cs)"
proof (induction cs arbitrary: q)
  case (Cons c cs)
  from call_refines [OF Cons.prems, of c] Cons.IH [of "fst (store_call q c)"]
  show ?case by (simp add: case_prod_unfold Let_def)
qed simp

end

interpretation dq: fifo_store new_deque pushBack pushFront popFront clear_deque deque_size contents deque_inv
proof unfold_locales
  fix q :: "'a deque" assume q: "deque_inv q"
  have empty: "contents q = [] \<longleftrightarrow> dcount q = 0" by (metis length_0_conv length_contents)
  show "deque_inv (snd (popFront q))"
    using popFront_correct(1) [OF q] popFront_empty [of q] q by (cases "dcount q = 0") auto
  show "contents (snd (popFront q)) = tl (contents q)"
    using popFront_correct(2) [OF q] popFront_empty [of q] empty by (cases "dcount q = 0") auto
  show "fst (popFront q) = (if contents q = [] then None else Some (hd (contents q)))"
    using popFront_correct(3) [OF q] popFront_empty [of q] empty by (cases "dcount q = 0") auto
qed (simp_all add: new_deque_correct clear_deque_correct pushBack_correct pushFront_correct deque_size_def)

fun deque_call :: "'a deque \<Rightarrow> 'a fifo_call \<Rightarrow> 'a deque \<times> 'a option" where
  "deque_call d (Back v) = (pushBack v d, None)"
| "deque_call d (Front v) = (pushFront v d, None)"
| "deque_call d Pop = (snd (popFront d), fst (popFront d))"
| "deque_call d Clear = (clear_deque d, None)"

fun deque_script :: "'a deque \<Rightarrow> 'a fifo_call list \<Rightarrow> 'a deque \<times> 'a option list" where
  "deque_script d [] = (d, [])"
| "deque_script d (c # cs) =
     (let (d', out) = deque_call d c; (e, outs) = deque_script d' cs in (e, out # outs))"

lemma deque_call_store: "deque_call d c = dq.store_call d c"
  by (cases c) simp_all

lemma deque_script_store: "deque_script d cs = dq.store_script d cs"
  by (induction cs arbitrary: d) (simp_all add: deque_call_store)

lemma live_slots:
  assumes "ring_ok d"
  shows "length (filter (\<lambda>x. x \<noteq> None) (buffer d)) = dcount d"
proof -
  have h: "head d < length (buffer d)" and c: "dcount d \<le> length (buffer d)"
    using assms by (auto simp: ring_ok_def)
  have "{j. j < length (buffer d) \<and> buffer d ! j \<noteq> None} = slot d ` {..<dcount d}"
    using assms slot_lt [OF h] by (auto simp: ring_ok_def)
  moreover have "inj_on (slot d) {..<dcount d}"
    using slot_inj [OF h] c by (auto intro!: inj_onI)
  ultimately show ?thesis by (simp add: length_filter_conv_card card_image)
qed

lemma capacity_bound: "deque_inv d \<Longrightarrow> length (buffer d) \<le> max 16 (4 * deque_size d)"
  by (auto simp: deque_inv_def capacity_ok_def deque_size_def MIN_CAPACITY_def)

section \<open>Properties\<close>

text \<open>
  Claim C15. Any script of pushes at either end, pops and clears run on a fresh deque returns what a
  plain list returns and leaves the same entries in the same order, through every growth, wrap
  around and compaction of the ring.
\<close>

theorem deque_script_is_list:
  "snd (deque_script new_deque cs) = snd (list_script [] cs) \<and>
   contents (fst (deque_script new_deque cs)) = fst (list_script [] cs)"
  using dq.script_refines [OF dq.fresh_inv, of cs] by (simp add: deque_script_store dq.fresh_items)

text \<open>
  After any script the buffer retains exactly the live entries (a popped or cleared slot
  holds no reference) and its capacity stays within four times the size, or the minimum of 16.
\<close>

theorem deque_retains_live:
  "let d = fst (deque_script new_deque cs) in
     length (filter (\<lambda>x. x \<noteq> None) (buffer d)) = deque_size d \<and>
     length (buffer d) \<le> max 16 (4 * deque_size d)"
proof -
  have "deque_inv (fst (deque_script new_deque cs))"
    using dq.script_refines [OF dq.fresh_inv, of cs] by (simp add: deque_script_store)
  then show ?thesis
    using live_slots capacity_bound by (auto simp: Let_def deque_inv_def deque_size_def)
qed

end
