(* ===== verification/Byte_Queues.thy ===== *)
theory Byte_Queues
  imports Deque "HOL-Library.Sublist"
begin

text \<open>
  The two byte-budgeted, single-consumer queues the API layer builds on the deque:
  \<open>TerminalFollower\<close> (\<open>packages/api/terminal-controller/src/stream.ts\<close>) and \<open>UplinkInbox\<close>
  (\<open>packages/api/gateway/src/stream-server.ts\<close>). An asynchronous reader is modelled by the turns
  of its loop: a turn yields, parks until woken, ends, or throws. The byte length of a frame
  (\<open>Buffer.byteLength(JSON.stringify(frame))\<close>) arrives with the frame.
\<close>

definition queued_bytes :: "('a \<times> nat) deque \<Rightarrow> nat" where
  "queued_bytes q = sum_list (map snd (contents q))"

lemma queued_bytes_simps [simp]:
  "deque_inv q \<Longrightarrow> queued_bytes (pushBack (x, n) q) = queued_bytes q + n"
  "deque_inv q \<Longrightarrow> queued_bytes (clear_deque q) = 0"
  "queued_bytes new_deque = 0"
  by (simp_all add: queued_bytes_def dq.store_items)

lemma pop_Some:
  assumes "deque_inv q" "popFront q = (Some x, q')"
  shows "deque_inv q'" and "contents q = x # contents q'"
proof -
  show "deque_inv q'" using dq.pop_inv [OF assms(1)] assms(2) by simp
  show "contents q = x # contents q'"
    using dq.pop_value [OF assms(1)] dq.pop_items [OF assms(1)] assms(2)
    by (auto split: if_splits)
qed

lemma pop_None: "deque_inv q \<Longrightarrow> popFront q = (None, q') \<Longrightarrow> contents q = [] \<and> deque_inv q' \<and> contents q' = []"
  using dq.pop_value [of q] dq.pop_items [of q] dq.pop_inv [of q] by (auto split: if_splits)

section \<open>The terminal follower\<close>

record 'f follower =
  queue :: "('f \<times> nat) deque"
  fbytes :: nat
  closed :: bool
  finished :: bool
  overflowed :: bool
  maxBytes :: nat

definition new_follower :: "nat \<Rightarrow> 'f follower" where
  "new_follower m = \<lparr>queue = new_deque, fbytes = 0, closed = False, finished = False,
     overflowed = False, maxBytes = m\<rparr>"

definition follower_close :: "'f follower \<Rightarrow> 'f follower" where
  "follower_close s = s\<lparr>closed := True, queue := clear_deque (queue s), fbytes := 0\<rparr>"

definition follower_push :: "'f \<Rightarrow> nat \<Rightarrow> 'f follower \<Rightarrow> 'f follower" where
  "follower_push frame bytes s =
     (if closed s \<or> finished s then s
      else if fbytes s + bytes > maxBytes s then follower_close (s\<lparr>overflowed := True\<rparr>)
      else s\<lparr>queue := pushBack (frame, bytes) (queue s), fbytes := fbytes s + bytes\<rparr>)"

definition follower_finish :: "'f follower \<Rightarrow> 'f follower" where
  "follower_finish s = s\<lparr>finished := True\<rparr>"

datatype 'f reading = Yield 'f | Park | Ended | Threw

text \<open>One turn of the reading loop; leaving the loop closes the follower (the \<open>finally\<close> block).\<close>

definition follower_read :: "'f follower \<Rightarrow> 'f reading \<times> 'f follower" where
  "follower_read s =
     (if closed s then (if overflowed s then Threw else Ended, follower_close s)
      else case popFront (queue s) of
        (Some (frame, n), q) \<Rightarrow> (Yield frame, s\<lparr>queue := q, fbytes := fbytes s - n\<rparr>)
      | (None, q) \<Rightarrow> (if finished s then (if overflowed s then Threw else Ended, follower_close (s\<lparr>queue := q\<rparr>))
                    else (Park, s\<lparr>queue := q\<rparr>)))"

datatype 'f follower_event = FPush 'f nat | FFinish | FClose | FRead

fun follower_step :: "'f follower \<Rightarrow> 'f follower_event \<Rightarrow> 'f follower \<times> 'f reading list" where
  "follower_step s (FPush f n) = (follower_push f n s, [])"
| "follower_step s FFinish = (follower_finish s, [])"
| "follower_step s FClose = (follower_close s, [])"
| "follower_step s FRead = (snd (follower_read s), [fst (follower_read s)])"

fun follower_run :: "'f follower \<Rightarrow> 'f follower_event list \<Rightarrow> 'f follower \<times> 'f reading list" where
  "follower_run s [] = (s, [])"
| "follower_run s (e # es) =
     (let (s', o1) = follower_step s e; (t, o2) = follower_run s' es in (t, o1 @ o2))"

fun yields :: "'f reading list \<Rightarrow> 'f list" where
  "yields [] = []"
| "yields (Yield f # rs) = f # yields rs"
| "yields (_ # rs) = yields rs"

fun pushed :: "'f follower_event list \<Rightarrow> 'f list" where
  "pushed [] = []"
| "pushed (FPush f n # es) = f # pushed es"
| "pushed (_ # es) = pushed es"

definition follower_inv :: "'f follower \<Rightarrow> bool" where
  "follower_inv s \<longleftrightarrow> deque_inv (queue s) \<and> fbytes s = queued_bytes (queue s) \<and> fbytes s \<le> maxBytes s \<and>
     (closed s \<longrightarrow> contents (queue s) = []) \<and> (overflowed s \<longrightarrow> closed s)"

lemma follower_inv_new: "follower_inv (new_follower m)"
  by (simp add: follower_inv_def new_follower_def dq.fresh_inv dq.fresh_items)

lemma follower_inv_close: "follower_inv s \<Longrightarrow> follower_inv (follower_close s)"
  by (simp add: follower_inv_def follower_close_def dq.wipe_inv dq.wipe_items)

lemma follower_inv_push: "follower_inv s \<Longrightarrow> follower_inv (follower_push f n s)"
  by (auto simp: follower_inv_def follower_push_def follower_close_def dq.store_inv dq.store_items)

lemma follower_inv_read:
  assumes "follower_inv s" shows "follower_inv (snd (follower_read s))"
proof -
  have inv: "deque_inv (queue s)" using assms by (simp add: follower_inv_def)
  show ?thesis
  proof (cases "closed s")
    case True
    then show ?thesis using assms follower_inv_close by (simp add: follower_read_def)
  next
    case False
    obtain v q where p: "popFront (queue s) = (v, q)" by force
    show ?thesis
    proof (cases v)
      case None
      have "follower_inv (s\<lparr>queue := q\<rparr>)"
        using pop_None [OF inv p [unfolded None]] assms by (simp add: follower_inv_def queued_bytes_def)
      then show ?thesis using False p None follower_inv_close by (auto simp: follower_read_def)
    next
      case (Some fn)
      obtain f n where fn: "fn = (f, n)" by force
      note ps = pop_Some [OF inv p [unfolded Some]]
      show ?thesis using ps assms False p Some fn
        by (simp add: follower_read_def follower_inv_def queued_bytes_def)
    qed
  qed
qed

lemma follower_inv_step: "follower_inv s \<Longrightarrow> follower_inv (fst (follower_step s e))"
  by (cases e) (simp_all add: follower_inv_push follower_inv_close follower_inv_read,
     simp add: follower_inv_def follower_finish_def)

lemma follower_inv_run: "follower_inv s \<Longrightarrow> follower_inv (fst (follower_run s es))"
proof (induction es arbitrary: s)
  case (Cons e es)
  then show ?case using follower_inv_step [of s e] by (simp add: case_prod_unfold Let_def)
qed simp

lemma maxBytes_step [simp]: "maxBytes (fst (follower_step s e)) = maxBytes s"
  by (cases e) (auto simp: follower_push_def follower_close_def follower_finish_def follower_read_def
      split: prod.splits option.splits)

lemma maxBytes_run [simp]: "maxBytes (fst (follower_run s es)) = maxBytes s"
  by (induction es arbitrary: s) (simp_all add: case_prod_unfold Let_def)

lemma yields_append [simp]: "yields (xs @ ys) = yields xs @ yields ys"
  by (induction xs rule: yields.induct) auto

text \<open>What a follower may still deliver: its queue and, while it is open, later frames.\<close>

definition deliverable :: "'f follower \<Rightarrow> 'f follower_event list \<Rightarrow> 'f list" where
  "deliverable s es = map fst (contents (queue s)) @ (if closed s \<or> finished s then [] else pushed es)"

lemma follower_read_delivery:
  assumes "follower_inv s"
  shows "prefix (yields [fst (follower_read s)] @ deliverable (snd (follower_read s)) es) (deliverable s es)"
proof -
  have inv: "deque_inv (queue s)" using assms by (simp add: follower_inv_def)
  obtain v q where p: "popFront (queue s) = (v, q)" by force
  show ?thesis
  proof (cases v)
    case None
    from pop_None [OF inv p [unfolded None]] show ?thesis
      using p None inv
      by (auto simp: follower_read_def follower_close_def dq.wipe_items deliverable_def)
  next
    case (Some fn)
    obtain f n where fn: "fn = (f, n)" by force
    note ps = pop_Some [OF inv p [unfolded Some]]
    show ?thesis using ps p Some fn inv
      by (auto simp: follower_read_def follower_close_def dq.wipe_items deliverable_def)
  qed
qed

lemma follower_step_delivery:
  assumes "follower_inv s"
  shows "prefix (yields (snd (follower_step s e)) @ deliverable (fst (follower_step s e)) es)
           (deliverable s (e # es))"
proof (cases e)
  case FRead
  have "deliverable s (FRead # es) = deliverable s es" by (simp add: deliverable_def)
  then show ?thesis using FRead follower_read_delivery [OF assms, of es]
    by (simp del: yields.simps)
next
  case (FPush f n)
  then show ?thesis using assms
    by (auto simp: follower_inv_def follower_push_def follower_close_def dq.store_items deliverable_def)
qed (use assms in \<open>auto simp: follower_inv_def follower_close_def follower_finish_def dq.store_items
      deliverable_def\<close>)

lemma follower_run_delivery:
  "follower_inv s \<Longrightarrow> prefix (yields (snd (follower_run s es))) (deliverable s es)"
proof (induction es arbitrary: s)
  case (Cons e es)
  let ?s = "fst (follower_step s e)"
  have "prefix (yields (snd (follower_run ?s es))) (deliverable ?s es)"
    using follower_inv_step [OF Cons.prems] by (rule Cons.IH)
  then have "prefix (yields (snd (follower_step s e)) @ yields (snd (follower_run ?s es)))
      (yields (snd (follower_step s e)) @ deliverable ?s es)" by simp
  from prefix_order.trans [OF this follower_step_delivery [OF Cons.prems]]
  show ?case by (simp add: case_prod_unfold Let_def)
qed (simp add: deliverable_def)

text \<open>After \<open>finish\<close>, reading drains the queue in order and then ends the stream.\<close>

lemma follower_drain:
  assumes "follower_inv s" "finished s" "\<not> closed s"
  shows "snd (follower_run s (replicate (Suc (length (contents (queue s)))) FRead))
       = map (\<lambda>x. Yield (fst x)) (contents (queue s)) @ [Ended]"
  using assms
proof (induction "contents (queue s)" arbitrary: s)
  case Nil
  have inv: "deque_inv (queue s)" using Nil.prems(1) by (simp add: follower_inv_def)
  have "fst (popFront (queue s)) = None" using dq.pop_value [OF inv] Nil.hyps by simp
  then have "fst (follower_read s) = Ended"
    using Nil.prems by (auto simp: follower_read_def follower_inv_def split: option.splits prod.splits)
  then show ?case using Nil.hyps [symmetric] by (simp add: case_prod_unfold Let_def)
next
  case (Cons x xs)
  have inv: "deque_inv (queue s)" using Cons.prems(1) by (simp add: follower_inv_def)
  obtain f n where x: "x = (f, n)" by force
  have v: "fst (popFront (queue s)) = Some (f, n)"
    using dq.pop_value [OF inv] Cons.hyps(2) x by (metis list.distinct(1) list.sel(1))
  then obtain q where p: "popFront (queue s) = (Some (f, n), q)" by (metis prod.collapse)
  have q: "contents q = xs" using pop_Some(2) [OF inv p] Cons.hyps(2) by simp
  let ?t = "s\<lparr>queue := q, fbytes := fbytes s - n\<rparr>"
  have r: "follower_read s = (Yield f, ?t)" using p Cons.prems(3) by (simp add: follower_read_def)
  have "follower_inv ?t" using follower_inv_read [OF Cons.prems(1)] r by simp
  then have "snd (follower_run ?t (replicate (Suc (length (contents (queue ?t)))) FRead))
       = map (\<lambda>x. Yield (fst x)) (contents (queue ?t)) @ [Ended]"
    using Cons.hyps(1) [of ?t] q Cons.prems by simp
  then show ?case using Cons.hyps(2) [symmetric] q r x
    by (simp add: case_prod_unfold Let_def)
qed

section \<open>The uplink inbox\<close>

datatype uplink_error = Item_After_End | Uplink_Overflow | Reader_Failure string

record 'v uplink =
  uqueue :: "('v \<times> nat) deque"
  ubytes :: nat
  ended :: bool
  uclosed :: bool
  taken :: bool
  failure :: "uplink_error option"
  wake :: bool
  umax :: nat

definition new_uplink :: "nat \<Rightarrow> 'v uplink" where
  "new_uplink m = \<lparr>uqueue = new_deque, ubytes = 0, ended = False, uclosed = False, taken = False,
     failure = None, wake = False, umax = m\<rparr>"

definition uplink_signal :: "'v uplink \<Rightarrow> 'v uplink" where
  "uplink_signal s = s\<lparr>wake := False\<rparr>"

definition uplink_fail :: "uplink_error \<Rightarrow> 'v uplink \<Rightarrow> 'v uplink" where
  "uplink_fail e s =
     (if failure s \<noteq> None then s
      else uplink_signal (s\<lparr>failure := Some e, uqueue := clear_deque (uqueue s), ubytes := 0\<rparr>))"

text \<open>The violations passed to \<open>onViolation\<close> are the second component.\<close>

definition uplink_violate :: "uplink_error \<Rightarrow> 'v uplink \<Rightarrow> 'v uplink \<times> uplink_error list" where
  "uplink_violate e s = (uplink_fail e s, [e])"

definition uplink_push :: "'v \<Rightarrow> nat \<Rightarrow> 'v uplink \<Rightarrow> 'v uplink \<times> uplink_error list" where
  "uplink_push v n s =
     (if failure s \<noteq> None \<or> uclosed s then (s, [])
      else if ended s then uplink_violate Item_After_End s
      else if ubytes s + n > umax s then uplink_violate Uplink_Overflow s
      else (uplink_signal (s\<lparr>uqueue := pushBack (v, n) (uqueue s), ubytes := ubytes s + n\<rparr>), []))"

definition uplink_end :: "'v uplink \<Rightarrow> 'v uplink" where
  "uplink_end s = (if ended s then s else uplink_signal (s\<lparr>ended := True\<rparr>))"

definition uplink_iterator :: "'v uplink \<Rightarrow> 'v uplink option" where
  "uplink_iterator s = (if taken s then None else Some (s\<lparr>taken := True\<rparr>))"

datatype 'v uplink_read = Item 'v | UDone | UThrow uplink_error | One_Pending_Read | UPark

definition uplink_next :: "'v uplink \<Rightarrow> 'v uplink \<times> 'v uplink_read" where
  "uplink_next s =
     (if uclosed s then (s, UDone)
      else case popFront (uqueue s) of
        (Some (v, n), q) \<Rightarrow> (s\<lparr>uqueue := q, ubytes := ubytes s - n\<rparr>, Item v)
      | (None, q) \<Rightarrow>
          (let s' = s\<lparr>uqueue := q\<rparr> in
           case failure s' of Some e \<Rightarrow> (s', UThrow e)
           | None \<Rightarrow> if ended s' then (s', UDone)
                     else if wake s' then (s', One_Pending_Read)
                     else (s'\<lparr>wake := True\<rparr>, UPark)))"

definition uplink_return :: "'v uplink \<Rightarrow> 'v uplink" where
  "uplink_return s = uplink_signal (s\<lparr>uclosed := True, uqueue := clear_deque (uqueue s), ubytes := 0\<rparr>)"

datatype 'v uplink_event = UPush 'v nat | UEnd | UFail string | UNext | UReturn

fun uplink_step :: "'v uplink \<Rightarrow> 'v uplink_event \<Rightarrow> 'v uplink \<times> uplink_error list" where
  "uplink_step s (UPush v n) = uplink_push v n s"
| "uplink_step s UEnd = (uplink_end s, [])"
| "uplink_step s (UFail m) = (uplink_fail (Reader_Failure m) s, [])"
| "uplink_step s UNext = (fst (uplink_next s), [])"
| "uplink_step s UReturn = (uplink_return s, [])"

fun uplink_run :: "'v uplink \<Rightarrow> 'v uplink_event list \<Rightarrow> 'v uplink \<times> uplink_error list" where
  "uplink_run s [] = (s, [])"
| "uplink_run s (e # es) =
     (let (s', o1) = uplink_step s e; (t, o2) = uplink_run s' es in (t, o1 @ o2))"

definition uplink_inv :: "'v uplink \<Rightarrow> bool" where
  "uplink_inv s \<longleftrightarrow> deque_inv (uqueue s) \<and> ubytes s = queued_bytes (uqueue s) \<and> ubytes s \<le> umax s \<and>
     (uclosed s \<or> failure s \<noteq> None \<longrightarrow> contents (uqueue s) = [])"

lemma uplink_inv_new: "uplink_inv (new_uplink m)"
  by (simp add: uplink_inv_def new_uplink_def dq.fresh_inv dq.fresh_items)

lemma umax_new [simp]: "umax (new_uplink m) = m"
  by (simp add: new_uplink_def)

lemma uplink_inv_fail: "uplink_inv s \<Longrightarrow> uplink_inv (uplink_fail e s)"
  by (simp add: uplink_inv_def uplink_fail_def uplink_signal_def dq.wipe_inv dq.wipe_items)

lemma uplink_inv_push: "uplink_inv s \<Longrightarrow> uplink_inv (fst (uplink_push v n s))"
  using uplink_inv_fail [of s]
  by (auto simp: uplink_push_def uplink_violate_def)
     (auto simp: uplink_inv_def uplink_signal_def dq.store_inv dq.store_items)

lemma uplink_inv_next:
  assumes "uplink_inv s" shows "uplink_inv (fst (uplink_next s))"
proof -
  have inv: "deque_inv (uqueue s)" using assms by (simp add: uplink_inv_def)
  obtain v q where p: "popFront (uqueue s) = (v, q)" by force
  show ?thesis
  proof (cases v)
    case None
    from pop_None [OF inv p [unfolded None]] show ?thesis
      using p None assms by (auto simp: uplink_next_def uplink_inv_def queued_bytes_def Let_def
          split: option.splits)
  next
    case (Some fn)
    obtain f n where fn: "fn = (f, n)" by force
    from pop_Some [OF inv p [unfolded Some]] show ?thesis
      using p Some fn assms by (auto simp: uplink_next_def uplink_inv_def queued_bytes_def)
  qed
qed

lemma uplink_inv_step: "uplink_inv s \<Longrightarrow> uplink_inv (fst (uplink_step s e))"
  by (cases e) (simp_all add: uplink_inv_push uplink_inv_fail uplink_inv_next,
     simp_all add: uplink_inv_def uplink_end_def uplink_return_def uplink_signal_def dq.wipe_inv dq.wipe_items)

lemma umax_step [simp]: "umax (fst (uplink_step s e)) = umax s"
  by (cases e) (auto simp: uplink_push_def uplink_violate_def uplink_fail_def uplink_signal_def
      uplink_end_def uplink_next_def uplink_return_def Let_def split: prod.splits option.splits)

lemma uplink_run_inv:
  "uplink_inv s \<Longrightarrow> uplink_inv (fst (uplink_run s es)) \<and> umax (fst (uplink_run s es)) = umax s"
proof (induction es arbitrary: s)
  case (Cons e es)
  then show ?case using uplink_inv_step [of s e] by (simp add: case_prod_unfold Let_def)
qed simp

lemma uplink_step_failed:
  "failure s \<noteq> None \<Longrightarrow> failure (fst (uplink_step s e)) = failure s \<and> snd (uplink_step s e) = []"
  by (cases e) (auto simp: uplink_push_def uplink_fail_def uplink_end_def uplink_signal_def
      uplink_next_def uplink_return_def Let_def split: prod.splits option.splits)

lemma uplink_run_failed:
  "failure s \<noteq> None \<Longrightarrow> failure (fst (uplink_run s es)) = failure s \<and> snd (uplink_run s es) = []"
proof (induction es arbitrary: s)
  case (Cons e es)
  then show ?case using uplink_step_failed [of s e] by (simp add: case_prod_unfold Let_def)
qed simp

lemma uplink_step_violation:
  "snd (uplink_step s e) = [] \<or> (\<exists>x. snd (uplink_step s e) = [x] \<and> failure (fst (uplink_step s e)) = Some x)"
  by (cases e) (auto simp: uplink_push_def uplink_violate_def uplink_fail_def uplink_signal_def)

lemma uplink_run_violation:
  "snd (uplink_run s es) = [] \<or> (\<exists>x. snd (uplink_run s es) = [x] \<and> failure (fst (uplink_run s es)) = Some x)"
proof (induction es arbitrary: s)
  case (Cons e es)
  let ?s = "fst (uplink_step s e)"
  show ?case
    using uplink_step_violation [of s e] Cons.IH [of ?s] uplink_run_failed [of ?s es]
    by (auto simp: case_prod_unfold Let_def)
qed simp

section \<open>Properties\<close>

text \<open>
  Whatever the interleaving of pushes, reads, finish and close, a terminal follower
  delivers a prefix of the frames pushed to it: nothing is reordered, duplicated or skipped.
\<close>

theorem follower_delivers_prefix:
  "prefix (yields (snd (follower_run (new_follower m) es))) (pushed es)"
  using follower_run_delivery [OF follower_inv_new, of m es]
  by (simp add: deliverable_def new_follower_def dq.fresh_items)

text \<open>
  The follower's byte counter is the bytes of its queued frames and never exceeds the
  budget, an overflow always closes it, and a closed follower holds nothing.
\<close>

theorem follower_budget:
  "let s = fst (follower_run (new_follower m) es) in
     fbytes s = queued_bytes (queue s) \<and> fbytes s \<le> m \<and> \<not> (overflowed s \<and> \<not> closed s) \<and>
     \<not> (closed s \<and> contents (queue s) \<noteq> [])"
proof -
  have "follower_inv (fst (follower_run (new_follower m) es))"
    by (rule follower_inv_run [OF follower_inv_new])
  moreover have "maxBytes (fst (follower_run (new_follower m) es)) = m" by (simp add: new_follower_def)
  ultimately show ?thesis by (simp add: follower_inv_def Let_def)
qed

text \<open>
  A follower that was finished but not closed, in any state it can reach, drains: reading
  yields its queued frames in order and then ends the stream instead of parking.
\<close>

theorem follower_finish_drains:
  assumes "s = fst (follower_run (new_follower m) es)" "finished s" "\<not> closed s"
  shows "snd (follower_run s (replicate (Suc (length (contents (queue s)))) FRead))
       = map (\<lambda>x. Yield (fst x)) (contents (queue s)) @ [Ended]"
  using follower_drain [OF _ assms(2,3)] follower_inv_run [OF follower_inv_new, of m es] assms(1) by simp

theorem follower_finish_drains_witness:
  "snd (follower_run (fst (follower_run (new_follower 9) [FPush ''a'' 3, FPush ''b'' 4, FFinish]))
     [FRead, FRead, FRead]) = [Yield ''a'', Yield ''b'', Ended]"
proof -
  let ?s = "fst (follower_run (new_follower 9) [FPush ''a'' 3, FPush ''b'' 4, FFinish])"
  have c: "contents (queue ?s) = [(''a'', 3), (''b'', 4)]" "finished ?s" "\<not> closed ?s" by code_simp+
  show ?thesis using follower_finish_drains [OF refl c(2,3)] unfolding c(1) by (simp add: numeral_eq_Suc)
qed

text \<open>
  An uplink inbox never holds more than its byte budget, holds nothing once it failed or
  closed, and reports at most one violation in its life, which is the failure its reader then sees.
\<close>

theorem uplink_budget_and_violation:
  "let (s, violations) = uplink_run (new_uplink m) es in
     queued_bytes (uqueue s) \<le> m \<and> (contents (uqueue s) = [] \<or> (uclosed s = False \<and> failure s = None)) \<and>
     length violations \<le> 1 \<and> set violations \<subseteq> set_option (failure s)"
  using uplink_run_inv [OF uplink_inv_new, of m es] uplink_run_violation [of "new_uplink m" es]
  by (auto simp: case_prod_unfold uplink_inv_def)

end
