(* ===== verification/Inbox.thy ===== *)
theory Inbox
  imports Session_Events "HOL-Library.Multiset"
begin

text \<open>
  The durable agent inbox (\<open>packages/core/agent-loop/src/inbox.ts\<close>): the projection folding
  \<open>agent/inbox/spliced\<close> events into two pending lists, and the live facade \<open>ReactLoopInbox\<close> that
  normalises a mutation, records it and announces it. The facade reads its state from the session's
  projection, so \<open>current\<close> is the fold of the session log.
\<close>

section \<open>The durable projection\<close>

record inbox_state =
  next_turn :: "user_message list"
  next_step :: "user_message list"

datatype inbox_error =
    Invalid_Splice
  | Array_Too_Long   \<comment> \<open>the runtime's RangeError\<close>
  | Already_Pending string
  | Invalid_Persisted nat inbox_error   \<comment> \<open>session seq and cause\<close>

definition inbox_init :: inbox_state where
  "inbox_init = \<lparr>next_turn = [], next_step = []\<rparr>"

fun inbox_list :: "inbox_target \<Rightarrow> inbox_state \<Rightarrow> user_message list" where
  "inbox_list Next_Turn s = next_turn s"
| "inbox_list Next_Step s = next_step s"

fun inbox_set :: "inbox_target \<Rightarrow> user_message list \<Rightarrow> inbox_state \<Rightarrow> inbox_state" where
  "inbox_set Next_Turn ms s = s\<lparr>next_turn := ms\<rparr>"
| "inbox_set Next_Step ms s = s\<lparr>next_step := ms\<rparr>"

text \<open>A safe non-negative integer, as an index.\<close>

fun safe_index :: "jnum \<Rightarrow> nat option" where
  "safe_index (JInt i) = (if isSafeInteger (JNum (JInt i)) \<and> 0 \<le> i then Some (nat i) else None)"
| "safe_index JNegZero = Some 0"
| "safe_index (JFrac q) = None"

text \<open>The duplicate scan: a set of the identities seen so far.\<close>

fun claim_ids :: "string set \<Rightarrow> user_message list \<Rightarrow> (inbox_error, unit) res" where
  "claim_ids ids [] = Inr ()"
| "claim_ids ids (m # ms) =
     (if um_id m \<in> ids then Inl (Already_Pending (um_id m)) else claim_ids (insert (um_id m) ids) ms)"

text \<open>The longest array the language allows.\<close>

definition MAX_ARRAY_LENGTH :: int where
  "MAX_ARRAY_LENGTH = 4294967295"

definition all_pending :: "inbox_state \<Rightarrow> user_message list" where
  "all_pending s = next_turn s @ next_step s"

text \<open>
  The splice both sides perform: build the new list (an array beyond the language's limit throws),
  then require every pending identity to be unique.
\<close>

definition checked_splice :: "inbox_target \<Rightarrow> nat \<Rightarrow> nat \<Rightarrow> user_message list \<Rightarrow> inbox_state
    \<Rightarrow> (inbox_error, inbox_state) res" where
  "checked_splice target i n inserted s =
     (let s' = inbox_set target (spliced (inbox_list target s) i n inserted) s in
      if int (length (all_pending s')) > MAX_ARRAY_LENGTH then Inl Array_Too_Long
      else rbind (claim_ids {} (all_pending s')) (\<lambda>_. Inr s'))"

definition apply_splice :: "inbox_state \<Rightarrow> inbox_splice \<Rightarrow> (inbox_error, inbox_state) res" where
  "apply_splice s sp =
     (let inbox = inbox_list (sp_target sp) s in
      case (safe_index (sp_start sp), safe_index (case sp_removed sp of None \<Rightarrow> JInt 0 | Some n \<Rightarrow> n)) of
        (Some start, Some removed) \<Rightarrow>
          if start > length inbox \<or> start + removed > length inbox then Inl Invalid_Splice
          else checked_splice (sp_target sp) start removed (sp_inserted sp) s
      | _ \<Rightarrow> Inl Invalid_Splice)"

definition inbox_apply :: "inbox_state \<Rightarrow> event \<Rightarrow> (inbox_error, inbox_state) res" where
  "inbox_apply s e = (case ev_data e of
     InboxSpliced sp \<Rightarrow> (case apply_splice s sp of Inl c \<Rightarrow> Inl (Invalid_Persisted (ev_seq e) c) | Inr s' \<Rightarrow> Inr s')
   | _ \<Rightarrow> Inr s)"

definition foldInbox :: "event list \<Rightarrow> (inbox_error, inbox_state) res" where
  "foldInbox es = fold_res inbox_apply inbox_init es"

definition inbox_inv :: "inbox_state \<Rightarrow> bool" where
  "inbox_inv s = (distinct (map um_id (all_pending s)) \<and> int (length (all_pending s)) \<le> MAX_ARRAY_LENGTH)"

lemma claim_ids_ok: "claim_ids ids ms = Inr u \<longleftrightarrow> distinct (map um_id ms) \<and> um_id ` set ms \<inter> ids = {}"
  by (induction ids ms rule: claim_ids.induct) auto

lemma checked_splice_Inr:
  "checked_splice target i n ms s = Inr s' \<longleftrightarrow>
     s' = inbox_set target (spliced (inbox_list target s) i n ms) s \<and> inbox_inv s'"
  by (auto simp: checked_splice_def Let_def rbind_eq_Inr claim_ids_ok inbox_inv_def)

interpretation ib: event_projection inbox_init inbox_apply inbox_inv
proof unfold_locales
  fix s ev s' assume "inbox_inv s" "inbox_apply s ev = Inr s'"
  then show "inbox_inv s'"
    by (auto simp: inbox_apply_def apply_splice_def Let_def checked_splice_Inr
        split: payload.splits sum.splits option.splits if_splits)
qed (simp add: inbox_inv_def inbox_init_def all_pending_def MAX_ARRAY_LENGTH_def)

section \<open>The live facade\<close>

text \<open>JavaScript numbers as splice arguments, and \<open>Math.trunc\<close>.\<close>

datatype js_number = NaN | Pos_Infinity | Neg_Infinity | Finite rat

definition trunc_rat :: "rat \<Rightarrow> int" where
  "trunc_rat q = (if q < 0 then - \<lfloor>- q\<rfloor> else \<lfloor>q\<rfloor>)"

fun resolve_start :: "js_number \<Rightarrow> nat \<Rightarrow> nat" where
  "resolve_start NaN len = 0"
| "resolve_start Pos_Infinity len = len"
| "resolve_start Neg_Infinity len = 0"
| "resolve_start (Finite q) len =
     (let offset = trunc_rat q in
      if offset < 0 then nat (max (int len + offset) 0) else nat (min offset (int len)))"

fun resolve_delete :: "js_number \<Rightarrow> nat \<Rightarrow> nat" where
  "resolve_delete NaN room = 0"
| "resolve_delete Pos_Infinity room = room"
| "resolve_delete Neg_Infinity room = 0"
| "resolve_delete (Finite q) room = nat (min (max (trunc_rat q) 0) (int room))"

datatype inbox_note = Discarded user_message | Inserted user_message | Claimed user_message nat

record live_inbox =
  session_log :: "event list"
  announced :: "inbox_note list"
  clock :: nat

definition inbox_current :: "(live_inbox, inbox_error, inbox_state) sx" where
  "inbox_current b = (b, foldInbox (session_log b))"

definition append_event :: "payload \<Rightarrow> live_inbox \<Rightarrow> live_inbox" where
  "append_event p b = b\<lparr>session_log := session_log b @
     [\<lparr>ev_seq = length (session_log b), ev_time = clock b, ev_data = p, ev_place = None, ev_sources = None\<rparr>]\<rparr>"

definition emit_notes :: "inbox_note list \<Rightarrow> live_inbox \<Rightarrow> live_inbox" where
  "emit_notes ns b = b\<lparr>announced := announced b @ ns\<rparr>"

definition splice_record :: "inbox_target \<Rightarrow> nat \<Rightarrow> nat \<Rightarrow> user_message list \<Rightarrow> bool \<Rightarrow> inbox_splice" where
  "splice_record target start n inserted discard =
     \<lparr>sp_target = target, sp_start = JInt (int start),
      sp_removed = (if n = 0 then None else Some (JInt (int n))), sp_inserted = inserted,
      sp_canceled = (discard \<and> n > 0)\<rparr>"

definition mutate :: "inbox_target \<Rightarrow> js_number \<Rightarrow> js_number \<Rightarrow> user_message list \<Rightarrow> bool
    \<Rightarrow> (live_inbox, inbox_error, user_message list) sx" where
  "mutate target start deleteCount inserted discardRemoved =
     sx_bind inbox_current (\<lambda>state.
       let inbox = inbox_list target state;
           i = resolve_start start (length inbox);
           n = resolve_delete deleteCount (length inbox - i)
       in if n = 0 \<and> inserted = [] then sx_return []
          else case checked_splice target i n inserted state of
            Inl e \<Rightarrow> sx_throw e
          | Inr _ \<Rightarrow> (let removed = take n (drop i inbox) in
              (\<lambda>b. (emit_notes ((if discardRemoved then map Discarded removed else []) @ map Inserted inserted)
                      (append_event (InboxSpliced (splice_record target i n inserted discardRemoved)) b),
                    Inr removed))))"

definition inbox_splice_call :: "inbox_target \<Rightarrow> js_number \<Rightarrow> js_number \<Rightarrow> user_message list
    \<Rightarrow> (live_inbox, inbox_error, user_message list) sx" where
  "inbox_splice_call target start deleteCount inserted = mutate target start deleteCount inserted True"

definition of_index :: "nat \<Rightarrow> js_number" where
  "of_index n = Finite (of_nat n)"

definition inbox_append :: "inbox_target \<Rightarrow> user_message \<Rightarrow> (live_inbox, inbox_error, unit) sx" where
  "inbox_append target m =
     sx_bind inbox_current (\<lambda>state.
       sx_bind (inbox_splice_call target (of_index (length (inbox_list target state))) (of_index 0) [m])
         (\<lambda>_. sx_return ()))"

definition inbox_prepend :: "inbox_target \<Rightarrow> user_message \<Rightarrow> (live_inbox, inbox_error, unit) sx" where
  "inbox_prepend target m =
     sx_bind (inbox_splice_call target (of_index 0) (of_index 0) [m]) (\<lambda>_. sx_return ())"

definition clear_list :: "inbox_target \<Rightarrow> bool \<Rightarrow> (live_inbox, inbox_error, user_message list) sx" where
  "clear_list target discard =
     sx_bind inbox_current (\<lambda>state.
       mutate target (of_index 0) (of_index (length (inbox_list target state))) [] discard)"

definition inbox_clear :: "(live_inbox, inbox_error, unit) sx" where
  "inbox_clear =
     sx_bind (clear_list Next_Step True) (\<lambda>_. sx_bind (clear_list Next_Turn True) (\<lambda>_. sx_return ()))"

definition inbox_claim :: "inbox_target \<Rightarrow> nat \<Rightarrow> (live_inbox, inbox_error, user_message list) sx" where
  "inbox_claim target turn =
     sx_bind (clear_list Next_Step False) (\<lambda>batch.
     sx_bind (case target of Next_Turn \<Rightarrow> mutate Next_Turn (of_index 0) (of_index 1) [] False
              | Next_Step \<Rightarrow> sx_return []) (\<lambda>queued.
     let claimed = batch @ queued in
     (\<lambda>b. (emit_notes (map (\<lambda>m. Claimed m turn) claimed) b, Inr claimed))))"

fun find_index :: "string \<Rightarrow> user_message list \<Rightarrow> nat option" where
  "find_index i [] = None"
| "find_index i (m # ms) = (if um_id m = i then Some 0 else map_option Suc (find_index i ms))"

definition locate :: "string \<Rightarrow> inbox_state \<Rightarrow> (inbox_target \<times> nat) option" where
  "locate i s = (case find_index i (next_turn s) of
     Some k \<Rightarrow> Some (Next_Turn, k)
   | None \<Rightarrow> map_option (Pair Next_Step) (find_index i (next_step s)))"

definition inbox_replace :: "string \<Rightarrow> user_message \<Rightarrow> (live_inbox, inbox_error, bool) sx" where
  "inbox_replace i m =
     sx_bind inbox_current (\<lambda>state. case locate i state of
       None \<Rightarrow> sx_return False
     | Some (target, k) \<Rightarrow>
         sx_bind (inbox_splice_call target (of_index k) (of_index 1) [m]) (\<lambda>_. sx_return True))"

definition inbox_remove :: "string \<Rightarrow> (live_inbox, inbox_error, bool) sx" where
  "inbox_remove i =
     sx_bind inbox_current (\<lambda>state. case locate i state of
       None \<Rightarrow> sx_return False
     | Some (target, k) \<Rightarrow>
         sx_bind (inbox_splice_call target (of_index k) (of_index 1) []) (\<lambda>_. sx_return True))"

definition hasPending :: "(live_inbox, inbox_error, bool) sx" where
  "hasPending = sx_bind inbox_current (\<lambda>s. sx_return (next_turn s \<noteq> [] \<or> next_step s \<noteq> []))"

section \<open>The facade against the projection\<close>

lemma resolve_start_le: "resolve_start st len \<le> len"
  by (cases st) (auto simp: Let_def)

lemma resolve_delete_le: "resolve_delete dc room \<le> room"
  by (cases dc) auto

lemma trunc_rat_of_nat [simp]: "trunc_rat (rat_of_nat n) = int n"
  by (simp add: trunc_rat_def)

lemma resolve_of_index [simp]:
  "resolve_start (of_index n) len = min n len"
  "resolve_delete (of_index n) room = min n room"
  by (auto simp: of_index_def min_def)

lemma foldInbox_inv: "foldInbox es = Inr s \<Longrightarrow> inbox_inv s"
  unfolding foldInbox_def by (rule ib.replay_inv)

lemma inbox_list_bound: "inbox_inv s \<Longrightarrow> int (length (inbox_list t s)) \<le> MAX_ARRAY_LENGTH"
  by (cases t) (auto simp: inbox_inv_def all_pending_def)

lemma safe_index_small: "int n \<le> MAX_ARRAY_LENGTH \<Longrightarrow> safe_index (JInt (int n)) = Some n"
  by (simp add: MAX_ARRAY_LENGTH_def MAX_SAFE_INTEGER_def)

text \<open>A recorded mutation replays to the state the facade validated.\<close>

lemma recorded_splice_replays:
  assumes "inbox_inv s" "i + n \<le> length (inbox_list t s)"
  shows "apply_splice s (splice_record t i n ms d) = checked_splice t i n ms s"
proof -
  have "int i \<le> MAX_ARRAY_LENGTH" "int n \<le> MAX_ARRAY_LENGTH"
    using inbox_list_bound [OF assms(1), of t] assms(2) by auto
  then have "safe_index (JInt (int i)) = Some i" "safe_index (JInt (int n)) = Some n"
    by (simp_all only: safe_index_small)
  then show ?thesis
    using assms(2) by (auto simp: apply_splice_def splice_record_def Let_def simp del: safe_index.simps)
qed

lemma mutate_unfold:
  assumes s: "foldInbox (session_log b) = Inr s"
    and i: "i = resolve_start st (length (inbox_list t s))"
    and n: "n = resolve_delete dc (length (inbox_list t s) - i)"
  shows "mutate t st dc ms d b =
     (if n = 0 \<and> ms = [] then (b, Inr [])
      else case checked_splice t i n ms s of
        Inl e \<Rightarrow> (b, Inl e)
      | Inr _ \<Rightarrow> (emit_notes ((if d then map Discarded (take n (drop i (inbox_list t s))) else []) @ map Inserted ms)
                  (append_event (InboxSpliced (splice_record t i n ms d)) b),
                 Inr (take n (drop i (inbox_list t s)))))"
  unfolding i n using s
  by (auto simp: mutate_def inbox_current_def sx_simps Let_def split: sum.splits)

lemma append_event_fold:
  assumes "foldInbox (session_log b) = Inr s" "apply_splice s sp = Inr s'"
  shows "foldInbox (session_log (append_event (InboxSpliced sp) b)) = Inr s'"
  using assms by (simp add: foldInbox_def append_event_def fold_res_append inbox_apply_def)

lemma emit_notes_simps [simp]:
  "session_log (emit_notes ns b) = session_log b" "announced (emit_notes ns b) = announced b @ ns"
  "announced (append_event p b) = announced b"
  by (simp_all add: emit_notes_def append_event_def)

lemma mutate_commits:
  assumes s: "foldInbox (session_log b) = Inr s"
    and i: "i = resolve_start st (length (inbox_list t s))"
    and n: "n = resolve_delete dc (length (inbox_list t s) - i)"
    and m: "mutate t st dc ms d b = (b', Inr removed)"
  shows "foldInbox (session_log b') = Inr (inbox_set t (spliced (inbox_list t s) i n ms) s)"
    and "removed = take n (drop i (inbox_list t s))"
    and "announced b' = announced b @ (if d then map Discarded removed else []) @ map Inserted ms"
proof -
  have fits: "i + n \<le> length (inbox_list t s)"
    unfolding i n using resolve_start_le resolve_delete_le
    by (metis le_diff_conv2 add.commute)
  have nop: "inbox_set t (inbox_list t s) s = s" by (cases t) auto
  note u = mutate_unfold [OF s i n, of ms d]
  show "removed = take n (drop i (inbox_list t s))" using m u by (auto split: if_splits sum.splits)
  show "announced b' = announced b @ (if d then map Discarded removed else []) @ map Inserted ms"
    using m u by (auto split: if_splits sum.splits)
  show "foldInbox (session_log b') = Inr (inbox_set t (spliced (inbox_list t s) i n ms) s)"
  proof (cases "n = 0 \<and> ms = []")
    case True
    then show ?thesis using m u s nop by (simp add: spliced_def)
  next
    case False
    then obtain s' where c: "checked_splice t i n ms s = Inr s'"
      using m u by (auto split: sum.splits)
    then have "apply_splice s (splice_record t i n ms d) = Inr s'"
      using recorded_splice_replays [OF foldInbox_inv [OF s] fits] by simp
    from append_event_fold [OF s this] show ?thesis
      using m u False c by (auto simp: checked_splice_Inr)
  qed
qed

lemma mutate_throws:
  assumes "foldInbox (session_log b) = Inr s" "mutate t st dc ms d b = (b', Inl e)"
  shows "b' = b"
  using mutate_unfold [OF assms(1) refl refl, of t st dc ms d] assms(2)
  by (auto split: if_splits sum.splits)

text \<open>Removing never throws.\<close>

lemma removal_inv:
  assumes "inbox_inv s" shows "inbox_inv (inbox_set t (spliced (inbox_list t s) i n []) s)"
proof -
  let ?p = "all_pending (inbox_set t (spliced (inbox_list t s) i n []) s)"
  have sub: "\<exists>ps. mset (all_pending s) = mset ?p + mset ps" (is ?P)
  proof -
    have "mset (inbox_list t s) = mset (spliced (inbox_list t s) i n []) + mset (take n (drop i (inbox_list t s)))"
      by (metis (no_types, lifting) add.assoc add.commute append_Nil mset_append spliced_def take_slice_drop)
    then show ?P by (cases t) (auto simp: all_pending_def)
  qed
  then obtain ps where ps: "mset (all_pending s) = mset ?p + mset ps" by blast
  have "mset (map um_id (all_pending s)) = mset (map um_id (?p @ ps))" by (simp add: ps)
  then have "distinct (map um_id (?p @ ps))"
    using assms unfolding inbox_inv_def by (metis mset_eq_imp_distinct_iff)
  moreover have "length (all_pending s) = length (?p @ ps)"
    using ps by (metis mset_append size_mset)
  ultimately show ?thesis using assms by (auto simp: inbox_inv_def)
qed

lemma removal_succeeds:
  assumes "foldInbox (session_log b) = Inr s"
  shows "\<exists>b' removed. mutate t st dc [] d b = (b', Inr removed)"
proof -
  let ?i = "resolve_start st (length (inbox_list t s))"
  let ?n = "resolve_delete dc (length (inbox_list t s) - ?i)"
  have "checked_splice t ?i ?n [] s = Inr (inbox_set t (spliced (inbox_list t s) ?i ?n []) s)"
    using removal_inv [OF foldInbox_inv [OF assms]] by (simp add: checked_splice_Inr)
  then show ?thesis using mutate_unfold [OF assms refl refl, of t st dc "[]" d] by auto
qed

section \<open>Conservation\<close>

fun inserted_of :: "inbox_note list \<Rightarrow> user_message list" where
  "inserted_of [] = []"
| "inserted_of (Inserted m # ns) = m # inserted_of ns"
| "inserted_of (_ # ns) = inserted_of ns"

fun settled_of :: "inbox_note list \<Rightarrow> user_message list" where
  "settled_of [] = []"
| "settled_of (Discarded m # ns) = m # settled_of ns"
| "settled_of (Claimed m turn # ns) = m # settled_of ns"
| "settled_of (_ # ns) = settled_of ns"

lemma note_lists [simp]:
  "inserted_of (xs @ ys) = inserted_of xs @ inserted_of ys"
  "settled_of (xs @ ys) = settled_of xs @ settled_of ys"
  "inserted_of (map Inserted ms) = ms" "inserted_of (map Discarded ms) = []"
  "inserted_of (map (\<lambda>m. Claimed m turn) ms) = []"
  "settled_of (map Inserted ms) = []" "settled_of (map Discarded ms) = ms"
  "settled_of (map (\<lambda>m. Claimed m turn) ms) = ms"
  by (induction xs rule: inserted_of.induct, auto, induction xs rule: settled_of.induct, auto)
     (induction ms, auto)+

text \<open>The books balance up to messages taken out of the lists but not yet announced.\<close>

definition balanced :: "user_message multiset \<Rightarrow> live_inbox \<Rightarrow> bool" where
  "balanced X b = (\<exists>s. foldInbox (session_log b) = Inr s \<and>
     mset (inserted_of (announced b)) = mset (settled_of (announced b)) + mset (all_pending s) + X)"

lemma mset_spliced:
  "i + n \<le> length xs \<Longrightarrow>
   mset (spliced xs i n ms) + mset (take n (drop i xs)) = mset xs + mset ms"
  by (subst (3) take_slice_drop [of xs i n]) (simp add: spliced_def)

lemma balanced_mutate:
  assumes "balanced X b" "mutate t st dc ms d b = (b', r)"
  shows "balanced (X + (case r of Inl _ \<Rightarrow> {#} | Inr rem \<Rightarrow> if d then {#} else mset rem)) b'"
proof (cases r)
  case (Inl e)
  then show ?thesis using assms mutate_throws unfolding balanced_def by fastforce
next
  case (Inr removed)
  from assms(1) obtain s where s: "foldInbox (session_log b) = Inr s"
    and bal: "mset (inserted_of (announced b)) = mset (settled_of (announced b)) + mset (all_pending s) + X"
    unfolding balanced_def by blast
  let ?i = "resolve_start st (length (inbox_list t s))"
  let ?n = "resolve_delete dc (length (inbox_list t s) - ?i)"
  let ?s = "inbox_set t (spliced (inbox_list t s) ?i ?n ms) s"
  note c = mutate_commits [OF s refl refl assms(2) [unfolded Inr]]
  have "?i + ?n \<le> length (inbox_list t s)"
    using resolve_start_le resolve_delete_le by (metis le_diff_conv2 add.commute)
  from mset_spliced [OF this, of ms]
  have "mset (all_pending ?s) + mset removed = mset (all_pending s) + mset ms"
    unfolding c(2) by (cases t) (auto simp: all_pending_def ac_simps)
  then have "mset (inserted_of (announced b')) = mset (settled_of (announced b'))
      + mset (all_pending ?s) + (X + (if d then {#} else mset removed))"
    unfolding c(3) using bal by (auto simp: ac_simps)
  then show ?thesis unfolding balanced_def using c(1) Inr by auto
qed

text \<open>An operation keeps the books when it announces whatever it takes out.\<close>

definition keeps_books :: "(live_inbox, inbox_error, 'a) sx \<Rightarrow> bool" where
  "keeps_books m = (\<forall>b. balanced {#} b \<longrightarrow> balanced {#} (fst (m b)))"

lemma keeps_booksI: "(\<And>b b' r. balanced {#} b \<Longrightarrow> m b = (b', r) \<Longrightarrow> balanced {#} b') \<Longrightarrow> keeps_books m"
  unfolding keeps_books_def by (metis prod.collapse)

lemma keeps_books_bind:
  "keeps_books m \<Longrightarrow> (\<And>a. keeps_books (f a)) \<Longrightarrow> keeps_books (sx_bind m f)"
  by (fastforce simp: keeps_books_def sx_simps(3) split: prod.splits sum.splits)

lemma keeps_books_simps [simp]:
  "keeps_books (sx_return a)" "keeps_books (sx_throw e)" "keeps_books inbox_current"
  by (auto simp: keeps_books_def sx_simps inbox_current_def)

lemma keeps_books_splice: "keeps_books (inbox_splice_call t st dc ms)"
proof (rule keeps_booksI)
  fix b b' r assume "balanced {#} b" "inbox_splice_call t st dc ms b = (b', r)"
  then show "balanced {#} b'"
    using balanced_mutate [of "{#}" b t st dc ms True b' r]
    by (auto simp: inbox_splice_call_def split: sum.splits)
qed

lemma keeps_books_ops:
  "keeps_books (inbox_append t m)" "keeps_books (inbox_prepend t m)"
  "keeps_books (inbox_replace i m)" "keeps_books (inbox_remove i)" "keeps_books inbox_clear"
  unfolding inbox_append_def inbox_prepend_def inbox_replace_def inbox_remove_def inbox_clear_def
    clear_list_def inbox_splice_call_def [symmetric]
  by (auto intro!: keeps_books_bind keeps_books_splice split: option.splits)

lemma balanced_fold: "balanced X b \<Longrightarrow> \<exists>s. foldInbox (session_log b) = Inr s"
  by (auto simp: balanced_def)

text \<open>What a claim does, on a log that folds.\<close>

lemma clear_list_commits:
  assumes "foldInbox (session_log b) = Inr s"
  obtains b' where "clear_list t d b = (b', Inr (inbox_list t s))"
    "foldInbox (session_log b') = Inr (inbox_set t [] s)"
    "announced b' = announced b @ (if d then map Discarded (inbox_list t s) else [])"
proof -
  let ?n = "of_index (length (inbox_list t s))"
  obtain b' removed where m: "mutate t (of_index 0) ?n [] d b = (b', Inr removed)"
    using removal_succeeds [OF assms] by blast
  note c = mutate_commits [OF assms refl refl m]
  have "clear_list t d b = mutate t (of_index 0) ?n [] d b"
    using assms by (simp add: clear_list_def sx_simps inbox_current_def)
  then show ?thesis using that [of b'] m c by (auto simp: spliced_def min_def)
qed

lemma claim_commits:
  fixes target :: inbox_target
  assumes "foldInbox (session_log b) = Inr s"
  defines "queued \<equiv> (case target of Next_Turn \<Rightarrow> take 1 (next_turn s) | Next_Step \<Rightarrow> [])"
  shows "\<exists>b'. inbox_claim target turn b = (b', Inr (next_step s @ queued)) \<and>
     foldInbox (session_log b') = Inr \<lparr>next_turn = drop (length queued) (next_turn s), next_step = []\<rparr> \<and>
     announced b' = announced b @ map (\<lambda>m. Claimed m turn) (next_step s @ queued)"
proof -
  obtain b1 where b1: "clear_list Next_Step False b = (b1, Inr (next_step s))"
    "foldInbox (session_log b1) = Inr (s\<lparr>next_step := []\<rparr>)" "announced b1 = announced b"
    by (rule clear_list_commits [OF assms(1), of Next_Step False]) auto
  show ?thesis
  proof (cases target)
    case Next_Step
    then show ?thesis using b1 by (cases s) (simp add: inbox_claim_def sx_simps queued_def)
  next
    case Next_Turn
    obtain b2 removed where m: "mutate Next_Turn (of_index 0) (of_index 1) [] False b1 = (b2, Inr removed)"
      using removal_succeeds [OF b1(2)] by blast
    note c = mutate_commits [OF b1(2) refl refl m]
    have "removed = take 1 (next_turn s)" using c(2) by (simp add: min_def)
    moreover have "foldInbox (session_log b2) = Inr \<lparr>next_turn = drop 1 (next_turn s), next_step = []\<rparr>"
      using c(1) by (cases s; cases "next_turn s") (auto simp: spliced_def min_def drop_Suc)
    ultimately show ?thesis
      using b1 m c(3) Next_Turn
      by (cases "next_turn s") (auto simp: inbox_claim_def sx_simps queued_def min_def)
  qed
qed

lemma keeps_books_claim: "keeps_books (inbox_claim target turn)"
proof (rule keeps_booksI)
  fix b b' r assume bal: "balanced {#} b" and eq: "inbox_claim target turn b = (b', r)"
  obtain s where s: "foldInbox (session_log b) = Inr s"
    and books: "mset (inserted_of (announced b)) = mset (settled_of (announced b)) + mset (all_pending s)"
    using bal by (auto simp: balanced_def)
  let ?q = "case target of Next_Turn \<Rightarrow> take 1 (next_turn s) | Next_Step \<Rightarrow> []"
  obtain f: "foldInbox (session_log b') = Inr \<lparr>next_turn = drop (length ?q) (next_turn s), next_step = []\<rparr>"
    and a: "announced b' = announced b @ map (\<lambda>m. Claimed m turn) (next_step s @ ?q)"
    using claim_commits [OF s, of target turn] eq by auto
  have "mset (all_pending s) = mset (next_step s @ ?q) + mset (drop (length ?q) (next_turn s))"
    by (cases target; cases "next_turn s") (auto simp: all_pending_def)
  then show "balanced {#} b'"
    unfolding balanced_def f a by (auto simp: books all_pending_def simp del: map_append)
qed

section \<open>Any client of the facade\<close>

datatype inbox_call =
    Call_Splice inbox_target js_number js_number "user_message list"
  | Call_Append inbox_target user_message
  | Call_Prepend inbox_target user_message
  | Call_Replace string user_message
  | Call_Remove string
  | Call_Clear
  | Call_Claim inbox_target nat
  | Elsewhere payload   \<comment> \<open>another writer appends an event of its own\<close>

fun inbox_do :: "live_inbox \<Rightarrow> inbox_call \<Rightarrow> live_inbox" where
  "inbox_do b (Call_Splice t st dc ms) = fst (inbox_splice_call t st dc ms b)"
| "inbox_do b (Call_Append t m) = fst (inbox_append t m b)"
| "inbox_do b (Call_Prepend t m) = fst (inbox_prepend t m b)"
| "inbox_do b (Call_Replace i m) = fst (inbox_replace i m b)"
| "inbox_do b (Call_Remove i) = fst (inbox_remove i b)"
| "inbox_do b Call_Clear = fst (inbox_clear b)"
| "inbox_do b (Call_Claim t turn) = fst (inbox_claim t turn b)"
| "inbox_do b (Elsewhere p) = (case p of InboxSpliced _ \<Rightarrow> b | _ \<Rightarrow> append_event p b)"

definition inbox_session :: "inbox_call list \<Rightarrow> live_inbox" where
  "inbox_session cs = foldl inbox_do \<lparr>session_log = [], announced = [], clock = 0\<rparr> cs"

lemma balanced_elsewhere: "balanced X b \<Longrightarrow> balanced X (inbox_do b (Elsewhere p))"
  by (cases p) (auto simp: balanced_def foldInbox_def append_event_def fold_res_append inbox_apply_def)

lemma balanced_do: "balanced {#} b \<Longrightarrow> balanced {#} (inbox_do b c)"
  using keeps_books_ops keeps_books_splice keeps_books_claim balanced_elsewhere
  by (cases c) (auto simp: keeps_books_def simp del: inbox_do.simps(8))

lemma balanced_session: "balanced {#} (inbox_session cs)"
proof -
  have "balanced {#} b \<Longrightarrow> balanced {#} (foldl inbox_do b cs)" for b
    by (induction cs arbitrary: b) (simp_all add: balanced_do)
  moreover have "balanced {#} \<lparr>session_log = [], announced = [], clock = 0\<rparr>"
    by (simp add: balanced_def foldInbox_def inbox_init_def all_pending_def)
  ultimately show ?thesis by (simp add: inbox_session_def)
qed

section \<open>Properties\<close>

definition um :: "string \<Rightarrow> user_message" where
  "um i = \<lparr>um_id = i, um_source = SrcUser, um_content = []\<rparr>"

text \<open>
  Claim C10. Whatever calls clients make of the inbox, in any order, refused calls included and with
  other writers appending to the same log, the durable log replays, no identity is pending twice,
  and every message announced as inserted is pending, or was announced exactly once as claimed or
  discarded.
\<close>

theorem inbox_conserves_messages:
  "case foldInbox (session_log (inbox_session cs)) of
     Inl e \<Rightarrow> False
   | Inr s \<Rightarrow> inbox_inv s \<and>
       mset (inserted_of (announced (inbox_session cs))) =
         mset (settled_of (announced (inbox_session cs))) + mset (next_turn s) + mset (next_step s)"
  using balanced_session [of cs] foldInbox_inv by (auto simp: balanced_def all_pending_def)

text \<open>
  A mutation the facade accepts is durable: with the start and count normalised as
  \<open>Array.prototype.splice\<close> does, replaying the log after it yields exactly the spliced list, the
  other list unchanged, and the call returns what the splice removed.
\<close>

theorem inbox_mutation_durable:
  assumes "foldInbox (session_log b) = Inr s"
    and "i = resolve_start start (length (inbox_list target s))"
    and "n = resolve_delete deleteCount (length (inbox_list target s) - i)"
    and "mutate target start deleteCount inserted discard b = (b', Inr removed)"
  shows "foldInbox (session_log b') = Inr (inbox_set target (spliced (inbox_list target s) i n inserted) s) \<and>
     removed = take n (drop i (inbox_list target s))"
  using mutate_commits [OF assms] by blast

definition demo_box :: live_inbox where
  "demo_box = inbox_session [Call_Append Next_Turn (um ''a''), Call_Append Next_Turn (um ''b''),
     Call_Prepend Next_Step (um ''c'')]"

lemma demo_box_fold:
  "foldInbox (session_log demo_box) = Inr \<lparr>next_turn = [um ''a'', um ''b''], next_step = [um ''c'']\<rparr>"
  by code_simp

theorem inbox_mutation_durable_witness:
  "foldInbox (session_log (fst (mutate Next_Turn (Finite (- 1)) Pos_Infinity [um ''d''] True demo_box)))
   = Inr \<lparr>next_turn = [um ''a'', um ''d''], next_step = [um ''c'']\<rparr>"
proof -
  have m: "snd (mutate Next_Turn (Finite (- 1)) Pos_Infinity [um ''d''] True demo_box) = Inr [um ''b'']"
    by code_simp
  then obtain b' where b': "mutate Next_Turn (Finite (- 1)) Pos_Infinity [um ''d''] True demo_box = (b', Inr [um ''b''])"
    by (metis prod.collapse)
  have "trunc_rat (- 1) = - 1" by (simp add: trunc_rat_def)
  then show ?thesis
    using inbox_mutation_durable [OF demo_box_fold refl refl b'] b' by (simp add: spliced_def)
qed

text \<open>
  A claim on a readable inbox never fails: it returns the whole next-step batch followed,
  at a turn boundary, by the oldest queued turn, announces each, and leaves the rest of the turns.
\<close>

theorem inbox_claim_total:
  assumes "foldInbox (session_log b) = Inr s"
    and "queued = (case target of Next_Turn \<Rightarrow> take 1 (next_turn s) | Next_Step \<Rightarrow> [])"
  shows "\<exists>b'. inbox_claim target turn b = (b', Inr (next_step s @ queued)) \<and>
     foldInbox (session_log b') = Inr \<lparr>next_turn = drop (length queued) (next_turn s), next_step = []\<rparr> \<and>
     announced b' = announced b @ map (\<lambda>m. Claimed m turn) (next_step s @ queued)"
  using claim_commits [OF assms(1), of target turn] unfolding assms(2) .

theorem inbox_claim_total_witness:
  "snd (inbox_claim Next_Turn 4 demo_box) = Inr [um ''c'', um ''a'']"
  using inbox_claim_total [OF demo_box_fold refl, of Next_Turn 4] by auto

end
