(* ===== verification/Consumed_Work.thy ===== *)
theory Consumed_Work
  imports Session_Events
begin

text \<open>
  How a session log accounts for the work it consumed
  (\<open>packages/core/agent/src/consumed-work.ts\<close>): one pass over the log, or an owned suffix of it,
  with the turns that stepped and the turns that claimed input as sets.
\<close>

section \<open>The fold\<close>

fun accountsForClaim :: "end_reason \<Rightarrow> bool" where
  "accountsForClaim Completed = False"
| "accountsForClaim _ = True"

record work_state =
  stepped :: "nat set"
  claimed :: "nat set"
  open_turn :: "nat option"
  work_end :: "event option"
  droppedUnrun :: bool

definition work_init :: work_state where
  "work_init = \<lparr>stepped = {}, claimed = {}, open_turn = None, work_end = None, droppedUnrun = False\<rparr>"

definition work_splice :: "work_state \<Rightarrow> inbox_splice \<Rightarrow> work_state" where
  "work_splice s sp =
     (if sp_removed sp = None then s
      else if sp_canceled sp then s\<lparr>droppedUnrun := droppedUnrun s \<or> sp_inserted sp = []\<rparr>
      else case open_turn s of None \<Rightarrow> s | Some t \<Rightarrow> s\<lparr>claimed := insert t (claimed s)\<rparr>)"

text \<open>\<open>stepped.delete(turn) || (claimed.delete(turn) && \<dots>)\<close>: the second set is only touched when
  the first did not hold the turn.\<close>

definition work_turn_end :: "work_state \<Rightarrow> event \<Rightarrow> nat \<Rightarrow> end_reason \<Rightarrow> work_state" where
  "work_turn_end s0 e turn reason =
     (let s = s0\<lparr>open_turn := None\<rparr> in
      if turn \<in> stepped s
      then s\<lparr>stepped := stepped s - {turn}, work_end := Some e, droppedUnrun := False\<rparr>
      else if turn \<in> claimed s \<and> accountsForClaim reason
      then s\<lparr>claimed := claimed s - {turn}, work_end := Some e, droppedUnrun := False\<rparr>
      else s\<lparr>claimed := claimed s - {turn}\<rparr>)"

definition work_step :: "work_state \<Rightarrow> event \<Rightarrow> work_state" where
  "work_step s e = (case ev_data e of
     TurnStart t \<Rightarrow> s\<lparr>open_turn := Some t\<rparr>
   | StepStart t n \<Rightarrow> s\<lparr>stepped := insert t (stepped s)\<rparr>
   | InboxSpliced sp \<Rightarrow> work_splice s sp
   | TurnEnd t reason \<Rightarrow> work_turn_end s e t reason
   | _ \<Rightarrow> s)"

definition work_scan :: "event list \<Rightarrow> work_state" where
  "work_scan es = foldl work_step work_init es"

definition foldConsumedWork :: "event list \<Rightarrow> event option \<times> bool" where
  "foldConsumedWork es = (work_end (work_scan es), droppedUnrun (work_scan es))"

section \<open>What the log says\<close>

text \<open>Cancelled input that leaves nothing pending in its place.\<close>

definition drops_work :: "event \<Rightarrow> bool" where
  "drops_work e = (case ev_data e of
     InboxSpliced sp \<Rightarrow> sp_removed sp \<noteq> None \<and> sp_canceled sp \<and> sp_inserted sp = [] | _ \<Rightarrow> False)"

definition takes_input :: "event \<Rightarrow> bool" where
  "takes_input e = (case ev_data e of InboxSpliced sp \<Rightarrow> sp_removed sp \<noteq> None \<and> \<not> sp_canceled sp | _ \<Rightarrow> False)"

text \<open>
  The reference reading of a log, without sets: a turn stepped if a step of it started since its
  last end, and it claimed input if a splice took input while it was the open turn.
\<close>

definition turn_of_end :: "event \<Rightarrow> nat option" where
  "turn_of_end e = (case ev_data e of TurnEnd t r \<Rightarrow> Some t | _ \<Rightarrow> None)"

fun opens :: "nat option \<Rightarrow> event list \<Rightarrow> nat option" where
  "opens t [] = t"
| "opens t (e # es) = opens (case ev_data e of TurnStart n \<Rightarrow> Some n | TurnEnd n r \<Rightarrow> None | _ \<Rightarrow> t) es"

lemma opens_scan: "open_turn (foldl work_step s es) = opens (open_turn s) es"
proof (induction es arbitrary: s)
  case (Cons e es)
  have "open_turn (work_step s e)
      = (case ev_data e of TurnStart n \<Rightarrow> Some n | TurnEnd n r \<Rightarrow> None | _ \<Rightarrow> open_turn s)"
    by (auto simp: work_step_def work_splice_def work_turn_end_def Let_def split: payload.splits option.splits)
  then show ?case using Cons by simp
qed simp

lemma work_end_step:
  "work_end (work_step s e) = work_end s \<and> droppedUnrun (work_step s e) = (droppedUnrun s \<or> drops_work e)
   \<or> work_end (work_step s e) = Some e \<and> droppedUnrun (work_step s e) = False \<and> turn_of_end e \<noteq> None"
  by (auto simp: work_step_def work_splice_def work_turn_end_def Let_def drops_work_def turn_of_end_def
      split: payload.splits option.splits)

definition accounts :: "work_state \<Rightarrow> event \<Rightarrow> bool" where
  "accounts s e = (case ev_data e of
     TurnEnd t r \<Rightarrow> t \<in> stepped s \<or> t \<in> claimed s \<and> accountsForClaim r | _ \<Rightarrow> False)"

lemma work_step_accounts:
  "accounts s e \<Longrightarrow> work_end (work_step s e) = Some e \<and> \<not> droppedUnrun (work_step s e)"
  "\<not> accounts s e \<Longrightarrow> work_end (work_step s e) = work_end s \<and>
     droppedUnrun (work_step s e) = (droppedUnrun s \<or> drops_work e)"
  by (auto simp: accounts_def work_step_def work_splice_def work_turn_end_def Let_def drops_work_def
      split: payload.splits option.splits)

text \<open>Why a turn is in a set: the event that put it there, with no end of that turn since.\<close>

definition step_evidence :: "event list \<Rightarrow> nat \<Rightarrow> bool" where
  "step_evidence es t = (\<exists>i < length es. (\<exists>n. ev_data (es ! i) = StepStart t n) \<and>
     (\<forall>j < length es. i < j \<longrightarrow> turn_of_end (es ! j) \<noteq> Some t))"

definition claim_evidence :: "event list \<Rightarrow> nat \<Rightarrow> bool" where
  "claim_evidence es t = (\<exists>i < length es. takes_input (es ! i) \<and> opens None (take i es) = Some t)"

lemma work_scan_snoc: "work_scan (es @ [e]) = work_step (work_scan es) e"
  by (simp add: work_scan_def)

lemma step_evidence_snoc:
  "step_evidence (es @ [e]) t \<longleftrightarrow>
     (\<exists>n. ev_data e = StepStart t n) \<or> step_evidence es t \<and> turn_of_end e \<noteq> Some t"
  (is "?L = ?R")
proof
  assume ?L
  then obtain i where i: "i < Suc (length es)" "\<exists>n. ev_data ((es @ [e]) ! i) = StepStart t n"
    and later: "\<And>j. j < Suc (length es) \<Longrightarrow> i < j \<Longrightarrow> turn_of_end ((es @ [e]) ! j) \<noteq> Some t"
    unfolding step_evidence_def by auto
  show ?R
  proof (cases "i = length es")
    case False
    then have "i < length es" using i by simp
    have "turn_of_end (es ! j) \<noteq> Some t" if "j < length es" "i < j" for j
      using later [of j] that by (simp add: nth_append)
    then have "step_evidence es t"
      unfolding step_evidence_def using i(2) \<open>i < length es\<close>
      by (intro exI [of _ i]) (simp add: nth_append)
    moreover have "turn_of_end e \<noteq> Some t" using later [of "length es"] \<open>i < length es\<close> by simp
    ultimately show ?thesis by simp
  qed (use i in auto)
next
  assume ?R
  then show ?L
  proof
    assume "\<exists>n. ev_data e = StepStart t n"
    then show ?L unfolding step_evidence_def by (intro exI [of _ "length es"]) auto
  next
    assume "step_evidence es t \<and> turn_of_end e \<noteq> Some t"
    then obtain i where i: "i < length es" "\<exists>n. ev_data (es ! i) = StepStart t n"
      and later: "\<And>j. j < length es \<Longrightarrow> i < j \<Longrightarrow> turn_of_end (es ! j) \<noteq> Some t"
      and e: "turn_of_end e \<noteq> Some t" unfolding step_evidence_def by blast
    have "turn_of_end ((es @ [e]) ! j) \<noteq> Some t" if "j < length (es @ [e])" "i < j" for j
      using later [of j] that e by (cases "j < length es") (simp_all add: nth_append)
    then show ?L unfolding step_evidence_def using i by (intro exI [of _ i]) (simp add: nth_append)
  qed
qed

lemma stepped_scan: "t \<in> stepped (work_scan es) \<longleftrightarrow> step_evidence es t"
proof (induction es rule: rev_induct)
  case Nil
  then show ?case by (simp add: work_scan_def work_init_def step_evidence_def)
next
  case (snoc e es)
  then show ?case unfolding work_scan_snoc step_evidence_snoc
    by (auto simp: work_step_def work_splice_def work_turn_end_def Let_def turn_of_end_def
        split: payload.splits option.splits)
qed

text \<open>A claim of a turn is forgotten at that turn's end unless the turn stepped.\<close>

lemma claimed_scan: "t \<in> claimed (work_scan es) \<Longrightarrow> claim_evidence es t"
proof (induction es rule: rev_induct)
  case Nil
  then show ?case by (simp add: work_scan_def work_init_def)
next
  case (snoc e es)
  have keep: "claim_evidence es t \<Longrightarrow> claim_evidence (es @ [e]) t"
    unfolding claim_evidence_def by (elim exE conjE, rule_tac x = i in exI) (simp add: nth_append)
  have new: "claim_evidence (es @ [e]) t" if "takes_input e" "opens None es = Some t"
    unfolding claim_evidence_def by (rule exI [of _ "length es"]) (use that in simp)
  have "open_turn (work_scan es) = opens None es"
    unfolding work_scan_def opens_scan by (simp add: work_init_def)
  then have "t \<in> claimed (work_scan es) \<or> takes_input e \<and> opens None es = Some t"
    using snoc.prems unfolding work_scan_snoc
    by (auto simp: work_step_def work_splice_def work_turn_end_def Let_def takes_input_def
        split: payload.splits option.splits if_splits)
  then show ?case using snoc.IH keep new by blast
qed

lemma scan_none:
  "work_end (work_scan es) = None \<Longrightarrow> droppedUnrun (work_scan es) \<longleftrightarrow> (\<exists>e \<in> set es. drops_work e)"
proof (induction es rule: rev_induct)
  case Nil
  then show ?case by (simp add: work_scan_def work_init_def)
next
  case (snoc e es)
  then show ?case using work_step_accounts [of "work_scan es" e]
    by (cases "accounts (work_scan es) e") (auto simp: work_scan_snoc)
qed

lemma scan_some:
  "work_end (work_scan es) = Some e \<Longrightarrow> \<exists>pre post. es = pre @ e # post \<and> accounts (work_scan pre) e \<and>
     (droppedUnrun (work_scan es) \<longleftrightarrow> (\<exists>x \<in> set post. drops_work x))"
proof (induction es rule: rev_induct)
  case Nil
  then show ?case by (simp add: work_scan_def work_init_def)
next
  case (snoc x es)
  show ?case
  proof (cases "accounts (work_scan es) x")
    case True
    then have "e = x" using snoc.prems work_step_accounts(1) [OF True] by (simp add: work_scan_snoc)
    then show ?thesis using True work_step_accounts(1) [OF True]
      by (intro exI [of _ es] exI [of _ "[]"]) (simp add: work_scan_snoc)
  next
    case False
    note k = work_step_accounts(2) [OF False]
    then have "work_end (work_scan es) = Some e" using snoc.prems by (simp add: work_scan_snoc)
    from snoc.IH [OF this] obtain pre post where p: "es = pre @ e # post" "accounts (work_scan pre) e"
      "droppedUnrun (work_scan es) \<longleftrightarrow> (\<exists>x \<in> set post. drops_work x)" by blast
    have "es @ [x] = pre @ e # (post @ [x])" using p(1) by simp
    moreover have "droppedUnrun (work_scan (es @ [x])) \<longleftrightarrow> (\<exists>y \<in> set (post @ [x]). drops_work y)"
      using p(3) k by (auto simp: work_scan_snoc)
    ultimately show ?thesis using p(2) by blast
  qed
qed

section \<open>Properties\<close>

text \<open>
  Claim C16. The reported ending is a turn end of the log whose turn had a step start since its last
  end, or took inbox input and did not merely complete; and work is reported dropped exactly when an
  uncompensated cancellation is recorded after that ending.
\<close>

theorem consumed_work_account:
  assumes "foldConsumedWork es = (Some e, dropped)"
  shows "\<exists>pre post t r. es = pre @ e # post \<and> ev_data e = TurnEnd t r \<and>
     (step_evidence pre t \<or> claim_evidence pre t \<and> accountsForClaim r) \<and>
     (dropped \<longleftrightarrow> list_ex drops_work post)"
proof -
  have w: "work_end (work_scan es) = Some e" "droppedUnrun (work_scan es) = dropped"
    using assms by (simp_all add: foldConsumedWork_def)
  from scan_some [OF w(1)] obtain pre post where p: "es = pre @ e # post" "accounts (work_scan pre) e"
    "dropped \<longleftrightarrow> (\<exists>x \<in> set post. drops_work x)" unfolding w(2) by blast
  then obtain t r where e: "ev_data e = TurnEnd t r"
    by (auto simp: accounts_def split: payload.splits)
  then have "step_evidence pre t \<or> claim_evidence pre t \<and> accountsForClaim r"
    using p(2) claimed_scan stepped_scan by (auto simp: accounts_def)
  then show ?thesis using p(1,3) e by (auto simp: list_ex_iff)
qed

definition work_event :: "nat \<Rightarrow> payload \<Rightarrow> event" where
  "work_event s d = \<lparr>ev_seq = s, ev_time = 0, ev_data = d, ev_place = None, ev_sources = None\<rparr>"

definition work_log :: "event list" where
  "work_log = [work_event 0 (TurnStart 1),
     work_event 1 (InboxSpliced \<lparr>sp_target = Next_Turn, sp_start = JInt 0, sp_removed = Some (JInt 1),
       sp_inserted = [], sp_canceled = False\<rparr>),
     work_event 2 (TurnEnd 1 Blocked),
     work_event 3 (InboxSpliced \<lparr>sp_target = Next_Turn, sp_start = JInt 0, sp_removed = Some (JInt 1),
       sp_inserted = [], sp_canceled = True\<rparr>)]"

theorem consumed_work_account_witness:
  "\<exists>pre post t r. work_log = pre @ work_event 2 (TurnEnd 1 Blocked) # post \<and>
     ev_data (work_event 2 (TurnEnd 1 Blocked)) = TurnEnd t r \<and> list_ex drops_work post"
proof -
  have "foldConsumedWork work_log = (Some (work_event 2 (TurnEnd 1 Blocked)), True)"
    by (simp add: work_log_def work_event_def foldConsumedWork_def work_scan_def work_init_def work_step_def
        work_splice_def work_turn_end_def Let_def)
  from consumed_work_account [OF this] show ?thesis by blast
qed

text \<open>
  No work is lost from the account: once a turn that ran a step has ended, the log
  reports an ending, whatever follows.
\<close>

theorem consumed_work_complete:
  assumes "es = pre @ e # post" "ev_data e = TurnEnd t r" "step_evidence pre t"
  shows "fst (foldConsumedWork es) \<noteq> None"
proof -
  have a: "accounts (work_scan pre) e" using assms(2,3) stepped_scan by (simp add: accounts_def)
  have mono: "work_end s \<noteq> None \<Longrightarrow> work_end (foldl work_step s xs) \<noteq> None" for s xs
  proof (induction xs arbitrary: s)
    case (Cons x xs)
    have "work_end (work_step s x) \<noteq> None" using work_end_step [of s x] Cons.prems by auto
    then show ?case using Cons.IH by simp
  qed simp
  have "foldl work_step work_init es = foldl work_step (work_step (work_scan pre) e) post"
    by (simp add: assms(1) work_scan_def)
  then show ?thesis using mono [of "work_step (work_scan pre) e" post] work_step_accounts(1) [OF a]
    by (simp add: foldConsumedWork_def work_scan_def)
qed

theorem consumed_work_complete_witness:
  "fst (foldConsumedWork [work_event 0 (StepStart 7 1), work_event 1 (TurnEnd 7 Completed), work_event 2 (TurnStart 8)]) \<noteq> None"
proof -
  have "step_evidence [work_event 0 (StepStart 7 1)] 7"
    by (auto simp: step_evidence_def work_event_def)
  then show ?thesis
    using consumed_work_complete [of _ "[work_event 0 (StepStart 7 1)]" "work_event 1 (TurnEnd 7 Completed)" "[work_event 2 (TurnStart 8)]" 7 Completed]
    by (simp add: work_event_def)
qed

end
