(* ===== verification/Js_Text.thy ===== *)
theory Js_Text
  imports Json "HOL-Library.List_Lexorder" "HOL-Library.Char_ord"
begin

text \<open>
  JavaScript's string operations the decoders and renderers share: trimming, the sorted own keys of
  an object, and \<open>JSON.stringify\<close> of a string. Characters are the code units below 256.
\<close>

section \<open>Trimming\<close>

text \<open>\<open>String.prototype.trim\<close> on the code units the model's characters cover.\<close>

definition js_space :: "char \<Rightarrow> bool" where
  "js_space c = (c \<in> set (map char_of [9::nat, 10, 11, 12, 13, 32, 160]))"

definition js_trim :: "string \<Rightarrow> string" where
  "js_trim s = rev (dropWhile js_space (rev (dropWhile js_space s)))"

definition normalized :: "string \<Rightarrow> bool" where
  "normalized s = (js_trim s \<noteq> [] \<and> s = js_trim s)"

text \<open>Trimming is idempotent, so what the service resolves is already normalized.\<close>

lemma js_trim_ends: "js_trim s \<noteq> [] \<Longrightarrow> \<not> js_space (hd (js_trim s)) \<and> \<not> js_space (last (js_trim s))"
proof
  let ?l = "dropWhile js_space s" let ?r = "dropWhile js_space (rev ?l)"
  assume ne: "js_trim s \<noteq> []"
  then have r: "?r \<noteq> []" by (simp add: js_trim_def)
  show "\<not> js_space (last (js_trim s))"
    using hd_dropWhile [OF r] r by (simp add: js_trim_def last_rev)
  have "?l \<noteq> []" using r by (metis dropWhile.simps(1) rev.simps(1))
  then have l: "\<not> js_space (hd ?l)" by (rule hd_dropWhile)
  obtain xs where "rev ?l = xs @ ?r" by (metis takeWhile_dropWhile_id)
  then have "?l = rev ?r @ rev xs" by (metis rev_append rev_rev_ident)
  then have "hd ?l = hd (rev ?r)" using r by (metis hd_append2 rev_is_Nil_conv)
  then show "\<not> js_space (hd (js_trim s))" using l by (simp add: js_trim_def)
qed

lemma js_trim_idem: "js_trim (js_trim s) = js_trim s"
proof (cases "js_trim s = []")
  case True
  then show ?thesis by (simp add: True js_trim_def [of "[]"])
next
  case False
  note e = js_trim_ends [OF False]
  have "dropWhile js_space (js_trim s) = js_trim s" using e False by (cases "js_trim s") auto
  moreover have "dropWhile js_space (rev (js_trim s)) = rev (js_trim s)"
  proof -
    have "dropWhile js_space xs = xs" if "xs \<noteq> []" "\<not> js_space (hd xs)" for xs
      using that by (cases xs) auto
    then show ?thesis using e False by (simp add: hd_rev)
  qed
  ultimately show ?thesis by (simp add: js_trim_def [of "js_trim s"])
qed

lemma normalized_trim: "js_trim s \<noteq> [] \<Longrightarrow> normalized (js_trim s)"
  by (simp add: normalized_def js_trim_idem)

section \<open>Keys and numbers\<close>

text \<open>\<open>Object.keys(value).sort().join(',')\<close>\<close>

fun join_comma :: "string list \<Rightarrow> string" where
  "join_comma [] = ''''"
| "join_comma [k] = k"
| "join_comma (k # ks) = k @ '','' @ join_comma ks"

definition joined_keys :: "json \<Rightarrow> string" where
  "joined_keys v = join_comma (sort (jkeys v))"

fun jnum_int :: "jnum \<Rightarrow> int" where
  "jnum_int (JInt i) = i"
| "jnum_int JNegZero = 0"
| "jnum_int (JFrac q) = \<lfloor>q\<rfloor>"

text \<open>An object with exactly the named keys.\<close>

definition hasExactKeys :: "json \<Rightarrow> string list \<Rightarrow> bool" where
  "hasExactKeys v expected = (sort (jkeys v) = sort expected)"

section \<open>Quoting\<close>

definition hex_digit :: "nat \<Rightarrow> char" where
  "hex_digit n = (if n < 10 then char_of (48 + n) else char_of (87 + n))"

definition json_escape :: "char \<Rightarrow> string" where
  "json_escape c = (let n = (of_char c :: nat) in
     if n = 34 then [CHR 0x5C, c] else if n = 92 then [CHR 0x5C, c]
     else if n = 8 then [CHR 0x5C, CHR ''b''] else if n = 9 then [CHR 0x5C, CHR ''t'']
     else if n = 10 then [CHR 0x5C, CHR ''n''] else if n = 12 then [CHR 0x5C, CHR ''f'']
     else if n = 13 then [CHR 0x5C, CHR ''r'']
     else if n < 32 then [CHR 0x5C, CHR ''u'', CHR ''0'', CHR ''0'', hex_digit (n div 16), hex_digit (n mod 16)]
     else [c])"

definition json_quote :: "string \<Rightarrow> string" where
  "json_quote s = CHR 0x22 # concat (map json_escape s) @ [CHR 0x22]"

lemma hex_digit_plain: "n < 16 \<Longrightarrow> 48 \<le> (of_char (hex_digit n) :: nat)"
  by (simp add: hex_digit_def)

lemma json_escape_printable: "c \<in> set (json_escape d) \<Longrightarrow> 32 \<le> (of_char c :: nat)"
proof -
  assume c: "c \<in> set (json_escape d)"
  let ?n = "(of_char d :: nat)"
  have h: "?n < 32 \<Longrightarrow> 48 \<le> (of_char (hex_digit (?n div 16)) :: nat) \<and> 48 \<le> (of_char (hex_digit (?n mod 16)) :: nat)"
    by (intro conjI hex_digit_plain) auto
  show ?thesis
    using c h unfolding json_escape_def Let_def by (auto split: if_splits)
qed

lemma json_quote_printable: "c \<in> set (json_quote s) \<Longrightarrow> 32 \<le> (of_char c :: nat)"
  using json_escape_printable by (auto simp: json_quote_def)

end
