(* ===== verification/Goal_Fold.thy ===== *)
theory Goal_Fold
  imports Session_Events Js_Text
begin

text \<open>
  The strict decoder and replay fold of durable goals (\<open>packages/goal/goal/src/fold.ts\<close>): a
  \<open>goal/change\<close> event carries a full snapshot or a clear tombstone, and a user message attributed to
  a goal admits one continuation round. Every \<open>throw\<close> is a constructor of \<open>goal_error\<close>.
\<close>

section \<open>Data\<close>

datatype goal_phase = PhActive | PhPaused | PhBlocked | PhComplete

datatype goal_op = OpCreate | OpEdit | OpPause | OpResume | OpComplete | OpBlock | OpClear

record block_reason =
  br_code :: string
  br_message :: string

record goal_ref =
  ref_id :: string
  ref_revision :: int

record goal_snapshot =
  g_id :: string
  g_revision :: int
  g_objective :: string
  g_phase :: goal_phase
  g_maxRounds :: int
  g_reason :: "block_reason option"

record snapshot_change =
  sc_operation :: goal_op
  sc_goal :: goal_snapshot
  sc_rounds :: int
  sc_createdAt :: int
  sc_updatedAt :: int

datatype goal_change = SnapshotChange snapshot_change | ClearChange goal_ref int

datatype goal_error =
    Not_Positive string
  | Not_NonNegative string
  | Bad_Reason_Fields
  | Bad_Reason_Code
  | Bad_Reason_Message
  | Goal_Not_Record
  | Bad_Goal_Id
  | Bad_Objective
  | Bad_Phase
  | Bad_Goal_Fields goal_phase
  | Bad_Ref_Fields
  | Bad_Ref_Id
  | Unsupported_Version
  | Bad_Clear_Fields
  | Bad_Operation
  | Bad_Snapshot_Fields
  | Update_Before_Create
  | Bad_Source
  | Definition_Changed goal_op
  | Not_Next_Revision goal_op
  | Lacks_UpdatedAt
  | Lacks_Timestamps
  | Counters_Changed goal_op
  | Bad_Transition goal_op
  | Unknown_Operation
  | Clear_Too_Early
  | Create_Not_Fresh
  | No_Current_Goal goal_op
  | Invalid_Kind nat
  | Round_Not_Admitted nat

section \<open>The decoder\<close>

text \<open>\<open>/^[a-z][a-z0-9]*(?:-[a-z0-9]+)*$/\<close>: one pass, remembering whether a word may end here.\<close>

definition is_lower :: "char \<Rightarrow> bool" where
  "is_lower c = (97 \<le> (of_char c :: nat) \<and> (of_char c :: nat) \<le> 122)"

definition is_word_char :: "char \<Rightarrow> bool" where
  "is_word_char c = (is_lower c \<or> 48 \<le> (of_char c :: nat) \<and> (of_char c :: nat) \<le> 57)"

fun kebab_rest :: "bool \<Rightarrow> string \<Rightarrow> bool" where
  "kebab_rest in_word [] = in_word"
| "kebab_rest in_word (c # cs) =
     (if is_word_char c then kebab_rest True cs
      else c = CHR ''-'' \<and> in_word \<and> kebab_rest False cs)"

definition lower_kebab :: "string \<Rightarrow> bool" where
  "lower_kebab s = (case s of [] \<Rightarrow> False | c # cs \<Rightarrow> is_lower c \<and> kebab_rest True cs)"

definition positiveInteger :: "json option \<Rightarrow> string \<Rightarrow> (goal_error, int) res" where
  "positiveInteger v field = (case v of
     Some (JNum n) \<Rightarrow> if isSafeInteger (JNum n) \<and> 1 \<le> jnum_int n then Inr (jnum_int n) else Inl (Not_Positive field)
   | _ \<Rightarrow> Inl (Not_Positive field))"

definition nonNegativeInteger :: "json option \<Rightarrow> string \<Rightarrow> (goal_error, int) res" where
  "nonNegativeInteger v field = (case v of
     Some (JNum n) \<Rightarrow> if isSafeInteger (JNum n) \<and> 0 \<le> jnum_int n then Inr (jnum_int n) else Inl (Not_NonNegative field)
   | _ \<Rightarrow> Inl (Not_NonNegative field))"

definition decodeBlockReason :: "json option \<Rightarrow> (goal_error, block_reason) res" where
  "decodeBlockReason ov = (case ov of
     None \<Rightarrow> Inl Bad_Reason_Fields
   | Some v \<Rightarrow>
       if \<not> isRecord v \<or> joined_keys v \<noteq> ''code,message'' then Inl Bad_Reason_Fields
       else case jget v ''code'' of
         Some (JStr code) \<Rightarrow>
           if \<not> lower_kebab code then Inl Bad_Reason_Code
           else (case jget v ''message'' of
             Some (JStr message) \<Rightarrow>
               if \<not> normalized message then Inl Bad_Reason_Message
               else Inr \<lparr>br_code = code, br_message = message\<rparr>
           | _ \<Rightarrow> Inl Bad_Reason_Message)
       | _ \<Rightarrow> Inl Bad_Reason_Code)"

fun phase_of :: "json option \<Rightarrow> goal_phase option" where
  "phase_of (Some (JStr s)) =
     (if s = ''active'' then Some PhActive else if s = ''paused'' then Some PhPaused
      else if s = ''blocked'' then Some PhBlocked else if s = ''complete'' then Some PhComplete else None)"
| "phase_of _ = None"

definition expected_goal_keys :: "goal_phase \<Rightarrow> string" where
  "expected_goal_keys p =
     (if p = PhBlocked then ''blockedReason,id,maxGoalRounds,objective,phase,revision''
      else ''id,maxGoalRounds,objective,phase,revision'')"

definition decodeSnapshot :: "json option \<Rightarrow> (goal_error, goal_snapshot) res" where
  "decodeSnapshot ov = (case ov of
     None \<Rightarrow> Inl Goal_Not_Record
   | Some v \<Rightarrow>
     if \<not> isRecord v then Inl Goal_Not_Record
     else case jget v ''id'' of
       Some (JStr i) \<Rightarrow>
         if i = [] then Inl Bad_Goal_Id
         else (case jget v ''objective'' of
           Some (JStr objective) \<Rightarrow>
             if \<not> normalized objective then Inl Bad_Objective
             else (case phase_of (jget v ''phase'') of
               None \<Rightarrow> Inl Bad_Phase
             | Some phase \<Rightarrow>
                 if joined_keys v \<noteq> expected_goal_keys phase then Inl (Bad_Goal_Fields phase)
                 else rbind (positiveInteger (jget v ''revision'') ''goal.revision'') (\<lambda>revision.
                      rbind (positiveInteger (jget v ''maxGoalRounds'') ''goal.maxGoalRounds'') (\<lambda>rounds.
                      rbind (if phase = PhBlocked then map_sum id Some (decodeBlockReason (jget v ''blockedReason''))
                             else Inr None) (\<lambda>reason.
                      Inr \<lparr>g_id = i, g_revision = revision, g_objective = objective, g_phase = phase,
                           g_maxRounds = rounds, g_reason = reason\<rparr>))))
         | _ \<Rightarrow> Inl Bad_Objective)
     | _ \<Rightarrow> Inl Bad_Goal_Id)"

definition decodeRef :: "json option \<Rightarrow> (goal_error, goal_ref) res" where
  "decodeRef ov = (case ov of
     None \<Rightarrow> Inl Bad_Ref_Fields
   | Some v \<Rightarrow>
     if \<not> isRecord v \<or> joined_keys v \<noteq> ''id,revision'' then Inl Bad_Ref_Fields
     else case jget v ''id'' of
       Some (JStr i) \<Rightarrow>
         if i = [] then Inl Bad_Ref_Id
         else rbind (positiveInteger (jget v ''revision'') ''cleared.revision'')
                (\<lambda>revision. Inr \<lparr>ref_id = i, ref_revision = revision\<rparr>)
     | _ \<Rightarrow> Inl Bad_Ref_Id)"

fun snapshot_op :: "json option \<Rightarrow> goal_op option" where
  "snapshot_op (Some (JStr s)) =
     (if s = ''create'' then Some OpCreate else if s = ''edit'' then Some OpEdit
      else if s = ''pause'' then Some OpPause else if s = ''resume'' then Some OpResume
      else if s = ''complete'' then Some OpComplete else if s = ''block'' then Some OpBlock else None)"
| "snapshot_op _ = None"

definition GOAL_CHANGE_VERSION :: int where
  "GOAL_CHANGE_VERSION = 1"

definition decodeGoalChange :: "json \<Rightarrow> (goal_error, goal_change option) res" where
  "decodeGoalChange v =
     (if \<not> isRecord v \<or> jget v ''kind'' \<noteq> Some (JStr ''goal/change'') then Inr None
      else if jget v ''version'' \<noteq> Some (JNum (JInt GOAL_CHANGE_VERSION)) then Inl Unsupported_Version
      else if jget v ''operation'' = Some (JStr ''clear'') then
        (if joined_keys v \<noteq> ''cleared,clearedAt,kind,operation,version'' then Inl Bad_Clear_Fields
         else rbind (decodeRef (jget v ''cleared'')) (\<lambda>ref.
              rbind (nonNegativeInteger (jget v ''clearedAt'') ''clearedAt'') (\<lambda>time.
              Inr (Some (ClearChange ref time)))))
      else case snapshot_op (jget v ''operation'') of
        None \<Rightarrow> Inl Bad_Operation
      | Some operation \<Rightarrow>
          if joined_keys v \<noteq> ''createdAt,goal,kind,operation,roundsStarted,updatedAt,version'' then Inl Bad_Snapshot_Fields
          else rbind (nonNegativeInteger (jget v ''createdAt'') ''createdAt'') (\<lambda>createdAt.
               rbind (nonNegativeInteger (jget v ''updatedAt'') ''updatedAt'') (\<lambda>updatedAt.
               if updatedAt < createdAt then Inl Update_Before_Create
               else rbind (decodeSnapshot (jget v ''goal'')) (\<lambda>goal.
                    rbind (nonNegativeInteger (jget v ''roundsStarted'') ''roundsStarted'') (\<lambda>rounds.
                    Inr (Some (SnapshotChange \<lparr>sc_operation = operation, sc_goal = goal, sc_rounds = rounds,
                      sc_createdAt = createdAt, sc_updatedAt = updatedAt\<rparr>)))))))"

section \<open>The replay fold\<close>

record goal_state =
  gs_goal :: "goal_snapshot option"
  gs_rounds :: int
  gs_createdAt :: "int option"
  gs_updatedAt :: "int option"
  gs_lastRef :: "goal_ref option"
  gs_seen :: "string list"

definition emptyGoalFoldState :: goal_state where
  "emptyGoalFoldState = \<lparr>gs_goal = None, gs_rounds = 0, gs_createdAt = None, gs_updatedAt = None,
     gs_lastRef = None, gs_seen = []\<rparr>"

definition goalSource :: "message_source \<Rightarrow> (goal_error, (string \<times> int \<times> int) option) res" where
  "goalSource s = (case s of
     SrcGoal i revision rnd \<Rightarrow>
       if i = [] \<or> \<not> isSafeInteger (JNum revision) \<or> jnum_int revision < 1
          \<or> \<not> isSafeInteger (JNum rnd) \<or> jnum_int rnd < 1
       then Inl Bad_Source else Inr (Some (i, jnum_int revision, jnum_int rnd))
   | _ \<Rightarrow> Inr None)"

definition requireSameDefinition :: "goal_snapshot \<Rightarrow> goal_snapshot \<Rightarrow> goal_op \<Rightarrow> (goal_error, unit) res" where
  "requireSameDefinition cur nxt operation =
     require (g_objective nxt = g_objective cur \<and> g_maxRounds nxt = g_maxRounds cur) (Definition_Changed operation)"

definition requireNextRevision :: "goal_snapshot \<Rightarrow> goal_ref \<Rightarrow> goal_op \<Rightarrow> (goal_error, unit) res" where
  "requireNextRevision cur ref operation =
     require (ref_id ref = g_id cur \<and> ref_revision ref = g_revision cur + 1) (Not_Next_Revision operation)"

definition snapshot_ref :: "goal_snapshot \<Rightarrow> goal_ref" where
  "snapshot_ref g = \<lparr>ref_id = g_id g, ref_revision = g_revision g\<rparr>"

definition phase_transition :: "goal_state \<Rightarrow> snapshot_change \<Rightarrow> goal_snapshot \<Rightarrow> (goal_error, unit) res" where
  "phase_transition s ch cur =
     (let nxt = sc_goal ch; operation = sc_operation ch in
      case operation of
        OpEdit \<Rightarrow> require (g_phase nxt = g_phase cur \<and> g_reason nxt = g_reason cur) (Bad_Transition OpEdit)
      | OpPause \<Rightarrow> rbind (requireSameDefinition cur nxt operation) (\<lambda>_.
          require (g_phase cur = PhActive \<and> g_phase nxt = PhPaused) (Bad_Transition OpPause))
      | OpResume \<Rightarrow> rbind (requireSameDefinition cur nxt operation) (\<lambda>_.
          require (g_phase cur \<in> {PhActive, PhPaused, PhBlocked} \<and> g_phase nxt = PhActive
                   \<and> gs_rounds s < g_maxRounds nxt) (Bad_Transition OpResume))
      | OpComplete \<Rightarrow> rbind (requireSameDefinition cur nxt operation) (\<lambda>_.
          require (g_phase cur \<noteq> PhComplete \<and> g_phase nxt = PhComplete) (Bad_Transition OpComplete))
      | OpBlock \<Rightarrow> rbind (requireSameDefinition cur nxt operation) (\<lambda>_.
          require (g_phase cur = PhActive \<and> g_phase nxt = PhBlocked) (Bad_Transition OpBlock))
      | OpCreate \<Rightarrow> Inl (Bad_Transition OpCreate)
      | OpClear \<Rightarrow> Inl Unknown_Operation)"

definition validateSnapshotTransition :: "goal_state \<Rightarrow> snapshot_change \<Rightarrow> goal_snapshot \<Rightarrow> (goal_error, unit) res" where
  "validateSnapshotTransition s ch cur =
     rbind (requireNextRevision cur (snapshot_ref (sc_goal ch)) (sc_operation ch)) (\<lambda>_.
     case gs_updatedAt s of
       None \<Rightarrow> Inl Lacks_UpdatedAt
     | Some updatedAt \<Rightarrow>
         rbind (require (Some (sc_createdAt ch) = gs_createdAt s \<and> updatedAt \<le> sc_updatedAt ch
                         \<and> sc_rounds ch = gs_rounds s) (Counters_Changed (sc_operation ch))) (\<lambda>_.
         phase_transition s ch cur))"

fun goalChangeRef :: "goal_change \<Rightarrow> goal_ref" where
  "goalChangeRef (ClearChange cleared time) = cleared"
| "goalChangeRef (SnapshotChange ch) = snapshot_ref (sc_goal ch)"

definition add_seen :: "string \<Rightarrow> string list \<Rightarrow> string list" where
  "add_seen i ids = (if i \<in> set ids then ids else ids @ [i])"

definition commit_snapshot :: "snapshot_change \<Rightarrow> goal_state \<Rightarrow> goal_state" where
  "commit_snapshot ch s = s\<lparr>gs_goal := Some (sc_goal ch), gs_rounds := sc_rounds ch,
     gs_createdAt := Some (sc_createdAt ch), gs_updatedAt := Some (sc_updatedAt ch),
     gs_lastRef := Some (snapshot_ref (sc_goal ch))\<rparr>"

fun applyGoalChange :: "goal_state \<Rightarrow> goal_change \<Rightarrow> (goal_error, goal_state) res" where
  "applyGoalChange s (ClearChange cleared time) =
     (case gs_goal s of
        None \<Rightarrow> Inl (No_Current_Goal OpClear)
      | Some cur \<Rightarrow> rbind (requireNextRevision cur cleared OpClear) (\<lambda>_.
          case gs_updatedAt s of
            None \<Rightarrow> Inl Lacks_UpdatedAt
          | Some updatedAt \<Rightarrow>
              if time < updatedAt then Inl Clear_Too_Early
              else Inr (s\<lparr>gs_goal := None, gs_rounds := 0, gs_createdAt := None, gs_updatedAt := None,
                          gs_lastRef := Some cleared\<rparr>)))"
| "applyGoalChange s (SnapshotChange ch) =
     (if sc_operation ch = OpCreate then
        (if g_revision (sc_goal ch) \<noteq> 1 \<or> g_phase (sc_goal ch) \<noteq> PhActive \<or> sc_rounds ch \<noteq> 0
            \<or> (case gs_goal s of None \<Rightarrow> False | Some g \<Rightarrow> g_phase g \<noteq> PhComplete)
            \<or> g_id (sc_goal ch) \<in> set (gs_seen s)
         then Inl Create_Not_Fresh
         else Inr (commit_snapshot ch (s\<lparr>gs_seen := add_seen (g_id (sc_goal ch)) (gs_seen s)\<rparr>)))
      else case gs_goal s of
        None \<Rightarrow> Inl (No_Current_Goal (sc_operation ch))
      | Some cur \<Rightarrow> rbind (validateSnapshotTransition s ch cur) (\<lambda>_. Inr (commit_snapshot ch s)))"

definition admit_round :: "goal_state \<Rightarrow> nat \<Rightarrow> string \<Rightarrow> int \<Rightarrow> int \<Rightarrow> (goal_error, goal_state) res" where
  "admit_round s seq i revision rnd = (case gs_goal s of
     None \<Rightarrow> Inl (Round_Not_Admitted seq)
   | Some cur \<Rightarrow>
       if g_phase cur \<noteq> PhActive \<or> i \<noteq> g_id cur \<or> revision \<noteq> g_revision cur
          \<or> rnd \<noteq> gs_rounds s + 1 \<or> g_maxRounds cur < rnd
       then Inl (Round_Not_Admitted seq) else Inr (s\<lparr>gs_rounds := rnd\<rparr>))"

definition applyGoalEvent :: "goal_state \<Rightarrow> event \<Rightarrow> (goal_error, goal_state) res" where
  "applyGoalEvent s e = (case ev_data e of
     GoalChange v \<Rightarrow> rbind (decodeGoalChange v) (\<lambda>c. case c of
         None \<Rightarrow> Inl (Invalid_Kind (ev_seq e)) | Some ch \<Rightarrow> applyGoalChange s ch)
   | UserMessage m \<Rightarrow> rbind (goalSource (um_source m)) (\<lambda>src. case src of
         None \<Rightarrow> Inr s | Some (i, revision, rnd) \<Rightarrow> admit_round s (ev_seq e) i revision rnd)
   | _ \<Rightarrow> Inr s)"

definition foldGoal :: "event list \<Rightarrow> (goal_error, goal_state) res" where
  "foldGoal es = fold_res applyGoalEvent emptyGoalFoldState es"

end
