(* ===== verification/Goal_Laws.thy ===== *)
theory Goal_Laws
  imports Goal_Fold
begin

text \<open>
  Laws of the goal fold: what the decoder accepts, the value a writer records, and the invariant every
  replayed log satisfies.
\<close>

section \<open>Well-formed changes and their encoding\<close>

definition safe_pos :: "int \<Rightarrow> bool" where
  "safe_pos i = (1 \<le> i \<and> i \<le> MAX_SAFE_INTEGER)"

definition safe_nonneg :: "int \<Rightarrow> bool" where
  "safe_nonneg i = (0 \<le> i \<and> i \<le> MAX_SAFE_INTEGER)"

definition reason_wf :: "block_reason \<Rightarrow> bool" where
  "reason_wf r = (lower_kebab (br_code r) \<and> normalized (br_message r))"

definition goal_wf :: "goal_snapshot \<Rightarrow> bool" where
  "goal_wf g = (g_id g \<noteq> [] \<and> safe_pos (g_revision g) \<and> normalized (g_objective g) \<and> safe_pos (g_maxRounds g) \<and>
     (case g_reason g of None \<Rightarrow> g_phase g \<noteq> PhBlocked | Some r \<Rightarrow> g_phase g = PhBlocked \<and> reason_wf r))"

fun change_wf :: "goal_change \<Rightarrow> bool" where
  "change_wf (ClearChange ref time) = (ref_id ref \<noteq> [] \<and> safe_pos (ref_revision ref) \<and> safe_nonneg time)"
| "change_wf (SnapshotChange ch) =
     (sc_operation ch \<noteq> OpClear \<and> goal_wf (sc_goal ch) \<and> safe_nonneg (sc_rounds ch) \<and>
      safe_nonneg (sc_createdAt ch) \<and> safe_nonneg (sc_updatedAt ch) \<and> sc_createdAt ch \<le> sc_updatedAt ch)"

fun phase_name :: "goal_phase \<Rightarrow> string" where
  "phase_name PhActive = ''active''"
| "phase_name PhPaused = ''paused''"
| "phase_name PhBlocked = ''blocked''"
| "phase_name PhComplete = ''complete''"

fun op_name :: "goal_op \<Rightarrow> string" where
  "op_name OpCreate = ''create''"
| "op_name OpEdit = ''edit''"
| "op_name OpPause = ''pause''"
| "op_name OpResume = ''resume''"
| "op_name OpComplete = ''complete''"
| "op_name OpBlock = ''block''"
| "op_name OpClear = ''clear''"

abbreviation jint :: "int \<Rightarrow> json" where
  "jint i \<equiv> JNum (JInt i)"

definition encode_reason :: "block_reason \<Rightarrow> json" where
  "encode_reason r = JObj [(''code'', JStr (br_code r)), (''message'', JStr (br_message r))]"

definition encode_goal :: "goal_snapshot \<Rightarrow> json" where
  "encode_goal g = JObj ([(''id'', JStr (g_id g)), (''revision'', jint (g_revision g)),
     (''objective'', JStr (g_objective g)), (''phase'', JStr (phase_name (g_phase g))),
     (''maxGoalRounds'', jint (g_maxRounds g))]
     @ (case g_reason g of None \<Rightarrow> [] | Some r \<Rightarrow> [(''blockedReason'', encode_reason r)]))"

definition encode_ref :: "goal_ref \<Rightarrow> json" where
  "encode_ref r = JObj [(''id'', JStr (ref_id r)), (''revision'', jint (ref_revision r))]"

fun encode_change :: "goal_change \<Rightarrow> json" where
  "encode_change (SnapshotChange ch) = JObj [(''kind'', JStr ''goal/change''), (''version'', jint GOAL_CHANGE_VERSION),
     (''operation'', JStr (op_name (sc_operation ch))), (''goal'', encode_goal (sc_goal ch)),
     (''roundsStarted'', jint (sc_rounds ch)), (''createdAt'', jint (sc_createdAt ch)),
     (''updatedAt'', jint (sc_updatedAt ch))]"
| "encode_change (ClearChange ref time) = JObj [(''kind'', JStr ''goal/change''), (''version'', jint GOAL_CHANGE_VERSION),
     (''operation'', JStr ''clear''), (''cleared'', encode_ref ref), (''clearedAt'', jint time)]"

lemma sorted_key_lists:
  "join_comma (sort [''code'', ''message'']) = ''code,message''"
  "join_comma (sort [''id'', ''revision'']) = ''id,revision''"
  "join_comma (sort [''id'', ''revision'', ''objective'', ''phase'', ''maxGoalRounds''])
     = ''id,maxGoalRounds,objective,phase,revision''"
  "join_comma (sort [''id'', ''revision'', ''objective'', ''phase'', ''maxGoalRounds'', ''blockedReason''])
     = ''blockedReason,id,maxGoalRounds,objective,phase,revision''"
  "join_comma (sort [''kind'', ''version'', ''operation'', ''cleared'', ''clearedAt''])
     = ''cleared,clearedAt,kind,operation,version''"
  "join_comma (sort [''kind'', ''version'', ''operation'', ''goal'', ''roundsStarted'', ''createdAt'', ''updatedAt''])
     = ''createdAt,goal,kind,operation,roundsStarted,updatedAt,version''"
  by code_simp+

lemma integers_read [simp]:
  "safe_pos i \<Longrightarrow> positiveInteger (Some (jint i)) field = Inr i"
  "safe_nonneg i \<Longrightarrow> nonNegativeInteger (Some (jint i)) field = Inr i"
  by (auto simp: positiveInteger_def nonNegativeInteger_def safe_pos_def safe_nonneg_def)

lemma safe_jnum_int: "isSafeInteger (JNum n) \<Longrightarrow> jnum_int n \<le> MAX_SAFE_INTEGER"
  by (cases n) (simp_all add: MAX_SAFE_INTEGER_def)

lemma positiveInteger_Inr: "positiveInteger v field = Inr i \<Longrightarrow> safe_pos i"
  by (auto simp: positiveInteger_def safe_pos_def safe_jnum_int split: option.splits json.splits if_splits)

lemma nonNegativeInteger_Inr: "nonNegativeInteger v field = Inr i \<Longrightarrow> safe_nonneg i"
  by (auto simp: nonNegativeInteger_def safe_nonneg_def safe_jnum_int split: option.splits json.splits if_splits)

lemma phase_of_name [simp]: "phase_of (Some (JStr (phase_name p))) = Some p"
  by (cases p) simp_all

lemma snapshot_op_name: "oper \<noteq> OpClear \<Longrightarrow> snapshot_op (Some (JStr (op_name oper))) = Some oper \<and> op_name oper \<noteq> ''clear''"
  by (cases oper) simp_all

lemma decode_encode_reason: "reason_wf r \<Longrightarrow> decodeBlockReason (Some (encode_reason r)) = Inr r"
  by (cases r) (simp add: decodeBlockReason_def encode_reason_def reason_wf_def joined_keys_def sorted_key_lists)

lemma decode_encode_goal:
  assumes "goal_wf g" shows "decodeSnapshot (Some (encode_goal g)) = Inr g"
proof (cases "g_reason g")
  case None
  then show ?thesis using assms
    by (cases g) (simp add: decodeSnapshot_def encode_goal_def goal_wf_def joined_keys_def sorted_key_lists
        expected_goal_keys_def del: phase_of.simps)
next
  case (Some r)
  then show ?thesis using assms
    by (cases g) (simp add: decodeSnapshot_def encode_goal_def goal_wf_def joined_keys_def sorted_key_lists
        expected_goal_keys_def decode_encode_reason)
qed

lemma decode_encode_ref:
  "ref_id r \<noteq> [] \<Longrightarrow> safe_pos (ref_revision r) \<Longrightarrow> decodeRef (Some (encode_ref r)) = Inr r"
  by (cases r) (simp add: decodeRef_def encode_ref_def joined_keys_def sorted_key_lists)

lemma decode_encode_change:
  assumes "change_wf c" shows "decodeGoalChange (encode_change c) = Inr (Some c)"
proof (cases c)
  case (SnapshotChange ch)
  then show ?thesis using assms snapshot_op_name [of "sc_operation ch"]
    by (cases ch) (simp add: decodeGoalChange_def joined_keys_def sorted_key_lists decode_encode_goal)
next
  case (ClearChange ref time)
  then show ?thesis using assms
    by (simp add: decodeGoalChange_def joined_keys_def sorted_key_lists decode_encode_ref)
qed

lemma decodeBlockReason_Inr: "decodeBlockReason v = Inr r \<Longrightarrow> reason_wf r"
  by (auto simp: decodeBlockReason_def reason_wf_def split: option.splits if_splits json.splits)

lemma decodeSnapshot_Inr: "decodeSnapshot v = Inr g \<Longrightarrow> goal_wf g"
  by (auto simp: decodeSnapshot_def goal_wf_def rbind_eq_Inr
      split: option.splits if_splits json.splits sum.splits
      dest!: positiveInteger_Inr) (auto simp: map_sum_def dest!: decodeBlockReason_Inr split: sum.splits)

lemma decodeRef_Inr: "decodeRef v = Inr r \<Longrightarrow> ref_id r \<noteq> [] \<and> safe_pos (ref_revision r)"
  by (auto simp: decodeRef_def rbind_eq_Inr split: option.splits if_splits json.splits
      dest: positiveInteger_Inr)

lemma snapshot_op_not_clear: "snapshot_op v \<noteq> Some OpClear"
  by (cases v rule: snapshot_op.cases) auto

lemma decodeGoalChange_Inr: "decodeGoalChange v = Inr (Some c) \<Longrightarrow> change_wf c"
  using snapshot_op_not_clear
  by (auto simp: decodeGoalChange_def rbind_eq_Inr split: option.splits if_splits
      dest!: decodeSnapshot_Inr decodeRef_Inr nonNegativeInteger_Inr)

section \<open>The invariant of the fold\<close>

definition goal_inv :: "goal_state \<Rightarrow> bool" where
  "goal_inv s = (distinct (gs_seen s) \<and> [] \<notin> set (gs_seen s) \<and> 0 \<le> gs_rounds s \<and>
     (case gs_goal s of
        None \<Rightarrow> gs_rounds s = 0 \<and> gs_createdAt s = None \<and> gs_updatedAt s = None
      | Some g \<Rightarrow> goal_wf g \<and> g_id g \<in> set (gs_seen s) \<and> gs_lastRef s = Some (snapshot_ref g) \<and>
          (\<exists>c u. gs_createdAt s = Some c \<and> gs_updatedAt s = Some u \<and> c \<le> u)))"

lemma goal_inv_change:
  assumes "goal_inv s" "change_wf c" "applyGoalChange s c = Inr s'"
  shows "goal_inv s'"
proof (cases c)
  case (ClearChange ref time)
  then show ?thesis using assms
    by (auto simp: goal_inv_def rbind_eq_Inr split: option.splits if_splits)
next
  case (SnapshotChange ch)
  then show ?thesis using assms
    by (auto simp: goal_inv_def rbind_eq_Inr commit_snapshot_def add_seen_def validateSnapshotTransition_def
        requireNextRevision_def snapshot_ref_def safe_nonneg_def goal_wf_def split: option.splits if_splits)
qed

lemma goal_inv_round: "goal_inv s \<Longrightarrow> admit_round s seq i revision rnd = Inr s' \<Longrightarrow> goal_inv s'"
  by (auto simp: goal_inv_def admit_round_def split: option.splits if_splits)

lemma applyGoalEvent_cases:
  assumes "applyGoalEvent s e = Inr s'"
  obtains (Same) "s' = s" "case ev_data e of GoalChange v \<Rightarrow> False
      | UserMessage m \<Rightarrow> goalSource (um_source m) = Inr None | _ \<Rightarrow> True"
  | (Change) v c where "ev_data e = GoalChange v" "decodeGoalChange v = Inr (Some c)" "change_wf c"
      "applyGoalChange s c = Inr s'"
  | (Round) m i revision rnd where "ev_data e = UserMessage m"
      "goalSource (um_source m) = Inr (Some (i, revision, rnd))"
      "admit_round s (ev_seq e) i revision rnd = Inr s'"
proof (cases "ev_data e")
  case (GoalChange v)
  with assms show ?thesis using Change decodeGoalChange_Inr
    by (auto simp: applyGoalEvent_def rbind_eq_Inr split: option.splits)
next
  case (UserMessage m)
  then obtain src where src: "goalSource (um_source m) = Inr src"
    using assms by (auto simp: applyGoalEvent_def rbind_eq_Inr)
  show ?thesis
  proof (cases src)
    case None
    then show ?thesis using Same UserMessage src assms by (simp add: applyGoalEvent_def)
  next
    case (Some t)
    then show ?thesis using Round UserMessage src assms by (cases t) (simp add: applyGoalEvent_def)
  qed
qed (use Same assms in \<open>simp_all add: applyGoalEvent_def\<close>)

interpretation gp: event_projection emptyGoalFoldState applyGoalEvent goal_inv
proof unfold_locales
  show "goal_inv emptyGoalFoldState" by (simp add: goal_inv_def emptyGoalFoldState_def)
  fix s e s' assume "goal_inv s" "applyGoalEvent s e = Inr s'"
  then show "goal_inv s'"
    by (elim applyGoalEvent_cases) (auto intro: goal_inv_change goal_inv_round)
qed

lemma foldGoal_inv: "foldGoal es = Inr s \<Longrightarrow> goal_inv s"
  unfolding foldGoal_def by (rule gp.replay_inv)

section \<open>Revisions are spent once\<close>

text \<open>The references of the changes an accepted log carries, oldest first.\<close>

definition change_ref_of :: "event \<Rightarrow> goal_ref option" where
  "change_ref_of e = (case ev_data e of
     GoalChange v \<Rightarrow> (case decodeGoalChange v of Inr (Some c) \<Rightarrow> Some (goalChangeRef c) | _ \<Rightarrow> None)
   | _ \<Rightarrow> None)"

definition change_refs :: "event list \<Rightarrow> goal_ref list" where
  "change_refs es = List.map_filter change_ref_of es"

definition refs_spent :: "goal_ref list \<Rightarrow> goal_state \<Rightarrow> bool" where
  "refs_spent rs s = (distinct rs \<and> (\<forall>r \<in> set rs. ref_id r \<in> set (gs_seen s) \<and>
     (case gs_goal s of None \<Rightarrow> True
      | Some g \<Rightarrow> ref_id r = g_id g \<longrightarrow> ref_revision r \<le> g_revision g)))"

lemma refs_spent_change:
  assumes "refs_spent rs s" "goal_inv s" "applyGoalChange s c = Inr s'"
  shows "refs_spent (rs @ [goalChangeRef c]) s'"
proof (cases c)
  case (ClearChange ref time)
  then show ?thesis using assms
    by (auto simp: refs_spent_def goal_inv_def rbind_eq_Inr requireNextRevision_def split: option.splits if_splits)
next
  case (SnapshotChange ch)
  then show ?thesis using assms
    by (auto simp: refs_spent_def goal_inv_def rbind_eq_Inr requireNextRevision_def commit_snapshot_def
        add_seen_def validateSnapshotTransition_def snapshot_ref_def split: option.splits if_splits)
qed

lemma refs_spent_fold: "foldGoal es = Inr s \<Longrightarrow> refs_spent (change_refs es) s"
proof (induction es arbitrary: s rule: rev_induct)
  case Nil
  then show ?case by (simp add: foldGoal_def refs_spent_def change_refs_def List.map_filter_simps)
next
  case (snoc e es)
  then obtain s0 where s0: "foldGoal es = Inr s0" "applyGoalEvent s0 e = Inr s"
    by (auto simp: foldGoal_def fold_res_snoc split: sum.splits)
  note IH = snoc.IH [OF s0(1)] and inv = foldGoal_inv [OF s0(1)]
  have refs: "change_refs (es @ [e]) = change_refs es @ (case change_ref_of e of None \<Rightarrow> [] | Some r \<Rightarrow> [r])"
    by (simp add: change_refs_def List.map_filter_def split: option.splits)
  from s0(2) show ?case
  proof (cases rule: applyGoalEvent_cases)
    case Same
    then have "change_ref_of e = None" by (auto simp: change_ref_of_def split: payload.splits)
    then show ?thesis using IH Same refs by simp
  next
    case (Change v c)
    then have "change_ref_of e = Some (goalChangeRef c)" by (simp add: change_ref_of_def)
    then show ?thesis using refs_spent_change [OF IH inv Change(4)] refs by simp
  next
    case (Round m i revision rnd)
    then have "change_ref_of e = None" by (simp add: change_ref_of_def)
    then show ?thesis using IH refs Round(3)
      by (auto simp: admit_round_def refs_spent_def split: option.splits if_splits)
  qed
qed

section \<open>Rounds are admitted in order\<close>

definition round_of :: "string \<Rightarrow> event \<Rightarrow> int option" where
  "round_of g e = (case ev_data e of
     UserMessage m \<Rightarrow> (case goalSource (um_source m) of
        Inr (Some (i, revision, rnd)) \<Rightarrow> if i = g then Some rnd else None | _ \<Rightarrow> None)
   | _ \<Rightarrow> None)"

definition rounds_of :: "string \<Rightarrow> event list \<Rightarrow> int list" where
  "rounds_of g es = List.map_filter (round_of g) es"

definition rounds_ok :: "event list \<Rightarrow> goal_state \<Rightarrow> bool" where
  "rounds_ok es s = ((\<forall>i. i \<notin> set (gs_seen s) \<longrightarrow> rounds_of i es = []) \<and>
     (case gs_goal s of None \<Rightarrow> True | Some g \<Rightarrow> rounds_of (g_id g) es = [1..gs_rounds s]))"

lemma rounds_of_snoc:
  "rounds_of g (es @ [e]) = rounds_of g es @ (case round_of g e of None \<Rightarrow> [] | Some r \<Rightarrow> [r])"
  by (simp add: rounds_of_def List.map_filter_def split: option.splits)

lemma upto_snoc: "0 \<le> n \<Longrightarrow> [1..n + 1] = [1..n] @ [n + 1]"
  using upto_rec2 [of 1 "n + 1"] by simp

lemma rounds_ok_change:
  assumes "rounds_ok es s" "goal_inv s" "applyGoalChange s c = Inr s'"
    and "\<And>i. rounds_of i es' = rounds_of i es"
  shows "rounds_ok es' s'"
proof (cases c)
  case (ClearChange ref time)
  then show ?thesis using assms
    by (auto simp: rounds_ok_def rbind_eq_Inr split: option.splits if_splits)
next
  case (SnapshotChange ch)
  then show ?thesis using assms
    by (auto simp: rounds_ok_def goal_inv_def rbind_eq_Inr requireNextRevision_def commit_snapshot_def
        add_seen_def validateSnapshotTransition_def snapshot_ref_def split: option.splits if_splits)
qed

lemma rounds_ok_fold: "foldGoal es = Inr s \<Longrightarrow> rounds_ok es s"
proof (induction es arbitrary: s rule: rev_induct)
  case Nil
  then show ?case
    by (auto simp: foldGoal_def rounds_ok_def rounds_of_def List.map_filter_simps emptyGoalFoldState_def)
next
  case (snoc e es)
  then obtain s0 where s0: "foldGoal es = Inr s0" "applyGoalEvent s0 e = Inr s"
    by (auto simp: foldGoal_def fold_res_snoc split: sum.splits)
  note IH = snoc.IH [OF s0(1)] and inv = foldGoal_inv [OF s0(1)]
  from s0(2) show ?case
  proof (cases rule: applyGoalEvent_cases)
    case Same
    have "round_of i e = None" for i
      using Same by (auto simp: round_of_def split: payload.splits)
    then show ?thesis using IH Same by (simp add: rounds_ok_def rounds_of_snoc split: option.splits)
  next
    case (Change v c)
    then have "round_of i e = None" for i by (simp add: round_of_def)
    then show ?thesis
      using rounds_ok_change [OF IH inv Change(4), of "es @ [e]"] by (simp add: rounds_of_snoc)
  next
    case (Round m i revision rnd)
    then have r: "round_of j e = (if i = j then Some rnd else None)" for j by (simp add: round_of_def)
    obtain g where g: "gs_goal s0 = Some g" "i = g_id g" "rnd = gs_rounds s0 + 1" "s = s0\<lparr>gs_rounds := rnd\<rparr>"
      using Round(3) by (auto simp: admit_round_def split: option.splits if_splits)
    have "0 \<le> gs_rounds s0" "g_id g \<in> set (gs_seen s0)" using inv g(1) by (auto simp: goal_inv_def)
    then show ?thesis using IH g r upto_snoc [of "gs_rounds s0"]
      by (auto simp: rounds_ok_def rounds_of_snoc)
  qed
qed

end
