(* ===== verification/Goal_Service.thy ===== *)
theory Goal_Service
  imports Goal_Laws
begin

text \<open>
  The goal service (\<open>packages/goal/goal/src/index.ts\<close>): the non-throwing projection of the strict fold,
  the schema its checkpoints must satisfy, and the compare-and-set mutations with their process-local
  activation. The service reads its state through the projection registry, so a read is the fold of
  the session log; the clock and \<open>randomUUID\<close> are inputs.
\<close>

section \<open>The projection\<close>

record goal_projection =
  gp_goal :: goal_snapshot
  gp_rounds :: int
  gp_createdAt :: int
  gp_updatedAt :: int

record projection_state =
  pr_current :: "goal_projection option"
  pr_seen :: "string list"
  pr_failure :: "(nat \<times> goal_error) option"

definition projection_init :: projection_state where
  "projection_init = \<lparr>pr_current = None, pr_seen = [], pr_failure = None\<rparr>"

definition goalFoldState :: "projection_state \<Rightarrow> goal_state" where
  "goalFoldState p = \<lparr>gs_goal = map_option gp_goal (pr_current p),
     gs_rounds = (case pr_current p of None \<Rightarrow> 0 | Some c \<Rightarrow> gp_rounds c),
     gs_createdAt = map_option gp_createdAt (pr_current p),
     gs_updatedAt = map_option gp_updatedAt (pr_current p),
     gs_lastRef = None, gs_seen = pr_seen p\<rparr>"

definition goalProjectionState :: "goal_state \<Rightarrow> (goal_error, projection_state) res" where
  "goalProjectionState s = (case gs_goal s of
     None \<Rightarrow> Inr \<lparr>pr_current = None, pr_seen = gs_seen s, pr_failure = None\<rparr>
   | Some g \<Rightarrow> (case (gs_createdAt s, gs_updatedAt s) of
       (Some c, Some u) \<Rightarrow> Inr \<lparr>pr_current = Some \<lparr>gp_goal = g, gp_rounds = gs_rounds s, gp_createdAt = c, gp_updatedAt = u\<rparr>,
                              pr_seen = gs_seen s, pr_failure = None\<rparr>
     | _ \<Rightarrow> Inl Lacks_Timestamps))"

definition goal_event :: "event \<Rightarrow> bool" where
  "goal_event e = (case ev_data e of
     GoalChange _ \<Rightarrow> True
   | UserMessage m \<Rightarrow> (case um_source m of SrcGoal _ _ _ \<Rightarrow> True | _ \<Rightarrow> False)
   | _ \<Rightarrow> False)"

definition applyGoalProjection :: "projection_state \<Rightarrow> event \<Rightarrow> projection_state" where
  "applyGoalProjection p e =
     (if pr_failure p \<noteq> None \<or> \<not> goal_event e then p
      else case rbind (applyGoalEvent (goalFoldState p) e) goalProjectionState of
        Inl err \<Rightarrow> p\<lparr>pr_failure := Some (ev_seq e, err)\<rparr>
      | Inr p' \<Rightarrow> p')"

definition foldGoalProjection :: "event list \<Rightarrow> projection_state" where
  "foldGoalProjection es = foldl applyGoalProjection projection_init es"

text \<open>The schema a stored checkpoint row of this projection is parsed with.\<close>

definition goalProjectionStateSchema :: "projection_state \<Rightarrow> bool" where
  "goalProjectionStateSchema p =
     (list_all (\<lambda>i. i \<noteq> []) (pr_seen p) \<and> distinct (pr_seen p) \<and>
      (case pr_current p of
         None \<Rightarrow> True
       | Some c \<Rightarrow> g_id (gp_goal c) \<noteq> [] \<and> safe_pos (g_revision (gp_goal c)) \<and> g_objective (gp_goal c) \<noteq> []
           \<and> safe_pos (g_maxRounds (gp_goal c)) \<and> safe_nonneg (gp_rounds c)
           \<and> g_id (gp_goal c) \<in> set (pr_seen p) \<and> gp_createdAt c \<le> gp_updatedAt c
           \<and> gp_rounds c \<le> g_maxRounds (gp_goal c)))"

section \<open>The service\<close>

datatype activation = Armed | Disarmed

datatype service_error =
    Agent_Not_Live | Goal_Not_Found | Goal_Already_Exists | Goal_Stale_Revision | Goal_Invalid_Objective
  | Goal_Invalid_Max_Rounds | Goal_Invalid_Block_Reason | Goal_Invalid_Edit | Goal_Invalid_Transition
  | Replay_Failed nat goal_error

record goal_view =
  gv_goal :: goal_snapshot
  gv_rounds :: int
  gv_createdAt :: int
  gv_updatedAt :: int
  gv_activation :: activation

datatype goal_note =
    ActivationChanged "(goal_ref \<times> activation) option"
  | GoalChanged goal_op goal_ref "goal_view option"

record goal_agent =
  ga_log :: "event list"
  ga_activation :: activation
  ga_pending :: "(nat \<times> activation) option"
  ga_notes :: "goal_note list"
  ga_now :: int
  ga_live :: bool

type_synonym 'a goal_op_result = "(goal_agent, service_error, 'a) sx"

definition resolveMaxGoalRounds :: "jnum \<Rightarrow> (service_error, int) res" where
  "resolveMaxGoalRounds v =
     (if isSafeInteger (JNum v) \<and> 1 \<le> jnum_int v then Inr (jnum_int v) else Inl Goal_Invalid_Max_Rounds)"

definition resolveObjective :: "json \<Rightarrow> (service_error, string) res" where
  "resolveObjective v = (case v of
     JStr s \<Rightarrow> if js_trim s = [] then Inl Goal_Invalid_Objective else Inr (js_trim s)
   | _ \<Rightarrow> Inl Goal_Invalid_Objective)"

definition resolveCreateGoal :: "json \<Rightarrow> jnum option \<Rightarrow> int \<Rightarrow> (service_error, string \<times> int) res" where
  "resolveCreateGoal objective rounds defaultRounds =
     rbind (resolveObjective objective) (\<lambda>ob.
     rbind (resolveMaxGoalRounds (case rounds of None \<Rightarrow> JInt defaultRounds | Some r \<Rightarrow> r)) (\<lambda>r. Inr (ob, r)))"

definition resolveBlockReason :: "json \<Rightarrow> (service_error, block_reason) res" where
  "resolveBlockReason v = (case (jget v ''code'', jget v ''message'') of
     (Some (JStr code), Some (JStr message)) \<Rightarrow>
       if lower_kebab code \<and> js_trim message \<noteq> []
       then Inr \<lparr>br_code = code, br_message = js_trim message\<rparr> else Inl Goal_Invalid_Block_Reason
   | _ \<Rightarrow> Inl Goal_Invalid_Block_Reason)"

definition lift_res :: "('e, 'a) res \<Rightarrow> ('s, 'e, 'a) sx" where
  "lift_res r s = (s, r)"

definition goal_view_of :: "goal_projection option \<Rightarrow> activation \<Rightarrow> goal_view option" where
  "goal_view_of p a = map_option (\<lambda>c. \<lparr>gv_goal = gp_goal c, gv_rounds = gp_rounds c,
     gv_createdAt = gp_createdAt c, gv_updatedAt = gp_updatedAt c, gv_activation = a\<rparr>) p"

definition goal_state_read :: "goal_projection option goal_op_result" where
  "goal_state_read a = (a, case pr_failure (foldGoalProjection (ga_log a)) of
     Some (seq, e) \<Rightarrow> Inl (Replay_Failed seq e)
   | None \<Rightarrow> Inr (pr_current (foldGoalProjection (ga_log a))))"

definition assertLive :: "unit goal_op_result" where
  "assertLive a = (a, require (ga_live a) Agent_Not_Live)"

definition setActivation :: "activation \<Rightarrow> goal_agent \<Rightarrow> goal_agent" where
  "setActivation act a =
     (if ga_activation a = act then a
      else let b = a\<lparr>ga_activation := act\<rparr>; p = foldGoalProjection (ga_log a) in
        if pr_failure p \<noteq> None then b
        else b\<lparr>ga_notes := ga_notes b @ [ActivationChanged
               (map_option (\<lambda>c. (snapshot_ref (gp_goal c), act)) (pr_current p))]\<rparr>)"

text \<open>The service's own listener on \<open>session/event\<close>.\<close>

definition on_goal_change :: "nat \<Rightarrow> goal_agent \<Rightarrow> goal_agent" where
  "on_goal_change seq a =
     setActivation (case ga_pending a of
        Some (offset, act) \<Rightarrow> if offset = seq then act else Disarmed | None \<Rightarrow> Disarmed) a"

definition session_append :: "payload \<Rightarrow> goal_agent \<Rightarrow> goal_agent" where
  "session_append p a =
     (let seq = length (ga_log a);
          b = a\<lparr>ga_log := ga_log a @ [\<lparr>ev_seq = seq, ev_time = nat (ga_now a), ev_data = p,
                 ev_place = None, ev_sources = None\<rparr>]\<rparr>
      in case p of GoalChange _ \<Rightarrow> on_goal_change seq b | _ \<Rightarrow> b)"

fun change_op :: "goal_change \<Rightarrow> goal_op" where
  "change_op (SnapshotChange ch) = sc_operation ch"
| "change_op (ClearChange ref time) = OpClear"

definition goal_commit :: "goal_change \<Rightarrow> activation \<Rightarrow> unit goal_op_result" where
  "goal_commit change act a =
     (let offset = length (ga_log a);
          b = session_append (GoalChange (encode_change change)) (a\<lparr>ga_pending := Some (offset, act)\<rparr>);
          c = b\<lparr>ga_activation := act, ga_pending := None\<rparr>
      in sx_bind goal_state_read (\<lambda>p.
           (\<lambda>d. (d\<lparr>ga_notes := ga_notes d @ [GoalChanged (change_op change) (goalChangeRef change)
                    (goal_view_of p (ga_activation d))]\<rparr>, Inr ()))) c)"

definition commitSnapshot :: "goal_op \<Rightarrow> goal_snapshot \<Rightarrow> int \<Rightarrow> int \<Rightarrow> int \<Rightarrow> activation \<Rightarrow> goal_view goal_op_result" where
  "commitSnapshot operation goal rounds createdAt updatedAt act =
     sx_bind (goal_commit (SnapshotChange \<lparr>sc_operation = operation, sc_goal = goal, sc_rounds = rounds,
                 sc_createdAt = createdAt, sc_updatedAt = updatedAt\<rparr>) act)
       (\<lambda>_ a. (a, Inr \<lparr>gv_goal = goal, gv_rounds = rounds, gv_createdAt = createdAt, gv_updatedAt = updatedAt,
                 gv_activation = ga_activation a\<rparr>))"

definition nextMutationTime :: "goal_projection \<Rightarrow> goal_agent \<Rightarrow> int" where
  "nextMutationTime p a = max (ga_now a) (gp_updatedAt p)"

definition commitCurrent :: "goal_projection \<Rightarrow> goal_op \<Rightarrow> goal_snapshot \<Rightarrow> activation \<Rightarrow> goal_view goal_op_result" where
  "commitCurrent p operation goal act a =
     commitSnapshot operation goal (gp_rounds p) (gp_createdAt p) (nextMutationTime p a) act a"

definition prepareMutation :: "goal_projection option goal_op_result" where
  "prepareMutation = sx_bind assertLive (\<lambda>_. goal_state_read)"

definition expectCurrent :: "goal_projection option \<Rightarrow> goal_ref \<Rightarrow> (service_error, goal_projection) res" where
  "expectCurrent p ref = (case p of
     None \<Rightarrow> Inl Goal_Not_Found
   | Some c \<Rightarrow> if ref_id ref \<noteq> g_id (gp_goal c) \<or> ref_revision ref \<noteq> g_revision (gp_goal c)
              then Inl Goal_Stale_Revision else Inr c)"

definition expect_goal :: "goal_ref \<Rightarrow> goal_projection goal_op_result" where
  "expect_goal ref = sx_bind prepareMutation (\<lambda>p. lift_res (expectCurrent p ref))"

definition withPhase :: "goal_snapshot \<Rightarrow> goal_phase \<Rightarrow> goal_snapshot" where
  "withPhase g p = \<lparr>g_id = g_id g, g_revision = g_revision g + 1, g_objective = g_objective g, g_phase = p,
     g_maxRounds = g_maxRounds g, g_reason = None\<rparr>"

definition goal_create :: "string \<Rightarrow> int \<Rightarrow> json \<Rightarrow> jnum option \<Rightarrow> goal_view goal_op_result" where
  "goal_create uuid defaultRounds objective rounds =
     sx_bind (lift_res (resolveCreateGoal objective rounds defaultRounds)) (\<lambda>(ob, r).
     sx_bind prepareMutation (\<lambda>p.
       case p of
         Some c \<Rightarrow> (if g_phase (gp_goal c) \<noteq> PhComplete then sx_throw Goal_Already_Exists
                   else (\<lambda>a. commitSnapshot OpCreate \<lparr>g_id = ''goal-'' @ uuid, g_revision = 1, g_objective = ob,
                          g_phase = PhActive, g_maxRounds = r, g_reason = None\<rparr> 0 (ga_now a) (ga_now a) Armed a))
       | None \<Rightarrow> (\<lambda>a. commitSnapshot OpCreate \<lparr>g_id = ''goal-'' @ uuid, g_revision = 1, g_objective = ob,
                          g_phase = PhActive, g_maxRounds = r, g_reason = None\<rparr> 0 (ga_now a) (ga_now a) Armed a)))"

definition goal_edit :: "goal_ref \<Rightarrow> json option \<Rightarrow> jnum option \<Rightarrow> goal_view goal_op_result" where
  "goal_edit ref objective rounds =
     sx_bind (expect_goal ref) (\<lambda>c.
       if objective = None \<and> rounds = None then sx_throw Goal_Invalid_Edit
       else sx_bind (lift_res (case objective of None \<Rightarrow> Inr (g_objective (gp_goal c)) | Some ob \<Rightarrow> resolveObjective ob)) (\<lambda>ob.
            sx_bind (lift_res (case rounds of None \<Rightarrow> Inr (g_maxRounds (gp_goal c)) | Some r \<Rightarrow> resolveMaxGoalRounds r)) (\<lambda>r a.
              commitCurrent c OpEdit ((gp_goal c)\<lparr>g_revision := g_revision (gp_goal c) + 1, g_objective := ob,
                g_maxRounds := r\<rparr>) (ga_activation a) a)))"

definition goal_transition :: "goal_ref \<Rightarrow> goal_op \<Rightarrow> goal_phase list \<Rightarrow> goal_phase \<Rightarrow> activation \<Rightarrow> goal_view goal_op_result" where
  "goal_transition ref operation allowed phase act =
     sx_bind (expect_goal ref) (\<lambda>c.
       if g_phase (gp_goal c) \<notin> set allowed then sx_throw Goal_Invalid_Transition
       else commitCurrent c operation (withPhase (gp_goal c) phase) act)"

definition goal_pause :: "goal_ref \<Rightarrow> goal_view goal_op_result" where
  "goal_pause ref = goal_transition ref OpPause [PhActive] PhPaused Disarmed"

definition goal_complete :: "goal_ref \<Rightarrow> goal_view goal_op_result" where
  "goal_complete ref = goal_transition ref OpComplete [PhActive, PhPaused, PhBlocked] PhComplete Disarmed"

definition goal_resume :: "goal_ref \<Rightarrow> goal_view goal_op_result" where
  "goal_resume ref =
     sx_bind (expect_goal ref) (\<lambda>c a.
       let cur = gp_goal c in
       if g_phase cur \<notin> {PhActive, PhPaused, PhBlocked} then sx_throw Goal_Invalid_Transition a
       else if g_phase cur = PhActive \<and> ga_activation a = Armed then sx_throw Goal_Invalid_Transition a
       else if gp_rounds c \<ge> g_maxRounds cur then sx_throw Goal_Invalid_Transition a
       else commitCurrent c OpResume (withPhase cur PhActive) Armed a)"

definition goal_block :: "goal_ref \<Rightarrow> json \<Rightarrow> goal_view goal_op_result" where
  "goal_block ref reason =
     sx_bind (expect_goal ref) (\<lambda>c.
       if g_phase (gp_goal c) \<noteq> PhActive then sx_throw Goal_Invalid_Transition
       else sx_bind (lift_res (resolveBlockReason reason)) (\<lambda>r.
         commitCurrent c OpBlock ((withPhase (gp_goal c) PhBlocked)\<lparr>g_reason := Some r\<rparr>) Disarmed))"

definition goal_clear :: "goal_ref \<Rightarrow> goal_ref goal_op_result" where
  "goal_clear ref =
     sx_bind (expect_goal ref) (\<lambda>c a.
       let tombstone = \<lparr>ref_id = g_id (gp_goal c), ref_revision = g_revision (gp_goal c) + 1\<rparr> in
       sx_bind (goal_commit (ClearChange tombstone (nextMutationTime c a)) Disarmed)
         (\<lambda>_. sx_return tombstone) a)"

definition goal_get :: "goal_view option goal_op_result" where
  "goal_get = sx_bind assertLive (\<lambda>_. sx_bind goal_state_read (\<lambda>p a. (a, Inr (goal_view_of p (ga_activation a)))))"

definition goal_disarm :: "goal_view option goal_op_result" where
  "goal_disarm = sx_bind assertLive (\<lambda>_. (\<lambda>a. sx_bind goal_state_read
     (\<lambda>p b. (b, Inr (goal_view_of p (ga_activation b)))) (setActivation Disarmed a)))"

datatype goal_call =
    Create_Goal string int json "jnum option"
  | Edit_Goal goal_ref "json option" "jnum option"
  | Pause_Goal goal_ref
  | Resume_Goal goal_ref
  | Complete_Goal goal_ref
  | Block_Goal goal_ref json
  | Clear_Goal goal_ref

definition as_unit :: "'a goal_op_result \<Rightarrow> unit goal_op_result" where
  "as_unit m = sx_bind m (\<lambda>_. sx_return ())"

fun goal_do :: "goal_call \<Rightarrow> unit goal_op_result" where
  "goal_do (Create_Goal uuid d ob r) = as_unit (goal_create uuid d ob r)"
| "goal_do (Edit_Goal ref ob r) = as_unit (goal_edit ref ob r)"
| "goal_do (Pause_Goal ref) = as_unit (goal_pause ref)"
| "goal_do (Resume_Goal ref) = as_unit (goal_resume ref)"
| "goal_do (Complete_Goal ref) = as_unit (goal_complete ref)"
| "goal_do (Block_Goal ref reason) = as_unit (goal_block ref reason)"
| "goal_do (Clear_Goal ref) = as_unit (goal_clear ref)"

end
