(* ===== verification/Goal_Service_Laws.thy ===== *)
theory Goal_Service_Laws
  imports Goal_Service
begin

text \<open>
  The projection agrees with the strict fold, and every mutation the service accepts is one the strict
  fold replays.
\<close>

section \<open>The projection agrees with the strict fold\<close>

definition forget_ref :: "goal_state \<Rightarrow> goal_state" where
  "forget_ref s = s\<lparr>gs_lastRef := None\<rparr>"

lemma forget_ref_fields [simp]:
  "gs_goal (forget_ref s) = gs_goal s" "gs_rounds (forget_ref s) = gs_rounds s"
  "gs_createdAt (forget_ref s) = gs_createdAt s" "gs_updatedAt (forget_ref s) = gs_updatedAt s"
  "gs_seen (forget_ref s) = gs_seen s" "forget_ref (s\<lparr>gs_rounds := n\<rparr>) = (forget_ref s)\<lparr>gs_rounds := n\<rparr>"
  "forget_ref (forget_ref s) = forget_ref s"
  "forget_ref (commit_snapshot ch (forget_ref s)) = forget_ref (commit_snapshot ch s)"
  "forget_ref (commit_snapshot ch ((forget_ref s)\<lparr>gs_seen := ids\<rparr>)) = forget_ref (commit_snapshot ch (s\<lparr>gs_seen := ids\<rparr>))"
  "forget_ref ((forget_ref s)\<lparr>gs_goal := g, gs_rounds := n, gs_createdAt := c, gs_updatedAt := u, gs_lastRef := r\<rparr>)
   = forget_ref (s\<lparr>gs_goal := g, gs_rounds := n, gs_createdAt := c, gs_updatedAt := u, gs_lastRef := r\<rparr>)"
  by (simp_all add: forget_ref_def commit_snapshot_def)

lemma forget_projection [simp]: "goalProjectionState (forget_ref s) = goalProjectionState s"
  by (simp add: goalProjectionState_def cong: option.case_cong)

lemma forget_phase [simp]: "phase_transition (forget_ref s) ch cur = phase_transition s ch cur"
  by (cases "sc_operation ch") (simp_all add: phase_transition_def Let_def)

lemma forget_transition [simp]:
  "validateSnapshotTransition (forget_ref s) ch cur = validateSnapshotTransition s ch cur"
  by (cases "gs_updatedAt s") (simp_all add: validateSnapshotTransition_def)

lemma forget_change:
  "map_sum id forget_ref (applyGoalChange (forget_ref s) c) = map_sum id forget_ref (applyGoalChange s c)"
proof (cases c)
  case (ClearChange ref time)
  then show ?thesis
    by (cases "gs_goal s") (auto simp: rbind_def split: sum.splits option.splits)
next
  case (SnapshotChange ch)
  then show ?thesis
    by (cases "gs_goal s") (auto simp: rbind_def split: sum.splits)
qed

lemma forget_event:
  "map_sum id forget_ref (applyGoalEvent (forget_ref s) e) = map_sum id forget_ref (applyGoalEvent s e)"
proof (cases "ev_data e")
  case (GoalChange v)
  then show ?thesis using forget_change
    by (auto simp: applyGoalEvent_def rbind_def split: sum.splits option.splits)
next
  case (UserMessage m)
  then show ?thesis
    by (auto simp: applyGoalEvent_def rbind_def admit_round_def split: sum.splits option.splits)
qed (simp_all add: applyGoalEvent_def)

lemma goalFoldState_projection:
  "goal_inv s \<Longrightarrow> goalProjectionState s = Inr p \<Longrightarrow> goalFoldState p = forget_ref s \<and> pr_failure p = None"
  by (cases s) (auto simp: goalFoldState_def goalProjectionState_def forget_ref_def goal_inv_def
      split: option.splits)

lemma goal_inv_projection: "goal_inv s \<Longrightarrow> \<exists>p. goalProjectionState s = Inr p"
  by (auto simp: goal_inv_def goalProjectionState_def split: option.splits)

lemma not_goal_event: "\<not> goal_event e \<Longrightarrow> applyGoalEvent s e = Inr s"
  by (auto simp: goal_event_def applyGoalEvent_def goalSource_def split: payload.splits message_source.splits)

lemma rbind_forget:
  "map_sum id forget_ref r = map_sum id forget_ref r' \<Longrightarrow> rbind r goalProjectionState = rbind r' goalProjectionState"
proof (cases r; cases r')
  fix a b assume "map_sum id forget_ref r = map_sum id forget_ref r'" "r = Inr a" "r' = Inr b"
  then have "forget_ref a = forget_ref b" by simp
  then have "goalProjectionState a = goalProjectionState b" by (metis forget_projection)
  then show ?thesis using \<open>r = Inr a\<close> \<open>r' = Inr b\<close> by simp
qed auto

lemma projection_step:
  assumes "goal_inv s" "goalProjectionState s = Inr p"
  shows "applyGoalEvent s e = Inr s' \<Longrightarrow> goalProjectionState s' = Inr (applyGoalProjection p e)"
    and "applyGoalEvent s e = Inl err \<Longrightarrow> pr_failure (applyGoalProjection p e) = Some (ev_seq e, err)"
proof -
  note fp = goalFoldState_projection [OF assms]
  have r: "rbind (applyGoalEvent (goalFoldState p) e) goalProjectionState
      = rbind (applyGoalEvent s e) goalProjectionState"
    using rbind_forget [OF forget_event] fp by simp
  { assume ok: "applyGoalEvent s e = Inr s'"
    then have "goal_inv s'" using assms(1) gp.apply_inv by blast
    then show "goalProjectionState s' = Inr (applyGoalProjection p e)"
      using goal_inv_projection [of s'] r ok fp not_goal_event [of e s] assms(2)
      by (auto simp: applyGoalProjection_def)
  next
    assume "applyGoalEvent s e = Inl err"
    moreover from this have "goal_event e" using not_goal_event [of e s] by auto
    ultimately show "pr_failure (applyGoalProjection p e) = Some (ev_seq e, err)"
      using r fp by (simp add: applyGoalProjection_def)
  }
qed

lemma failed_projection_frozen:
  "pr_failure p \<noteq> None \<Longrightarrow> foldl applyGoalProjection p es = p"
  by (induction es) (simp_all add: applyGoalProjection_def)

lemma projection_fold:
  assumes "goal_inv s" "goalProjectionState s = Inr p"
  shows "case fold_res applyGoalEvent s es of
      Inr t \<Rightarrow> goalProjectionState t = Inr (foldl applyGoalProjection p es)
    | Inl err \<Rightarrow> \<exists>seq. pr_failure (foldl applyGoalProjection p es) = Some (seq, err)"
  using assms
proof (induction es arbitrary: s p)
  case (Cons e es)
  show ?case
  proof (cases "applyGoalEvent s e")
    case (Inl err)
    then show ?thesis
      using projection_step(2) [OF Cons.prems Inl] failed_projection_frozen [of "applyGoalProjection p e" es] by simp
  next
    case (Inr s')
    have "goal_inv s'" using Cons.prems(1) Inr gp.apply_inv by blast
    from Cons.IH [OF this projection_step(1) [OF Cons.prems Inr]] show ?thesis using Inr by (simp split: sum.splits)
  qed
qed simp

lemma foldGoalProjection_strict:
  "case foldGoal es of
     Inr s \<Rightarrow> goalProjectionState s = Inr (foldGoalProjection es)
   | Inl err \<Rightarrow> \<exists>seq. pr_failure (foldGoalProjection es) = Some (seq, err)"
  unfolding foldGoal_def foldGoalProjection_def
  by (rule projection_fold [OF gp.init_inv]) (simp add: goalProjectionState_def emptyGoalFoldState_def projection_init_def)

section \<open>Committing a change\<close>

lemma goal_state_read_ok:
  assumes "foldGoal (ga_log a) = Inr s"
  shows "goal_state_read a = (a, Inr (map_option (\<lambda>g. \<lparr>gp_goal = g, gp_rounds = gs_rounds s,
     gp_createdAt = the (gs_createdAt s), gp_updatedAt = the (gs_updatedAt s)\<rparr>) (gs_goal s)))"
proof -
  have p: "goalProjectionState s = Inr (foldGoalProjection (ga_log a))"
    using foldGoalProjection_strict [of "ga_log a"] assms by simp
  have inv: "goal_inv s" using assms by (rule foldGoal_inv)
  have "pr_failure (foldGoalProjection (ga_log a)) = None" using goalFoldState_projection [OF inv p] by simp
  moreover have "pr_current (foldGoalProjection (ga_log a)) = map_option (\<lambda>g. \<lparr>gp_goal = g, gp_rounds = gs_rounds s,
     gp_createdAt = the (gs_createdAt s), gp_updatedAt = the (gs_updatedAt s)\<rparr>) (gs_goal s)"
    using p [symmetric] inv by (auto simp: goalProjectionState_def goal_inv_def split: option.splits)
  ultimately show ?thesis by (simp add: goal_state_read_def)
qed

lemma setActivation_simps [simp]:
  "ga_log (setActivation act a) = ga_log a" "ga_pending (setActivation act a) = ga_pending a"
  "ga_now (setActivation act a) = ga_now a" "ga_activation (setActivation act a) = act"
  by (auto simp: setActivation_def Let_def)

lemma session_append_log [simp]:
  "ga_log (session_append p a) = ga_log a @ [\<lparr>ev_seq = length (ga_log a), ev_time = nat (ga_now a),
     ev_data = p, ev_place = None, ev_sources = None\<rparr>]"
  by (auto simp: session_append_def Let_def on_goal_change_def split: payload.splits)

lemma goal_commit_ok:
  assumes "foldGoal (ga_log a) = Inr s" "change_wf c" "applyGoalChange s c = Inr s'"
  shows "\<exists>b. goal_commit c act a = (b, Inr ()) \<and> foldGoal (ga_log b) = Inr s' \<and> ga_activation b = act \<and>
     (\<exists>e. ga_log b = ga_log a @ [e] \<and> ev_data e = GoalChange (encode_change c))"
proof -
  let ?e = "\<lparr>ev_seq = length (ga_log a), ev_time = nat (ga_now a), ev_data = GoalChange (encode_change c),
     ev_place = None, ev_sources = None\<rparr>"
  have f: "foldGoal (ga_log a @ [?e]) = Inr s'"
    using assms by (simp add: foldGoal_def fold_res_snoc applyGoalEvent_def decode_encode_change)
  let ?b = "(session_append (GoalChange (encode_change c)) (a\<lparr>ga_pending := Some (length (ga_log a), act)\<rparr>))
      \<lparr>ga_activation := act, ga_pending := None\<rparr>"
  have "ga_log ?b = ga_log a @ [?e]" by simp
  then show ?thesis
    using goal_state_read_ok [of ?b s'] f by (simp add: goal_commit_def Let_def sx_simps)
qed

text \<open>
  What a call may do: refuse and write nothing, or append one event that replay accepts. \<open>Bounded\<close>
  states keep the next revision and the clock inside the safe integers.
\<close>

definition call_ok :: "goal_agent \<Rightarrow> goal_state \<Rightarrow> goal_agent \<times> (service_error, 'a) res \<Rightarrow> bool" where
  "call_ok a s r = (case r of
     (b, Inl e) \<Rightarrow> ga_log b = ga_log a
   | (b, Inr v) \<Rightarrow> \<exists>c s' e. applyGoalChange s c = Inr s' \<and> foldGoal (ga_log b) = Inr s' \<and>
       ga_log b = ga_log a @ [e] \<and> ev_data e = GoalChange (encode_change c))"

definition bounded :: "goal_agent \<Rightarrow> goal_state \<Rightarrow> bool" where
  "bounded a s = (safe_nonneg (ga_now a) \<and>
     (case gs_goal s of None \<Rightarrow> True | Some g \<Rightarrow> g_revision g < MAX_SAFE_INTEGER \<and>
        safe_nonneg (the (gs_createdAt s)) \<and> safe_nonneg (the (gs_updatedAt s)) \<and> safe_nonneg (gs_rounds s)))"

lemma call_ok_commit:
  assumes "foldGoal (ga_log a) = Inr s" "change_wf c" "applyGoalChange s c = Inr s'"
    and "\<And>u b. \<exists>v. f u b = (b, Inr v)"
  shows "call_ok a s (sx_bind (goal_commit c act) f a)"
proof -
  obtain b e where b: "goal_commit c act a = (b, Inr ())" "foldGoal (ga_log b) = Inr s'"
    "ga_log b = ga_log a @ [e]" "ev_data e = GoalChange (encode_change c)"
    using goal_commit_ok [OF assms(1-3), of act] by blast
  obtain v where "f () b = (b, Inr v)" using assms(4) by blast
  then have "sx_bind (goal_commit c act) f a = (b, Inr v)" by (simp add: sx_simps b(1))
  then show ?thesis unfolding call_ok_def using assms(3) b(2-4) by auto
qed

lemma expect_goal_cases:
  assumes "foldGoal (ga_log a) = Inr s"
  obtains (Refused) e where "expect_goal ref a = (a, Inl e)"
  | (Current) g c where "gs_goal s = Some g" "ref = snapshot_ref g" "expect_goal ref a = (a, Inr c)"
      "c = \<lparr>gp_goal = g, gp_rounds = gs_rounds s, gp_createdAt = the (gs_createdAt s), gp_updatedAt = the (gs_updatedAt s)\<rparr>"
proof (cases "gs_goal s")
  case None
  then show ?thesis using Refused goal_state_read_ok [OF assms]
    by (cases "ga_live a") (auto simp: expect_goal_def prepareMutation_def assertLive_def sx_simps lift_res_def
        expectCurrent_def require_def)
next
  case (Some g)
  let ?c = "\<lparr>gp_goal = g, gp_rounds = gs_rounds s, gp_createdAt = the (gs_createdAt s), gp_updatedAt = the (gs_updatedAt s)\<rparr>"
  show ?thesis
  proof (cases "ga_live a \<and> ref = snapshot_ref g")
    case True
    then have "expect_goal ref a = (a, Inr ?c)" using Some goal_state_read_ok [OF assms]
      by (simp add: expect_goal_def prepareMutation_def assertLive_def sx_simps lift_res_def
          expectCurrent_def require_def snapshot_ref_def)
    then show ?thesis using Current [OF Some] True by blast
  next
    case False
    then have "\<exists>e. expect_goal ref a = (a, Inl e)" using Some goal_state_read_ok [OF assms]
      by (cases ref) (auto simp: expect_goal_def prepareMutation_def assertLive_def sx_simps lift_res_def
          expectCurrent_def require_def snapshot_ref_def)
    then show ?thesis using Refused by blast
  qed
qed

text \<open>A current-goal mutation that passes the phase test of the fold commits.\<close>

lemma commitCurrent_ok:
  assumes "foldGoal (ga_log a) = Inr s" "bounded a s" "gs_goal s = Some g"
    and "c = \<lparr>gp_goal = g, gp_rounds = gs_rounds s, gp_createdAt = the (gs_createdAt s), gp_updatedAt = the (gs_updatedAt s)\<rparr>"
    and "g_id nxt = g_id g" "g_revision nxt = g_revision g + 1" "goal_wf nxt"
    and "operation \<notin> {OpCreate, OpClear}"
    and "phase_transition s \<lparr>sc_operation = operation, sc_goal = nxt, sc_rounds = gs_rounds s,
       sc_createdAt = the (gs_createdAt s), sc_updatedAt = max (ga_now a) (the (gs_updatedAt s))\<rparr> g = Inr ()"
  shows "call_ok a s (commitCurrent c operation nxt act a)"
proof -
  have inv: "goal_inv s" using assms(1) by (rule foldGoal_inv)
  let ?ch = "\<lparr>sc_operation = operation, sc_goal = nxt, sc_rounds = gs_rounds s,
       sc_createdAt = the (gs_createdAt s), sc_updatedAt = max (ga_now a) (the (gs_updatedAt s))\<rparr>"
  have w: "change_wf (SnapshotChange ?ch)"
    using assms(2,3,7,8) inv by (auto simp: bounded_def goal_inv_def safe_nonneg_def)
  have "validateSnapshotTransition s ?ch g = Inr ()"
    using inv assms(3,5,6,9)
    by (auto simp: validateSnapshotTransition_def requireNextRevision_def snapshot_ref_def goal_inv_def require_def)
  then have "applyGoalChange s (SnapshotChange ?ch) = Inr (commit_snapshot ?ch s)"
    using assms(3,8) by simp
  from call_ok_commit [OF assms(1) w this, of "\<lambda>_ b. (b, Inr \<lparr>gv_goal = nxt, gv_rounds = gs_rounds s,
      gv_createdAt = the (gs_createdAt s), gv_updatedAt = max (ga_now a) (the (gs_updatedAt s)),
      gv_activation = ga_activation b\<rparr>)" act]
  show ?thesis by (simp add: commitCurrent_def commitSnapshot_def nextMutationTime_def assms(4))
qed

section \<open>Every operation\<close>

lemma call_ok_refused: "call_ok a s (a, Inl e)"
  by (simp add: call_ok_def)

lemma call_ok_as_unit: "call_ok a s (m a) \<Longrightarrow> call_ok a s (as_unit m a)"
  by (auto simp: call_ok_def as_unit_def sx_simps split: prod.splits sum.splits)

lemma resolved_values:
  "resolveMaxGoalRounds v = Inr r \<Longrightarrow> safe_pos r"
  "resolveObjective v' = Inr ob \<Longrightarrow> normalized ob"
  "resolveBlockReason v' = Inr reason \<Longrightarrow> reason_wf reason"
proof -
  show "resolveMaxGoalRounds v = Inr r \<Longrightarrow> safe_pos r"
    by (auto simp: resolveMaxGoalRounds_def safe_pos_def safe_jnum_int split: if_splits)
  show "resolveObjective v' = Inr ob \<Longrightarrow> normalized ob"
    by (auto simp: resolveObjective_def normalized_trim split: if_splits json.splits)
  show "resolveBlockReason v' = Inr reason \<Longrightarrow> reason_wf reason"
    by (auto simp: resolveBlockReason_def reason_wf_def normalized_trim split: if_splits json.splits option.splits)
qed

lemma withPhase_simps [simp]:
  "g_id (withPhase g p) = g_id g" "g_revision (withPhase g p) = g_revision g + 1"
  "g_objective (withPhase g p) = g_objective g" "g_maxRounds (withPhase g p) = g_maxRounds g"
  "g_phase (withPhase g p) = p" "g_reason (withPhase g p) = None"
  by (simp_all add: withPhase_def)

lemma withPhase_wf:
  assumes "goal_wf g" "g_revision g < MAX_SAFE_INTEGER"
  shows "p \<noteq> PhBlocked \<Longrightarrow> goal_wf (withPhase g p)"
    and "reason_wf r \<Longrightarrow> goal_wf ((withPhase g PhBlocked)\<lparr>g_reason := Some r\<rparr>)"
  using assms by (auto simp: goal_wf_def safe_pos_def)

lemma current_facts:
  assumes fold: "foldGoal (ga_log a) = Inr s" and bnd: "bounded a s"
    and "gs_goal s = Some g"
  shows "goal_wf g \<and> g_revision g < MAX_SAFE_INTEGER"
  using assms(3)  foldGoal_inv [OF fold] bnd by (auto simp: goal_inv_def bounded_def)

lemma expect_bind_ok:
  assumes fold: "foldGoal (ga_log a) = Inr s"
    and ok: "\<And>g c. gs_goal s = Some g \<Longrightarrow> ref = snapshot_ref g \<Longrightarrow>
      c = \<lparr>gp_goal = g, gp_rounds = gs_rounds s, gp_createdAt = the (gs_createdAt s), gp_updatedAt = the (gs_updatedAt s)\<rparr> \<Longrightarrow>
      call_ok a s (f c a)"
  shows "call_ok a s (sx_bind (expect_goal ref) f a)"
  by (rule expect_goal_cases [OF fold, of ref]) (auto simp: sx_simps call_ok_refused ok)

lemma transition_ok:
  assumes fold: "foldGoal (ga_log a) = Inr s" and bnd: "bounded a s"
    and "operation \<in> {OpPause, OpComplete}" "p \<noteq> PhBlocked"
    and "\<And>g. g_phase g \<in> set allowed \<Longrightarrow> phase_transition s \<lparr>sc_operation = operation, sc_goal = withPhase g p,
       sc_rounds = gs_rounds s, sc_createdAt = the (gs_createdAt s),
       sc_updatedAt = max (ga_now a) (the (gs_updatedAt s))\<rparr> g = Inr ()"
  shows "call_ok a s (goal_transition ref operation allowed p act a)"
  unfolding goal_transition_def
proof (rule expect_bind_ok [OF fold])
  fix g c assume g: "gs_goal s = Some g" and c: "c = \<lparr>gp_goal = g, gp_rounds = gs_rounds s,
      gp_createdAt = the (gs_createdAt s), gp_updatedAt = the (gs_updatedAt s)\<rparr>"
  then show "call_ok a s ((if g_phase (gp_goal c) \<notin> set allowed then sx_throw Goal_Invalid_Transition
       else commitCurrent c operation (withPhase (gp_goal c) p) act) a)"
    using commitCurrent_ok [OF fold bnd g c, of "withPhase g p" operation act] assms(3-5) current_facts [OF fold bnd g]
      withPhase_wf(1) [of g p]
    by (auto simp: sx_simps call_ok_refused)
qed

lemma pause_ok:
  assumes fold: "foldGoal (ga_log a) = Inr s" and bnd: "bounded a s"
  shows "call_ok a s (goal_pause ref a)"
  unfolding goal_pause_def
  by (rule transition_ok [OF fold bnd]) (auto simp: phase_transition_def requireSameDefinition_def require_def)

lemma complete_ok:
  assumes fold: "foldGoal (ga_log a) = Inr s" and bnd: "bounded a s"
  shows "call_ok a s (goal_complete ref a)"
  unfolding goal_complete_def
  by (rule transition_ok [OF fold bnd]) (auto simp: phase_transition_def requireSameDefinition_def require_def)

lemma resume_ok:
  assumes fold: "foldGoal (ga_log a) = Inr s" and bnd: "bounded a s"
  shows "call_ok a s (goal_resume ref a)"
  unfolding goal_resume_def
proof (rule expect_bind_ok [OF fold])
  fix g c assume g: "gs_goal s = Some g" and c: "c = \<lparr>gp_goal = g, gp_rounds = gs_rounds s,
      gp_createdAt = the (gs_createdAt s), gp_updatedAt = the (gs_updatedAt s)\<rparr>"
  have "call_ok a s (commitCurrent c OpResume (withPhase g PhActive) Armed a)"
    if "g_phase g \<in> {PhActive, PhPaused, PhBlocked}" "gs_rounds s < g_maxRounds g"
    using commitCurrent_ok [OF fold bnd g c, of "withPhase g PhActive" OpResume Armed] that current_facts [OF fold bnd g]
      withPhase_wf(1) [of g PhActive]
    by (auto simp: phase_transition_def requireSameDefinition_def require_def)
  then show "call_ok a s (let cur = gp_goal c in
       if g_phase cur \<notin> {PhActive, PhPaused, PhBlocked} then sx_throw Goal_Invalid_Transition a
       else if g_phase cur = PhActive \<and> ga_activation a = Armed then sx_throw Goal_Invalid_Transition a
       else if gp_rounds c \<ge> g_maxRounds cur then sx_throw Goal_Invalid_Transition a
       else commitCurrent c OpResume (withPhase cur PhActive) Armed a)"
    by (auto simp: c sx_simps call_ok_refused Let_def)
qed

lemma block_ok:
  assumes fold: "foldGoal (ga_log a) = Inr s" and bnd: "bounded a s"
  shows "call_ok a s (goal_block ref reason a)"
  unfolding goal_block_def
proof (rule expect_bind_ok [OF fold])
  fix g c assume g: "gs_goal s = Some g" and c: "c = \<lparr>gp_goal = g, gp_rounds = gs_rounds s,
      gp_createdAt = the (gs_createdAt s), gp_updatedAt = the (gs_updatedAt s)\<rparr>"
  have "call_ok a s (commitCurrent c OpBlock ((withPhase g PhBlocked)\<lparr>g_reason := Some r\<rparr>) Disarmed a)"
    if "g_phase g = PhActive" "resolveBlockReason reason = Inr r" for r
    using commitCurrent_ok [OF fold bnd g c, of "(withPhase g PhBlocked)\<lparr>g_reason := Some r\<rparr>" OpBlock Disarmed]
      that current_facts [OF fold bnd g] withPhase_wf(2) [of g r] resolved_values(3)
    by (auto simp: phase_transition_def requireSameDefinition_def require_def)
  then show "call_ok a s ((if g_phase (gp_goal c) \<noteq> PhActive then sx_throw Goal_Invalid_Transition
       else sx_bind (lift_res (resolveBlockReason reason)) (\<lambda>r.
         commitCurrent c OpBlock ((withPhase (gp_goal c) PhBlocked)\<lparr>g_reason := Some r\<rparr>) Disarmed)) a)"
    by (cases "resolveBlockReason reason") (auto simp: c sx_simps lift_res_def call_ok_refused)
qed

lemma edit_ok:
  assumes fold: "foldGoal (ga_log a) = Inr s" and bnd: "bounded a s"
  shows "call_ok a s (goal_edit ref objective rounds a)"
  unfolding goal_edit_def
proof (rule expect_bind_ok [OF fold])
  fix g c assume g: "gs_goal s = Some g" and c: "c = \<lparr>gp_goal = g, gp_rounds = gs_rounds s,
      gp_createdAt = the (gs_createdAt s), gp_updatedAt = the (gs_updatedAt s)\<rparr>"
  let ?ob = "case objective of None \<Rightarrow> Inr (g_objective (gp_goal c)) | Some ob \<Rightarrow> resolveObjective ob"
  let ?r = "case rounds of None \<Rightarrow> Inr (g_maxRounds (gp_goal c)) | Some r \<Rightarrow> resolveMaxGoalRounds r"
  have "call_ok a s (commitCurrent c OpEdit (g\<lparr>g_revision := g_revision g + 1, g_objective := ob, g_maxRounds := r\<rparr>)
      (ga_activation a) a)" if "?ob = Inr ob" "?r = Inr r" for ob r
  proof -
    have "normalized ob" "safe_pos r"
      using that current_facts [OF fold bnd g] resolved_values by (auto simp: c goal_wf_def split: option.splits)
    then have "goal_wf (g\<lparr>g_revision := g_revision g + 1, g_objective := ob, g_maxRounds := r\<rparr>)"
      using current_facts [OF fold bnd g] by (auto simp: goal_wf_def safe_pos_def split: option.splits)
    then show ?thesis
      by (intro commitCurrent_ok [OF fold bnd g c]) (auto simp: phase_transition_def require_def)
  qed
  then show "call_ok a s ((if objective = None \<and> rounds = None then sx_throw Goal_Invalid_Edit
       else sx_bind (lift_res ?ob) (\<lambda>ob. sx_bind (lift_res ?r) (\<lambda>r a.
              commitCurrent c OpEdit ((gp_goal c)\<lparr>g_revision := g_revision (gp_goal c) + 1, g_objective := ob,
                g_maxRounds := r\<rparr>) (ga_activation a) a))) a)"
    by (cases ?ob; cases ?r) (simp_all add: sx_simps lift_res_def call_ok_refused, auto simp: c)
qed

lemma clear_ok:
  assumes fold: "foldGoal (ga_log a) = Inr s" and bnd: "bounded a s"
  shows "call_ok a s (goal_clear ref a)"
  unfolding goal_clear_def
proof (rule expect_bind_ok [OF fold])
  fix g c assume g: "gs_goal s = Some g" and c: "c = \<lparr>gp_goal = g, gp_rounds = gs_rounds s,
      gp_createdAt = the (gs_createdAt s), gp_updatedAt = the (gs_updatedAt s)\<rparr>"
  let ?t = "\<lparr>ref_id = g_id g, ref_revision = g_revision g + 1\<rparr>"
  let ?ch = "ClearChange ?t (nextMutationTime c a)"
  have inv: "goal_inv s" using fold by (rule foldGoal_inv)
  have "change_wf ?ch" using current_facts [OF fold bnd g] bnd g
    by (auto simp: c goal_wf_def safe_pos_def nextMutationTime_def bounded_def safe_nonneg_def)
  moreover have "\<exists>s'. applyGoalChange s ?ch = Inr s'"
    using inv g by (auto simp: c goal_inv_def requireNextRevision_def require_def nextMutationTime_def)
  ultimately obtain s' where s': "change_wf ?ch" "applyGoalChange s ?ch = Inr s'" by blast
  have "call_ok a s (sx_bind (goal_commit ?ch Disarmed) (\<lambda>_. sx_return ?t) a)"
    by (rule call_ok_commit [OF fold s']) (simp add: sx_simps)
  then show "call_ok a s (let tombstone = \<lparr>ref_id = g_id (gp_goal c), ref_revision = g_revision (gp_goal c) + 1\<rparr>
      in sx_bind (goal_commit (ClearChange tombstone (nextMutationTime c a)) Disarmed) (\<lambda>_. sx_return tombstone) a)"
    by (simp add: c Let_def)
qed

lemma create_ok:
  assumes fold: "foldGoal (ga_log a) = Inr s" and bnd: "bounded a s"
    and fresh: "''goal-'' @ uuid \<notin> set (gs_seen s)"
  shows "call_ok a s (goal_create uuid d objective rounds a)"
proof (cases "resolveCreateGoal objective rounds d")
  case (Inl e)
  then show ?thesis by (simp add: goal_create_def sx_simps lift_res_def call_ok_refused)
next
  case (Inr p)
  obtain ob r where p: "p = (ob, r)" by force
  have v: "normalized ob" "safe_pos r"
    using Inr p resolved_values by (auto simp: resolveCreateGoal_def rbind_eq_Inr)
  let ?g = "\<lparr>g_id = ''goal-'' @ uuid, g_revision = 1, g_objective = ob, g_phase = PhActive, g_maxRounds = r, g_reason = None\<rparr>"
  let ?ch = "\<lparr>sc_operation = OpCreate, sc_goal = ?g, sc_rounds = 0, sc_createdAt = ga_now a, sc_updatedAt = ga_now a\<rparr>"
  have w: "change_wf (SnapshotChange ?ch)"
    using v bnd by (auto simp: goal_wf_def safe_pos_def safe_nonneg_def bounded_def MAX_SAFE_INTEGER_def)
  have ok: "call_ok a s (commitSnapshot OpCreate ?g 0 (ga_now a) (ga_now a) Armed a)"
    if "case gs_goal s of None \<Rightarrow> True | Some g \<Rightarrow> g_phase g = PhComplete"
  proof -
    have "applyGoalChange s (SnapshotChange ?ch) = Inr (commit_snapshot ?ch (s\<lparr>gs_seen := add_seen (''goal-'' @ uuid) (gs_seen s)\<rparr>))"
      using that fresh by (auto split: option.splits)
    from call_ok_commit [OF fold w this, of "\<lambda>_ b. (b, Inr \<lparr>gv_goal = ?g, gv_rounds = 0,
      gv_createdAt = ga_now a, gv_updatedAt = ga_now a, gv_activation = ga_activation b\<rparr>)" Armed]
    show ?thesis by (simp add: commitSnapshot_def)
  qed
  show ?thesis
  proof (cases "ga_live a")
    case False
    then show ?thesis using Inr p
      by (simp add: goal_create_def sx_simps lift_res_def prepareMutation_def assertLive_def require_def call_ok_refused)
  next
    case True
    have m: "prepareMutation a = (a, Inr (map_option (\<lambda>g. \<lparr>gp_goal = g, gp_rounds = gs_rounds s,
       gp_createdAt = the (gs_createdAt s), gp_updatedAt = the (gs_updatedAt s)\<rparr>) (gs_goal s)))"
      using True goal_state_read_ok [OF fold] by (simp add: prepareMutation_def assertLive_def sx_simps require_def)
    show ?thesis using Inr p m ok
      by (cases "gs_goal s") (auto simp: goal_create_def sx_simps lift_res_def call_ok_refused)
  qed
qed

lemma goal_do_ok:
  assumes fold: "foldGoal (ga_log a) = Inr s" and bnd: "bounded a s"
    and "case call of Create_Goal uuid d ob r \<Rightarrow> ''goal-'' @ uuid \<notin> set (gs_seen s) | _ \<Rightarrow> True"
  shows "call_ok a s (goal_do call a)"
  using assms by (cases call) (simp_all add: call_ok_as_unit create_ok edit_ok pause_ok resume_ok complete_ok
      block_ok clear_ok)

section \<open>Properties\<close>

definition g1 :: goal_snapshot where
  "g1 = \<lparr>g_id = ''goal-1'', g_revision = 1, g_objective = ''ship'', g_phase = PhActive, g_maxRounds = 3, g_reason = None\<rparr>"

definition goal_log_event :: "nat \<Rightarrow> payload \<Rightarrow> event" where
  "goal_log_event n p = \<lparr>ev_seq = n, ev_time = 0, ev_data = p, ev_place = None, ev_sources = None\<rparr>"

definition goal_round :: "int \<Rightarrow> int \<Rightarrow> payload" where
  "goal_round revision rnd = UserMessage \<lparr>um_id = ''m'', um_source = SrcGoal ''goal-1'' (JInt revision) (JInt rnd), um_content = []\<rparr>"

definition goal_demo :: "event list" where
  "goal_demo =
    [goal_log_event 0 (GoalChange (encode_change (SnapshotChange \<lparr>sc_operation = OpCreate, sc_goal = g1, sc_rounds = 0,
       sc_createdAt = 5, sc_updatedAt = 5\<rparr>))),
     goal_log_event 1 (goal_round 1 1), goal_log_event 2 (goal_round 1 2),
     goal_log_event 3 (GoalChange (encode_change (SnapshotChange \<lparr>sc_operation = OpEdit,
       sc_goal = g1\<lparr>g_revision := 2, g_maxRounds := 1\<rparr>, sc_rounds = 2, sc_createdAt = 5, sc_updatedAt = 7\<rparr>)))]"

definition goal_demo_state :: goal_state where
  "goal_demo_state = \<lparr>gs_goal = Some (g1\<lparr>g_revision := 2, g_maxRounds := 1\<rparr>), gs_rounds = 2, gs_createdAt = Some 5,
     gs_updatedAt = Some 7, gs_lastRef = Some \<lparr>ref_id = ''goal-1'', ref_revision = 2\<rparr>, gs_seen = [''goal-1'']\<rparr>"

lemma goal_demo_fold: "foldGoal goal_demo = Inr goal_demo_state"
  by code_simp

text \<open>
  Decoding is the inverse of recording: a well-formed goal change written as a session event
  is read back as exactly that change.
\<close>

theorem goal_change_roundtrip:
  assumes "change_wf c"
  shows "decodeGoalChange (encode_change c) = Inr (Some c)"
  using decode_encode_change [OF assms] .

theorem goal_change_roundtrip_witness:
  "decodeGoalChange (encode_change (ClearChange \<lparr>ref_id = ''goal-1'', ref_revision = 3\<rparr> 9))
   = Inr (Some (ClearChange \<lparr>ref_id = ''goal-1'', ref_revision = 3\<rparr> 9))"
  by (rule goal_change_roundtrip) (simp add: safe_pos_def safe_nonneg_def MAX_SAFE_INTEGER_def)

text \<open>
  Claim C9. A goal revision is spent once: in a log that replays, no two goal changes carry the same
  goal id and revision, so of two writers holding the same reference at most one is recorded.
\<close>

theorem goal_revisions_spent_once:
  assumes "foldGoal es = Inr s"
  shows "distinct (change_refs es)"
  using refs_spent_fold [OF assms] by (simp add: refs_spent_def)

theorem goal_revisions_spent_once_witness:
  "distinct [\<lparr>ref_id = ''goal-1'', ref_revision = 1\<rparr>, \<lparr>ref_id = ''goal-1'', ref_revision = 2\<rparr>]"
proof -
  have "change_refs goal_demo = [\<lparr>ref_id = ''goal-1'', ref_revision = 1\<rparr>, \<lparr>ref_id = ''goal-1'', ref_revision = 2\<rparr>]"
    by code_simp
  then show ?thesis using goal_revisions_spent_once [OF goal_demo_fold] by simp
qed

text \<open>
  Continuation rounds are admitted one by one: in a log that replays to a current goal, the
  rounds attributed to that goal are exactly 1, 2, up to the started count, in that order.
\<close>

theorem goal_rounds_in_order:
  assumes "foldGoal es = Inr s" "gs_goal s = Some g"
  shows "rounds_of (g_id g) es = [1..gs_rounds s]"
  using rounds_ok_fold [OF assms(1)] assms(2) by (simp add: rounds_ok_def)

theorem goal_rounds_in_order_witness: "rounds_of ''goal-1'' goal_demo = [1, 2]"
proof -
  have g: "gs_goal goal_demo_state = Some (g1\<lparr>g_revision := 2, g_maxRounds := 1\<rparr>)" by (simp add: goal_demo_state_def)
  show ?thesis using goal_rounds_in_order [OF goal_demo_fold g]
    by (simp add: g1_def goal_demo_state_def upto.simps)
qed

text \<open>
  Claim C8. The projection never throws and agrees with the strict fold: it holds the goal, rounds,
  timestamps and used identities of the fold while the log replays, and records the first error, for
  good, exactly when the strict fold rejects the log.
\<close>

theorem goal_projection_refines_fold:
  "case foldGoal es of
     Inr s \<Rightarrow> goalProjectionState s = Inr (foldGoalProjection es) \<and> pr_failure (foldGoalProjection es) = None
   | Inl err \<Rightarrow> (\<exists>seq. pr_failure (foldGoalProjection (es @ later)) = Some (seq, err))"
proof (cases "foldGoal es")
  case (Inl err)
  then obtain seq where f: "pr_failure (foldGoalProjection es) = Some (seq, err)"
    using foldGoalProjection_strict [of es] by auto
  then have "foldGoalProjection (es @ later) = foldGoalProjection es"
    using failed_projection_frozen [of "foldGoalProjection es" later] by (simp add: foldGoalProjection_def)
  then show ?thesis using Inl f by auto
next
  case (Inr s)
  then show ?thesis
    using foldGoalProjection_strict [of es] goalFoldState_projection [OF foldGoal_inv [OF Inr]] by simp
qed

text \<open>
  Claim C7. The service writes only what replay accepts: from a log that replays, any create, edit,
  pause, resume, complete, block or clear call either is refused and appends nothing, or appends one
  event carrying a change the strict fold applies.
\<close>

theorem goal_service_writes_replayable:
  assumes "foldGoal (ga_log a) = Inr s" "bounded a s"
    and "case call of Create_Goal uuid d ob r \<Rightarrow> ''goal-'' @ uuid \<notin> set (gs_seen s) | _ \<Rightarrow> True"
  shows "case goal_do call a of
     (b, Inl e) \<Rightarrow> ga_log b = ga_log a
   | (b, Inr u) \<Rightarrow> (\<exists>c s' e. applyGoalChange s c = Inr s' \<and> foldGoal (ga_log b) = Inr s' \<and>
       ga_log b = ga_log a @ [e] \<and> ev_data e = GoalChange (encode_change c))"
  using goal_do_ok [OF assms] by (auto simp: call_ok_def split: prod.splits sum.splits)

definition demo_agent :: goal_agent where
  "demo_agent = \<lparr>ga_log = goal_demo, ga_activation = Disarmed, ga_pending = None, ga_notes = [], ga_now = 9, ga_live = True\<rparr>"

theorem goal_service_writes_replayable_witness:
  "is_ok (snd (goal_do (Pause_Goal \<lparr>ref_id = ''goal-1'', ref_revision = 2\<rparr>) demo_agent)) \<and>
   is_ok (foldGoal (ga_log (fst (goal_do (Pause_Goal \<lparr>ref_id = ''goal-1'', ref_revision = 2\<rparr>) demo_agent))))"
proof -
  let ?c = "Pause_Goal \<lparr>ref_id = ''goal-1'', ref_revision = 2\<rparr>"
  have f: "foldGoal (ga_log demo_agent) = Inr goal_demo_state" using goal_demo_fold by (simp add: demo_agent_def)
  have b: "bounded demo_agent goal_demo_state"
    by (simp add: bounded_def demo_agent_def goal_demo_state_def g1_def safe_nonneg_def MAX_SAFE_INTEGER_def)
  have ok: "is_ok (snd (goal_do ?c demo_agent))" by code_simp
  then show ?thesis
    using goal_service_writes_replayable [OF f b, of ?c] by (auto simp: is_ok_def split: prod.splits sum.splits)
qed

text \<open>
  The projection of a log that replays satisfies the schema its checkpoints are parsed with
  exactly when the started rounds are within the current goal's limit; an accepted edit that lowers the
  limit breaks it, and the log then has no readable checkpoint.
\<close>

theorem goal_checkpoint_schema:
  assumes "foldGoal es = Inr s"
  shows "goalProjectionStateSchema (foldGoalProjection es) \<longleftrightarrow>
     (case gs_goal s of None \<Rightarrow> True | Some g \<Rightarrow> gs_rounds s \<le> g_maxRounds g)"
proof -
  have inv: "goal_inv s" using assms by (rule foldGoal_inv)
  have p: "Inr (foldGoalProjection es) = goalProjectionState s"
    using foldGoalProjection_strict [of es] assms by simp
  have "\<not> normalized []" by (simp add: normalized_def js_trim_def)
  then show ?thesis using inv p
    by (auto simp: goalProjectionState_def goalProjectionStateSchema_def goal_inv_def goal_wf_def list_all_iff
        safe_pos_def safe_nonneg_def split: option.splits)
qed

theorem goal_checkpoint_schema_witness:
  "is_ok (foldGoal goal_demo) \<and> \<not> goalProjectionStateSchema (foldGoalProjection goal_demo)"
  using goal_checkpoint_schema [OF goal_demo_fold] goal_demo_fold
  by (simp add: goal_demo_state_def g1_def)

end
