(* ===== verification/Projection_Registry.thy ===== *)
theory Projection_Registry
  imports Session_Events
begin

text \<open>
  The projection registry of one session (\<open>packages/session/session-projection/src/index.ts\<close>): the
  counted registrations, the watermark cells that \<open>drive\<close> and reads advance, and the restore of a
  checkpoint over a stored log suffix. A unit's \<open>init\<close>, \<open>apply\<close>, schemas and view are its own code and
  stay parameters; \<open>apply\<close> may throw. The change feed, which compares object references, is left out.
\<close>

section \<open>Units, cells and rows\<close>

datatype 'e registry_error =
    Bad_State_Version string
  | Version_Conflict string
  | Cannot_Restore_From string nat
  | Schema_Rejected string
  | Missing_Seq string nat
  | View_Rejected string
  | Unit_Error 'e

record ('h, 's, 'e, 'w) unit_def =
  ud_key :: string
  ud_schema :: "'s \<Rightarrow> bool"
  ud_init :: "'h \<Rightarrow> nat \<Rightarrow> 's"
  ud_apply :: "'s \<Rightarrow> event \<Rightarrow> ('e, 's) res"
  ud_wire :: "(('s \<Rightarrow> 'w) \<times> ('w \<Rightarrow> bool)) option"
  ud_version :: int

record 's unit_cell =
  cl_state :: 's
  cl_seq :: int

record ('h, 's, 'e, 'w) registration =
  rg_def :: "('h, 's, 'e, 'w) unit_def"
  rg_cell :: "'s unit_cell option"
  rg_refs :: nat

text \<open>The session a registry instance serves: its metadata and its in-memory log.\<close>

record ('h, 's, 'e, 'w) registry =
  rs_header :: 'h
  rs_inherited :: nat
  rs_log :: "event list"
  rs_units :: "(string, ('h, 's, 'e, 'w) registration) amap"

record 's checkpoint_row =
  row_ver :: int
  row_seq :: int
  row_val :: 's

type_synonym 's checkpoint = "(string, 's checkpoint_row) amap"

section \<open>Registration\<close>

definition registry_register ::
  "('h, 's, 'e, 'w) unit_def \<Rightarrow> (('h, 's, 'e, 'w) registry, 'e registry_error, unit) sx" where
  "registry_register d r =
     (if ud_version d < 0 \<or> MAX_SAFE_INTEGER < ud_version d then (r, Inl (Bad_State_Version (ud_key d)))
      else case amap_get (rs_units r) (ud_key d) of
        None \<Rightarrow> (r\<lparr>rs_units := amap_set (rs_units r) (ud_key d) \<lparr>rg_def = d, rg_cell = None, rg_refs = 1\<rparr>\<rparr>, Inr ())
      | Some g \<Rightarrow>
          if ud_version (rg_def g) \<noteq> ud_version d then (r, Inl (Version_Conflict (ud_key d)))
          else (r\<lparr>rs_units := amap_set (rs_units r) (ud_key d) (g\<lparr>rg_refs := rg_refs g + 1\<rparr>)\<rparr>, Inr ()))"

definition registry_release :: "string \<Rightarrow> ('h, 's, 'e, 'w) registry \<Rightarrow> ('h, 's, 'e, 'w) registry" where
  "registry_release k r = (case amap_get (rs_units r) k of
     None \<Rightarrow> r
   | Some g \<Rightarrow> if rg_refs g = 1 then r\<lparr>rs_units := amap_del (rs_units r) k\<rparr>
              else r\<lparr>rs_units := amap_set (rs_units r) k (g\<lparr>rg_refs := rg_refs g - 1\<rparr>)\<rparr>)"

section \<open>Cells\<close>

definition unit_fold :: "('h, 's, 'e, 'w) unit_def \<Rightarrow> 'h \<Rightarrow> nat \<Rightarrow> event list \<Rightarrow> ('e, 's) res" where
  "unit_fold d h n es = fold_res (ud_apply d) (ud_init d h n) es"

definition last_seq :: "event list \<Rightarrow> int \<Rightarrow> int" where
  "last_seq es d = (if es = [] then d else int (ev_seq (last es)))"

definition buildCell ::
  "('h, 's, 'e, 'w) unit_def \<Rightarrow> 'h \<Rightarrow> nat \<Rightarrow> event list \<Rightarrow> ('e registry_error, 's unit_cell) res" where
  "buildCell d h n es = (case unit_fold d h n es of
     Inl e \<Rightarrow> Inl (Unit_Error e)
   | Inr s \<Rightarrow> Inr \<lparr>cl_state = s, cl_seq = last_seq es (- 1)\<rparr>)"

text \<open>One cell through the listed sequences; an error leaves the earlier ones applied.\<close>

fun advance_seqs ::
  "('h, 's, 'e, 'w) unit_def \<Rightarrow> event list \<Rightarrow> nat list \<Rightarrow> 's unit_cell \<Rightarrow> 's unit_cell \<times> 'e registry_error option" where
  "advance_seqs d es [] c = (c, None)"
| "advance_seqs d es (q # qs) c =
     (if length es \<le> q \<or> ev_seq (es ! q) \<noteq> q then (c, Some (Missing_Seq (ud_key d) q))
      else case ud_apply d (cl_state c) (es ! q) of
        Inl e \<Rightarrow> (c, Some (Unit_Error e))
      | Inr s \<Rightarrow> advance_seqs d es qs \<lparr>cl_state = s, cl_seq = int q\<rparr>)"

definition advanceCell ::
  "('h, 's, 'e, 'w) unit_def \<Rightarrow> event list \<Rightarrow> int \<Rightarrow> 's unit_cell \<Rightarrow> 's unit_cell \<times> 'e registry_error option" where
  "advanceCell d es through c =
     (if through \<le> cl_seq c then (c, None) else advance_seqs d es [nat (cl_seq c + 1)..<nat (through + 1)] c)"

text \<open>The cell a read finds, built or advanced to the session cursor.\<close>

definition cellFor ::
  "('h, 's, 'e, 'w) registry \<Rightarrow> ('h, 's, 'e, 'w) registration
     \<Rightarrow> ('h, 's, 'e, 'w) registration \<times> 'e registry_error option" where
  "cellFor r g = (case rg_cell g of
     None \<Rightarrow> (case buildCell (rg_def g) (rs_header r) (rs_inherited r) (rs_log r) of
        Inl e \<Rightarrow> (g, Some e) | Inr c \<Rightarrow> (g\<lparr>rg_cell := Some c\<rparr>, None))
   | Some c \<Rightarrow> (let (c', e) = advanceCell (rg_def g) (rs_log r) (int (length (rs_log r)) - 1) c
               in (g\<lparr>rg_cell := Some c'\<rparr>, e)))"

text \<open>A loop over the registrations that stops at the first throw.\<close>

fun each_unit ::
  "('g \<Rightarrow> 'g \<times> 'x option) \<Rightarrow> (string, 'g) amap \<Rightarrow> (string, 'g) amap \<times> 'x option" where
  "each_unit f [] = ([], None)"
| "each_unit f ((k, g) # us) =
     (case f g of
        (g', Some e) \<Rightarrow> ((k, g') # us, Some e)
      | (g', None) \<Rightarrow> (let (us', e) = each_unit f us in ((k, g') # us', e)))"

definition materializeCells ::
  "('h, 's, 'e, 'w) registry \<Rightarrow> ('h, 's, 'e, 'w) registry \<times> 'e registry_error option" where
  "materializeCells r = (let (us, e) = each_unit (cellFor r) (rs_units r) in (r\<lparr>rs_units := us\<rparr>, e))"

definition stateOf ::
  "string \<Rightarrow> (('h, 's, 'e, 'w) registry, 'e registry_error, 's option) sx" where
  "stateOf k r =
     (if amap_get (rs_units r) k = None then (r, Inr None)
      else case materializeCells r of
        (r', Some e) \<Rightarrow> (r', Inl e)
      | (r', None) \<Rightarrow> (r', Inr (case amap_get (rs_units r') k of
            None \<Rightarrow> None | Some g \<Rightarrow> map_option cl_state (rg_cell g))))"

text \<open>The eager drive of one committed event: late units fold the history before it first.\<close>

definition drive_unit ::
  "('h, 's, 'e, 'w) registry \<Rightarrow> event \<Rightarrow> ('h, 's, 'e, 'w) registration
     \<Rightarrow> ('h, 's, 'e, 'w) registration \<times> 'e registry_error option" where
  "drive_unit r ev g =
     (if (case rg_cell g of None \<Rightarrow> False | Some c \<Rightarrow> int (ev_seq ev) \<le> cl_seq c) then (g, None)
      else let (g1, e1) = (case rg_cell g of
          None \<Rightarrow> (case buildCell (rg_def g) (rs_header r) (rs_inherited r) (take (ev_seq ev) (rs_log r)) of
             Inl e \<Rightarrow> (g, Some e) | Inr c \<Rightarrow> (g\<lparr>rg_cell := Some c\<rparr>, None))
        | Some c \<Rightarrow> (let (c', e) = advanceCell (rg_def g) (rs_log r) (int (ev_seq ev) - 1) c
                    in (g\<lparr>rg_cell := Some c'\<rparr>, e)))
      in case (e1, rg_cell g1) of
           (None, Some c) \<Rightarrow> (case ud_apply (rg_def g) (cl_state c) ev of
               Inl e \<Rightarrow> (g1, Some (Unit_Error e))
             | Inr s \<Rightarrow> (g1\<lparr>rg_cell := Some \<lparr>cl_state = s, cl_seq = int (ev_seq ev)\<rparr>\<rparr>, None))
         | _ \<Rightarrow> (g1, e1))"

definition drive ::
  "event \<Rightarrow> ('h, 's, 'e, 'w) registry \<Rightarrow> ('h, 's, 'e, 'w) registry \<times> 'e registry_error option" where
  "drive ev r = (let (us, e) = each_unit (drive_unit r ev) (rs_units r) in (r\<lparr>rs_units := us\<rparr>, e))"

text \<open>The listener of a new session: an empty one gets its initial cells.\<close>

definition on_created :: "('h, 's, 'e, 'w) registry \<Rightarrow> ('h, 's, 'e, 'w) registry" where
  "on_created r =
     (if rs_log r \<noteq> [] then r
      else r\<lparr>rs_units := map (\<lambda>(k, g). (k, if rg_cell g \<noteq> None then g else g\<lparr>rg_cell := Some
              \<lparr>cl_state = ud_init (rg_def g) (rs_header r) (rs_inherited r), cl_seq = - 1\<rparr>\<rparr>)) (rs_units r)\<rparr>)"

section \<open>Checkpoints\<close>

text \<open>\<open>checkpoint\<close> after its cells are current: one detached row per unit.\<close>

definition rows_of :: "(string, ('h, 's, 'e, 'w) registration) amap \<Rightarrow> 's checkpoint" where
  "rows_of us = List.map_filter (\<lambda>(k, g). map_option (\<lambda>c. (k, \<lparr>row_ver = ud_version (rg_def g),
     row_seq = cl_seq c, row_val = cl_state c\<rparr>)) (rg_cell g)) us"

definition registry_checkpoint ::
  "(('h, 's, 'e, 'w) registry, 'e registry_error, 's checkpoint) sx" where
  "registry_checkpoint r = (case materializeCells r of
     (r', Some e) \<Rightarrow> (r', Inl e) | (r', None) \<Rightarrow> (r', Inr (rows_of (rs_units r'))))"

definition row_need :: "'s checkpoint \<Rightarrow> ('h, 's, 'e, 'w) unit_def \<Rightarrow> int" where
  "row_need ck d = (case amap_get ck (ud_key d) of
     Some row \<Rightarrow> if row_ver row = ud_version d then max (row_seq row + 1) 0 else 0
   | None \<Rightarrow> 0)"

definition restoreFloor :: "('h, 's, 'e, 'w) unit_def list \<Rightarrow> 's checkpoint \<Rightarrow> nat option" where
  "restoreFloor ds ck = (case map (row_need ck) ds of
     [] \<Rightarrow> None
   | n # ns \<Rightarrow> Some (nat (max (foldl min n ns - 1) 0)))"

definition view_value :: "('h, 's, 'e, 'w) unit_def \<Rightarrow> 's \<Rightarrow> ('e registry_error, 'w option) res" where
  "view_value d s = (case ud_wire d of
     None \<Rightarrow> Inr None
   | Some (view, ok) \<Rightarrow> if ok (view s) then Inr (Some (view s)) else Inl (View_Rejected (ud_key d)))"

text \<open>Reading stored rows without the log: mismatched, malformed or absent rows are skipped.\<close>

fun viewCheckpoint ::
  "('h, 's, 'e, 'w) unit_def list \<Rightarrow> 's checkpoint \<Rightarrow> ('e registry_error, (string \<times> 'w) list) res" where
  "viewCheckpoint [] ck = Inr []"
| "viewCheckpoint (d # ds) ck =
     (case (ud_wire d, amap_get ck (ud_key d)) of
        (Some w, Some row) \<Rightarrow>
          if row_ver row \<noteq> ud_version d \<or> \<not> ud_schema d (row_val row) then viewCheckpoint ds ck
          else rbind (view_value d (row_val row)) (\<lambda>v. rbind (viewCheckpoint ds ck) (\<lambda>vs.
                 Inr ((case v of None \<Rightarrow> [] | Some x \<Rightarrow> [(ud_key d, x)]) @ vs)))
      | _ \<Rightarrow> viewCheckpoint ds ck)"

fun replay_tail ::
  "('h, 's, 'e, 'w) unit_def \<Rightarrow> nat \<Rightarrow> event list \<Rightarrow> 's \<Rightarrow> ('e registry_error, 's) res" where
  "replay_tail d expected [] s = Inr s"
| "replay_tail d expected (e # es) s =
     (if ev_seq e \<noteq> expected then Inl (Missing_Seq (ud_key d) expected)
      else case ud_apply d s e of
        Inl x \<Rightarrow> Inl (Unit_Error x)
      | Inr s' \<Rightarrow> replay_tail d (Suc expected) es s')"

definition row_usable :: "('h, 's, 'e, 'w) unit_def \<Rightarrow> 's checkpoint_row option \<Rightarrow> int \<Rightarrow> int \<Rightarrow> bool" where
  "row_usable d row beforeBase endSeq = (case row of
     None \<Rightarrow> False
   | Some w \<Rightarrow> row_ver w = ud_version d \<and> beforeBase \<le> row_seq w \<and> row_seq w \<le> endSeq)"

definition restore_unit ::
  "'h \<Rightarrow> nat \<Rightarrow> 's checkpoint \<Rightarrow> event list \<Rightarrow> nat \<Rightarrow> ('h, 's, 'e, 'w) unit_def \<Rightarrow> ('e registry_error, 's) res" where
  "restore_unit h inherited ck events baseSeq d =
     (let beforeBase = int baseSeq - 1;
          endSeq = last_seq events beforeBase;
          row = amap_get ck (ud_key d);
          usable = row_usable d row beforeBase endSeq
      in if \<not> usable \<and> 0 < baseSeq then Inl (Cannot_Restore_From (ud_key d) baseSeq)
         else rbind (if usable then (if ud_schema d (row_val (the row)) then Inr (row_val (the row))
                                     else Inl (Schema_Rejected (ud_key d)))
                     else Inr (ud_init d h inherited)) (\<lambda>s.
              let start = nat ((if usable then row_seq (the row) else beforeBase) - int baseSeq + 1)
              in replay_tail d (baseSeq + start) (drop start events) s))"

fun restore_units ::
  "'h \<Rightarrow> nat \<Rightarrow> 's checkpoint \<Rightarrow> event list \<Rightarrow> nat \<Rightarrow> ('h, 's, 'e, 'w) unit_def list
     \<Rightarrow> ('e registry_error, (string \<times> 's \<times> 'w option) list) res" where
  "restore_units h inherited ck events baseSeq [] = Inr []"
| "restore_units h inherited ck events baseSeq (d # ds) =
     rbind (restore_unit h inherited ck events baseSeq d) (\<lambda>s.
     rbind (view_value d s) (\<lambda>v.
     rbind (restore_units h inherited ck events baseSeq ds) (\<lambda>rest.
     Inr ((ud_key d, s, v) # rest))))"

text \<open>The cut, the client values and the refreshed rows at that cut.\<close>

definition registry_restore ::
  "'h \<Rightarrow> nat \<Rightarrow> 's checkpoint \<Rightarrow> event list \<Rightarrow> nat \<Rightarrow> ('h, 's, 'e, 'w) unit_def list
     \<Rightarrow> ('e registry_error, int \<times> (string \<times> 's \<times> 'w option) list \<times> 's checkpoint) res" where
  "registry_restore h inherited ck events baseSeq ds =
     (let endSeq = last_seq events (int baseSeq - 1) in
      rbind (restore_units h inherited ck events baseSeq ds) (\<lambda>vs.
        Inr (endSeq, vs, map2 (\<lambda>d (k, s, v). (k, \<lparr>row_ver = ud_version d, row_seq = endSeq, row_val = s\<rparr>)) ds vs)))"

text \<open>The client values of materialised cells, in registration order.\<close>

fun cell_values ::
  "(string, ('h, 's, 'e, 'w) registration) amap \<Rightarrow> ('e registry_error, (string \<times> 'w) list) res" where
  "cell_values [] = Inr []"
| "cell_values ((k, g) # us) = (case rg_cell g of
     None \<Rightarrow> cell_values us
   | Some c \<Rightarrow> rbind (view_value (rg_def g) (cl_state c)) (\<lambda>v. rbind (cell_values us) (\<lambda>vs.
       Inr ((case v of None \<Rightarrow> [] | Some x \<Rightarrow> [(k, x)]) @ vs))))"

definition restored_values :: "(string \<times> 's \<times> 'w option) list \<Rightarrow> (string \<times> 'w) list" where
  "restored_values vs = List.map_filter (\<lambda>(k, s, v). map_option (Pair k) v) vs"

definition install_row ::
  "'s checkpoint \<Rightarrow> ('h, 's, 'e, 'w) registration \<Rightarrow> ('h, 's, 'e, 'w) registration" where
  "install_row rows g = (case amap_get rows (ud_key (rg_def g)) of
     None \<Rightarrow> g
   | Some row \<Rightarrow>
       if (case rg_cell g of None \<Rightarrow> False | Some c \<Rightarrow> row_seq row < cl_seq c) then g
       else g\<lparr>rg_cell := Some \<lparr>cl_state = row_val row, cl_seq = row_seq row\<rparr>\<rparr>)"

definition hydrate ::
  "'s checkpoint \<Rightarrow> event list \<Rightarrow> nat
     \<Rightarrow> (('h, 's, 'e, 'w) registry, 'e registry_error, int \<times> (string \<times> 'w) list) sx" where
  "hydrate ck events baseSeq r =
     (let endSeq = last_seq events (int baseSeq - 1) in
      if list_all (\<lambda>(k, g). map_option cl_seq (rg_cell g) = Some endSeq) (rs_units r)
      then (r, rbind (cell_values (rs_units r)) (\<lambda>vs. Inr (endSeq, vs)))
      else case registry_restore (rs_header r) (rs_inherited r) ck events baseSeq (map (rg_def \<circ> snd) (rs_units r)) of
        Inl e \<Rightarrow> (r, Inl e)
      | Inr (asOf, vs, rows) \<Rightarrow>
          (r\<lparr>rs_units := map (\<lambda>(k, g). (k, install_row rows g)) (rs_units r)\<rparr>,
           Inr (asOf, restored_values vs)))"

section \<open>A session served by the registry\<close>

datatype ('h, 's, 'e, 'w) registry_op =
    Register_Unit "('h, 's, 'e, 'w) unit_def"
  | Release_Unit string
  | Session_Created
  | Commit nat payload   \<comment> \<open>an event enters the log and is driven\<close>
  | Read_State string
  | Take_Checkpoint

definition log_event :: "nat \<Rightarrow> nat \<Rightarrow> payload \<Rightarrow> event" where
  "log_event seq t p = \<lparr>ev_seq = seq, ev_time = t, ev_data = p, ev_place = None, ev_sources = None\<rparr>"

fun registry_step :: "('h, 's, 'e, 'w) registry \<Rightarrow> ('h, 's, 'e, 'w) registry_op \<Rightarrow> ('h, 's, 'e, 'w) registry" where
  "registry_step r (Register_Unit d) = fst (registry_register d r)"
| "registry_step r (Release_Unit k) = registry_release k r"
| "registry_step r Session_Created = on_created r"
| "registry_step r (Commit t p) =
     (let ev = log_event (length (rs_log r)) t p in fst (drive ev (r\<lparr>rs_log := rs_log r @ [ev]\<rparr>)))"
| "registry_step r (Read_State k) = fst (stateOf k r)"
| "registry_step r Take_Checkpoint = fst (registry_checkpoint r)"

definition registry_run :: "'h \<Rightarrow> nat \<Rightarrow> ('h, 's, 'e, 'w) registry_op list \<Rightarrow> ('h, 's, 'e, 'w) registry" where
  "registry_run h n ops = foldl registry_step \<lparr>rs_header = h, rs_inherited = n, rs_log = [], rs_units = []\<rparr> ops"

end
