(* ===== verification/Registry_Laws.thy ===== *)
theory Registry_Laws
  imports Projection_Registry
begin

text \<open>
  What the registry's readers rely on: cells are watermarked folds of the log, so a read is the fold of
  the whole log; and a restore from honest rows over a tail read from the floor is the same fold.
\<close>

section \<open>Cells are folds of a log prefix\<close>

definition cell_at ::
  "('h, 's, 'e, 'w) unit_def \<Rightarrow> 'h \<Rightarrow> nat \<Rightarrow> event list \<Rightarrow> nat \<Rightarrow> 's unit_cell \<Rightarrow> bool" where
  "cell_at d h i es n c = (n \<le> length es \<and> cl_seq c = int n - 1 \<and> unit_fold d h i (take n es) = Inr (cl_state c))"

definition cell_ok :: "'h \<Rightarrow> nat \<Rightarrow> event list \<Rightarrow> ('h, 's, 'e, 'w) registration \<Rightarrow> bool" where
  "cell_ok h i es g = (\<forall>c. rg_cell g = Some c \<longrightarrow> (\<exists>n. cell_at (rg_def g) h i es n c))"

definition registry_ok :: "('h, 's, 'e, 'w) registry \<Rightarrow> bool" where
  "registry_ok r = (contiguous (rs_log r) \<and> amap_wf (rs_units r) \<and>
     (\<forall>(k, g) \<in> set (rs_units r). ud_key (rg_def g) = k \<and> cell_ok (rs_header r) (rs_inherited r) (rs_log r) g))"

lemma unit_fold_take_Suc:
  "n < length es \<Longrightarrow> unit_fold d h i (take (Suc n) es) =
     (case unit_fold d h i (take n es) of Inl e \<Rightarrow> Inl e | Inr s \<Rightarrow> ud_apply d s (es ! n))"
  by (simp add: unit_fold_def take_Suc_conv_app_nth fold_res_snoc)

lemma unit_fold_prefix_error:
  "unit_fold d h i (take n es) = Inl e \<Longrightarrow> n \<le> m \<Longrightarrow> unit_fold d h i (take m es) = Inl e"
proof -
  assume a: "unit_fold d h i (take n es) = Inl e" "n \<le> m"
  have "take m es = take n es @ drop n (take m es)" using a(2) by (metis append_take_drop_id min.absorb1 take_take)
  then show ?thesis using a(1) by (metis fold_res_append sum.simps(5) unit_fold_def)
qed

lemma advance_seqs_ok:
  assumes "contiguous es" "cell_at d h i es n c" "n \<le> m" "m \<le> length es"
    and "advance_seqs d es [n..<m] c = (c', e)"
  shows "\<exists>n'. n \<le> n' \<and> n' \<le> m \<and> cell_at d h i es n' c' \<and>
     (case e of None \<Rightarrow> n' = m | Some x \<Rightarrow> \<exists>u. x = Unit_Error u \<and> unit_fold d h i (take m es) = Inl u)"
  using assms
proof (induction "m - n" arbitrary: n c)
  case 0
  then show ?case by auto
next
  case (Suc k)
  then have nm: "n < m" "n < length es" by auto
  then have seq: "ev_seq (es ! n) = n" using Suc.prems(1) contiguous_nth by blast
  have upt: "[n..<m] = n # [Suc n..<m]" using nm by (simp add: upt_conv_Cons)
  have f: "unit_fold d h i (take n es) = Inr (cl_state c)" using Suc.prems(2) by (simp add: cell_at_def)
  show ?case
  proof (cases "ud_apply d (cl_state c) (es ! n)")
    case (Inl u)
    then have "unit_fold d h i (take (Suc n) es) = Inl u" using unit_fold_take_Suc [OF nm(2), of d h i] f Inl by simp
    then have "unit_fold d h i (take m es) = Inl u" using unit_fold_prefix_error nm(1) by (metis Suc_leI)
    then show ?thesis using Suc.prems(2,5) Inl upt nm seq by (intro exI [of _ n]) auto
  next
    case (Inr s)
    let ?c = "\<lparr>cl_state = s, cl_seq = int n\<rparr>"
    have "cell_at d h i es (Suc n) ?c" using unit_fold_take_Suc [OF nm(2), of d h i] f Inr nm by (simp add: cell_at_def)
    moreover have "advance_seqs d es [Suc n..<m] ?c = (c', e)" using Suc.prems(5) Inr upt nm seq by simp
    note calculation = calculation this
    obtain n' where "Suc n \<le> n'" "n' \<le> m" "cell_at d h i es n' c'"
      "case e of None \<Rightarrow> n' = m | Some x \<Rightarrow> \<exists>u. x = Unit_Error u \<and> unit_fold d h i (take m es) = Inl u"
    proof -
      have k: "k = m - Suc n" using Suc.hyps(2) by simp
      show thesis using Suc.hyps(1) [OF k Suc.prems(1) calculation(1) _ Suc.prems(4) calculation(2)] nm that by auto
    qed
    then show ?thesis by (intro exI [of _ n']) auto
  qed
qed

lemma advanceCell_ok:
  assumes "contiguous es" "cell_at d h i es n c" "m \<le> length es" "advanceCell d es (int m - 1) c = (c', e)"
  shows "\<exists>n'. cell_at d h i es n' c' \<and>
     (case e of None \<Rightarrow> n' = max n m | Some x \<Rightarrow> \<exists>u. x = Unit_Error u \<and> unit_fold d h i (take m es) = Inl u)"
proof (cases "m \<le> n")
  case True
  then have "advanceCell d es (int m - 1) c = (c, None)"
    using assms(2) by (simp add: advanceCell_def cell_at_def)
  then show ?thesis using assms(2,4) True by (intro exI [of _ n]) auto
next
  case False
  have "nat (cl_seq c + 1) = n" "\<not> int m - 1 \<le> cl_seq c" using assms(2) False by (auto simp: cell_at_def)
  then have "advance_seqs d es [n..<m] c = (c', e)" using assms(4) by (simp add: advanceCell_def)
  from advance_seqs_ok [OF assms(1,2) _ assms(3) this] False show ?thesis
    by (auto split: option.splits)
qed

lemma buildCell_ok:
  assumes "contiguous es" "n \<le> length es"
  shows "(\<exists>c. buildCell d h i (take n es) = Inr c \<and> cell_at d h i es n c) \<or>
     (\<exists>u. buildCell d h i (take n es) = Inl (Unit_Error u) \<and> unit_fold d h i (take n es) = Inl u)"
proof -
  have "last_seq (take n es) (- 1) = int n - 1"
  proof (cases "n = 0 \<or> es = []")
    case False
    then have "take n es \<noteq> []" "last (take n es) = es ! (n - 1)"
      using assms(2) by (auto simp: last_conv_nth min_def)
    then show ?thesis using contiguous_nth [OF assms(1), of "n - 1"] False assms(2)
      by (auto simp: last_seq_def)
  qed (use assms(2) in \<open>auto simp: last_seq_def\<close>)
  then show ?thesis using assms(2)
    by (cases "unit_fold d h i (take n es)") (auto simp: buildCell_def cell_at_def)
qed

lemma cellFor_ok:
  assumes "contiguous (rs_log r)" "cell_ok (rs_header r) (rs_inherited r) (rs_log r) g" "cellFor r g = (g', e)"
  shows "rg_def g' = rg_def g" "rg_refs g' = rg_refs g" "cell_ok (rs_header r) (rs_inherited r) (rs_log r) g'"
    "case e of
       None \<Rightarrow> \<exists>c. rg_cell g' = Some c \<and> unit_fold (rg_def g) (rs_header r) (rs_inherited r) (rs_log r) = Inr (cl_state c)
     | Some x \<Rightarrow> \<exists>u. x = Unit_Error u \<and> unit_fold (rg_def g) (rs_header r) (rs_inherited r) (rs_log r) = Inl u"
proof -
  let ?d = "rg_def g" let ?h = "rs_header r" let ?i = "rs_inherited r" let ?es = "rs_log r"
  have "rg_def g' = rg_def g \<and> rg_refs g' = rg_refs g \<and> cell_ok ?h ?i ?es g' \<and> (case e of
       None \<Rightarrow> \<exists>c. rg_cell g' = Some c \<and> unit_fold ?d ?h ?i ?es = Inr (cl_state c)
     | Some x \<Rightarrow> \<exists>u. x = Unit_Error u \<and> unit_fold ?d ?h ?i ?es = Inl u)"
  proof (cases "rg_cell g")
    case None
    from buildCell_ok [OF assms(1) order_refl, of ?d ?h ?i] show ?thesis
      using assms(2,3) None by (auto simp: cellFor_def cell_ok_def cell_at_def)
  next
    case (Some c)
    then obtain n where n: "cell_at ?d ?h ?i ?es n c" using assms(2) by (auto simp: cell_ok_def)
    obtain c' e' where a: "advanceCell ?d ?es (int (length ?es) - 1) c = (c', e')" by force
    from advanceCell_ok [OF assms(1) n order_refl a] obtain n' where n': "cell_at ?d ?h ?i ?es n' c'"
      "case e' of None \<Rightarrow> n' = max n (length ?es)
        | Some x \<Rightarrow> \<exists>u. x = Unit_Error u \<and> unit_fold ?d ?h ?i (take (length ?es) ?es) = Inl u" by blast
    have g': "g' = g\<lparr>rg_cell := Some c'\<rparr>" "e = e'" using assms(3) Some a by (auto simp: cellFor_def)
    have "cell_ok ?h ?i ?es g'" using n'(1) g' by (auto simp: cell_ok_def)
    moreover have "n \<le> length ?es" using n by (simp add: cell_at_def)
    ultimately show ?thesis using n' g' by (auto simp: cell_at_def split: option.splits)
  qed
  then show "rg_def g' = rg_def g" "rg_refs g' = rg_refs g" "cell_ok ?h ?i ?es g'" "case e of
       None \<Rightarrow> \<exists>c. rg_cell g' = Some c \<and> unit_fold ?d ?h ?i ?es = Inr (cl_state c)
     | Some x \<Rightarrow> \<exists>u. x = Unit_Error u \<and> unit_fold ?d ?h ?i ?es = Inl u" by auto
qed

section \<open>Loops over the units\<close>

lemma each_unit_keys: "map fst (fst (each_unit f us)) = map fst us"
  by (induction f us rule: each_unit.induct) (auto split: prod.splits option.splits)

lemma each_unit_set:
  assumes "(k, g') \<in> set (fst (each_unit f us))"
  shows "\<exists>g. (k, g) \<in> set us \<and> (g' = g \<or> g' = fst (f g))"
  using assms
proof (induction f us rule: each_unit.induct)
  case (2 f k0 g us)
  obtain g1 e1 where f: "f g = (g1, e1)" by force
  show ?case
  proof (cases e1)
    case (Some x)
    then show ?thesis using 2(2) f by auto
  next
    case None
    then show ?thesis using 2(1) [OF f [unfolded None, symmetric]] 2(2) f
      by (auto simp: Let_def split: prod.splits)
  qed
qed simp

lemma each_unit_done:
  assumes "each_unit f us = (us', None)" "(k, g) \<in> set us"
  shows "\<exists>g'. f g = (g', None) \<and> (k, g') \<in> set us'"
  using assms
proof (induction f us arbitrary: us' rule: each_unit.induct)
  case (2 f k0 g0 us)
  then show ?case by (auto split: prod.splits option.splits)
qed simp

lemma each_unit_failed:
  assumes "each_unit f us = (us', Some e)"
  shows "\<exists>k g g'. (k, g) \<in> set us \<and> f g = (g', Some e)"
  using assms
proof (induction f us arbitrary: us' rule: each_unit.induct)
  case (2 f k0 g0 us)
  then show ?case by (auto split: prod.splits option.splits)
qed simp

lemma amap_wf_fst: "map fst us' = map fst us \<Longrightarrow> amap_wf us' = amap_wf us"
  by (simp add: amap_wf_def)

lemma amap_get_iff: "amap_wf us \<Longrightarrow> amap_get us k = Some g \<longleftrightarrow> (k, g) \<in> set us"
  by (simp add: amap_get_def amap_wf_def)

lemma each_unit_registry_ok:
  assumes "registry_ok r"
    and "\<And>k g. (k, g) \<in> set (rs_units r) \<Longrightarrow> rg_def (fst (f g)) = rg_def g \<and>
           cell_ok (rs_header r) (rs_inherited r) (rs_log r) (fst (f g))"
  shows "registry_ok (r\<lparr>rs_units := fst (each_unit f (rs_units r))\<rparr>)"
proof -
  have "ud_key (rg_def g') = k \<and> cell_ok (rs_header r) (rs_inherited r) (rs_log r) g'"
    if "(k, g') \<in> set (fst (each_unit f (rs_units r)))" for k g'
    using each_unit_set [OF that] assms by (auto simp: registry_ok_def)
  then show ?thesis using assms(1) amap_wf_fst [OF each_unit_keys] by (auto simp: registry_ok_def)
qed

lemma materialize_ok:
  assumes "registry_ok r" "materializeCells r = (r', e)"
  shows "registry_ok r'" "rs_log r' = rs_log r" "rs_header r' = rs_header r" "rs_inherited r' = rs_inherited r"
proof -
  have r': "r' = r\<lparr>rs_units := fst (each_unit (cellFor r) (rs_units r))\<rparr>"
    using assms(2) by (auto simp: materializeCells_def split: prod.splits)
  have "rg_def (fst (cellFor r g)) = rg_def g \<and> cell_ok (rs_header r) (rs_inherited r) (rs_log r) (fst (cellFor r g))"
    if "(k, g) \<in> set (rs_units r)" for k g
    using cellFor_ok(1,3) [of r g "fst (cellFor r g)" "snd (cellFor r g)"] that assms(1)
    by (auto simp: registry_ok_def)
  then show "registry_ok r'" unfolding r' using each_unit_registry_ok [OF assms(1)] by blast
  show "rs_log r' = rs_log r" "rs_header r' = rs_header r" "rs_inherited r' = rs_inherited r"
    unfolding r' by simp_all
qed

lemma stateOf_ok:
  assumes ok: "registry_ok r" and g: "amap_get (rs_units r) k = Some g"
  shows "case snd (stateOf k r) of
      Inr v \<Rightarrow> \<exists>s. v = Some s \<and> unit_fold (rg_def g) (rs_header r) (rs_inherited r) (rs_log r) = Inr s
    | Inl x \<Rightarrow> \<exists>k' g' u. amap_get (rs_units r) k' = Some g' \<and> x = Unit_Error u \<and>
        unit_fold (rg_def g') (rs_header r) (rs_inherited r) (rs_log r) = Inl u"
proof -
  have wf: "amap_wf (rs_units r)" and cont: "contiguous (rs_log r)"
    and cells: "\<And>k g. (k, g) \<in> set (rs_units r) \<Longrightarrow> cell_ok (rs_header r) (rs_inherited r) (rs_log r) g"
    using ok by (auto simp: registry_ok_def)
  obtain us' e where u: "each_unit (cellFor r) (rs_units r) = (us', e)" by force
  show ?thesis
  proof (cases e)
    case (Some x)
    from each_unit_failed [OF u [unfolded Some]] obtain k' g' g2 where
      f: "(k', g') \<in> set (rs_units r)" "cellFor r g' = (g2, Some x)" by blast
    have "\<exists>u. x = Unit_Error u \<and> unit_fold (rg_def g') (rs_header r) (rs_inherited r) (rs_log r) = Inl u"
      using cellFor_ok(4) [OF cont cells [OF f(1)] f(2)] by simp
    then show ?thesis using f(1) wf u Some g
      by (auto simp: stateOf_def materializeCells_def amap_get_iff intro: exI)
  next
    case None
    have "(k, g) \<in> set (rs_units r)" using g wf by (simp add: amap_get_iff)
    from each_unit_done [OF u [unfolded None] this] obtain g' where
      g': "cellFor r g = (g', None)" "(k, g') \<in> set us'" by blast
    have "amap_wf us'" using wf each_unit_keys [of "cellFor r" "rs_units r"] u by (simp add: amap_wf_def)
    then have "amap_get us' k = Some g'" using g'(2) by (simp add: amap_get_iff)
    moreover obtain c where "rg_cell g' = Some c"
      "unit_fold (rg_def g) (rs_header r) (rs_inherited r) (rs_log r) = Inr (cl_state c)"
      using cellFor_ok(4) [OF cont cells g'(1)] \<open>(k, g) \<in> set (rs_units r)\<close> by auto
    ultimately show ?thesis using u None g by (simp add: stateOf_def materializeCells_def)
  qed
qed

section \<open>Every step keeps the cells folds\<close>

lemma cell_ok_append: "cell_ok h i es g \<Longrightarrow> cell_ok h i (es @ fs) g"
  by (fastforce simp: cell_ok_def cell_at_def)

lemma cell_ok_Some: "cell_at (rg_def g) h i es n c \<Longrightarrow> cell_ok h i es (g\<lparr>rg_cell := Some c\<rparr>)"
  by (auto simp: cell_ok_def)

lemma cell_ok_None: "rg_cell g = None \<Longrightarrow> cell_ok h i es g"
  by (simp add: cell_ok_def)

lemma drive_unit_ok:
  assumes "contiguous (rs_log r)" "rs_log r = es @ [ev]" "cell_ok (rs_header r) (rs_inherited r) (rs_log r) g"
  shows "rg_def (fst (drive_unit r ev g)) = rg_def g \<and>
     cell_ok (rs_header r) (rs_inherited r) (rs_log r) (fst (drive_unit r ev g))"
proof -
  let ?d = "rg_def g" let ?h = "rs_header r" let ?i = "rs_inherited r" let ?es = "rs_log r"
  have q: "ev_seq ev = length es" using contiguous_nth [OF assms(1), of "length es"] assms(2) by simp
  have fin: "cell_ok ?h ?i ?es (g\<lparr>rg_cell := Some \<lparr>cl_state = s, cl_seq = int (ev_seq ev)\<rparr>\<rparr>)"
    if "cell_at ?d ?h ?i ?es (length es) c" "ud_apply ?d (cl_state c) ev = Inr s" for c s
  proof (rule cell_ok_Some [where n = "length ?es"])
    show "cell_at ?d ?h ?i ?es (length ?es) \<lparr>cl_state = s, cl_seq = int (ev_seq ev)\<rparr>"
      using that unit_fold_take_Suc [of "length es" ?es ?d ?h ?i] assms(2) q by (simp add: cell_at_def)
  qed
  show ?thesis
  proof (cases "rg_cell g")
    case None
    from buildCell_ok [OF assms(1), of "length es" ?d ?h ?i] assms(2) show ?thesis
      using None assms(3) fin q cell_ok_Some [of g ?h ?i ?es "length es"]
      by (auto simp: drive_unit_def split: sum.splits)
  next
    case (Some c)
    then obtain n where n: "cell_at ?d ?h ?i ?es n c" using assms(3) by (auto simp: cell_ok_def)
    show ?thesis
    proof (cases "int (ev_seq ev) \<le> cl_seq c")
      case True
      then show ?thesis using Some assms(3) by (simp add: drive_unit_def)
    next
      case False
      then have le: "n \<le> length es" using n q by (auto simp: cell_at_def)
      obtain c' e' where a: "advanceCell ?d ?es (int (length es) - 1) c = (c', e')" by force
      have "length es \<le> length ?es" using assms(2) by simp
      from advanceCell_ok [OF assms(1) n this a] obtain n' where n': "cell_at ?d ?h ?i ?es n' c'"
        "case e' of None \<Rightarrow> n' = max n (length es) | Some x \<Rightarrow> \<exists>u. x = Unit_Error u \<and> unit_fold ?d ?h ?i (take (length es) ?es) = Inl u"
        by blast
      show ?thesis
      proof (cases e')
        case (Some x)
        then show ?thesis using \<open>rg_cell g = Some c\<close> False a cell_ok_Some [OF n'(1)] q
          by (auto simp: drive_unit_def)
      next
        case None
        then have "cell_at ?d ?h ?i ?es (length es) c'" using n' le by simp
        from fin [OF this] cell_ok_Some [OF this] show ?thesis using \<open>rg_cell g = Some c\<close> False a None q
          by (auto simp: drive_unit_def split: sum.splits)
      qed
    qed
  qed
qed

lemma registry_ok_units:
  assumes "registry_ok r" "amap_wf us"
    and "\<And>k g. (k, g) \<in> set us \<Longrightarrow> ud_key (rg_def g) = k \<and> cell_ok (rs_header r) (rs_inherited r) (rs_log r) g"
  shows "registry_ok (r\<lparr>rs_units := us\<rparr>)"
  using assms by (auto simp: registry_ok_def)

lemma set_amap_set: "(k, g) \<in> set (amap_set us k' g') \<Longrightarrow> (k, g) = (k', g') \<or> (k, g) \<in> set us"
  by (induction us k' g' rule: amap_set.induct) (auto split: if_splits)

lemma set_amap_del: "(k, g) \<in> set (amap_del us k') \<Longrightarrow> (k, g) \<in> set us"
  by (auto simp: amap_del_def)

lemma registry_ok_set:
  assumes "registry_ok r" "ud_key (rg_def g) = k" "cell_ok (rs_header r) (rs_inherited r) (rs_log r) g"
  shows "registry_ok (r\<lparr>rs_units := amap_set (rs_units r) k g\<rparr>)"
proof (rule registry_ok_units [OF assms(1)])
  show "amap_wf (amap_set (rs_units r) k g)" using assms(1) by (simp add: registry_ok_def)
  fix k' g' assume "(k', g') \<in> set (amap_set (rs_units r) k g)"
  then show "ud_key (rg_def g') = k' \<and> cell_ok (rs_header r) (rs_inherited r) (rs_log r) g'"
    using set_amap_set [of k' g' "rs_units r" k g] assms by (auto simp: registry_ok_def)
qed

lemma registry_ok_get:
  assumes "registry_ok r" "amap_get (rs_units r) k = Some g"
  shows "ud_key (rg_def g) = k \<and> cell_ok (rs_header r) (rs_inherited r) (rs_log r) g"
  using assms by (auto simp: registry_ok_def amap_get_iff)

lemma cell_ok_refs [simp]: "cell_ok h i es (g\<lparr>rg_refs := n\<rparr>) = cell_ok h i es g"
  by (simp add: cell_ok_def)

lemma step_register: "registry_ok r \<Longrightarrow> registry_ok (fst (registry_register d r))"
  using registry_ok_get [of r "ud_key d"]
  by (auto simp: registry_register_def cell_ok_None split: option.splits intro!: registry_ok_set)

lemma step_release:
  assumes "registry_ok r" shows "registry_ok (registry_release k r)"
proof -
  have "registry_ok (r\<lparr>rs_units := amap_del (rs_units r) k\<rparr>)"
  proof (rule registry_ok_units [OF assms])
    show "amap_wf (amap_del (rs_units r) k)" using assms by (simp add: registry_ok_def)
  qed (use assms in \<open>auto simp: registry_ok_def dest!: set_amap_del\<close>)
  then show ?thesis
    using registry_ok_get [OF assms, of k]
    by (auto simp: registry_release_def assms split: option.splits intro!: registry_ok_set)
qed

lemma step_created:
  assumes "registry_ok r" shows "registry_ok (on_created r)"
proof (cases "rs_log r = []")
  case True
  let ?f = "\<lambda>g. if rg_cell g \<noteq> None then g else g\<lparr>rg_cell := Some
              \<lparr>cl_state = ud_init (rg_def g) (rs_header r) (rs_inherited r), cl_seq = - 1\<rparr>\<rparr>"
  have "registry_ok (r\<lparr>rs_units := map (\<lambda>(k, g). (k, ?f g)) (rs_units r)\<rparr>)"
  proof (rule registry_ok_units [OF assms])
    show "amap_wf (map (\<lambda>(k, g). (k, ?f g)) (rs_units r))"
      using assms by (simp add: registry_ok_def amap_wf_def case_prod_unfold comp_def)
    fix k g' assume "(k, g') \<in> set (map (\<lambda>(k, g). (k, ?f g)) (rs_units r))"
    then obtain g where g: "(k, g) \<in> set (rs_units r)" "g' = ?f g" by auto
    have ok: "ud_key (rg_def g) = k \<and> cell_ok (rs_header r) (rs_inherited r) (rs_log r) g"
      using assms g(1) by (auto simp: registry_ok_def)
    have "cell_at (rg_def g) (rs_header r) (rs_inherited r) (rs_log r) 0
        \<lparr>cl_state = ud_init (rg_def g) (rs_header r) (rs_inherited r), cl_seq = - 1\<rparr>"
      by (simp add: cell_at_def unit_fold_def)
    from cell_ok_Some [OF this] ok
    show "ud_key (rg_def g') = k \<and> cell_ok (rs_header r) (rs_inherited r) (rs_log r) g'"
      by (cases "rg_cell g") (simp_all add: g(2))
  qed
  then show ?thesis using True by (simp add: on_created_def case_prod_unfold)
qed (simp add: on_created_def assms)

lemma step_commit:
  assumes "registry_ok r" shows "registry_ok (registry_step r (Commit t p))"
proof -
  let ?ev = "log_event (length (rs_log r)) t p"
  let ?r = "r\<lparr>rs_log := rs_log r @ [?ev]\<rparr>"
  have ok: "registry_ok ?r"
    using assms by (auto simp: registry_ok_def contiguous_from_append log_event_def intro: cell_ok_append)
  have u: "rg_def (fst (drive_unit ?r ?ev g)) = rg_def g \<and>
      cell_ok (rs_header ?r) (rs_inherited ?r) (rs_log ?r) (fst (drive_unit ?r ?ev g))"
    if "(k, g) \<in> set (rs_units ?r)" for k g
    by (rule drive_unit_ok [where es = "rs_log r"]) (use ok that in \<open>auto simp: registry_ok_def\<close>)
  have "registry_ok (?r\<lparr>rs_units := fst (each_unit (drive_unit ?r ?ev) (rs_units ?r))\<rparr>)"
    by (rule each_unit_registry_ok [OF ok]) (use u in blast)
  then show ?thesis by (simp add: drive_def Let_def case_prod_unfold)
qed

lemma step_ok: "registry_ok r \<Longrightarrow> registry_ok (registry_step r op)"
proof (cases op)
  case (Read_State k)
  assume ok: "registry_ok r"
  obtain r' e where "materializeCells r = (r', e)" by force
  then show ?thesis using materialize_ok(1) [OF ok] Read_State ok
    by (auto simp: stateOf_def split: option.splits)
next
  case Take_Checkpoint
  assume ok: "registry_ok r"
  obtain r' e where "materializeCells r = (r', e)" by force
  then show ?thesis using materialize_ok(1) [OF ok] Take_Checkpoint
    by (auto simp: registry_checkpoint_def split: option.splits)
qed (auto simp: step_register step_release step_created step_commit simp del: registry_step.simps(4))

lemma steps_ok: "registry_ok r \<Longrightarrow> registry_ok (foldl registry_step r ops)"
  by (induction ops arbitrary: r) (simp_all add: step_ok del: registry_step.simps)

lemma registry_run_ok: "registry_ok (registry_run h n ops)"
  unfolding registry_run_def by (rule steps_ok) (simp add: registry_ok_def)

section \<open>Restoring from honest rows\<close>

definition row_honest ::
  "('h, 's, 'e, 'w) unit_def \<Rightarrow> 'h \<Rightarrow> nat \<Rightarrow> event list \<Rightarrow> 's checkpoint_row \<Rightarrow> bool" where
  "row_honest d h i es row = (row_ver row = ud_version d \<longrightarrow> ud_schema d (row_val row) \<and>
     (\<exists>n \<le> length es. row_seq row = int n - 1 \<and> unit_fold d h i (take n es) = Inr (row_val row)))"

definition honest ::
  "('h, 's, 'e, 'w) unit_def list \<Rightarrow> 'h \<Rightarrow> nat \<Rightarrow> event list \<Rightarrow> 's checkpoint \<Rightarrow> bool" where
  "honest ds h i es ck = list_all (\<lambda>d. case amap_get ck (ud_key d) of
     None \<Rightarrow> True | Some row \<Rightarrow> row_honest d h i es row) ds"

lemma foldl_min_le: "foldl min n ns \<le> (n::int) \<and> (\<forall>x \<in> set ns. foldl min n ns \<le> x)"
  by (induction ns arbitrary: n) (auto, (meson min.boundedE order_refl)+)

lemma restoreFloor_need:
  assumes "restoreFloor ds ck = Some b" "d \<in> set ds"
  shows "b = 0 \<or> int b + 1 \<le> row_need ck d"
proof (cases ds)
  case (Cons d0 ds0)
  let ?m = "foldl min (row_need ck d0) (map (row_need ck) ds0)"
  have "?m \<le> row_need ck d"
    using foldl_min_le [of "row_need ck d0" "map (row_need ck) ds0"] assms(2) Cons by auto
  moreover have "b = nat (max (?m - 1) 0)" using assms(1) Cons by (simp add: restoreFloor_def)
  ultimately show ?thesis by linarith
qed (use assms in simp)

lemma last_seq_drop:
  assumes "contiguous es" "b \<le> length es"
  shows "last_seq (drop b es) (int b - 1) = int (length es) - 1"
proof (cases "b = length es")
  case False
  then have "last (drop b es) = es ! (length es - 1)" using assms(2) by (simp add: last_drop last_conv_nth)
  then show ?thesis using False assms contiguous_nth [OF assms(1), of "length es - 1"]
    by (auto simp: last_seq_def)
qed (simp add: last_seq_def)

lemma replay_tail_fold:
  "contiguous_from b es \<Longrightarrow> replay_tail d b es s =
     (case fold_res (ud_apply d) s es of Inl x \<Rightarrow> Inl (Unit_Error x) | Inr t \<Rightarrow> Inr t)"
  by (induction es arbitrary: b s) (auto split: sum.splits)

lemma contiguous_drop: "contiguous es \<Longrightarrow> n \<le> length es \<Longrightarrow> contiguous_from n (drop n es)"
  by (metis add_0 append_take_drop_id contiguous_from_append length_take min.absorb2)

lemma replay_from:
  assumes "contiguous es" "n \<le> length es" "unit_fold d h i (take n es) = Inr s" "unit_fold d h i es = Inr t"
  shows "replay_tail d n (drop n es) s = Inr t"
proof -
  have "unit_fold d h i (take n es @ drop n es) = Inr t" using assms(4) by simp
  then have "fold_res (ud_apply d) s (drop n es) = Inr t"
    using assms(3) unfolding unit_fold_def fold_res_append by simp
  then show ?thesis by (simp add: replay_tail_fold [OF contiguous_drop [OF assms(1,2)]])
qed

lemma restore_unit_fold:
  assumes "contiguous es" "b \<le> length es" "b = 0 \<or> int b + 1 \<le> row_need ck d"
    and "case amap_get ck (ud_key d) of None \<Rightarrow> True | Some row \<Rightarrow> row_honest d h i es row"
    and "unit_fold d h i es = Inr t"
  shows "restore_unit h i ck (drop b es) b d = Inr t"
proof -
  note ls = last_seq_drop [OF assms(1,2)]
  show ?thesis
  proof (cases "row_usable d (amap_get ck (ud_key d)) (int b - 1) (int (length es) - 1)")
    case True
    then obtain row where w: "amap_get ck (ud_key d) = Some row" "row_ver row = ud_version d"
      "int b - 1 \<le> row_seq row" by (auto simp: row_usable_def split: option.splits)
    then obtain n where n: "ud_schema d (row_val row)" "n \<le> length es" "row_seq row = int n - 1"
      "unit_fold d h i (take n es) = Inr (row_val row)" using assms(4) by (auto simp: row_honest_def)
    note row = w(1) n
    have bn: "b \<le> n" using w(3) n(3) by simp
    then have "nat (row_seq row - int b + 1) = n - b" "b + (n - b) = n" using row(4) by auto
    then show ?thesis
      using True row(1,2) replay_from [OF assms(1) row(3,5) assms(5)] bn
      by (simp add: restore_unit_def Let_def ls)
  next
    case False
    then have b: "b = 0"
      using assms(3,4) by (auto simp: row_need_def row_usable_def row_honest_def split: option.splits if_splits)
    then show ?thesis
      using False replay_from [OF assms(1), of 0 d h i "ud_init d h i" t] assms(5) ls
      by (simp add: restore_unit_def Let_def unit_fold_def)
  qed
qed

lemma floor_in_log:
  assumes "restoreFloor ds ck = Some b" "honest ds h i es ck"
  shows "b \<le> length es"
proof (cases ds)
  case (Cons d0 ds0)
  then have "b = 0 \<or> int b + 1 \<le> row_need ck d0" using restoreFloor_need [OF assms(1)] by simp
  then show ?thesis using assms(2) Cons
    by (auto simp: honest_def row_need_def row_honest_def split: option.splits if_splits)
qed (use assms in \<open>simp add: restoreFloor_def\<close>)

lemma restore_units_fold:
  assumes "\<And>d. d \<in> set ds \<Longrightarrow> restore_unit h i ck evs b d = Inr (st d)"
    and "\<And>d. d \<in> set ds \<Longrightarrow> (view_value d (st d) :: ('e registry_error, 'w option) res) = Inr (vw d)"
  shows "restore_units h i ck evs b ds = Inr (map (\<lambda>d. (ud_key d, st d, vw d)) ds)"
  using assms by (induction ds) auto

lemma restore_units_error:
  assumes "d \<in> set ds" "restore_unit h i ck evs b d = Inl x"
  shows "\<exists>y. restore_units h i ck evs b ds = Inl y"
  using assms
proof (induction ds)
  case (Cons d0 ds)
  then show ?case by (auto simp: rbind_def split: sum.splits)
qed simp

section \<open>Properties\<close>

text \<open>A counting unit for the witnesses: it rejects a turn start and counts everything else.\<close>

definition count_unit :: "(unit, nat, string, nat) unit_def" where
  "count_unit = \<lparr>ud_key = ''count'', ud_schema = (\<lambda>s. True), ud_init = (\<lambda>h n. 0),
     ud_apply = (\<lambda>s e. case ev_data e of TurnStart t \<Rightarrow> Inl ''turn'' | _ \<Rightarrow> Inr (s + 1)),
     ud_wire = Some (id, \<lambda>w. True), ud_version = 1\<rparr>"

definition count_log :: "event list" where
  "count_log = [log_event 0 0 RequestContext, log_event 1 0 RequestContext, log_event 2 0 RequestContext]"

text \<open>
  Claim C12. A read is current: after any interleaving of registrations, releases, commits, reads and
  checkpoints, reading a registered unit returns the fold of that unit over the whole session log, or
  throws the error with which some registered unit rejects that log.
\<close>

theorem projection_read_is_fold:
  assumes "amap_get (rs_units (registry_run h i ops)) k = Some g"
  shows "let r = registry_run h i ops in case snd (stateOf k r) of
      Inr v \<Rightarrow> \<exists>s. v = Some s \<and> unit_fold (rg_def g) (rs_header r) (rs_inherited r) (rs_log r) = Inr s
    | Inl x \<Rightarrow> \<exists>k' g' u. amap_get (rs_units r) k' = Some g' \<and> x = Unit_Error u \<and>
        unit_fold (rg_def g') (rs_header r) (rs_inherited r) (rs_log r) = Inl u"
  using stateOf_ok [OF registry_run_ok assms] by (simp add: Let_def)

definition count_ops :: "(unit, nat, string, nat) registry_op list" where
  "count_ops = [Commit 0 RequestContext, Register_Unit count_unit, Commit 0 RequestContext, Read_State ''count'',
     Register_Unit count_unit, Commit 0 RequestContext, Release_Unit ''count'']"

theorem projection_read_is_fold_witness:
  "\<exists>g. amap_get (rs_units (registry_run () 0 count_ops)) ''count'' = Some g \<and>
     unit_fold (rg_def g) () (rs_inherited (registry_run () 0 count_ops)) (rs_log (registry_run () 0 count_ops)) = Inr 3"
proof -
  let ?r = "registry_run () 0 count_ops"
  have "map_option rg_refs (amap_get (rs_units ?r) ''count'') = Some 1" by code_simp
  then obtain g where g: "amap_get (rs_units ?r) ''count'' = Some g" by blast
  have "snd (stateOf ''count'' ?r) = Inr (Some 3)" by code_simp
  then show ?thesis using projection_read_is_fold [OF g] g by (auto simp: Let_def)
qed

text \<open>
  Claim C13. A restore is the fold: given honest checkpoint rows, possibly stale, missing or of an old
  version, and the stored log from the floor the registry asks for, the restored states and cut are those
  of folding every unit over the whole log.
\<close>

theorem projection_restore_is_fold:
  assumes "contiguous es" "honest ds h i es ck" "restoreFloor ds ck = Some b"
    and "\<forall>d \<in> set ds. unit_fold d h i es = Inr (st d)"
    and "\<forall>d \<in> set ds. (view_value d (st d) :: ('e registry_error, 'w option) res) = Inr (vw d)"
  shows "\<exists>rows. registry_restore h i ck (drop b es) b ds
     = Inr (int (length es) - 1, map (\<lambda>d. (ud_key d, st d, vw d)) ds, rows)"
proof -
  have b: "b \<le> length es" by (rule floor_in_log [OF assms(3,2)])
  have "restore_unit h i ck (drop b es) b d = Inr (st d)" if "d \<in> set ds" for d
    using restore_unit_fold [OF assms(1) b restoreFloor_need [OF assms(3) that]] assms(2,4) that
    by (simp add: honest_def list_all_iff)
  from restore_units_fold [of ds h i ck "drop b es" b st vw] this assms(5)
  show ?thesis by (auto simp: registry_restore_def Let_def last_seq_drop [OF assms(1) b])
qed

definition count_rows :: "nat checkpoint" where
  "count_rows = [(''count'', \<lparr>row_ver = 1, row_seq = 1, row_val = 2\<rparr>)]"

lemma count_honest: "honest [count_unit] () 0 count_log count_rows"
proof -
  have "unit_fold count_unit () 0 (take 2 count_log) = Inr 2" "2 \<le> length count_log"
    by (simp_all add: unit_fold_def count_unit_def count_log_def log_event_def)
  then have "row_honest count_unit () 0 count_log \<lparr>row_ver = 1, row_seq = 1, row_val = 2\<rparr>"
    by (auto simp: row_honest_def count_unit_def intro!: exI [of _ 2])
  then show ?thesis by (simp add: honest_def count_rows_def amap_get_def count_unit_def)
qed

theorem projection_restore_is_fold_witness:
  "restoreFloor [count_unit] count_rows = Some 1 \<and>
   (\<exists>rows. registry_restore () 0 count_rows (drop 1 count_log) 1 [count_unit] = Inr (2, [(''count'', 3, Some 3)], rows))"
proof -
  have fl: "restoreFloor [count_unit] count_rows = Some 1"
    by (simp add: restoreFloor_def row_need_def count_rows_def amap_get_def count_unit_def)
  have c: "contiguous count_log" by (simp add: count_log_def log_event_def)
  have f: "\<forall>d \<in> set [count_unit]. unit_fold d () 0 count_log = Inr 3"
    by (simp add: unit_fold_def count_unit_def count_log_def log_event_def)
  have v: "\<forall>d \<in> set [count_unit]. (view_value d 3 :: (string registry_error, nat option) res) = Inr (Some 3)"
    by (simp add: view_value_def count_unit_def)
  show ?thesis
    using fl projection_restore_is_fold [OF c count_honest fl f v] by (simp add: count_unit_def count_log_def)
qed

text \<open>
  Claim C14. A shrunk log is never served from a stale row: if the stored log ends before the watermark
  of some usable row, the restore over the tail read from the floor throws, for a full re-read.
\<close>

theorem projection_restore_detects_shrunk_log:
  assumes "contiguous es" "restoreFloor ds ck = Some b" "0 < b" "d \<in> set ds"
    and "amap_get ck (ud_key d) = Some row" "int (length es) \<le> row_seq row"
  shows "\<exists>x. registry_restore h i ck (drop b es) b ds = Inl x"
proof -
  have need: "int b + 1 \<le> row_need ck d" using restoreFloor_need [OF assms(2,4)] assms(3) by auto
  have "last_seq (drop b es) (int b - 1) < row_seq row"
  proof (cases "length es \<le> b")
    case True
    then show ?thesis using need assms(5,6) by (auto simp: last_seq_def row_need_def split: if_splits)
  next
    case False
    then show ?thesis using last_seq_drop [OF assms(1), of b] assms(6) by simp
  qed
  then have "restore_unit h i ck (drop b es) b d = Inl (Cannot_Restore_From (ud_key d) b)"
    using assms(3,5) by (simp add: restore_unit_def Let_def row_usable_def)
  from restore_units_error [OF assms(4) this] show ?thesis
    by (auto simp: registry_restore_def Let_def)
qed

theorem projection_restore_detects_shrunk_log_witness:
  "\<exists>x. registry_restore () 0 count_rows (drop 1 (take 1 count_log)) 1 [count_unit] = Inl x"
proof (rule projection_restore_detects_shrunk_log)
  show "contiguous (take 1 count_log)" by (simp add: count_log_def log_event_def)
  show "restoreFloor [count_unit] count_rows = Some 1"
    by (simp add: restoreFloor_def row_need_def count_rows_def amap_get_def count_unit_def)
  show "amap_get count_rows (ud_key count_unit) = Some \<lparr>row_ver = 1, row_seq = 1, row_val = 2\<rparr>"
    by (simp add: count_rows_def amap_get_def count_unit_def)
qed (simp_all add: count_log_def)

end
