(* ===== verification/Tool_Pairing.thy ===== *)
theory Tool_Pairing
  imports Surface_Laws
begin

text \<open>
  Tool-pairing balance over a session surface (\<open>packages/compaction/compaction/src/tool-pairing.ts\<close>):
  which cuts of the surface no unanswered tool call crosses, computed once and extended as the surface
  grows. What the cache relies on is the contract \<open>surface_view\<close>, provided by the surface fold.
\<close>

section \<open>Reading a session\<close>

record session_view =
  sv_nodes :: "nat list"
  sv_generation :: nat
  sv_event_at :: "nat \<Rightarrow> raw_event option"

datatype pairing_error = No_Matching_Event nat | No_Matching_Call nat | Cut_Not_Found nat

definition is_tool_call :: "json \<Rightarrow> bool" where
  "is_tool_call b = (jget b ''type'' = Some (JStr ''tool-call''))"

definition eventDelta :: "raw_event \<Rightarrow> int" where
  "eventDelta e =
     (if etype e = ''assistant/message'' then int (length (filter is_tool_call (message_content (edata e))))
      else if etype e = ''tool/result'' then - 1 else 0)"

section \<open>The cache\<close>

record balance_cache =
  bc_generation :: nat
  cutBalanced :: "bool list"
  indexBySeq :: "(nat, nat) amap"
  inProgress :: int

text \<open>The validating loop over the unseen tail: nothing is changed until all of it passed.\<close>

fun pending_cuts ::
  "(nat \<Rightarrow> raw_event option) \<Rightarrow> int \<Rightarrow> nat list \<Rightarrow> (pairing_error, bool list \<times> int) res" where
  "pending_cuts ev n [] = Inr ([], n)"
| "pending_cuts ev n (s # ss) =
     (case ev s of
        None \<Rightarrow> Inl (No_Matching_Event s)
      | Some e \<Rightarrow>
          if eseq e \<noteq> s then Inl (No_Matching_Event s)
          else let m = n + eventDelta e in
            if m < 0 then Inl (No_Matching_Call s)
            else rbind (pending_cuts ev m ss) (\<lambda>(cs, k). Inr ((m = 0) # cs, k)))"

fun set_positions :: "(nat, nat) amap \<Rightarrow> nat \<Rightarrow> nat list \<Rightarrow> (nat, nat) amap" where
  "set_positions ix k [] = ix"
| "set_positions ix k (s # ss) = set_positions (amap_set ix s k) (Suc k) ss"

definition extend_with ::
  "(nat \<Rightarrow> raw_event option) \<Rightarrow> balance_cache \<Rightarrow> nat list \<Rightarrow> (pairing_error, balance_cache) res" where
  "extend_with ev c rest =
     rbind (pending_cuts ev (inProgress c) rest) (\<lambda>(cs, n).
     Inr (c\<lparr>cutBalanced := cutBalanced c @ cs,
           indexBySeq := set_positions (indexBySeq c) (length (cutBalanced c) - 1) rest, inProgress := n\<rparr>))"

definition extendCache :: "session_view \<Rightarrow> balance_cache \<Rightarrow> (pairing_error, balance_cache) res" where
  "extendCache v c = extend_with (sv_event_at v) c (drop (length (cutBalanced c) - 1) (sv_nodes v))"

definition empty_cache :: "nat \<Rightarrow> balance_cache" where
  "empty_cache g = \<lparr>bc_generation = g, cutBalanced = [True], indexBySeq = [], inProgress = 0\<rparr>"

definition rebuild :: "session_view \<Rightarrow> (pairing_error, balance_cache) res" where
  "rebuild v = extendCache v (empty_cache (sv_generation v))"

definition balanceCache :: "session_view \<Rightarrow> balance_cache option \<Rightarrow> (pairing_error, balance_cache) res" where
  "balanceCache v cached = (case cached of
     None \<Rightarrow> rebuild v
   | Some c \<Rightarrow>
       if bc_generation c \<noteq> sv_generation v \<or> length (cutBalanced c) - 1 > length (sv_nodes v) then rebuild v
       else if length (cutBalanced c) - 1 < length (sv_nodes v) then extendCache v c
       else Inr c)"

definition cutBalance :: "balance_cache \<Rightarrow> nat \<Rightarrow> nat \<Rightarrow> (pairing_error, bool) res" where
  "cutBalance c seq offset = (case amap_get (indexBySeq c) seq of
     None \<Rightarrow> Inl (Cut_Not_Found seq)
   | Some i \<Rightarrow> if i + offset < length (cutBalanced c) then Inr (cutBalanced c ! (i + offset))
              else Inl (Cut_Not_Found seq))"

text \<open>A query stores the cache it obtained; a thrown one leaves the stored cache as it was.\<close>

definition cut_query :: "session_view \<Rightarrow> nat \<Rightarrow> nat \<Rightarrow> (balance_cache option, pairing_error, bool) sx" where
  "cut_query v seq offset cached = (case balanceCache v cached of
     Inl e \<Rightarrow> (cached, Inl e)
   | Inr c \<Rightarrow> (Some c, cutBalance c seq offset))"

definition toolPairingBalancedBefore :: "session_view \<Rightarrow> nat \<Rightarrow> (balance_cache option, pairing_error, bool) sx" where
  "toolPairingBalancedBefore v seq = cut_query v seq 0"

definition toolPairingBalancedAfter :: "session_view \<Rightarrow> nat \<Rightarrow> (balance_cache option, pairing_error, bool) sx" where
  "toolPairingBalancedAfter v seq = cut_query v seq 1"

text \<open>Queries in a row, each on the session as it is by then; the cache is threaded through.\<close>

fun query_run ::
  "('t \<Rightarrow> session_view) \<Rightarrow> balance_cache option \<Rightarrow> ('t \<times> nat \<times> nat) list \<Rightarrow> (pairing_error, bool) res list" where
  "query_run view c [] = []"
| "query_run view c ((t, s, off) # qs) =
     (let (c', r) = cut_query (view t) s off c in r # query_run view c' qs)"

section \<open>Extending in two parts\<close>

lemma pending_cuts_append:
  "pending_cuts ev n (xs @ ys) =
     rbind (pending_cuts ev n xs) (\<lambda>(cs, m). rbind (pending_cuts ev m ys) (\<lambda>(ds, k). Inr (cs @ ds, k)))"
proof (induction xs arbitrary: n)
  case Nil
  then show ?case by (cases "pending_cuts ev n ys") auto
next
  case (Cons s xs)
  show ?case
  proof (cases "ev s")
    case (Some e)
    let ?m = "n + eventDelta e"
    show ?thesis
      using Some Cons.IH [of ?m]
      by (cases "pending_cuts ev ?m xs") (auto simp: Let_def rbind_def split: sum.splits)
  qed simp
qed

lemma pending_cuts_length: "pending_cuts ev n xs = Inr (cs, m) \<Longrightarrow> length cs = length xs"
  by (induction xs arbitrary: n cs) (auto simp: rbind_eq_Inr Let_def split: option.splits if_splits)

lemma pending_cuts_cong: "(\<And>s. s \<in> set xs \<Longrightarrow> ev s = ev' s) \<Longrightarrow> pending_cuts ev n xs = pending_cuts ev' n xs"
proof (induction xs arbitrary: n)
  case (Cons s xs)
  then have "ev s = ev' s" "\<And>m. pending_cuts ev m xs = pending_cuts ev' m xs" by simp_all
  then show ?case by (simp add: Let_def split: option.splits)
qed simp

lemma set_positions_append:
  "set_positions ix k (xs @ ys) = set_positions (set_positions ix k xs) (k + length xs) ys"
  by (induction xs arbitrary: ix k) auto

lemma extend_with_append:
  assumes "cutBalanced c \<noteq> []" "extend_with ev c xs = Inr d"
  shows "extend_with ev c (xs @ ys) = extend_with ev d ys"
proof -
  obtain cs n where p: "pending_cuts ev (inProgress c) xs = Inr (cs, n)"
    and d: "d = c\<lparr>cutBalanced := cutBalanced c @ cs,
           indexBySeq := set_positions (indexBySeq c) (length (cutBalanced c) - 1) xs, inProgress := n\<rparr>"
    using assms(2) by (auto simp: extend_with_def rbind_eq_Inr)
  have l: "length cs = length xs" using pending_cuts_length [OF p] .
  then have "length (cutBalanced c) - 1 + length xs = length (cutBalanced d) - 1"
    using assms(1) d by (cases "cutBalanced c") auto
  then show ?thesis
    using p d l by (cases "pending_cuts ev n ys")
      (auto simp: extend_with_def pending_cuts_append set_positions_append)
qed

lemma rebuild_unfold: "rebuild v = extend_with (sv_event_at v) (empty_cache (sv_generation v)) (sv_nodes v)"
  by (simp add: rebuild_def extendCache_def empty_cache_def)

lemma rebuild_shape:
  assumes "rebuild v = Inr c"
  shows "bc_generation c = sv_generation v" "length (cutBalanced c) = Suc (length (sv_nodes v))"
  using assms pending_cuts_length
  by (auto simp: rebuild_unfold extend_with_def empty_cache_def rbind_eq_Inr)

section \<open>The contract of a growing surface\<close>

locale surface_view =
  fixes view :: "'t \<Rightarrow> session_view"
    and later :: "'t \<Rightarrow> 't \<Rightarrow> bool"
  assumes later_trans: "later t u \<Longrightarrow> later u w \<Longrightarrow> later t w"
    and append_only: "later t u \<Longrightarrow> sv_generation (view t) = sv_generation (view u) \<Longrightarrow>
          \<exists>ns. sv_nodes (view u) = sv_nodes (view t) @ ns"
    and events_stable: "later t u \<Longrightarrow> s \<in> set (sv_nodes (view t)) \<Longrightarrow>
          sv_event_at (view u) s = sv_event_at (view t) s"
begin

lemma cached_is_rebuild:
  assumes "later t u" "rebuild (view t) = Inr c"
  shows "balanceCache (view u) (Some c) = rebuild (view u)"
proof (cases "bc_generation c \<noteq> sv_generation (view u) \<or> length (cutBalanced c) - 1 > length (sv_nodes (view u))")
  case True
  then show ?thesis by (simp add: balanceCache_def)
next
  case False
  note sh = rebuild_shape [OF assms(2)]
  from False sh(1) obtain ns where ns: "sv_nodes (view u) = sv_nodes (view t) @ ns"
    using append_only [OF assms(1)] by auto
  have gen: "sv_generation (view t) = sv_generation (view u)" using False sh(1) by simp
  have "extend_with (sv_event_at (view u)) (empty_cache (sv_generation (view u))) (sv_nodes (view t)) = Inr c"
    using assms(2) pending_cuts_cong [of "sv_nodes (view t)" "sv_event_at (view u)" "sv_event_at (view t)"]
      events_stable [OF assms(1)]
    by (simp add: rebuild_unfold extend_with_def gen)
  from extend_with_append [OF _ this, of ns]
  have "rebuild (view u) = extend_with (sv_event_at (view u)) c ns"
    by (simp add: rebuild_unfold ns empty_cache_def)
  moreover have "extend_with (sv_event_at (view u)) c [] = Inr c"
    by (simp add: extend_with_def)
  ultimately show ?thesis
    using False sh(2) ns by (cases ns) (auto simp: balanceCache_def extendCache_def)
qed

lemma queries_uncached:
  assumes "case c of None \<Rightarrow> True | Some d \<Rightarrow> (\<exists>t. rebuild (view t) = Inr d \<and> (\<forall>(u, q) \<in> set qs. later t u))"
    and "sorted_wrt (\<lambda>(t, _) (u, _). later t u) qs"
  shows "query_run view c qs = map (\<lambda>(t, s, off). snd (cut_query (view t) s off None)) qs"
  using assms
proof (induction qs arbitrary: c)
  case (Cons q qs)
  obtain t s off where q: "q = (t, s, off)" by (cases q)
  have b: "balanceCache (view t) c = rebuild (view t)"
  proof (cases c)
    case (Some d)
    then obtain t0 where "rebuild (view t0) = Inr d" "later t0 t" using Cons.prems(1) q by auto
    then show ?thesis using cached_is_rebuild Some by blast
  qed (simp add: balanceCache_def)
  have b0: "balanceCache (view t) None = rebuild (view t)" by (simp add: balanceCache_def)
  show ?case
  proof (cases "rebuild (view t)")
    case (Inl e)
    have "query_run view c qs = map (\<lambda>(t, s, off). snd (cut_query (view t) s off None)) qs"
      using Cons.IH [of c] Cons.prems by (auto split: option.splits)
    then show ?thesis using q b b0 Inl by (simp add: cut_query_def)
  next
    case (Inr d)
    have "\<forall>(u, x) \<in> set qs. later t u" using Cons.prems(2) q by auto
    then have "query_run view (Some d) qs = map (\<lambda>(t, s, off). snd (cut_query (view t) s off None)) qs"
      using Cons.IH [of "Some d"] Cons.prems(2) Inr by auto
    then show ?thesis using q b b0 Inr by (simp add: cut_query_def)
  qed
qed simp

end

section \<open>The surface fold provides the contract\<close>

type_synonym surface_time = "projection_def list \<times> raw_event list \<times> nat"

text \<open>The surface after the first \<open>m\<close> events of a log.\<close>

definition surface_at :: "projection_def list \<Rightarrow> raw_event list \<Rightarrow> nat \<Rightarrow> surface_state" where
  "surface_at ps evs m = (case state_at ps evs 0 m of Inl _ \<Rightarrow> createFoldState | Inr st \<Rightarrow> st)"

fun view_at :: "surface_time \<Rightarrow> session_view" where
  "view_at (ps, evs, m) = \<lparr>sv_nodes = nodes (surface_at ps evs m),
     sv_generation = replaceGeneration (surface_at ps evs m), sv_event_at = event_at (take m evs) 0\<rparr>"

fun later_time :: "surface_time \<Rightarrow> surface_time \<Rightarrow> bool" where
  "later_time (ps, evs, m) (ps', evs', n) =
     (ps' = ps \<and> evs' = evs \<and> m \<le> n \<and> n \<le> length evs \<and> is_ok (state_at ps evs 0 n))"

lemma node_below:
  assumes "state_at ps evs 0 m = Inr st" "m \<le> length evs" "s \<in> set (nodes st)"
  shows "s < m"
  using surface_ok_state_at [OF assms(1,2)] assms(3) by (auto simp: surface_ok_def)

interpretation sv: surface_view view_at later_time
proof unfold_locales
  fix t u w assume "later_time t u" "later_time u w"
  then show "later_time t w" by (cases t; cases u; cases w) auto
next
  fix t u assume l: "later_time t u" and g: "sv_generation (view_at t) = sv_generation (view_at u)"
  obtain ps evs m n where t: "t = (ps, evs, m)" "u = (ps, evs, n)" "m \<le> n" "n \<le> length evs"
    "is_ok (state_at ps evs 0 n)" using l by (cases t; cases u) auto
  then obtain st' where st': "state_at ps evs 0 n = Inr st'" by (auto simp: is_ok_iff)
  then obtain st where st: "state_at ps evs 0 m = Inr st" using state_at_mono [OF _ t(3)] by blast
  show "\<exists>ns. sv_nodes (view_at u) = sv_nodes (view_at t) @ ns"
    using generation_later [OF st st' t(3,4)] g t(1,2) st st' by (simp add: surface_at_def)
next
  fix t u s assume l: "later_time t u" and s: "s \<in> set (sv_nodes (view_at t))"
  obtain ps evs m n where t: "t = (ps, evs, m)" "u = (ps, evs, n)" "m \<le> n" "n \<le> length evs"
    "is_ok (state_at ps evs 0 n)" using l by (cases t; cases u) auto
  then obtain st' where "state_at ps evs 0 n = Inr st'" by (auto simp: is_ok_iff)
  then obtain st where st: "state_at ps evs 0 m = Inr st" using state_at_mono [OF _ t(3)] by blast
  have "s < m" using node_below [OF st] s t st by (simp add: surface_at_def)
  then show "sv_event_at (view_at u) s = sv_event_at (view_at t) s" using t by (simp add: event_at_def)
qed

section \<open>What a balanced cut means\<close>

definition calls_in :: "(nat \<Rightarrow> raw_event option) \<Rightarrow> nat list \<Rightarrow> nat" where
  "calls_in ev ss = sum_list (map (\<lambda>s. case ev s of
     Some e \<Rightarrow> if etype e = ''assistant/message'' then length (filter is_tool_call (message_content (edata e))) else 0
   | None \<Rightarrow> 0) ss)"

definition results_in :: "(nat \<Rightarrow> raw_event option) \<Rightarrow> nat list \<Rightarrow> nat" where
  "results_in ev ss = length (filter (\<lambda>s. case ev s of Some e \<Rightarrow> etype e = ''tool/result'' | None \<Rightarrow> False) ss)"

lemma pending_cuts_counts:
  "pending_cuts ev n xs = Inr (cs, m) \<Longrightarrow> m = n + int (calls_in ev xs) - int (results_in ev xs) \<and>
     (\<forall>i < length xs. cs ! i \<longleftrightarrow> n + int (calls_in ev (take (Suc i) xs)) = int (results_in ev (take (Suc i) xs)))"
proof (induction xs arbitrary: n cs)
  case Nil
  then show ?case by (simp add: calls_in_def results_in_def)
next
  case (Cons s xs)
  from Cons.prems obtain e ds where e: "ev s = Some e" and p: "pending_cuts ev (n + eventDelta e) xs = Inr (ds, m)"
    and cs: "cs = (n + eventDelta e = 0) # ds"
    by (auto simp: Let_def rbind_eq_Inr split: option.splits if_splits)
  have d: "n + int (calls_in ev (s # ys)) - int (results_in ev (s # ys))
      = n + eventDelta e + int (calls_in ev ys) - int (results_in ev ys)" for ys
    using e by (auto simp: calls_in_def results_in_def eventDelta_def)
  note IH = Cons.IH [OF p]
  have "cs ! i \<longleftrightarrow> n + int (calls_in ev (take (Suc i) (s # xs))) = int (results_in ev (take (Suc i) (s # xs)))"
    if "i < length (s # xs)" for i
    using that IH d [of "take i xs"] cs d [of "[]"]
    by (cases i) (auto simp: calls_in_def [of _ "[]"] results_in_def [of _ "[]"])
  then show ?case using IH d [of xs] by simp
qed

lemma set_positions_get:
  "distinct xs \<Longrightarrow> amap_get (set_positions ix k xs) s =
     (case index_of xs s of None \<Rightarrow> amap_get ix s | Some i \<Rightarrow> Some (k + i))"
proof (induction xs arbitrary: ix k)
  case (Cons a xs)
  then show ?case
    using Cons.IH [of "amap_set ix a k" "Suc k"] by (cases "index_of xs s") (auto dest!: index_of_Some)
qed simp

lemma index_of_split: "s \<notin> set xs \<Longrightarrow> index_of (xs @ s # ys) s = Some (length xs)"
  by (induction xs) auto

lemma direct_cut:
  assumes "rebuild v = Inr c" "sv_nodes v = xs @ s # ys" "distinct (sv_nodes v)" "off \<le> 1"
  shows "cutBalance c s off = Inr (calls_in (sv_event_at v) (take (length xs + off) (sv_nodes v))
      = results_in (sv_event_at v) (take (length xs + off) (sv_nodes v)))"
proof -
  let ?ev = "sv_event_at v"
  obtain cs m where p: "pending_cuts ?ev 0 (sv_nodes v) = Inr (cs, m)"
    and c: "cutBalanced c = True # cs" "indexBySeq c = set_positions [] 0 (sv_nodes v)"
    using assms(1) by (auto simp: rebuild_unfold extend_with_def empty_cache_def rbind_eq_Inr)
  have i: "amap_get (indexBySeq c) s = Some (length xs)"
    using set_positions_get [OF assms(3)] index_of_split [of s xs ys] assms(2,3) c(2) by simp
  have l: "length cs = length (sv_nodes v)" using pending_cuts_length [OF p] .
  have cut: "cutBalanced c ! k \<longleftrightarrow> calls_in ?ev (take k (sv_nodes v)) = results_in ?ev (take k (sv_nodes v))"
    if "k \<le> length (sv_nodes v)" for k
    using that pending_cuts_counts [OF p] c(1)
    by (cases k) (auto simp: calls_in_def [of _ "[]"] results_in_def [of _ "[]"])
  show ?thesis using i l cut [of "length xs + off"] assms(2,4) c(1) by (simp add: cutBalance_def)
qed

section \<open>When a surface is accepted\<close>

lemma pending_cuts_ok:
  assumes "\<And>s. s \<in> set xs \<Longrightarrow> \<exists>e. ev s = Some e \<and> eseq e = s" "n \<ge> 0"
  shows "is_ok (pending_cuts ev n xs) \<longleftrightarrow>
     (\<forall>k \<le> length xs. int (results_in ev (take k xs)) \<le> n + int (calls_in ev (take k xs)))"
  using assms
proof (induction xs arbitrary: n)
  case Nil
  then show ?case by (simp add: calls_in_def results_in_def)
next
  case (Cons s xs)
  obtain e where e: "ev s = Some e" "eseq e = s" using Cons.prems(1) by auto
  let ?m = "n + eventDelta e"
  have d: "n + int (calls_in ev (s # ys)) - int (results_in ev (s # ys))
      = ?m + int (calls_in ev ys) - int (results_in ev ys)" for ys
    using e(1) by (auto simp: calls_in_def results_in_def eventDelta_def)
  have step: "(\<forall>k \<le> length (s # xs). int (results_in ev (take k (s # xs))) \<le> n + int (calls_in ev (take k (s # xs))))
     \<longleftrightarrow> (\<forall>k \<le> length xs. int (results_in ev (take k xs)) \<le> ?m + int (calls_in ev (take k xs)))"
    (is "?L \<longleftrightarrow> ?R")
  proof
    assume L: ?L
    have "int (results_in ev (take k xs)) \<le> ?m + int (calls_in ev (take k xs))" if "k \<le> length xs" for k
      using L [rule_format, of "Suc k"] that d [of "take k xs"] by simp
    then show ?R by blast
  next
    assume R: ?R
    have "int (results_in ev (take k (s # xs))) \<le> n + int (calls_in ev (take k (s # xs)))"
      if "k \<le> length (s # xs)" for k
    proof (cases k)
      case 0
      then show ?thesis using Cons.prems(2) by (simp add: calls_in_def results_in_def)
    next
      case (Suc j)
      then show ?thesis using R [rule_format, of j] that d [of "take j xs"] by simp
    qed
    then show ?L by blast
  qed
  show ?case
  proof (cases "?m < 0")
    case True
    have "\<not> int (results_in ev (take 0 xs)) \<le> ?m + int (calls_in ev (take 0 xs))"
      using True by (simp add: calls_in_def results_in_def)
    then show ?thesis unfolding step using True e by (auto simp: Let_def)
  next
    case False
    have "is_ok (pending_cuts ev n (s # xs)) \<longleftrightarrow> is_ok (pending_cuts ev ?m xs)"
      using e False by (auto simp: Let_def is_ok_iff rbind_eq_Inr)
    then show ?thesis unfolding step using Cons.IH [of ?m] Cons.prems(1) False by simp
  qed
qed

lemma cut_query_None:
  "snd (cut_query v s off None) = rbind (rebuild v) (\<lambda>c. cutBalance c s off)"
  by (cases "rebuild v") (simp_all add: cut_query_def balanceCache_def)

lemma is_ok_rebuild: "is_ok (rebuild v) = is_ok (pending_cuts (sv_event_at v) 0 (sv_nodes v))"
  by (auto simp: rebuild_unfold extend_with_def empty_cache_def is_ok_iff rbind_eq_Inr)

lemma query_answer:
  assumes "sv_nodes v = xs @ s # ys" "distinct (sv_nodes v)" "off \<le> 1"
    and "\<And>q. q \<in> set (sv_nodes v) \<Longrightarrow> \<exists>e. sv_event_at v q = Some e \<and> eseq e = q"
  shows "snd (cut_query v s off None) = Inr b \<longleftrightarrow>
     (\<forall>k \<le> length (sv_nodes v). results_in (sv_event_at v) (take k (sv_nodes v)) \<le> calls_in (sv_event_at v) (take k (sv_nodes v)))
     \<and> b = (calls_in (sv_event_at v) (take (length xs + off) (sv_nodes v))
           = results_in (sv_event_at v) (take (length xs + off) (sv_nodes v)))"
  using pending_cuts_ok [of "sv_nodes v" "sv_event_at v" 0] assms(4) is_ok_rebuild [of v]
    direct_cut [OF _ assms(1-3)]
  by (cases "rebuild v") (auto simp: cut_query_None)

lemma state_at_event_seq:
  assumes "state_at ps evs 0 n = Inr st" "k < n" shows "eseq (evs ! k) = k"
proof -
  obtain st' where "state_at ps evs 0 (Suc k) = Inr st'" using state_at_mono [OF assms(1), of "Suc k"] assms(2) by auto
  then show ?thesis by (auto simp del: state_at.simps simp: state_at_Suc_Inr planSurfaceEvent_def split: if_splits)
qed

section \<open>Properties\<close>

definition pairing_events :: "raw_event list" where
  "pairing_events =
    [ev0 ''user/message'' 0 (JObj [(''role'', JStr ''user'')]) (Some (JStr ''append'')) None,
     ev0 ''assistant/message'' 1
       (JObj [(''message'', JObj [(''content'', JArr [JObj [(''type'', JStr ''tool-call'')]])])])
       (Some (JStr ''append'')) None,
     ev0 ''tool/result'' 2 (JObj []) (Some (JStr ''append'')) None]"

definition pairing_state :: surface_state where
  "pairing_state = \<lparr>nodes = [0, 1, 2], replaceGeneration = 0, contentGeneration = 0,
     projectedMessages = [], used_projections = []\<rparr>"

lemma pairing_fold: "foldSurface [] pairing_events = Inr (pairing_state, [])"
  by code_simp

text \<open>
  Claim C17. The incremental cache is invisible: along any growing session, every balance query
  answered from the cache, however it was built, extended or invalidated by earlier queries, gives
  exactly the answer, or the error, that a query without a cache gives at that moment.
\<close>

theorem tool_pairing_cache_transparent:
  assumes "foldSurface ps evs = Inr (st, rs)"
    and "sorted (map fst qs)" "\<forall>(m, s, off) \<in> set qs. m \<le> length evs"
  shows "query_run (\<lambda>m. view_at (ps, evs, m)) None qs
       = map (\<lambda>(m, s, off). snd (cut_query (view_at (ps, evs, m)) s off None)) qs"
proof -
  let ?t = "\<lambda>(m, q). ((ps, evs, m :: nat), q :: nat \<times> nat)"
  have lift: "query_run (\<lambda>m. view_at (ps, evs, m)) c qs = query_run view_at c (map ?t qs)" for c
    by (induction qs arbitrary: c) (auto split: prod.splits)
  have st: "state_at ps evs 0 (length evs) = Inr st" by (rule foldSurface_state_at [OF assms(1)])
  have "sorted_wrt (\<lambda>(t, _) (u, _). later_time t u) (map ?t qs)"
    using assms(2,3) state_at_mono [OF st]
    by (induction qs) (auto simp: is_ok_iff split: prod.splits)
  from sv.queries_uncached [OF _ this, of None] show ?thesis
    unfolding lift by (simp add: split_def)
qed

theorem tool_pairing_cache_transparent_witness:
  "query_run (\<lambda>m. view_at ([], pairing_events, m)) None [(2, 1, 1), (3, 2, 0), (3, 2, 1), (3, 9, 0)]
     = [Inr False, Inr False, Inr True, Inl (Cut_Not_Found 9)]"
proof -
  have "sorted (map fst [(2 :: nat, 1 :: nat, 1 :: nat), (3, 2, 0), (3, 2, 1), (3, 9, 0)])"
    "\<forall>(m, s, off) \<in> set [(2 :: nat, 1 :: nat, 1 :: nat), (3, 2, 0), (3, 2, 1), (3, 9, 0)]. m \<le> length pairing_events"
    by code_simp+
  note t = tool_pairing_cache_transparent [OF pairing_fold this]
  show ?thesis unfolding t by code_simp
qed

text \<open>
  Claim C18. A cut is reported balanced exactly when as many tool calls as tool results stand before
  it on the surface, and a query is refused exactly when some prefix of the surface answers more
  calls than it makes.
\<close>

theorem tool_pairing_balance:
  assumes "foldSurface ps evs = Inr (st, rs)" "nodes st = xs @ s # ys"
  shows "(snd (toolPairingBalancedBefore (view_at (ps, evs, length evs)) s None) = Inr b \<longleftrightarrow>
       (\<forall>k \<le> length (nodes st). results_in (event_at evs 0) (take k (nodes st)) \<le> calls_in (event_at evs 0) (take k (nodes st)))
       \<and> b = (calls_in (event_at evs 0) xs = results_in (event_at evs 0) xs)) \<and>
     (snd (toolPairingBalancedAfter (view_at (ps, evs, length evs)) s None) = Inr b \<longleftrightarrow>
       (\<forall>k \<le> length (nodes st). results_in (event_at evs 0) (take k (nodes st)) \<le> calls_in (event_at evs 0) (take k (nodes st)))
       \<and> b = (calls_in (event_at evs 0) (xs @ [s]) = results_in (event_at evs 0) (xs @ [s])))" (is "?before \<and> ?after")
proof -
  let ?v = "view_at (ps, evs, length evs)"
  have st: "state_at ps evs 0 (length evs) = Inr st" by (rule foldSurface_state_at [OF assms(1)])
  have v: "sv_nodes ?v = nodes st" "sv_event_at ?v = event_at evs 0" by (simp_all add: surface_at_def st)
  have ok: "surface_ok evs 0 (length evs) st" by (rule surface_ok_state_at [OF st]) simp
  have d: "distinct (sv_nodes ?v)" using ok v by (simp add: surface_ok_def)
  have e: "\<exists>e. sv_event_at ?v q = Some e \<and> eseq e = q" if "q \<in> set (sv_nodes ?v)" for q
    using that ok v state_at_event_seq [OF st, of q] by (simp add: surface_ok_def event_at_def)
  have n: "sv_nodes ?v = xs @ s # ys" using assms(2) v by simp
  have ?before using query_answer [OF n d _ e, of 0 b] v assms(2) by (simp add: toolPairingBalancedBefore_def)
  moreover have ?after using query_answer [OF n d _ e, of 1 b] v assms(2) by (simp add: toolPairingBalancedAfter_def)
  ultimately show ?thesis by blast
qed

theorem tool_pairing_balance_witness:
  "snd (toolPairingBalancedBefore (view_at ([], pairing_events, 3)) 2 None) = Inr False
   \<and> snd (toolPairingBalancedAfter (view_at ([], pairing_events, 3)) 2 None) = Inr True"
proof -
  have "nodes pairing_state = [0, 1] @ 2 # []" by code_simp
  note t = tool_pairing_balance [OF pairing_fold this]
  have l: "length pairing_events = 3" by code_simp
  have k: "\<forall>k \<le> length (nodes pairing_state). results_in (event_at pairing_events 0) (take k (nodes pairing_state))
      \<le> calls_in (event_at pairing_events 0) (take k (nodes pairing_state))"
  proof -
    have "list_all (\<lambda>k. results_in (event_at pairing_events 0) (take k (nodes pairing_state))
      \<le> calls_in (event_at pairing_events 0) (take k (nodes pairing_state))) [0..<Suc (length (nodes pairing_state))]"
      by code_simp
    then show ?thesis by (auto simp: list_all_iff less_Suc_eq_le simp del: upt_Suc)
  qed
  have c: "(calls_in (event_at pairing_events 0) [0, 1] = results_in (event_at pairing_events 0) [0, 1]) = False"
    "(calls_in (event_at pairing_events 0) ([0, 1] @ [2]) = results_in (event_at pairing_events 0) ([0, 1] @ [2])) = True"
    by code_simp+
  show ?thesis using t [of False] t [of True] l k c by simp
qed

end
