(* ===== verification/Compaction.thy ===== *)
theory Compaction
  imports Surface_Manager
begin

text \<open>
  The log-stream invariants of compaction (\<open>packages/compaction/compaction/src/invariant.ts\<close>): a
  companion that vets every compaction event before it commits, follows the open compaction, and
  rebuilds the same trace from a stored log.
\<close>

section \<open>The trace\<close>

datatype compaction_error =
    Bad_Id | Bad_Seq | Bad_Shape | Empty_Shadow | Range_Mismatch | Span_Not_Current | Span_Incomplete
  | Command_Mismatch | No_Matching_Start | Id_Mismatch | Turn_Crosses_Compaction
  | Standalone_In_Turn | Owner_Outside_Turn | Owner_Mismatch | Already_Compacting
  | Summary_Repeated | Bad_Token_Count | End_Owner_Mismatch | Missing_Summary | Not_Staged
  | Surface_Failure surface_error

record compaction_open =
  co_id :: string
  co_command :: "string option"
  co_start :: nat
  co_turn :: "json option"
  co_summarized :: bool

text \<open>The committed trace; \<open>tr_turn\<close> is the number of the open turn or \<open>null\<close>.\<close>

record compaction_trace =
  tr_turn :: "json option"
  tr_open :: "compaction_open option"
  tr_events :: "raw_event list"
  tr_surface :: manager

datatype compaction_transition =
    To_Start string "string option" nat "json option"
  | To_Summary string "string option" nat "json option"
  | To_End
  | To_End_Seed

text \<open>Strict equality of primitive values; arrays and objects of different events are never identical.\<close>

fun js_same :: "json option \<Rightarrow> json option \<Rightarrow> bool" where
  "js_same None None = True"
| "js_same (Some JNull) (Some JNull) = True"
| "js_same (Some (JBool a)) (Some (JBool b)) = (a = b)"
| "js_same (Some (JNum a)) (Some (JNum b)) = num_eq a b"
| "js_same (Some (JStr a)) (Some (JStr b)) = (a = b)"
| "js_same _ _ = False"

abbreviation js_null :: "json option" where
  "js_null \<equiv> Some JNull"

section \<open>Validators\<close>

fun validateId :: "json option \<Rightarrow> (compaction_error, string) res" where
  "validateId (Some (JStr s)) = (if s = [] then Inl Bad_Id else Inr s)"
| "validateId _ = Inl Bad_Id"

fun optional_id :: "json option \<Rightarrow> (compaction_error, string option) res" where
  "optional_id None = Inr None"
| "optional_id v = rbind (validateId v) (\<lambda>s. Inr (Some s))"

text \<open>\<open>SessionSeq\<close> admits the non-negative safe integers except negative zero.\<close>

fun validateSeq :: "json option \<Rightarrow> (compaction_error, nat) res" where
  "validateSeq (Some (JNum (JInt i))) = (if 0 \<le> i \<and> i \<le> MAX_SAFE_INTEGER then Inr (nat i) else Inl Bad_Seq)"
| "validateSeq _ = Inl Bad_Seq"

fun validate_seqs :: "json list \<Rightarrow> (compaction_error, nat list) res" where
  "validate_seqs [] = Inr []"
| "validate_seqs (j # js) = rbind (validateSeq (Some j)) (\<lambda>s. rbind (validate_seqs js) (\<lambda>ss. Inr (s # ss)))"

definition trace_nodes ::
  "projection_def list \<Rightarrow> (compaction_trace, compaction_error, nat list) sx" where
  "trace_nodes ps t = (case manager_nodes ps (tr_events t) 0 (tr_surface t) of
     (m, Inl e) \<Rightarrow> (t\<lparr>tr_surface := m\<rparr>, Inl (Surface_Failure e))
   | (m, Inr ns) \<Rightarrow> (t\<lparr>tr_surface := m\<rparr>, Inr ns))"

text \<open>The checks of a shadowed span before and after the surface is read.\<close>

definition shadowed_claim :: "json \<Rightarrow> (compaction_error, nat \<times> nat \<times> nat list) res" where
  "shadowed_claim d =
     (case jget d ''shadowedRange'' of
        None \<Rightarrow> Inl Bad_Shape
      | Some r \<Rightarrow>
          rbind (validateSeq (jget r ''start'')) (\<lambda>s.
          rbind (validateSeq (jget r ''end'')) (\<lambda>t.
          case jarr (jget d ''shadowedSeqs'') of
            None \<Rightarrow> Inl Bad_Shape
          | Some js \<Rightarrow>
              rbind (validate_seqs js) (\<lambda>ss.
              if ss = [] then Inl Empty_Shadow
              else if hd ss \<noteq> s \<or> last ss \<noteq> t then Inl Range_Mismatch
              else Inr (s, t, ss)))))"

definition span_check :: "nat list \<Rightarrow> nat \<times> nat \<times> nat list \<Rightarrow> (compaction_error, unit) res" where
  "span_check surface = (\<lambda>(s, t, ss).
     case (index_of surface s, index_of surface t) of
       (Some i, Some j) \<Rightarrow>
         if j < i then Inl Span_Not_Current
         else require (take (j + 1 - i) (drop i surface) = ss) Span_Incomplete
     | _ \<Rightarrow> Inl Span_Not_Current)"

definition validateShadowedSeqs ::
  "projection_def list \<Rightarrow> raw_event \<Rightarrow> (compaction_trace, compaction_error, unit) sx" where
  "validateShadowedSeqs ps e =
     sx_bind (sx_lift (shadowed_claim (edata e))) (\<lambda>claim.
     sx_bind (trace_nodes ps) (\<lambda>surface. sx_lift (span_check surface claim)))"

definition validateSourceCommandId ::
  "json option \<Rightarrow> string option \<Rightarrow> (compaction_error, unit) res" where
  "validateSourceCommandId v expected = rbind (optional_id v) (\<lambda>c. require (c = expected) Command_Mismatch)"

definition validateCheckpoint ::
  "compaction_open option \<Rightarrow> json \<Rightarrow> (compaction_error, unit) res" where
  "validateCheckpoint opn src =
     rbind (validateId (jget src ''compactionId'')) (\<lambda>cid.
     rbind (optional_id (jget src ''sourceCommandId'')) (\<lambda>_.
     case opn of
       None \<Rightarrow> Inl No_Matching_Start
     | Some c \<Rightarrow>
         rbind (require (cid = co_id c) Id_Mismatch) (\<lambda>_.
         validateSourceCommandId (jget src ''sourceCommandId'') (co_command c))))"

definition isCompactCheckpointSource :: "json \<Rightarrow> bool" where
  "isCompactCheckpointSource src = (jget src ''kind'' = Some (JStr ''compact-checkpoint''))"

text \<open>The source of a replacement user message that is a compaction checkpoint.\<close>

definition checkpoint_source :: "raw_event \<Rightarrow> json option" where
  "checkpoint_source e =
     (if etype e = ''user/message'' \<and> isReplacementSurfaceEvent e then
        (case jget (edata e) ''source'' of
           Some src \<Rightarrow> if isCompactCheckpointSource src then Some src else None
         | None \<Rightarrow> None)
      else None)"

text \<open>The loop variable is the sequence of the last start not yet ended.\<close>

fun stale_starts :: "nat option \<Rightarrow> raw_event list \<Rightarrow> nat list" where
  "stale_starts opn [] = []"
| "stale_starts opn (e # es) =
     (if etype e = ''compaction/start'' then stale_starts (Some (eseq e)) es
      else if etype e = ''compaction/end'' then stale_starts None es
      else if etype e = ''session/end-seed'' then
        (case opn of None \<Rightarrow> [] | Some s \<Rightarrow> [s]) @ stale_starts None es
      else stale_starts opn es)"

definition inheritedOrphanStartSeqs :: "raw_event list \<Rightarrow> nat set" where
  "inheritedOrphanStartSeqs es = set (stale_starts None es)"

definition is_turn_boundary :: "raw_event \<Rightarrow> bool" where
  "is_turn_boundary e = (etype e = ''turn/start'' \<or> etype e = ''turn/end'')"

definition validateTurnBoundary :: "compaction_trace \<Rightarrow> raw_event \<Rightarrow> (compaction_error, unit) res" where
  "validateTurnBoundary t e =
     (if \<not> is_turn_boundary e \<or> tr_open t = None then Inr () else Inl Turn_Crosses_Compaction)"

definition applyTurnBoundary :: "compaction_trace \<Rightarrow> raw_event \<Rightarrow> compaction_trace \<times> bool" where
  "applyTurnBoundary t e =
     (if etype e = ''turn/start'' then (t\<lparr>tr_turn := jget (edata e) ''turn''\<rparr>, True)
      else if etype e = ''turn/end'' then (t\<lparr>tr_turn := js_null\<rparr>, True)
      else (t, False))"

definition validateOwner :: "json option \<Rightarrow> json option \<Rightarrow> (compaction_error, unit) res" where
  "validateOwner owner openTurn =
     (if owner = js_null then require (openTurn = js_null) Standalone_In_Turn
      else if openTurn = js_null then Inl Owner_Outside_Turn
      else require (js_same owner openTurn) Owner_Mismatch)"

section \<open>One compaction event\<close>

definition check_start :: "raw_event \<Rightarrow> compaction_trace \<Rightarrow> (compaction_error, compaction_transition) res" where
  "check_start e t = (let d = edata e in
     rbind (validateId (jget d ''compactionId'')) (\<lambda>cid.
     rbind (optional_id (jget d ''sourceCommandId'')) (\<lambda>cmd.
     rbind (require (tr_open t = None) Already_Compacting) (\<lambda>_.
     rbind (validateOwner (jget d ''turn'') (tr_turn t)) (\<lambda>_.
     Inr (To_Start cid cmd (eseq e) (jget d ''turn'')))))))"

text \<open>What a summary and an end check before their own conditions.\<close>

definition match_open :: "json \<Rightarrow> compaction_trace \<Rightarrow> (compaction_error, compaction_open) res" where
  "match_open d t =
     rbind (validateId (jget d ''compactionId'')) (\<lambda>cid.
     rbind (optional_id (jget d ''sourceCommandId'')) (\<lambda>_.
     case tr_open t of
       None \<Rightarrow> Inl No_Matching_Start
     | Some c \<Rightarrow>
         rbind (require (cid = co_id c) Id_Mismatch) (\<lambda>_.
         rbind (validateSourceCommandId (jget d ''sourceCommandId'') (co_command c)) (\<lambda>_. Inr c))))"

definition token_count_ok :: "json option \<Rightarrow> bool" where
  "token_count_ok v = (case v of
     Some (JNum (JInt i)) \<Rightarrow> 0 \<le> i \<and> i \<le> MAX_SAFE_INTEGER
   | Some (JNum JNegZero) \<Rightarrow> True
   | _ \<Rightarrow> False)"

definition check_summary ::
  "projection_def list \<Rightarrow> raw_event \<Rightarrow> (compaction_trace, compaction_error, compaction_transition) sx" where
  "check_summary ps e =
     sx_bind (sx_get (match_open (edata e))) (\<lambda>c.
     sx_bind (sx_get (\<lambda>t. validateOwner (co_turn c) (tr_turn t))) (\<lambda>_.
     sx_bind (sx_lift (require (\<not> co_summarized c) Summary_Repeated)) (\<lambda>_.
     sx_bind (validateShadowedSeqs ps e) (\<lambda>_.
     sx_bind (sx_lift (require (token_count_ok (jget (edata e) ''shadowedTokenCount'')) Bad_Token_Count)) (\<lambda>_.
     sx_return (To_Summary (co_id c) (co_command c) (co_start c) (co_turn c)))))))"

definition check_end :: "raw_event \<Rightarrow> compaction_trace \<Rightarrow> (compaction_error, compaction_transition) res" where
  "check_end e t = (let d = edata e in
     rbind (match_open d t) (\<lambda>c.
     rbind (require (js_same (jget d ''turn'') (co_turn c)) End_Owner_Mismatch) (\<lambda>_.
     rbind (validateOwner (co_turn c) (tr_turn t)) (\<lambda>_.
     rbind (require (jget d ''error'' \<noteq> None \<or> co_summarized c) Missing_Summary) (\<lambda>_.
     Inr To_End)))))"

definition validateCompactionEvent ::
  "projection_def list \<Rightarrow> raw_event \<Rightarrow> (compaction_trace, compaction_error, compaction_transition option) sx" where
  "validateCompactionEvent ps e =
     (if etype e = ''session/end-seed'' then sx_return (Some To_End_Seed)
      else if etype e = ''compaction/prune'' then sx_bind (validateShadowedSeqs ps e) (\<lambda>_. sx_return None)
      else case checkpoint_source e of
        Some src \<Rightarrow> sx_bind (sx_get (\<lambda>t. validateCheckpoint (tr_open t) src)) (\<lambda>_. sx_return None)
      | None \<Rightarrow>
          if etype e = ''compaction/start'' then sx_bind (sx_get (check_start e)) (\<lambda>tr. sx_return (Some tr))
          else if etype e = ''compaction/summary'' then sx_bind (check_summary ps e) (\<lambda>tr. sx_return (Some tr))
          else if etype e = ''compaction/end'' then sx_bind (sx_get (check_end e)) (\<lambda>tr. sx_return (Some tr))
          else sx_return None)"

fun applyCompactionTransition :: "compaction_transition \<Rightarrow> compaction_open option" where
  "applyCompactionTransition (To_Start i c s t) =
     Some \<lparr>co_id = i, co_command = c, co_start = s, co_turn = t, co_summarized = False\<rparr>"
| "applyCompactionTransition (To_Summary i c s t) =
     Some \<lparr>co_id = i, co_command = c, co_start = s, co_turn = t, co_summarized = True\<rparr>"
| "applyCompactionTransition To_End = None"
| "applyCompactionTransition To_End_Seed = None"

section \<open>Seeding from a stored log\<close>

definition fresh_compaction_trace :: compaction_trace where
  "fresh_compaction_trace =
     \<lparr>tr_turn = js_null, tr_open = None, tr_events = [], tr_surface = new_manager 0\<rparr>"

definition commit_transition :: "compaction_transition option \<Rightarrow> compaction_trace \<Rightarrow> compaction_trace" where
  "commit_transition tr t = (case tr of None \<Rightarrow> t | Some x \<Rightarrow> t\<lparr>tr_open := applyCompactionTransition x\<rparr>)"

definition push_event :: "raw_event \<Rightarrow> compaction_trace \<Rightarrow> compaction_trace" where
  "push_event e t = t\<lparr>tr_events := tr_events t @ [e]\<rparr>"

definition seed_event ::
  "projection_def list \<Rightarrow> nat set \<Rightarrow> raw_event \<Rightarrow> (compaction_trace, compaction_error, unit) sx" where
  "seed_event ps stale e =
     sx_bind (sx_get (\<lambda>t. case tr_open t of
         None \<Rightarrow> validateTurnBoundary t e
       | Some c \<Rightarrow> if co_start c \<in> stale then Inr () else validateTurnBoundary t e)) (\<lambda>_.
     sx_bind (validateCompactionEvent ps e) (\<lambda>tr t.
       (push_event e (fst (applyTurnBoundary (commit_transition tr t) e)), Inr ())))"

fun seed_events ::
  "projection_def list \<Rightarrow> nat set \<Rightarrow> raw_event list \<Rightarrow> (compaction_trace, compaction_error, unit) sx" where
  "seed_events ps stale [] = sx_return ()"
| "seed_events ps stale (e # es) = sx_bind (seed_event ps stale e) (\<lambda>_. seed_events ps stale es)"

definition compaction_seed :: "projection_def list \<Rightarrow> raw_event list \<Rightarrow> compaction_trace \<times> (compaction_error, unit) res" where
  "compaction_seed ps evs = seed_events ps (inheritedOrphanStartSeqs evs) evs fresh_compaction_trace"

section \<open>Following live appends\<close>

record companion =
  cp_trace :: compaction_trace
  cp_staged :: "(nat, compaction_transition) amap"   \<comment> \<open>by event identity\<close>

definition fresh_companion :: companion where
  "fresh_companion = \<lparr>cp_trace = fresh_compaction_trace, cp_staged = []\<rparr>"

text \<open>Before the commit: validate against the committed trace and stage the transition.\<close>

definition companion_dispatch ::
  "projection_def list \<Rightarrow> raw_event \<Rightarrow> (companion, compaction_error, unit) sx" where
  "companion_dispatch ps e cp =
     (case validateTurnBoundary (cp_trace cp) e of
        Inl x \<Rightarrow> (cp, Inl x)
      | Inr _ \<Rightarrow>
          (case validateCompactionEvent ps e (cp_trace cp) of
             (t, Inl x) \<Rightarrow> (cp\<lparr>cp_trace := t\<rparr>, Inl x)
           | (t, Inr None) \<Rightarrow> (cp\<lparr>cp_trace := t\<rparr>, Inr ())
           | (t, Inr (Some tr)) \<Rightarrow>
               (cp\<lparr>cp_trace := t, cp_staged := amap_set (cp_staged cp) (oref e) tr\<rparr>, Inr ())))"

definition is_staged_type :: "raw_event \<Rightarrow> bool" where
  "is_staged_type e = List.member
     [''session/end-seed'', ''compaction/start'', ''compaction/summary'', ''compaction/end''] (etype e)"

text \<open>After the commit.\<close>

definition companion_published :: "raw_event \<Rightarrow> (companion, compaction_error, unit) sx" where
  "companion_published e cp =
     (case validateTurnBoundary (cp_trace cp) e of
        Inl x \<Rightarrow> (cp, Inl x)
      | Inr _ \<Rightarrow>
          (let (t, changedTurn) = applyTurnBoundary (cp_trace cp) e in
           if \<not> changedTurn \<and> \<not> is_staged_type e then (cp\<lparr>cp_trace := push_event e t\<rparr>, Inr ())
           else if changedTurn then (cp\<lparr>cp_trace := push_event e t\<rparr>, Inr ())
           else case amap_get (cp_staged cp) (oref e) of
             None \<Rightarrow> (cp\<lparr>cp_trace := t\<rparr>, Inl Not_Staged)
           | Some tr \<Rightarrow>
               (cp\<lparr>cp_staged := amap_del (cp_staged cp) (oref e),
                  cp_trace := push_event e (t\<lparr>tr_open := applyCompactionTransition tr\<rparr>)\<rparr>, Inr ())))"

text \<open>
  A session followed by the companion. An append is committed when no hook refuses it; \<open>Refused\<close>
  is an append that the companion staged, or refused itself, and that was not committed.
\<close>

datatype companion_op = Append raw_event | Refused raw_event

fun companion_step ::
  "projection_def list \<Rightarrow> raw_event list \<times> companion \<Rightarrow> companion_op \<Rightarrow> raw_event list \<times> companion" where
  "companion_step ps (evs, cp) (Append e) =
     (case companion_dispatch ps e cp of
        (cp', Inl _) \<Rightarrow> (evs, cp')
      | (cp', Inr _) \<Rightarrow> (evs @ [e], fst (companion_published e cp')))"
| "companion_step ps (evs, cp) (Refused e) = (evs, fst (companion_dispatch ps e cp))"

fun companion_run ::
  "projection_def list \<Rightarrow> raw_event list \<times> companion \<Rightarrow> companion_op list \<Rightarrow> raw_event list \<times> companion" where
  "companion_run ps s [] = s"
| "companion_run ps s (x # xs) = companion_run ps (companion_step ps s x) xs"

end
