(* ===== verification/Compaction_Laws.thy ===== *)
theory Compaction_Laws
  imports Compaction
begin

text \<open>
  What the compaction companion guarantees: reloading a log it followed gives the trace it had,
  compactions are properly bracketed, and every recorded shadowed span is a span of the surface.
\<close>

section \<open>The surface manager as a reader\<close>

definition reader_ok :: "projection_def list \<Rightarrow> raw_event list \<Rightarrow> manager \<Rightarrow> bool" where
  "reader_ok ps evs m \<longleftrightarrow> projections_local ps \<and> synced ps evs 0 m \<and> pending m = None"

definition surface_answer :: "projection_def list \<Rightarrow> raw_event list \<Rightarrow> (surface_error, nat list) res" where
  "surface_answer ps evs = (case state_at ps evs 0 (length evs) of Inl e \<Rightarrow> Inl e | Inr st \<Rightarrow> Inr (nodes st))"

lemma reader_ok_new: "projections_local ps \<Longrightarrow> reader_ok ps evs (new_manager 0)"
  by (simp add: reader_ok_def synced_new) (simp add: new_manager_def)

interpretation mr: log_reader "\<lambda>ps evs. manager_nodes ps evs 0" reader_ok surface_answer
proof unfold_locales
  fix ps evs m assume r: "reader_ok ps evs m"
  have a: "assertProjections ps evs 0 m = Inr ()" using r assertProjections_synced by (simp add: reader_ok_def)
  have s: "synced ps evs 0 m" using r by (simp add: reader_ok_def)
  show "snd (manager_nodes ps evs 0 m) = surface_answer ps evs"
    using synchronize_synced [OF s a]
    by (cases "synchronize ps evs 0 m") (auto simp: manager_nodes_def surface_answer_def split: option.splits)
  show "reader_ok ps evs (fst (manager_nodes ps evs 0 m))"
    using r synchronize_keeps_synced [OF s] pending_synchronize [of ps evs 0 m]
    by (auto simp: reader_ok_def pending_nodes)
next
  fix ps evs m later assume "reader_ok ps evs m"
  then show "reader_ok ps (evs @ later) m" using synced_append [of ps evs 0 m later] by (simp add: reader_ok_def)
qed

section \<open>Validation only reads the trace\<close>

definition trace_ok :: "projection_def list \<Rightarrow> compaction_trace \<Rightarrow> bool" where
  "trace_ok ps t = reader_ok ps (tr_events t) (tr_surface t)"

definition agree :: "projection_def list \<Rightarrow> compaction_trace \<Rightarrow> compaction_trace \<Rightarrow> bool" where
  "agree ps t u \<longleftrightarrow> tr_turn t = tr_turn u \<and> tr_open t = tr_open u \<and> tr_events t = tr_events u
     \<and> trace_ok ps t \<and> trace_ok ps u"

definition reads_only :: "projection_def list \<Rightarrow> (compaction_trace, 'e, 'a) sx \<Rightarrow> bool" where
  "reads_only ps f \<longleftrightarrow> (\<forall>t u. agree ps t u \<longrightarrow> agree ps (fst (f t)) t \<and> snd (f t) = snd (f u))"

named_theorems reads_intros \<open>operations that only read the trace\<close>

lemma agree_sym: "agree ps t u \<Longrightarrow> agree ps u t"
  by (simp add: agree_def)

lemma agree_trans: "agree ps t u \<Longrightarrow> agree ps u w \<Longrightarrow> agree ps t w"
  by (simp add: agree_def)

lemma agree_refl: "trace_ok ps t \<Longrightarrow> agree ps t t"
  by (simp add: agree_def)

lemma reads_only_return [reads_intros]: "reads_only ps (sx_return a)"
  by (auto simp: reads_only_def sx_return_def agree_def)

lemma reads_only_lift [reads_intros]: "reads_only ps (sx_lift r)"
  by (auto simp: reads_only_def sx_lift_def agree_def)

lemma reads_only_get [reads_intros]:
  assumes "\<And>t u. tr_turn t = tr_turn u \<Longrightarrow> tr_open t = tr_open u \<Longrightarrow> g t = g u"
  shows "reads_only ps (sx_get g)"
  unfolding reads_only_def sx_get_def fst_conv snd_conv
proof (intro allI impI conjI)
  fix t u assume tu: "agree ps t u"
  show "agree ps t t" using tu by (simp add: agree_def)
  show "g t = g u" by (rule assms) (use tu in \<open>simp_all add: agree_def\<close>)
qed

lemma reads_only_bind [reads_intros]:
  assumes "reads_only ps f" "\<And>a. reads_only ps (g a)" shows "reads_only ps (sx_bind f g)"
  unfolding reads_only_def
proof (intro allI impI)
  fix t u assume tu: "agree ps t u"
  note f = assms(1) [unfolded reads_only_def, rule_format]
  have t: "agree ps (fst (f t)) t" and r: "snd (f t) = snd (f u)" using f [OF tu] by simp_all
  have u: "agree ps (fst (f u)) u" using f [OF agree_sym [OF tu]] by simp
  have tu': "agree ps (fst (f t)) (fst (f u))"
    by (rule agree_trans [OF t agree_trans [OF tu agree_sym [OF u]]])
  show "agree ps (fst (sx_bind f g t)) t \<and> snd (sx_bind f g t) = snd (sx_bind f g u)"
  proof (cases "snd (f t)")
    case (Inl e)
    then show ?thesis using t r by (simp add: sx_bind_def split_beta)
  next
    case (Inr a)
    note g = assms(2) [of a, unfolded reads_only_def, rule_format, OF tu']
    show ?thesis using Inr r g agree_trans [OF _ t] by (simp add: sx_bind_def split_beta)
  qed
qed

lemma reads_only_nodes [reads_intros]: "reads_only ps (trace_nodes ps)"
  unfolding reads_only_def
proof (intro allI impI)
  fix t u assume tu: "agree ps t u"
  then have ok: "reader_ok ps (tr_events t) (tr_surface t)" "reader_ok ps (tr_events t) (tr_surface u)"
    by (auto simp: agree_def trace_ok_def)
  obtain m m' where "manager_nodes ps (tr_events t) 0 (tr_surface t) = (m, surface_answer ps (tr_events t))"
    "reader_ok ps (tr_events t) m"
    "manager_nodes ps (tr_events t) 0 (tr_surface u) = (m', surface_answer ps (tr_events t))"
    using mr.read_cases [OF ok(1)] mr.read_cases [OF ok(2)] by blast
  then show "agree ps (fst (trace_nodes ps t)) t \<and> snd (trace_nodes ps t) = snd (trace_nodes ps u)"
    using tu by (auto simp: trace_nodes_def agree_def trace_ok_def split: sum.splits)
qed

lemma reads_only_shadowed [reads_intros]: "reads_only ps (validateShadowedSeqs ps e)"
  unfolding validateShadowedSeqs_def by (intro reads_intros)

lemma reads_only_summary [reads_intros]: "reads_only ps (check_summary ps e)"
  unfolding check_summary_def by (intro reads_intros) (auto simp: match_open_def)

lemma reads_only_validate: "reads_only ps (validateCompactionEvent ps e)"
  unfolding validateCompactionEvent_def
  by (auto split: option.splits intro!: reads_intros simp: check_start_def check_end_def match_open_def)

lemma validate_agrees:
  assumes "agree ps t u"
  obtains t' r where "validateCompactionEvent ps e t = (t', r)" "agree ps t' t"
    "snd (validateCompactionEvent ps e u) = r"
  using assms reads_only_validate [of ps e] unfolding reads_only_def by (metis prod.collapse)

section \<open>What an accepted event tells\<close>

lemma trace_nodes_Inr:
  assumes "trace_ok ps t" "trace_nodes ps t = (t', Inr ns)"
  shows "\<exists>st. state_at ps (tr_events t) 0 (length (tr_events t)) = Inr st \<and> ns = nodes st"
  using assms mr.read_answer [of ps "tr_events t" "tr_surface t"]
  by (auto simp: trace_nodes_def trace_ok_def surface_answer_def split: prod.splits sum.splits)

lemma span_check_slice:
  assumes "span_check surface (s, t, ss) = Inr u"
  shows "\<exists>pre post. surface = pre @ ss @ post"
proof -
  from assms obtain i j where "take (j + 1 - i) (drop i surface) = ss"
    by (auto simp: span_check_def split: option.splits if_splits)
  then have "surface = take i surface @ ss @ drop (j + 1 - i) (drop i surface)"
    by (metis append_take_drop_id)
  then show ?thesis by blast
qed

lemma validate_seqs_Inr:
  "validate_seqs js = Inr ss \<Longrightarrow> js = map (\<lambda>s. JNum (JInt (int s))) ss"
proof (induction js arbitrary: ss)
  case (Cons j js)
  then obtain s ss' where "validateSeq (Some j) = Inr s" "validate_seqs js = Inr ss'" "ss = s # ss'"
    by (auto simp: rbind_eq_Inr)
  then show ?case using Cons.IH [of ss'] by (cases "Some j" rule: validateSeq.cases) (auto split: if_splits)
qed simp

lemma validateSeq_Inr: "validateSeq v = Inr s \<longleftrightarrow> (\<exists>i. v = Some (JNum (JInt i)) \<and> 0 \<le> i \<and> i \<le> MAX_SAFE_INTEGER \<and> s = nat i)"
  by (cases v rule: validateSeq.cases) auto

lemma shadowed_claim_Inr:
  assumes "shadowed_claim d = Inr (s, t, ss)"
  shows "ss \<noteq> [] \<and> jget d ''shadowedSeqs'' = Some (JArr (map (\<lambda>s. JNum (JInt (int s))) ss)) \<and>
     (\<exists>r. jget d ''shadowedRange'' = Some r \<and> jget r ''start'' = Some (JNum (JInt (int (hd ss))))
        \<and> jget r ''end'' = Some (JNum (JInt (int (last ss)))))"
proof -
  from assms obtain r js where r: "jget d ''shadowedRange'' = Some r" "validateSeq (jget r ''start'') = Inr s"
    "validateSeq (jget r ''end'') = Inr t" "jarr (jget d ''shadowedSeqs'') = Some js"
    "validate_seqs js = Inr ss" "ss \<noteq> []" "hd ss = s" "last ss = t"
    by (auto simp: shadowed_claim_def rbind_eq_Inr split: option.splits if_splits)
  have "jget d ''shadowedSeqs'' = Some (JArr js)"
    using r(4) by (cases "jget d ''shadowedSeqs''" rule: jarr.cases) auto
  then show ?thesis using r validate_seqs_Inr [OF r(5)] by (auto simp: validateSeq_Inr)
qed

lemma validateShadowed_Inr:
  assumes "trace_ok ps t" "validateShadowedSeqs ps e t = (t', Inr u)"
  shows "\<exists>s q ss st pre post. shadowed_claim (edata e) = Inr (s, q, ss) \<and>
     state_at ps (tr_events t) 0 (length (tr_events t)) = Inr st \<and> nodes st = pre @ ss @ post"
proof -
  from assms(2) obtain s q ss t1 ns where c: "shadowed_claim (edata e) = Inr (s, q, ss)"
    "trace_nodes ps t = (t1, Inr ns)" "span_check ns (s, q, ss) = Inr u"
    by (auto simp: validateShadowedSeqs_def sx_simps split: prod.splits sum.splits)
  then show ?thesis using trace_nodes_Inr [OF assms(1) c(2)] span_check_slice [OF c(3)] by blast
qed

lemma checkpoint_type: "checkpoint_source e = Some src \<Longrightarrow> etype e = ''user/message''"
  by (auto simp: checkpoint_source_def split: if_splits)

text \<open>The transition an accepted event stages, by its type.\<close>

lemma validate_cases:
  assumes "validateCompactionEvent ps e t = (t', Inr tr)"
  obtains (end_seed) "etype e = ''session/end-seed''" "tr = Some To_End_Seed"
  | (start) x where "etype e = ''compaction/start''" "check_start e t = Inr x" "tr = Some x"
  | (summary) x where "etype e = ''compaction/summary''" "check_summary ps e t = (t', Inr x)" "tr = Some x"
  | (finish) x where "etype e = ''compaction/end''" "check_end e t = Inr x" "tr = Some x"
  | (other) "\<not> is_staged_type e" "tr = None"
  using assms checkpoint_type [of e]
  by (auto simp: validateCompactionEvent_def sx_simps is_staged_type_def
      split: if_splits option.splits prod.splits sum.splits)

lemma staged_iff: "validateCompactionEvent ps e t = (t', Inr tr) \<Longrightarrow> (tr \<noteq> None) = is_staged_type e"
  by (erule validate_cases) (auto simp: is_staged_type_def)

section \<open>Live following and seeding commit the same\<close>

definition commit_event :: "compaction_transition option \<Rightarrow> raw_event \<Rightarrow> compaction_trace \<Rightarrow> compaction_trace" where
  "commit_event tr e t = push_event e (fst (applyTurnBoundary (commit_transition tr t) e))"

lemma commit_event_fields:
  "tr_events (commit_event tr e t) = tr_events t @ [e]"
  "tr_surface (commit_event tr e t) = tr_surface t"
  "tr_open (commit_event tr e t) = (case tr of None \<Rightarrow> tr_open t | Some x \<Rightarrow> applyCompactionTransition x)"
  "tr_turn (commit_event tr e t) =
     (if etype e = ''turn/start'' then jget (edata e) ''turn'' else if etype e = ''turn/end'' then js_null else tr_turn t)"
  by (auto simp: commit_event_def push_event_def applyTurnBoundary_def commit_transition_def split: option.splits)

lemma trace_ok_commit: "trace_ok ps t \<Longrightarrow> trace_ok ps (commit_event tr e t)"
  unfolding trace_ok_def commit_event_fields by (rule mr.append_ok)

lemma agree_commit: "agree ps t u \<Longrightarrow> agree ps (commit_event tr e t) (commit_event tr e u)"
  using trace_ok_commit by (auto simp: agree_def commit_event_fields split: option.splits)

lemma agree_ok: "agree ps t u \<Longrightarrow> trace_ok ps t \<and> trace_ok ps u"
  by (simp add: agree_def)

lemma turn_boundary_agree: "agree ps t u \<Longrightarrow> validateTurnBoundary t e = validateTurnBoundary u e"
  by (simp add: agree_def validateTurnBoundary_def)

lemma seed_event_accepts:
  assumes "agree ps t u" "validateTurnBoundary u e = Inr ()" "validateCompactionEvent ps e u = (u', Inr tr)"
  shows "\<exists>t'. seed_event ps stale e t = (t', Inr ()) \<and> agree ps t' (commit_event tr e u)"
proof -
  obtain t1 r where v: "validateCompactionEvent ps e t = (t1, r)" "agree ps t1 t"
    "snd (validateCompactionEvent ps e u) = r"
    by (rule validate_agrees [OF assms(1)])
  have "r = Inr tr" using v(3) assms(3) by simp
  note v = v(1,2) this
  have "seed_event ps stale e t = (commit_event tr e t1, Inr ())"
    using v assms(2) turn_boundary_agree [OF assms(1), of e]
    by (auto simp: seed_event_def sx_simps commit_event_def split: option.splits)
  then show ?thesis using agree_commit [OF agree_trans [OF v(2) assms(1)]] by blast
qed

lemma published_commits:
  assumes "agree ps t u" "validateTurnBoundary u e = Inr ()" "validateCompactionEvent ps e u = (u', Inr tr)"
    and "cp_trace cp = t" "\<And>x. tr = Some x \<Longrightarrow> amap_get (cp_staged cp) (oref e) = Some x"
  shows "cp_trace (fst (companion_published e cp)) = commit_event tr e t \<and> snd (companion_published e cp) = Inr ()"
proof -
  have b: "validateTurnBoundary t e = Inr ()" using turn_boundary_agree [OF assms(1)] assms(2) by simp
  have st: "(tr \<noteq> None) = is_staged_type e" by (rule staged_iff [OF assms(3)])
  show ?thesis
  proof (cases tr)
    case None
    then show ?thesis using b st assms(4)
      by (auto simp: companion_published_def commit_event_def commit_transition_def Let_def split: prod.splits)
  next
    case (Some x)
    then have "applyTurnBoundary t' e = (t', False)" for t'
      using st by (auto simp: is_staged_type_def applyTurnBoundary_def)
    then show ?thesis using b st Some assms(4) assms(5) [OF Some]
      by (auto simp: companion_published_def commit_event_def commit_transition_def)
  qed
qed

lemma dispatch_cases:
  assumes "trace_ok ps (cp_trace cp)"
  obtains (refused) cp' x where "companion_dispatch ps e cp = (cp', Inl x)" "agree ps (cp_trace cp') (cp_trace cp)"
  | (staged) cp' u' tr where "companion_dispatch ps e cp = (cp', Inr ())" "agree ps (cp_trace cp') (cp_trace cp)"
      "validateTurnBoundary (cp_trace cp) e = Inr ()" "validateCompactionEvent ps e (cp_trace cp) = (u', Inr tr)"
      "\<And>x. tr = Some x \<Longrightarrow> amap_get (cp_staged cp') (oref e) = Some x"
proof -
  note ok = agree_refl [OF assms]
  obtain t' r where v: "validateCompactionEvent ps e (cp_trace cp) = (t', r)" "agree ps t' (cp_trace cp)"
    using validate_agrees [OF ok, of e] by blast
  show ?thesis
  proof (cases "validateTurnBoundary (cp_trace cp) e")
    case (Inl x)
    then show ?thesis using refused [of cp x] ok by (simp add: companion_dispatch_def)
  next
    case b: (Inr u)
    show ?thesis
    proof (cases r)
      case (Inl x)
      then show ?thesis using refused [of "cp\<lparr>cp_trace := t'\<rparr>" x] v b by (simp add: companion_dispatch_def)
    next
      case (Inr tr)
      then show ?thesis
        using staged [of "fst (companion_dispatch ps e cp)" t' tr] v b
        by (cases tr) (auto simp: companion_dispatch_def)
    qed
  qed
qed

section \<open>Reloading\<close>

lemma seed_events_append:
  "seed_events ps stale (xs @ ys) t = (case seed_events ps stale xs t of
     (t', Inl x) \<Rightarrow> (t', Inl x) | (t', Inr _) \<Rightarrow> seed_events ps stale ys t')"
  by (induction xs arbitrary: t) (auto simp: sx_simps split: prod.splits sum.splits)

lemma seed_event_mono:
  assumes "seed_event ps stale e t = (t', Inr ())" "stale \<subseteq> stale'"
  shows "seed_event ps stale' e t = (t', Inr ())"
  using assms by (auto simp: seed_event_def sx_simps split: option.splits if_splits prod.splits sum.splits)

lemma seed_events_Cons:
  "seed_events ps stale (e # es) t = (t', Inr ()) \<longleftrightarrow>
   (\<exists>t1. seed_event ps stale e t = (t1, Inr ()) \<and> seed_events ps stale es t1 = (t', Inr ()))"
  by (cases "seed_event ps stale e t"; cases "snd (seed_event ps stale e t)") (simp_all add: sx_simps)

lemma seed_events_mono:
  "seed_events ps stale es t = (t', Inr ()) \<Longrightarrow> stale \<subseteq> stale' \<Longrightarrow> seed_events ps stale' es t = (t', Inr ())"
proof (induction es arbitrary: t)
  case (Cons e es)
  then obtain t1 where "seed_event ps stale e t = (t1, Inr ())" "seed_events ps stale es t1 = (t', Inr ())"
    unfolding seed_events_Cons by blast
  then show ?case unfolding seed_events_Cons using Cons.IH [of t1] Cons.prems(2) seed_event_mono by blast
qed simp

lemma stale_starts_append: "set (stale_starts opn xs) \<subseteq> set (stale_starts opn (xs @ ys))"
  by (induction opn xs rule: stale_starts.induct) auto

lemma seed_event_inv:
  assumes "seed_event ps stale e t = (t', Inr ())" "trace_ok ps t"
  obtains u tr where "validateCompactionEvent ps e t = (u, Inr tr)" "agree ps u t" "t' = commit_event tr e u"
    "(case tr_open t of None \<Rightarrow> True | Some c \<Rightarrow> co_start c \<in> stale \<or> validateTurnBoundary t e = Inr ())"
proof -
  obtain u r where v: "validateCompactionEvent ps e t = (u, r)" "agree ps u t"
    using validate_agrees [OF agree_refl [OF assms(2)], of e] by blast
  let ?b = "case tr_open t of None \<Rightarrow> validateTurnBoundary t e
     | Some c \<Rightarrow> if co_start c \<in> stale then Inr () else validateTurnBoundary t e"
  have b: "?b = Inr ()"
    using assms(1) by (cases ?b) (simp_all add: seed_event_def sx_simps)
  obtain tr where r: "r = Inr tr"
    using assms(1) v(1) b by (cases r) (simp_all add: seed_event_def sx_simps)
  have "t' = commit_event tr e u"
    using assms(1) v(1) b r by (simp add: seed_event_def sx_simps commit_event_def)
  moreover have "case tr_open t of None \<Rightarrow> True | Some c \<Rightarrow> co_start c \<in> stale \<or> validateTurnBoundary t e = Inr ()"
    using b by (simp split: option.splits if_splits)
  ultimately show ?thesis using that v r by blast
qed

lemma fresh_trace_ok: "projections_local ps \<Longrightarrow> trace_ok ps fresh_compaction_trace"
  by (simp add: trace_ok_def fresh_compaction_trace_def reader_ok_new)

lemma seed_events_ok:
  "seed_events ps stale es t = (t', Inr ()) \<Longrightarrow> trace_ok ps t \<Longrightarrow> trace_ok ps t' \<and> tr_events t' = tr_events t @ es"
proof (induction es arbitrary: t)
  case (Cons e es)
  then obtain t1 where t1: "seed_event ps stale e t = (t1, Inr ())" "seed_events ps stale es t1 = (t', Inr ())"
    unfolding seed_events_Cons by blast
  obtain u tr where u: "agree ps u t" "t1 = commit_event tr e u" using seed_event_inv [OF t1(1) Cons.prems(2)] .
  have "trace_ok ps t1" using u trace_ok_commit agree_ok by blast
  then show ?case using Cons.IH [OF t1(2)] u by (simp add: commit_event_fields agree_def)
qed (simp add: sx_simps)

definition reloads :: "projection_def list \<Rightarrow> raw_event list \<Rightarrow> compaction_trace \<Rightarrow> bool" where
  "reloads ps evs t \<longleftrightarrow> (\<forall>stale. inheritedOrphanStartSeqs evs \<subseteq> stale \<longrightarrow>
     (\<exists>t'. seed_events ps stale evs fresh_compaction_trace = (t', Inr ()) \<and> agree ps t' t)) \<and> tr_events t = evs"

lemma reloads_seed:
  assumes "projections_local ps" "compaction_seed ps evs = (t, Inr ())" shows "reloads ps evs t"
proof -
  have s: "seed_events ps (inheritedOrphanStartSeqs evs) evs fresh_compaction_trace = (t, Inr ())"
    using assms(2) by (simp add: compaction_seed_def)
  have ok: "trace_ok ps t" "tr_events t = evs"
    using seed_events_ok [OF s fresh_trace_ok [OF assms(1)]] by (simp_all add: fresh_compaction_trace_def)
  show ?thesis using ok seed_events_mono [OF s] agree_refl by (auto simp: reloads_def)
qed

lemma reloads_ok: "reloads ps evs t \<Longrightarrow> trace_ok ps t"
  by (auto simp: reloads_def agree_def)

lemma reloads_agree: "reloads ps evs t \<Longrightarrow> agree ps u t \<Longrightarrow> reloads ps evs u"
  unfolding reloads_def by (meson agree_def agree_sym agree_trans)

lemma reloads_step:
  assumes "reloads ps evs (cp_trace cp)" "companion_step ps (evs, cp) x = (evs', cp')"
  shows "reloads ps evs' (cp_trace cp')"
proof -
  have ok: "trace_ok ps (cp_trace cp)" using reloads_ok [OF assms(1)] .
  have refuse: "reloads ps evs (cp_trace (fst (companion_dispatch ps e cp)))" for e
    by (rule dispatch_cases [OF ok, of e]) (auto intro: reloads_agree [OF assms(1)])
  show ?thesis
  proof (cases x)
    case (Refused e)
    then show ?thesis using assms(2) refuse [of e] by auto
  next
    case (Append e)
    show ?thesis
    proof (rule dispatch_cases [OF ok, of e])
      fix cp1 x assume d: "companion_dispatch ps e cp = (cp1, Inl x)"
      then show ?thesis using assms(2) Append refuse [of e] by auto
    next
      fix cp1 u' tr
      assume d: "companion_dispatch ps e cp = (cp1, Inr ())" "agree ps (cp_trace cp1) (cp_trace cp)"
        "validateTurnBoundary (cp_trace cp) e = Inr ()" "validateCompactionEvent ps e (cp_trace cp) = (u', Inr tr)"
        "\<And>x. tr = Some x \<Longrightarrow> amap_get (cp_staged cp1) (oref e) = Some x"
      have c: "cp_trace (fst (companion_published e cp1)) = commit_event tr e (cp_trace cp1)"
        using published_commits [OF d(2-4) refl d(5)] by blast
      have r: "evs' = evs @ [e]" "cp_trace cp' = commit_event tr e (cp_trace cp1)"
        using assms(2) Append d(1) c by auto
      have ev: "tr_events (cp_trace cp) = evs" using assms(1) by (simp add: reloads_def)
      have "\<exists>t'. seed_events ps stale (evs @ [e]) fresh_compaction_trace = (t', Inr ())
          \<and> agree ps t' (commit_event tr e (cp_trace cp1))"
        if sub: "inheritedOrphanStartSeqs (evs @ [e]) \<subseteq> stale" for stale
      proof -
        have "inheritedOrphanStartSeqs evs \<subseteq> stale"
          using sub stale_starts_append [of None evs "[e]"] by (auto simp: inheritedOrphanStartSeqs_def)
        then obtain t1 where t1: "seed_events ps stale evs fresh_compaction_trace = (t1, Inr ())" "agree ps t1 (cp_trace cp)"
          using assms(1) by (auto simp: reloads_def)
        obtain t2 where t2: "seed_event ps stale e t1 = (t2, Inr ())" "agree ps t2 (commit_event tr e (cp_trace cp))"
          using seed_event_accepts [OF t1(2) d(3,4)] by blast
        have "agree ps t2 (commit_event tr e (cp_trace cp1))"
          using t2(2) agree_commit [OF agree_sym [OF d(2)]] agree_trans by blast
        then show ?thesis using t1(1) t2(1) by (simp add: seed_events_append sx_simps)
      qed
      then show ?thesis using r ev d(2) by (auto simp: reloads_def commit_event_fields agree_def)
    qed
  qed
qed

lemma reloads_run:
  "reloads ps evs (cp_trace cp) \<Longrightarrow> companion_run ps (evs, cp) xs = (evs', cp') \<Longrightarrow> reloads ps evs' (cp_trace cp')"
proof (induction xs arbitrary: evs cp)
  case (Cons x xs)
  obtain evs1 cp1 where c: "companion_step ps (evs, cp) x = (evs1, cp1)" by fastforce
  show ?case using Cons.IH [OF reloads_step [OF Cons.prems(1) c]] Cons.prems(2) c by simp
qed simp

section \<open>Bracketing\<close>

text \<open>The turn a log leaves open, and the owner a compaction may have there.\<close>

definition open_turn :: "raw_event list \<Rightarrow> json option" where
  "open_turn evs = foldl (\<lambda>t e. if etype e = ''turn/start'' then jget (edata e) ''turn''
     else if etype e = ''turn/end'' then js_null else t) js_null evs"

definition owned :: "compaction_open \<Rightarrow> json option \<Rightarrow> bool" where
  "owned c t \<longleftrightarrow> (if co_turn c = js_null then t = js_null else t \<noteq> js_null \<and> js_same (co_turn c) t)"

text \<open>A record that carries the identity and the command of a compaction.\<close>

definition names :: "compaction_open \<Rightarrow> json \<Rightarrow> bool" where
  "names c d \<longleftrightarrow> jget d ''compactionId'' = Some (JStr (co_id c)) \<and> optional_id (jget d ''sourceCommandId'') = Inr (co_command c)"

definition opens :: "raw_event \<Rightarrow> compaction_open \<Rightarrow> bool" where
  "opens s c \<longleftrightarrow> etype s = ''compaction/start'' \<and> names c (edata s) \<and> jget (edata s) ''turn'' = co_turn c"

text \<open>
  What may stand inside a compaction: no turn boundary, no other start or end, no end of a seed; a summary
  and a checkpoint only when they carry the identity and the command of the compaction around them.
\<close>

definition inside :: "compaction_open \<Rightarrow> raw_event \<Rightarrow> bool" where
  "inside c e \<longleftrightarrow> \<not> is_turn_boundary e \<and> etype e \<notin> {''compaction/start'', ''compaction/end'', ''session/end-seed''}
     \<and> (etype e = ''compaction/summary'' \<longrightarrow> names c (edata e)) \<and> (\<forall>src. checkpoint_source e = Some src \<longrightarrow> names c src)"

definition summaries :: "raw_event list \<Rightarrow> nat" where
  "summaries es = length (filter (\<lambda>e. etype e = ''compaction/summary'') es)"

definition bracket :: "raw_event list \<Rightarrow> compaction_open option \<Rightarrow> bool" where
  "bracket evs opn \<longleftrightarrow> (\<forall>c. opn = Some c \<longrightarrow> (\<exists>pre s body. evs = pre @ s # body \<and> opens s c \<and> owned c (open_turn pre)
     \<and> list_all (inside c) body \<and> summaries body = (if co_summarized c then 1 else 0)))"

definition closed_by :: "raw_event list \<Rightarrow> raw_event \<Rightarrow> bool" where
  "closed_by evs e \<longleftrightarrow> (\<exists>pre s body c. evs = pre @ s # body \<and> opens s c \<and> owned c (open_turn pre)
     \<and> list_all (inside c) body \<and> names c (edata e) \<and> js_same (jget (edata e) ''turn'') (co_turn c)
     \<and> summaries body \<le> 1 \<and> (jget (edata e) ''error'' = None \<longrightarrow> summaries body = 1))"

definition all_closed :: "raw_event list \<Rightarrow> bool" where
  "all_closed evs \<longleftrightarrow> (\<forall>before e after. evs = before @ e # after \<longrightarrow> etype e = ''compaction/end'' \<longrightarrow> closed_by before e)"

lemma same_compaction:
  "opens s (c\<lparr>co_summarized := b\<rparr>) = opens s c" "owned (c\<lparr>co_summarized := b\<rparr>) = owned c"
  "inside (c\<lparr>co_summarized := b\<rparr>) = inside c"
  by (auto simp: opens_def owned_def inside_def names_def fun_eq_iff)

lemma open_turn_snoc:
  "open_turn (evs @ [e]) = (if etype e = ''turn/start'' then jget (edata e) ''turn''
     else if etype e = ''turn/end'' then js_null else open_turn evs)"
  by (simp add: open_turn_def)

lemma validateOwner_owned: "validateOwner (co_turn c) t = Inr () \<Longrightarrow> owned c t"
  by (auto simp: validateOwner_def owned_def split: if_splits)

lemma all_closed_snoc:
  "all_closed evs \<Longrightarrow> (etype e = ''compaction/end'' \<Longrightarrow> closed_by evs e) \<Longrightarrow> all_closed (evs @ [e])"
  unfolding all_closed_def
proof (intro allI impI)
  fix before x after
  assume a: "\<forall>before e after. evs = before @ e # after \<longrightarrow> etype e = ''compaction/end'' \<longrightarrow> closed_by before e"
    "etype e = ''compaction/end'' \<Longrightarrow> closed_by evs e" "evs @ [e] = before @ x # after" "etype x = ''compaction/end''"
  show "closed_by before x"
  proof (cases after rule: rev_cases)
    case Nil
    then show ?thesis using a by simp
  next
    case (snoc ys y)
    then show ?thesis using a by auto
  qed
qed

lemma bracket_inside:
  assumes "bracket evs opn" "\<And>c. opn = Some c \<Longrightarrow> inside c e"
    and "opn' = (if etype e = ''compaction/summary'' then map_option (\<lambda>c. c\<lparr>co_summarized := True\<rparr>) opn else opn)"
    and "\<And>c. opn = Some c \<Longrightarrow> etype e = ''compaction/summary'' \<Longrightarrow> \<not> co_summarized c"
  shows "bracket (evs @ [e]) opn'"
  unfolding bracket_def
proof (intro allI impI)
  fix c' assume c': "opn' = Some c'"
  then obtain c where c: "opn = Some c" using assms(3) by (auto split: if_splits)
  then obtain pre s body where b: "evs = pre @ s # body" "opens s c" "owned c (open_turn pre)" "list_all (inside c) body"
    "summaries body = (if co_summarized c then 1 else 0)" using assms(1) by (auto simp: bracket_def)
  have c'_def: "c' = (if etype e = ''compaction/summary'' then c\<lparr>co_summarized := True\<rparr> else c)"
    using c c' assms(3) by (auto split: if_splits)
  then have same: "opens s c' = opens s c" "owned c' = owned c" "inside c' = inside c"
    by (auto simp: same_compaction split: if_splits)
  have "summaries (body @ [e]) = (if co_summarized c' then 1 else 0)"
    using c'_def assms(4) [OF c] b(5) by (auto simp: summaries_def split: if_splits)
  then show "\<exists>pre s body. evs @ [e] = pre @ s # body \<and> opens s c' \<and> owned c' (open_turn pre)
     \<and> list_all (inside c') body \<and> summaries body = (if co_summarized c' then 1 else 0)"
    using b(1-4) assms(2) [OF c] same by (intro exI [of _ pre] exI [of _ s] exI [of _ "body @ [e]"]) simp
qed

lemma match_open_Inr:
  assumes "match_open d t = Inr c"
  shows "tr_open t = Some c \<and> names c d"
proof -
  from assms obtain cid where v: "validateId (jget d ''compactionId'') = Inr cid"
    and m: "(case tr_open t of None \<Rightarrow> Inl No_Matching_Start
       | Some c \<Rightarrow> rbind (require (cid = co_id c) Id_Mismatch) (\<lambda>_.
           rbind (validateSourceCommandId (jget d ''sourceCommandId'') (co_command c)) (\<lambda>_. Inr c))) = Inr c"
    unfolding match_open_def rbind_eq_Inr [of "validateId x" for x] rbind_eq_Inr [of "optional_id x" for x] by blast
  obtain c' where "tr_open t = Some c'" using m by (cases "tr_open t") simp_all
  with m have "tr_open t = Some c" "cid = co_id c" "validateSourceCommandId (jget d ''sourceCommandId'') (co_command c) = Inr ()"
    by (auto simp: rbind_eq_Inr)
  then have "tr_open t = Some c" "cid = co_id c" "optional_id (jget d ''sourceCommandId'') = Inr (co_command c)"
    by (simp_all add: validateSourceCommandId_def rbind_eq_Inr)
  then show ?thesis using v
    by (cases "jget d ''compactionId''" rule: validateId.cases) (auto simp: names_def split: if_splits)
qed

lemma validateCheckpoint_Inr:
  assumes "validateCheckpoint (Some c) src = Inr ()"
  shows "names c src"
proof -
  from assms obtain cid where v: "validateId (jget src ''compactionId'') = Inr cid" "cid = co_id c"
    "validateSourceCommandId (jget src ''sourceCommandId'') (co_command c) = Inr ()"
    by (auto simp: validateCheckpoint_def rbind_eq_Inr)
  then have "optional_id (jget src ''sourceCommandId'') = Inr (co_command c)"
    by (simp add: validateSourceCommandId_def rbind_eq_Inr)
  then show ?thesis using v
    by (cases "jget src ''compactionId''" rule: validateId.cases) (auto simp: names_def split: if_splits)
qed

lemma check_start_Inr:
  assumes "check_start e t = Inr x" "etype e = ''compaction/start''"
  shows "tr_open t = None \<and> (\<exists>c. applyCompactionTransition x = Some c \<and> opens e c \<and> owned c (tr_turn t) \<and> \<not> co_summarized c)"
proof -
  from assms(1) obtain cid cmd where i: "validateId (jget (edata e) ''compactionId'') = Inr cid"
    "optional_id (jget (edata e) ''sourceCommandId'') = Inr cmd" "tr_open t = None"
    "validateOwner (jget (edata e) ''turn'') (tr_turn t) = Inr ()" "x = To_Start cid cmd (eseq e) (jget (edata e) ''turn'')"
    by (auto simp: check_start_def rbind_eq_Inr Let_def)
  have "jget (edata e) ''compactionId'' = Some (JStr cid)"
    using i(1) by (cases "jget (edata e) ''compactionId''" rule: validateId.cases) (auto split: if_splits)
  then show ?thesis using i assms(2) validateOwner_owned [of "the (applyCompactionTransition x)" "tr_turn t"]
    by (auto simp: opens_def names_def)
qed

lemma check_summary_Inr:
  assumes "check_summary ps e t = (t', Inr x)"
  shows "\<exists>c. tr_open t = Some c \<and> names c (edata e) \<and> \<not> co_summarized c \<and> applyCompactionTransition x = Some (c\<lparr>co_summarized := True\<rparr>)"
proof -
  from assms obtain c where "match_open (edata e) t = Inr c" "\<not> co_summarized c"
    "x = To_Summary (co_id c) (co_command c) (co_start c) (co_turn c)"
    by (auto simp: check_summary_def sx_simps split: prod.splits sum.splits)
  then show ?thesis using match_open_Inr by (intro exI [of _ c]) auto
qed

lemma check_end_Inr:
  assumes "check_end e t = Inr x"
  shows "applyCompactionTransition x = None \<and> (\<exists>c. match_open (edata e) t = Inr c \<and>
     js_same (jget (edata e) ''turn'') (co_turn c) \<and> (jget (edata e) ''error'' \<noteq> None \<or> co_summarized c))"
  using assms by (auto simp: check_end_def rbind_eq_Inr Let_def)

lemma not_inside_cases:
  assumes "\<not> is_staged_type e" "validateTurnBoundary t e = Inr ()" "tr_open t = Some c"
    and "validateCompactionEvent ps e t = (u, Inr tr)"
  shows "inside c e"
proof -
  have "names c src" if src: "checkpoint_source e = Some src" for src
  proof -
    have "validateCheckpoint (Some c) src = Inr ()" using assms(3,4) checkpoint_type [OF src] src
      by (auto simp: validateCompactionEvent_def sx_simps split: prod.splits sum.splits)
    then show ?thesis by (rule validateCheckpoint_Inr)
  qed
  then show ?thesis using assms(1-3) by (auto simp: inside_def is_staged_type_def validateTurnBoundary_def split: if_splits)
qed

lemma commit_brackets:
  assumes "bracket evs (tr_open t)" "all_closed evs"
    and "validateTurnBoundary t e = Inr ()" "validateCompactionEvent ps e t = (u, Inr tr)" "tr_turn t = open_turn evs"
  shows "bracket (evs @ [e]) (tr_open (commit_event tr e t)) \<and> all_closed (evs @ [e])"
  using assms(4)
proof (cases rule: validate_cases)
  case end_seed
  then show ?thesis using assms(2) by (auto simp: commit_event_fields bracket_def intro!: all_closed_snoc)
next
  case (start x)
  then obtain c where c: "applyCompactionTransition x = Some c" "opens e c" "owned c (open_turn evs)" "\<not> co_summarized c"
    using check_start_Inr assms(5) by metis
  then have "evs @ [e] = evs @ e # [] \<and> opens e c \<and> owned c (open_turn evs) \<and> list_all (inside c) []
     \<and> summaries [] = (if co_summarized c then 1 else 0)" by (simp add: summaries_def)
  then have "bracket (evs @ [e]) (Some c)" unfolding bracket_def by blast
  then show ?thesis using start c assms(2) by (auto simp: commit_event_fields intro!: all_closed_snoc)
next
  case (summary x)
  then obtain c where c: "tr_open t = Some c" "\<not> co_summarized c"
    "applyCompactionTransition x = Some (c\<lparr>co_summarized := True\<rparr>)" "names c (edata e)" using check_summary_Inr by blast
  have "inside c e" using summary(1) c(4) by (auto simp: inside_def is_turn_boundary_def dest: checkpoint_type)
  then have "bracket (evs @ [e]) (Some (c\<lparr>co_summarized := True\<rparr>))"
    using bracket_inside [OF assms(1), of e "Some (c\<lparr>co_summarized := True\<rparr>)"] summary(1) c by simp
  then show ?thesis using summary c assms(2) by (auto simp: commit_event_fields intro!: all_closed_snoc)
next
  case (finish x)
  then obtain c where c: "applyCompactionTransition x = None" "match_open (edata e) t = Inr c"
    "js_same (jget (edata e) ''turn'') (co_turn c)" "jget (edata e) ''error'' \<noteq> None \<or> co_summarized c"
    using check_end_Inr by blast
  note m = match_open_Inr [OF c(2)]
  then obtain pre s body where "evs = pre @ s # body" "opens s c" "owned c (open_turn pre)" "list_all (inside c) body"
    "summaries body = (if co_summarized c then 1 else 0)" using assms(1) by (auto simp: bracket_def)
  then have "closed_by evs e"
    unfolding closed_by_def using m c(3,4)
    by (intro exI [of _ pre] exI [of _ s] exI [of _ body] exI [of _ c]) auto
  then show ?thesis using finish c(1) assms(2) by (auto simp: commit_event_fields bracket_def intro!: all_closed_snoc)
next
  case other
  have "bracket (evs @ [e]) (tr_open t)"
  proof (cases "tr_open t")
    case (Some c)
    have "inside d e" if "tr_open t = Some d" for d by (rule not_inside_cases [OF other(1) assms(3) that assms(4)])
    moreover have "etype e \<noteq> ''compaction/summary''" using other(1) by (auto simp: is_staged_type_def)
    ultimately show ?thesis using bracket_inside [OF assms(1), of e "tr_open t"] by simp
  qed (simp add: bracket_def)
  then show ?thesis using other assms(2)
    by (auto simp: commit_event_fields is_staged_type_def intro!: all_closed_snoc)
qed

lemma brackets_step:
  assumes "reloads ps evs (cp_trace cp)" "bracket evs (tr_open (cp_trace cp))" "all_closed evs"
    and "companion_step ps (evs, cp) x = (evs', cp')" "tr_turn (cp_trace cp) = open_turn evs"
  shows "bracket evs' (tr_open (cp_trace cp')) \<and> all_closed evs' \<and> tr_turn (cp_trace cp') = open_turn evs'"
proof -
  have ok: "trace_ok ps (cp_trace cp)" using reloads_ok [OF assms(1)] .
  have same: "tr_open (cp_trace (fst (companion_dispatch ps e cp))) = tr_open (cp_trace cp)
      \<and> tr_turn (cp_trace (fst (companion_dispatch ps e cp))) = tr_turn (cp_trace cp)" for e
    by (rule dispatch_cases [OF ok, of e]) (auto simp: agree_def)
  show ?thesis
  proof (cases x)
    case (Refused e)
    then show ?thesis using assms(2-5) same [of e] by auto
  next
    case (Append e)
    show ?thesis
    proof (rule dispatch_cases [OF ok, of e])
      fix cp1 x assume d: "companion_dispatch ps e cp = (cp1, Inl x)"
      then show ?thesis using assms(2-5) Append same [of e] by auto
    next
      fix cp1 u' tr
      assume d: "companion_dispatch ps e cp = (cp1, Inr ())" "agree ps (cp_trace cp1) (cp_trace cp)"
        "validateTurnBoundary (cp_trace cp) e = Inr ()" "validateCompactionEvent ps e (cp_trace cp) = (u', Inr tr)"
        "\<And>x. tr = Some x \<Longrightarrow> amap_get (cp_staged cp1) (oref e) = Some x"
      have "cp_trace (fst (companion_published e cp1)) = commit_event tr e (cp_trace cp1)"
        using published_commits [OF d(2-4) refl d(5)] by blast
      then have r: "evs' = evs @ [e]" "cp_trace cp' = commit_event tr e (cp_trace cp1)"
        using assms(4) Append d(1) by auto
      have "tr_open (cp_trace cp') = tr_open (commit_event tr e (cp_trace cp))"
        using r d(2) by (simp add: commit_event_fields agree_def split: option.splits)
      moreover have "tr_turn (cp_trace cp') = open_turn evs'"
        using r d(2) assms(5) by (simp add: commit_event_fields agree_def open_turn_snoc)
      ultimately show ?thesis using commit_brackets [OF assms(2,3) d(3,4) assms(5)] r by simp
    qed
  qed
qed

lemma brackets_run:
  "reloads ps evs (cp_trace cp) \<Longrightarrow> bracket evs (tr_open (cp_trace cp)) \<Longrightarrow> all_closed evs \<Longrightarrow>
   tr_turn (cp_trace cp) = open_turn evs \<Longrightarrow> companion_run ps (evs, cp) xs = (evs', cp') \<Longrightarrow> all_closed evs'"
proof (induction xs arbitrary: evs cp)
  case (Cons x xs)
  obtain evs1 cp1 where c: "companion_step ps (evs, cp) x = (evs1, cp1)" by fastforce
  show ?case
    using Cons.IH [OF reloads_step [OF Cons.prems(1) c]] brackets_step [OF Cons.prems(1-3) c Cons.prems(4)] Cons.prems(5) c by simp
qed simp

section \<open>Recorded spans\<close>

lemma fold_rest_total:
  "state_at ps evs 0 k = Inr st \<Longrightarrow> state_at ps evs 0 (length evs) = Inr st' \<Longrightarrow> k \<le> length evs \<Longrightarrow>
   \<exists>rs'. fold_rest ps evs 0 k (st, rs) (drop k evs) = Inr (st', rs')"
proof (induction "length evs - k" arbitrary: k st rs)
  case (Suc n)
  then have k: "k < length evs" by simp
  obtain st1 where st1: "state_at ps evs 0 (Suc k) = Inr st1"
    using state_at_mono [OF Suc.prems(2), of "Suc k"] k by auto
  then obtain r where r: "applySurfaceEvent ps st (evs ! k) k evs 0 = Inr (st1, r)"
    using Suc.prems(1) by (auto simp: rbind_eq_Inr)
  have "n = length evs - Suc k" using Suc.hyps(2) by simp
  from Suc.hyps(1) [OF this st1 Suc.prems(2)] k r show ?case by (simp add: Cons_nth_drop_Suc [symmetric])
qed simp

lemma foldSurface_total:
  "state_at ps evs 0 (length evs) = Inr st \<Longrightarrow> \<exists>rs. foldSurface ps evs = Inr (st, rs)"
  using fold_rest_total [of ps evs 0 createFoldState st "[]"] by (simp add: foldSurface_def)

lemma seed_prefix:
  assumes "projections_local ps" "compaction_seed ps (before @ e # after) = (t, Inr ())"
  obtains t1 u tr where "trace_ok ps t1" "tr_events t1 = before" "validateCompactionEvent ps e t1 = (u, Inr tr)"
proof -
  let ?stale = "inheritedOrphanStartSeqs (before @ e # after)"
  obtain t1 r where t1: "seed_events ps ?stale before fresh_compaction_trace = (t1, r)" by fastforce
  have rest: "r = Inr ()" "seed_events ps ?stale (e # after) t1 = (t, Inr ())"
    using assms(2) t1 by (cases r; simp add: compaction_seed_def seed_events_append)+
  obtain t2 where t2: "seed_event ps ?stale e t1 = (t2, Inr ())" using rest(2) unfolding seed_events_Cons by blast
  have ok: "trace_ok ps t1" "tr_events t1 = before"
    using seed_events_ok [OF t1 [unfolded rest(1)] fresh_trace_ok [OF assms(1)]]
    by (simp_all add: fresh_compaction_trace_def)
  show ?thesis using seed_event_inv [OF t2 ok(1)] that ok by metis
qed

lemma validate_span:
  assumes "validateCompactionEvent ps e t = (u, Inr tr)"
    and "etype e = ''compaction/summary'' \<or> etype e = ''compaction/prune''"
  shows "\<exists>t'. validateShadowedSeqs ps e t = (t', Inr ())"
proof -
  have "checkpoint_source e = None" using assms(2) checkpoint_type [of e] by (cases "checkpoint_source e") auto
  then show ?thesis using assms
    by (auto simp: validateCompactionEvent_def check_summary_def sx_simps split: prod.splits sum.splits)
qed

section \<open>Properties\<close>

text \<open>A session with one compaction: the turn ends, a standalone compaction folds two messages.\<close>

definition compaction_id :: "string \<times> json" where
  "compaction_id = (''compactionId'', JStr ''c1'')"

definition demo_compaction :: "raw_event list" where
  "demo_compaction =
    [ev0 ''user/message'' 0 (JObj [(''role'', JStr ''user'')]) (Some (JStr ''append'')) None,
     ev0 ''assistant/message'' 1 (JObj []) (Some (JStr ''append'')) None,
     ev0 ''compaction/start'' 2 (JObj [compaction_id, (''turn'', JNull)]) None None,
     ev0 ''compaction/summary'' 3
       (JObj [compaction_id, (''shadowedRange'', JObj [(''start'', JNum (JInt 0)), (''end'', JNum (JInt 1))]),
          (''shadowedSeqs'', seqs_json [0, 1]), (''shadowedTokenCount'', JNum (JInt 7))]) None None,
     ev0 ''user/message'' 4
       (JObj [(''role'', JStr ''user''), (''source'', JObj [(''kind'', JStr ''compact-checkpoint''), compaction_id])])
       (Some (JObj [(''op'', JStr ''replace''), (''startSeq'', JNum (JInt 0)), (''endSeq'', JNum (JInt 1))]))
       (Some (seqs_json [0, 1])),
     ev0 ''compaction/end'' 5 (JObj [compaction_id, (''turn'', JNull)]) None None]"

definition demo_ops_live :: "companion_op list" where
  "demo_ops_live = Refused (demo_compaction ! 4) # map Append (drop 2 demo_compaction)"

definition demo_seed :: compaction_trace where
  "demo_seed = fst (compaction_seed [] (take 2 demo_compaction))"

definition demo_companion :: companion where
  "demo_companion = snd (companion_run [] (take 2 demo_compaction, \<lparr>cp_trace = demo_seed, cp_staged = []\<rparr>) demo_ops_live)"

lemma no_projections_local: "projections_local []"
  by (simp add: projections_local_def)

text \<open>
  Claim C20. Reloading agrees with living: a log that was seeded without a violation and then
  followed append by append, with any refused appends in between, is accepted again from scratch,
  and the rebuilt trace has the same open turn and the same open compaction.
\<close>

theorem compaction_reload_agrees:
  assumes "projections_local ps" "compaction_seed ps evs0 = (t0, Inr ())"
    and "companion_run ps (evs0, \<lparr>cp_trace = t0, cp_staged = []\<rparr>) ops = (evs, cp)"
  shows "\<exists>t. compaction_seed ps evs = (t, Inr ()) \<and> tr_open t = tr_open (cp_trace cp)
     \<and> tr_turn t = tr_turn (cp_trace cp) \<and> tr_events (cp_trace cp) = evs"
  using reloads_run [OF _ assms(3)] reloads_seed [OF assms(1,2)]
  by (auto simp: reloads_def agree_def compaction_seed_def)

theorem compaction_reload_agrees_witness:
  "\<exists>t. compaction_seed [] demo_compaction = (t, Inr ()) \<and> tr_open t = None \<and> tr_turn t = js_null"
proof -
  have s: "compaction_seed [] (take 2 demo_compaction) = (demo_seed, Inr ())" by code_simp
  have r: "companion_run [] (take 2 demo_compaction, \<lparr>cp_trace = demo_seed, cp_staged = []\<rparr>) demo_ops_live
      = (demo_compaction, demo_companion)" by code_simp
  have "tr_open (cp_trace demo_companion) = None" "tr_turn (cp_trace demo_companion) = js_null" by code_simp+
  then show ?thesis using compaction_reload_agrees [OF no_projections_local s r] by auto
qed

text \<open>
  Claim C19. Compactions are bracketed: a recorded \<open>compaction/end\<close> closes an earlier start with the same
  identity, command and owner, and the owner is the turn open there (no turn for a standalone one). Between
  the two stands no turn boundary, no other compaction start or end and no seed marker; any other event may
  (messages, prunes). Every summary and every checkpoint message between them carries the identity and the
  command of that start. There is at most one summary, and exactly one unless the end records an error.
\<close>

theorem compaction_bracketed:
  assumes "projections_local ps"
    and "companion_run ps ([], fresh_companion) ops = (before @ e # after, cp)" "etype e = ''compaction/end''"
  shows "closed_by before e"
proof -
  have seed: "compaction_seed ps [] = (fresh_compaction_trace, Inr ())"
    by (simp add: compaction_seed_def sx_simps)
  have "all_closed (before @ e # after)"
    using brackets_run [OF _ _ _ _ assms(2)] reloads_seed [OF assms(1) seed]
    by (simp add: fresh_companion_def fresh_compaction_trace_def bracket_def all_closed_def open_turn_def)
  then show ?thesis using assms(3) by (auto simp: all_closed_def)
qed

theorem compaction_bracketed_witness:
  "closed_by (take 5 demo_compaction) (demo_compaction ! 5)"
proof -
  have "companion_run [] ([], fresh_companion) (map Append demo_compaction)
      = (take 5 demo_compaction @ demo_compaction ! 5 # [],
         snd (companion_run [] ([], fresh_companion) (map Append demo_compaction)))" by code_simp
  from compaction_bracketed [OF no_projections_local this] show ?thesis by (simp add: demo_compaction_def ev0_def)
qed

text \<open>
  Recorded spans are honest: the sequences a stored summary or prune claims to shadow are
  a non-empty contiguous span of the surface of the log before it, and its range names their ends.
\<close>

theorem compaction_spans_current:
  assumes "projections_local ps" "compaction_seed ps (before @ e # after) = (t, Inr ())"
    and "etype e = ''compaction/summary'' \<or> etype e = ''compaction/prune''"
  shows "\<exists>st rs pre ss post r. foldSurface ps before = Inr (st, rs) \<and> nodes st = pre @ ss @ post \<and> ss \<noteq> []
     \<and> jget (edata e) ''shadowedSeqs'' = Some (JArr (map (\<lambda>s. JNum (JInt (int s))) ss))
     \<and> jget (edata e) ''shadowedRange'' = Some r
     \<and> jget r ''start'' = Some (JNum (JInt (int (hd ss)))) \<and> jget r ''end'' = Some (JNum (JInt (int (last ss))))"
proof -
  obtain t1 u tr where t1: "trace_ok ps t1" "tr_events t1 = before" "validateCompactionEvent ps e t1 = (u, Inr tr)"
    by (rule seed_prefix [OF assms(1,2)])
  obtain t' where "validateShadowedSeqs ps e t1 = (t', Inr ())" using validate_span [OF t1(3) assms(3)] by blast
  from validateShadowed_Inr [OF t1(1) this] obtain s q ss st pre post where
    c: "shadowed_claim (edata e) = Inr (s, q, ss)" "state_at ps before 0 (length before) = Inr st"
    "nodes st = pre @ ss @ post" using t1(2) by auto
  show ?thesis using shadowed_claim_Inr [OF c(1)] foldSurface_total [OF c(2)] c(3) by metis
qed

theorem compaction_spans_current_witness:
  "\<exists>st rs pre ss post. foldSurface [] (take 3 demo_compaction) = Inr (st, rs) \<and> nodes st = pre @ ss @ post
     \<and> ss \<noteq> [] \<and> seqs_json [0, 1] = JArr (map (\<lambda>s. JNum (JInt (int s))) ss)"
proof -
  have s: "compaction_seed [] (take 3 demo_compaction @ demo_compaction ! 3 # drop 4 demo_compaction)
      = (fst (compaction_seed [] demo_compaction), Inr ())" by code_simp
  have t: "etype (demo_compaction ! 3) = ''compaction/summary'' \<or> etype (demo_compaction ! 3) = ''compaction/prune''"
    and d: "jget (edata (demo_compaction ! 3)) ''shadowedSeqs'' = Some (seqs_json [0, 1])" by code_simp+
  show ?thesis using compaction_spans_current [OF no_projections_local s t] unfolding d by (metis option.inject)
qed

end
