(* ===== verification/Js_Date.thy ===== *)
theory Js_Date
  imports Prelude
begin

text \<open>
  The calendar behind JavaScript's \<open>Date\<close>: the proleptic Gregorian calendar over days and
  milliseconds, and fixed-width digit fields of date strings. Days are counted from 0001-01-01,
  instants in milliseconds from 1970-01-01.
\<close>

section \<open>Years and months\<close>

definition leap_year :: "int \<Rightarrow> bool" where
  "leap_year y = (y mod 4 = 0 \<and> (y mod 100 \<noteq> 0 \<or> y mod 400 = 0))"

definition days_before_year :: "int \<Rightarrow> int" where
  "days_before_year y = 365 * (y - 1) + (y - 1) div 4 - (y - 1) div 100 + (y - 1) div 400"

definition days_before_month :: "bool \<Rightarrow> int \<Rightarrow> int" where
  "days_before_month leap m =
     [0, 31, 59, 90, 120, 151, 181, 212, 243, 273, 304, 334, 365] ! nat (m - 1) + (if leap \<and> 2 < m then 1 else 0)"

definition days_in_month :: "bool \<Rightarrow> int \<Rightarrow> int" where
  "days_in_month leap m = days_before_month leap (m + 1) - days_before_month leap m"

definition day_of_civil :: "int \<Rightarrow> int \<Rightarrow> int \<Rightarrow> int" where
  "day_of_civil y m d = days_before_year y + days_before_month (leap_year y) m + d - 1"

text \<open>\<open>MakeDay\<close>: a month or a day beyond its range carries over.\<close>

definition make_day :: "int \<Rightarrow> int \<Rightarrow> int \<Rightarrow> int" where
  "make_day y m d = day_of_civil (y + (m - 1) div 12) ((m - 1) mod 12 + 1) d"

definition valid_civil :: "int \<Rightarrow> int \<Rightarrow> int \<Rightarrow> bool" where
  "valid_civil y m d \<longleftrightarrow> 1 \<le> m \<and> m \<le> 12 \<and> 1 \<le> d \<and> d \<le> days_in_month (leap_year y) m"

definition year_of_day :: "int \<Rightarrow> int" where
  "year_of_day n =
     (let a = n div 146097; r = n mod 146097;
          b = min 3 (r div 36524); r2 = r - 36524 * b;
          c = r2 div 1461; r3 = r2 mod 1461;
          e = min 3 (r3 div 365)
      in 400 * a + 100 * b + 4 * c + e + 1)"

definition month_of_doy :: "bool \<Rightarrow> int \<Rightarrow> int" where
  "month_of_doy leap q = int (length (filter (\<lambda>m. days_before_month leap m \<le> q) [1, 2, 3, 4, 5, 6, 7, 8, 9, 10, 11, 12]))"

definition civil_of_day :: "int \<Rightarrow> int \<times> int \<times> int" where
  "civil_of_day n =
     (let y = year_of_day n; q = n - days_before_year y; m = month_of_doy (leap_year y) q
      in (y, m, q - days_before_month (leap_year y) m + 1))"

section \<open>The calendar is a bijection\<close>

text \<open>A year by its place in the 400-, 100- and 4-year cycles.\<close>

lemma days_before_parts:
  assumes "0 \<le> b" "b < 4" "0 \<le> c" "c < 25" "0 \<le> e" "e < 4"
  shows "days_before_year (400 * a + 100 * b + 4 * c + e + 1) = 146097 * a + 36524 * b + 1461 * c + 365 * e"
proof -
  let ?x = "400 * a + 100 * b + 4 * c + e"
  have "?x div 4 = 100 * a + 25 * b + c" using assms by (intro int_div_pos_eq [of _ _ _ e]) auto
  moreover have "?x div 100 = 4 * a + b" using assms by (intro int_div_pos_eq [of _ _ _ "4 * c + e"]) auto
  moreover have "?x div 400 = a" using assms by (intro int_div_pos_eq [of _ _ _ "100 * b + 4 * c + e"]) auto
  ultimately show ?thesis by (simp add: days_before_year_def)
qed

lemma leap_parts:
  assumes "0 \<le> b" "b < 4" "0 \<le> c" "c < 25" "0 \<le> e" "e < 4"
  shows "leap_year (400 * a + 100 * b + 4 * c + e + 1) \<longleftrightarrow> e = 3 \<and> (c < 24 \<or> b = 3)"
proof -
  let ?x = "400 * a + 100 * b + 4 * c + e + 1"
  have m4: "?x mod 4 = (if e = 3 then 0 else e + 1)"
    using assms by (intro int_mod_pos_eq [of _ _ "100 * a + 25 * b + c + (if e = 3 then 1 else 0)"]) auto
  have m100: "?x mod 100 = (if c = 24 \<and> e = 3 then 0 else 4 * c + e + 1)"
    using assms by (intro int_mod_pos_eq [of _ _ "4 * a + b + (if c = 24 \<and> e = 3 then 1 else 0)"]) auto
  have m400: "?x mod 400 = (if b = 3 \<and> c = 24 \<and> e = 3 then 0 else 100 * b + 4 * c + e + 1)"
    using assms by (intro int_mod_pos_eq [of _ _ "a + (if b = 3 \<and> c = 24 \<and> e = 3 then 1 else 0)"]) auto
  show ?thesis unfolding leap_year_def m4 m100 m400 using assms by auto
qed

lemma year_parts:
  obtains a b c e :: int where "y = 400 * a + 100 * b + 4 * c + e + 1"
    "0 \<le> b" "b < 4" "0 \<le> c" "c < 25" "0 \<le> e" "e < 4"
proof -
  let ?r = "(y - 1) mod 400" let ?s = "?r mod 100"
  show ?thesis
  proof (rule that [of "(y - 1) div 400" "?r div 100" "?s div 4" "?s mod 4"])
    have "y - 1 = 400 * ((y - 1) div 400) + ?r" "?r = 100 * (?r div 100) + ?s" "?s = 4 * (?s div 4) + ?s mod 4"
      by (simp_all only: mult_div_mod_eq)
    then show "y = 400 * ((y - 1) div 400) + 100 * (?r div 100) + 4 * (?s div 4) + ?s mod 4 + 1" by linarith
    have "0 \<le> ?r" "?r < 400" "0 \<le> ?s" "?s < 100" by simp_all
    then show "0 \<le> ?r div 100" "?r div 100 < 4" "0 \<le> ?s div 4" "?s div 4 < 25" "0 \<le> ?s mod 4" "?s mod 4 < 4"
      by (simp_all add: div_less_iff_less_mult pos_imp_zdiv_nonneg_iff)
  qed
qed

lemma next_year: "days_before_year (y + 1) = days_before_year y + 365 + (if leap_year y then 1 else 0)"
proof (rule year_parts [of y])
  fix a b c e :: int
  assume y: "y = 400 * a + 100 * b + 4 * c + e + 1"
    and r: "0 \<le> b" "b < 4" "0 \<le> c" "c < 25" "0 \<le> e" "e < 4"
  note y0 = days_before_parts [OF r, of a] leap_parts [OF r, of a]
  consider "e < 3" | "e = 3" "c < 24" | "e = 3" "c = 24" "b < 3" | "e = 3" "c = 24" "b = 3" using r by linarith
  then show ?thesis
  proof cases
    case 1
    then show ?thesis using y y0 days_before_parts [of b c "e + 1" a] r by (simp add: algebra_simps)
  next
    case 2
    then show ?thesis using y y0 days_before_parts [of b "c + 1" 0 a] r by (simp add: algebra_simps)
  next
    case 3
    then show ?thesis using y y0 days_before_parts [of "b + 1" 0 0 a] r by (simp add: algebra_simps)
  next
    case 4
    then show ?thesis using y y0 days_before_parts [of 0 0 0 "a + 1"] r by (simp add: algebra_simps)
  qed
qed

lemma year_of_day_bounds:
  "days_before_year (year_of_day n) \<le> n \<and>
   n < days_before_year (year_of_day n) + 365 + (if leap_year (year_of_day n) then 1 else 0)"
proof -
  define a r where "a = n div 146097" and "r = n mod 146097"
  define b r2 where "b = min 3 (r div 36524)" and "r2 = r - 36524 * b"
  define c r3 where "c = r2 div 1461" and "r3 = r2 mod 1461"
  define e where "e = min 3 (r3 div 365)"
  have y: "year_of_day n = 400 * a + 100 * b + 4 * c + e + 1"
    by (simp add: year_of_day_def Let_def a_def r_def b_def r2_def c_def r3_def e_def)
  have n: "n = 146097 * a + r" "0 \<le> r" "r < 146097" by (simp_all add: a_def r_def)
  have qb: "36524 * (r div 36524) \<le> r" "r < 36524 * (r div 36524) + 36524" by presburger+
  have b: "0 \<le> b" "b < 4" using n by (simp_all add: b_def pos_imp_zdiv_nonneg_iff)
  have r2: "0 \<le> r2" "r2 < (if b = 3 then 36525 else 36524)"
    using qb n by (auto simp: r2_def b_def min_def)
  have c: "r2 = 1461 * c + r3" "0 \<le> r3" "r3 < 1461" by (simp_all add: c_def r3_def)
  have c': "0 \<le> c" "c < 25" using c r2 by (auto split: if_splits)
  have qe: "365 * (r3 div 365) \<le> r3" "r3 < 365 * (r3 div 365) + 365" by presburger+
  have e: "0 \<le> e" "e < 4" using c by (simp_all add: e_def pos_imp_zdiv_nonneg_iff)
  have d: "days_before_year (year_of_day n) = 146097 * a + 36524 * b + 1461 * c + 365 * e"
    unfolding y by (rule days_before_parts [OF b c' e])
  have l: "leap_year (year_of_day n) \<longleftrightarrow> e = 3 \<and> (c < 24 \<or> b = 3)"
    unfolding y by (rule leap_parts [OF b c' e])
  have s: "n - days_before_year (year_of_day n) = r3 - 365 * e" using d n c r2_def by simp
  have "365 * e \<le> r3" using qe by (auto simp: e_def min_def)
  moreover have "r3 < 365 * e + 365 + (if e = 3 \<and> (c < 24 \<or> b = 3) then 1 else 0)"
  proof (cases "e = 3")
    case True
    then show ?thesis using c r2 c' by (auto split: if_splits)
  next
    case False
    then show ?thesis using qe by (auto simp: e_def min_def split: if_splits)
  qed
  ultimately show ?thesis using s l by auto
qed

lemma days_before_year_mono: "y < z \<Longrightarrow> days_before_year y + 365 \<le> days_before_year z"
proof -
  assume "y < z"
  have "days_before_year y + 365 \<le> days_before_year (y + 1 + int k)" for k
  proof (induction k)
    case 0
    then show ?case by (simp add: next_year)
  next
    case (Suc k)
    have "days_before_year (y + 1 + int k) \<le> days_before_year (y + 1 + int k + 1)"
      using next_year [of "y + 1 + int k"] by (auto split: if_splits)
    then show ?case using Suc by (simp add: algebra_simps)
  qed
  from this [of "nat (z - y - 1)"] show ?thesis using \<open>y < z\<close> by simp
qed

lemma year_of_day_unique:
  assumes "days_before_year y \<le> n" "n < days_before_year (y + 1)"
  shows "year_of_day n = y"
proof (rule ccontr)
  let ?z = "year_of_day n"
  assume "?z \<noteq> y"
  note z = year_of_day_bounds [of n] next_year [of ?z]
  consider "?z < y" | "y < ?z" using \<open>?z \<noteq> y\<close> by linarith
  then show False
  proof cases
    case 1
    then have "?z + 1 = y \<or> ?z + 1 < y" by linarith
    then have "days_before_year (?z + 1) \<le> days_before_year y"
      using days_before_year_mono [of "?z + 1" y] by auto
    then show False using z assms by linarith
  next
    case 2
    then have "y + 1 = ?z \<or> y + 1 < ?z" by linarith
    then have "days_before_year (y + 1) \<le> days_before_year ?z"
      using days_before_year_mono [of "y + 1" ?z] by auto
    then show False using z assms by linarith
  qed
qed

text \<open>Within a year.\<close>

lemma month_cases:
  "1 \<le> m \<Longrightarrow> m \<le> 12 \<Longrightarrow> m = 1 \<or> m = 2 \<or> m = 3 \<or> m = 4 \<or> m = 5 \<or> m = 6 \<or> m = 7 \<or> m = 8
     \<or> m = 9 \<or> m = 10 \<or> m = 11 \<or> m = (12 :: int)"
  by presburger

lemma month_table:
  "map (days_before_month leap) [1, 2, 3, 4, 5, 6, 7, 8, 9, 10, 11, 12, 13]
   = (if leap then [0, 31, 60, 91, 121, 152, 182, 213, 244, 274, 305, 335, 366]
      else [0, 31, 59, 90, 120, 151, 181, 212, 243, 273, 304, 334, 365])"
  by (simp add: days_before_month_def)

lemma month_of_doy_unique:
  assumes "1 \<le> m" "m \<le> 12" "days_before_month leap m \<le> q" "q < days_before_month leap (m + 1)"
  shows "month_of_doy leap q = m"
  using assms(3,4) month_cases [OF assms(1,2)]
  by (elim disjE; cases leap) (simp_all add: month_of_doy_def days_before_month_def)

lemma month_of_doy_bounds:
  assumes "0 \<le> q" "q < 365 + (if leap then 1 else 0)"
  shows "1 \<le> month_of_doy leap q \<and> month_of_doy leap q \<le> 12 \<and>
     days_before_month leap (month_of_doy leap q) \<le> q \<and> q < days_before_month leap (month_of_doy leap q + 1)"
proof -
  have t: "days_before_month leap 1 \<le> q" "\<not> days_before_month leap 13 \<le> q"
    using assms month_table [of leap] by (auto split: if_splits)
  have "\<exists>k < 12. days_before_month leap (1 + int k) \<le> q \<and> \<not> days_before_month leap (1 + int (Suc k)) \<le> q"
    using ex_least_nat_less [of "\<lambda>k. \<not> days_before_month leap (1 + int k) \<le> q" 12] t by force
  then obtain k where k: "k < 12" "days_before_month leap (1 + int k) \<le> q" "q < days_before_month leap (1 + int k + 1)"
    by (auto simp: algebra_simps not_le)
  have "month_of_doy leap q = 1 + int k" using k by (intro month_of_doy_unique) auto
  then show ?thesis using k by simp
qed

lemma valid_civil_doy:
  assumes "valid_civil y m d"
  shows "0 \<le> days_before_month (leap_year y) m" "days_before_month (leap_year y) (m + 1) \<le> 365 + (if leap_year y then 1 else 0)"
  using assms month_cases [of m] by (auto simp: valid_civil_def days_before_month_def)

lemma civil_of_day_of_civil:
  assumes "valid_civil y m d" shows "civil_of_day (day_of_civil y m d) = (y, m, d)"
proof -
  let ?l = "leap_year y" let ?q = "days_before_month ?l m + d - 1"
  have v: "1 \<le> m" "m \<le> 12" "1 \<le> d" "d \<le> days_in_month ?l m" using assms by (auto simp: valid_civil_def)
  have q: "0 \<le> ?q" "?q < 365 + (if ?l then 1 else 0)" "?q < days_before_month ?l (m + 1)"
    using valid_civil_doy [OF assms] v by (auto simp: days_in_month_def)
  have n: "day_of_civil y m d = days_before_year y + ?q" by (simp add: day_of_civil_def)
  have "year_of_day (day_of_civil y m d) = y" using q by (intro year_of_day_unique) (simp_all add: n next_year)
  moreover have "month_of_doy ?l ?q = m" using v q by (intro month_of_doy_unique) auto
  ultimately show ?thesis using n by (simp add: civil_of_day_def Let_def)
qed

lemma day_of_civil_of_day:
  "case civil_of_day n of (y, m, d) \<Rightarrow> valid_civil y m d \<and> day_of_civil y m d = n"
proof -
  let ?y = "year_of_day n" let ?q = "n - days_before_year ?y"
  have "0 \<le> ?q" "?q < 365 + (if leap_year ?y then 1 else 0)" using year_of_day_bounds [of n] by auto
  from month_of_doy_bounds [OF this] show ?thesis
    by (auto simp: civil_of_day_def Let_def valid_civil_def day_of_civil_def days_in_month_def)
qed

section \<open>Instants\<close>

record civil_time =
  c_year :: int
  c_month :: int
  c_day :: int
  c_hour :: int
  c_minute :: int
  c_second :: int
  c_ms :: int

definition EPOCH_DAY :: int where
  "EPOCH_DAY = 719162"

definition MS_PER_DAY :: int where
  "MS_PER_DAY = 86400000"

definition epoch_of_fields :: "civil_time \<Rightarrow> int" where
  "epoch_of_fields p = (make_day (c_year p) (c_month p) (c_day p) - EPOCH_DAY) * MS_PER_DAY
     + ((c_hour p * 60 + c_minute p) * 60 + c_second p) * 1000 + c_ms p"

definition fields_of_epoch :: "int \<Rightarrow> civil_time" where
  "fields_of_epoch t =
     (let (y, m, d) = civil_of_day (t div MS_PER_DAY + EPOCH_DAY); r = t mod MS_PER_DAY
      in \<lparr>c_year = y, c_month = m, c_day = d, c_hour = r div 3600000, c_minute = r div 60000 mod 60,
          c_second = r div 1000 mod 60, c_ms = r mod 1000\<rparr>)"

definition valid_time :: "civil_time \<Rightarrow> bool" where
  "valid_time p \<longleftrightarrow> valid_civil (c_year p) (c_month p) (c_day p) \<and> 0 \<le> c_hour p \<and> c_hour p < 24
     \<and> 0 \<le> c_minute p \<and> c_minute p < 60 \<and> 0 \<le> c_second p \<and> c_second p < 60 \<and> 0 \<le> c_ms p \<and> c_ms p < 1000"

lemma make_day_valid: "valid_civil y m d \<Longrightarrow> make_day y m d = day_of_civil y m d"
  by (auto simp: make_day_def valid_civil_def)

lemma clock_parts:
  fixes h mi s ms :: int
  assumes "0 \<le> h" "0 \<le> mi" "mi < 60" "0 \<le> s" "s < 60" "0 \<le> ms" "ms < 1000"
  defines "r \<equiv> ((h * 60 + mi) * 60 + s) * 1000 + ms"
  shows "r div 3600000 = h" "r div 60000 mod 60 = mi" "r div 1000 mod 60 = s" "r mod 1000 = ms"
proof -
  show "r div 3600000 = h" unfolding r_def using assms
    by (intro int_div_pos_eq [of _ _ _ "(mi * 60 + s) * 1000 + ms"]) auto
  have "r div 60000 = h * 60 + mi" unfolding r_def using assms
    by (intro int_div_pos_eq [of _ _ _ "s * 1000 + ms"]) auto
  then show "r div 60000 mod 60 = mi" using assms by (intro int_mod_pos_eq [of _ _ h]) auto
  have "r div 1000 = (h * 60 + mi) * 60 + s" unfolding r_def using assms
    by (intro int_div_pos_eq [of _ _ _ ms]) auto
  then show "r div 1000 mod 60 = s" using assms by (intro int_mod_pos_eq [of _ _ "h * 60 + mi"]) auto
  show "r mod 1000 = ms" unfolding r_def using assms by (intro int_mod_pos_eq [of _ _ "(h * 60 + mi) * 60 + s"]) auto
qed

lemma clock_split:
  "(r :: int) = ((r div 3600000 * 60 + r div 60000 mod 60) * 60 + r div 1000 mod 60) * 1000 + r mod 1000"
proof -
  have "r div 60000 = r div 1000 div 60" "r div 3600000 = r div 60000 div 60"
    by (simp_all flip: zdiv_zmult2_eq)
  moreover note div_mult_mod_eq [of r 1000] div_mult_mod_eq [of "r div 1000" 60] div_mult_mod_eq [of "r div 60000" 60]
  ultimately show ?thesis by simp
qed

lemma clock_bound:
  fixes h mi s ms :: int
  assumes "0 \<le> h" "h < 24" "0 \<le> mi" "mi < 60" "0 \<le> s" "s < 60" "0 \<le> ms" "ms < 1000"
  shows "0 \<le> ((h * 60 + mi) * 60 + s) * 1000 + ms \<and> ((h * 60 + mi) * 60 + s) * 1000 + ms < MS_PER_DAY"
  using assms by (simp add: MS_PER_DAY_def)

lemma fields_of_epoch_of_fields:
  assumes "valid_time p" shows "fields_of_epoch (epoch_of_fields p) = p"
proof -
  let ?d = "make_day (c_year p) (c_month p) (c_day p)"
  let ?r = "((c_hour p * 60 + c_minute p) * 60 + c_second p) * 1000 + c_ms p"
  have v: "valid_civil (c_year p) (c_month p) (c_day p)" using assms by (simp add: valid_time_def)
  have r: "0 \<le> ?r" "?r < MS_PER_DAY" using clock_bound assms by (auto simp: valid_time_def)
  have e: "epoch_of_fields p = MS_PER_DAY * (?d - EPOCH_DAY) + ?r" by (simp add: epoch_of_fields_def)
  have "epoch_of_fields p div MS_PER_DAY = ?d - EPOCH_DAY" by (rule int_div_pos_eq [OF e r])
  then have n: "epoch_of_fields p div MS_PER_DAY + EPOCH_DAY = ?d" by simp
  have m: "epoch_of_fields p mod MS_PER_DAY = ?r" by (rule int_mod_pos_eq [OF e r])
  have c: "civil_of_day ?d = (c_year p, c_month p, c_day p)"
    using civil_of_day_of_civil [OF v] make_day_valid [OF v] by simp
  have b: "0 \<le> c_hour p" "0 \<le> c_minute p" "c_minute p < 60" "0 \<le> c_second p" "c_second p < 60" "0 \<le> c_ms p" "c_ms p < 1000"
    using assms by (simp_all add: valid_time_def)
  show ?thesis unfolding fields_of_epoch_def Let_def n m c prod.case clock_parts [OF b] by simp
qed

lemma epoch_of_fields_of_epoch: "epoch_of_fields (fields_of_epoch t) = t \<and> valid_time (fields_of_epoch t)"
proof -
  let ?n = "t div MS_PER_DAY + EPOCH_DAY" let ?r = "t mod MS_PER_DAY"
  obtain y m d where c: "civil_of_day ?n = (y, m, d)" by (cases "civil_of_day ?n")
  then have v: "valid_civil y m d" "day_of_civil y m d = ?n" using day_of_civil_of_day [of ?n] by auto
  have r: "0 \<le> ?r" "?r < 86400000" by (simp_all add: MS_PER_DAY_def)
  note h = clock_split [of ?r]
  have h24: "?r div 3600000 < 24" using r by (simp add: div_less_iff_less_mult)
  have t: "t = t div MS_PER_DAY * MS_PER_DAY + ?r" by simp
  have "epoch_of_fields (fields_of_epoch t)
      = t div MS_PER_DAY * MS_PER_DAY
        + (((?r div 3600000 * 60 + ?r div 60000 mod 60) * 60 + ?r div 1000 mod 60) * 1000 + ?r mod 1000)"
    using c v make_day_valid [OF v(1)] by (simp add: epoch_of_fields_def fields_of_epoch_def Let_def)
  then have "epoch_of_fields (fields_of_epoch t) = t" using h t by linarith
  moreover have "valid_time (fields_of_epoch t)"
    using c v(1) r h24 by (simp add: fields_of_epoch_def valid_time_def Let_def pos_imp_zdiv_nonneg_iff)
  ultimately show ?thesis by blast
qed

lemma epoch_valid_iff: "fields_of_epoch (epoch_of_fields p) = p \<longleftrightarrow> valid_time p"
  using fields_of_epoch_of_fields [of p] epoch_of_fields_of_epoch [of "epoch_of_fields p"] by metis

section \<open>Digit fields\<close>

text \<open>A date string is a sequence of fixed-width decimal fields and literal characters.\<close>

datatype piece = Digits nat | Lit char

definition is_digit :: "char \<Rightarrow> bool" where
  "is_digit c = (48 \<le> (of_char c :: nat) \<and> (of_char c :: nat) \<le> 57)"

definition digit_val :: "char \<Rightarrow> int" where
  "digit_val c = int (of_char c) - 48"

fun pad_digits :: "nat \<Rightarrow> int \<Rightarrow> string" where
  "pad_digits 0 n = []"
| "pad_digits (Suc w) n = pad_digits w (n div 10) @ [digit_char (nat (n mod 10))]"

fun scan_digits :: "nat \<Rightarrow> int \<Rightarrow> string \<Rightarrow> (int \<times> string) option" where
  "scan_digits 0 acc s = Some (acc, s)"
| "scan_digits (Suc w) acc [] = None"
| "scan_digits (Suc w) acc (c # s) = (if is_digit c then scan_digits w (acc * 10 + digit_val c) s else None)"

fun scan :: "piece list \<Rightarrow> string \<Rightarrow> (int list \<times> string) option" where
  "scan [] s = Some ([], s)"
| "scan (Lit c # ps) s = (case s of [] \<Rightarrow> None | x # s' \<Rightarrow> if x = c then scan ps s' else None)"
| "scan (Digits w # ps) s =
     (case scan_digits w 0 s of
        None \<Rightarrow> None
      | Some (v, s') \<Rightarrow> map_option (\<lambda>(vs, r). (v # vs, r)) (scan ps s'))"

fun render :: "piece list \<Rightarrow> int list \<Rightarrow> string" where
  "render [] vs = []"
| "render (Lit c # ps) vs = c # render ps vs"
| "render (Digits w # ps) (v # vs) = pad_digits w v @ render ps vs"
| "render (Digits w # ps) [] = []"

fun fits :: "piece list \<Rightarrow> int list \<Rightarrow> bool" where
  "fits [] vs = (vs = [])"
| "fits (Lit c # ps) vs = fits ps vs"
| "fits (Digits w # ps) (v # vs) = (0 \<le> v \<and> v < 10 ^ w \<and> fits ps vs)"
| "fits (Digits w # ps) [] = False"

lemma digit_char: "d < 10 \<Longrightarrow> is_digit (digit_char d) \<and> digit_val (digit_char d) = int d"
  by (simp add: is_digit_def digit_val_def digit_char_def)

lemma digit_of_char: "is_digit c \<Longrightarrow> digit_char (nat (digit_val c)) = c \<and> 0 \<le> digit_val c \<and> digit_val c < 10"
proof -
  assume d: "is_digit c"
  then have "48 + nat (int (of_char c) - 48) = (of_char c :: nat)" by (simp add: is_digit_def nat_diff_distrib')
  then have "char_of (48 + nat (int (of_char c) - 48) :: nat) = c" by simp
  then show ?thesis using d by (simp add: digit_char_def digit_val_def is_digit_def)
qed

lemma scan_digits_snoc:
  "scan_digits (Suc w) acc s = (case scan_digits w acc s of
     Some (v, c # r) \<Rightarrow> if is_digit c then Some (v * 10 + digit_val c, r) else None | _ \<Rightarrow> None)"
proof (induction w arbitrary: acc s)
  case 0
  then show ?case by (cases s) auto
next
  case (Suc w)
  show ?case
  proof (cases s)
    case (Cons c r)
    then show ?thesis using Suc [of "acc * 10 + digit_val c" r]
      by (simp only: scan_digits.simps) (simp split: if_splits)
  qed simp
qed

lemma scan_pad: "0 \<le> n \<Longrightarrow> n < 10 ^ w \<Longrightarrow> scan_digits w 0 (pad_digits w n @ r) = Some (n, r)"
proof (induction w arbitrary: n r)
  case (Suc w)
  have "n div 10 < 10 ^ w" "0 \<le> n div 10" using Suc.prems by (simp_all add: div_less_iff_less_mult pos_imp_zdiv_nonneg_iff mult.commute)
  from Suc.IH [OF this(2,1), of "digit_char (nat (n mod 10)) # r"]
  show ?case using digit_char [of "nat (n mod 10)"] by (simp only: scan_digits_snoc) (simp add: nat_less_iff)
qed simp

lemma pad_scan:
  "scan_digits w 0 s = Some (n, r) \<Longrightarrow> s = pad_digits w n @ r \<and> 0 \<le> n \<and> n < 10 ^ w"
proof (induction w arbitrary: n r)
  case (Suc w)
  from Suc.prems obtain v c where v: "scan_digits w 0 s = Some (v, c # r)" "is_digit c" "n = v * 10 + digit_val c"
    by (auto simp: scan_digits_snoc simp del: scan_digits.simps split: option.splits list.splits if_splits)
  from Suc.IH [OF v(1)] digit_of_char [OF v(2)] show ?case using v(3) by auto
qed simp

lemma scan_render: "fits ps vs \<Longrightarrow> scan ps (render ps vs @ r) = Some (vs, r)"
  by (induction ps vs rule: render.induct) (auto simp: scan_pad)

lemma render_scan: "scan ps s = Some (vs, r) \<Longrightarrow> s = render ps vs @ r \<and> fits ps vs"
proof (induction ps arbitrary: s vs)
  case (Cons p ps)
  show ?case
  proof (cases p)
    case (Digits w)
    with Cons.prems obtain v s' vs' where "scan_digits w 0 s = Some (v, s')" "scan ps s' = Some (vs', r)" "vs = v # vs'"
      by (auto split: option.splits)
    then show ?thesis using Cons.IH pad_scan Digits by fastforce
  next
    case (Lit c)
    then show ?thesis using Cons by (auto split: list.splits if_splits)
  qed
qed simp

section \<open>ISO strings\<close>

definition ISO :: "piece list" where
  "ISO = [Digits 4, Lit CHR ''-'', Digits 2, Lit CHR ''-'', Digits 2, Lit CHR ''T'', Digits 2, Lit CHR '':'',
     Digits 2, Lit CHR '':'', Digits 2, Lit CHR ''.'', Digits 3, Lit CHR ''Z'']"

definition civil_list :: "civil_time \<Rightarrow> int list" where
  "civil_list p = [c_year p, c_month p, c_day p, c_hour p, c_minute p, c_second p, c_ms p]"

text \<open>
  \<open>Date.prototype.toISOString\<close>: four digits for the years 0 to 9999, a sign and six digits outside.
\<close>

definition toISOString :: "int \<Rightarrow> string" where
  "toISOString t = (let p = fields_of_epoch t in
     if 0 \<le> c_year p \<and> c_year p \<le> 9999 then render ISO (civil_list p)
     else (if c_year p < 0 then CHR ''-'' else CHR ''+'') # pad_digits 2 (\<bar>c_year p\<bar> div 10000)
          @ render ISO (\<bar>c_year p\<bar> mod 10000 # tl (civil_list p)))"

text \<open>
  \<open>Date.parse\<close> on a string of the four-digit format; any other string is \<open>NaN\<close> here. A day beyond
  its month (up to 31) carries over.
\<close>

definition date_parse :: "string \<Rightarrow> int option" where
  "date_parse s = (case scan ISO s of
     Some ([y, m, d, h, mi, sec, ms], []) \<Rightarrow>
       if 1 \<le> m \<and> m \<le> 12 \<and> 1 \<le> d \<and> d \<le> 31 \<and> h \<le> 23 \<and> mi \<le> 59 \<and> sec \<le> 59
       then Some (epoch_of_fields \<lparr>c_year = y, c_month = m, c_day = d, c_hour = h, c_minute = mi, c_second = sec, c_ms = ms\<rparr>)
       else None
   | _ \<Rightarrow> None)"

lemma fits_ISO: "valid_time p \<Longrightarrow> 0 \<le> c_year p \<Longrightarrow> c_year p \<le> 9999 \<Longrightarrow> fits ISO (civil_list p)"
  using month_cases [of "c_month p"]
  by (auto simp: ISO_def civil_list_def valid_time_def valid_civil_def days_in_month_def days_before_month_def split: if_splits)

lemma valid_day_31: "valid_civil y m d \<Longrightarrow> d \<le> 31"
  using month_cases [of m]
  by (auto simp: valid_civil_def days_in_month_def days_before_month_def split: if_splits)

lemma date_parse_toISOString:
  assumes "0 \<le> c_year (fields_of_epoch t)" "c_year (fields_of_epoch t) \<le> 9999"
  shows "date_parse (toISOString t) = Some t"
proof -
  let ?p = "fields_of_epoch t"
  have v: "valid_time ?p" "epoch_of_fields ?p = t" using epoch_of_fields_of_epoch by auto
  obtain y m d h mi sec ms where p: "?p = \<lparr>c_year = y, c_month = m, c_day = d, c_hour = h, c_minute = mi, c_second = sec, c_ms = ms\<rparr>"
    by (cases ?p)
  have s: "scan ISO (toISOString t) = Some (civil_list ?p, [])"
    using scan_render [OF fits_ISO [OF v(1) assms], of "[]"] assms by (simp add: toISOString_def Let_def)
  have "c_day ?p \<le> 31" using v(1) valid_day_31 by (auto simp: valid_time_def)
  then show ?thesis using s v unfolding p by (simp add: date_parse_def civil_list_def valid_time_def valid_civil_def)
qed

end
