(* ===== verification/Schedule_Laws.thy ===== *)
theory Schedule_Laws
  imports Schedule
begin

text \<open>
  What the schedule domain guarantees: canonical instants, records that decode to themselves,
  fixed-rate arithmetic without backlog, a projection that agrees with the full fold and passes its
  own schema, fresh identities, and drives that settle.
\<close>

section \<open>Canonical instants\<close>

definition four_digit :: "int \<Rightarrow> bool" where
  "four_digit t \<longleftrightarrow> MIN_FOUR_DIGIT_YEAR_MS \<le> t \<and> t \<le> MAX_FOUR_DIGIT_YEAR_MS"

lemma dby_ends: "days_before_year 1 = 0" "days_before_year 10000 = 3652059"
  by (simp_all add: days_before_year_def)

lemma days_before_year_le: "y \<le> z \<Longrightarrow> days_before_year y \<le> days_before_year z"
  using days_before_year_mono [of y z] by (cases "y = z") auto

lemma year_of_day_range: "0 \<le> n \<and> n < 3652059 \<longleftrightarrow> 1 \<le> year_of_day n \<and> year_of_day n \<le> 9999"
proof -
  let ?y = "year_of_day n"
  have b: "days_before_year ?y \<le> n" "n < days_before_year (?y + 1)"
    using year_of_day_bounds [of n] next_year [of ?y] by auto
  show ?thesis
  proof
    assume n: "0 \<le> n \<and> n < 3652059"
    have "\<not> ?y + 1 \<le> 1" using days_before_year_le [of "?y + 1" 1] dby_ends b n by linarith
    moreover have "\<not> 10000 \<le> ?y" using days_before_year_le [of 10000 ?y] dby_ends b n by linarith
    ultimately show "1 \<le> ?y \<and> ?y \<le> 9999" by linarith
  next
    assume "1 \<le> ?y \<and> ?y \<le> 9999"
    then show "0 \<le> n \<and> n < 3652059"
      using days_before_year_le [of 1 ?y] days_before_year_le [of "?y + 1" 10000] dby_ends b by linarith
  qed
qed

lemma c_year_fields: "c_year (fields_of_epoch t) = year_of_day (t div MS_PER_DAY + EPOCH_DAY)"
  by (simp add: fields_of_epoch_def civil_of_day_def Let_def)

lemma four_digit_year: "four_digit t \<longleftrightarrow> 1 \<le> c_year (fields_of_epoch t) \<and> c_year (fields_of_epoch t) \<le> 9999"
proof -
  have "t = MS_PER_DAY * (t div MS_PER_DAY) + t mod MS_PER_DAY" "0 \<le> t mod MS_PER_DAY" "t mod MS_PER_DAY < 86400000"
    by (simp_all add: MS_PER_DAY_def)
  then have "four_digit t \<longleftrightarrow> 0 \<le> t div MS_PER_DAY + EPOCH_DAY \<and> t div MS_PER_DAY + EPOCH_DAY < 3652059"
    unfolding four_digit_def MIN_FOUR_DIGIT_YEAR_MS_def MAX_FOUR_DIGIT_YEAR_MS_def EPOCH_DAY_def MS_PER_DAY_def
    by linarith
  then show ?thesis using year_of_day_range [of "t div MS_PER_DAY + EPOCH_DAY"] c_year_fields by simp
qed

lemma date_parse_iso: "four_digit t \<Longrightarrow> date_parse (toISOString t) = Some t"
  using four_digit_year date_parse_toISOString by auto

lemma scan_iso: "four_digit t \<Longrightarrow> scan ISO (toISOString t) = Some (civil_list (fields_of_epoch t), [])"
  using scan_render [OF fits_ISO, of "fields_of_epoch t" "[]"] epoch_of_fields_of_epoch [of t] four_digit_year [of t]
  by (simp add: toISOString_def Let_def)

lemma utc_instant_iso: "four_digit t \<Longrightarrow> utc_instant (toISOString t)"
  using scan_iso [of t] four_digit_year [of t] epoch_of_fields_of_epoch [of t] valid_day_31 [of "c_year (fields_of_epoch t)"]
  by (auto simp: utc_instant_def civil_list_def valid_time_def valid_civil_def)

lemma decodeInstant_iso: "four_digit t \<Longrightarrow> decodeInstant (Some (JStr (toISOString t))) = Inr (toISOString t)"
  by (simp add: decodeInstant_def utc_instant_iso date_parse_iso)

text \<open>Conversely, a decoded instant is the canonical string of an instant in range.\<close>

lemma pad_digits_length [simp]: "length (pad_digits w n) = w"
  by (induction w arbitrary: n) auto

lemma utc_instant_scan:
  assumes "utc_instant s"
  obtains p where "scan ISO s = Some (civil_list p, [])" "1 \<le> c_year p" "c_year p \<le> 9999"
    "date_parse s = Some (epoch_of_fields p)"
proof -
  obtain y m d h mi sec ms where s: "scan ISO s = Some ([y, m, d, h, mi, sec, ms], [])"
    "y \<noteq> 0" "1 \<le> m" "m \<le> 12" "1 \<le> d" "d \<le> 31" "h \<le> 23" "mi \<le> 59" "sec \<le> 59"
    using assms by (auto simp: utc_instant_def split: option.splits prod.splits list.splits)
  have "fits ISO [y, m, d, h, mi, sec, ms]" using render_scan [OF s(1)] by simp
  then have "0 \<le> y" "y \<le> 9999" by (simp_all add: ISO_def)
  then show ?thesis
    using s by (intro that [of "\<lparr>c_year = y, c_month = m, c_day = d, c_hour = h, c_minute = mi, c_second = sec, c_ms = ms\<rparr>"])
      (simp_all add: civil_list_def date_parse_def)
qed

lemma civil_list_inj: "civil_list p = civil_list q \<Longrightarrow> p = q"
  by (cases p; cases q) (simp add: civil_list_def)

lemma signed_not_iso: "\<not> (0 \<le> c_year (fields_of_epoch t) \<and> c_year (fields_of_epoch t) \<le> 9999) \<Longrightarrow> scan ISO (toISOString t) = None"
  by (auto simp: toISOString_def Let_def ISO_def is_digit_def numeral_eq_Suc)

lemma decodeInstant_Inr:
  assumes "decodeInstant v = Inr s"
  obtains t where "v = Some (JStr s)" "four_digit t" "s = toISOString t" "date_parse s = Some t"
proof -
  obtain epoch where v: "v = Some (JStr s)" "utc_instant s" "date_parse s = Some epoch" "toISOString epoch = s"
    using assms by (auto simp: decodeInstant_def split: option.splits json.splits if_splits)
  obtain p where p: "scan ISO s = Some (civil_list p, [])" "1 \<le> c_year p" "c_year p \<le> 9999"
    using utc_instant_scan [OF v(2)] by metis
  have r: "0 \<le> c_year (fields_of_epoch epoch) \<and> c_year (fields_of_epoch epoch) \<le> 9999"
    using signed_not_iso [of epoch] p(1) v(4) by auto
  have "scan ISO (toISOString epoch) = Some (civil_list (fields_of_epoch epoch), [])"
    using scan_render [OF fits_ISO, of "fields_of_epoch epoch" "[]"] epoch_of_fields_of_epoch [of epoch] r
    by (simp add: toISOString_def Let_def)
  then have "fields_of_epoch epoch = p" using p(1) v(4) civil_list_inj by auto
  then have "four_digit epoch" using p(2,3) four_digit_year by simp
  then show ?thesis using that v by blast
qed

section \<open>Well-formed records\<close>

definition id_ok :: "string \<Rightarrow> bool" where
  "id_ok i \<longleftrightarrow> i \<noteq> [] \<and> js_trim i = i"

definition rule_ok :: "schedule_rule \<Rightarrow> bool" where
  "rule_ok r = (case r of After n \<Rightarrow> 0 < n \<and> n \<le> MAX_SAFE_INTEGER | At \<Rightarrow> True
     | Every n \<Rightarrow> MIN_EVERY_INTERVAL_SECONDS \<le> n \<and> safe_int (n * 1000))"

definition record_wf :: "schedule_record \<Rightarrow> bool" where
  "record_wf r \<longleftrightarrow> id_ok (sch_id r) \<and> id_ok (sch_prompt r) \<and> rule_ok (sch_rule r)
     \<and> (\<exists>t. four_digit t \<and> scheduledAt r = toISOString t)"

lemma target_of_wf: "record_wf r \<Longrightarrow> date_parse (scheduledAt r) = Some (target_of r) \<and> four_digit (target_of r)
    \<and> scheduledAt r = toISOString (target_of r)"
  by (auto simp: record_wf_def target_of_def date_parse_iso)

lemma target_parse: "record_wf r \<Longrightarrow> date_parse (scheduledAt r) = Some (target_of r)"
  using target_of_wf by blast

lemma decodeId_iff: "decodeId v = Inr i \<longleftrightarrow> v = Some (JStr i) \<and> id_ok i"
  by (auto simp: decodeId_def id_ok_def split: option.splits json.splits)

lemma decode_prompt_iff: "decode_prompt v = Inr i \<longleftrightarrow> v = Some (JStr i) \<and> id_ok i"
  by (auto simp: decode_prompt_def id_ok_def split: option.splits json.splits)

lemma exact_key_lists:
  "sort [''id'', ''kind'', ''prompt'', ''afterSeconds'', ''scheduledAt''] = [''afterSeconds'', ''id'', ''kind'', ''prompt'', ''scheduledAt'']"
  "sort [''id'', ''kind'', ''prompt'', ''everySeconds'', ''scheduledAt''] = [''everySeconds'', ''id'', ''kind'', ''prompt'', ''scheduledAt'']"
  "sort [''id'', ''kind'', ''prompt'', ''scheduledAt''] = [''id'', ''kind'', ''prompt'', ''scheduledAt'']"
  "sort [''version'', ''operation'', ''schedule''] = [''operation'', ''schedule'', ''version'']"
  "sort [''version'', ''operation'', ''id''] = [''id'', ''operation'', ''version'']"
  "sort [''version'', ''operation'', ''id'', ''acceptedAt''] = [''acceptedAt'', ''id'', ''operation'', ''version'']"
  by code_simp+

lemma decode_encode_record:
  assumes "record_wf r" shows "decodeScheduleRecord (Some (encode_record r)) = Inr r"
proof -
  obtain t where t: "four_digit t" "scheduledAt r = toISOString t" using assms by (auto simp: record_wf_def)
  have d: "decodeInstant (Some (JStr (scheduledAt r))) = Inr (scheduledAt r)" using t decodeInstant_iso by simp
  have i: "decodeId (Some (JStr (sch_id r))) = Inr (sch_id r)" "decode_prompt (Some (JStr (sch_prompt r))) = Inr (sch_prompt r)"
    using assms by (simp_all add: record_wf_def decodeId_iff decode_prompt_iff)
  have n: "sch_rule r = Every n \<Longrightarrow> n \<le> MAX_SAFE_INTEGER \<and> n * 1000 \<le> MAX_SAFE_INTEGER" for n
    using assms by (auto simp: record_wf_def rule_ok_def safe_int_def MIN_EVERY_INTERVAL_SECONDS_def)
  show ?thesis
    using assms d i n by (cases r; cases "sch_rule r")
      (simp_all add: decodeScheduleRecord_def decodeAfterRecord_def decodeAtRecord_def decodeEveryRecord_def encode_record_def
        hasExactKeys_def exact_key_lists record_wf_def rule_ok_def require_def safe_int_def MIN_EVERY_INTERVAL_SECONDS_def)
qed

lemma decodeScheduleRecord_wf:
  assumes "decodeScheduleRecord v = Inr r" shows "record_wf r"
proof -
  have inst: "decodeInstant x = Inr s \<Longrightarrow> \<exists>t. four_digit t \<and> s = toISOString t" for x s
    by (erule decodeInstant_Inr) blast
  from assms obtain j where j: "decodeAfterRecord j = Inr r \<or> decodeAtRecord j = Inr r \<or> decodeEveryRecord j = Inr r"
    by (auto simp: decodeScheduleRecord_def split: option.splits if_splits)
  have num: "isSafeInteger (JNum n) \<Longrightarrow> \<bar>jnum_int n\<bar> \<le> MAX_SAFE_INTEGER" for n
    by (cases n) (auto simp: MAX_SAFE_INTEGER_def)
  from j show ?thesis
  proof (elim disjE)
    assume "decodeAfterRecord j = Inr r"
    then show ?thesis using inst num
      by (fastforce simp: decodeAfterRecord_def rbind_eq_Inr record_wf_def rule_ok_def decodeId_iff decode_prompt_iff
          split: option.splits json.splits if_splits)
  next
    assume "decodeAtRecord j = Inr r"
    then show ?thesis using inst
      by (auto simp: decodeAtRecord_def rbind_eq_Inr record_wf_def rule_ok_def decodeId_iff decode_prompt_iff)
  next
    assume "decodeEveryRecord j = Inr r"
    then show ?thesis using inst
      by (fastforce simp: decodeEveryRecord_def rbind_eq_Inr record_wf_def rule_ok_def decodeId_iff decode_prompt_iff
          split: option.splits json.splits if_splits)
  qed
qed

lemma stored_ok:
  "record_wf r \<Longrightarrow> stored_record_ok r" "id_ok i \<Longrightarrow> stored_id_ok i"
  using decode_encode_record
  by (simp_all add: stored_record_ok_def stored_id_ok_def decodeScheduleChange_def hasExactKeys_def exact_key_lists
      require_def decodeId_iff [of _ i, THEN iffD2])

fun change_wf :: "schedule_change \<Rightarrow> bool" where
  "change_wf (SCreate r) = record_wf r"
| "change_wf (SDelete i) = id_ok i"
| "change_wf (SDispatch i None) = id_ok i"
| "change_wf (SDispatch i (Some t)) = (id_ok i \<and> (\<exists>n. four_digit n \<and> t = toISOString n))"

lemma decodeScheduleChange_wf: "decodeScheduleChange v = Inr c \<Longrightarrow> change_wf c"
  using decodeScheduleRecord_wf
  by (auto simp: decodeScheduleChange_def rbind_eq_Inr decodeId_iff split: if_splits elim!: decodeInstant_Inr)

section \<open>Creation\<close>

lemma futureInstant_Inr:
  "futureInstant epoch now = Inr s \<Longrightarrow> four_digit epoch \<and> now < epoch \<and> s = toISOString epoch"
  by (auto simp: futureInstant_def four_digit_def Let_def split: if_splits)

lemma resolve_prompt_Inr: "resolve_prompt p = Inr q \<Longrightarrow> id_ok q"
  by (auto simp: resolve_prompt_def id_ok_def js_trim_idem split: if_splits)

text \<open>The records any of the three creators returns at a clock reading.\<close>

definition created ::
  "(string \<Rightarrow> string option) \<Rightarrow> (string \<Rightarrow> zone_format) \<Rightarrow> int \<Rightarrow> string \<Rightarrow> schedule_record \<Rightarrow> bool" where
  "created resolve_zone zones now i r \<longleftrightarrow>
     (\<exists>prompt n. createAfterScheduleRecord i prompt n now = Inr r)
     \<or> (\<exists>prompt n. createEveryScheduleRecord i prompt n now = Inr r)
     \<or> (\<exists>prompt v. createAtScheduleRecord resolve_zone zones i prompt v now = Inr r)"

lemma safe_jnum: "isSafeInteger (JNum n) \<Longrightarrow> \<bar>jnum_int n\<bar> \<le> MAX_SAFE_INTEGER"
  by (cases n) (auto simp: MAX_SAFE_INTEGER_def)

lemma created_facts:
  assumes "0 \<le> now" "created resolve_zone zones now i r" "id_ok i"
  shows "record_wf r \<and> sch_id r = i \<and> now < target_of r"
proof -
  have "\<exists>t. four_digit t \<and> now < t \<and> scheduledAt r = toISOString t \<and> id_ok (sch_prompt r) \<and> rule_ok (sch_rule r) \<and> sch_id r = i"
    using assms(2) unfolding created_def
  proof (elim disjE exE)
    fix prompt n assume "createAfterScheduleRecord i prompt n now = Inr r"
    then show ?thesis using safe_jnum [of n]
      by (auto simp: createAfterScheduleRecord_def rbind_eq_Inr rule_ok_def dest!: futureInstant_Inr resolve_prompt_Inr)
  next
    fix prompt n assume "createEveryScheduleRecord i prompt n now = Inr r"
    moreover have "safe_int (m * 1000)" if "four_digit (now + m * 1000)" "300 \<le> m" for m
      using that assms(1) by (auto simp: four_digit_def safe_int_def MAX_FOUR_DIGIT_YEAR_MS_def MAX_SAFE_INTEGER_def)
    ultimately show ?thesis
      by (auto simp: createEveryScheduleRecord_def rbind_eq_Inr rule_ok_def MIN_EVERY_INTERVAL_SECONDS_def
          dest!: futureInstant_Inr resolve_prompt_Inr)
  next
    fix prompt v assume "createAtScheduleRecord resolve_zone zones i prompt v now = Inr r"
    then show ?thesis
      by (auto simp: createAtScheduleRecord_def rbind_eq_Inr rule_ok_def dest!: futureInstant_Inr resolve_prompt_Inr)
  qed
  then show ?thesis using assms(3) date_parse_iso by (auto simp: record_wf_def target_of_def)
qed

section \<open>Fixed-rate decisions\<close>

lemma resolve_every_ok:
  assumes "date_parse s = Some target" "four_digit target" "four_digit now" "target \<le> now" "0 < n" "safe_int (n * 1000)"
  defines "occ \<equiv> target + (now - target) div (n * 1000) * (n * 1000)"
  shows "resolveEveryOccurrence s n now = Inr \<lparr>eo_at = toISOString occ,
      eo_next = (if occ + n * 1000 \<le> MAX_FOUR_DIGIT_YEAR_MS then Some (toISOString (occ + n * 1000)) else None)\<rparr>"
    and "target \<le> occ" "occ \<le> now" "now < occ + n * 1000"
proof -
  let ?i = "n * 1000" let ?q = "(now - target) div ?i"
  have i: "0 < ?i" using assms(5) by simp
  have q: "0 \<le> ?q" using assms(4) i by (simp add: pos_imp_zdiv_nonneg_iff)
  have m: "?q * ?i + (now - target) mod ?i = now - target" by (rule div_mult_mod_eq)
  have b: "0 \<le> (now - target) mod ?i" "(now - target) mod ?i < ?i" using i by simp_all
  have t: "target \<le> occ" using q i unfolding occ_def by (simp add: mult_nonneg_nonneg)
  have o: "occ \<le> now" "now < occ + ?i" using m b unfolding occ_def by linarith+
  show "target \<le> occ" "occ \<le> now" "now < occ + n * 1000" by fact+
  have now_ok: "safe_int now" "safe_int occ" using assms(2,3) t o
    by (auto simp: four_digit_def safe_int_def MIN_FOUR_DIGIT_YEAR_MS_def MAX_FOUR_DIGIT_YEAR_MS_def MAX_SAFE_INTEGER_def)
  have nxt: "\<not> safe_int (occ + ?i) \<or> MAX_FOUR_DIGIT_YEAR_MS < occ + ?i \<longleftrightarrow> \<not> occ + ?i \<le> MAX_FOUR_DIGIT_YEAR_MS"
    using assms(2) t i
    by (auto simp: four_digit_def safe_int_def MIN_FOUR_DIGIT_YEAR_MS_def MAX_FOUR_DIGIT_YEAR_MS_def MAX_SAFE_INTEGER_def)
  have neg: "\<not> now < MIN_FOUR_DIGIT_YEAR_MS" "\<not> MAX_FOUR_DIGIT_YEAR_MS < now" "\<not> now < target" "\<not> ?i \<le> 0"
    "\<not> occ < target" "\<not> now < occ"
    using assms(3,4) i t o by (auto simp: four_digit_def)
  have e: "target + ?q * ?i = occ" by (simp add: occ_def)
  show "resolveEveryOccurrence s n now = Inr \<lparr>eo_at = toISOString occ,
      eo_next = (if occ + n * 1000 \<le> MAX_FOUR_DIGIT_YEAR_MS then Some (toISOString (occ + n * 1000)) else None)\<rparr>"
    unfolding resolveEveryOccurrence_def Let_def assms(1) option.case e nxt
    using neg now_ok assms(6) by simp
qed

lemma resolve_every_Inr:
  assumes "resolveEveryOccurrence s n now = Inr occ" "date_parse s = Some target"
  shows "target \<le> now \<and> four_digit now \<and> 0 < n \<and> safe_int (n * 1000)"
  using assms by (auto simp: resolveEveryOccurrence_def four_digit_def Let_def split: if_splits)

lemma dispatched_wf:
  assumes "dispatchedRecord r a = Inr (Some r')" "record_wf r"
  shows "record_wf r' \<and> sch_id r' = sch_id r \<and> is_every r' \<and>
     (\<exists>now. a \<noteq> None \<and> date_parse (the a) = Some now \<and> now < target_of r')"
proof -
  note t = target_of_wf [OF assms(2)]
  obtain n u now occ nx where r: "sch_rule r = Every n" "a = Some u" "date_parse u = Some now"
    "resolveEveryOccurrence (scheduledAt r) n now = Inr occ" "eo_next occ = Some nx" "r' = r\<lparr>scheduledAt := nx\<rparr>"
    using assms(1) by (auto simp: dispatchedRecord_def rbind_eq_Inr split: schedule_rule.splits option.splits if_splits)
  have f: "target_of r \<le> now" "four_digit now" "0 < n" "safe_int (n * 1000)"
    using resolve_every_Inr [OF r(4)] t by auto
  let ?occ = "target_of r + (now - target_of r) div (n * 1000) * (n * 1000)"
  note o = resolve_every_ok [of "scheduledAt r" "target_of r" now n]
  have nx: "nx = toISOString (?occ + n * 1000)" "?occ + n * 1000 \<le> MAX_FOUR_DIGIT_YEAR_MS"
    using o(1) t f r(4,5) by (auto split: if_splits)
  have w: "target_of r \<le> ?occ" "now < ?occ + n * 1000" using o(2,4) t f by auto
  have fd: "four_digit (?occ + n * 1000)" using nx(2) w t f(3) unfolding four_digit_def by linarith
  have "record_wf r'" using assms(2) r(6) nx(1) fd by (auto simp: record_wf_def)
  moreover have "target_of r' = ?occ + n * 1000"
    using r(6) nx(1) date_parse_iso [OF fd] by (simp add: target_of_def)
  ultimately show ?thesis using r w(2) by simp
qed

section \<open>The tables\<close>

definition tables_wf :: "schedule_tables \<Rightarrow> bool" where
  "tables_wf t \<longleftrightarrow> amap_wf (fst t) \<and> (\<forall>k r. (k, r) \<in> set (fst t) \<longrightarrow> sch_id r = k \<and> record_wf r \<and> k \<in> set (snd t))
     \<and> distinct (snd t) \<and> (\<forall>i \<in> set (snd t). id_ok i)"

lemma set_amap_set_sub: "(k', v') \<in> set (amap_set m k v) \<Longrightarrow> (k', v') = (k, v) \<or> (k', v') \<in> set m"
  by (induction m k v rule: amap_set.induct) (auto split: if_splits)

lemma set_amap_del_sub: "(k', v') \<in> set (amap_del m k) \<Longrightarrow> (k', v') \<in> set m \<and> k' \<noteq> k"
  by (auto simp: amap_del_def)

lemma amap_get_mem: "amap_get m k = Some v \<Longrightarrow> (k, v) \<in> set m"
  by (simp add: amap_get_def map_of_SomeD)

lemma tables_wf_change:
  assumes "tables_wf t" "change_wf c" "change_step t c = Inr t'"
  shows "tables_wf t'"
proof (cases t)
  case (Pair active seen)
  show ?thesis
  proof (cases c)
    case (SCreate r)
    then show ?thesis using assms Pair
      by (auto simp: tables_wf_def record_wf_def List.member_iff split: if_splits dest!: set_amap_set_sub)
  next
    case (SDelete i)
    then show ?thesis using assms Pair by (auto simp: tables_wf_def split: if_splits dest!: set_amap_del_sub)
  next
    case (SDispatch i a)
    then obtain r nxt where r: "amap_get active i = Some r" "dispatchedRecord r a = Inr nxt"
      "t' = (case nxt of None \<Rightarrow> (amap_del active i, seen) | Some r' \<Rightarrow> (amap_set active i r', seen))"
      using assms(3) Pair by (auto simp: rbind_eq_Inr split: option.splits)
    have m: "sch_id r = i" "record_wf r" "i \<in> set seen"
      using assms(1) amap_get_mem [OF r(1)] Pair by (auto simp: tables_wf_def)
    show ?thesis
    proof (cases nxt)
      case None
      then show ?thesis using r(3) assms(1) Pair by (auto simp: tables_wf_def dest!: set_amap_del_sub)
    next
      case (Some r')
      then have "record_wf r'" "sch_id r' = i" using dispatched_wf [of r a r'] r(2) m by auto
      then show ?thesis using r(3) Some m assms(1) Pair by (auto simp: tables_wf_def dest!: set_amap_set_sub)
    qed
  qed
qed

definition folded_wf :: "folded_schedules \<Rightarrow> bool" where
  "folded_wf f \<longleftrightarrow> (\<forall>r \<in> set (fs_active f). record_wf r \<and> sch_id r \<in> set (fs_seen f))
     \<and> distinct (map sch_id (fs_active f)) \<and> distinct (fs_seen f) \<and> (\<forall>i \<in> set (fs_seen f). id_ok i)"

lemma folded_of_wf: "tables_wf t \<Longrightarrow> folded_wf (folded_of t)"
proof -
  assume w: "tables_wf t"
  have "map (sch_id \<circ> snd) (fst t) = map fst (fst t)"
    using w by (auto simp: tables_wf_def)
  then have "distinct (map (sch_id \<circ> snd) (fst t))" using w by (simp only: tables_wf_def amap_wf_def)
  then show ?thesis using w by (auto simp: folded_wf_def folded_of_def tables_wf_def)
qed

lemma foldl_amap_distinct:
  "distinct (map fst m @ map sch_id rs) \<Longrightarrow>
   foldl (\<lambda>m r. amap_set m (sch_id r) r) m rs = m @ map (\<lambda>r. (sch_id r, r)) rs"
proof (induction rs arbitrary: m)
  case (Cons r rs)
  have "amap_set m k v = m @ [(k, v)]" if "k \<notin> fst ` set m" for k v
    using that by (induction m k v rule: amap_set.induct) auto
  then have "amap_set m (sch_id r) r = m @ [(sch_id r, r)]" using Cons.prems by auto
  then show ?case using Cons.IH [of "m @ [(sch_id r, r)]"] Cons.prems by auto
qed simp

lemma foldl_set_distinct:
  "distinct (xs @ ys) \<Longrightarrow> foldl (\<lambda>s i. if List.member s i then s else s @ [i]) xs ys = xs @ ys"
  by (induction ys arbitrary: xs) (auto simp: List.member_iff)

lemma tables_of_wf:
  assumes "folded_wf f"
  shows "tables_of f = (map (\<lambda>r. (sch_id r, r)) (fs_active f), fs_seen f)" "tables_wf (tables_of f)" "folded_of (tables_of f) = f"
proof -
  show e: "tables_of f = (map (\<lambda>r. (sch_id r, r)) (fs_active f), fs_seen f)"
    using assms foldl_amap_distinct [of "[]" "fs_active f"] foldl_set_distinct [of "[]" "fs_seen f"]
    by (simp add: tables_of_def folded_wf_def)
  show "tables_wf (tables_of f)" using assms by (auto simp: e tables_wf_def folded_wf_def amap_wf_def comp_def)
  show "folded_of (tables_of f) = f" by (simp add: e folded_of_def comp_def)
qed

lemma tables_of_folded_of:
  assumes "tables_wf t" shows "tables_of (folded_of t) = t"
proof -
  have "map (\<lambda>r. (sch_id r, r)) (map snd (fst t)) = fst t"
    using assms by (auto simp: tables_wf_def intro!: map_idI)
  then show ?thesis using tables_of_wf(1) [OF folded_of_wf [OF assms]] by (simp add: folded_of_def)
qed

lemma apply_one:
  "tables_wf t \<Longrightarrow> applyScheduleChanges (folded_of t) [c] = rbind (change_step t c) (\<lambda>t'. Inr (folded_of t'))"
  by (simp add: applyScheduleChanges_def tables_of_folded_of split: sum.splits)

section \<open>The projection\<close>

definition projection_of :: "int \<Rightarrow> schedule_tables \<Rightarrow> schedule_projection" where
  "projection_of inherited t = \<lparr>fs_active = map snd (fst t), fs_seen = snd t, sp_inherited = inherited\<rparr>"

lemma truncate_projection: "folded_schedules.truncate (projection_of n t) = folded_of t"
  by (simp add: projection_of_def folded_of_def folded_schedules.truncate_def)

lemma event_step_wf:
  assumes "tables_wf t" "event_step t e = Inr t'" shows "tables_wf t'"
proof (cases "etype e = ''schedule/change''")
  case True
  then obtain c where "decodeScheduleChange (edata e) = Inr c" "change_step t c = Inr t'"
    using assms(2) by (auto simp: event_step_def rbind_eq_Inr)
  then show ?thesis using tables_wf_change [OF assms(1)] decodeScheduleChange_wf by blast
qed (use assms in \<open>simp add: event_step_def\<close>)

lemma schedule_projection_step:
  assumes "tables_wf t" "inherited \<le> int (eseq e)"
  shows "schedule_apply (projection_of inherited t) e = rbind (event_step t e) (\<lambda>t'. Inr (projection_of inherited t'))"
proof -
  have s: "sp_inherited (projection_of inherited t) = inherited" by (simp add: projection_of_def)
  show ?thesis
  proof (cases "etype e = ''schedule/change''")
    case True
    have p: "\<lparr>fs_active = fs_active (folded_of t'), fs_seen = fs_seen (folded_of t'), sp_inherited = inherited\<rparr>
        = projection_of inherited t'" for t'
      by (simp add: projection_of_def folded_of_def)
    have "rbind (applyScheduleChanges (folded_of t) [c])
            (\<lambda>f. Inr \<lparr>fs_active = fs_active f, fs_seen = fs_seen f, sp_inherited = inherited\<rparr>)
        = rbind (change_step t c) (\<lambda>t'. Inr (projection_of inherited t'))" for c
      by (cases "change_step t c") (simp_all add: apply_one [OF assms(1)] p)
    then show ?thesis using assms(2) s True
      by (cases "decodeScheduleChange (edata e)") (simp_all add: schedule_apply_def event_step_def truncate_projection)
  next
    case False
    then show ?thesis by (simp add: schedule_apply_def event_step_def)
  qed
qed

lemma projection_run:
  assumes "tables_wf t" "\<forall>e \<in> set es. inherited \<le> int (eseq e)"
  shows "fold_res schedule_apply (projection_of inherited t) es
       = rbind (fold_res event_step t es) (\<lambda>t'. Inr (projection_of inherited t'))"
  using assms
proof (induction es arbitrary: t)
  case (Cons e es)
  then show ?case
    using schedule_projection_step [of t inherited e] event_step_wf [of t e] by (cases "event_step t e") auto
qed simp

lemma projection_skips:
  "\<forall>e \<in> set es. int (eseq e) < inherited \<Longrightarrow>
   fold_res schedule_apply (projection_of inherited t) es = Inr (projection_of inherited t)"
  by (induction es) (auto simp: schedule_apply_def projection_of_def)

lemma tables_wf_empty: "tables_wf ([], [])"
  by (simp add: tables_wf_def)

lemma schedule_init_projection: "schedule_init inherited = projection_of inherited ([], [])"
  by (simp add: schedule_init_def projection_of_def)

definition projection_wf :: "schedule_projection \<Rightarrow> bool" where
  "projection_wf st \<longleftrightarrow> (\<exists>t. tables_wf t \<and> st = projection_of (sp_inherited st) t)"

interpretation schedule_unit: event_projection "schedule_init inherited" schedule_apply
  "\<lambda>st. projection_wf st \<and> sp_inherited st = inherited" for inherited
proof unfold_locales
  show "projection_wf (schedule_init inherited) \<and> sp_inherited (schedule_init inherited) = inherited"
    unfolding projection_wf_def schedule_init_projection using tables_wf_empty
    by (auto simp: projection_of_def)
next
  fix st e st'
  assume st: "projection_wf st \<and> sp_inherited st = inherited" and a: "schedule_apply st e = Inr st'"
  then obtain t where t: "tables_wf t" "st = projection_of inherited t" by (auto simp: projection_wf_def)
  show "projection_wf st' \<and> sp_inherited st' = inherited"
  proof (cases "inherited \<le> int (eseq e)")
    case True
    then obtain t' where "event_step t e = Inr t'" "st' = projection_of inherited t'"
      using a schedule_projection_step [OF t(1), of inherited e] t(2) by (auto simp: rbind_eq_Inr)
    moreover have "sp_inherited (projection_of inherited t') = inherited" by (simp add: projection_of_def)
    ultimately show ?thesis using event_step_wf [OF t(1)] unfolding projection_wf_def by metis
  next
    case False
    then have "st' = st" using a st by (simp add: schedule_apply_def)
    then show ?thesis using st by simp
  qed
qed

lemma projection_wf_schema:
  assumes "projection_wf st" "0 \<le> sp_inherited st" "sp_inherited st \<le> MAX_SAFE_INTEGER"
  shows "scheduleProjectionStateSchema st"
proof -
  obtain n t where t: "tables_wf t" "st = projection_of n t" using assms(1) unfolding projection_wf_def by blast
  have f: "fs_active st = fs_active (folded_of t)" "fs_seen st = fs_seen (folded_of t)"
    by (simp_all add: t(2) projection_of_def folded_of_def)
  show ?thesis using folded_of_wf [OF t(1)] assms(2,3) stored_ok
    by (auto simp: scheduleProjectionStateSchema_def f folded_wf_def list_all_iff List.member_iff)
qed

section \<open>Fresh identities\<close>

lemma allocate_from_fresh: "allocate_from seen n \<notin> set seen"
proof (induction seen n rule: allocate_from.induct)
  case (1 seen n)
  then show ?case by (cases "List.member seen (schedule_name n)") (simp_all add: allocate_from.simps [of seen n] List.member_iff)
qed

lemma allocate_from_first:
  "\<exists>k \<ge> n. allocate_from seen n = schedule_name k \<and> (\<forall>j. n \<le> j \<longrightarrow> j < k \<longrightarrow> schedule_name j \<in> set seen)"
proof (induction seen n rule: allocate_from.induct)
  case (1 seen n)
  show ?case
  proof (cases "List.member seen (schedule_name n)")
    case True
    then obtain k where k: "k \<ge> Suc n" "allocate_from seen (Suc n) = schedule_name k"
      "\<forall>j. Suc n \<le> j \<longrightarrow> j < k \<longrightarrow> schedule_name j \<in> set seen" using 1 by blast
    have "\<forall>j. n \<le> j \<longrightarrow> j < k \<longrightarrow> schedule_name j \<in> set seen"
      using k(3) True by (metis List.member_iff Suc_leI le_neq_implies_less)
    then show ?thesis using k True by (intro exI [of _ k]) (simp add: allocate_from.simps [of seen n])
  next
    case False
    then show ?thesis by (intro exI [of _ n]) (simp add: allocate_from.simps [of seen n])
  qed
qed

lemma allocate_bound:
  assumes "\<forall>j. n \<le> j \<longrightarrow> j < k \<longrightarrow> schedule_name j \<in> set seen" "n \<le> k"
  shows "k \<le> n + length (remdups seen)"
proof -
  have "schedule_name ` {n..<k} \<subseteq> set seen" using assms(1) by auto
  then have "card (schedule_name ` {n..<k}) \<le> card (set seen)" by (intro card_mono) auto
  moreover have "card (schedule_name ` {n..<k}) = k - n"
    using schedule_name_inj by (subst card_image) (auto intro: inj_onI)
  ultimately show ?thesis using assms(2) by (simp add: length_remdups_card_conv)
qed

section \<open>Drives settle\<close>

lemma occurrences_ok:
  assumes "\<forall>r \<in> set rs. record_wf r \<and> is_every r \<and> target_of r \<le> now" "four_digit now"
  shows "\<exists>os. occurrences now rs = Inr os \<and> map fst os = rs"
  using assms
proof (induction rs)
  case (Cons r rs)
  obtain n where n: "sch_rule r = Every n" using Cons.prems by (auto split: schedule_rule.splits)
  have ok: "0 < n" "safe_int (n * 1000)" "target_of r \<le> now"
    using Cons.prems n by (auto simp: record_wf_def rule_ok_def MIN_EVERY_INTERVAL_SECONDS_def)
  have "record_wf r" using Cons.prems by simp
  note t = target_of_wf [OF this]
  obtain occ where "resolveEveryOccurrence (scheduledAt r) n now = Inr occ"
    using resolve_every_ok(1) [of "scheduledAt r" "target_of r" now n] t ok assms(2) by blast
  then show ?case using Cons n by (auto simp: record_seconds_def)
qed simp

lemma dispatched_every_ok:
  assumes "record_wf r" "sch_rule r = Every n" "target_of r \<le> now" "four_digit now"
  shows "\<exists>nxt. dispatchedRecord r (Some (toISOString now)) = Inr nxt \<and>
     (\<forall>r'. nxt = Some r' \<longrightarrow> now < target_of r')"
proof -
  have ok: "0 < n" "safe_int (n * 1000)"
    using assms(1,2) by (auto simp: record_wf_def rule_ok_def MIN_EVERY_INTERVAL_SECONDS_def)
  note t = target_of_wf [OF assms(1)]
  obtain occ where "resolveEveryOccurrence (scheduledAt r) n now = Inr occ"
    using resolve_every_ok(1) [of "scheduledAt r" "target_of r" now n] t ok assms(3,4) by blast
  then have d: "dispatchedRecord r (Some (toISOString now)) = Inr (map_option (\<lambda>t. r\<lparr>scheduledAt := t\<rparr>) (eo_next occ))"
    using assms(2) date_parse_iso [OF assms(4)] by (simp add: dispatchedRecord_def)
  have "now < target_of r'" if "map_option (\<lambda>t. r\<lparr>scheduledAt := t\<rparr>) (eo_next occ) = Some r'" for r'
    using dispatched_wf [OF d [unfolded that] assms(1)] date_parse_iso [OF assms(4)] by auto
  then show ?thesis using d by blast
qed

lemma change_wf_dispatch: "id_ok i \<Longrightarrow> four_digit now \<Longrightarrow> change_wf (SDispatch i (Some (toISOString now)))"
  by auto

lemma batch_dispatch:
  assumes "tables_wf t" "four_digit now" "distinct (map sch_id rs)"
    and "\<forall>r \<in> set rs. amap_get (fst t) (sch_id r) = Some r \<and> is_every r \<and> target_of r \<le> now"
  shows "\<exists>t'. fold_res change_step t (map (\<lambda>r. SDispatch (sch_id r) (Some (toISOString now))) rs) = Inr t' \<and> tables_wf t'
     \<and> (\<forall>i. i \<notin> set (map sch_id rs) \<longrightarrow> amap_get (fst t') i = amap_get (fst t) i)
     \<and> (\<forall>r \<in> set rs. \<forall>r'. amap_get (fst t') (sch_id r) = Some r' \<longrightarrow> now < target_of r')"
  using assms(1,3,4)
proof (induction rs arbitrary: t)
  case (Cons r rs)
  obtain active seen where t: "t = (active, seen)" by (cases t)
  have g: "amap_get active (sch_id r) = Some r" "target_of r \<le> now" using Cons.prems(3) t by auto
  obtain n where n: "sch_rule r = Every n" using Cons.prems(3) by (auto split: schedule_rule.splits)
  have "record_wf r" using amap_get_mem [OF g(1)] Cons.prems(1) unfolding t tables_wf_def fst_conv by blast
  then have w: "record_wf r" "id_ok (sch_id r)" by (simp_all add: record_wf_def)
  obtain nxt where nxt: "dispatchedRecord r (Some (toISOString now)) = Inr nxt" "\<forall>r'. nxt = Some r' \<longrightarrow> now < target_of r'"
    using dispatched_every_ok [OF w(1) n g(2) assms(2)] by blast
  define t1 where "t1 = (case nxt of None \<Rightarrow> (amap_del active (sch_id r), seen) | Some r' \<Rightarrow> (amap_set active (sch_id r) r', seen))"
  have s: "change_step t (SDispatch (sch_id r) (Some (toISOString now))) = Inr t1"
    using t g nxt by (auto simp: t1_def split: option.splits)
  have w1: "tables_wf t1" by (rule tables_wf_change [OF Cons.prems(1) change_wf_dispatch [OF w(2) assms(2)] s])
  have a1: "amap_get (fst t1) i = (if i = sch_id r then nxt else amap_get active i)" for i
    by (auto simp: t1_def split: option.splits)
  have fresh: "sch_id r' \<noteq> sch_id r" if "r' \<in> set rs" for r'
    using Cons.prems(2) that by (metis distinct.simps(2) image_eqI list.set_map list.simps(9))
  have "\<forall>r' \<in> set rs. amap_get (fst t1) (sch_id r') = Some r' \<and> is_every r' \<and> target_of r' \<le> now"
  proof
    fix r' assume "r' \<in> set rs"
    then show "amap_get (fst t1) (sch_id r') = Some r' \<and> is_every r' \<and> target_of r' \<le> now"
      using Cons.prems(3) fresh [of r'] t by (simp only: a1) simp
  qed
  with Cons.IH [OF w1] Cons.prems(2) obtain t' where t':
    "fold_res change_step t1 (map (\<lambda>r. SDispatch (sch_id r) (Some (toISOString now))) rs) = Inr t'" "tables_wf t'"
    "\<forall>i. i \<notin> set (map sch_id rs) \<longrightarrow> amap_get (fst t') i = amap_get (fst t1) i"
    "\<forall>r \<in> set rs. \<forall>r'. amap_get (fst t') (sch_id r) = Some r' \<longrightarrow> now < target_of r'" by auto
  have "amap_get (fst t') (sch_id r) = nxt" using t'(3) Cons.prems(2) a1 by auto
  then show ?case using t' s a1 nxt(2) t by (intro exI [of _ t']) auto
qed simp

definition due_one_shots :: "int \<Rightarrow> folded_schedules \<Rightarrow> nat" where
  "due_one_shots now f = length (filter (\<lambda>r. \<not> is_every r \<and> due_at now r) (fs_active f))"

lemma due_at_wf: "record_wf r \<Longrightarrow> due_at now r = (target_of r \<le> now)"
  by (simp add: due_at_def target_parse)

lemma folded_wf_record: "folded_wf f \<Longrightarrow> r \<in> set (fs_active f) \<Longrightarrow> record_wf r"
  by (simp add: folded_wf_def)

lemma amap_get_active:
  assumes "folded_wf f" "r \<in> set (fs_active f)"
  shows "amap_get (fst (tables_of f)) (sch_id r) = Some r"
  using assms by (simp add: tables_of_wf(1) amap_get_def folded_wf_def comp_def)

lemma drive_one_shot:
  assumes "folded_wf f" "sort_key target_of (filter (\<lambda>r. \<not> is_every r \<and> due_at now r) (fs_active f)) = r # rest"
  shows "\<exists>f'. drive_once f now = Inr (Due_One_Shot r, f') \<and> folded_wf f' \<and> due_one_shots now f' < due_one_shots now f"
proof -
  have "r \<in> set (sort_key target_of (filter (\<lambda>r. \<not> is_every r \<and> due_at now r) (fs_active f)))"
    using assms(2) by simp
  then have r: "r \<in> set (fs_active f)" "\<not> is_every r" "due_at now r" by auto
  have d: "dispatchedRecord r None = Inr None" using r(2) by (simp add: dispatchedRecord_def split: schedule_rule.splits)
  let ?t = "(amap_del (fst (tables_of f)) (sch_id r), snd (tables_of f))"
  have s: "change_step (tables_of f) (SDispatch (sch_id r) None) = Inr ?t"
    using amap_get_active [OF assms(1) r(1)] d by (cases "tables_of f") simp
  have i: "change_wf (SDispatch (sch_id r) None)" using folded_wf_record [OF assms(1) r(1)] by (simp add: record_wf_def)
  have w: "tables_wf ?t" by (rule tables_wf_change [OF tables_of_wf(2) [OF assms(1)] i s])
  have a: "fs_active (folded_of ?t) = filter (\<lambda>x. sch_id x \<noteq> sch_id r) (fs_active f)"
    by (simp add: folded_of_def tables_of_wf(1) [OF assms(1)] amap_del_def filter_map comp_def)
  have "drive_once f now = Inr (Due_One_Shot r, folded_of ?t)"
    using assms(2) s by (simp add: drive_once_def dueDecision_def applyScheduleChanges_def)
  moreover have "due_one_shots now (folded_of ?t) < due_one_shots now f"
  proof -
    let ?P = "\<lambda>r. \<not> is_every r \<and> due_at now r"
    have "length (filter (\<lambda>x. sch_id x \<noteq> sch_id r) (filter ?P (fs_active f))) < length (filter ?P (fs_active f))"
      using r by (intro length_filter_less [of r]) auto
    then show ?thesis by (simp add: due_one_shots_def a conj_commute conj_left_commute)
  qed
  ultimately show ?thesis using folded_of_wf [OF w] by blast
qed

lemma drive_every:
  assumes "folded_wf f" "four_digit now" "due_one_shots now f = 0"
    and "filter (\<lambda>r. is_every r \<and> due_at now r) (fs_active f) \<noteq> []"
  shows "\<exists>os f'. drive_once f now = Inr (Due_Every os (toISOString now), f') \<and> folded_wf f'
     \<and> (\<forall>r \<in> set (fs_active f'). now < target_of r)"
proof -
  let ?rs = "sort_key target_of (filter (\<lambda>r. is_every r \<and> due_at now r) (fs_active f))"
  have ne: "?rs \<noteq> []" using assms(4) by (metis set_empty set_sort)
  have rs: "\<forall>r \<in> set ?rs. r \<in> set (fs_active f) \<and> record_wf r \<and> is_every r \<and> target_of r \<le> now"
    using folded_wf_record [OF assms(1)] due_at_wf by auto
  obtain os where os: "occurrences now ?rs = Inr os" "map fst os = ?rs"
    using occurrences_ok [of ?rs now] rs assms(2) by blast
  have dist: "distinct (map sch_id ?rs)"
    using assms(1) by (auto simp: folded_wf_def distinct_map intro: inj_on_subset)
  obtain t' where t': "fold_res change_step (tables_of f) (map (\<lambda>r. SDispatch (sch_id r) (Some (toISOString now))) ?rs) = Inr t'"
    "tables_wf t'" "\<forall>i. i \<notin> set (map sch_id ?rs) \<longrightarrow> amap_get (fst t') i = amap_get (fst (tables_of f)) i"
    "\<forall>r \<in> set ?rs. \<forall>r'. amap_get (fst t') (sch_id r) = Some r' \<longrightarrow> now < target_of r'"
    using batch_dispatch [OF tables_of_wf(2) [OF assms(1)] assms(2) dist] amap_get_active [OF assms(1)] rs by blast
  have "map (\<lambda>(r, _). SDispatch (sch_id r) (Some (toISOString now))) os = map (\<lambda>r. SDispatch (sch_id r) (Some (toISOString now))) ?rs"
    unfolding os(2) [symmetric] by (simp add: split_beta)
  moreover have "filter (\<lambda>r. \<not> is_every r \<and> due_at now r) (fs_active f) = []"
    using assms(3) by (simp add: due_one_shots_def)
  ultimately have d: "drive_once f now = Inr (Due_Every os (toISOString now), folded_of t')"
    using os(1) ne t'(1) by (simp add: drive_once_def dueDecision_def applyScheduleChanges_def Let_def)
  have "now < target_of r'" if r': "r' \<in> set (fs_active (folded_of t'))" for r'
  proof -
    have "r' \<in> snd ` set (fst t')" using r' by (simp add: folded_of_def)
    then obtain k where "(k, r') \<in> set (fst t')" by (metis imageE prod.collapse)
    then have m: "(sch_id r', r') \<in> set (fst t')" using t'(2) unfolding tables_wf_def by metis
    have "amap_wf (fst t')" using t'(2) unfolding tables_wf_def by blast
    then have g: "amap_get (fst t') (sch_id r') = Some r'" using m by (simp add: amap_get_def amap_wf_def)
    show ?thesis
    proof (cases "sch_id r' \<in> set (map sch_id ?rs)")
      case True
      then show ?thesis using t'(4) g by auto
    next
      case False
      then have "amap_get (fst (tables_of f)) (sch_id r') = Some r'" using t'(3) g by simp
      then have a: "r' \<in> set (fs_active f)"
        using amap_get_mem tables_of_wf(1) [OF assms(1)] by fastforce
      have "\<not> (is_every r' \<and> due_at now r')" using False a by (auto simp del: is_every.simps)
      moreover have "\<not> (\<not> is_every r' \<and> due_at now r')"
        using assms(3) a unfolding due_one_shots_def length_0_conv filter_empty_conv by blast
      ultimately have "\<not> due_at now r'" by blast
      then show ?thesis using due_at_wf [OF folded_wf_record [OF assms(1) a]] by simp
    qed
  qed
  then show ?thesis using d folded_of_wf [OF t'(2)] by blast
qed

lemma next_wake_min:
  assumes "\<forall>r \<in> set rs. record_wf r \<and> now < target_of r"
  shows "next_wake now rs = (if rs = [] then None else Some (Min (target_of ` set rs)))"
  using assms
proof (induction rs rule: rev_induct)
  case Nil
  then show ?case by (simp add: next_wake_def)
next
  case (snoc r rs)
  have t: "date_parse (scheduledAt r) = Some (target_of r)" "now < target_of r" using snoc.prems target_parse by auto
  have IH: "next_wake now rs = (if rs = [] then None else Some (Min (target_of ` set rs)))" using snoc by simp
  have "next_wake now (rs @ [r]) = (case next_wake now rs of None \<Rightarrow> Some (target_of r)
      | Some s \<Rightarrow> if target_of r < s then Some (target_of r) else Some s)"
    using t by (simp add: next_wake_def split: option.splits)
  also have "\<dots> = Some (Min (target_of ` set (rs @ [r])))"
  proof (cases "rs = []")
    case False
    then have "Min (target_of ` set (rs @ [r])) = min (target_of r) (Min (target_of ` set rs))" by simp
    moreover have "(if a < b then Some a else Some b) = Some (min a b)" for a b :: int by (simp add: min_def)
    ultimately show ?thesis using False IH by (simp only: if_False option.case)
  next
    case True
    then show ?thesis by (simp add: next_wake_def)
  qed
  finally show ?case by simp
qed

lemma drive_wait:
  assumes "folded_wf f" "\<forall>r \<in> set (fs_active f). now < target_of r"
  shows "drive_once f now =
     Inr (Wait_For (if fs_active f = [] then None else Some (Min (target_of ` set (fs_active f)))), f)"
proof -
  have e: "filter (\<lambda>r. \<not> is_every r \<and> due_at now r) (fs_active f) = []" "filter (\<lambda>r. is_every r \<and> due_at now r) (fs_active f) = []"
    using assms due_at_wf [OF folded_wf_record [OF assms(1)]] by (auto simp: filter_empty_conv)
  have "next_wake now (fs_active f) = (if fs_active f = [] then None else Some (Min (target_of ` set (fs_active f))))"
    using assms folded_wf_record by (intro next_wake_min) auto
  then show ?thesis using e tables_of_wf(3) [OF assms(1)]
    by (simp add: drive_once_def dueDecision_def applyScheduleChanges_def)
qed

lemma drive_rounds_mono: "drive_rounds k f now = Some r \<Longrightarrow> drive_rounds (k + m) f now = Some r"
  by (induction k f now arbitrary: r rule: drive_rounds.induct) (auto split: sum.splits if_splits)

lemma nothing_due:
  assumes "folded_wf f" "due_one_shots now f = 0" "filter (\<lambda>r. is_every r \<and> due_at now r) (fs_active f) = []"
  shows "\<forall>r \<in> set (fs_active f). now < target_of r"
  using assms due_at_wf [OF folded_wf_record [OF assms(1)]]
  by (auto simp: due_one_shots_def filter_empty_conv not_le)

definition settled :: "folded_schedules \<Rightarrow> int \<Rightarrow> nat \<Rightarrow> bool" where
  "settled f now n \<longleftrightarrow> (\<exists>ds w f'. drive_rounds n f now = Some (Inr (ds @ [Wait_For w], f')) \<and> folded_wf f'
     \<and> (\<forall>r \<in> set (fs_active f'). now < target_of r)
     \<and> w = (if fs_active f' = [] then None else Some (Min (target_of ` set (fs_active f')))))"

lemma settled_now: "folded_wf f \<Longrightarrow> \<forall>r \<in> set (fs_active f). now < target_of r \<Longrightarrow> settled f now (Suc n)"
  using drive_wait [of f now] unfolding settled_def by (intro exI [of _ "[]"]) auto

lemma settled_later:
  assumes "drive_once f now = Inr (d, f1)" "\<not> is_wait d" "settled f1 now n"
  shows "settled f now (Suc n)"
proof -
  obtain ds w f' where s: "drive_rounds n f1 now = Some (Inr (ds @ [Wait_For w], f'))" "folded_wf f'"
     "\<forall>r \<in> set (fs_active f'). now < target_of r"
     "w = (if fs_active f' = [] then None else Some (Min (target_of ` set (fs_active f'))))"
    using assms(3) unfolding settled_def by blast
  then have "drive_rounds (Suc n) f now = Some (Inr ((d # ds) @ [Wait_For w], f'))" using assms(1,2) by simp
  then show ?thesis using s(2-4) unfolding settled_def by blast
qed

lemma drives_settle:
  assumes "folded_wf f" "four_digit now"
  shows "settled f now (due_one_shots now f + 2)"
  using assms(1)
proof (induction "due_one_shots now f" arbitrary: f rule: less_induct)
  case less
  show ?case
  proof (cases "sort_key target_of (filter (\<lambda>r. \<not> is_every r \<and> due_at now r) (fs_active f))")
    case (Cons r rest)
    obtain f1 where f1: "drive_once f now = Inr (Due_One_Shot r, f1)" "folded_wf f1" "due_one_shots now f1 < due_one_shots now f"
      using drive_one_shot [OF less.prems Cons] by blast
    obtain k where k: "due_one_shots now f = due_one_shots now f1 + Suc k" using f1(3) less_iff_Suc_add by auto
    obtain ds w f' where s: "drive_rounds (due_one_shots now f1 + 2) f1 now = Some (Inr (ds @ [Wait_For w], f'))" "folded_wf f'"
      "\<forall>r \<in> set (fs_active f'). now < target_of r"
      "w = (if fs_active f' = [] then None else Some (Min (target_of ` set (fs_active f'))))"
      using less.hyps [OF f1(3,2)] unfolding settled_def by blast
    have "settled f1 now (due_one_shots now f1 + 2 + k)"
      unfolding settled_def using drive_rounds_mono [OF s(1), of k] s(2-4) by blast
    from settled_later [OF f1(1) _ this] show ?thesis using k by (simp add: algebra_simps)
  next
    case Nil
    then have z: "due_one_shots now f = 0" by (metis due_one_shots_def length_0_conv set_empty set_sort)
    show ?thesis
    proof (cases "filter (\<lambda>r. is_every r \<and> due_at now r) (fs_active f) = []")
      case True
      then show ?thesis using settled_now [OF less.prems nothing_due [OF less.prems z True], of 1] z by simp
    next
      case False
      obtain os f1 where f1: "drive_once f now = Inr (Due_Every os (toISOString now), f1)" "folded_wf f1"
        "\<forall>r \<in> set (fs_active f1). now < target_of r"
        using drive_every [OF less.prems assms(2) z False] by blast
      from settled_later [OF f1(1) _ settled_now [OF f1(2,3), of 0]] show ?thesis using z by simp
    qed
  qed
qed

lemma fold_events_wf:
  assumes "foldScheduleEvents evs inherited = Inr f" shows "folded_wf f"
proof -
  have e: "tables_of empty_schedules = ([], [])" by (simp add: tables_of_def empty_schedules_def)
  obtain t where t: "fold_res event_step ([], []) (drop (nat inherited) evs) = Inr t" "f = folded_of t"
    using assms by (auto simp: foldScheduleEvents_def e rbind_eq_Inr split: if_splits)
  have "tables_wf t"
    by (rule fold_res_invariant [where P = tables_wf, OF tables_wf_empty _ t(1)]) (rule event_step_wf)
  then show ?thesis using t(2) folded_of_wf by simp
qed

end
