(* ===== verification/Schedule_Properties.thy ===== *)
theory Schedule_Properties
  imports Schedule_Laws Surface_Laws
begin

text \<open>
  The properties of the schedule domain, with concrete reminders as witnesses.
\<close>

section \<open>Records\<close>

definition create_payload :: "schedule_record \<Rightarrow> json" where
  "create_payload r =
     JObj [(''version'', JNum (JInt 1)), (''operation'', JStr ''create''), (''schedule'', encode_record r)]"

definition demo_at :: schedule_record where
  "demo_at = \<lparr>sch_id = ''schedule-1'', sch_prompt = ''stand up'', sch_rule = At,
     scheduledAt = ''2024-02-29T06:30:00.500Z''\<rparr>"

definition demo_every :: schedule_record where
  "demo_every = \<lparr>sch_id = ''schedule-2'', sch_prompt = ''drink'', sch_rule = Every 300,
     scheduledAt = ''2024-02-29T06:30:00.000Z''\<rparr>"

text \<open>
  What the tools create is what the log can hold: a record created from a delay, an
  instant or an interval, at a clock after 1970, decodes from its stored form to itself, and its
  target lies strictly in the future.
\<close>

theorem schedule_created_decodes:
  assumes "0 \<le> now" "created resolve_zone zones now i r" "id_ok i"
  shows "decodeScheduleChange (create_payload r) = Inr (SCreate r) \<and> sch_id r = i
     \<and> (\<exists>t. date_parse (scheduledAt r) = Some t \<and> now < t)"
  using created_facts [OF assms] stored_ok(1) [of r] target_parse [of r]
  by (auto simp: stored_record_ok_def create_payload_def)

lemma demo_created:
  "createAtScheduleRecord (\<lambda>_. None) (\<lambda>_ _. (fields_of_epoch 0, None)) ''schedule-1'' ''  stand up ''
     (JStr ''2024-02-29T12:00:00.5+05:30'') 1709000000000 = Inr demo_at"
  by code_simp

theorem schedule_created_decodes_witness:
  "decodeScheduleChange (create_payload demo_at) = Inr (SCreate demo_at)"
proof -
  have "created (\<lambda>_. None) (\<lambda>_ _. (fields_of_epoch 0, None)) 1709000000000 ''schedule-1'' demo_at"
    unfolding created_def using demo_created by blast
  moreover have "id_ok ''schedule-1''" by code_simp
  ultimately show ?thesis using schedule_created_decodes [of 1709000000000] by simp
qed

text \<open>
  Claim C24. A fixed-rate decision skips the backlog: for a stored record due at the decision time,
  the occurrence is the last one of its grid not after that time, and the next target is the grid
  point after it, absent only beyond the year 9999.
\<close>

theorem every_occurrence_latest:
  assumes "decodeScheduleRecord v = Inr r" "sch_rule r = Every n" "date_parse (scheduledAt r) = Some target"
    and "target \<le> now" "now \<le> MAX_FOUR_DIGIT_YEAR_MS"
  shows "\<exists>k \<ge> 0. target + k * (n * 1000) \<le> now \<and> now < target + k * (n * 1000) + n * 1000
     \<and> resolveEveryOccurrence (scheduledAt r) n now = Inr \<lparr>eo_at = toISOString (target + k * (n * 1000)),
         eo_next = (if target + k * (n * 1000) + n * 1000 \<le> MAX_FOUR_DIGIT_YEAR_MS
                    then Some (toISOString (target + k * (n * 1000) + n * 1000)) else None)\<rparr>"
proof -
  have w: "record_wf r" by (rule decodeScheduleRecord_wf [OF assms(1)])
  have t: "target = target_of r" "four_digit target" using target_parse [OF w] target_of_wf [OF w] assms(3) by auto
  have n: "0 < n" "safe_int (n * 1000)"
    using w assms(2) by (auto simp: record_wf_def rule_ok_def MIN_EVERY_INTERVAL_SECONDS_def)
  have f: "four_digit now" using t(2) assms(4,5) by (simp add: four_digit_def)
  have k: "0 \<le> (now - target) div (n * 1000)" using assms(4) n(1) by (simp add: pos_imp_zdiv_nonneg_iff)
  note o = resolve_every_ok [OF assms(3) t(2) f assms(4) n]
  show ?thesis using k o(1,3,4) by blast
qed

theorem every_occurrence_latest_witness:
  "\<exists>k \<ge> 0. 1709188200000 + k * 300000 \<le> 1709190000001 \<and> 1709190000001 < 1709188200000 + k * 300000 + (300000 :: int)
     \<and> resolveEveryOccurrence (scheduledAt demo_every) 300 1709190000001
       = Inr \<lparr>eo_at = toISOString (1709188200000 + k * 300000), eo_next = Some (toISOString (1709188200000 + k * 300000 + 300000))\<rparr>"
proof -
  have d: "decodeScheduleRecord (Some (encode_record demo_every)) = Inr demo_every"
    "sch_rule demo_every = Every 300" "date_parse (scheduledAt demo_every) = Some 1709188200000" by code_simp+
  obtain k where k: "k \<ge> 0" "1709188200000 + k * (300 * 1000) \<le> 1709190000001" "1709190000001 < 1709188200000 + k * (300 * 1000) + 300 * 1000"
    "resolveEveryOccurrence (scheduledAt demo_every) 300 1709190000001 = Inr \<lparr>eo_at = toISOString (1709188200000 + k * (300 * 1000)),
         eo_next = (if 1709188200000 + k * (300 * 1000) + 300 * 1000 \<le> MAX_FOUR_DIGIT_YEAR_MS
                    then Some (toISOString (1709188200000 + k * (300 * 1000) + 300 * 1000)) else None)\<rparr>"
    using every_occurrence_latest [OF d, of 1709190000001] by (auto simp: MAX_FOUR_DIGIT_YEAR_MS_def)
  then show ?thesis by (intro exI [of _ k]) (auto simp: MAX_FOUR_DIGIT_YEAR_MS_def)
qed

section \<open>The projection\<close>

definition schedule_event :: "nat \<Rightarrow> json \<Rightarrow> raw_event" where
  "schedule_event s d = ev0 ''schedule/change'' s d None None"

definition demo_schedule :: "raw_event list" where
  "demo_schedule =
    [ev0 ''turn/start'' 0 (JObj [(''turn'', JNum (JInt 1))]) None None,
     schedule_event 1 (create_payload demo_at),
     schedule_event 2 (create_payload demo_every),
     schedule_event 3 (JObj [(''version'', JNum (JInt 1)), (''operation'', JStr ''dispatch''), (''id'', JStr ''schedule-2''),
        (''acceptedAt'', JStr ''2024-02-29T07:00:00.001Z'')])]"

text \<open>
  Claim C22. Every state the projection reaches is one its own stored-state schema accepts: records
  and ids re-decode, ids are unique, active ids have been seen.
\<close>

theorem schedule_projection_schema:
  assumes "fold_res schedule_apply (schedule_init inherited) evs = Inr st" "0 \<le> inherited" "inherited \<le> MAX_SAFE_INTEGER"
  shows "scheduleProjectionStateSchema st"
  using schedule_unit.replay_inv [OF assms(1)] assms(2,3) projection_wf_schema by auto

definition demo_projection :: schedule_projection where
  "demo_projection = \<lparr>fs_active = [demo_at, demo_every\<lparr>scheduledAt := ''2024-02-29T07:05:00.000Z''\<rparr>],
     fs_seen = [''schedule-1'', ''schedule-2''], sp_inherited = 0\<rparr>"

lemma demo_schedule_run: "fold_res schedule_apply (schedule_init 0) demo_schedule = Inr demo_projection"
  by code_simp

theorem schedule_projection_schema_witness: "scheduleProjectionStateSchema demo_projection"
  using schedule_projection_schema [OF demo_schedule_run] by (simp add: MAX_SAFE_INTEGER_def)

text \<open>
  Claim C23. The incremental projection agrees with the full replay: over a contiguous log, applying
  the projection event by event gives the state, or the error, of folding the events after the
  inherited prefix.
\<close>

theorem schedule_projection_is_fold:
  assumes "map eseq evs = [0..<length evs]" "0 \<le> inherited" "inherited \<le> int (length evs)" "safe_int inherited"
  shows "fold_res schedule_apply (schedule_init inherited) evs
       = rbind (foldScheduleEvents evs inherited)
           (\<lambda>f. Inr \<lparr>fs_active = fs_active f, fs_seen = fs_seen f, sp_inherited = inherited\<rparr>)"
proof -
  let ?n = "nat inherited"
  have nth: "eseq (evs ! i) = i" if "i < length evs" for i
    using assms(1) that by (metis add_0 length_map nth_map nth_upt)
  have before: "\<forall>e \<in> set (take ?n evs). int (eseq e) < inherited"
    using nth by (auto simp: in_set_conv_nth)
  have after: "\<forall>e \<in> set (drop ?n evs). inherited \<le> int (eseq e)"
    using nth assms(2,3) by (auto simp: in_set_conv_nth)
  have "fold_res schedule_apply (schedule_init inherited) (take ?n evs @ drop ?n evs)
      = rbind (fold_res event_step ([], []) (drop ?n evs)) (\<lambda>t. Inr (projection_of inherited t))"
    unfolding fold_res_append schedule_init_projection projection_skips [OF before]
    using projection_run [OF tables_wf_empty after] by simp
  moreover have "tables_of empty_schedules = ([], [])" by (simp add: tables_of_def empty_schedules_def)
  moreover have "projection_of inherited t
      = \<lparr>fs_active = fs_active (folded_of t), fs_seen = fs_seen (folded_of t), sp_inherited = inherited\<rparr>" for t
    by (simp add: projection_of_def folded_of_def)
  ultimately show ?thesis using assms(2-4)
    by (cases "fold_res event_step ([], []) (drop ?n evs)") (simp_all add: foldScheduleEvents_def)
qed

theorem schedule_projection_is_fold_witness:
  "rbind (foldScheduleEvents demo_schedule 0)
     (\<lambda>f. Inr \<lparr>fs_active = fs_active f, fs_seen = fs_seen f, sp_inherited = 0\<rparr>) = Inr demo_projection"
proof -
  have "map eseq demo_schedule = [0..<length demo_schedule]" by code_simp
  from schedule_projection_is_fold [OF this, of 0] show ?thesis
    using demo_schedule_run by (simp add: safe_int_def MAX_SAFE_INTEGER_def)
qed

section \<open>Identities\<close>

text \<open>
  Allocation ends with a fresh identity: the loop stops within as many rounds as ids were
  ever used, at the first number from their count on whose name is free.
\<close>

theorem schedule_id_fresh:
  "allocateScheduleId f \<notin> set (fs_seen f) \<and>
   (\<exists>k > card (set (fs_seen f)). k \<le> 2 * card (set (fs_seen f)) + 1 \<and> allocateScheduleId f = schedule_name k
      \<and> schedule_name ` {card (set (fs_seen f)) <..< k} \<subseteq> set (fs_seen f))"
proof -
  let ?seen = "remdups (fs_seen f)" let ?c = "card (set (fs_seen f))"
  have c: "length ?seen = ?c" by (simp add: length_remdups_card_conv)
  obtain k where k: "k \<ge> ?c + 1" "allocate_from ?seen (?c + 1) = schedule_name k"
    "\<forall>j. ?c + 1 \<le> j \<longrightarrow> j < k \<longrightarrow> schedule_name j \<in> set ?seen"
    using allocate_from_first [of "?c + 1" ?seen] by blast
  have "length (remdups ?seen) = ?c" by (simp only: length_remdups_card_conv set_remdups)
  then have "k \<le> ?c + 1 + ?c" using allocate_bound [OF k(3,1)] by (simp only:)
  moreover have "schedule_name ` {?c <..< k} \<subseteq> set (fs_seen f)" using k(3) by auto
  moreover have a: "allocateScheduleId f = schedule_name k" using k(2) c by (simp add: allocateScheduleId_def Let_def)
  moreover have "allocateScheduleId f \<notin> set (fs_seen f)"
    using allocate_from_fresh [of ?seen "?c + 1"] k(2) a by simp
  ultimately show ?thesis using k(1) by (intro conjI exI [of _ k]) auto
qed

theorem schedule_id_fresh_witness:
  "allocateScheduleId \<lparr>fs_active = [], fs_seen = [''schedule-2'', ''other'', ''schedule-3'']\<rparr> = ''schedule-4''
   \<and> ''schedule-4'' \<notin> set [''schedule-2'', ''other'', ''schedule-3'']"
proof -
  have "allocateScheduleId \<lparr>fs_active = [], fs_seen = [''schedule-2'', ''other'', ''schedule-3'']\<rparr> = ''schedule-4''"
    by code_simp
  then show ?thesis
    using schedule_id_fresh [of "\<lparr>fs_active = [], fs_seen = [''schedule-2'', ''other'', ''schedule-3'']\<rparr>"] by simp
qed

section \<open>Drives\<close>

text \<open>
  Claim C21. Drives settle: whatever reminders a stored log leaves due, at one clock reading the
  drives dispatch them one by one and then in one fixed-rate batch, every dispatch they record is
  accepted by the fold, and within two rounds more than there are due one-shots they wait, for
  exactly the earliest target left.
\<close>

theorem schedule_drives_settle:
  assumes "foldScheduleEvents evs inherited = Inr f" "MIN_FOUR_DIGIT_YEAR_MS \<le> now" "now \<le> MAX_FOUR_DIGIT_YEAR_MS"
  shows "\<exists>ds w f'. drive_rounds (due_one_shots now f + 2) f now = Some (Inr (ds @ [Wait_For w], f'))
     \<and> list_all (\<lambda>r. now < target_of r) (fs_active f')
     \<and> w = (if fs_active f' = [] then None else Some (Min (target_of ` set (fs_active f'))))"
proof -
  have "four_digit now" using assms(2,3) by (simp add: four_digit_def)
  from drives_settle [OF fold_events_wf [OF assms(1)] this] show ?thesis
    unfolding settled_def list_all_iff by blast
qed

definition demo_folded :: folded_schedules where
  "demo_folded = \<lparr>fs_active = [demo_at, demo_every\<lparr>scheduledAt := ''2024-02-29T07:05:00.000Z''\<rparr>],
     fs_seen = [''schedule-1'', ''schedule-2'']\<rparr>"

theorem schedule_drives_settle_witness:
  "\<exists>ds w f'. drive_rounds 3 demo_folded 1709200000000 = Some (Inr (ds @ [Wait_For w], f'))
     \<and> list_all (\<lambda>r. 1709200000000 < target_of r) (fs_active f')"
proof -
  have f: "foldScheduleEvents demo_schedule 0 = Inr demo_folded" by code_simp
  have "due_one_shots 1709200000000 demo_folded = 1" by code_simp
  with schedule_drives_settle [OF f, of 1709200000000] show ?thesis
    by (auto simp: MIN_FOUR_DIGIT_YEAR_MS_def MAX_FOUR_DIGIT_YEAR_MS_def numeral_3_eq_3)
qed

end
