(* ===== verification/Dock_Layout.thy ===== *)
theory Dock_Layout
  imports Prelude Complex_Main
begin

text \<open>
  The layout model of one docking surface and the pure helpers over it
  (\<open>packages/client/ui-dockkit/src/contract/types.ts\<close>, \<open>engine/tree.ts\<close>): a normalised split tree whose
  nodes are kept in a record by identity, the open tabs, the floating panes and the focus. Records keyed
  by identity are insertion-ordered maps; identities are the names a mint makes, never integer-like or
  inherited property names. Fractions and pixels are exact rationals: rounding, infinities and NaN are
  outside the model. A walk over a cyclic tree overflows the stack (or never ends) in the code; it is the
  error \<open>Endless_Tree\<close> here, and the invariant of \<open>Dock_Invariant\<close> excludes it.
\<close>

section \<open>The layout\<close>

datatype split_axis = Row_Axis | Column_Axis
datatype split_direction = Side_Before | Side_After
datatype dock_zone = Zone_Center | Zone_Top | Zone_Right | Zone_Bottom | Zone_Left
datatype dock_mode = Mode_Push | Mode_Fullscreen

record float_rect =
  fr_x :: rat
  fr_y :: rat
  fr_width :: rat
  fr_height :: rat

record split_node =
  sn_id :: string
  sn_axis :: split_axis
  sn_children :: "string list"
  sn_sizes :: "rat list"

datatype pane_host = Host_Dock | Host_Float

record pane_node =
  pn_id :: string
  pn_host :: pane_host
  pn_tabs :: "string list"
  pn_active :: "string option"
  pn_rect :: "float_rect option"

datatype layout_node = Split_Node split_node | Pane_Node pane_node

record tab_record =
  tb_id :: string
  tb_kind :: string
  tb_content :: string
  tb_title :: string

record layout_state =
  ly_nodes :: "(string, layout_node) amap"
  ly_tabs :: "(string, tab_record) amap"
  ly_root :: string
  ly_floats :: "string list"
  ly_active :: string
  ly_expanded :: bool
  ly_mode :: dock_mode

datatype pane_attachment =
    Attach_Child string int "rat list"
  | Attach_Wrap string split_node
  | Attach_Float int

datatype layout_op =
    Op_Split string split_axis split_direction string string
  | Op_Merge string
  | Op_OpenTab string tab_record int
  | Op_CloseTab string
  | Op_MoveTab string string int
  | Op_ReorderTab string int
  | Op_FocusTab string
  | Op_FocusPane string
  | Op_Resize string "rat list"
  | Op_Float string string float_rect
  | Op_Unfloat string string int
  | Op_MoveFloat string rat rat
  | Op_ResizeFloat string float_rect
  | Op_SetExpanded bool
  | Op_SetMode dock_mode
  | Op_InsertPane pane_node "tab_record list" pane_attachment
  | Op_InsertTab string tab_record int
  | Op_RestoreFocus string "string list" "(string, string option) amap"

datatype layout_error =
    Unknown_Node string
  | Not_A_Pane string
  | Not_A_Split string
  | Unknown_Tab string
  | Not_Floating string
  | Not_In_Z_Order string
  | Not_One_Tab string
  | Tab_Has_No_Pane string
  | Endless_Tree
  | Sizes_Not_Above_Zero
  | Neither_Rooted_Nor_Parented string
  | Split_Without_Children string
  | Node_Exists string
  | Tab_Exists string
  | Split_Requires_Docked
  | Merge_Requires_Empty
  | Merge_Of_Root
  | Split_Without_Sibling
  | OpenTab_Requires_Docked
  | InsertTab_Requires_Docked
  | InsertPane_Records_Mismatch
  | InsertPane_Docked_Not_Empty
  | InsertPane_Sizes_Mismatch
  | InsertPane_Wrap_Unlisted
  | InsertPane_Float_Docked
  | MoveTab_Source_Floating
  | MoveTab_Target_Floating
  | MoveTab_Same_Pane
  | Resize_Mismatch
  | Resize_Not_Above_Zero
  | Float_Requires_Docked
  | Unfloat_Target_Floating
  | Float_Size_Not_Above_Zero
  | Focus_Lists_Docked string

type_synonym 'a lay = "(layout_error, 'a) res"

section \<open>Readers\<close>

definition getNode :: "layout_state \<Rightarrow> string \<Rightarrow> layout_node lay" where
  "getNode s i = (case amap_get (ly_nodes s) i of None \<Rightarrow> Inl (Unknown_Node i) | Some n \<Rightarrow> Inr n)"

definition getPane :: "layout_state \<Rightarrow> string \<Rightarrow> pane_node lay" where
  "getPane s i = rbind (getNode s i) (\<lambda>n. case n of Pane_Node p \<Rightarrow> Inr p | Split_Node _ \<Rightarrow> Inl (Not_A_Pane i))"

definition getSplit :: "layout_state \<Rightarrow> string \<Rightarrow> split_node lay" where
  "getSplit s i = rbind (getNode s i) (\<lambda>n. case n of Split_Node p \<Rightarrow> Inr p | Pane_Node _ \<Rightarrow> Inl (Not_A_Split i))"

definition getTab :: "layout_state \<Rightarrow> string \<Rightarrow> tab_record lay" where
  "getTab s i = (case amap_get (ly_tabs s) i of None \<Rightarrow> Inl (Unknown_Tab i) | Some t \<Rightarrow> Inr t)"

definition floatRect :: "pane_node \<Rightarrow> float_rect lay" where
  "floatRect p = (case pn_rect p of
       None \<Rightarrow> Inl (Not_Floating (pn_id p))
     | Some r \<Rightarrow> if pn_host p \<noteq> Host_Float then Inl (Not_Floating (pn_id p)) else Inr r)"

definition floatIndex :: "layout_state \<Rightarrow> string \<Rightarrow> nat lay" where
  "floatIndex s i = (case index_of (ly_floats s) i of None \<Rightarrow> Inl (Not_In_Z_Order i) | Some n \<Rightarrow> Inr n)"

definition onlyTabId :: "pane_node \<Rightarrow> string lay" where
  "onlyTabId p = (case pn_tabs p of [t] \<Rightarrow> Inr t | _ \<Rightarrow> Inl (Not_One_Tab (pn_id p)))"

fun first_parent :: "(string, layout_node) amap \<Rightarrow> string \<Rightarrow> split_node option" where
  "first_parent [] i = None"
| "first_parent ((k, n) # m) i = (case n of
      Split_Node p \<Rightarrow> if i \<in> set (sn_children p) then Some p else first_parent m i
    | Pane_Node _ \<Rightarrow> first_parent m i)"

definition findParent :: "layout_state \<Rightarrow> string \<Rightarrow> split_node option" where
  "findParent s i = first_parent (ly_nodes s) i"

fun first_tab_pane :: "(string, layout_node) amap \<Rightarrow> string \<Rightarrow> pane_node option" where
  "first_tab_pane [] t = None"
| "first_tab_pane ((k, n) # m) t = (case n of
      Pane_Node p \<Rightarrow> if t \<in> set (pn_tabs p) then Some p else first_tab_pane m t
    | Split_Node _ \<Rightarrow> first_tab_pane m t)"

definition findTabPane :: "layout_state \<Rightarrow> string \<Rightarrow> pane_node lay" where
  "findTabPane s t = (case first_tab_pane (ly_nodes s) t of
     None \<Rightarrow> Inl (Tab_Has_No_Pane t) | Some p \<Rightarrow> Inr p)"

text \<open>The depth-first walk; its fuel bounds the depth, and no path of a tree is longer than its nodes.\<close>

fun walk_panes :: "nat \<Rightarrow> layout_state \<Rightarrow> string \<Rightarrow> string list lay" where
  "walk_panes 0 s i = Inl Endless_Tree"
| "walk_panes (Suc f) s i = rbind (getNode s i) (\<lambda>n. case n of
      Pane_Node p \<Rightarrow> Inr [pn_id p]
    | Split_Node p \<Rightarrow> fold_res (\<lambda>out c. rbind (walk_panes f s c) (\<lambda>ps. Inr (out @ ps))) [] (sn_children p))"

definition dockPaneIds :: "layout_state \<Rightarrow> string list lay" where
  "dockPaneIds s = walk_panes (Suc (length (ly_nodes s))) s (ly_root s)"

fun descend :: "nat \<Rightarrow> layout_state \<Rightarrow> (split_node \<Rightarrow> string option) \<Rightarrow> string \<Rightarrow> string lay" where
  "descend 0 s pick i = Inl Endless_Tree"
| "descend (Suc f) s pick i = rbind (getNode s i) (\<lambda>n. case n of
      Pane_Node p \<Rightarrow> Inr (pn_id p)
    | Split_Node p \<Rightarrow> (case pick p of
          None \<Rightarrow> Inl (Split_Without_Children (sn_id p))
        | Some c \<Rightarrow> descend f s pick c))"

definition first_child :: "split_node \<Rightarrow> string option" where
  "first_child p = (case sn_children p of [] \<Rightarrow> None | c # _ \<Rightarrow> Some c)"

definition top_right_child :: "split_node \<Rightarrow> string option" where
  "top_right_child p = (case sn_axis p of
      Row_Axis \<Rightarrow> (if sn_children p = [] then None else Some (last (sn_children p)))
    | Column_Axis \<Rightarrow> first_child p)"

definition firstDockPaneId :: "layout_state \<Rightarrow> string lay" where
  "firstDockPaneId s = descend (Suc (length (ly_nodes s))) s first_child (ly_root s)"

definition topRightPaneId :: "layout_state \<Rightarrow> string lay" where
  "topRightPaneId s = descend (Suc (length (ly_nodes s))) s top_right_child (ly_root s)"

section \<open>Writers\<close>

text \<open>An object literal with computed keys: a repeated key keeps its place and takes the later value.\<close>

definition literal :: "('k \<times> 'v) list \<Rightarrow> ('k, 'v) amap" where
  "literal kvs = foldl (\<lambda>m (k, v). amap_set m k v) [] kvs"

fun kept :: "('k, 'v option) amap \<Rightarrow> ('k, 'v) amap" where
  "kept [] = []"
| "kept ((k, None) # u) = kept u"
| "kept ((k, Some n) # u) = (k, n) # kept u"

definition updated :: "('k, 'v) amap \<Rightarrow> ('k, 'v option) amap \<Rightarrow> ('k, 'v) amap" where
  "updated m u = filter (\<lambda>(k, _). k \<notin> set (amap_keys u)) m @ kept u"

definition withNodes :: "layout_state \<Rightarrow> (string \<times> layout_node option) list \<Rightarrow> layout_state" where
  "withNodes s u = s\<lparr>ly_nodes := updated (ly_nodes s) (literal u)\<rparr>"

definition withTabs :: "layout_state \<Rightarrow> (string \<times> tab_record option) list \<Rightarrow> layout_state" where
  "withTabs s u = s\<lparr>ly_tabs := updated (ly_tabs s) (literal u)\<rparr>"

definition insertAt :: "'a list \<Rightarrow> int \<Rightarrow> 'a \<Rightarrow> 'a list" where
  "insertAt xs i x = (let n = nat (max 0 (min i (int (length xs)))) in take n xs @ x # drop n xs)"

definition removeAt :: "'a list \<Rightarrow> nat \<Rightarrow> 'a list" where
  "removeAt xs i = take i xs @ drop (Suc i) xs"

definition neighbourTabId :: "string list \<Rightarrow> nat \<Rightarrow> string option" where
  "neighbourTabId tabs i = (let left = removeAt tabs i in
     if left = [] then None else if i - 1 < length left then Some (left ! (i - 1)) else None)"

definition paneWithTabs :: "pane_node \<Rightarrow> string list \<Rightarrow> string option \<Rightarrow> pane_node" where
  "paneWithTabs p tabs a = p\<lparr>pn_tabs := tabs, pn_active := a\<rparr>"

definition size_tolerance :: rat where
  "size_tolerance = 1 / 1000000000000"

definition normalizeSizes :: "rat list \<Rightarrow> rat list lay" where
  "normalizeSizes sizes = (let total = sum_list sizes in
     if \<not> total > 0 then Inl Sizes_Not_Above_Zero
     else if \<bar>total - 1\<bar> < size_tolerance then Inr sizes
     else Inr (map (\<lambda>x. x / total) sizes))"

definition replaceInParent :: "layout_state \<Rightarrow> string \<Rightarrow> string \<Rightarrow> layout_state lay" where
  "replaceInParent s target new = (case findParent s target of
      None \<Rightarrow> if ly_root s \<noteq> target then Inl (Neither_Rooted_Nor_Parented target)
               else Inr (s\<lparr>ly_root := new\<rparr>)
    | Some parent \<Rightarrow> Inr (withNodes s [(sn_id parent,
        Some (Split_Node (parent\<lparr>sn_children := map (\<lambda>c. if c = target then new else c) (sn_children parent)\<rparr>)))]))"

end
