(* ===== verification/Dock_Operations.thy ===== *)
theory Dock_Operations
  imports Dock_Layout
begin

text \<open>
  The operation engine of the docking layout (\<open>engine/operations.ts\<close>): one application function per
  operation, each returning the next layout and the operations that undo it.
\<close>

type_synonym applied = "(layout_state \<times> layout_op list) lay"

section \<open>Shared steps\<close>

definition focusSnapshot :: "layout_state \<Rightarrow> string list \<Rightarrow> layout_op lay" where
  "focusSnapshot s ids =
     rbind (fold_res (\<lambda>m i. rbind (getPane s i) (\<lambda>p. Inr (amap_set m i (pn_active p)))) [] ids)
       (\<lambda>m. Inr (Op_RestoreFocus (ly_active s) (ly_floats s) m))"

definition raise :: "string list \<Rightarrow> string \<Rightarrow> string list" where
  "raise floats i = filter (\<lambda>j. j \<noteq> i) floats @ [i]"

definition reseatFocus :: "layout_state \<Rightarrow> string \<Rightarrow> layout_state lay" where
  "reseatFocus s removed = (if ly_active s \<noteq> removed then Inr s
     else rbind (firstDockPaneId s) (\<lambda>i. Inr (s\<lparr>ly_active := i\<rparr>)))"

definition emptyDockPane :: "string \<Rightarrow> pane_node" where
  "emptyDockPane i = \<lparr>pn_id = i, pn_host = Host_Dock, pn_tabs = [], pn_active = None, pn_rect = None\<rparr>"

definition assertFreeNode :: "layout_state \<Rightarrow> string \<Rightarrow> unit lay" where
  "assertFreeNode s i = require (amap_get (ly_nodes s) i = None) (Node_Exists i)"

definition assertFreeTab :: "layout_state \<Rightarrow> string \<Rightarrow> unit lay" where
  "assertFreeTab s i = require (amap_get (ly_tabs s) i = None) (Tab_Exists i)"

text \<open>\<open>indexOf\<close> where the value is known to be listed.\<close>

definition position :: "'a list \<Rightarrow> 'a \<Rightarrow> nat" where
  "position xs x = (case index_of xs x of None \<Rightarrow> length xs | Some n \<Rightarrow> n)"

section \<open>Splitting and merging panes\<close>

text \<open>The branch of \<open>applySplit\<close> that puts a new split in the reference pane's slot.\<close>

definition wrapSplit ::
  "layout_state \<Rightarrow> string \<Rightarrow> split_axis \<Rightarrow> split_direction \<Rightarrow> string \<Rightarrow> string \<Rightarrow> applied" where
  "wrapSplit s paneId axis direction newPaneId newSplitId =
     rbind (assertFreeNode s newSplitId) (\<lambda>_.
     rbind (replaceInParent s paneId newSplitId) (\<lambda>rehomed.
     Inr (withNodes rehomed [(newPaneId, Some (Pane_Node (emptyDockPane newPaneId))),
            (newSplitId, Some (Split_Node \<lparr>sn_id = newSplitId, sn_axis = axis,
               sn_children = (if direction = Side_After then [paneId, newPaneId] else [newPaneId, paneId]),
               sn_sizes = [1/2, 1/2]\<rparr>))],
          [Op_Merge newPaneId])))"

definition halved :: "rat list \<Rightarrow> nat \<Rightarrow> rat list" where
  "halved zs n = concat (map (\<lambda>(i, x). if i = n then [x / 2, x / 2] else [x]) (zip [0..<length zs] zs))"

definition applySplit ::
  "layout_state \<Rightarrow> string \<Rightarrow> split_axis \<Rightarrow> split_direction \<Rightarrow> string \<Rightarrow> string \<Rightarrow> applied" where
  "applySplit s paneId axis direction newPaneId newSplitId =
     rbind (getPane s paneId) (\<lambda>pane.
     rbind (require (pn_host pane = Host_Dock) Split_Requires_Docked) (\<lambda>_.
     rbind (assertFreeNode s newPaneId) (\<lambda>_.
     (case findParent s paneId of
        None \<Rightarrow> wrapSplit s paneId axis direction newPaneId newSplitId
      | Some parent \<Rightarrow>
          if sn_axis parent = axis then
            let index = position (sn_children parent) paneId;
                at_index = (if direction = Side_After then index + 1 else index);
                children = insertAt (sn_children parent) (int at_index) newPaneId;
                sizes = halved (sn_sizes parent) index
            in Inr (withNodes s [(newPaneId, Some (Pane_Node (emptyDockPane newPaneId))),
                      (sn_id parent, Some (Split_Node (parent\<lparr>sn_children := children, sn_sizes := sizes\<rparr>)))],
                    [Op_Merge newPaneId, Op_Resize (sn_id parent) (sn_sizes parent)])
          else wrapSplit s paneId axis direction newPaneId newSplitId))))"

definition applyMerge :: "layout_state \<Rightarrow> string \<Rightarrow> applied" where
  "applyMerge s paneId =
     rbind (getPane s paneId) (\<lambda>pane.
     rbind (require (pn_tabs pane = []) Merge_Requires_Empty) (\<lambda>_.
     rbind (focusSnapshot s []) (\<lambda>focus.
     if pn_host pane = Host_Float then
       rbind (floatIndex s paneId) (\<lambda>index.
       rbind (reseatFocus (withNodes (s\<lparr>ly_floats := removeAt (ly_floats s) index\<rparr>) [(paneId, None)]) paneId) (\<lambda>t.
       Inr (t, [Op_InsertPane pane [] (Attach_Float (int index)), focus])))
     else (case findParent s paneId of
       None \<Rightarrow> Inl Merge_Of_Root
     | Some parent \<Rightarrow>
         let index = position (sn_children parent) paneId in
         if length (sn_children parent) > 2 then
           rbind (normalizeSizes (removeAt (sn_sizes parent) index)) (\<lambda>sizes.
           rbind (reseatFocus (withNodes s [(paneId, None), (sn_id parent, Some (Split_Node
                    (parent\<lparr>sn_children := removeAt (sn_children parent) index, sn_sizes := sizes\<rparr>)))]) paneId) (\<lambda>t.
           Inr (t, [Op_InsertPane pane [] (Attach_Child (sn_id parent) (int index) (sn_sizes parent)), focus])))
         else if length (sn_children parent) \<le> 1 - index then Inl Split_Without_Sibling
         else
           let siblingId = sn_children parent ! (1 - index) in
           rbind (replaceInParent s (sn_id parent) siblingId) (\<lambda>r.
           rbind (reseatFocus (withNodes r [(paneId, None), (sn_id parent, None)]) paneId) (\<lambda>t.
           Inr (t, [Op_InsertPane pane [] (Attach_Wrap siblingId parent), focus])))))))"

section \<open>Tabs\<close>

definition applyOpenTab :: "layout_state \<Rightarrow> string \<Rightarrow> tab_record \<Rightarrow> int \<Rightarrow> applied" where
  "applyOpenTab s paneId tab index =
     rbind (getPane s paneId) (\<lambda>pane.
     rbind (require (pn_host pane = Host_Dock) OpenTab_Requires_Docked) (\<lambda>_.
     rbind (assertFreeTab s (tb_id tab)) (\<lambda>_.
     rbind (focusSnapshot s [pn_id pane]) (\<lambda>focus.
     let seated = withNodes (withTabs s [(tb_id tab, Some tab)])
           [(pn_id pane, Some (Pane_Node (paneWithTabs pane (insertAt (pn_tabs pane) index (tb_id tab)) (Some (tb_id tab)))))]
     in Inr (seated\<lparr>ly_active := pn_id pane\<rparr>, [Op_CloseTab (tb_id tab), focus])))))"

definition applyInsertTab :: "layout_state \<Rightarrow> string \<Rightarrow> tab_record \<Rightarrow> int \<Rightarrow> applied" where
  "applyInsertTab s paneId tab index =
     rbind (getPane s paneId) (\<lambda>pane.
     rbind (require (pn_host pane = Host_Dock) InsertTab_Requires_Docked) (\<lambda>_.
     rbind (assertFreeTab s (tb_id tab)) (\<lambda>_.
     rbind (focusSnapshot s [pn_id pane]) (\<lambda>focus.
     let tabs = insertAt (pn_tabs pane) index (tb_id tab);
         a = (case pn_active pane of None \<Rightarrow> Some (tb_id tab) | Some x \<Rightarrow> Some x)
     in Inr (withNodes (withTabs s [(tb_id tab, Some tab)]) [(pn_id pane, Some (Pane_Node (paneWithTabs pane tabs a)))],
             [Op_CloseTab (tb_id tab), focus])))))"

definition active_without :: "pane_node \<Rightarrow> string \<Rightarrow> nat \<Rightarrow> string option" where
  "active_without pane tabId index =
     (if pn_active pane = Some tabId then neighbourTabId (pn_tabs pane) index else pn_active pane)"

definition applyCloseTab :: "layout_state \<Rightarrow> string \<Rightarrow> applied" where
  "applyCloseTab s tabId =
     rbind (getTab s tabId) (\<lambda>tab.
     rbind (findTabPane s tabId) (\<lambda>pane.
     let index = position (pn_tabs pane) tabId in
     rbind (focusSnapshot s [pn_id pane]) (\<lambda>focus.
     if pn_host pane = Host_Float then
       rbind (floatIndex s (pn_id pane)) (\<lambda>z.
       rbind (reseatFocus (withTabs (withNodes (s\<lparr>ly_floats := removeAt (ly_floats s) z\<rparr>) [(pn_id pane, None)])
                [(tabId, None)]) (pn_id pane)) (\<lambda>t.
       Inr (t, [Op_InsertPane pane [tab] (Attach_Float (int z)), focus])))
     else
       Inr (withTabs (withNodes s [(pn_id pane,
              Some (Pane_Node (paneWithTabs pane (removeAt (pn_tabs pane) index) (active_without pane tabId index))))])
              [(tabId, None)],
            [Op_InsertTab (pn_id pane) tab (int index), focus]))))"

definition applyInsertPane :: "layout_state \<Rightarrow> pane_node \<Rightarrow> tab_record list \<Rightarrow> pane_attachment \<Rightarrow> applied" where
  "applyInsertPane s pane tabs attach =
     rbind (assertFreeNode s (pn_id pane)) (\<lambda>_.
     rbind (require (length (pn_tabs pane) = length tabs) InsertPane_Records_Mismatch) (\<lambda>_.
     rbind (require (\<not> (pn_host pane = Host_Dock \<and> tabs \<noteq> [])) InsertPane_Docked_Not_Empty) (\<lambda>_.
     rbind (fold_res (\<lambda>_ t. assertFreeTab s (tb_id t)) () tabs) (\<lambda>_.
     rbind (focusSnapshot s []) (\<lambda>focus.
     let tabUpdates = map (\<lambda>t. (tb_id t, Some t)) tabs;
         inverse = (case tabs of [] \<Rightarrow> [Op_Merge (pn_id pane)] | t # _ \<Rightarrow> [Op_CloseTab (tb_id t), focus])
     in (case attach of
       Attach_Child parentId index sizes \<Rightarrow>
         rbind (getSplit s parentId) (\<lambda>parent.
         let children = insertAt (sn_children parent) index (pn_id pane) in
         rbind (require (length sizes = length children) InsertPane_Sizes_Mismatch) (\<lambda>_.
         Inr (withNodes (withTabs s tabUpdates) [(pn_id pane, Some (Pane_Node pane)),
                (sn_id parent, Some (Split_Node (parent\<lparr>sn_children := children, sn_sizes := sizes\<rparr>)))],
              inverse @ [Op_Resize (sn_id parent) (sn_sizes parent)])))
     | Attach_Wrap targetId split \<Rightarrow>
         rbind (require (pn_id pane \<in> set (sn_children split)) InsertPane_Wrap_Unlisted) (\<lambda>_.
         rbind (replaceInParent s targetId (sn_id split)) (\<lambda>rehomed.
         Inr (withNodes (withTabs rehomed tabUpdates) [(pn_id pane, Some (Pane_Node pane)),
                (sn_id split, Some (Split_Node split))], inverse)))
     | Attach_Float index \<Rightarrow>
         rbind (require (pn_host pane = Host_Float) InsertPane_Float_Docked) (\<lambda>_.
         Inr (withNodes (withTabs (s\<lparr>ly_floats := insertAt (ly_floats s) index (pn_id pane)\<rparr>) tabUpdates)
                [(pn_id pane, Some (Pane_Node pane))], inverse))))))))"

definition applyMoveTab :: "layout_state \<Rightarrow> string \<Rightarrow> string \<Rightarrow> int \<Rightarrow> applied" where
  "applyMoveTab s tabId toPaneId slot =
     rbind (findTabPane s tabId) (\<lambda>source.
     rbind (require (pn_host source = Host_Dock) MoveTab_Source_Floating) (\<lambda>_.
     rbind (getPane s toPaneId) (\<lambda>dest.
     rbind (require (pn_host dest = Host_Dock) MoveTab_Target_Floating) (\<lambda>_.
     rbind (require (pn_id dest \<noteq> pn_id source) MoveTab_Same_Pane) (\<lambda>_.
     let index = position (pn_tabs source) tabId in
     rbind (focusSnapshot s [pn_id source, pn_id dest]) (\<lambda>focus.
     let moved = withNodes s [
           (pn_id source, Some (Pane_Node (paneWithTabs source (removeAt (pn_tabs source) index)
              (active_without source tabId index)))),
           (pn_id dest, Some (Pane_Node (paneWithTabs dest (insertAt (pn_tabs dest) slot tabId) (Some tabId))))]
     in Inr (moved\<lparr>ly_active := pn_id dest\<rparr>, [Op_MoveTab tabId (pn_id source) (int index), focus])))))))"

definition applyReorderTab :: "layout_state \<Rightarrow> string \<Rightarrow> int \<Rightarrow> applied" where
  "applyReorderTab s tabId slot =
     rbind (findTabPane s tabId) (\<lambda>pane.
     let source = position (pn_tabs pane) tabId;
         tabs = insertAt (removeAt (pn_tabs pane) source) slot tabId
     in Inr (withNodes s [(pn_id pane, Some (Pane_Node (pane\<lparr>pn_tabs := tabs\<rparr>)))],
             [Op_ReorderTab tabId (int source)]))"

section \<open>Focus and sizes\<close>

definition raised :: "layout_state \<Rightarrow> pane_node \<Rightarrow> string list" where
  "raised s pane = (if pn_host pane = Host_Float then raise (ly_floats s) (pn_id pane) else ly_floats s)"

definition applyFocusTab :: "layout_state \<Rightarrow> string \<Rightarrow> applied" where
  "applyFocusTab s tabId =
     rbind (findTabPane s tabId) (\<lambda>pane.
     rbind (focusSnapshot s [pn_id pane]) (\<lambda>focus.
     let focused = withNodes s [(pn_id pane, Some (Pane_Node (pane\<lparr>pn_active := Some tabId\<rparr>)))]
     in Inr (focused\<lparr>ly_active := pn_id pane, ly_floats := raised focused pane\<rparr>, [focus])))"

definition applyFocusPane :: "layout_state \<Rightarrow> string \<Rightarrow> applied" where
  "applyFocusPane s paneId =
     rbind (getPane s paneId) (\<lambda>pane.
     rbind (focusSnapshot s []) (\<lambda>focus.
     Inr (s\<lparr>ly_active := pn_id pane, ly_floats := raised s pane\<rparr>, [focus])))"

definition applyResize :: "layout_state \<Rightarrow> string \<Rightarrow> rat list \<Rightarrow> applied" where
  "applyResize s splitId sizes =
     rbind (getSplit s splitId) (\<lambda>split.
     rbind (require (length sizes = length (sn_children split)) Resize_Mismatch) (\<lambda>_.
     rbind (require (list_all (\<lambda>x. x > 0) sizes) Resize_Not_Above_Zero) (\<lambda>_.
     rbind (normalizeSizes sizes) (\<lambda>normal.
     Inr (withNodes s [(sn_id split, Some (Split_Node (split\<lparr>sn_sizes := normal\<rparr>)))],
          [Op_Resize (sn_id split) (sn_sizes split)])))))"

section \<open>Floating panes\<close>

definition floating_pane :: "string \<Rightarrow> string \<Rightarrow> float_rect \<Rightarrow> pane_node" where
  "floating_pane i tabId rect =
     \<lparr>pn_id = i, pn_host = Host_Float, pn_tabs = [tabId], pn_active = Some tabId, pn_rect = Some rect\<rparr>"

definition applyFloat :: "layout_state \<Rightarrow> string \<Rightarrow> string \<Rightarrow> float_rect \<Rightarrow> applied" where
  "applyFloat s tabId newPaneId rect =
     rbind (getTab s tabId) (\<lambda>_.
     rbind (findTabPane s tabId) (\<lambda>source.
     rbind (require (pn_host source = Host_Dock) Float_Requires_Docked) (\<lambda>_.
     rbind (assertFreeNode s newPaneId) (\<lambda>_.
     let index = position (pn_tabs source) tabId in
     rbind (focusSnapshot s [pn_id source]) (\<lambda>focus.
     let floated = withNodes s [
           (pn_id source, Some (Pane_Node (paneWithTabs source (removeAt (pn_tabs source) index)
              (active_without source tabId index)))),
           (newPaneId, Some (Pane_Node (floating_pane newPaneId tabId rect)))]
     in Inr (floated\<lparr>ly_floats := ly_floats floated @ [newPaneId], ly_active := newPaneId\<rparr>,
             [Op_Unfloat newPaneId (pn_id source) (int index), focus]))))))"

definition applyUnfloat :: "layout_state \<Rightarrow> string \<Rightarrow> string \<Rightarrow> int \<Rightarrow> applied" where
  "applyUnfloat s paneId toPaneId slot =
     rbind (getPane s paneId) (\<lambda>pane.
     rbind (floatRect pane) (\<lambda>rect.
     rbind (onlyTabId pane) (\<lambda>tabId.
     rbind (getPane s toPaneId) (\<lambda>dest.
     rbind (require (pn_host dest = Host_Dock) Unfloat_Target_Floating) (\<lambda>_.
     rbind (focusSnapshot s [pn_id dest]) (\<lambda>focus.
     rbind (floatIndex s paneId) (\<lambda>z.
     let docked = withNodes (s\<lparr>ly_floats := removeAt (ly_floats s) z\<rparr>) [
           (paneId, None),
           (pn_id dest, Some (Pane_Node (paneWithTabs dest (insertAt (pn_tabs dest) slot tabId) (Some tabId))))]
     in Inr (docked\<lparr>ly_active := pn_id dest\<rparr>, [Op_Float tabId paneId rect, focus]))))))))"

definition reshapeFloat :: "layout_state \<Rightarrow> pane_node \<Rightarrow> float_rect \<Rightarrow> layout_state" where
  "reshapeFloat s pane rect =
     (let t = withNodes s [(pn_id pane, Some (Pane_Node (pane\<lparr>pn_rect := Some rect\<rparr>)))]
      in t\<lparr>ly_active := pn_id pane, ly_floats := raise (ly_floats t) (pn_id pane)\<rparr>)"

definition applyMoveFloat :: "layout_state \<Rightarrow> string \<Rightarrow> rat \<Rightarrow> rat \<Rightarrow> applied" where
  "applyMoveFloat s paneId x y =
     rbind (getPane s paneId) (\<lambda>pane.
     rbind (floatRect pane) (\<lambda>rect.
     rbind (focusSnapshot s []) (\<lambda>focus.
     Inr (reshapeFloat s pane (rect\<lparr>fr_x := x, fr_y := y\<rparr>),
          [Op_MoveFloat paneId (fr_x rect) (fr_y rect), focus]))))"

definition applyResizeFloat :: "layout_state \<Rightarrow> string \<Rightarrow> float_rect \<Rightarrow> applied" where
  "applyResizeFloat s paneId new =
     rbind (getPane s paneId) (\<lambda>pane.
     rbind (floatRect pane) (\<lambda>rect.
     rbind (require (fr_width new > 0 \<and> fr_height new > 0) Float_Size_Not_Above_Zero) (\<lambda>_.
     rbind (focusSnapshot s []) (\<lambda>focus.
     Inr (reshapeFloat s pane new, [Op_ResizeFloat paneId rect, focus])))))"

definition applyRestoreFocus :: "layout_state \<Rightarrow> string \<Rightarrow> string list \<Rightarrow> (string, string option) amap \<Rightarrow> applied" where
  "applyRestoreFocus s activePaneId floats paneActiveTabs =
     rbind (focusSnapshot s (amap_keys paneActiveTabs)) (\<lambda>inverse.
     rbind (fold_res (\<lambda>_ i. rbind (getPane s i) (\<lambda>p. require (pn_host p = Host_Float) (Focus_Lists_Docked i))) () floats) (\<lambda>_.
     rbind (fold_res (\<lambda>t (i, a). rbind (getPane t i) (\<lambda>p.
              Inr (withNodes t [(i, Some (Pane_Node (p\<lparr>pn_active := a\<rparr>)))]))) s paneActiveTabs) (\<lambda>t.
     rbind (getPane t activePaneId) (\<lambda>_.
     Inr (t\<lparr>ly_active := activePaneId, ly_floats := floats\<rparr>, [inverse])))))"

section \<open>Application and replay\<close>

fun applyOp :: "layout_state \<Rightarrow> layout_op \<Rightarrow> applied" where
  "applyOp s (Op_Split p x d n m) = applySplit s p x d n m"
| "applyOp s (Op_Merge p) = applyMerge s p"
| "applyOp s (Op_OpenTab p t i) = applyOpenTab s p t i"
| "applyOp s (Op_InsertTab p t i) = applyInsertTab s p t i"
| "applyOp s (Op_CloseTab t) = applyCloseTab s t"
| "applyOp s (Op_InsertPane p ts h) = applyInsertPane s p ts h"
| "applyOp s (Op_MoveTab t p i) = applyMoveTab s t p i"
| "applyOp s (Op_ReorderTab t i) = applyReorderTab s t i"
| "applyOp s (Op_FocusTab t) = applyFocusTab s t"
| "applyOp s (Op_FocusPane p) = applyFocusPane s p"
| "applyOp s (Op_Resize p zs) = applyResize s p zs"
| "applyOp s (Op_Float t p r) = applyFloat s t p r"
| "applyOp s (Op_Unfloat p q i) = applyUnfloat s p q i"
| "applyOp s (Op_MoveFloat p x y) = applyMoveFloat s p x y"
| "applyOp s (Op_ResizeFloat p r) = applyResizeFloat s p r"
| "applyOp s (Op_SetExpanded b) = Inr (s\<lparr>ly_expanded := b\<rparr>, [Op_SetExpanded (ly_expanded s)])"
| "applyOp s (Op_SetMode m) = Inr (s\<lparr>ly_mode := m\<rparr>, [Op_SetMode (ly_mode s)])"
| "applyOp s (Op_RestoreFocus a fs m) = applyRestoreFocus s a fs m"

definition replay :: "layout_state \<Rightarrow> layout_op list \<Rightarrow> layout_state lay" where
  "replay s ops = fold_res (\<lambda>t op. rbind (applyOp t op) (\<lambda>r. Inr (fst r))) s ops"

end
