(* ===== verification/Dock_Invariant.thy ===== *)
theory Dock_Invariant
  imports Dock_Operations
begin

text \<open>
  The invariant of a docking layout and the facts about it that its operations share: the docked nodes
  form one tree under the root, the tabs are partitioned among the panes, the floating panes are the
  z order and hold one tab each, and the focused pane exists.
\<close>

named_theorems dock_simps \<open>how layouts compute after a write\<close>

section \<open>Lists by position\<close>

lemma position_less: "x \<in> set xs \<Longrightarrow> position xs x < length xs \<and> xs ! position xs x = x"
  using index_of_Some [of xs x] index_of_None [of xs x]
  by (cases "index_of xs x") (auto simp: position_def)

lemma position_nth: "distinct xs \<Longrightarrow> n < length xs \<Longrightarrow> position xs (xs ! n) = n"
  by (simp add: position_def index_of_unique)

lemma split_at_position: "x \<in> set xs \<Longrightarrow> xs = take (position xs x) xs @ x # drop (Suc (position xs x)) xs"
  using position_less [of x xs] by (metis id_take_nth_drop)

lemma set_insertAt [simp]: "set (insertAt xs i x) = insert x (set xs)"
proof -
  have "set xs = set (take n xs) \<union> set (drop n xs)" for n
    by (metis append_take_drop_id set_append)
  then show ?thesis by (auto simp: insertAt_def Let_def)
qed

lemma length_insertAt [simp]: "length (insertAt xs i x) = Suc (length xs)"
  by (simp add: insertAt_def Let_def)

lemma length_removeAt [simp]: "i < length xs \<Longrightarrow> length (removeAt xs i) = length xs - 1"
  by (simp add: removeAt_def)

lemma distinct_insertAt [simp]: "distinct (insertAt xs i x) \<longleftrightarrow> x \<notin> set xs \<and> distinct xs"
proof -
  have "distinct (take n xs @ x # drop n xs) \<longleftrightarrow> x \<notin> set xs \<and> distinct xs" for n
  proof -
    have "distinct (ys @ x # zs) \<longleftrightarrow> x \<notin> set (ys @ zs) \<and> distinct (ys @ zs)" for ys zs :: "'a list"
      by auto
    from this [of "take n xs" "drop n xs"] show ?thesis by simp
  qed
  then show ?thesis by (simp add: insertAt_def Let_def)
qed

lemma removeAt_position: "distinct xs \<Longrightarrow> x \<in> set xs \<Longrightarrow> removeAt xs (position xs x) = filter (\<lambda>y. y \<noteq> x) xs"
proof -
  assume d: "distinct xs" "x \<in> set xs"
  let ?n = "position xs x"
  have e: "xs = take ?n xs @ x # drop (Suc ?n) xs" using d(2) by (rule split_at_position)
  then have "x \<notin> set (take ?n xs) \<and> x \<notin> set (drop (Suc ?n) xs)"
    by (metis d(1) distinct.simps(2) distinct_append not_distinct_conv_prefix in_set_conv_decomp
        disjoint_iff list.set_intros(1))
  then have "filter (\<lambda>y. y \<noteq> x) (take ?n xs) = take ?n xs" "filter (\<lambda>y. y \<noteq> x) (drop (Suc ?n) xs) = drop (Suc ?n) xs"
    by (auto simp: filter_id_conv)
  then have "filter (\<lambda>y. y \<noteq> x) xs = take ?n xs @ drop (Suc ?n) xs"
    by (subst e) simp
  then show ?thesis by (simp add: removeAt_def)
qed

lemma insertAt_removeAt:
  "x \<in> set xs \<Longrightarrow> insertAt (removeAt xs (position xs x)) (int (position xs x)) x = xs"
  using position_less [of x xs] split_at_position [of x xs]
  by (simp add: insertAt_def removeAt_def Let_def min_def)

lemma insertAt_filter:
  "distinct xs \<Longrightarrow> x \<in> set xs \<Longrightarrow> insertAt (filter (\<lambda>y. y \<noteq> x) xs) (int (position xs x)) x = xs"
  using insertAt_removeAt [of x xs] removeAt_position [of xs x] by simp

lemma filter_insertAt: "x \<notin> set xs \<Longrightarrow> filter (\<lambda>y. y \<noteq> x) (insertAt xs i x) = xs"
proof -
  assume "x \<notin> set xs"
  then have "filter (\<lambda>y. y \<noteq> x) (take n xs) = take n xs" "filter (\<lambda>y. y \<noteq> x) (drop n xs) = drop n xs" for n
    by (auto simp: filter_id_conv dest: in_set_takeD in_set_dropD)
  then show ?thesis by (simp add: insertAt_def Let_def)
qed

lemma removeAt_insertAt:
  "distinct xs \<Longrightarrow> x \<notin> set xs \<Longrightarrow> removeAt (insertAt xs i x) (position (insertAt xs i x) x) = xs"
  by (simp add: removeAt_position filter_insertAt)

lemma neighbourTabId_cases:
  assumes "x \<in> set tabs" "distinct tabs"
  shows "neighbourTabId tabs (position tabs x) = None \<longleftrightarrow> filter (\<lambda>y. y \<noteq> x) tabs = []"
    "neighbourTabId tabs (position tabs x) = Some a \<Longrightarrow> a \<in> set tabs \<and> a \<noteq> x"
proof -
  let ?n = "position tabs x" and ?left = "removeAt tabs (position tabs x)"
  have n: "?n < length tabs" using position_less [OF assms(1)] by simp
  have left: "?left = filter (\<lambda>y. y \<noteq> x) tabs" using assms by (simp add: removeAt_position)
  have b: "?left \<noteq> [] \<Longrightarrow> ?n - 1 < length ?left" using n
    by (cases "?n") (auto simp: removeAt_def)
  show "neighbourTabId tabs ?n = None \<longleftrightarrow> filter (\<lambda>y. y \<noteq> x) tabs = []"
    using b left by (simp add: neighbourTabId_def Let_def)
  assume "neighbourTabId tabs ?n = Some a"
  then have "a \<in> set ?left" using b by (auto simp: neighbourTabId_def Let_def split: if_splits)
  then show "a \<in> set tabs \<and> a \<noteq> x" using left by simp
qed

section \<open>Writes\<close>

lemma literal_wf [simp]: "amap_wf (literal kvs)"
proof -
  have "amap_wf m \<Longrightarrow> amap_wf (foldl (\<lambda>m (k, v). amap_set m k v) m kvs)" for m :: "('a, 'b) amap"
    by (induction kvs arbitrary: m) auto
  then show ?thesis by (simp add: literal_def)
qed

lemma literal_simps [simp]:
  "literal [] = []"
  "literal [(a, x)] = [(a, x)]"
  "literal [(a, x), (b, y)] = (if a = b then [(a, y)] else [(a, x), (b, y)])"
  by (simp_all add: literal_def)

lemma keys_kept: "set (map fst (kept u)) \<subseteq> set (amap_keys u)"
  by (induction u rule: kept.induct) (auto simp: amap_keys_def)

lemma wf_kept: "amap_wf u \<Longrightarrow> amap_wf (kept u)"
proof (induction u rule: kept.induct)
  case (3 k n u)
  then show ?case using keys_kept [of u] by (auto simp: amap_wf_def amap_keys_def)
qed (simp_all add: amap_wf_def)

lemma map_of_kept:
  "amap_wf u \<Longrightarrow> map_of (kept u) k = (case map_of u k of None \<Rightarrow> None | Some v \<Rightarrow> v)"
proof (induction u rule: kept.induct)
  case (2 j u)
  then have "j \<notin> set (amap_keys u)" by (simp add: amap_wf_def amap_keys_def)
  then have "map_of (kept u) j = None" using keys_kept [of u] by (auto simp: map_of_eq_None_iff)
  then show ?case using 2 by (auto simp: amap_wf_def)
qed (auto simp: amap_wf_def)

lemma get_updated:
  assumes "amap_wf u"
  shows "amap_get (updated m u) k = (case amap_get u k of None \<Rightarrow> amap_get m k | Some v \<Rightarrow> v)"
proof -
  have f: "map_of (filter (\<lambda>(j, _). j \<notin> A) m) k = (if k \<in> A then None else map_of m k)" for A
    by (induction m) auto
  have "k \<in> set (amap_keys u) \<longleftrightarrow> map_of u k \<noteq> None"
    by (simp add: amap_keys_def map_of_eq_None_iff)
  then show ?thesis
    using assms by (auto simp: updated_def amap_get_def f map_add_def map_of_append map_of_kept split: option.splits)
qed

lemma wf_updated:
  assumes "amap_wf m" "amap_wf u"
  shows "amap_wf (updated m u)"
proof -
  have "distinct (map fst (filter (\<lambda>(k, _). k \<notin> set (amap_keys u)) m))"
    using assms(1) by (simp add: amap_wf_def distinct_map_filter)
  moreover have "set (map fst (filter (\<lambda>(k, _). k \<notin> set (amap_keys u)) m)) \<inter> set (map fst (kept u)) = {}"
    using keys_kept [of u] by auto
  ultimately show ?thesis
    using wf_kept [OF assms(2)] unfolding updated_def amap_wf_def map_append distinct_append by blast
qed

lemma with_simps [simp, dock_simps]:
  "amap_get (ly_nodes (withNodes s u)) k = (case amap_get (literal u) k of None \<Rightarrow> amap_get (ly_nodes s) k | Some v \<Rightarrow> v)"
  "amap_get (ly_tabs (withTabs s w)) k = (case amap_get (literal w) k of None \<Rightarrow> amap_get (ly_tabs s) k | Some x \<Rightarrow> x)"
  "ly_tabs (withNodes s u) = ly_tabs s" "ly_nodes (withTabs s w) = ly_nodes s"
  "ly_root (withNodes s u) = ly_root s" "ly_root (withTabs s w) = ly_root s"
  "ly_floats (withNodes s u) = ly_floats s" "ly_floats (withTabs s w) = ly_floats s"
  "ly_active (withNodes s u) = ly_active s" "ly_active (withTabs s w) = ly_active s"
  "ly_expanded (withNodes s u) = ly_expanded s" "ly_expanded (withTabs s w) = ly_expanded s"
  "ly_mode (withNodes s u) = ly_mode s" "ly_mode (withTabs s w) = ly_mode s"
  by (simp_all add: withNodes_def withTabs_def get_updated)

lemma with_wf [simp, intro]:
  "amap_wf (ly_nodes s) \<Longrightarrow> amap_wf (ly_nodes (withNodes s u))"
  "amap_wf (ly_tabs s) \<Longrightarrow> amap_wf (ly_tabs (withTabs s w))"
  by (simp_all add: withNodes_def withTabs_def wf_updated)

lemma get_pair [simp]:
  "amap_get [(a, x)] k = (if k = a then Some x else None)"
  "amap_get [(a, x), (b, y)] k = (if k = a then Some x else if k = b then Some y else None)"
  by (auto simp: amap_get_def)

section \<open>The invariant\<close>

text \<open>What a node is to the docked tree (nothing, a pane, or a split) and to the tab strips.\<close>

definition dock_of :: "layout_node option \<Rightarrow> split_node option option" where
  "dock_of n = (case n of
      Some (Split_Node q) \<Rightarrow> Some (Some q)
    | Some (Pane_Node p) \<Rightarrow> if pn_host p = Host_Dock then Some None else None
    | None \<Rightarrow> None)"

definition pane_of :: "layout_node option \<Rightarrow> pane_node option" where
  "pane_of n = (case n of Some (Pane_Node p) \<Rightarrow> Some p | _ \<Rightarrow> None)"

definition dock_view :: "layout_state \<Rightarrow> string \<Rightarrow> split_node option option" where
  "dock_view s i = dock_of (amap_get (ly_nodes s) i)"

definition pane_view :: "layout_state \<Rightarrow> string \<Rightarrow> pane_node option" where
  "pane_view s i = pane_of (amap_get (ly_nodes s) i)"

definition sizes_ok :: "rat list \<Rightarrow> bool" where
  "sizes_ok zs \<longleftrightarrow> (\<forall>x \<in> set zs. 0 < x) \<and> \<bar>sum_list zs - 1\<bar> < size_tolerance"

definition split_ok :: "split_node \<Rightarrow> bool" where
  "split_ok q \<longleftrightarrow> 2 \<le> length (sn_children q) \<and> distinct (sn_children q)
     \<and> length (sn_sizes q) = length (sn_children q) \<and> sizes_ok (sn_sizes q)"

definition edge :: "(string \<Rightarrow> split_node option option) \<Rightarrow> string \<Rightarrow> string \<Rightarrow> bool" where
  "edge D i c \<longleftrightarrow> (\<exists>q. D i = Some (Some q) \<and> c \<in> set (sn_children q))"

text \<open>A rooted tree: one parent each, none for the root, and a rank that falls along every edge.\<close>

definition tree_shape :: "(string \<Rightarrow> bool) \<Rightarrow> (string \<Rightarrow> string \<Rightarrow> bool) \<Rightarrow> string \<Rightarrow> bool" where
  "tree_shape A E r \<longleftrightarrow>
     (\<forall>i c. E i c \<longrightarrow> A i \<and> A c \<and> c \<noteq> r) \<and> (\<forall>i j c. E i c \<longrightarrow> E j c \<longrightarrow> i = j) \<and> A r
     \<and> (\<forall>c. A c \<longrightarrow> c \<noteq> r \<longrightarrow> (\<exists>i. E i c)) \<and> (\<exists>rank. \<forall>i c. E i c \<longrightarrow> rank c < (rank i :: nat))"

definition dock_wf :: "(string \<Rightarrow> split_node option option) \<Rightarrow> string \<Rightarrow> bool" where
  "dock_wf D r \<longleftrightarrow> (\<forall>i q. D i = Some (Some q) \<longrightarrow> sn_id q = i \<and> split_ok q)
     \<and> tree_shape (\<lambda>i. D i \<noteq> None) (edge D) r"

definition rect_ok :: "float_rect \<Rightarrow> bool" where
  "rect_ok r \<longleftrightarrow> 0 < fr_width r \<and> 0 < fr_height r"

definition pane_ok :: "pane_node \<Rightarrow> bool" where
  "pane_ok p \<longleftrightarrow> distinct (pn_tabs p) \<and> (pn_active p = None \<longleftrightarrow> pn_tabs p = [])
     \<and> (\<forall>a. pn_active p = Some a \<longrightarrow> a \<in> set (pn_tabs p))
     \<and> (pn_rect p \<noteq> None \<longleftrightarrow> pn_host p = Host_Float) \<and> (pn_host p = Host_Float \<longrightarrow> length (pn_tabs p) = 1)
     \<and> (\<forall>r. pn_rect p = Some r \<longrightarrow> rect_ok r)"

definition owns :: "(string \<Rightarrow> pane_node option) \<Rightarrow> string \<Rightarrow> string \<Rightarrow> bool" where
  "owns V i t \<longleftrightarrow> (\<exists>p. V i = Some p \<and> t \<in> set (pn_tabs p))"

text \<open>Every open tab has one owner, and only open tabs are owned.\<close>

definition tab_partition :: "(string \<Rightarrow> string \<Rightarrow> bool) \<Rightarrow> (string \<Rightarrow> tab_record option) \<Rightarrow> bool" where
  "tab_partition W T \<longleftrightarrow> (\<forall>i t. W i t \<longrightarrow> T t \<noteq> None) \<and> (\<forall>i j t. W i t \<longrightarrow> W j t \<longrightarrow> i = j)
     \<and> (\<forall>t x. T t = Some x \<longrightarrow> tb_id x = t \<and> (\<exists>i. W i t))"

definition panes_wf :: "(string \<Rightarrow> pane_node option) \<Rightarrow> (string \<Rightarrow> tab_record option) \<Rightarrow> bool" where
  "panes_wf V T \<longleftrightarrow> (\<forall>i p. V i = Some p \<longrightarrow> pn_id p = i \<and> pane_ok p) \<and> tab_partition (owns V) T"

definition focus_wf :: "(string \<Rightarrow> pane_node option) \<Rightarrow> string list \<Rightarrow> string \<Rightarrow> bool" where
  "focus_wf V floats a \<longleftrightarrow> distinct floats
     \<and> (\<forall>i. i \<in> set floats \<longleftrightarrow> (\<exists>p. V i = Some p \<and> pn_host p = Host_Float)) \<and> V a \<noteq> None"

definition layout_wf :: "layout_state \<Rightarrow> bool" where
  "layout_wf s \<longleftrightarrow> amap_wf (ly_nodes s) \<and> amap_wf (ly_tabs s) \<and> dock_wf (dock_view s) (ly_root s)
     \<and> panes_wf (pane_view s) (amap_get (ly_tabs s)) \<and> focus_wf (pane_view s) (ly_floats s) (ly_active s)"

lemma view_of_simps [simp]:
  "dock_of None = None" "dock_of (Some (Split_Node q)) = Some (Some q)"
  "dock_of (Some (Pane_Node p)) = (if pn_host p = Host_Dock then Some None else None)"
  "pane_of None = None" "pane_of (Some (Split_Node q)) = None" "pane_of (Some (Pane_Node p)) = Some p"
  by (simp_all add: dock_of_def pane_of_def)

lemma dock_of_split: "dock_of n = Some (Some q) \<longleftrightarrow> n = Some (Split_Node q)"
  by (auto simp: dock_of_def split: option.splits layout_node.splits if_splits)

lemma dock_of_pane: "dock_of n = Some None \<longleftrightarrow> (\<exists>p. n = Some (Pane_Node p) \<and> pn_host p = Host_Dock)"
  by (auto simp: dock_of_def split: option.splits layout_node.splits)

lemma pane_of_Some: "pane_of n = Some p \<longleftrightarrow> n = Some (Pane_Node p)"
  by (auto simp: pane_of_def split: option.splits layout_node.splits)

section \<open>Reading a well-formed layout\<close>

lemma getNode_eq: "getNode s i = Inr n \<longleftrightarrow> amap_get (ly_nodes s) i = Some n"
  by (auto simp: getNode_def split: option.splits)

lemma getPane_eq: "getPane s i = Inr p \<longleftrightarrow> amap_get (ly_nodes s) i = Some (Pane_Node p)"
  by (cases "amap_get (ly_nodes s) i") (auto simp: getPane_def getNode_def split: layout_node.splits)

lemma getSplit_eq: "getSplit s i = Inr q \<longleftrightarrow> amap_get (ly_nodes s) i = Some (Split_Node q)"
  by (cases "amap_get (ly_nodes s) i") (auto simp: getSplit_def getNode_def split: layout_node.splits)

lemma getTab_eq: "getTab s i = Inr t \<longleftrightarrow> amap_get (ly_tabs s) i = Some t"
  by (auto simp: getTab_def split: option.splits)

lemma first_parent_sound:
  "amap_wf m \<Longrightarrow> first_parent m c = Some q \<Longrightarrow> \<exists>i. amap_get m i = Some (Split_Node q) \<and> c \<in> set (sn_children q)"
proof (induction m)
  case (Cons a m)
  obtain k n where a: "a = (k, n)" by (cases a)
  have keep: "amap_get (a # m) i = amap_get m i" if "amap_get m i \<noteq> None" for i
    using Cons.prems(1) that a by (auto simp: amap_wf_def amap_get_def map_of_eq_None_iff)
  have here: "amap_get (a # m) k = Some n" using a by (simp add: amap_get_def)
  have wf: "amap_wf m" using Cons.prems(1) by (simp add: amap_wf_def)
  show ?case
  proof (cases "n = Split_Node q \<and> c \<in> set (sn_children q)")
    case True
    then show ?thesis using here by blast
  next
    case False
    then have "first_parent m c = Some q" using Cons.prems(2) a by (auto split: layout_node.splits if_splits)
    from Cons.IH [OF wf this] show ?thesis using keep by fastforce
  qed
qed simp

lemma first_parent_complete:
  "amap_get m i = Some (Split_Node q) \<Longrightarrow> c \<in> set (sn_children q) \<Longrightarrow> first_parent m c \<noteq> None"
  by (induction m c rule: first_parent.induct) (auto simp: amap_get_def split: layout_node.splits if_splits)

lemma first_tab_pane_sound:
  "amap_wf m \<Longrightarrow> first_tab_pane m t = Some p \<Longrightarrow> \<exists>i. amap_get m i = Some (Pane_Node p) \<and> t \<in> set (pn_tabs p)"
proof (induction m)
  case (Cons a m)
  obtain k n where a: "a = (k, n)" by (cases a)
  have keep: "amap_get (a # m) i = amap_get m i" if "amap_get m i \<noteq> None" for i
    using Cons.prems(1) that a by (auto simp: amap_wf_def amap_get_def map_of_eq_None_iff)
  have here: "amap_get (a # m) k = Some n" using a by (simp add: amap_get_def)
  have wf: "amap_wf m" using Cons.prems(1) by (simp add: amap_wf_def)
  show ?case
  proof (cases "n = Pane_Node p \<and> t \<in> set (pn_tabs p)")
    case True
    then show ?thesis using here by blast
  next
    case False
    then have "first_tab_pane m t = Some p" using Cons.prems(2) a by (auto split: layout_node.splits if_splits)
    from Cons.IH [OF wf this] show ?thesis using keep by fastforce
  qed
qed simp

lemma first_tab_pane_complete:
  "amap_get m i = Some (Pane_Node p) \<Longrightarrow> t \<in> set (pn_tabs p) \<Longrightarrow> first_tab_pane m t \<noteq> None"
  by (induction m t rule: first_tab_pane.induct) (auto simp: amap_get_def split: layout_node.splits if_splits)

lemma layout_wfD:
  assumes "layout_wf s"
  shows "amap_wf (ly_nodes s)" "amap_wf (ly_tabs s)" "dock_wf (dock_view s) (ly_root s)"
    "panes_wf (pane_view s) (amap_get (ly_tabs s))" "focus_wf (pane_view s) (ly_floats s) (ly_active s)"
  using assms by (simp_all add: layout_wf_def)

lemma split_node_ok:
  "layout_wf s \<Longrightarrow> amap_get (ly_nodes s) i = Some (Split_Node q) \<Longrightarrow> sn_id q = i \<and> split_ok q"
  unfolding layout_wf_def dock_wf_def dock_view_def by (metis view_of_simps(2))

lemma pane_node_ok:
  assumes "layout_wf s" "amap_get (ly_nodes s) i = Some (Pane_Node p)"
  shows "pn_id p = i" "pane_ok p" "t \<in> set (pn_tabs p) \<Longrightarrow> amap_get (ly_tabs s) t \<noteq> None"
proof -
  have v: "pane_view s i = Some p" using assms(2) by (simp add: pane_view_def)
  have w: "panes_wf (pane_view s) (amap_get (ly_tabs s))" using assms(1) by (rule layout_wfD)
  show "pn_id p = i" "pane_ok p" using w v unfolding panes_wf_def by blast+
  show "amap_get (ly_tabs s) t \<noteq> None" if "t \<in> set (pn_tabs p)"
    using w v that unfolding panes_wf_def tab_partition_def owns_def by blast
qed

lemma tab_record_id: "layout_wf s \<Longrightarrow> amap_get (ly_tabs s) t = Some x \<Longrightarrow> tb_id x = t"
  using layout_wfD(4) [of s] unfolding panes_wf_def tab_partition_def by blast

lemma one_parent:
  assumes "layout_wf s" "amap_get (ly_nodes s) i = Some (Split_Node q)" "amap_get (ly_nodes s) j = Some (Split_Node r)"
    "c \<in> set (sn_children q)" "c \<in> set (sn_children r)"
  shows "i = j \<and> q = r"
proof -
  have "edge (dock_view s) i c" "edge (dock_view s) j c" using assms by (auto simp: edge_def dock_view_def)
  moreover have "\<forall>i j c. edge (dock_view s) i c \<longrightarrow> edge (dock_view s) j c \<longrightarrow> i = j"
    using layout_wfD(3) [OF assms(1)] by (simp add: dock_wf_def tree_shape_def)
  ultimately have "i = j" by blast
  then show ?thesis using assms(2,3) by simp
qed

lemma one_tab_pane:
  assumes "layout_wf s" "amap_get (ly_nodes s) i = Some (Pane_Node p)" "amap_get (ly_nodes s) j = Some (Pane_Node q)"
    "t \<in> set (pn_tabs p)" "t \<in> set (pn_tabs q)"
  shows "i = j \<and> p = q"
proof -
  have "owns (pane_view s) i t" "owns (pane_view s) j t" using assms by (auto simp: owns_def pane_view_def)
  then have "i = j" using layout_wfD(4) [OF assms(1)] unfolding panes_wf_def tab_partition_def by blast
  then show ?thesis using assms(2,3) by simp
qed

lemma findParent_Some:
  assumes "layout_wf s"
  shows "findParent s c = Some q \<longleftrightarrow> amap_get (ly_nodes s) (sn_id q) = Some (Split_Node q) \<and> c \<in> set (sn_children q)"
proof
  assume "findParent s c = Some q"
  then show "amap_get (ly_nodes s) (sn_id q) = Some (Split_Node q) \<and> c \<in> set (sn_children q)"
    using first_parent_sound [OF layout_wfD(1) [OF assms]] split_node_ok [OF assms]
    unfolding findParent_def by metis
next
  assume a: "amap_get (ly_nodes s) (sn_id q) = Some (Split_Node q) \<and> c \<in> set (sn_children q)"
  then obtain r where r: "findParent s c = Some r"
    using first_parent_complete [of "ly_nodes s" "sn_id q" q c] unfolding findParent_def by blast
  then show "findParent s c = Some q"
    using first_parent_sound [OF layout_wfD(1) [OF assms]] one_parent [OF assms] a
    unfolding findParent_def by metis
qed

lemma findParent_None:
  assumes "layout_wf s"
  shows "findParent s c = None \<longleftrightarrow> (\<forall>i q. amap_get (ly_nodes s) i = Some (Split_Node q) \<longrightarrow> c \<notin> set (sn_children q))"
  using findParent_Some [OF assms, of c] split_node_ok [OF assms] by (metis not_Some_eq)

lemma findTabPane_eq:
  assumes "layout_wf s"
  shows "findTabPane s t = Inr p \<longleftrightarrow> amap_get (ly_nodes s) (pn_id p) = Some (Pane_Node p) \<and> t \<in> set (pn_tabs p)"
proof
  assume "findTabPane s t = Inr p"
  then have "first_tab_pane (ly_nodes s) t = Some p" by (simp add: findTabPane_def split: option.splits)
  then show "amap_get (ly_nodes s) (pn_id p) = Some (Pane_Node p) \<and> t \<in> set (pn_tabs p)"
    using first_tab_pane_sound [OF layout_wfD(1) [OF assms]] pane_node_ok [OF assms] by metis
next
  assume a: "amap_get (ly_nodes s) (pn_id p) = Some (Pane_Node p) \<and> t \<in> set (pn_tabs p)"
  then obtain r where r: "first_tab_pane (ly_nodes s) t = Some r"
    using first_tab_pane_complete [of "ly_nodes s" "pn_id p" p t] by blast
  then have "r = p"
    using first_tab_pane_sound [OF layout_wfD(1) [OF assms] r] one_tab_pane [OF assms] a by metis
  then show "findTabPane s t = Inr p" using r by (simp add: findTabPane_def)
qed

section \<open>Views after a write\<close>

lemma dock_view_with [simp, dock_simps]:
  "dock_view (withNodes s [(k, n)]) = (dock_view s)(k := dock_of n)"
  "dock_view (withNodes s [(k, n), (l, m)]) = (dock_view s)(k := dock_of n, l := dock_of m)"
  "dock_view (withTabs s w) = dock_view s"
  "dock_view (s\<lparr>ly_floats := fs\<rparr>) = dock_view s" "dock_view (s\<lparr>ly_active := a\<rparr>) = dock_view s"
  "dock_view (s\<lparr>ly_root := r\<rparr>) = dock_view s" "dock_view (s\<lparr>ly_expanded := b\<rparr>) = dock_view s"
  "dock_view (s\<lparr>ly_mode := d\<rparr>) = dock_view s"
  by (auto simp: dock_view_def fun_eq_iff split: option.splits)

lemma pane_view_with [simp, dock_simps]:
  "pane_view (withNodes s [(k, n)]) = (pane_view s)(k := pane_of n)"
  "pane_view (withNodes s [(k, n), (l, m)]) = (pane_view s)(k := pane_of n, l := pane_of m)"
  "pane_view (withTabs s w) = pane_view s"
  "pane_view (s\<lparr>ly_floats := fs\<rparr>) = pane_view s" "pane_view (s\<lparr>ly_active := a\<rparr>) = pane_view s"
  "pane_view (s\<lparr>ly_root := r\<rparr>) = pane_view s" "pane_view (s\<lparr>ly_expanded := b\<rparr>) = pane_view s"
  "pane_view (s\<lparr>ly_mode := d\<rparr>) = pane_view s"
  by (auto simp: pane_view_def fun_eq_iff split: option.splits)

lemma tabs_with [simp, dock_simps]:
  "amap_get (ly_tabs (withTabs s [(k, x)])) = (amap_get (ly_tabs s))(k := x)"
  by (auto simp: fun_eq_iff)

lemma with_more [simp, dock_simps]:
  "withNodes (s\<lparr>ly_floats := fs\<rparr>) u = (withNodes s u)\<lparr>ly_floats := fs\<rparr>"
  "withTabs (s\<lparr>ly_floats := fs\<rparr>) w = (withTabs s w)\<lparr>ly_floats := fs\<rparr>"
  "withTabs (s\<lparr>ly_active := a\<rparr>) w = (withTabs s w)\<lparr>ly_active := a\<rparr>"
  "withTabs (s\<lparr>ly_root := r\<rparr>) w = (withTabs s w)\<lparr>ly_root := r\<rparr>"
  "withNodes (s\<lparr>ly_active := a\<rparr>) u = (withNodes s u)\<lparr>ly_active := a\<rparr>"
  "withNodes (s\<lparr>ly_root := r\<rparr>) u = (withNodes s u)\<lparr>ly_root := r\<rparr>"
  by (simp_all add: withNodes_def withTabs_def)

lemma focusSnapshot_simps [dock_simps]:
  "focusSnapshot s [] = Inr (Op_RestoreFocus (ly_active s) (ly_floats s) [])"
  "getPane s i = Inr p \<Longrightarrow> focusSnapshot s [i] = Inr (Op_RestoreFocus (ly_active s) (ly_floats s) [(i, pn_active p)])"
  "getPane s i = Inr p \<Longrightarrow> getPane s j = Inr q \<Longrightarrow> i \<noteq> j \<Longrightarrow> focusSnapshot s [i, j]
     = Inr (Op_RestoreFocus (ly_active s) (ly_floats s) [(i, pn_active p), (j, pn_active q)])"
  by (simp_all add: focusSnapshot_def)

lemma position_index: "x \<in> set xs \<Longrightarrow> index_of xs x = Some (position xs x)"
  using index_of_None [of xs x] by (cases "index_of xs x") (auto simp: position_def)

lemma floatIndex_eq: "floatIndex s i = Inr n \<longleftrightarrow> i \<in> set (ly_floats s) \<and> n = position (ly_floats s) i"
  using index_of_None [of "ly_floats s" i] position_index [of i "ly_floats s"]
  by (auto simp: floatIndex_def split: option.splits)

end
