(* ===== verification/Dock_Tree.thy ===== *)
theory Dock_Tree
  imports Dock_Invariant
begin

text \<open>
  How splitting and merging change the docked tree: adding a leaf, wrapping a node, dropping a leaf and
  collapsing a split with one child left keep one parent each, the root, and a rank along the edges; and
  what the sizes of a split do meanwhile.
\<close>

section \<open>Tree surgery\<close>

lemma tree_shapeI:
  assumes "\<And>i c. E i c \<Longrightarrow> A i \<and> A c \<and> c \<noteq> r" "\<And>i j c. E i c \<Longrightarrow> E j c \<Longrightarrow> i = j" "A r"
    "\<And>c. A c \<Longrightarrow> c \<noteq> r \<Longrightarrow> \<exists>i. E i c" "\<And>i c. E i c \<Longrightarrow> rank c < (rank i :: nat)"
  shows "tree_shape A E r"
  unfolding tree_shape_def using assms by blast

lemma tree_shapeE:
  assumes "tree_shape A E r"
  obtains rank :: "string \<Rightarrow> nat" where "\<And>i c. E i c \<Longrightarrow> A i \<and> A c \<and> c \<noteq> r"
    "\<And>i j c. E i c \<Longrightarrow> E j c \<Longrightarrow> i = j" "A r" "\<And>c. A c \<Longrightarrow> c \<noteq> r \<Longrightarrow> \<exists>i. E i c"
    "\<And>i c. E i c \<Longrightarrow> rank c < rank i"
  using assms unfolding tree_shape_def by blast

lemma shape_add_leaf:
  assumes "tree_shape A E r" "A P" "\<not> A n"
  shows "tree_shape (\<lambda>i. A i \<or> i = n) (\<lambda>i c. E i c \<or> i = P \<and> c = n) r"
proof -
  obtain rank :: "string \<Rightarrow> nat" where s: "\<And>i c. E i c \<Longrightarrow> A i \<and> A c \<and> c \<noteq> r"
    "\<And>i j c. E i c \<Longrightarrow> E j c \<Longrightarrow> i = j" "A r" "\<And>c. A c \<Longrightarrow> c \<noteq> r \<Longrightarrow> \<exists>i. E i c"
    "\<And>i c. E i c \<Longrightarrow> rank c < rank i"
    using assms(1) by (rule tree_shapeE) blast
  have n: "E i c \<Longrightarrow> i \<noteq> n \<and> c \<noteq> n" for i c using s(1) assms(3) by blast
  show ?thesis
  proof (rule tree_shapeI [where rank = "\<lambda>x. if x = n then 0 else Suc (rank x)"])
    show "(if c = n then 0 else Suc (rank c)) < (if i = n then 0 else Suc (rank i))" if "E i c \<or> i = P \<and> c = n" for i c
      using that n [of i c] s(5) [of i c] assms(2,3) by auto
    show "i = j" if "E i c \<or> i = P \<and> c = n" "E j c \<or> j = P \<and> c = n" for i j c
      using that n s(2) by blast
    show "(A i \<or> i = n) \<and> (A c \<or> c = n) \<and> c \<noteq> r" if "E i c \<or> i = P \<and> c = n" for i c
      using that s(1,3) assms(2,3) by blast
    show "\<exists>i. E i c \<or> i = P \<and> c = n" if "A c \<or> c = n" "c \<noteq> r" for c
      using that s(4) by blast
  qed (use s(3) in blast)
qed

lemma shape_wrap:
  assumes "tree_shape A E r" "E P p" "\<not> A N" "\<not> A n" "N \<noteq> n"
  shows "tree_shape (\<lambda>i. A i \<or> i = N \<or> i = n)
    (\<lambda>i c. E i c \<and> c \<noteq> p \<or> i = P \<and> c = N \<or> i = N \<and> (c = p \<or> c = n)) r"
proof -
  obtain rank :: "string \<Rightarrow> nat" where s: "\<And>i c. E i c \<Longrightarrow> A i \<and> A c \<and> c \<noteq> r"
    "\<And>i j c. E i c \<Longrightarrow> E j c \<Longrightarrow> i = j" "A r" "\<And>c. A c \<Longrightarrow> c \<noteq> r \<Longrightarrow> \<exists>i. E i c"
    "\<And>i c. E i c \<Longrightarrow> rank c < rank i"
    using assms(1) by (rule tree_shapeE) blast
  have p: "A P" "A p" "p \<noteq> r" "rank p < rank P" using s(1,5) [OF assms(2)] by auto
  have n: "E i c \<Longrightarrow> i \<noteq> n \<and> c \<noteq> n \<and> i \<noteq> N \<and> c \<noteq> N" for i c using s(1) assms(3,4) by blast
  have d: "P \<noteq> n" "P \<noteq> N" "p \<noteq> n" "p \<noteq> N" using p assms(3,4) by auto
  show ?thesis
  proof (rule tree_shapeI [where rank = "\<lambda>x. if x = n then 0 else if x = N then 2 * rank p + 2 else 2 * rank x + 1"])
    show "(if c = n then 0 else if c = N then 2 * rank p + 2 else 2 * rank c + 1)
        < (if i = n then 0 else if i = N then 2 * rank p + 2 else 2 * rank i + 1)"
      if "E i c \<and> c \<noteq> p \<or> i = P \<and> c = N \<or> i = N \<and> (c = p \<or> c = n)" for i c
      using that n [of i c] s(5) [of i c] p(4) d assms(5) by auto
    show "i = j" if "E i c \<and> c \<noteq> p \<or> i = P \<and> c = N \<or> i = N \<and> (c = p \<or> c = n)"
      "E j c \<and> c \<noteq> p \<or> j = P \<and> c = N \<or> j = N \<and> (c = p \<or> c = n)" for i j c
      using that n [of i c] n [of j c] s(2) [of i c j] d assms(5) by blast
    show "(A i \<or> i = N \<or> i = n) \<and> (A c \<or> c = N \<or> c = n) \<and> c \<noteq> r"
      if "E i c \<and> c \<noteq> p \<or> i = P \<and> c = N \<or> i = N \<and> (c = p \<or> c = n)" for i c
      using that s(1) [of i c] s(3) p assms(3,4) by blast
    show "\<exists>i. E i c \<and> c \<noteq> p \<or> i = P \<and> c = N \<or> i = N \<and> (c = p \<or> c = n)" if "A c \<or> c = N \<or> c = n" "c \<noteq> r" for c
      using that s(4) [of c] by blast
  qed (use s(3) in blast)
qed

lemma shape_wrap_root:
  assumes "tree_shape A E r" "\<not> A N" "\<not> A n" "N \<noteq> n"
  shows "tree_shape (\<lambda>i. A i \<or> i = N \<or> i = n) (\<lambda>i c. E i c \<or> i = N \<and> (c = r \<or> c = n)) N"
proof -
  obtain rank :: "string \<Rightarrow> nat" where s: "\<And>i c. E i c \<Longrightarrow> A i \<and> A c \<and> c \<noteq> r"
    "\<And>i j c. E i c \<Longrightarrow> E j c \<Longrightarrow> i = j" "A r" "\<And>c. A c \<Longrightarrow> c \<noteq> r \<Longrightarrow> \<exists>i. E i c"
    "\<And>i c. E i c \<Longrightarrow> rank c < rank i"
    using assms(1) by (rule tree_shapeE) blast
  have n: "E i c \<Longrightarrow> i \<noteq> n \<and> c \<noteq> n \<and> i \<noteq> N \<and> c \<noteq> N \<and> c \<noteq> r" for i c using s(1) assms(2,3) by blast
  have d: "r \<noteq> n" "r \<noteq> N" using s(3) assms(2,3) by auto
  show ?thesis
  proof (rule tree_shapeI [where rank = "\<lambda>x. if x = n then 0 else if x = N then rank r + 2 else rank x + 1"])
    show "(if c = n then 0 else if c = N then rank r + 2 else rank c + 1)
        < (if i = n then 0 else if i = N then rank r + 2 else rank i + 1)"
      if "E i c \<or> i = N \<and> (c = r \<or> c = n)" for i c
      using that n [of i c] s(5) [of i c] d assms(4) by auto
    show "i = j" if "E i c \<or> i = N \<and> (c = r \<or> c = n)" "E j c \<or> j = N \<and> (c = r \<or> c = n)" for i j c
      using that n [of i c] n [of j c] s(2) [of i c j] by blast
    show "(A i \<or> i = N \<or> i = n) \<and> (A c \<or> c = N \<or> c = n) \<and> c \<noteq> N"
      if "E i c \<or> i = N \<and> (c = r \<or> c = n)" for i c
      using that s(1) [of i c] s(3) d n [of i c] assms(4) by blast
    show "\<exists>i. E i c \<or> i = N \<and> (c = r \<or> c = n)" if "A c \<or> c = N \<or> c = n" "c \<noteq> N" for c
      using that s(4) [of c] by blast
  qed blast
qed

lemma shape_drop_leaf:
  assumes "tree_shape A E r" "\<And>c. \<not> E x c" "x \<noteq> r"
  shows "tree_shape (\<lambda>i. A i \<and> i \<noteq> x) (\<lambda>i c. E i c \<and> c \<noteq> x) r"
proof -
  obtain rank :: "string \<Rightarrow> nat" where s: "\<And>i c. E i c \<Longrightarrow> A i \<and> A c \<and> c \<noteq> r"
    "\<And>i j c. E i c \<Longrightarrow> E j c \<Longrightarrow> i = j" "A r" "\<And>c. A c \<Longrightarrow> c \<noteq> r \<Longrightarrow> \<exists>i. E i c"
    "\<And>i c. E i c \<Longrightarrow> rank c < rank i"
    using assms(1) by (rule tree_shapeE) blast
  show ?thesis
  proof (rule tree_shapeI [where rank = rank])
    show "rank c < rank i" if "E i c \<and> c \<noteq> x" for i c using that s(5) by blast
    show "i = j" if "E i c \<and> c \<noteq> x" "E j c \<and> c \<noteq> x" for i j c using that s(2) by blast
    show "(A i \<and> i \<noteq> x) \<and> (A c \<and> c \<noteq> x) \<and> c \<noteq> r" if "E i c \<and> c \<noteq> x" for i c
      using that s(1) assms(2) by blast
    show "\<exists>i. E i c \<and> c \<noteq> x" if "A c \<and> c \<noteq> x" "c \<noteq> r" for c using that s(4) by blast
  qed (use s(3) assms(3) in blast)
qed

lemma shape_collapse:
  assumes "tree_shape A E r" "E G P" "\<And>c. E P c \<longleftrightarrow> c = x \<or> c = y" "x \<noteq> y" "\<And>c. \<not> E x c"
  shows "tree_shape (\<lambda>i. A i \<and> i \<noteq> x \<and> i \<noteq> P) (\<lambda>i c. E i c \<and> i \<noteq> P \<and> c \<noteq> P \<or> i = G \<and> c = y) r"
proof -
  obtain rank :: "string \<Rightarrow> nat" where s: "\<And>i c. E i c \<Longrightarrow> A i \<and> A c \<and> c \<noteq> r"
    "\<And>i j c. E i c \<Longrightarrow> E j c \<Longrightarrow> i = j" "A r" "\<And>c. A c \<Longrightarrow> c \<noteq> r \<Longrightarrow> \<exists>i. E i c"
    "\<And>i c. E i c \<Longrightarrow> rank c < rank i"
    using assms(1) by (rule tree_shapeE) blast
  have e: "E P x" "E P y" using assms(3) by blast+
  have r: "rank x < rank P" "rank y < rank P" "rank P < rank G" using s(5) e assms(2) by blast+
  have n: "G \<noteq> P" "y \<noteq> P" "x \<noteq> P" "G \<noteq> x" "y \<noteq> r" "P \<noteq> r" "A G" "A y" "x \<noteq> r"
    using r s(1) [OF e(2)] s(1) [OF assms(2)] s(1) [OF e(1)] by auto
  have x: "E i x \<Longrightarrow> i = P" "E i y \<Longrightarrow> i = P" for i using s(2) e by blast+
  show ?thesis
  proof (rule tree_shapeI [where rank = rank])
    show "rank c < rank i" if "E i c \<and> i \<noteq> P \<and> c \<noteq> P \<or> i = G \<and> c = y" for i c
      using that s(5) [of i c] r by auto
    show "i = j" if "E i c \<and> i \<noteq> P \<and> c \<noteq> P \<or> i = G \<and> c = y" "E j c \<and> j \<noteq> P \<and> c \<noteq> P \<or> j = G \<and> c = y" for i j c
      using that s(2) [of i c j] x by blast
    show "(A i \<and> i \<noteq> x \<and> i \<noteq> P) \<and> (A c \<and> c \<noteq> x \<and> c \<noteq> P) \<and> c \<noteq> r"
      if "E i c \<and> i \<noteq> P \<and> c \<noteq> P \<or> i = G \<and> c = y" for i c
      using that s(1) [of i c] n x assms(4,5) by blast
    show "\<exists>i. E i c \<and> i \<noteq> P \<and> c \<noteq> P \<or> i = G \<and> c = y" if ac: "A c \<and> c \<noteq> x \<and> c \<noteq> P" "c \<noteq> r" for c
    proof -
      obtain i where i: "E i c" using ac s(4) by blast
      show ?thesis
      proof (cases "i = P")
        case True
        then have "c = y" using i ac assms(3) by blast
        then show ?thesis by blast
      next
        case False
        then show ?thesis using i ac by blast
      qed
    qed
  qed (use s(3) n in blast)
qed

lemma shape_collapse_root:
  assumes "tree_shape A E r" "\<And>c. E r c \<longleftrightarrow> c = x \<or> c = y" "x \<noteq> y" "\<And>c. \<not> E x c"
  shows "tree_shape (\<lambda>i. A i \<and> i \<noteq> x \<and> i \<noteq> r) (\<lambda>i c. E i c \<and> i \<noteq> r) y"
proof -
  obtain rank :: "string \<Rightarrow> nat" where s: "\<And>i c. E i c \<Longrightarrow> A i \<and> A c \<and> c \<noteq> r"
    "\<And>i j c. E i c \<Longrightarrow> E j c \<Longrightarrow> i = j" "A r" "\<And>c. A c \<Longrightarrow> c \<noteq> r \<Longrightarrow> \<exists>i. E i c"
    "\<And>i c. E i c \<Longrightarrow> rank c < rank i"
    using assms(1) by (rule tree_shapeE) blast
  have e: "E r x" "E r y" using assms(2) by blast+
  have x: "E i x \<Longrightarrow> i = r" "E i y \<Longrightarrow> i = r" for i using s(2) e by blast+
  have n: "x \<noteq> r" "y \<noteq> r" "A y" using s(1) e by blast+
  show ?thesis
  proof (rule tree_shapeI [where rank = rank])
    show "rank c < rank i" if "E i c \<and> i \<noteq> r" for i c using that s(5) by blast
    show "i = j" if "E i c \<and> i \<noteq> r" "E j c \<and> j \<noteq> r" for i j c using that s(2) by blast
    show "(A i \<and> i \<noteq> x \<and> i \<noteq> r) \<and> (A c \<and> c \<noteq> x \<and> c \<noteq> r) \<and> c \<noteq> y" if "E i c \<and> i \<noteq> r" for i c
      using that s(1) [of i c] x assms(4) by blast
    show "\<exists>i. E i c \<and> i \<noteq> r" if "A c \<and> c \<noteq> x \<and> c \<noteq> r" "c \<noteq> y" for c
      using that s(4) [of c] assms(2) by blast
  qed (use n assms(3) in blast)
qed

section \<open>Sizes\<close>

lemma normalizeSizes_ok:
  assumes "normalizeSizes zs = Inr ns" "\<forall>x \<in> set zs. 0 < x"
  shows "sizes_ok ns" "length ns = length zs"
proof -
  have div: "sum_list (map (\<lambda>x. x / t) zs) = sum_list zs / t" for t :: rat
    by (induction zs) (simp_all add: add_divide_distrib)
  have tol: "(0::rat) < size_tolerance" by (simp add: size_tolerance_def)
  show "sizes_ok ns" "length ns = length zs"
    using assms tol by (auto simp: normalizeSizes_def Let_def sizes_ok_def div split: if_splits)
qed

lemma normalizeSizes_id: "sizes_ok zs \<Longrightarrow> normalizeSizes zs = Inr zs"
proof -
  assume "sizes_ok zs"
  then have a: "\<bar>sum_list zs - 1\<bar> < size_tolerance" by (simp add: sizes_ok_def)
  then have "0 < sum_list zs" by (auto simp: size_tolerance_def abs_if split: if_splits)
  with a show ?thesis by (simp add: normalizeSizes_def Let_def)
qed

lemma normalizeSizes_total:
  assumes "zs \<noteq> []" "\<forall>x \<in> set zs. 0 < x"
  shows "\<exists>ns. normalizeSizes zs = Inr ns"
proof -
  have "0 < sum_list zs" using assms
  proof (induction zs)
    case (Cons a zs)
    then show ?case by (cases zs) (auto simp: add_pos_pos)
  qed simp
  then show ?thesis by (simp add: normalizeSizes_def Let_def)
qed

lemma halved_append:
  "n < length zs \<Longrightarrow> halved zs n = take n zs @ [zs ! n / 2, zs ! n / 2] @ drop (Suc n) zs"
proof -
  have g: "concat (map (\<lambda>(i, x). if i = n then [x / 2, x / 2] else [x]) (zip [k..<k + length zs] zs))
      = (if k \<le> n \<and> n < k + length zs
         then take (n - k) zs @ [zs ! (n - k) / 2, zs ! (n - k) / 2] @ drop (Suc (n - k)) zs else zs)" for k
  proof (induction zs arbitrary: k)
    case (Cons z zs)
    have u: "[k..<k + length (z # zs)] = k # [Suc k..<Suc k + length zs]"
      using upt_conv_Cons [of k "k + length (z # zs)"] by simp
    show ?case
      unfolding u using Cons.IH [of "Suc k"]
      by (cases "n = k") (auto simp: Suc_diff_Suc nth_Cons' take_Cons' drop_Cons' split: if_splits)
  qed simp
  assume "n < length zs"
  then show ?thesis using g [of 0] by (simp add: halved_def)
qed

lemma halved_ok:
  assumes "sizes_ok zs" "n < length zs"
  shows "sizes_ok (halved zs n)" "length (halved zs n) = Suc (length zs)"
proof -
  have z: "zs = take n zs @ zs ! n # drop (Suc n) zs" using assms(2) by (rule id_take_nth_drop)
  have "sum_list zs = sum_list (take n zs) + zs ! n + sum_list (drop (Suc n) zs)"
    by (subst z) simp
  then have sum: "sum_list (halved zs n) = sum_list zs"
    by (simp add: halved_append [OF assms(2)])
  have pos: "\<forall>x \<in> set zs. 0 < x" using assms(1) by (simp add: sizes_ok_def)
  have "\<forall>x \<in> set (halved zs n). 0 < x"
    using pos assms(2) by (auto simp: halved_append [OF assms(2)] dest: in_set_takeD in_set_dropD)
  then show "sizes_ok (halved zs n)" using assms(1) sum by (simp add: sizes_ok_def)
  show "length (halved zs n) = Suc (length zs)" using assms(2) by (simp add: halved_append [OF assms(2)])
qed

end
