(* ===== verification/Dock_Cases.thy ===== *)
theory Dock_Cases
  imports Dock_Tree
begin

text \<open>
  What an accepted operation did: for each operation on a well-formed layout, the guards it passed, the
  layout it produced and the inverse it recorded, written over identities instead of found nodes.
\<close>

lemma floatRect_eq: "floatRect p = Inr r \<longleftrightarrow> pn_host p = Host_Float \<and> pn_rect p = Some r"
  by (auto simp: floatRect_def split: option.splits if_splits)

lemma onlyTabId_eq: "onlyTabId p = Inr t \<longleftrightarrow> pn_tabs p = [t]"
  by (auto simp: onlyTabId_def split: list.splits)

lemma descend_pane: "descend f s pick i = Inr a \<Longrightarrow> \<exists>j p. amap_get (ly_nodes s) j = Some (Pane_Node p) \<and> a = pn_id p"
proof (induction f arbitrary: i)
  case (Suc f)
  then obtain n where n: "amap_get (ly_nodes s) i = Some n" by (auto simp: rbind_eq_Inr getNode_eq)
  show ?case using Suc n by (cases n) (auto simp: getNode_def split: option.splits)
qed simp

lemma reseatFocus_eq:
  "reseatFocus t k = Inr t' \<Longrightarrow> (\<exists>a. t' = t\<lparr>ly_active := a\<rparr> \<and> (a = ly_active t \<and> a \<noteq> k
     \<or> (\<exists>j p. amap_get (ly_nodes t) j = Some (Pane_Node p) \<and> a = pn_id p)))"
proof (cases "ly_active t = k")
  case True
  assume "reseatFocus t k = Inr t'"
  then obtain a where "firstDockPaneId t = Inr a" "t' = t\<lparr>ly_active := a\<rparr>"
    using True by (auto simp: reseatFocus_def rbind_eq_Inr)
  moreover from this(1) obtain j p where "amap_get (ly_nodes t) j = Some (Pane_Node p) \<and> a = pn_id p"
    unfolding firstDockPaneId_def using descend_pane by blast
  ultimately show ?thesis by (intro exI [of _ a]) auto
next
  case False
  assume "reseatFocus t k = Inr t'"
  then have "t' = t" using False unfolding reseatFocus_def by simp
  then show ?thesis using False by (intro exI [of _ "ly_active t"]) simp
qed

abbreviation node_at :: "layout_state \<Rightarrow> string \<Rightarrow> layout_node option" where
  "node_at s \<equiv> amap_get (ly_nodes s)"

abbreviation tab_at :: "layout_state \<Rightarrow> string \<Rightarrow> tab_record option" where
  "tab_at s \<equiv> amap_get (ly_tabs s)"

abbreviation restore :: "layout_state \<Rightarrow> (string, string option) amap \<Rightarrow> layout_op" where
  "restore s m \<equiv> Op_RestoreFocus (ly_active s) (ly_floats s) m"

section \<open>Tabs\<close>

lemma openTabE:
  assumes "layout_wf s" "applyOpenTab s k tab n = Inr (s', undo)"
  obtains p where "node_at s k = Some (Pane_Node p)" "pn_host p = Host_Dock" "tab_at s (tb_id tab) = None"
    "s' = (withNodes (withTabs s [(tb_id tab, Some tab)])
       [(k, Some (Pane_Node (paneWithTabs p (insertAt (pn_tabs p) n (tb_id tab)) (Some (tb_id tab)))))])\<lparr>ly_active := k\<rparr>"
    "undo = [Op_CloseTab (tb_id tab), restore s [(k, pn_active p)]]"
proof -
  obtain p where p: "getPane s k = Inr p" using assms(2) by (auto simp: applyOpenTab_def rbind_eq_Inr)
  then have n: "node_at s k = Some (Pane_Node p)" "pn_id p = k"
    using pane_node_ok [OF assms(1)] by (auto simp: getPane_eq)
  show thesis
    by (rule that) (use assms(2) p n in
      \<open>auto simp: applyOpenTab_def assertFreeTab_def focusSnapshot_simps(2) [OF p] rbind_eq_Inr\<close>)
qed

lemma insertTabE:
  assumes "layout_wf s" "applyInsertTab s k tab n = Inr (s', undo)"
  obtains p where "node_at s k = Some (Pane_Node p)" "pn_host p = Host_Dock" "tab_at s (tb_id tab) = None"
    "s' = withNodes (withTabs s [(tb_id tab, Some tab)])
       [(k, Some (Pane_Node (paneWithTabs p (insertAt (pn_tabs p) n (tb_id tab))
          (case pn_active p of None \<Rightarrow> Some (tb_id tab) | Some x \<Rightarrow> Some x))))]"
    "undo = [Op_CloseTab (tb_id tab), restore s [(k, pn_active p)]]"
proof -
  obtain p where p: "getPane s k = Inr p" using assms(2) by (auto simp: applyInsertTab_def rbind_eq_Inr)
  then have n: "node_at s k = Some (Pane_Node p)" "pn_id p = k"
    using pane_node_ok [OF assms(1)] by (auto simp: getPane_eq)
  show thesis
    by (rule that) (use assms(2) p n in
      \<open>auto simp: applyInsertTab_def assertFreeTab_def focusSnapshot_simps(2) [OF p] rbind_eq_Inr\<close>)
qed

lemma closeTabE:
  assumes "layout_wf s" "applyCloseTab s t = Inr (s', undo)"
  obtains (docked) tab k p where "tab_at s t = Some tab" "tb_id tab = t" "node_at s k = Some (Pane_Node p)"
    "t \<in> set (pn_tabs p)" "pn_host p = Host_Dock"
    "s' = withTabs (withNodes s [(k, Some (Pane_Node (paneWithTabs p (removeAt (pn_tabs p) (position (pn_tabs p) t))
       (active_without p t (position (pn_tabs p) t)))))]) [(t, None)]"
    "undo = [Op_InsertTab k tab (int (position (pn_tabs p) t)), restore s [(k, pn_active p)]]"
  | (floating) tab k p s1 where "tab_at s t = Some tab" "tb_id tab = t" "node_at s k = Some (Pane_Node p)"
    "t \<in> set (pn_tabs p)" "pn_host p = Host_Float" "k \<in> set (ly_floats s)"
    "s1 = (withTabs (withNodes s [(k, None)]) [(t, None)])\<lparr>ly_floats := removeAt (ly_floats s) (position (ly_floats s) k)\<rparr>"
    "reseatFocus s1 k = Inr s'"
    "undo = [Op_InsertPane p [tab] (Attach_Float (int (position (ly_floats s) k))), restore s [(k, pn_active p)]]"
proof -
  obtain tab p where p: "getTab s t = Inr tab" "findTabPane s t = Inr p"
    using assms(2) by (auto simp: applyCloseTab_def rbind_eq_Inr)
  then have n: "tab_at s t = Some tab" "node_at s (pn_id p) = Some (Pane_Node p)" "t \<in> set (pn_tabs p)"
    using findTabPane_eq [OF assms(1)] by (auto simp: getTab_eq)
  have i: "tb_id tab = t" using tab_record_id [OF assms(1) n(1)] .
  have f: "focusSnapshot s [pn_id p] = Inr (restore s [(pn_id p, pn_active p)])"
    using n(2) by (simp add: focusSnapshot_simps getPane_eq)
  show thesis
  proof (cases "pn_host p")
    case Host_Dock
    show thesis
      by (rule docked [OF n(1) i n(2,3) Host_Dock]) (use assms(2) p f Host_Dock in \<open>auto simp: applyCloseTab_def Let_def\<close>)
  next
    case Host_Float
    have o: "s' = fst (s', undo)" "undo = snd (s', undo)" by simp_all
    obtain z where z: "floatIndex s (pn_id p) = Inr z"
      using assms(2) p f Host_Float by (auto simp: applyCloseTab_def Let_def rbind_eq_Inr)
    then have zz: "pn_id p \<in> set (ly_floats s)" "z = position (ly_floats s) (pn_id p)" by (auto simp: floatIndex_eq)
    show thesis
      by (rule floating [OF n(1) i n(2,3) Host_Float zz(1) refl])
        (use assms(2) p f z zz Host_Float in \<open>auto simp: applyCloseTab_def Let_def rbind_eq_Inr\<close>)
  qed
qed

lemma moveTabE:
  assumes "layout_wf s" "applyMoveTab s t k n = Inr (s', undo)"
  obtains j p q where "node_at s j = Some (Pane_Node p)" "t \<in> set (pn_tabs p)" "pn_host p = Host_Dock"
    "node_at s k = Some (Pane_Node q)" "pn_host q = Host_Dock" "k \<noteq> j"
    "s' = (withNodes s [(j, Some (Pane_Node (paneWithTabs p (removeAt (pn_tabs p) (position (pn_tabs p) t))
         (active_without p t (position (pn_tabs p) t))))),
       (k, Some (Pane_Node (paneWithTabs q (insertAt (pn_tabs q) n t) (Some t))))])\<lparr>ly_active := k\<rparr>"
    "undo = [Op_MoveTab t j (int (position (pn_tabs p) t)), restore s [(j, pn_active p), (k, pn_active q)]]"
proof -
  obtain p q where p: "findTabPane s t = Inr p" "getPane s k = Inr q" "pn_id q \<noteq> pn_id p"
    using assms(2) by (auto simp: applyMoveTab_def rbind_eq_Inr)
  then have n: "node_at s (pn_id p) = Some (Pane_Node p)" "t \<in> set (pn_tabs p)" "node_at s k = Some (Pane_Node q)"
    "pn_id q = k"
    using findTabPane_eq [OF assms(1)] pane_node_ok [OF assms(1)] by (auto simp: getPane_eq)
  have f: "focusSnapshot s [pn_id p, k] = Inr (restore s [(pn_id p, pn_active p), (k, pn_active q)])"
    using n p(3) by (auto simp: focusSnapshot_simps getPane_eq)
  show thesis
    by (rule that [OF n(1,2) _ n(3)])
      (use assms(2) p n(4) f in \<open>auto simp: applyMoveTab_def Let_def rbind_eq_Inr\<close>)
qed

lemma reorderTabE:
  assumes "layout_wf s" "applyReorderTab s t n = Inr (s', undo)"
  obtains k p where "node_at s k = Some (Pane_Node p)" "t \<in> set (pn_tabs p)"
    "s' = withNodes s [(k, Some (Pane_Node (p\<lparr>pn_tabs := insertAt (removeAt (pn_tabs p) (position (pn_tabs p) t)) n t\<rparr>)))]"
    "undo = [Op_ReorderTab t (int (position (pn_tabs p) t))]"
proof -
  obtain p where p: "findTabPane s t = Inr p" using assms(2) by (auto simp: applyReorderTab_def rbind_eq_Inr)
  then have n: "node_at s (pn_id p) = Some (Pane_Node p)" "t \<in> set (pn_tabs p)"
    using findTabPane_eq [OF assms(1)] by auto
  show thesis
    by (rule that [OF n]) (use assms(2) p in \<open>auto simp: applyReorderTab_def Let_def\<close>)
qed

section \<open>Focus, sizes and floating panes\<close>

lemma focusTabE:
  assumes "layout_wf s" "applyFocusTab s t = Inr (s', undo)"
  obtains k p where "node_at s k = Some (Pane_Node p)" "t \<in> set (pn_tabs p)"
    "s' = (withNodes s [(k, Some (Pane_Node (p\<lparr>pn_active := Some t\<rparr>)))])\<lparr>ly_active := k, ly_floats := raised s p\<rparr>"
    "undo = [restore s [(k, pn_active p)]]"
proof -
  obtain p where p: "findTabPane s t = Inr p" using assms(2) by (auto simp: applyFocusTab_def rbind_eq_Inr)
  then have n: "node_at s (pn_id p) = Some (Pane_Node p)" "t \<in> set (pn_tabs p)"
    using findTabPane_eq [OF assms(1)] by auto
  have f: "focusSnapshot s [pn_id p] = Inr (restore s [(pn_id p, pn_active p)])"
    using n by (simp add: focusSnapshot_simps getPane_eq)
  show thesis
    by (rule that [OF n]) (use assms(2) p f in \<open>auto simp: applyFocusTab_def Let_def raised_def\<close>)
qed

lemma focusPaneE:
  assumes "layout_wf s" "applyFocusPane s k = Inr (s', undo)"
  obtains p where "node_at s k = Some (Pane_Node p)" "s' = s\<lparr>ly_active := k, ly_floats := raised s p\<rparr>"
    "undo = [restore s []]"
proof -
  obtain p where p: "getPane s k = Inr p" using assms(2) by (auto simp: applyFocusPane_def rbind_eq_Inr)
  then have n: "node_at s k = Some (Pane_Node p)" "pn_id p = k"
    using pane_node_ok [OF assms(1)] by (auto simp: getPane_eq)
  show thesis
    by (rule that [OF n(1)]) (use assms(2) p n in \<open>auto simp: applyFocusPane_def focusSnapshot_simps\<close>)
qed

lemma resizeE:
  assumes "layout_wf s" "applyResize s k zs = Inr (s', undo)"
  obtains q ns where "node_at s k = Some (Split_Node q)" "length zs = length (sn_children q)" "\<forall>x \<in> set zs. 0 < x"
    "normalizeSizes zs = Inr ns" "s' = withNodes s [(k, Some (Split_Node (q\<lparr>sn_sizes := ns\<rparr>)))]"
    "undo = [Op_Resize k (sn_sizes q)]"
proof -
  obtain q ns where q: "getSplit s k = Inr q" "normalizeSizes zs = Inr ns"
    using assms(2) by (auto simp: applyResize_def rbind_eq_Inr)
  then have n: "node_at s k = Some (Split_Node q)" "sn_id q = k"
    using split_node_ok [OF assms(1)] by (auto simp: getSplit_eq)
  show thesis
    by (rule that [OF n(1) _ _ q(2)])
      (use assms(2) q n(2) in \<open>auto simp: applyResize_def rbind_eq_Inr list_all_iff\<close>)
qed

lemma floatE:
  assumes "layout_wf s" "applyFloat s t k rect = Inr (s', undo)"
  obtains j p where "node_at s j = Some (Pane_Node p)" "t \<in> set (pn_tabs p)" "pn_host p = Host_Dock"
    "node_at s k = None" "k \<noteq> j"
    "s' = (withNodes s [(j, Some (Pane_Node (paneWithTabs p (removeAt (pn_tabs p) (position (pn_tabs p) t))
         (active_without p t (position (pn_tabs p) t))))),
       (k, Some (Pane_Node (floating_pane k t rect)))])\<lparr>ly_floats := ly_floats s @ [k], ly_active := k\<rparr>"
    "undo = [Op_Unfloat k j (int (position (pn_tabs p) t)), restore s [(j, pn_active p)]]"
proof -
  obtain p where p: "findTabPane s t = Inr p"
    using assms(2) by (auto simp: applyFloat_def rbind_eq_Inr)
  then have n: "node_at s (pn_id p) = Some (Pane_Node p)" "t \<in> set (pn_tabs p)"
    using findTabPane_eq [OF assms(1)] by auto
  have f: "focusSnapshot s [pn_id p] = Inr (restore s [(pn_id p, pn_active p)])"
    using n by (simp add: focusSnapshot_simps getPane_eq)
  have k: "node_at s k = None" "pn_host p = Host_Dock"
    using assms(2) p f by (auto simp: applyFloat_def Let_def rbind_eq_Inr assertFreeNode_def)
  show thesis
    by (rule that [OF n k(2,1)])
      (use assms(2) p n k f in \<open>auto simp: applyFloat_def Let_def rbind_eq_Inr assertFreeNode_def\<close>)
qed

lemma unfloatE:
  assumes "layout_wf s" "applyUnfloat s k j n = Inr (s', undo)"
  obtains p q rect t where "node_at s k = Some (Pane_Node p)" "pn_host p = Host_Float" "pn_rect p = Some rect"
    "pn_tabs p = [t]" "node_at s j = Some (Pane_Node q)" "pn_host q = Host_Dock" "k \<noteq> j" "k \<in> set (ly_floats s)"
    "s' = (withNodes s [(k, None), (j, Some (Pane_Node (paneWithTabs q (insertAt (pn_tabs q) n t) (Some t))))])
       \<lparr>ly_floats := removeAt (ly_floats s) (position (ly_floats s) k), ly_active := j\<rparr>"
    "undo = [Op_Float t k rect, restore s [(j, pn_active q)]]"
proof -
  obtain p rect t q where p: "getPane s k = Inr p" "floatRect p = Inr rect" "onlyTabId p = Inr t" "getPane s j = Inr q"
    "pn_host q = Host_Dock" "k \<in> set (ly_floats s)"
    using assms(2) by (auto simp: applyUnfloat_def rbind_eq_Inr floatIndex_eq)
  then have n: "node_at s k = Some (Pane_Node p)" "pn_host p = Host_Float" "pn_rect p = Some rect" "pn_tabs p = [t]"
    "node_at s j = Some (Pane_Node q)" "pn_id q = j" "k \<noteq> j"
    using pane_node_ok [OF assms(1)] by (auto simp: getPane_eq floatRect_eq onlyTabId_eq)
  show thesis
    by (rule that [OF n(1-5) p(5) n(7) p(6)])
      (use assms(2) p n(6) in \<open>auto simp: applyUnfloat_def Let_def rbind_eq_Inr floatIndex_eq focusSnapshot_simps\<close>)
qed

lemma moveFloatE:
  assumes "layout_wf s" "applyMoveFloat s k x y = Inr (s', undo)"
  obtains p rect where "node_at s k = Some (Pane_Node p)" "pn_host p = Host_Float" "pn_rect p = Some rect"
    "s' = (withNodes s [(k, Some (Pane_Node (p\<lparr>pn_rect := Some (rect\<lparr>fr_x := x, fr_y := y\<rparr>)\<rparr>)))])
       \<lparr>ly_active := k, ly_floats := raise (ly_floats s) k\<rparr>"
    "undo = [Op_MoveFloat k (fr_x rect) (fr_y rect), restore s []]"
proof -
  obtain p rect where p: "getPane s k = Inr p" "floatRect p = Inr rect"
    using assms(2) by (auto simp: applyMoveFloat_def rbind_eq_Inr)
  then have n: "node_at s k = Some (Pane_Node p)" "pn_id p = k" "pn_host p = Host_Float" "pn_rect p = Some rect"
    using pane_node_ok [OF assms(1)] by (auto simp: getPane_eq floatRect_eq)
  show thesis
    by (rule that [OF n(1,3,4)])
      (use assms(2) p n in \<open>auto simp: applyMoveFloat_def focusSnapshot_simps reshapeFloat_def Let_def\<close>)
qed

lemma resizeFloatE:
  assumes "layout_wf s" "applyResizeFloat s k new = Inr (s', undo)"
  obtains p rect where "node_at s k = Some (Pane_Node p)" "pn_host p = Host_Float" "pn_rect p = Some rect"
    "0 < fr_width new" "0 < fr_height new"
    "s' = (withNodes s [(k, Some (Pane_Node (p\<lparr>pn_rect := Some new\<rparr>)))])
       \<lparr>ly_active := k, ly_floats := raise (ly_floats s) k\<rparr>"
    "undo = [Op_ResizeFloat k rect, restore s []]"
proof -
  obtain p rect where p: "getPane s k = Inr p" "floatRect p = Inr rect"
    using assms(2) by (auto simp: applyResizeFloat_def rbind_eq_Inr)
  then have n: "node_at s k = Some (Pane_Node p)" "pn_id p = k" "pn_host p = Host_Float" "pn_rect p = Some rect"
    using pane_node_ok [OF assms(1)] by (auto simp: getPane_eq floatRect_eq)
  show thesis
    by (rule that [OF n(1,3,4)])
      (use assms(2) p n in \<open>auto simp: applyResizeFloat_def rbind_eq_Inr focusSnapshot_simps reshapeFloat_def Let_def\<close>)
qed

section \<open>Splitting and merging\<close>

abbreviation swap_child :: "string \<Rightarrow> string \<Rightarrow> split_node \<Rightarrow> split_node" where
  "swap_child a b q \<equiv> q\<lparr>sn_children := map (\<lambda>c. if c = a then b else c) (sn_children q)\<rparr>"

lemma replaceInParentE:
  assumes "layout_wf s" "replaceInParent s a b = Inr t"
  obtains (under) G g where "node_at s G = Some (Split_Node g)" "a \<in> set (sn_children g)"
    "t = withNodes s [(G, Some (Split_Node (swap_child a b g)))]"
  | (root) "ly_root s = a" "findParent s a = None" "t = s\<lparr>ly_root := b\<rparr>"
proof (cases "findParent s a")
  case None
  show thesis using root [OF _ None] assms(2) None by (auto simp: replaceInParent_def split: if_splits)
next
  case (Some g)
  then have g: "node_at s (sn_id g) = Some (Split_Node g)" "a \<in> set (sn_children g)"
    using findParent_Some [OF assms(1)] by auto
  show thesis using under [OF g] assms(2) Some by (simp add: replaceInParent_def)
qed

abbreviation new_split :: "string \<Rightarrow> split_axis \<Rightarrow> split_direction \<Rightarrow> string \<Rightarrow> string \<Rightarrow> split_node" where
  "new_split N axis dir k new \<equiv> \<lparr>sn_id = N, sn_axis = axis,
     sn_children = (if dir = Side_After then [k, new] else [new, k]), sn_sizes = [1/2, 1/2]\<rparr>"

lemma splitE:
  assumes "layout_wf s" "applySplit s k axis dir new N = Inr (s', undo)"
  obtains (same) p P q n where "node_at s k = Some (Pane_Node p)" "pn_host p = Host_Dock" "node_at s new = None"
    "node_at s P = Some (Split_Node q)" "k \<in> set (sn_children q)" "n = position (sn_children q) k"
    "s' = withNodes s [(new, Some (Pane_Node (emptyDockPane new))), (P, Some (Split_Node (q\<lparr>sn_children :=
       insertAt (sn_children q) (int (if dir = Side_After then n + 1 else n)) new, sn_sizes := halved (sn_sizes q) n\<rparr>)))]"
    "undo = [Op_Merge new, Op_Resize P (sn_sizes q)]"
  | (under) p P q where "node_at s k = Some (Pane_Node p)" "pn_host p = Host_Dock" "node_at s new = None"
    "node_at s N = None" "node_at s P = Some (Split_Node q)" "k \<in> set (sn_children q)"
    "s' = withNodes (withNodes s [(P, Some (Split_Node (swap_child k N q)))])
       [(new, Some (Pane_Node (emptyDockPane new))), (N, Some (Split_Node (new_split N axis dir k new)))]"
    "undo = [Op_Merge new]"
  | (root) p where "node_at s k = Some (Pane_Node p)" "pn_host p = Host_Dock" "node_at s new = None"
    "node_at s N = None" "ly_root s = k" "findParent s k = None"
    "s' = (withNodes s [(new, Some (Pane_Node (emptyDockPane new))),
       (N, Some (Split_Node (new_split N axis dir k new)))])\<lparr>ly_root := N\<rparr>"
    "undo = [Op_Merge new]"
proof -
  obtain p where p: "getPane s k = Inr p" "pn_host p = Host_Dock" "node_at s new = None"
    using assms(2) by (auto simp: applySplit_def rbind_eq_Inr assertFreeNode_def)
  then have n: "node_at s k = Some (Pane_Node p)" by (simp add: getPane_eq)
  show thesis
  proof (cases "\<exists>q. findParent s k = Some q \<and> sn_axis q = axis")
    case True
    then obtain q where q: "findParent s k = Some q" "sn_axis q = axis" by blast
    then have c: "node_at s (sn_id q) = Some (Split_Node q)" "k \<in> set (sn_children q)"
      using findParent_Some [OF assms(1)] by auto
    show thesis
      by (rule same [OF n p(2,3) c refl])
        (use assms(2) p q in \<open>auto simp: applySplit_def assertFreeNode_def require_def Let_def\<close>)
  next
    case False
    then have "wrapSplit s k axis dir new N = Inr (s', undo)"
      using assms(2) p by (auto simp: applySplit_def assertFreeNode_def require_def split: option.splits)
    then obtain r where r: "node_at s N = None" "replaceInParent s k N = Inr r"
      "s' = withNodes r [(new, Some (Pane_Node (emptyDockPane new))), (N, Some (Split_Node (new_split N axis dir k new)))]"
      "undo = [Op_Merge new]" by (auto simp: wrapSplit_def rbind_eq_Inr assertFreeNode_def)
    show thesis
      using assms(1) r(2)
    proof (cases rule: replaceInParentE)
      case (under G g)
      show thesis
        by (rule that(2) [OF n p(2,3) r(1) under(1,2) _ r(4)]) (simp add: r(3) under(3))
    next
      case root
      show thesis
        by (rule that(3) [OF n p(2,3) r(1) root(1,2) _ r(4)]) (simp add: r(3) root(3))
    qed
  qed
qed

lemma mergeE:
  assumes "layout_wf s" "applyMerge s k = Inr (s', undo)"
  obtains (child) p P q ns s1 where "node_at s k = Some (Pane_Node p)" "pn_host p = Host_Dock" "pn_tabs p = []"
    "node_at s P = Some (Split_Node q)" "k \<in> set (sn_children q)" "2 < length (sn_children q)"
    "normalizeSizes (removeAt (sn_sizes q) (position (sn_children q) k)) = Inr ns"
    "s1 = withNodes s [(k, None), (P, Some (Split_Node (q\<lparr>sn_children :=
       removeAt (sn_children q) (position (sn_children q) k), sn_sizes := ns\<rparr>)))]"
    "reseatFocus s1 k = Inr s'"
    "undo = [Op_InsertPane p [] (Attach_Child P (int (position (sn_children q) k)) (sn_sizes q)), restore s []]"
  | (under) p P q sib G g s1 where "node_at s k = Some (Pane_Node p)" "pn_host p = Host_Dock" "pn_tabs p = []"
    "node_at s P = Some (Split_Node q)" "set (sn_children q) = {k, sib}" "k \<noteq> sib"
    "node_at s G = Some (Split_Node g)" "P \<in> set (sn_children g)"
    "s1 = withNodes (withNodes s [(G, Some (Split_Node (swap_child P sib g)))]) [(k, None), (P, None)]"
    "reseatFocus s1 k = Inr s'" "undo = [Op_InsertPane p [] (Attach_Wrap sib q), restore s []]"
  | (root) p P q sib s1 where "node_at s k = Some (Pane_Node p)" "pn_host p = Host_Dock" "pn_tabs p = []"
    "node_at s P = Some (Split_Node q)" "set (sn_children q) = {k, sib}" "k \<noteq> sib" "ly_root s = P"
    "s1 = (withNodes s [(k, None), (P, None)])\<lparr>ly_root := sib\<rparr>"
    "reseatFocus s1 k = Inr s'" "undo = [Op_InsertPane p [] (Attach_Wrap sib q), restore s []]"
proof -
  obtain p where p: "getPane s k = Inr p" "pn_tabs p = []"
    using assms(2) by (auto simp: applyMerge_def rbind_eq_Inr)
  then have n: "node_at s k = Some (Pane_Node p)" by (simp add: getPane_eq)
  then have d: "pn_host p = Host_Dock"
    using pane_node_ok(2) [OF assms(1) n] p(2) by (cases "pn_host p") (auto simp: pane_ok_def)
  obtain q where q: "findParent s k = Some q"
    using assms(2) p d by (cases "findParent s k") (auto simp: applyMerge_def focusSnapshot_simps require_def)
  let ?P = "sn_id q" and ?n = "position (sn_children q) k"
  have c: "node_at s ?P = Some (Split_Node q)" "k \<in> set (sn_children q)"
    using q findParent_Some [OF assms(1)] by auto
  have ok: "2 \<le> length (sn_children q)" "distinct (sn_children q)"
    using split_node_ok [OF assms(1) c(1)] by (auto simp: split_ok_def)
  show thesis
  proof (cases "2 < length (sn_children q)")
    case True
    obtain ns where ns: "normalizeSizes (removeAt (sn_sizes q) ?n) = Inr ns"
      using assms(2) p d q True by (auto simp: applyMerge_def focusSnapshot_simps require_def Let_def rbind_eq_Inr)
    show thesis
      by (rule child [OF n d p(2) c True ns refl])
        (use assms(2) p d q True ns in \<open>auto simp: applyMerge_def focusSnapshot_simps require_def Let_def rbind_eq_Inr\<close>)
  next
    case False
    then obtain a b where ab: "sn_children q = [a, b]" "a \<noteq> b"
      using ok by (metis (no_types, lifting) One_nat_def distinct_length_2_or_more length_0_conv length_Suc_conv
          numeral_2_eq_2 le_antisym not_less)
    define sib where "sib = sn_children q ! (1 - ?n)"
    have s: "set (sn_children q) = {k, sib}" "k \<noteq> sib"
      using ab c(2) unfolding sib_def by (auto simp: position_def)
    obtain r where r: "replaceInParent s ?P sib = Inr r" "reseatFocus (withNodes r [(k, None), (?P, None)]) k = Inr s'"
      "undo = [Op_InsertPane p [] (Attach_Wrap sib q), restore s []]"
      using assms(2) p d q False ab
      by (auto simp: applyMerge_def focusSnapshot_simps require_def Let_def rbind_eq_Inr sib_def split: if_splits)
    show thesis
      using assms(1) r(1)
    proof (cases rule: replaceInParentE)
      case (under G g)
      show thesis
        by (rule that(2) [OF n d p(2) c(1) s under(1,2) refl _ r(3)]) (use r(2) under(3) in simp)
    next
      case root
      show thesis
        by (rule that(3) [OF n d p(2) c(1) s root(1) refl _ r(3)]) (use r(2) root(3) in simp)
    qed
  qed
qed

end
