(* ===== verification/Dock_Preserve.thy ===== *)
theory Dock_Preserve
  imports Dock_Cases
begin

text \<open>
  Every operation the interaction layer records keeps the layout well formed. Each proof reads the
  operation through its case rule and checks the docked tree, the partition of the tabs and the focus.
\<close>

section \<open>The partition of tabs\<close>

lemma tab_partitionE:
  assumes "tab_partition W T"
  obtains "\<And>i t. W i t \<Longrightarrow> T t \<noteq> None" "\<And>i j t. W i t \<Longrightarrow> W j t \<Longrightarrow> i = j"
    "\<And>t x. T t = Some x \<Longrightarrow> tb_id x = t" "\<And>t x. T t = Some x \<Longrightarrow> \<exists>i. W i t"
  using assms unfolding tab_partition_def by blast

lemma tab_partitionI:
  assumes "\<And>i t. W i t \<Longrightarrow> T t \<noteq> None" "\<And>i j t. W i t \<Longrightarrow> W j t \<Longrightarrow> i = j"
    "\<And>t x. T t = Some x \<Longrightarrow> tb_id x = t" "\<And>t x. T t = Some x \<Longrightarrow> \<exists>i. W i t"
  shows "tab_partition W T"
  using assms unfolding tab_partition_def by blast

lemma partition_add:
  assumes "tab_partition W T" "T t = None" "tb_id x = t" "\<And>i u. W' i u \<longleftrightarrow> W i u \<or> i = k \<and> u = t"
  shows "tab_partition W' (T(t \<mapsto> x))"
  using assms(1)
proof (rule tab_partitionE)
  assume s: "\<And>i t. W i t \<Longrightarrow> T t \<noteq> None" "\<And>i j t. W i t \<Longrightarrow> W j t \<Longrightarrow> i = j"
    "\<And>t x. T t = Some x \<Longrightarrow> tb_id x = t" "\<And>t x. T t = Some x \<Longrightarrow> \<exists>i. W i t"
  have n: "\<not> W i t" for i using s(1) assms(2) by blast
  show ?thesis
  proof (rule tab_partitionI)
    show "(T(t \<mapsto> x)) u \<noteq> None" if "W' i u" for i u
      using that s(1) [of i u] assms(4) [of i u] by (cases "u = t") simp_all
    show "i = j" if "W' i u" "W' j u" for i j u
      using that s(2) [of i u j] n assms(4) [of i u] assms(4) [of j u] by blast
    show "tb_id y = u" if "(T(t \<mapsto> x)) u = Some y" for u y
      using that s(3) [of u y] assms(3) by (cases "u = t") simp_all
    show "\<exists>i. W' i u" if "(T(t \<mapsto> x)) u = Some y" for u y
      using that s(4) [of u y] assms(4) by (cases "u = t") auto
  qed
qed

lemma partition_remove:
  assumes "tab_partition W T" "\<And>i u. W' i u \<longleftrightarrow> W i u \<and> u \<noteq> t"
  shows "tab_partition W' (T(t := None))"
  using assms(1)
proof (rule tab_partitionE)
  assume s: "\<And>i t. W i t \<Longrightarrow> T t \<noteq> None" "\<And>i j t. W i t \<Longrightarrow> W j t \<Longrightarrow> i = j"
    "\<And>t x. T t = Some x \<Longrightarrow> tb_id x = t" "\<And>t x. T t = Some x \<Longrightarrow> \<exists>i. W i t"
  show ?thesis
  proof (rule tab_partitionI)
    show "(T(t := None)) u \<noteq> None" if "W' i u" for i u using that s(1) [of i u] assms(2) [of i u] by simp
    show "i = j" if "W' i u" "W' j u" for i j u using that s(2) assms(2) by blast
    show "tb_id y = u" if "(T(t := None)) u = Some y" for u y using that s(3) by (auto split: if_splits)
    show "\<exists>i. W' i u" if "(T(t := None)) u = Some y" for u y using that s(4) assms(2) by (auto split: if_splits)
  qed
qed

lemma partition_move:
  assumes "tab_partition W T" "W j t" "\<And>i u. W' i u \<longleftrightarrow> (if u = t then i = k else W i u)"
  shows "tab_partition W' T"
  using assms(1)
proof (rule tab_partitionE)
  assume s: "\<And>i t. W i t \<Longrightarrow> T t \<noteq> None" "\<And>i j t. W i t \<Longrightarrow> W j t \<Longrightarrow> i = j"
    "\<And>t x. T t = Some x \<Longrightarrow> tb_id x = t" "\<And>t x. T t = Some x \<Longrightarrow> \<exists>i. W i t"
  show ?thesis
  proof (rule tab_partitionI)
    show "T u \<noteq> None" if "W' i u" for i u using that s(1) assms(2,3) by (cases "u = t") auto
    show "i = j" if "W' i u" "W' j u" for i j u using that s(2) assms(3) by (cases "u = t") auto
    show "tb_id y = u" if "T u = Some y" for u y using that s(3) by blast
    show "\<exists>i. W' i u" if "T u = Some y" for u y using that s(4) assms(3) by (cases "u = t") auto
  qed
qed

lemma owns_upd:
  "owns (V(k := x)) i u \<longleftrightarrow> (if i = k then (case x of None \<Rightarrow> False | Some p \<Rightarrow> u \<in> set (pn_tabs p)) else owns V i u)"
  by (auto simp: owns_def split: option.splits)

lemma panes_wf_upd:
  assumes "panes_wf V T" "\<And>p. x = Some p \<Longrightarrow> pn_id p = k \<and> pane_ok p" "tab_partition (owns (V(k := x))) T'"
  shows "panes_wf (V(k := x)) T'"
  using assms unfolding panes_wf_def by (metis fun_upd_apply)

lemma panes_wf_upd2:
  assumes "panes_wf V T" "\<And>p. x = Some p \<Longrightarrow> pn_id p = k \<and> pane_ok p" "\<And>p. y = Some p \<Longrightarrow> pn_id p = l \<and> pane_ok p"
    "tab_partition (owns (V(k := x, l := y))) T'"
  shows "panes_wf (V(k := x, l := y)) T'"
  using assms unfolding panes_wf_def by (metis fun_upd_apply)

lemma panes_partition: "panes_wf V T \<Longrightarrow> tab_partition (owns V) T"
  by (simp add: panes_wf_def)

lemma owns_one:
  "panes_wf V T \<Longrightarrow> V k = Some p \<Longrightarrow> t \<in> set (pn_tabs p) \<Longrightarrow> owns V i t \<longleftrightarrow> i = k"
  unfolding panes_wf_def tab_partition_def owns_def by blast

lemma owns_at: "V k = Some p \<Longrightarrow> owns V k t \<longleftrightarrow> t \<in> set (pn_tabs p)"
  by (simp add: owns_def)

lemma panes_same:
  assumes "panes_wf V T" "V k = Some p" "pn_id q = k" "pane_ok q" "set (pn_tabs q) = set (pn_tabs p)"
  shows "panes_wf (V(k \<mapsto> q)) T"
proof (rule panes_wf_upd [OF assms(1)])
  have "owns (V(k \<mapsto> q)) = owns V" using assms(2,5) by (auto simp: owns_upd owns_at fun_eq_iff)
  then show "tab_partition (owns (V(k \<mapsto> q))) T" using assms(1) by (simp add: panes_partition)
qed (use assms(3,4) in auto)

lemma panes_add:
  assumes "panes_wf V T" "V k = Some p" "T t = None" "tb_id x = t" "pn_id q = k" "pane_ok q"
    "set (pn_tabs q) = insert t (set (pn_tabs p))"
  shows "panes_wf (V(k \<mapsto> q)) (T(t \<mapsto> x))"
proof (rule panes_wf_upd [OF assms(1)])
  show "tab_partition (owns (V(k \<mapsto> q))) (T(t \<mapsto> x))"
    by (rule partition_add [OF panes_partition [OF assms(1)] assms(3,4), where k = k])
      (use assms(2,7) in \<open>auto simp: owns_upd owns_at\<close>)
qed (use assms(5,6) in auto)

lemma panes_remove:
  assumes "panes_wf V T" "V k = Some p" "t \<in> set (pn_tabs p)" "pn_id q = k" "pane_ok q"
    "set (pn_tabs q) = set (pn_tabs p) - {t}"
  shows "panes_wf (V(k \<mapsto> q)) (T(t := None))"
proof (rule panes_wf_upd [OF assms(1)])
  show "tab_partition (owns (V(k \<mapsto> q))) (T(t := None))"
    by (rule partition_remove [OF panes_partition [OF assms(1)]])
      (use assms(2,6) owns_one [OF assms(1-3)] in \<open>auto simp: owns_upd owns_at\<close>)
qed (use assms(4,5) in auto)

lemma panes_move:
  assumes "panes_wf V T" "V j = Some p" "t \<in> set (pn_tabs p)" "j \<noteq> l" "pn_id q = j" "pane_ok q" "pn_id r = l" "pane_ok r"
    "set (pn_tabs q) = set (pn_tabs p) - {t}"
    "set (pn_tabs r) = insert t (case V l of None \<Rightarrow> {} | Some r0 \<Rightarrow> set (pn_tabs r0))"
  shows "panes_wf (V(j \<mapsto> q, l \<mapsto> r)) T"
proof (rule panes_wf_upd2 [OF assms(1)])
  have "owns V l u \<longleftrightarrow> u \<in> (case V l of None \<Rightarrow> {} | Some r0 \<Rightarrow> set (pn_tabs r0))" for u
    by (auto simp: owns_def split: option.splits)
  then have "owns (V(j \<mapsto> q, l \<mapsto> r)) i u \<longleftrightarrow> (if u = t then i = l else owns V i u)" for i u
    using assms(2,4,9,10) owns_one [OF assms(1-3)] by (auto simp: owns_upd owns_at)
  then show "tab_partition (owns (V(j \<mapsto> q, l \<mapsto> r))) T"
    using assms(2,3) by (intro partition_move [OF panes_partition [OF assms(1)], where j = j and t = t and k = l])
      (auto simp: owns_at)
qed (use assms(5-8) in auto)

lemma panes_return:
  assumes "panes_wf V T" "V k = Some p" "pn_tabs p = [t]" "V l = Some r0" "k \<noteq> l" "pn_id r = l" "pane_ok r"
    "set (pn_tabs r) = insert t (set (pn_tabs r0))"
  shows "panes_wf (V(k := None, l \<mapsto> r)) T"
proof (rule panes_wf_upd2 [OF assms(1)])
  have t: "t \<in> set (pn_tabs p)" using assms(3) by simp
  have "owns (V(k := None, l \<mapsto> r)) i u \<longleftrightarrow> (if u = t then i = l else owns V i u)" for i u
    using assms(2-5,8) owns_one [OF assms(1,2) t] by (auto simp: owns_upd owns_at)
  then show "tab_partition (owns (V(k := None, l \<mapsto> r))) T"
    using assms(2) t by (intro partition_move [OF panes_partition [OF assms(1)], where j = k and t = t and k = l])
      (auto simp: owns_at)
qed (use assms(6,7) in auto)

lemma panes_close:
  assumes "panes_wf V T" "V k = Some p" "pn_tabs p = [t]"
  shows "panes_wf (V(k := None)) (T(t := None))"
proof (rule panes_wf_upd [OF assms(1)])
  have t: "t \<in> set (pn_tabs p)" using assms(3) by simp
  show "tab_partition (owns (V(k := None))) (T(t := None))"
    by (rule partition_remove [OF panes_partition [OF assms(1)]])
      (use assms(2,3) owns_one [OF assms(1,2) t] in \<open>auto simp: owns_upd owns_at\<close>)
qed simp

lemma panes_empty:
  assumes "panes_wf V T" "V k = None \<or> V k = Some p \<and> pn_tabs p = []" "\<And>q. x = Some q \<Longrightarrow> pn_id q = k \<and> pane_ok q \<and> pn_tabs q = []"
  shows "panes_wf (V(k := x)) T"
proof (rule panes_wf_upd [OF assms(1)])
  have "owns (V(k := x)) = owns V"
    using assms(2,3) by (auto simp: owns_upd fun_eq_iff owns_def split: option.splits)
  then show "tab_partition (owns (V(k := x))) T" using assms(1) by (simp add: panes_partition)
qed (use assms(3) in auto)

section \<open>Panes after a strip changes\<close>

lemma pane_ok_insert:
  "pane_ok p \<Longrightarrow> pn_host p = Host_Dock \<Longrightarrow> t \<notin> set (pn_tabs p) \<Longrightarrow> a = Some t \<or> a = pn_active p \<and> a \<noteq> None \<Longrightarrow>
     pane_ok (paneWithTabs p (insertAt (pn_tabs p) n t) a)"
proof -
  assume "pane_ok p" "pn_host p = Host_Dock" "t \<notin> set (pn_tabs p)" "a = Some t \<or> a = pn_active p \<and> a \<noteq> None"
  moreover have "insertAt (pn_tabs p) n t \<noteq> []" using length_insertAt [of "pn_tabs p" n t] by (cases "insertAt (pn_tabs p) n t") auto
  ultimately show ?thesis by (auto simp: pane_ok_def paneWithTabs_def)
qed

lemma pane_ok_remove:
  assumes "pane_ok p" "pn_host p = Host_Dock" "t \<in> set (pn_tabs p)"
  shows "pane_ok (paneWithTabs p (removeAt (pn_tabs p) (position (pn_tabs p) t)) (active_without p t (position (pn_tabs p) t)))"
    "set (removeAt (pn_tabs p) (position (pn_tabs p) t)) = set (pn_tabs p) - {t}"
proof -
  have d: "distinct (pn_tabs p)" using assms(1) by (simp add: pane_ok_def)
  have r: "removeAt (pn_tabs p) (position (pn_tabs p) t) = filter (\<lambda>y. y \<noteq> t) (pn_tabs p)"
    using d assms(3) by (rule removeAt_position)
  show "set (removeAt (pn_tabs p) (position (pn_tabs p) t)) = set (pn_tabs p) - {t}" by (auto simp: r)
  have n: "neighbourTabId (pn_tabs p) (position (pn_tabs p) t) = None \<longleftrightarrow> filter (\<lambda>y. y \<noteq> t) (pn_tabs p) = []"
    "\<And>a. neighbourTabId (pn_tabs p) (position (pn_tabs p) t) = Some a \<Longrightarrow> a \<in> set (pn_tabs p) \<and> a \<noteq> t"
    using neighbourTabId_cases [OF assms(3) d] by blast+
  show "pane_ok (paneWithTabs p (removeAt (pn_tabs p) (position (pn_tabs p) t)) (active_without p t (position (pn_tabs p) t)))"
  proof (cases "pn_active p = Some t")
    case True
    then show ?thesis using assms(1,2) n d by (auto simp: pane_ok_def paneWithTabs_def r active_without_def)
  next
    case False
    then have a: "active_without p t (position (pn_tabs p) t) = pn_active p" by (simp add: active_without_def)
    have "pn_active p = None \<longleftrightarrow> filter (\<lambda>y. y \<noteq> t) (pn_tabs p) = []"
      using assms(1,3) False unfolding pane_ok_def filter_empty_conv by (metis not_None_eq list.set(1) empty_iff)
    then show ?thesis using assms(1,2) d False by (auto simp: pane_ok_def paneWithTabs_def r a)
  qed
qed

lemma paneWithTabs_simps [simp]:
  "pn_id (paneWithTabs p ts a) = pn_id p" "pn_host (paneWithTabs p ts a) = pn_host p"
  "pn_tabs (paneWithTabs p ts a) = ts" "pn_active (paneWithTabs p ts a) = a" "pn_rect (paneWithTabs p ts a) = pn_rect p"
  by (simp_all add: paneWithTabs_def)

section \<open>Focus\<close>

lemma focus_wf_upd:
  assumes "focus_wf V fl a" "V k = Some p" "pn_host q = pn_host p" "V b \<noteq> None"
  shows "focus_wf (V(k \<mapsto> q)) fl b"
  using assms unfolding focus_wf_def by (auto; metis)

lemma raise_set: "i \<in> set fl \<Longrightarrow> set (raise fl i) = set fl" "distinct fl \<Longrightarrow> distinct (raise fl i)"
  by (auto simp: raise_def)

lemma focus_wf_raised:
  assumes "focus_wf V fl a" "V k = Some p" "fl' = (if pn_host p = Host_Float then raise fl k else fl)" "V b \<noteq> None"
  shows "focus_wf V fl' b"
proof -
  have k: "k \<in> set fl" if "pn_host p = Host_Float" using assms(1,2) that unfolding focus_wf_def by blast
  have d: "distinct fl" using assms(1) by (simp add: focus_wf_def)
  have "set fl' = set fl \<and> distinct fl'"
    using k raise_set(1) [of k fl] raise_set(2) [OF d, of k] d assms(3) by (cases "pn_host p = Host_Float") auto
  then show ?thesis using assms(1,4) by (simp add: focus_wf_def)
qed

lemma dock_view_pane: "node_at s k = Some (Pane_Node p) \<Longrightarrow> dock_view s k = (if pn_host p = Host_Dock then Some None else None)"
  by (simp add: dock_view_def)

lemma pane_view_pane: "node_at s k = Some (Pane_Node p) \<Longrightarrow> pane_view s k = Some p"
  by (simp add: pane_view_def)

lemma layout_wfI:
  assumes "amap_wf (ly_nodes s)" "amap_wf (ly_tabs s)" "dock_wf (dock_view s) (ly_root s)"
    "panes_wf (pane_view s) (amap_get (ly_tabs s))" "focus_wf (pane_view s) (ly_floats s) (ly_active s)"
  shows "layout_wf s"
  using assms by (simp add: layout_wf_def)

section \<open>Tab operations\<close>

lemma dock_same: "node_at s k = Some (Pane_Node p) \<Longrightarrow> pn_host p = Host_Dock \<Longrightarrow> (dock_view s)(k := Some None) = dock_view s"
  by (rule fun_upd_idem) (simp add: dock_view_def)

lemma openTab_wf:
  assumes "layout_wf s" "applyOpenTab s k tab n = Inr (s', undo)"
  shows "layout_wf s'"
  using assms
proof (cases rule: openTabE)
  case (1 p)
  let ?q = "paneWithTabs p (insertAt (pn_tabs p) n (tb_id tab)) (Some (tb_id tab))"
  note w = layout_wfD [OF assms(1)] and ok = pane_node_ok [OF assms(1) 1(1)] and v = pane_view_pane [OF 1(1)]
  have t: "tb_id tab \<notin> set (pn_tabs p)" using ok(3) 1(3) by blast
  then have "pane_ok ?q" using ok(2) 1(2) by (intro pane_ok_insert) auto
  then have "panes_wf ((pane_view s)(k \<mapsto> ?q)) ((tab_at s)(tb_id tab \<mapsto> tab))"
    using ok(1) by (intro panes_add [OF w(4) v 1(3)]) auto
  moreover have "focus_wf ((pane_view s)(k \<mapsto> ?q)) (ly_floats s) k"
    using v by (intro focus_wf_upd [OF w(5) v]) auto
  ultimately show ?thesis
    using w(1-3) dock_same [OF 1(1,2)] unfolding 1(4) by (intro layout_wfI) (simp_all add: 1(2))
qed

lemma insertTab_wf:
  assumes "layout_wf s" "applyInsertTab s k tab n = Inr (s', undo)"
  shows "layout_wf s'"
  using assms
proof (cases rule: insertTabE)
  case (1 p)
  let ?q = "paneWithTabs p (insertAt (pn_tabs p) n (tb_id tab))
    (case pn_active p of None \<Rightarrow> Some (tb_id tab) | Some x \<Rightarrow> Some x)"
  note w = layout_wfD [OF assms(1)] and ok = pane_node_ok [OF assms(1) 1(1)] and v = pane_view_pane [OF 1(1)]
  have t: "tb_id tab \<notin> set (pn_tabs p)" using ok(3) 1(3) by blast
  then have "pane_ok ?q" using ok(2) 1(2) by (intro pane_ok_insert) (auto split: option.splits)
  then have "panes_wf ((pane_view s)(k \<mapsto> ?q)) ((tab_at s)(tb_id tab \<mapsto> tab))"
    using ok(1) by (intro panes_add [OF w(4) v 1(3)]) auto
  moreover have "focus_wf ((pane_view s)(k \<mapsto> ?q)) (ly_floats s) (ly_active s)"
    using w(5) by (intro focus_wf_upd [OF w(5) v]) (auto simp: focus_wf_def)
  ultimately show ?thesis
    using w(1-3) dock_same [OF 1(1,2)] unfolding 1(4) by (intro layout_wfI) (simp_all add: 1(2))
qed

lemma reseat_wf:
  assumes "reseatFocus t k = Inr s'" "amap_wf (ly_nodes t)" "amap_wf (ly_tabs t)" "dock_wf (dock_view t) (ly_root t)"
    "panes_wf (pane_view t) (tab_at t)" "distinct (ly_floats t)"
    "\<And>i. i \<in> set (ly_floats t) \<longleftrightarrow> (\<exists>p. pane_view t i = Some p \<and> pn_host p = Host_Float)"
    "ly_active t \<noteq> k \<Longrightarrow> pane_view t (ly_active t) \<noteq> None"
  shows "layout_wf s'"
proof -
  obtain a where a: "s' = t\<lparr>ly_active := a\<rparr>" "a = ly_active t \<and> a \<noteq> k \<or> (\<exists>j p. node_at t j = Some (Pane_Node p) \<and> a = pn_id p)"
    using reseatFocus_eq [OF assms(1)] by blast
  have "pane_view t a \<noteq> None"
    using a(2)
  proof
    assume "\<exists>j p. node_at t j = Some (Pane_Node p) \<and> a = pn_id p"
    then obtain j p where j: "node_at t j = Some (Pane_Node p)" "a = pn_id p" by blast
    from j(1) have "pane_view t j = Some p" by (rule pane_view_pane)
    then show ?thesis using j(2) using assms(5) unfolding panes_wf_def by auto
  qed (use assms(8) in auto)
  then have "focus_wf (pane_view t) (ly_floats t) a" using assms(6,7) by (simp add: focus_wf_def)
  then show ?thesis using assms(2-5) unfolding a(1) by (intro layout_wfI) simp_all
qed

lemma float_dropped:
  assumes "focus_wf V fl a" "V k = Some p" "pn_host p = Host_Float" "k \<in> set fl"
  shows "distinct (removeAt fl (position fl k))"
    "i \<in> set (removeAt fl (position fl k)) \<longleftrightarrow> (\<exists>q. (V(k := None)) i = Some q \<and> pn_host q = Host_Float)"
proof -
  have d: "distinct fl" using assms(1) by (simp add: focus_wf_def)
  have r: "removeAt fl (position fl k) = filter (\<lambda>y. y \<noteq> k) fl" using d assms(4) by (rule removeAt_position)
  show "distinct (removeAt fl (position fl k))" using d by (simp add: r)
  show "i \<in> set (removeAt fl (position fl k)) \<longleftrightarrow> (\<exists>q. (V(k := None)) i = Some q \<and> pn_host q = Host_Float)"
    using assms(1) by (auto simp: r focus_wf_def)
qed

lemma closeTab_wf:
  assumes "layout_wf s" "applyCloseTab s t = Inr (s', undo)"
  shows "layout_wf s'"
  using assms
proof (cases rule: closeTabE)
  case (docked tab k p)
  let ?q = "paneWithTabs p (removeAt (pn_tabs p) (position (pn_tabs p) t)) (active_without p t (position (pn_tabs p) t))"
  note w = layout_wfD [OF assms(1)] and ok = pane_node_ok [OF assms(1) docked(3)] and v = pane_view_pane [OF docked(3)]
  have q: "pane_ok ?q" "set (pn_tabs ?q) = set (pn_tabs p) - {t}"
    using pane_ok_remove [OF ok(2) docked(5,4)] by auto
  then have "panes_wf ((pane_view s)(k \<mapsto> ?q)) ((tab_at s)(t := None))"
    using ok(1) by (intro panes_remove [OF w(4) v docked(4)]) auto
  moreover have "focus_wf ((pane_view s)(k \<mapsto> ?q)) (ly_floats s) (ly_active s)"
    using w(5) by (intro focus_wf_upd [OF w(5) v]) (auto simp: focus_wf_def)
  ultimately show ?thesis
    using w(1-3) dock_same [OF docked(3,5)] unfolding docked(6) by (intro layout_wfI) (simp_all add: docked(5))
next
  case (floating tab k p s1)
  note w = layout_wfD [OF assms(1)] and ok = pane_node_ok [OF assms(1) floating(3)] and v = pane_view_pane [OF floating(3)]
  have p: "pn_tabs p = [t]" using ok(2) floating(4,5) unfolding pane_ok_def
    by (cases "pn_tabs p") auto
  have d: "(dock_view s)(k := None) = dock_view s" using dock_view_pane [OF floating(3)] floating(5) by (intro fun_upd_idem) simp
  have pw: "panes_wf ((pane_view s)(k := None)) ((tab_at s)(t := None))" using w(4) v p by (rule panes_close)
  show ?thesis
    by (rule reseat_wf [OF floating(8)])
      (use w(1,2,3) d pw float_dropped [OF w(5) v floating(5,6)] in
        \<open>simp_all add: floating(7)\<close>, use w(5) in \<open>auto simp: focus_wf_def\<close>)
qed

lemma moveTab_wf:
  assumes "layout_wf s" "applyMoveTab s t k n = Inr (s', undo)"
  shows "layout_wf s'"
  using assms
proof (cases rule: moveTabE)
  case (1 j p q)
  let ?p = "paneWithTabs p (removeAt (pn_tabs p) (position (pn_tabs p) t)) (active_without p t (position (pn_tabs p) t))"
  let ?q = "paneWithTabs q (insertAt (pn_tabs q) n t) (Some t)"
  note w = layout_wfD [OF assms(1)] and okp = pane_node_ok [OF assms(1) 1(1)] and okq = pane_node_ok [OF assms(1) 1(4)]
    and vp = pane_view_pane [OF 1(1)] and vq = pane_view_pane [OF 1(4)]
  have t: "t \<notin> set (pn_tabs q)" using one_tab_pane [OF assms(1) 1(1,4,2)] 1(6) by blast
  have p: "pane_ok ?p" "set (pn_tabs ?p) = set (pn_tabs p) - {t}" using pane_ok_remove [OF okp(2) 1(3,2)] by auto
  have q: "pane_ok ?q" using okq(2) 1(5) t by (intro pane_ok_insert) auto
  have "panes_wf ((pane_view s)(j \<mapsto> ?p, k \<mapsto> ?q)) (tab_at s)"
    using p q okp(1) okq(1) 1(6) vq by (intro panes_move [OF w(4) vp 1(2)]) auto
  moreover have "focus_wf ((pane_view s)(j \<mapsto> ?p, k \<mapsto> ?q)) (ly_floats s) k"
  proof (rule focus_wf_upd)
    show "focus_wf ((pane_view s)(j \<mapsto> ?p)) (ly_floats s) k"
      using vq by (intro focus_wf_upd [OF w(5) vp]) auto
    show "((pane_view s)(j \<mapsto> ?p)) k = Some q" using vq 1(6) by simp
  qed (use 1(6) vq in auto)
  moreover have "(dock_view s)(j := Some None, k := Some None) = dock_view s"
    using dock_same [OF 1(1,3)] dock_same [OF 1(4,5)] by simp
  ultimately show ?thesis
    using w(1-3) unfolding 1(7) by (intro layout_wfI) (simp_all add: 1(3,5))
qed

lemma pane_write_wf:
  assumes "layout_wf s" "node_at s k = Some (Pane_Node p)" "pn_id q = k" "pane_ok q" "set (pn_tabs q) = set (pn_tabs p)"
    "pn_host q = pn_host p" "b = ly_active s \<or> b = k" "fl = ly_floats s \<or> fl = raised s p"
  shows "layout_wf ((withNodes s [(k, Some (Pane_Node q))])\<lparr>ly_active := b, ly_floats := fl\<rparr>)"
proof -
  note w = layout_wfD [OF assms(1)] and v = pane_view_pane [OF assms(2)] and ok = pane_node_ok [OF assms(1,2)]
  have "panes_wf ((pane_view s)(k \<mapsto> q)) (tab_at s)" using panes_same [OF w(4) v assms(3-5)] .
  moreover have "focus_wf ((pane_view s)(k \<mapsto> q)) fl b"
  proof (rule focus_wf_upd [where p = p])
    show "focus_wf (pane_view s) fl b"
      using assms(7,8) w(5) v ok(1) focus_wf_raised [OF w(5) v, of fl b]
      by (auto simp: raised_def focus_wf_def split: if_splits)
    then show "pane_view s b \<noteq> None" by (simp add: focus_wf_def)
  qed (use v assms(6) in simp_all)
  moreover have "(dock_view s)(k := dock_of (Some (Pane_Node q))) = dock_view s"
    using dock_view_pane [OF assms(2)] assms(6) by (intro fun_upd_idem) simp
  ultimately show ?thesis using w(1-3) by (intro layout_wfI) simp_all
qed

lemma reorderTab_wf:
  assumes "layout_wf s" "applyReorderTab s t n = Inr (s', undo)"
  shows "layout_wf s'"
  using assms
proof (cases rule: reorderTabE)
  case (1 k p)
  let ?q = "p\<lparr>pn_tabs := insertAt (removeAt (pn_tabs p) (position (pn_tabs p) t)) n t\<rparr>"
  note ok = pane_node_ok [OF assms(1) 1(1)]
  have d: "distinct (pn_tabs p)" using ok(2) by (simp add: pane_ok_def)
  have r: "removeAt (pn_tabs p) (position (pn_tabs p) t) = filter (\<lambda>y. y \<noteq> t) (pn_tabs p)" using d 1(2) by (rule removeAt_position)
  have l: "length (removeAt (pn_tabs p) (position (pn_tabs p) t)) = length (pn_tabs p) - 1"
    using position_less [OF 1(2)] by simp
  have q: "set (pn_tabs ?q) = set (pn_tabs p)" "distinct (pn_tabs ?q)" "length (pn_tabs ?q) = length (pn_tabs p)"
    "pn_tabs ?q \<noteq> []"
    using 1(2) d l position_less [OF 1(2)] by (auto simp: r simp flip: length_0_conv)
  then have "pane_ok ?q" using ok(2) 1(2) by (auto simp: pane_ok_def)
  then show ?thesis
    using pane_write_wf [OF assms(1) 1(1), of ?q "ly_active s" "ly_floats s"] q(1) ok(1) unfolding 1(3)
    by (simp add: withNodes_def)
qed

section \<open>Focus and floating panes\<close>

lemma focusTab_wf:
  assumes "layout_wf s" "applyFocusTab s t = Inr (s', undo)"
  shows "layout_wf s'"
  using assms
proof (cases rule: focusTabE)
  case (1 k p)
  note ok = pane_node_ok [OF assms(1) 1(1)]
  have "pane_ok (p\<lparr>pn_active := Some t\<rparr>)" using ok(2) 1(2) by (auto simp: pane_ok_def)
  then show ?thesis
    using pane_write_wf [OF assms(1) 1(1), of "p\<lparr>pn_active := Some t\<rparr>" k "raised s p"] ok(1) unfolding 1(3) by simp
qed

lemma focusPane_wf:
  assumes "layout_wf s" "applyFocusPane s k = Inr (s', undo)"
  shows "layout_wf s'"
  using assms
proof (cases rule: focusPaneE)
  case (1 p)
  note w = layout_wfD [OF assms(1)] and v = pane_view_pane [OF 1(1)] and ok = pane_node_ok [OF assms(1) 1(1)]
  have "focus_wf (pane_view s) (raised s p) k"
    using v ok(1) by (intro focus_wf_raised [OF w(5) v]) (auto simp: raised_def)
  then show ?thesis using w(1-4) unfolding 1(2) by (intro layout_wfI) simp_all
qed

lemma reshape_wf:
  assumes "layout_wf s" "node_at s k = Some (Pane_Node p)" "pn_host p = Host_Float" "rect_ok r"
  shows "layout_wf ((withNodes s [(k, Some (Pane_Node (p\<lparr>pn_rect := Some r\<rparr>)))])
    \<lparr>ly_active := k, ly_floats := raise (ly_floats s) k\<rparr>)"
proof -
  note ok = pane_node_ok [OF assms(1,2)]
  have "pane_ok (p\<lparr>pn_rect := Some r\<rparr>)" using ok(2) assms(3,4) by (auto simp: pane_ok_def)
  moreover have "raised s p = raise (ly_floats s) k" using ok(1) assms(3) by (simp add: raised_def)
  ultimately show ?thesis
    using pane_write_wf [OF assms(1,2), of "p\<lparr>pn_rect := Some r\<rparr>" k "raised s p"] ok(1) by simp
qed

lemma moveFloat_wf:
  assumes "layout_wf s" "applyMoveFloat s k x y = Inr (s', undo)"
  shows "layout_wf s'"
  using assms
proof (cases rule: moveFloatE)
  case (1 p rect)
  have "rect_ok rect" using pane_node_ok(2) [OF assms(1) 1(1)] 1(3) by (simp add: pane_ok_def)
  then have "rect_ok (rect\<lparr>fr_x := x, fr_y := y\<rparr>)" by (simp add: rect_ok_def)
  then show ?thesis using reshape_wf [OF assms(1) 1(1,2)] unfolding 1(4) by blast
qed

lemma resizeFloat_wf:
  assumes "layout_wf s" "applyResizeFloat s k r = Inr (s', undo)"
  shows "layout_wf s'"
  using assms
proof (cases rule: resizeFloatE)
  case (1 p rect)
  show ?thesis using reshape_wf [OF assms(1) 1(1,2), of r] 1(4,5) unfolding 1(6) by (simp add: rect_ok_def)
qed

lemma float_wf:
  assumes "layout_wf s" "applyFloat s t k rect = Inr (s', undo)" "rect_ok rect"
  shows "layout_wf s'"
  using assms(1,2)
proof (cases rule: floatE)
  case (1 j p)
  let ?p = "paneWithTabs p (removeAt (pn_tabs p) (position (pn_tabs p) t)) (active_without p t (position (pn_tabs p) t))"
  note w = layout_wfD [OF assms(1)] and ok = pane_node_ok [OF assms(1) 1(1)] and v = pane_view_pane [OF 1(1)]
  have k: "pane_view s k = None" "dock_view s k = None" using 1(4) by (simp_all add: pane_view_def dock_view_def)
  have p: "pane_ok ?p" "set (pn_tabs ?p) = set (pn_tabs p) - {t}" using pane_ok_remove [OF ok(2) 1(3,2)] by auto
  have "panes_wf ((pane_view s)(j \<mapsto> ?p, k \<mapsto> floating_pane k t rect)) (tab_at s)"
    using p ok(1) 1(5) k by (intro panes_move [OF w(4) v 1(2)]) (auto simp: floating_pane_def pane_ok_def assms(3))
  moreover have "focus_wf ((pane_view s)(j \<mapsto> ?p, k \<mapsto> floating_pane k t rect)) (ly_floats s @ [k]) k"
    using w(5) v k(1) 1(3,5) unfolding focus_wf_def by (auto simp: floating_pane_def; fastforce)
  moreover have "(dock_view s)(j := Some None, k := None) = dock_view s"
    using dock_same [OF 1(1,3)] k(2) by (simp add: fun_upd_idem)
  ultimately show ?thesis
    using w(1-3) unfolding 1(6) by (intro layout_wfI) (simp_all add: 1(3) floating_pane_def)
qed

lemma unfloat_wf:
  assumes "layout_wf s" "applyUnfloat s k j n = Inr (s', undo)"
  shows "layout_wf s'"
  using assms
proof (cases rule: unfloatE)
  case (1 p q rect t)
  let ?q = "paneWithTabs q (insertAt (pn_tabs q) n t) (Some t)"
  note w = layout_wfD [OF assms(1)] and okq = pane_node_ok [OF assms(1) 1(5)] and vp = pane_view_pane [OF 1(1)]
    and vq = pane_view_pane [OF 1(5)]
  have t: "t \<notin> set (pn_tabs q)" using one_tab_pane [OF assms(1) 1(1,5), of t] 1(4,7) by auto
  then have q: "pane_ok ?q" using okq(2) 1(6) by (intro pane_ok_insert) auto
  have "panes_wf ((pane_view s)(k := None, j \<mapsto> ?q)) (tab_at s)"
    using q okq(1) by (intro panes_return [OF w(4) vp 1(4) vq 1(7)]) auto
  moreover have "focus_wf ((pane_view s)(k := None, j \<mapsto> ?q)) (removeAt (ly_floats s) (position (ly_floats s) k)) j"
  proof (rule focus_wf_upd [where p = q])
    show "focus_wf ((pane_view s)(k := None)) (removeAt (ly_floats s) (position (ly_floats s) k)) j"
      using float_dropped [OF w(5) vp 1(2,8)] vq 1(7) unfolding focus_wf_def by auto
  qed (use vq 1(7) in auto)
  moreover have "(dock_view s)(k := None, j := Some None) = dock_view s"
    using dock_same [OF 1(5,6)] dock_view_pane [OF 1(1)] 1(2,7) by (simp add: fun_upd_idem fun_upd_twist)
  ultimately show ?thesis
    using w(1-3) unfolding 1(9) by (intro layout_wfI) (simp_all add: 1(6))
qed

section \<open>The docked tree\<close>

lemma dock_wf_split: "dock_wf D r \<Longrightarrow> D i = Some (Some q) \<Longrightarrow> sn_id q = i \<and> split_ok q"
  by (auto simp: dock_wf_def)

lemma dock_wf_shape: "dock_wf D r \<Longrightarrow> tree_shape (\<lambda>i. D i \<noteq> None) (edge D) r"
  by (simp add: dock_wf_def)

lemma dock_wfI:
  assumes "\<And>i q. D i = Some (Some q) \<Longrightarrow> sn_id q = i \<and> split_ok q" "tree_shape A E r"
    "\<And>i. D i \<noteq> None \<longleftrightarrow> A i" "\<And>i c. edge D i c \<longleftrightarrow> E i c"
  shows "dock_wf D r"
proof -
  have "(\<lambda>i. D i \<noteq> None) = A" "edge D = E" using assms(3,4) by (auto simp: fun_eq_iff)
  then show ?thesis using assms(1,2) unfolding dock_wf_def by simp
qed

lemma edge_upd:
  "edge (D(k := x)) i c \<longleftrightarrow> (if i = k then (case x of Some (Some q) \<Rightarrow> c \<in> set (sn_children q) | _ \<Rightarrow> False) else edge D i c)"
  by (auto simp: edge_def split: option.splits)

lemma edge_at: "D i = Some (Some q) \<Longrightarrow> edge D i c \<longleftrightarrow> c \<in> set (sn_children q)" "D i = Some None \<Longrightarrow> \<not> edge D i c"
  "D i = None \<Longrightarrow> \<not> edge D i c"
  by (auto simp: edge_def)

lemma tree_edge: "tree_shape A E r \<Longrightarrow> E i c \<Longrightarrow> A i \<and> A c \<and> c \<noteq> r \<and> i \<noteq> c"
  unfolding tree_shape_def by (metis less_irrefl)

lemma swap_child_ok:
  assumes "split_ok q" "a \<in> set (sn_children q)" "b \<notin> set (sn_children q)"
  shows "split_ok (swap_child a b q)" "set (sn_children (swap_child a b q)) = insert b (set (sn_children q) - {a})"
proof -
  have "inj_on (\<lambda>c. if c = a then b else c) (set (sn_children q))" using assms(3) by (auto simp: inj_on_def)
  then show "split_ok (swap_child a b q)" using assms(1) by (simp add: split_ok_def distinct_map)
  show "set (sn_children (swap_child a b q)) = insert b (set (sn_children q) - {a})" using assms(2) by auto
qed

lemma upd_none: "V P = None \<Longrightarrow> k \<noteq> P \<Longrightarrow> V(k := x, P := None) = V(k := x)" "V P = None \<Longrightarrow> V(P := None) = V"
  by (auto simp: fun_eq_iff)

lemma pane_view_split: "node_at s P = Some (Split_Node q) \<Longrightarrow> pane_view s P = None"
  "node_at s P = None \<Longrightarrow> pane_view s P = None"
  by (simp_all add: pane_view_def)

lemma dock_view_split: "node_at s P = Some (Split_Node q) \<Longrightarrow> dock_view s P = Some (Some q)"
  "node_at s P = None \<Longrightarrow> dock_view s P = None"
  by (simp_all add: dock_view_def)

lemma edge_split: "node_at s P = Some (Split_Node q) \<Longrightarrow> edge (dock_view s) P c \<longleftrightarrow> c \<in> set (sn_children q)"
  by (simp add: edge_def dock_view_def)

lemma resize_wf:
  assumes "layout_wf s" "applyResize s k zs = Inr (s', undo)"
  shows "layout_wf s'"
  using assms
proof (cases rule: resizeE)
  case (1 q ns)
  let ?q = "q\<lparr>sn_sizes := ns\<rparr>"
  note w = layout_wfD [OF assms(1)] and d = dock_view_split(1) [OF 1(1)]
  have ok: "sn_id q = k" "split_ok q" using split_node_ok [OF assms(1) 1(1)] by auto
  have "split_ok ?q" using ok(2) normalizeSizes_ok [OF 1(4,3)] 1(2) by (simp add: split_ok_def)
  then have "dock_wf ((dock_view s)(k := Some (Some ?q))) (ly_root s)"
    using ok(1) d dock_wf_split [OF w(3)]
    by (intro dock_wfI [OF _ dock_wf_shape [OF w(3)]]) (auto simp: edge_upd edge_at split: if_splits)
  moreover have "(pane_view s)(k := None) = pane_view s" using pane_view_split(1) [OF 1(1)] by (rule fun_upd_idem)
  ultimately show ?thesis using w unfolding 1(5) by (intro layout_wfI) simp_all
qed

lemma empty_ok: "pane_ok (emptyDockPane k)" "pn_id (emptyDockPane k) = k" "pn_tabs (emptyDockPane k) = []"
  "pn_host (emptyDockPane k) = Host_Dock"
  by (simp_all add: emptyDockPane_def pane_ok_def)

lemma focus_empty:
  "focus_wf V fl a \<Longrightarrow> V k = None \<Longrightarrow> focus_wf (V(k \<mapsto> emptyDockPane k)) fl a"
  unfolding focus_wf_def by (auto simp: empty_ok)

lemma add_pane_wf:
  assumes "layout_wf s" "node_at s new = None" "dock_wf D r" "dock_view s' = D" "ly_root s' = r"
    "pane_view s' = (pane_view s)(new \<mapsto> emptyDockPane new)" "ly_tabs s' = ly_tabs s" "ly_floats s' = ly_floats s"
    "ly_active s' = ly_active s" "amap_wf (ly_nodes s')"
  shows "layout_wf s'"
proof -
  note w = layout_wfD [OF assms(1)] and v = pane_view_split(2) [OF assms(2)]
  have "panes_wf ((pane_view s)(new \<mapsto> emptyDockPane new)) (tab_at s)"
    using v by (intro panes_empty [OF w(4)]) (auto simp: empty_ok)
  then show ?thesis using assms(3-10) w(2) focus_empty [OF w(5) v] by (intro layout_wfI) simp_all
qed

lemma split_wf:
  assumes "layout_wf s" "applySplit s k axis dir new N = Inr (s', undo)" "new \<noteq> N"
  shows "layout_wf s'"
  using assms(1,2)
proof (cases rule: splitE)
  case (same p P q n)
  let ?q = "q\<lparr>sn_children := insertAt (sn_children q) (int (if dir = Side_After then n + 1 else n)) new, sn_sizes := halved (sn_sizes q) n\<rparr>"
  note w = layout_wfD [OF assms(1)] and D = dock_view_split(1) [OF same(4)] and Dn = dock_view_split(2) [OF same(3)]
  have ok: "sn_id q = P" "split_ok q" using split_node_ok [OF assms(1) same(4)] by auto
  have P: "P \<noteq> new" using same(3,4) by auto
  have "new \<notin> set (sn_children q)" using tree_edge [OF dock_wf_shape [OF w(3)], of P new] D Dn by (auto simp: edge_at)
  moreover have "n < length (sn_sizes q)" using position_less [OF same(5)] ok(2) same(6) by (simp add: split_ok_def)
  ultimately have q: "split_ok ?q" using ok(2) halved_ok [of "sn_sizes q" n] by (simp add: split_ok_def)
  have "dock_wf ((dock_view s)(new := Some None, P := Some (Some ?q))) (ly_root s)"
  proof (rule dock_wfI)
    show "tree_shape (\<lambda>i. dock_view s i \<noteq> None \<or> i = new) (\<lambda>i c. edge (dock_view s) i c \<or> i = P \<and> c = new) (ly_root s)"
      using D Dn by (intro shape_add_leaf [OF dock_wf_shape [OF w(3)]]) simp_all
    show "sn_id x = i \<and> split_ok x" if "((dock_view s)(new := Some None, P := Some (Some ?q))) i = Some (Some x)" for i x
      using that q ok(1) dock_wf_split [OF w(3), of i x] by (auto split: if_splits)
  qed (use D Dn P in \<open>auto simp: edge_upd edge_at\<close>)
  then show ?thesis
    by (rule add_pane_wf [OF assms(1) same(3)])
      (use w(1) P pane_view_split(1) [OF same(4)] in \<open>simp_all add: same(7) empty_ok upd_none(1)\<close>)
next
  case (under p P q)
  note w = layout_wfD [OF assms(1)] and D = dock_view_split(1) [OF under(5)] and Dn = dock_view_split(2) [OF under(3)]
    and DN = dock_view_split(2) [OF under(4)] and E = edge_split [OF under(5)]
  have ok: "sn_id q = P" "split_ok q" using split_node_ok [OF assms(1) under(5)] by auto
  have ne: "P \<noteq> new" "P \<noteq> N" "k \<noteq> P" "k \<noteq> new" "k \<noteq> N" using under(1,3,4,5) by auto
  have "N \<notin> set (sn_children q)" using tree_edge [OF dock_wf_shape [OF w(3)], of P N] E DN by auto
  note q = swap_child_ok [OF ok(2) under(6) this]
  let ?D = "(dock_view s)(P := Some (Some (swap_child k N q)), new := Some None, N := Some (Some (new_split N axis dir k new)))"
  have "dock_wf ?D (ly_root s)"
  proof (rule dock_wfI)
    show "tree_shape (\<lambda>i. dock_view s i \<noteq> None \<or> i = N \<or> i = new)
        (\<lambda>i c. edge (dock_view s) i c \<and> c \<noteq> k \<or> i = P \<and> c = N \<or> i = N \<and> (c = k \<or> c = new)) (ly_root s)"
      using E under(6) DN Dn assms(3) by (intro shape_wrap [OF dock_wf_shape [OF w(3)]]) simp_all
    show "sn_id x = i \<and> split_ok x" if "?D i = Some (Some x)" for i x
      using that q(1) ok(1) ne dock_wf_split [OF w(3), of i x]
      by (auto simp: split_ok_def sizes_ok_def size_tolerance_def split: if_splits)
    have only: "edge (dock_view s) i k \<longleftrightarrow> i = P" for i
      using E under(6) dock_wf_shape [OF w(3)] unfolding tree_shape_def by blast
    show "edge ?D i c \<longleftrightarrow> edge (dock_view s) i c \<and> c \<noteq> k \<or> i = P \<and> c = N \<or> i = N \<and> (c = k \<or> c = new)" for i c
      using q(2) E ne assms(3) only [of i] DN Dn by (auto simp: edge_upd edge_at)
  qed (use D Dn DN in auto)
  then show ?thesis
    by (rule add_pane_wf [OF assms(1) under(3)])
      (use w(1) ne assms(3) pane_view_split(1) [OF under(5)] pane_view_split(2) [OF under(4)] in
        \<open>simp_all add: under(7) empty_ok upd_none\<close>)
next
  case (root p)
  note w = layout_wfD [OF assms(1)] and Dn = dock_view_split(2) [OF root(3)] and DN = dock_view_split(2) [OF root(4)]
  have ne: "k \<noteq> new" "k \<noteq> N" using root(1,3,4) by auto
  let ?D = "(dock_view s)(new := Some None, N := Some (Some (new_split N axis dir k new)))"
  have "dock_wf ?D N"
  proof (rule dock_wfI)
    show "tree_shape (\<lambda>i. dock_view s i \<noteq> None \<or> i = N \<or> i = new)
        (\<lambda>i c. edge (dock_view s) i c \<or> i = N \<and> (c = ly_root s \<or> c = new)) N"
      using DN Dn assms(3) by (intro shape_wrap_root [OF dock_wf_shape [OF w(3)]]) simp_all
    show "sn_id x = i \<and> split_ok x" if "?D i = Some (Some x)" for i x
      using that ne dock_wf_split [OF w(3), of i x]
      by (auto simp: split_ok_def sizes_ok_def size_tolerance_def split: if_splits)
  qed (use Dn DN assms(3) root(5) ne in \<open>auto simp: edge_upd edge_at\<close>)
  then show ?thesis
    by (rule add_pane_wf [OF assms(1) root(3)])
      (use w(1) assms(3) pane_view_split(2) [OF root(4)] in \<open>simp_all add: root(7) empty_ok upd_none\<close>)
qed

lemma drop_pane_wf:
  assumes "layout_wf s" "node_at s k = Some (Pane_Node p)" "pn_host p = Host_Dock" "pn_tabs p = []"
    "reseatFocus t k = Inr s'" "dock_wf (dock_view t) (ly_root t)" "pane_view t = (pane_view s)(k := None)"
    "ly_tabs t = ly_tabs s" "ly_floats t = ly_floats s" "ly_active t = ly_active s" "amap_wf (ly_nodes t)"
  shows "layout_wf s'"
proof -
  note w = layout_wfD [OF assms(1)] and v = pane_view_pane [OF assms(2)]
  have p: "panes_wf ((pane_view s)(k := None)) (tab_at s)"
    using v assms(4) by (intro panes_empty [OF w(4), where p = p]) auto
  show ?thesis
    by (rule reseat_wf [OF assms(5,11)])
      (use assms(3,6-10) w(2,5) v p in \<open>auto simp: focus_wf_def\<close>)
qed

lemma leaf_edge: "node_at s k = Some (Pane_Node p) \<Longrightarrow> \<not> edge (dock_view s) k c"
  by (simp add: edge_def dock_view_def)

lemma removeAt_ok:
  assumes "split_ok q" "k \<in> set (sn_children q)" "2 < length (sn_children q)"
    "normalizeSizes (removeAt (sn_sizes q) (position (sn_children q) k)) = Inr ns"
  shows "split_ok (q\<lparr>sn_children := removeAt (sn_children q) (position (sn_children q) k), sn_sizes := ns\<rparr>)"
    "set (removeAt (sn_children q) (position (sn_children q) k)) = set (sn_children q) - {k}"
proof -
  let ?n = "position (sn_children q) k"
  have n: "?n < length (sn_children q)" "?n < length (sn_sizes q)" "distinct (sn_children q)"
    using position_less [OF assms(2)] assms(1) by (auto simp: split_ok_def)
  have r: "removeAt (sn_children q) ?n = filter (\<lambda>y. y \<noteq> k) (sn_children q)" using n(3) assms(2) by (rule removeAt_position)
  have l: "length (removeAt (sn_children q) ?n) = length (sn_children q) - 1" using n(1) by simp
  have "\<forall>x \<in> set (removeAt (sn_sizes q) ?n). 0 < x"
    using assms(1) by (auto simp: split_ok_def sizes_ok_def removeAt_def dest: in_set_takeD in_set_dropD)
  then have "sizes_ok ns" "length ns = length (sn_sizes q) - 1"
    using normalizeSizes_ok [OF assms(4)] n(2) by simp_all
  then show "split_ok (q\<lparr>sn_children := removeAt (sn_children q) ?n, sn_sizes := ns\<rparr>)"
    using assms(1,3) n l by (auto simp: split_ok_def r)
  show "set (removeAt (sn_children q) ?n) = set (sn_children q) - {k}" by (auto simp: r)
qed

lemma merge_child_tree:
  assumes "layout_wf s" "node_at s k = Some (Pane_Node p)" "node_at s P = Some (Split_Node q)" "k \<in> set (sn_children q)"
    "2 < length (sn_children q)" "normalizeSizes (removeAt (sn_sizes q) (position (sn_children q) k)) = Inr ns"
    "q' = q\<lparr>sn_children := removeAt (sn_children q) (position (sn_children q) k), sn_sizes := ns\<rparr>"
  shows "dock_wf ((dock_view s)(k := None, P := Some (Some q'))) (ly_root s)"
proof (rule dock_wfI)
  note w = layout_wfD [OF assms(1)] and E = edge_split [OF assms(3)] and D = dock_view_split(1) [OF assms(3)]
  have ok: "sn_id q = P" "split_ok q" using split_node_ok [OF assms(1,3)] by auto
  have ne: "k \<noteq> P" using assms(2,3) by auto
  note q = removeAt_ok [OF ok(2) assms(4-6)]
  have kr: "k \<noteq> ly_root s" using tree_edge [OF dock_wf_shape [OF w(3)], of P k] E assms(4) by simp
  have only: "edge (dock_view s) i k \<longleftrightarrow> i = P" for i
    using E assms(4) dock_wf_shape [OF w(3)] unfolding tree_shape_def by blast
  show "tree_shape (\<lambda>i. dock_view s i \<noteq> None \<and> i \<noteq> k) (\<lambda>i c. edge (dock_view s) i c \<and> c \<noteq> k) (ly_root s)"
    using leaf_edge [OF assms(2)] kr by (rule shape_drop_leaf [OF dock_wf_shape [OF w(3)]])
  show "sn_id x = i \<and> split_ok x" if "((dock_view s)(k := None, P := Some (Some q'))) i = Some (Some x)" for i x
    using that q(1) ok(1) dock_wf_split [OF w(3), of i x] by (auto simp: assms(7) split: if_splits)
  show "edge ((dock_view s)(k := None, P := Some (Some q'))) i c \<longleftrightarrow> edge (dock_view s) i c \<and> c \<noteq> k" for i c
    using q(2) E only [of i] ne leaf_edge [OF assms(2), of c] by (auto simp: edge_upd assms(7))
  show "((dock_view s)(k := None, P := Some (Some q'))) i \<noteq> None \<longleftrightarrow> dock_view s i \<noteq> None \<and> i \<noteq> k" for i
    using D ne by auto
qed

lemma merge_under_tree:
  assumes "layout_wf s" "node_at s k = Some (Pane_Node p)" "node_at s P = Some (Split_Node q)" "set (sn_children q) = {k, sib}"
    "k \<noteq> sib" "node_at s G = Some (Split_Node g)" "P \<in> set (sn_children g)"
  shows "dock_wf ((dock_view s)(G := Some (Some (swap_child P sib g)), k := None, P := None)) (ly_root s)"
    "k \<noteq> P" "G \<noteq> P" "G \<noteq> k"
proof -
  note w = layout_wfD [OF assms(1)] and E = edge_split [OF assms(3)] and EG = edge_split [OF assms(6)]
    and D = dock_view_split(1) [OF assms(3)] and DG = dock_view_split(1) [OF assms(6)]
  have ok: "sn_id g = G" "split_ok g" using split_node_ok [OF assms(1,6)] by auto
  have e: "edge (dock_view s) P k" "edge (dock_view s) P sib" "edge (dock_view s) G P" using E EG assms(4,7) by auto
  show ne: "k \<noteq> P" "G \<noteq> P" "G \<noteq> k"
    using assms(2,3,6) tree_edge [OF dock_wf_shape [OF w(3)] e(3)] by auto
  have sp: "sib \<noteq> P" using tree_edge [OF dock_wf_shape [OF w(3)] e(2)] by auto
  have only: "edge (dock_view s) i P \<longleftrightarrow> i = G" "edge (dock_view s) i k \<longleftrightarrow> i = P" "edge (dock_view s) i sib \<longleftrightarrow> i = P" for i
    using e dock_wf_shape [OF w(3)] unfolding tree_shape_def by blast+
  have "sib \<notin> set (sn_children g)" using only(3) [of G] ne(2) EG by simp
  note g = swap_child_ok [OF ok(2) assms(7) this]
  let ?D = "(dock_view s)(G := Some (Some (swap_child P sib g)), k := None, P := None)"
  show "dock_wf ?D (ly_root s)"
  proof (rule dock_wfI)
    show "tree_shape (\<lambda>i. dock_view s i \<noteq> None \<and> i \<noteq> k \<and> i \<noteq> P)
        (\<lambda>i c. edge (dock_view s) i c \<and> i \<noteq> P \<and> c \<noteq> P \<or> i = G \<and> c = sib) (ly_root s)"
      using E assms(4) by (intro shape_collapse [OF dock_wf_shape [OF w(3)] e(3) _ assms(5) leaf_edge [OF assms(2)]]) auto
    show "sn_id x = i \<and> split_ok x" if "?D i = Some (Some x)" for i x
      using that g(1) ok(1) dock_wf_split [OF w(3), of i x] by (auto split: if_splits)
    show "edge ?D i c \<longleftrightarrow> edge (dock_view s) i c \<and> i \<noteq> P \<and> c \<noteq> P \<or> i = G \<and> c = sib" for i c
      using g(2) EG only(1) [of i] ne sp leaf_edge [OF assms(2), of c] by (auto simp: edge_upd)
  qed (use D DG ne in auto)
qed

lemma merge_root_tree:
  assumes "layout_wf s" "node_at s k = Some (Pane_Node p)" "node_at s P = Some (Split_Node q)" "set (sn_children q) = {k, sib}"
    "k \<noteq> sib" "ly_root s = P"
  shows "dock_wf ((dock_view s)(k := None, P := None)) sib"
proof (rule dock_wfI)
  note w = layout_wfD [OF assms(1)] and E = edge_split [OF assms(3)]
  let ?D = "(dock_view s)(k := None, P := None)"
  show "tree_shape (\<lambda>i. dock_view s i \<noteq> None \<and> i \<noteq> k \<and> i \<noteq> ly_root s) (\<lambda>i c. edge (dock_view s) i c \<and> i \<noteq> ly_root s) sib"
    using E assms(4,6) by (intro shape_collapse_root [OF dock_wf_shape [OF w(3)] _ assms(5) leaf_edge [OF assms(2)]]) auto
  show "sn_id x = i \<and> split_ok x" if "?D i = Some (Some x)" for i x
    using that dock_wf_split [OF w(3), of i x] by (auto split: if_splits)
  show "edge ?D i c \<longleftrightarrow> edge (dock_view s) i c \<and> i \<noteq> ly_root s" for i c
    using leaf_edge [OF assms(2), of c] assms(6) by (auto simp: edge_upd)
  show "?D i \<noteq> None \<longleftrightarrow> dock_view s i \<noteq> None \<and> i \<noteq> k \<and> i \<noteq> ly_root s" for i using assms(6) by auto
qed

lemma merge_wf:
  assumes "layout_wf s" "applyMerge s k = Inr (s', undo)"
  shows "layout_wf s'"
  using assms
proof (cases rule: mergeE)
  case (child p P q ns s1)
  have ne: "k \<noteq> P" using child(1,4) by auto
  show ?thesis
    by (rule drop_pane_wf [OF assms(1) child(1-3,9)])
      (use layout_wfD(1) [OF assms(1)] ne pane_view_split(1) [OF child(4)] merge_child_tree [OF assms(1) child(1,4-7) refl] in
        \<open>simp_all add: child(8) upd_none\<close>)
next
  case (under p P q sib G g s1)
  note m = merge_under_tree [OF assms(1) under(1,4-8)]
  show ?thesis
    by (rule drop_pane_wf [OF assms(1) under(1-3,10)])
      (use layout_wfD(1) [OF assms(1)] m pane_view_split(1) [OF under(4)] pane_view_split(1) [OF under(7)] in
        \<open>simp_all add: under(9) upd_none fun_upd_twist\<close>)
next
  case (root p P q sib s1)
  have ne: "k \<noteq> P" using root(1,4) by auto
  show ?thesis
    by (rule drop_pane_wf [OF assms(1) root(1-3,9)])
      (use layout_wfD(1) [OF assms(1)] ne pane_view_split(1) [OF root(4)] merge_root_tree [OF assms(1) root(1,4-7)] in
        \<open>simp_all add: root(8) upd_none\<close>)
qed

section \<open>Recorded operations\<close>

text \<open>
  The operations the interaction layer dispatches: every kind but the two that only express inverses,
  a split never mints one identity for both the new pane and the new split, and a panel floats with a
  size. (\<open>float\<close> itself accepts an empty rectangle, and then a later resize cannot be undone.)
\<close>

fun user_op :: "layout_op \<Rightarrow> bool" where
  "user_op (Op_InsertPane _ _ _) = False"
| "user_op (Op_RestoreFocus _ _ _) = False"
| "user_op (Op_Split _ _ _ new N) = (new \<noteq> N)"
| "user_op (Op_Float _ _ r) = rect_ok r"
| "user_op _ = True"

lemmas operation_wf = split_wf merge_wf openTab_wf insertTab_wf closeTab_wf moveTab_wf reorderTab_wf focusTab_wf
  focusPane_wf resize_wf float_wf unfloat_wf moveFloat_wf resizeFloat_wf

lemma applyOp_wf:
  assumes "layout_wf s" "user_op op" "applyOp s op = Inr (s', undo)"
  shows "layout_wf s'"
proof (cases op)
  case (Op_SetExpanded b)
  then show ?thesis using assms by (auto simp: layout_wf_def)
next
  case (Op_SetMode m)
  then show ?thesis using assms by (auto simp: layout_wf_def)
qed (insert assms, simp_all, (rule operation_wf; assumption)+)

end
