(* ===== verification/Dock_Undo.thy ===== *)
theory Dock_Undo
  imports Dock_Preserve
begin

text \<open>
  Undo is exact: on a well-formed layout, applying the inverse an operation recorded gives the layout
  back, up to the order of the keys of its records (which nothing in the kit reads).
\<close>

section \<open>The same layout\<close>

definition layout_eq :: "layout_state \<Rightarrow> layout_state \<Rightarrow> bool" where
  "layout_eq s t \<longleftrightarrow> node_at s = node_at t \<and> tab_at s = tab_at t \<and> ly_root s = ly_root t
     \<and> ly_floats s = ly_floats t \<and> ly_active s = ly_active t \<and> ly_expanded s = ly_expanded t \<and> ly_mode s = ly_mode t"

lemma layout_eq_refl [simp]: "layout_eq s s" and layout_eq_sym: "layout_eq s t \<Longrightarrow> layout_eq t s"
  and layout_eq_trans [trans]: "layout_eq s t \<Longrightarrow> layout_eq t u \<Longrightarrow> layout_eq s u"
  by (simp_all add: layout_eq_def)

lemma nodes_with [simp]:
  "node_at (withNodes s [(k, x)]) = (node_at s)(k := x)"
  "node_at (withNodes s [(k, x), (l, y)]) = (node_at s)(k := x, l := y)"
  by (auto simp: fun_eq_iff)

section \<open>Restoring focus\<close>

lemma floats_are_floating:
  "layout_wf s \<Longrightarrow> i \<in> set (ly_floats s) \<Longrightarrow> \<exists>p. node_at s i = Some (Pane_Node p) \<and> pn_host p = Host_Float"
  using layout_wfD(5) [of s] by (auto simp: focus_wf_def pane_view_def pane_of_Some)

lemma active_is_pane: "layout_wf s \<Longrightarrow> \<exists>p. node_at s (ly_active s) = Some (Pane_Node p)"
  using layout_wfD(5) [of s] by (auto simp: focus_wf_def pane_view_def pane_of_Some)

lemma floats_checked:
  assumes "\<And>i. i \<in> set fl \<Longrightarrow> \<exists>p. node_at t i = Some (Pane_Node p) \<and> pn_host p = Host_Float"
  shows "fold_res (\<lambda>_ i. rbind (getPane t i) (\<lambda>p. require (pn_host p = Host_Float) (Focus_Lists_Docked i))) () fl = Inr ()"
  using assms
proof (induction fl)
  case (Cons i fl)
  obtain p where "getPane t i = Inr p" "pn_host p = Host_Float" using Cons.prems [of i] by (auto simp: getPane_eq)
  then show ?case using Cons by (simp add: require_def)
qed simp

lemma restored_0:
  assumes "layout_wf s" "node_at t = node_at s" "tab_at t = tab_at s" "ly_root t = ly_root s"
    "ly_expanded t = ly_expanded s" "ly_mode t = ly_mode s"
  shows "\<exists>t' u. applyOp t (restore s []) = Inr (t', u) \<and> layout_eq t' s"
proof -
  obtain a where a: "getPane t (ly_active s) = Inr a" using active_is_pane [OF assms(1)] assms(2) by (auto simp: getPane_eq)
  have "fold_res (\<lambda>_ i. rbind (getPane t i) (\<lambda>p. require (pn_host p = Host_Float) (Focus_Lists_Docked i))) () (ly_floats s) = Inr ()"
    using floats_are_floating [OF assms(1)] assms(2) by (intro floats_checked) simp
  then show ?thesis using a assms(2-6)
    by (simp add: applyRestoreFocus_def amap_keys_def focusSnapshot_simps layout_eq_def)
qed

lemma restored_1:
  assumes "layout_wf s" "node_at s k = Some (Pane_Node p)" "node_at t = (node_at s)(k := Some (Pane_Node (p\<lparr>pn_active := x\<rparr>)))"
    "tab_at t = tab_at s" "ly_root t = ly_root s" "ly_expanded t = ly_expanded s" "ly_mode t = ly_mode s"
  shows "\<exists>t' u. applyOp t (restore s [(k, pn_active p)]) = Inr (t', u) \<and> layout_eq t' s"
proof -
  let ?t = "withNodes t [(k, Some (Pane_Node p))]"
  have n: "node_at ?t = node_at s" using assms(2,3) by (simp add: fun_upd_idem)
  obtain a where a: "getPane ?t (ly_active s) = Inr a"
    using active_is_pane [OF assms(1)] unfolding getPane_eq n by blast
  have k: "getPane t k = Inr (p\<lparr>pn_active := x\<rparr>)" using assms(3) by (simp add: getPane_eq)
  have "\<exists>q. node_at t i = Some (Pane_Node q) \<and> pn_host q = Host_Float" if "i \<in> set (ly_floats s)" for i
    using floats_are_floating [OF assms(1) that] assms(2,3) by (cases "i = k") auto
  then have "fold_res (\<lambda>_ i. rbind (getPane t i) (\<lambda>p. require (pn_host p = Host_Float) (Focus_Lists_Docked i))) () (ly_floats s) = Inr ()"
    by (rule floats_checked)
  moreover have "p\<lparr>pn_active := pn_active p\<rparr> = p" by simp
  ultimately show ?thesis using a k n assms(4-7)
    by (simp add: applyRestoreFocus_def amap_keys_def focusSnapshot_simps layout_eq_def)
qed

lemma restored_2:
  assumes "layout_wf s" "node_at s j = Some (Pane_Node p)" "node_at s k = Some (Pane_Node q)" "j \<noteq> k"
    "node_at t = (node_at s)(j := Some (Pane_Node (p\<lparr>pn_active := x\<rparr>)), k := Some (Pane_Node (q\<lparr>pn_active := y\<rparr>)))"
    "tab_at t = tab_at s" "ly_root t = ly_root s" "ly_expanded t = ly_expanded s" "ly_mode t = ly_mode s"
  shows "\<exists>t' u. applyOp t (restore s [(j, pn_active p), (k, pn_active q)]) = Inr (t', u) \<and> layout_eq t' s"
proof -
  let ?t = "withNodes (withNodes t [(j, Some (Pane_Node p))]) [(k, Some (Pane_Node q))]"
  have n: "node_at ?t = node_at s" using assms(2-5) by (auto simp: fun_eq_iff)
  obtain a where a: "getPane ?t (ly_active s) = Inr a"
    using active_is_pane [OF assms(1)] unfolding getPane_eq n by blast
  have k: "getPane t j = Inr (p\<lparr>pn_active := x\<rparr>)" "getPane t k = Inr (q\<lparr>pn_active := y\<rparr>)"
    "getPane (withNodes t [(j, Some (Pane_Node p))]) k = Inr (q\<lparr>pn_active := y\<rparr>)"
    using assms(4,5) by (simp_all add: getPane_eq)
  have "\<exists>q. node_at t i = Some (Pane_Node q) \<and> pn_host q = Host_Float" if "i \<in> set (ly_floats s)" for i
    using floats_are_floating [OF assms(1) that] assms(2-5) by (cases "i = k"; cases "i = j") auto
  then have "fold_res (\<lambda>_ i. rbind (getPane t i) (\<lambda>p. require (pn_host p = Host_Float) (Focus_Lists_Docked i))) () (ly_floats s) = Inr ()"
    by (rule floats_checked)
  moreover have "p\<lparr>pn_active := pn_active p\<rparr> = p" "q\<lparr>pn_active := pn_active q\<rparr> = q" by simp_all
  ultimately show ?thesis using a k n assms(4,6-9)
    by (simp add: applyRestoreFocus_def amap_keys_def focusSnapshot_simps layout_eq_def)
qed

definition undone :: "layout_state \<Rightarrow> layout_op list \<Rightarrow> layout_state \<Rightarrow> bool" where
  "undone s' ops s \<longleftrightarrow> (\<exists>t. replay s' ops = Inr t \<and> layout_eq t s)"

lemma undone_one: "applyOp s' a = Inr (t, u) \<Longrightarrow> layout_eq t s \<Longrightarrow> undone s' [a] s"
  by (simp add: undone_def replay_def)

lemma undone_two: "applyOp s' a = Inr (t, u) \<Longrightarrow> \<exists>t' u. applyOp t b = Inr (t', u) \<and> layout_eq t' s \<Longrightarrow> undone s' [a, b] s"
  by (auto simp: undone_def replay_def)

section \<open>Tabs\<close>

lemma openTab_undone:
  assumes "layout_wf s" "applyOpenTab s k tab n = Inr (s', undo)"
  shows "undone s' undo s"
  using assms
proof (cases rule: openTabE)
  case (1 p)
  let ?t = "tb_id tab"
  let ?q = "paneWithTabs p (insertAt (pn_tabs p) n ?t) (Some ?t)"
  have w': "layout_wf s'" using assms by (rule openTab_wf)
  note ok = pane_node_ok [OF assms(1) 1(1)]
  have d: "distinct (pn_tabs p)" "?t \<notin> set (pn_tabs p)"
    using ok(2) ok(3) [of ?t] 1(3) by (simp add: pane_ok_def, blast)
  have k: "node_at s' k = Some (Pane_Node ?q)" using 1(4) by simp
  have f: "findTabPane s' ?t = Inr ?q" using k ok(1) by (simp add: findTabPane_eq [OF w'])
  have g: "getTab s' ?t = Inr tab" using 1(4) by (simp add: getTab_eq)
  define t where "t = withTabs (withNodes s' [(k, Some (Pane_Node (paneWithTabs ?q (pn_tabs p)
    (active_without ?q ?t (position (pn_tabs ?q) ?t)))))]) [(?t, None)]"
  have "focusSnapshot s' [k] = Inr (restore s' [(k, pn_active ?q)])" using k by (intro focusSnapshot_simps) (simp add: getPane_eq)
  then have "\<exists>u. applyOp s' (Op_CloseTab ?t) = Inr (t, u)"
    using f g d ok(1) 1(2) by (simp add: applyCloseTab_def Let_def removeAt_insertAt t_def)
  moreover have "\<exists>t' u. applyOp t (restore s [(k, pn_active p)]) = Inr (t', u) \<and> layout_eq t' s"
  proof (rule restored_1 [OF assms(1) 1(1)])
    show "node_at t = (node_at s)(k := Some (Pane_Node (p\<lparr>pn_active := active_without ?q ?t (position (pn_tabs ?q) ?t)\<rparr>)))"
      using 1(4) by (simp add: t_def paneWithTabs_def)
    show "tab_at t = tab_at s" using 1(3,4) by (simp add: t_def fun_upd_idem)
  qed (simp_all add: t_def 1(4))
  ultimately show ?thesis unfolding 1(5) using undone_two by blast
qed

lemma insertTab_undone:
  assumes "layout_wf s" "applyInsertTab s k tab n = Inr (s', undo)"
  shows "undone s' undo s"
  using assms
proof (cases rule: insertTabE)
  case (1 p)
  let ?t = "tb_id tab"
  let ?a = "case pn_active p of None \<Rightarrow> Some (tb_id tab) | Some x \<Rightarrow> Some x"
  let ?q = "paneWithTabs p (insertAt (pn_tabs p) n ?t) ?a"
  have w': "layout_wf s'" using assms by (rule insertTab_wf)
  note ok = pane_node_ok [OF assms(1) 1(1)]
  have d: "distinct (pn_tabs p)" "?t \<notin> set (pn_tabs p)"
    using ok(2) ok(3) [of ?t] 1(3) by (simp add: pane_ok_def, blast)
  have k: "node_at s' k = Some (Pane_Node ?q)" using 1(4) by simp
  have f: "findTabPane s' ?t = Inr ?q" using k ok(1) by (simp add: findTabPane_eq [OF w'])
  have g: "getTab s' ?t = Inr tab" using 1(4) by (simp add: getTab_eq)
  define t where "t = withTabs (withNodes s' [(k, Some (Pane_Node (paneWithTabs ?q (pn_tabs p)
    (active_without ?q ?t (position (pn_tabs ?q) ?t)))))]) [(?t, None)]"
  have "focusSnapshot s' [k] = Inr (restore s' [(k, pn_active ?q)])" using k by (intro focusSnapshot_simps) (simp add: getPane_eq)
  then have "\<exists>u. applyOp s' (Op_CloseTab ?t) = Inr (t, u)"
    using f g d ok(1) 1(2) by (simp add: applyCloseTab_def Let_def removeAt_insertAt t_def)
  moreover have "\<exists>t' u. applyOp t (restore s [(k, pn_active p)]) = Inr (t', u) \<and> layout_eq t' s"
  proof (rule restored_1 [OF assms(1) 1(1)])
    show "node_at t = (node_at s)(k := Some (Pane_Node (p\<lparr>pn_active := active_without ?q ?t (position (pn_tabs ?q) ?t)\<rparr>)))"
      using 1(4) by (simp add: t_def paneWithTabs_def)
    show "tab_at t = tab_at s" using 1(3,4) by (simp add: t_def fun_upd_idem)
  qed (simp_all add: t_def 1(4))
  ultimately show ?thesis unfolding 1(5) using undone_two by blast
qed

lemma closeTab_undone:
  assumes "layout_wf s" "applyCloseTab s t = Inr (s', undo)"
  shows "undone s' undo s"
  using assms
proof (cases rule: closeTabE)
  case (docked tab k p)
  let ?n = "position (pn_tabs p) t"
  let ?q = "paneWithTabs p (removeAt (pn_tabs p) ?n) (active_without p t ?n)"
  note ok = pane_node_ok [OF assms(1) docked(3)]
  let ?a = "case active_without p t ?n of None \<Rightarrow> Some (tb_id tab) | Some x \<Rightarrow> Some x"
  have k: "node_at s' k = Some (Pane_Node ?q)" "tab_at s' t = None" using docked(6) by simp_all
  define u where "u = withNodes (withTabs s' [(t, Some tab)]) [(k, Some (Pane_Node (paneWithTabs ?q (pn_tabs p) ?a)))]"
  have "focusSnapshot s' [k] = Inr (restore s' [(k, pn_active ?q)])" using k by (intro focusSnapshot_simps) (simp add: getPane_eq)
  moreover have "getPane s' k = Inr ?q" using k by (simp add: getPane_eq)
  ultimately have "\<exists>v. applyOp s' (Op_InsertTab k tab (int ?n)) = Inr (u, v)"
    using k ok(1) docked(2,5) insertAt_removeAt [OF docked(4)]
    by (simp add: applyInsertTab_def Let_def u_def assertFreeTab_def require_def)
  moreover have "\<exists>t' v. applyOp u (restore s [(k, pn_active p)]) = Inr (t', v) \<and> layout_eq t' s"
  proof (rule restored_1 [OF assms(1) docked(3)])
    show "node_at u = (node_at s)(k := Some (Pane_Node (p\<lparr>pn_active := ?a\<rparr>)))"
      using docked(6) by (simp add: u_def paneWithTabs_def)
    show "tab_at u = tab_at s" using docked(1,6) by (simp add: u_def fun_upd_idem)
  qed (simp_all add: u_def docked(6))
  ultimately show ?thesis unfolding docked(7) using undone_two by blast
next
  case (floating tab k p s1)
  let ?n = "position (ly_floats s) k"
  note ok = pane_node_ok [OF assms(1) floating(3)]
  have p: "pn_tabs p = [t]" using ok(2) floating(4,5) unfolding pane_ok_def by (cases "pn_tabs p") auto
  obtain a where a: "s' = s1\<lparr>ly_active := a\<rparr>" using reseatFocus_eq [OF floating(8)] by blast
  define u where "u = (withNodes (withTabs s' [(t, Some tab)]) [(k, Some (Pane_Node p))])\<lparr>ly_floats := ly_floats s\<rparr>"
  have "assertFreeNode s' k = Inr ()" "assertFreeTab s' t = Inr ()"
    using a floating(7) by (simp_all add: assertFreeNode_def assertFreeTab_def require_def)
  then have "\<exists>v. applyOp s' (Op_InsertPane p [tab] (Attach_Float (int ?n))) = Inr (u, v)"
    using a floating(2,5,7) ok(1) p insertAt_removeAt [OF floating(6)]
    by (simp add: applyInsertPane_def focusSnapshot_simps require_def Let_def u_def)
  moreover have "\<exists>t' v. applyOp u (restore s [(k, pn_active p)]) = Inr (t', v) \<and> layout_eq t' s"
  proof (rule restored_1 [OF assms(1) floating(3)])
    show "node_at u = (node_at s)(k := Some (Pane_Node (p\<lparr>pn_active := pn_active p\<rparr>)))"
      using a floating(3,7) by (simp add: u_def fun_upd_idem)
    show "tab_at u = tab_at s" using a floating(1,7) by (simp add: u_def fun_upd_idem)
  qed (simp_all add: u_def a floating(7))
  ultimately show ?thesis unfolding floating(9) using undone_two by blast
qed

lemma moveTab_undone:
  assumes "layout_wf s" "applyMoveTab s t k n = Inr (s', undo)"
  shows "undone s' undo s"
  using assms
proof (cases rule: moveTabE)
  case (1 j p q)
  let ?n = "position (pn_tabs p) t"
  let ?p = "paneWithTabs p (removeAt (pn_tabs p) ?n) (active_without p t ?n)"
  let ?q = "paneWithTabs q (insertAt (pn_tabs q) n t) (Some t)"
  have w': "layout_wf s'" using assms by (rule moveTab_wf)
  note okp = pane_node_ok [OF assms(1) 1(1)] and okq = pane_node_ok [OF assms(1) 1(4)]
  have tq: "t \<notin> set (pn_tabs q)" "distinct (pn_tabs q)"
    using one_tab_pane [OF assms(1) 1(1,4,2)] 1(6) okq(2) by (auto simp: pane_ok_def)
  have nd: "node_at s' k = Some (Pane_Node ?q)" "node_at s' j = Some (Pane_Node ?p)" using 1(6,7) by simp_all
  have f: "findTabPane s' t = Inr ?q" using nd(1) okq(1) by (simp add: findTabPane_eq [OF w'])
  have g: "getPane s' j = Inr ?p" "getPane s' k = Inr ?q" using nd by (simp_all add: getPane_eq)
  let ?a = "active_without ?q t (position (pn_tabs ?q) t)"
  define u where "u = (withNodes s' [(k, Some (Pane_Node (paneWithTabs ?q (pn_tabs q) ?a))),
    (j, Some (Pane_Node (paneWithTabs ?p (pn_tabs p) (Some t))))])\<lparr>ly_active := j\<rparr>"
  have "focusSnapshot s' [k, j] = Inr (restore s' [(k, pn_active ?q), (j, pn_active ?p)])"
    using 1(6) by (intro focusSnapshot_simps(3) g) simp
  then have "\<exists>v. applyOp s' (Op_MoveTab t j (int ?n)) = Inr (u, v)"
    using f g okp(1) okq(1) 1(3,5,6) tq insertAt_removeAt [OF 1(2)]
    by (simp add: applyMoveTab_def Let_def require_def removeAt_insertAt u_def)
  moreover have "\<exists>t' v. applyOp u (restore s [(j, pn_active p), (k, pn_active q)]) = Inr (t', v) \<and> layout_eq t' s"
  proof (rule restored_2 [OF assms(1) 1(1,4)])
    show "node_at u = (node_at s)(j := Some (Pane_Node (p\<lparr>pn_active := Some t\<rparr>)), k := Some (Pane_Node (q\<lparr>pn_active := ?a\<rparr>)))"
      using 1(6,7) by (auto simp: u_def paneWithTabs_def fun_eq_iff)
  qed (use 1(6,7) in \<open>simp_all add: u_def\<close>)
  ultimately show ?thesis unfolding 1(8) using undone_two by blast
qed

lemma reorderTab_undone:
  assumes "layout_wf s" "applyReorderTab s t n = Inr (s', undo)"
  shows "undone s' undo s"
  using assms
proof (cases rule: reorderTabE)
  case (1 k p)
  let ?n = "position (pn_tabs p) t"
  let ?q = "p\<lparr>pn_tabs := insertAt (removeAt (pn_tabs p) ?n) n t\<rparr>"
  have w': "layout_wf s'" using assms by (rule reorderTab_wf)
  note ok = pane_node_ok [OF assms(1) 1(1)]
  have d: "distinct (pn_tabs p)" using ok(2) by (simp add: pane_ok_def)
  have r: "removeAt (pn_tabs p) ?n = filter (\<lambda>y. y \<noteq> t) (pn_tabs p)" using d 1(2) by (rule removeAt_position)
  have same: "removeAt (pn_tabs ?q) (position (pn_tabs ?q) t) = removeAt (pn_tabs p) ?n"
    using d by (simp add: r removeAt_insertAt)
  have "node_at s' k = Some (Pane_Node ?q)" using 1(3) by simp
  then have "findTabPane s' t = Inr ?q" using ok(1) by (simp add: findTabPane_eq [OF w'])
  then have "\<exists>v. applyOp s' (Op_ReorderTab t (int ?n)) = Inr (withNodes s' [(k, Some (Pane_Node p))], v)"
    using same insertAt_removeAt [OF 1(2)] ok(1) by (simp add: applyReorderTab_def Let_def)
  moreover have "layout_eq (withNodes s' [(k, Some (Pane_Node p))]) s"
    using 1(1,3) by (simp add: layout_eq_def fun_upd_idem)
  ultimately show ?thesis unfolding 1(4) using undone_one by blast
qed

section \<open>Focus, sizes and floating panes\<close>

lemma focusTab_undone:
  assumes "layout_wf s" "applyFocusTab s t = Inr (s', undo)"
  shows "undone s' undo s"
  using assms
proof (cases rule: focusTabE)
  case (1 k p)
  have "\<exists>t' v. applyOp s' (restore s [(k, pn_active p)]) = Inr (t', v) \<and> layout_eq t' s"
    by (rule restored_1 [OF assms(1) 1(1)]) (simp_all add: 1(3))
  then show ?thesis unfolding 1(4) using undone_one by blast
qed

lemma focusPane_undone:
  assumes "layout_wf s" "applyFocusPane s k = Inr (s', undo)"
  shows "undone s' undo s"
  using assms
proof (cases rule: focusPaneE)
  case (1 p)
  have "\<exists>t' v. applyOp s' (restore s []) = Inr (t', v) \<and> layout_eq t' s"
    by (rule restored_0 [OF assms(1)]) (simp_all add: 1(2))
  then show ?thesis unfolding 1(3) using undone_one by blast
qed

lemma resize_applies:
  assumes "node_at t k = Some (Split_Node q)" "sn_id q = k" "length zs = length (sn_children q)" "sizes_ok zs"
  shows "\<exists>v. applyOp t (Op_Resize k zs) = Inr (withNodes t [(k, Some (Split_Node (q\<lparr>sn_sizes := zs\<rparr>)))], v)"
proof -
  have "getSplit t k = Inr q" using assms(1) by (simp add: getSplit_eq)
  then show ?thesis
    using assms(2-4) normalizeSizes_id [OF assms(4)]
    by (simp add: applyResize_def require_def list_all_iff sizes_ok_def)
qed

lemma resize_undone:
  assumes "layout_wf s" "applyResize s k zs = Inr (s', undo)"
  shows "undone s' undo s"
  using assms
proof (cases rule: resizeE)
  case (1 q ns)
  let ?q = "q\<lparr>sn_sizes := ns\<rparr>"
  have ok: "sn_id q = k" "split_ok q" using split_node_ok [OF assms(1) 1(1)] by auto
  have "\<exists>v. applyOp s' (Op_Resize k (sn_sizes q)) = Inr (withNodes s' [(k, Some (Split_Node (?q\<lparr>sn_sizes := sn_sizes q\<rparr>)))], v)"
    using ok 1(5) by (intro resize_applies) (simp_all add: split_ok_def)
  moreover have "layout_eq (withNodes s' [(k, Some (Split_Node (?q\<lparr>sn_sizes := sn_sizes q\<rparr>)))]) s"
    using 1(1,5) by (simp add: layout_eq_def fun_upd_idem)
  ultimately show ?thesis unfolding 1(6) using undone_one by blast
qed

lemma reshape_undone:
  assumes "layout_wf s" "node_at s k = Some (Pane_Node p)" "pn_host p = Host_Float" "pn_rect p = Some rect"
    "s' = (withNodes s [(k, Some (Pane_Node (p\<lparr>pn_rect := Some r\<rparr>)))])\<lparr>ly_active := k, ly_floats := fl\<rparr>"
  shows "getPane s' k = Inr (p\<lparr>pn_rect := Some r\<rparr>)" "floatRect (p\<lparr>pn_rect := Some r\<rparr>) = Inr r"
    "\<exists>t' v. applyOp (reshapeFloat s' (p\<lparr>pn_rect := Some r\<rparr>) rect) (restore s []) = Inr (t', v) \<and> layout_eq t' s"
proof -
  note ok = pane_node_ok [OF assms(1,2)]
  show "getPane s' k = Inr (p\<lparr>pn_rect := Some r\<rparr>)" using assms(5) by (simp add: getPane_eq)
  show "floatRect (p\<lparr>pn_rect := Some r\<rparr>) = Inr r" using assms(3) by (simp add: floatRect_eq)
  have "p\<lparr>pn_rect := Some rect\<rparr> = p" using assms(4) by (cases p) simp
  then show "\<exists>t' v. applyOp (reshapeFloat s' (p\<lparr>pn_rect := Some r\<rparr>) rect) (restore s []) = Inr (t', v) \<and> layout_eq t' s"
    using assms(2,5) ok(1) by (intro restored_0 [OF assms(1)]) (simp_all add: reshapeFloat_def Let_def fun_upd_idem)
qed

lemma moveFloat_undone:
  assumes "layout_wf s" "applyMoveFloat s k x y = Inr (s', undo)"
  shows "undone s' undo s"
  using assms
proof (cases rule: moveFloatE)
  case (1 p rect)
  let ?r = "rect\<lparr>fr_x := x, fr_y := y\<rparr>"
  note r = reshape_undone [OF assms(1) 1(1-4)]
  have "?r\<lparr>fr_x := fr_x rect, fr_y := fr_y rect\<rparr> = rect" by (cases rect) simp
  then have "\<exists>v. applyOp s' (Op_MoveFloat k (fr_x rect) (fr_y rect)) = Inr (reshapeFloat s' (p\<lparr>pn_rect := Some ?r\<rparr>) rect, v)"
    using r(1,2) by (simp add: applyMoveFloat_def focusSnapshot_simps)
  then show ?thesis unfolding 1(5) using undone_two r(3) by blast
qed

lemma resizeFloat_undone:
  assumes "layout_wf s" "applyResizeFloat s k new = Inr (s', undo)"
  shows "undone s' undo s"
  using assms
proof (cases rule: resizeFloatE)
  case (1 p rect)
  note r = reshape_undone [OF assms(1) 1(1-3) 1(6)]
  have "0 < fr_width rect \<and> 0 < fr_height rect" using pane_node_ok(2) [OF assms(1) 1(1)] 1(3) by (simp add: pane_ok_def rect_ok_def)
  then have "\<exists>v. applyOp s' (Op_ResizeFloat k rect) = Inr (reshapeFloat s' (p\<lparr>pn_rect := Some new\<rparr>) rect, v)"
    using r(1,2) by (simp add: applyResizeFloat_def focusSnapshot_simps require_def)
  then show ?thesis unfolding 1(7) using undone_two r(3) by blast
qed

lemma float_undone:
  assumes "layout_wf s" "applyFloat s t k rect = Inr (s', undo)"
  shows "undone s' undo s"
  using assms
proof (cases rule: floatE)
  case (1 j p)
  let ?n = "position (pn_tabs p) t"
  let ?p = "paneWithTabs p (removeAt (pn_tabs p) ?n) (active_without p t ?n)"
  let ?f = "floating_pane k t rect"
  note ok = pane_node_ok [OF assms(1) 1(1)]
  have fl: "k \<notin> set (ly_floats s)" "distinct (ly_floats s)"
    using floats_are_floating [OF assms(1), of k] 1(4) layout_wfD(5) [OF assms(1)] by (auto simp: focus_wf_def)
  have g: "getPane s' k = Inr ?f" "getPane s' j = Inr ?p" using 1(5,6) by (simp_all add: getPane_eq)
  have f: "floatRect ?f = Inr rect" "onlyTabId ?f = Inr t" by (simp_all add: floatRect_eq onlyTabId_eq floating_pane_def)
  have z: "floatIndex s' k = Inr (position (ly_floats s @ [k]) k)" using 1(6) by (simp add: floatIndex_eq)
  have drop: "removeAt (ly_floats s @ [k]) (position (ly_floats s @ [k]) k) = ly_floats s"
    using fl by (subst removeAt_position) (auto simp: filter_id_conv)
  have tabs: "insertAt (removeAt (pn_tabs p) ?n) (int ?n) t = pn_tabs p" using 1(2) by (rule insertAt_removeAt)
  define u where "u = (withNodes s' [(k, None), (j, Some (Pane_Node (paneWithTabs ?p (pn_tabs p) (Some t))))])
    \<lparr>ly_floats := ly_floats s, ly_active := j\<rparr>"
  have fs: "focusSnapshot s' [j] = Inr (restore s' [(j, pn_active ?p)])" using g(2) by (rule focusSnapshot_simps(2))
  have "\<exists>v. applyOp s' (Op_Unfloat k j (int ?n)) = Inr (u, v)"
    using g f z fs ok(1) 1(3) drop tabs by (simp add: applyUnfloat_def require_def Let_def u_def 1(6))
  moreover have "\<exists>t' v. applyOp u (restore s [(j, pn_active p)]) = Inr (t', v) \<and> layout_eq t' s"
  proof (rule restored_1 [OF assms(1) 1(1)])
    show "node_at u = (node_at s)(j := Some (Pane_Node (p\<lparr>pn_active := Some t\<rparr>)))"
      using 1(4-6) by (auto simp: u_def paneWithTabs_def fun_eq_iff)
  qed (simp_all add: u_def 1(6))
  ultimately show ?thesis unfolding 1(7) using undone_two by blast
qed

lemma unfloat_undone:
  assumes "layout_wf s" "applyUnfloat s k j n = Inr (s', undo)"
  shows "undone s' undo s"
  using assms
proof (cases rule: unfloatE)
  case (1 p q rect t)
  let ?q = "paneWithTabs q (insertAt (pn_tabs q) n t) (Some t)"
  have w': "layout_wf s'" using assms by (rule unfloat_wf)
  note okp = pane_node_ok [OF assms(1) 1(1)] and okq = pane_node_ok [OF assms(1) 1(5)]
  have tq: "t \<notin> set (pn_tabs q)" "distinct (pn_tabs q)"
    using one_tab_pane [OF assms(1) 1(1,5), of t] 1(4,7) okq(2) by (auto simp: pane_ok_def)
  have p: "p = floating_pane k t rect"
    using okp(1,2) 1(2-4) by (cases p) (auto simp: pane_ok_def floating_pane_def)
  obtain tab where tab: "getTab s' t = Inr tab" using okp(3) [of t] 1(4,9) by (auto simp: getTab_eq)
  have nd: "node_at s' j = Some (Pane_Node ?q)" "node_at s' k = None" using 1(7,9) by simp_all
  have f: "findTabPane s' t = Inr ?q" using nd(1) okq(1) by (simp add: findTabPane_eq [OF w'])
  have fs: "focusSnapshot s' [j] = Inr (restore s' [(j, pn_active ?q)])"
    using nd(1) by (intro focusSnapshot_simps) (simp add: getPane_eq)
  let ?a = "active_without ?q t (position (pn_tabs ?q) t)"
  define u where "u = (withNodes s' [(j, Some (Pane_Node (paneWithTabs ?q (pn_tabs q) ?a))),
    (k, Some (Pane_Node p))])\<lparr>ly_floats := ly_floats s' @ [k], ly_active := k\<rparr>"
  have "\<exists>v. applyOp s' (Op_Float t k rect) = Inr (u, v)"
    using tab f fs nd(2) okq(1) 1(6) tq
    by (simp add: applyFloat_def assertFreeNode_def require_def Let_def removeAt_insertAt u_def p)
  moreover have "\<exists>t' v. applyOp u (restore s [(j, pn_active q)]) = Inr (t', v) \<and> layout_eq t' s"
  proof (rule restored_1 [OF assms(1) 1(5)])
    show "node_at u = (node_at s)(j := Some (Pane_Node (q\<lparr>pn_active := ?a\<rparr>)))"
      using 1(1,7,9) by (auto simp: u_def paneWithTabs_def fun_eq_iff)
  qed (simp_all add: u_def 1(9))
  ultimately show ?thesis unfolding 1(10) using undone_two by blast
qed

section \<open>Splitting and merging\<close>

lemma swap_back: "b \<notin> set (sn_children q) \<Longrightarrow> swap_child b a (swap_child a b q) = q"
proof -
  assume "b \<notin> set (sn_children q)"
  then have "map (\<lambda>c. if c = b then a else c) (map (\<lambda>c. if c = a then b else c) (sn_children q)) = sn_children q"
    by (induction "sn_children q") (auto intro: map_idI)
  then show ?thesis by (cases q) simp
qed

lemma split_undone:
  assumes "layout_wf s" "applySplit s k axis dir new N = Inr (s', undo)" "new \<noteq> N"
  shows "undone s' undo s"
proof -
  have w': "layout_wf s'" using assms by (rule split_wf)
  have act: "ly_active s \<noteq> new" if "node_at s new = None" using active_is_pane [OF assms(1)] that by auto
  have D: "tree_shape (\<lambda>i. dock_view s i \<noteq> None) (edge (dock_view s)) (ly_root s)"
    using layout_wfD(3) [OF assms(1)] by (rule dock_wf_shape)
  show ?thesis
    using assms(1,2)
  proof (cases rule: splitE)
    case (same p P q n)
    let ?ch = "insertAt (sn_children q) (int (if dir = Side_After then n + 1 else n)) new"
    let ?q = "q\<lparr>sn_children := ?ch, sn_sizes := halved (sn_sizes q) n\<rparr>"
    have ok: "sn_id q = P" "split_ok q" using split_node_ok [OF assms(1) same(4)] by auto
    have ne: "P \<noteq> new" using same(3,4) by auto
    have nd: "node_at s' P = Some (Split_Node ?q)" "node_at s' new = Some (Pane_Node (emptyDockPane new))"
      using ne same(7) by simp_all
    have new: "new \<notin> set (sn_children q)" "distinct (sn_children q)"
      using tree_edge [OF D, of P new] edge_split [OF same(4)] dock_view_split(2) [OF same(3)] ok(2) by (auto simp: split_ok_def)
    have fp: "findParent s' new = Some ?q" using nd(1) ok(1) by (simp add: findParent_Some [OF w'])
    let ?m = "position ?ch new"
    have len: "2 < length ?ch" using ok(2) by (simp add: split_ok_def)
    have sz: "split_ok ?q" using split_node_ok [OF w' nd(1)] by simp
    have m: "?m < length (halved (sn_sizes q) n)" using position_less [of new ?ch] sz by (simp add: split_ok_def)
    then have "removeAt (halved (sn_sizes q) n) ?m \<noteq> []" "\<forall>x \<in> set (removeAt (halved (sn_sizes q) n) ?m). 0 < x"
      using sz len length_removeAt [OF m]
      by (auto simp: split_ok_def sizes_ok_def removeAt_def dest: in_set_takeD in_set_dropD)
    then obtain ns where ns: "normalizeSizes (removeAt (halved (sn_sizes q) n) ?m) = Inr ns" using normalizeSizes_total by blast
    define t where "t = withNodes s' [(new, None), (P, Some (Split_Node (q\<lparr>sn_sizes := ns\<rparr>)))]"
    have "reseatFocus t new = Inr t" using act [OF same(3)] same(7) by (simp add: reseatFocus_def t_def)
    then have a: "\<exists>v. applyOp s' (Op_Merge new) = Inr (t, v)"
      using nd(2) fp ns len ok(1) removeAt_insertAt [OF new(2,1)]
      by (simp add: applyMerge_def getPane_eq [THEN iffD2] empty_ok require_def focusSnapshot_simps Let_def t_def)
    let ?t = "withNodes t [(P, Some (Split_Node (q\<lparr>sn_sizes := ns, sn_sizes := sn_sizes q\<rparr>)))]"
    have "\<exists>v. applyOp t (Op_Resize P (sn_sizes q)) = Inr (?t, v)"
      using ok resize_applies [of t P "q\<lparr>sn_sizes := ns\<rparr>" "sn_sizes q"] ne by (simp add: t_def split_ok_def)
    moreover have "layout_eq ?t s" using same(3,4,7) ne by (auto simp: layout_eq_def t_def fun_eq_iff)
    ultimately show ?thesis unfolding same(8) using a undone_two by blast
  next
    case (under p P q)
    let ?n = "new_split N axis dir k new"
    have ok: "sn_id q = P" using split_node_ok [OF assms(1) under(5)] by auto
    have ne: "P \<noteq> new" "P \<noteq> N" "k \<noteq> P" "k \<noteq> new" "k \<noteq> N" using under(1,3,4,5) by auto
    have N: "N \<notin> set (sn_children q)"
      using tree_edge [OF D, of P N] edge_split [OF under(5)] dock_view_split(2) [OF under(4)] by auto
    have nd: "node_at s' N = Some (Split_Node ?n)" "node_at s' new = Some (Pane_Node (emptyDockPane new))"
      "node_at s' P = Some (Split_Node (swap_child k N q))"
      using ne assms(3) under(7) by simp_all
    have fp: "findParent s' new = Some ?n" using nd(1) by (simp add: findParent_Some [OF w'])
    have fN: "findParent s' N = Some (swap_child k N q)"
      using nd(3) ok under(6) by (simp add: findParent_Some [OF w'])
    have sib: "sn_children ?n ! (1 - position (sn_children ?n) new) = k" "\<not> 2 < length (sn_children ?n)"
      "\<not> length (sn_children ?n) \<le> 1 - position (sn_children ?n) new"
      using ne(4) by (auto simp: position_def)
    define t where "t = withNodes (withNodes s' [(P, Some (Split_Node q))]) [(new, None), (N, None)]"
    have "replaceInParent s' N k = Inr (withNodes s' [(P, Some (Split_Node q))])"
      using fN ok swap_back [OF N, of k] by (simp add: replaceInParent_def)
    moreover have "reseatFocus t new = Inr t" using act [OF under(3)] under(7) by (simp add: reseatFocus_def t_def)
    ultimately have "\<exists>v. applyOp s' (Op_Merge new) = Inr (t, v)"
      using nd(2) fp sib
      by (simp add: applyMerge_def getPane_eq [THEN iffD2] empty_ok require_def focusSnapshot_simps Let_def t_def)
    moreover have "layout_eq t s" using under(3-5,7) ne assms(3) by (auto simp: layout_eq_def t_def fun_eq_iff)
    ultimately show ?thesis unfolding under(8) using undone_one by blast
  next
    case (root p)
    let ?n = "new_split N axis dir k new"
    have ne: "k \<noteq> new" "k \<noteq> N" using root(1,3,4) by auto
    have nd: "node_at s' N = Some (Split_Node ?n)" "node_at s' new = Some (Pane_Node (emptyDockPane new))"
      using ne assms(3) root(7) by simp_all
    have fp: "findParent s' new = Some ?n" using nd(1) by (simp add: findParent_Some [OF w'])
    have r': "ly_root s' = N" using root(7) by simp
    have fN: "findParent s' N = None"
      using tree_edge [OF dock_wf_shape [OF layout_wfD(3) [OF w']]] edge_split unfolding findParent_None [OF w'] r'
      by blast
    have sib: "sn_children ?n ! (1 - position (sn_children ?n) new) = k" "\<not> 2 < length (sn_children ?n)"
      "\<not> length (sn_children ?n) \<le> 1 - position (sn_children ?n) new"
      using ne(1) by (auto simp: position_def)
    define t where "t = withNodes (s'\<lparr>ly_root := k\<rparr>) [(new, None), (N, None)]"
    have "replaceInParent s' N k = Inr (s'\<lparr>ly_root := k\<rparr>)" using fN r' by (simp add: replaceInParent_def)
    moreover have "reseatFocus t new = Inr t" using act [OF root(3)] root(7) by (simp add: reseatFocus_def t_def)
    ultimately have "\<exists>v. applyOp s' (Op_Merge new) = Inr (t, v)"
      using nd(2) fp sib
      by (simp add: applyMerge_def getPane_eq [THEN iffD2] empty_ok require_def focusSnapshot_simps Let_def t_def del: with_more)
    moreover have "layout_eq t s" using root(3-5,7) ne assms(3) by (auto simp: layout_eq_def t_def fun_eq_iff)
    ultimately show ?thesis unfolding root(8) using undone_one by blast
  qed
qed

lemma insertPane_empty:
  assumes "node_at t (pn_id p) = None" "pn_tabs p = []" "pn_host p = Host_Dock"
  shows "applyOp t (Op_InsertPane p [] (Attach_Child P n zs)) =
      rbind (getSplit t P) (\<lambda>q. let ch = insertAt (sn_children q) n (pn_id p) in
        rbind (require (length zs = length ch) InsertPane_Sizes_Mismatch) (\<lambda>_.
        Inr (withNodes (withTabs t []) [(pn_id p, Some (Pane_Node p)), (sn_id q, Some (Split_Node (q\<lparr>sn_children := ch, sn_sizes := zs\<rparr>)))],
          [Op_Merge (pn_id p), Op_Resize (sn_id q) (sn_sizes q)])))"
    "pn_id p \<in> set (sn_children r) \<Longrightarrow> applyOp t (Op_InsertPane p [] (Attach_Wrap a r)) =
      rbind (replaceInParent t a (sn_id r)) (\<lambda>u.
        Inr (withNodes (withTabs u []) [(pn_id p, Some (Pane_Node p)), (sn_id r, Some (Split_Node r))], [Op_Merge (pn_id p)]))"
  using assms by (simp_all add: applyInsertPane_def assertFreeNode_def require_def focusSnapshot_simps)

lemma withTabs_none [simp]: "tab_at (withTabs s []) = tab_at s"
  by (rule ext) simp

lemma merge_undone:
  assumes "layout_wf s" "applyMerge s k = Inr (s', undo)"
  shows "undone s' undo s"
proof -
  have w': "layout_wf s'" using assms by (rule merge_wf)
  have D: "tree_shape (\<lambda>i. dock_view s i \<noteq> None) (edge (dock_view s)) (ly_root s)"
    using layout_wfD(3) [OF assms(1)] by (rule dock_wf_shape)
  show ?thesis
    using assms
  proof (cases rule: mergeE)
    case (child p P q ns s1)
    let ?n = "position (sn_children q) k"
    let ?q = "q\<lparr>sn_children := removeAt (sn_children q) ?n, sn_sizes := ns\<rparr>"
    have ok: "sn_id q = P" "split_ok q" using split_node_ok [OF assms(1) child(4)] by auto
    have id: "pn_id p = k" using pane_node_ok(1) [OF assms(1) child(1)] .
    have ne: "k \<noteq> P" using child(1,4) by auto
    obtain a where a: "s' = s1\<lparr>ly_active := a\<rparr>" using reseatFocus_eq [OF child(9)] by blast
    have nd: "node_at s' k = None" "getSplit s' P = Inr ?q" using a child(8) ne by (simp_all add: getSplit_eq)
    define t where "t = withNodes (withTabs s' []) [(k, Some (Pane_Node p)), (P, Some (Split_Node q))]"
    have "\<exists>v. applyOp s' (Op_InsertPane p [] (Attach_Child P (int ?n) (sn_sizes q))) = Inr (t, v)"
      using insertPane_empty(1) [of s' p P "int ?n" "sn_sizes q"] nd id child(2,3,6) ok insertAt_removeAt [OF child(5)]
        length_removeAt [of ?n "sn_children q"] position_less [OF child(5)]
      by (simp add: split_ok_def require_def Let_def t_def)
    moreover have "\<exists>t' v. applyOp t (restore s []) = Inr (t', v) \<and> layout_eq t' s"
      using child(1,4,8) a ne by (intro restored_0 [OF assms(1)]) (auto simp: t_def fun_eq_iff)
    ultimately show ?thesis unfolding child(10) using undone_two by blast
  next
    case (under p P q sib G g s1)
    have ok: "sn_id q = P" "sn_id g = G" using split_node_ok [OF assms(1)] under(4,7) by auto
    have id: "pn_id p = k" using pane_node_ok(1) [OF assms(1) under(1)] .
    have e: "edge (dock_view s) P sib" "edge (dock_view s) G P" using edge_split under(4,5,7,8) by auto
    have ne: "k \<noteq> P" "G \<noteq> P" "G \<noteq> k" using under(1,4,7) tree_edge [OF D e(2)] by auto
    have sib: "sib \<notin> set (sn_children g)"
      using e ne(2) D edge_split [OF under(7)] unfolding tree_shape_def by metis
    obtain a where a: "s' = s1\<lparr>ly_active := a\<rparr>" using reseatFocus_eq [OF under(10)] by blast
    have nd: "node_at s' k = None" "node_at s' G = Some (Split_Node (swap_child P sib g))" using a under(9) ne by simp_all
    have "findParent s' sib = Some (swap_child P sib g)"
      using nd(2) ok(2) under(8) by (simp add: findParent_Some [OF w'])
    then have r: "replaceInParent s' sib P = Inr (withNodes s' [(G, Some (Split_Node g))])"
      using ok(2) swap_back [OF sib, of P] by (simp add: replaceInParent_def)
    define t where "t = withNodes (withTabs (withNodes s' [(G, Some (Split_Node g))]) []) [(k, Some (Pane_Node p)), (P, Some (Split_Node q))]"
    have "\<exists>v. applyOp s' (Op_InsertPane p [] (Attach_Wrap sib q)) = Inr (t, v)"
      using insertPane_empty(2) [of s' p q sib] nd(1) id under(2,3,5) ok(1) r by (simp add: t_def)
    moreover have "\<exists>t' v. applyOp t (restore s []) = Inr (t', v) \<and> layout_eq t' s"
      using under(1,4,7,9) a ne by (intro restored_0 [OF assms(1)]) (auto simp: t_def fun_eq_iff)
    ultimately show ?thesis unfolding under(11) using undone_two by blast
  next
    case (root p P q sib s1)
    have ok: "sn_id q = P" using split_node_ok [OF assms(1)] root(4) by auto
    have id: "pn_id p = k" using pane_node_ok(1) [OF assms(1) root(1)] .
    have ne: "k \<noteq> P" using root(1,4) by auto
    obtain a where a: "s' = s1\<lparr>ly_active := a\<rparr>" using reseatFocus_eq [OF root(9)] by blast
    have nd: "node_at s' k = None" and r': "ly_root s' = sib" using a root(8) ne by simp_all
    have "findParent s' sib = None"
      using tree_edge [OF dock_wf_shape [OF layout_wfD(3) [OF w']]] edge_split unfolding findParent_None [OF w'] r'
      by blast
    then have r: "replaceInParent s' sib P = Inr (s'\<lparr>ly_root := P\<rparr>)" using r' by (simp add: replaceInParent_def)
    define t where "t = withNodes (withTabs (s'\<lparr>ly_root := P\<rparr>) []) [(k, Some (Pane_Node p)), (P, Some (Split_Node q))]"
    have "\<exists>v. applyOp s' (Op_InsertPane p [] (Attach_Wrap sib q)) = Inr (t, v)"
      using insertPane_empty(2) [of s' p q sib] nd id root(2,3,5) ok(1) r by (simp add: t_def)
    moreover have "\<exists>t' v. applyOp t (restore s []) = Inr (t', v) \<and> layout_eq t' s"
      using root(1,4,7,8) a ne by (intro restored_0 [OF assms(1)]) (auto simp: t_def fun_eq_iff)
    ultimately show ?thesis unfolding root(10) using undone_two by blast
  qed
qed

section \<open>Every recorded operation\<close>

lemmas operation_undone = split_undone merge_undone openTab_undone insertTab_undone closeTab_undone moveTab_undone
  reorderTab_undone focusTab_undone focusPane_undone resize_undone float_undone unfloat_undone moveFloat_undone resizeFloat_undone

lemma applyOp_undone:
  assumes "layout_wf s" "user_op op" "applyOp s op = Inr (s', undo)"
  shows "undone s' undo s"
proof (cases op)
  case (Op_SetExpanded b)
  then show ?thesis using assms by (auto simp: undone_def replay_def layout_eq_def)
next
  case (Op_SetMode m)
  then show ?thesis using assms by (auto simp: undone_def replay_def layout_eq_def)
qed (insert assms, simp_all, (rule operation_undone; assumption)+)

end
