(* ===== verification/Dock_Congruence.thy ===== *)
theory Dock_Congruence
  imports Dock_Undo
begin

text \<open>
  No operation reads the order of a record's keys: on layouts that differ only there, every operation
  succeeds or fails alike, records the same inverse, and gives layouts that differ only there.
\<close>

section \<open>Keys stay distinct\<close>

definition keyed :: "layout_state \<Rightarrow> bool" where
  "keyed s \<longleftrightarrow> amap_wf (ly_nodes s) \<and> amap_wf (ly_tabs s)"

lemma keyed_simps [simp]:
  "keyed s \<Longrightarrow> keyed (withNodes s u)" "keyed s \<Longrightarrow> keyed (withTabs s w)"
  "keyed (s\<lparr>ly_floats := fs\<rparr>) = keyed s" "keyed (s\<lparr>ly_active := a\<rparr>) = keyed s" "keyed (s\<lparr>ly_root := r\<rparr>) = keyed s"
  "keyed (s\<lparr>ly_expanded := b\<rparr>) = keyed s" "keyed (s\<lparr>ly_mode := m\<rparr>) = keyed s"
  by (auto simp: keyed_def withNodes_def withTabs_def wf_updated)

lemma wf_keyed: "layout_wf s \<Longrightarrow> keyed s"
  by (simp add: layout_wf_def keyed_def)

lemma layout_wf_cong: "layout_wf s \<Longrightarrow> layout_eq s t \<Longrightarrow> keyed t \<Longrightarrow> layout_wf t"
proof -
  assume a: "layout_wf s" "layout_eq s t" "keyed t"
  then have "dock_view t = dock_view s" "pane_view t = pane_view s"
    by (simp_all add: layout_eq_def dock_view_def pane_view_def fun_eq_iff)
  then show ?thesis using a by (simp add: layout_wf_def layout_eq_def keyed_def)
qed

definition keyed_result :: "applied \<Rightarrow> bool" where
  "keyed_result r \<longleftrightarrow> (\<forall>t u. r = Inr (t, u) \<longrightarrow> keyed t)"

definition keyed_layout :: "layout_state lay \<Rightarrow> bool" where
  "keyed_layout r \<longleftrightarrow> (\<forall>t. r = Inr t \<longrightarrow> keyed t)"

lemma keyed_rules [intro!]:
  "(\<And>x. keyed_result (F x)) \<Longrightarrow> keyed_result (rbind m F)" "keyed s \<Longrightarrow> keyed_result (Inr (s, u))" "keyed_result (Inl e)"
  "keyed s \<Longrightarrow> keyed_layout (Inr s)" "keyed_layout (Inl e)"
  by (auto simp: keyed_result_def keyed_layout_def rbind_eq_Inr)

lemma keyed_then: "keyed_layout m \<Longrightarrow> (\<And>s. keyed s \<Longrightarrow> keyed_result (F s)) \<Longrightarrow> keyed_result (rbind m F)"
  by (auto simp: keyed_result_def keyed_layout_def rbind_eq_Inr)

lemma replaceInParent_keyed: "keyed s \<Longrightarrow> keyed_layout (replaceInParent s a b)"
  by (auto simp: replaceInParent_def split: option.splits)

lemma reseatFocus_keyed: "keyed s \<Longrightarrow> keyed_layout (reseatFocus s k)"
  by (auto simp: reseatFocus_def keyed_layout_def rbind_eq_Inr)

lemma restoreFocus_keyed: "keyed s \<Longrightarrow> keyed_result (applyRestoreFocus s a fl m)"
proof -
  assume s: "keyed s"
  have "keyed_layout (fold_res (\<lambda>t (i, a). rbind (getPane t i) (\<lambda>p.
      Inr (withNodes t [(i, Some (Pane_Node (p\<lparr>pn_active := a\<rparr>)))]))) s m)"
    unfolding keyed_layout_def
  proof (intro allI impI)
    fix t assume h: "fold_res (\<lambda>t (i, a). rbind (getPane t i) (\<lambda>p.
      Inr (withNodes t [(i, Some (Pane_Node (p\<lparr>pn_active := a\<rparr>)))]))) s m = Inr t"
    show "keyed t" by (rule fold_res_invariant [where P = keyed, OF s _ h]) (auto simp: rbind_eq_Inr)
  qed
  then show ?thesis unfolding applyRestoreFocus_def by (intro keyed_rules(1) keyed_then) auto
qed

lemma wrapSplit_keyed: "keyed s \<Longrightarrow> keyed_result (wrapSplit s k x d n m)"
  unfolding wrapSplit_def by (intro keyed_rules(1) keyed_then [OF replaceInParent_keyed]) auto

lemma applySplit_keyed: "keyed s \<Longrightarrow> keyed_result (applySplit s k x d n m)"
  unfolding applySplit_def by (auto simp: Let_def wrapSplit_keyed simp del: with_more split: option.splits)

lemma reseat_keyed: "keyed s \<Longrightarrow> keyed_result (rbind (reseatFocus s k) (\<lambda>u. Inr (u, w)))"
  by (rule keyed_then [OF reseatFocus_keyed]) auto

lemma applyMerge_keyed: "keyed s \<Longrightarrow> keyed_result (applyMerge s k)"
proof -
  assume s: "keyed s"
  have r: "keyed_result (rbind (replaceInParent s P b) (\<lambda>r. rbind (reseatFocus (withNodes r us) k) (\<lambda>t. Inr (t, w))))" for P b us w
    using s by (intro keyed_then [OF replaceInParent_keyed] reseat_keyed) auto
  show ?thesis
    unfolding applyMerge_def using s r
    by (auto simp: Let_def simp del: with_more intro!: reseat_keyed split: option.splits)
qed

lemma applyInsertPane_keyed: "keyed s \<Longrightarrow> keyed_result (applyInsertPane s p ts h)"
proof (cases h)
  case (Attach_Wrap a q)
  assume s: "keyed s"
  show ?thesis
    unfolding applyInsertPane_def Attach_Wrap Let_def pane_attachment.case
    by (intro keyed_rules(1) keyed_then [OF replaceInParent_keyed [OF s]]) auto
qed (auto simp: applyInsertPane_def Let_def simp del: with_more)

lemma applyOp_keyed: "applyOp s op = Inr (t, u) \<Longrightarrow> keyed s \<Longrightarrow> keyed t"
proof -
  assume a: "applyOp s op = Inr (t, u)" "keyed s"
  have "keyed_result (applyCloseTab s x)" for x
    unfolding applyCloseTab_def using a(2) by (auto simp: Let_def simp del: with_more intro!: reseat_keyed)
  then have "keyed_result (applyOp s op)"
    using a(2) applySplit_keyed [OF a(2)] applyMerge_keyed [OF a(2)] applyInsertPane_keyed [OF a(2)] restoreFocus_keyed [OF a(2)]
    by (cases op) (auto simp: applyOpenTab_def applyInsertTab_def applyMoveTab_def applyReorderTab_def applyFocusTab_def
      applyFocusPane_def applyResize_def applyFloat_def applyUnfloat_def applyMoveFloat_def applyResizeFloat_def reshapeFloat_def Let_def
      simp del: with_more)
  then show ?thesis using a(1) by (simp add: keyed_result_def)
qed

section \<open>Reads agree\<close>

lemma reads_eq:
  assumes "layout_eq s t"
  shows "getNode t = getNode s" "getPane t = getPane s" "getSplit t = getSplit s" "getTab t = getTab s"
    "floatIndex t = floatIndex s" "assertFreeNode t = assertFreeNode s" "assertFreeTab t = assertFreeTab s"
proof -
  have n: "getNode t = getNode s" using assms by (simp add: fun_eq_iff layout_eq_def getNode_def)
  then show "getNode t = getNode s" "getPane t = getPane s" "getSplit t = getSplit s"
    by (simp_all add: fun_eq_iff getPane_def getSplit_def)
  show "getTab t = getTab s" "floatIndex t = floatIndex s" "assertFreeNode t = assertFreeNode s" "assertFreeTab t = assertFreeTab s"
    using assms by (simp_all add: fun_eq_iff layout_eq_def getTab_def floatIndex_def assertFreeNode_def assertFreeTab_def)
qed

lemma focusSnapshot_cong: "layout_eq s t \<Longrightarrow> focusSnapshot t = focusSnapshot s"
  using reads_eq(2) [of s t] by (simp add: fun_eq_iff focusSnapshot_def layout_eq_def)

lemma option_ext: "(\<And>a. x = Some a \<longleftrightarrow> y = Some a) \<Longrightarrow> x = y"
  by (cases x; cases y) auto

lemma findParent_cong: "layout_eq s t \<Longrightarrow> layout_wf s \<Longrightarrow> layout_wf t \<Longrightarrow> findParent t = findParent s"
proof (rule ext, rule option_ext)
  fix c q assume a: "layout_eq s t" "layout_wf s" "layout_wf t"
  have "node_at t = node_at s" using a(1) by (simp add: layout_eq_def)
  then show "findParent t c = Some q \<longleftrightarrow> findParent s c = Some q"
    by (simp only: findParent_Some [OF a(2)] findParent_Some [OF a(3)])
qed

lemma findTabPane_cong: "layout_eq s t \<Longrightarrow> layout_wf s \<Longrightarrow> layout_wf t \<Longrightarrow> findTabPane t = findTabPane s"
proof (rule ext)
  fix x assume a: "layout_eq s t" "layout_wf s" "layout_wf t"
  have n: "node_at t = node_at s" using a(1) by (simp add: layout_eq_def)
  have "first_tab_pane (ly_nodes t) x = first_tab_pane (ly_nodes s) x"
  proof (rule option_ext)
    fix p
    have e: "first_tab_pane (ly_nodes u) x = Some p \<longleftrightarrow> findTabPane u x = Inr p" for u
      by (simp add: findTabPane_def split: option.splits)
    show "first_tab_pane (ly_nodes t) x = Some p \<longleftrightarrow> first_tab_pane (ly_nodes s) x = Some p"
      by (simp only: e findTabPane_eq [OF a(2)] findTabPane_eq [OF a(3)] n)
  qed
  then show "findTabPane t x = findTabPane s x" by (simp add: findTabPane_def)
qed

lemma amap_length: "amap_wf m \<Longrightarrow> length m = card (dom (amap_get m))"
proof -
  assume "amap_wf m"
  then have "card (set (map fst m)) = length (map fst m)" unfolding amap_wf_def by (rule distinct_card)
  then have "length m = card (set (map fst m))" by simp
  also have "amap_get m = map_of m" by (rule ext) (simp add: amap_get_def)
  then have "set (map fst m) = dom (amap_get m)" by (simp add: dom_map_of_conv_image_fst)
  finally show ?thesis .
qed

lemma descend_cong: "getNode t = getNode s \<Longrightarrow> descend f t pick i = descend f s pick i"
  by (induction f arbitrary: i) (simp_all split: layout_node.splits option.splits add: rbind_def split: sum.splits)

lemma firstDockPaneId_cong:
  assumes "layout_eq s t" "keyed s" "keyed t"
  shows "firstDockPaneId t = firstDockPaneId s"
proof -
  have "length (ly_nodes t) = length (ly_nodes s)"
    using assms by (simp add: amap_length keyed_def layout_eq_def)
  then show ?thesis
    using descend_cong [OF reads_eq(1) [OF assms(1)]] assms(1) by (simp add: firstDockPaneId_def layout_eq_def)
qed

section \<open>Results agree\<close>

definition same_result :: "applied \<Rightarrow> applied \<Rightarrow> bool" where
  "same_result r q \<longleftrightarrow> (case r of Inl e \<Rightarrow> q = Inl e | Inr su \<Rightarrow> \<exists>t. q = Inr (t, snd su) \<and> layout_eq (fst su) t)"

definition same_layout :: "layout_state lay \<Rightarrow> layout_state lay \<Rightarrow> bool" where
  "same_layout r q \<longleftrightarrow> (case r of Inl e \<Rightarrow> q = Inl e | Inr s \<Rightarrow> \<exists>t. q = Inr t \<and> layout_eq s t)"

lemma same_result_bind [intro!]: "(\<And>x. m = Inr x \<Longrightarrow> same_result (F x) (G x)) \<Longrightarrow> same_result (rbind m F) (rbind m G)"
  by (cases m) (simp_all add: same_result_def)

lemma same_layout_bind [intro!]: "(\<And>x. m = Inr x \<Longrightarrow> same_layout (F x) (G x)) \<Longrightarrow> same_layout (rbind m F) (rbind m G)"
  by (cases m) (simp_all add: same_layout_def)

lemma same_layout_then:
  assumes "same_layout m m'" "\<And>s t. layout_eq s t \<Longrightarrow> m = Inr s \<Longrightarrow> m' = Inr t \<Longrightarrow> same_result (F s) (G t)"
  shows "same_result (rbind m F) (rbind m' G)"
proof (cases m)
  case (Inl e)
  then show ?thesis using assms(1) by (simp add: same_layout_def same_result_def)
next
  case (Inr s)
  then obtain t where t: "m' = Inr t" "layout_eq s t" using assms(1) by (auto simp: same_layout_def)
  show ?thesis using assms(2) [OF t(2) Inr t(1)] Inr t(1) by simp
qed

lemma same_result_Inr [intro!]: "layout_eq s t \<Longrightarrow> same_result (Inr (s, u)) (Inr (t, u))" "same_result (Inl e) (Inl e)"
  by (simp_all add: same_result_def)

lemma same_layout_Inr [intro!]: "layout_eq s t \<Longrightarrow> same_layout (Inr s) (Inr t)" "same_layout (Inl e) (Inl e)"
  by (simp_all add: same_layout_def)

lemma layout_eq_with [intro!]:
  "layout_eq s t \<Longrightarrow> layout_eq (withNodes s u) (withNodes t u)" "layout_eq s t \<Longrightarrow> layout_eq (withTabs s w) (withTabs t w)"
  "layout_eq s t \<Longrightarrow> layout_eq (s\<lparr>ly_floats := fs\<rparr>) (t\<lparr>ly_floats := fs\<rparr>)"
  "layout_eq s t \<Longrightarrow> layout_eq (s\<lparr>ly_active := a\<rparr>) (t\<lparr>ly_active := a\<rparr>)"
  "layout_eq s t \<Longrightarrow> layout_eq (s\<lparr>ly_root := r\<rparr>) (t\<lparr>ly_root := r\<rparr>)"
  "layout_eq s t \<Longrightarrow> layout_eq (s\<lparr>ly_expanded := b\<rparr>) (t\<lparr>ly_expanded := b\<rparr>)"
  "layout_eq s t \<Longrightarrow> layout_eq (s\<lparr>ly_mode := m\<rparr>) (t\<lparr>ly_mode := m\<rparr>)"
  by (auto simp: layout_eq_def fun_eq_iff split: option.splits)

lemma layout_eq_fields:
  "layout_eq s t \<Longrightarrow> ly_floats t = ly_floats s \<and> ly_active t = ly_active s \<and> ly_root t = ly_root s
     \<and> ly_expanded t = ly_expanded s \<and> ly_mode t = ly_mode s"
  by (simp add: layout_eq_def)

lemma replaceInParent_cong:
  "layout_eq s t \<Longrightarrow> findParent t = findParent s \<Longrightarrow> same_layout (replaceInParent s a b) (replaceInParent t a b)"
  by (auto simp: replaceInParent_def layout_eq_fields split: option.splits)

lemma reseatFocus_cong:
  assumes "layout_eq s t" "keyed s" "keyed t"
  shows "same_layout (reseatFocus s k) (reseatFocus t k)"
  using assms firstDockPaneId_cong [OF assms] by (auto simp: reseatFocus_def layout_eq_fields)

lemma raised_cong: "layout_eq s t \<Longrightarrow> raised t = raised s"
  by (simp add: fun_eq_iff raised_def layout_eq_fields)

lemma reshapeFloat_cong [intro!]: "layout_eq s t \<Longrightarrow> layout_eq (reshapeFloat s p r) (reshapeFloat t p r)"
  by (auto simp: reshapeFloat_def Let_def layout_eq_fields)

lemma restoreFocus_cong:
  assumes "layout_eq s t"
  shows "same_result (applyRestoreFocus s a fl m) (applyRestoreFocus t a fl m)"
proof -
  have loop: "same_layout (fold_res (\<lambda>t (i, a). rbind (getPane t i) (\<lambda>p. Inr (withNodes t [(i, Some (Pane_Node (p\<lparr>pn_active := a\<rparr>)))]))) s m)
      (fold_res (\<lambda>t (i, a). rbind (getPane t i) (\<lambda>p. Inr (withNodes t [(i, Some (Pane_Node (p\<lparr>pn_active := a\<rparr>)))]))) t m)"
    using assms
  proof (induction m arbitrary: s t)
    case (Cons x m)
    obtain i a where x: "x = (i, a)" by (cases x)
    show ?case
    proof (cases "getPane s i")
      case (Inr p)
      have "layout_eq (withNodes s [(i, Some (Pane_Node (p\<lparr>pn_active := a\<rparr>)))]) (withNodes t [(i, Some (Pane_Node (p\<lparr>pn_active := a\<rparr>)))])"
        using Cons.prems by (rule layout_eq_with)
      from Cons.IH [OF this] show ?thesis using x Inr reads_eq(2) [OF Cons.prems] by simp
    qed (use x reads_eq(2) [OF Cons.prems] in \<open>auto\<close>)
  qed auto
  show ?thesis
    unfolding applyRestoreFocus_def focusSnapshot_cong [OF assms] reads_eq(2) [OF assms]
    by (intro same_result_bind same_layout_then [OF loop])
      (auto simp: reads_eq)
qed

section \<open>Operations agree\<close>

lemma agree:
  assumes "layout_eq s t" "layout_wf s" "layout_wf t"
  shows "getNode t = getNode s" "getPane t = getPane s" "getSplit t = getSplit s" "getTab t = getTab s"
    "floatIndex t = floatIndex s" "assertFreeNode t = assertFreeNode s" "assertFreeTab t = assertFreeTab s"
    "focusSnapshot t = focusSnapshot s" "findParent t = findParent s" "findTabPane t = findTabPane s"
    "raised t = raised s" "ly_floats t = ly_floats s" "ly_active t = ly_active s" "ly_root t = ly_root s"
    "ly_expanded t = ly_expanded s" "ly_mode t = ly_mode s"
  using assms by (simp_all only: reads_eq focusSnapshot_cong findParent_cong findTabPane_cong raised_cong layout_eq_fields)

lemma wrapSplit_cong:
  assumes "layout_eq s t" "layout_wf s" "layout_wf t"
  shows "same_result (wrapSplit s k x d n m) (wrapSplit t k x d n m)"
  unfolding wrapSplit_def agree [OF assms]
  by (intro same_result_bind same_layout_then [OF replaceInParent_cong [OF assms(1) agree(9) [OF assms]]]) auto

lemma applySplit_cong:
  assumes "layout_eq s t" "layout_wf s" "layout_wf t"
  shows "same_result (applySplit s k x d n m) (applySplit t k x d n m)"
  unfolding applySplit_def agree [OF assms]
  using assms(1) wrapSplit_cong [OF assms] by (auto simp: Let_def split: option.splits)

lemma reseat_then:
  assumes "layout_eq s t" "keyed s" "keyed t"
  shows "same_result (rbind (reseatFocus s k) (\<lambda>u. Inr (u, w))) (rbind (reseatFocus t k) (\<lambda>u. Inr (u, w)))"
  by (rule same_layout_then [OF reseatFocus_cong [OF assms]]) auto

lemma applyMerge_cong:
  assumes "layout_eq s t" "layout_wf s" "layout_wf t"
  shows "same_result (applyMerge s k) (applyMerge t k)"
proof -
  note k = wf_keyed [OF assms(2)] wf_keyed [OF assms(3)]
  have r: "same_result (rbind (replaceInParent s P b) (\<lambda>r. rbind (reseatFocus (withNodes r us) k) (\<lambda>t. Inr (t, w))))
      (rbind (replaceInParent t P b) (\<lambda>r. rbind (reseatFocus (withNodes r us) k) (\<lambda>t. Inr (t, w))))" for P b us w
    using k by (intro same_layout_then [OF replaceInParent_cong [OF assms(1) agree(9) [OF assms]]] reseat_then)
      (use replaceInParent_keyed k in \<open>auto simp: keyed_layout_def\<close>)
  show ?thesis
    unfolding applyMerge_def agree [OF assms]
    using assms(1) k r by (auto simp: Let_def simp del: with_more intro!: reseat_then split: option.splits)
qed

lemma applyCloseTab_cong:
  assumes "layout_eq s t" "layout_wf s" "layout_wf t"
  shows "same_result (applyCloseTab s k) (applyCloseTab t k)"
  unfolding applyCloseTab_def agree [OF assms]
  using assms(1) wf_keyed [OF assms(2)] wf_keyed [OF assms(3)]
  by (auto simp: Let_def simp del: with_more intro!: reseat_then)

lemma applyInsertPane_cong:
  assumes "layout_eq s t" "layout_wf s" "layout_wf t"
  shows "same_result (applyInsertPane s p ts h) (applyInsertPane t p ts h)"
proof (cases h)
  case (Attach_Wrap a q)
  show ?thesis
    unfolding applyInsertPane_def agree [OF assms] Attach_Wrap
    by (simp add: Let_def, intro same_result_bind same_layout_then [OF replaceInParent_cong [OF assms(1) agree(9) [OF assms]]]) auto
qed (use assms(1) in \<open>unfold applyInsertPane_def agree [OF assms], auto simp: Let_def simp del: with_more\<close>)

lemma strip_cong:
  assumes "layout_eq s t" "layout_wf s" "layout_wf t"
  shows "same_result (applyOpenTab s k tab n) (applyOpenTab t k tab n)"
    "same_result (applyInsertTab s k tab n) (applyInsertTab t k tab n)"
    "same_result (applyMoveTab s x k n) (applyMoveTab t x k n)"
    "same_result (applyReorderTab s x n) (applyReorderTab t x n)"
  unfolding applyOpenTab_def applyInsertTab_def applyMoveTab_def applyReorderTab_def agree [OF assms]
  using assms(1) by (auto simp: Let_def simp del: with_more)

lemma focus_cong:
  assumes "layout_eq s t" "layout_wf s" "layout_wf t"
  shows "same_result (applyFocusTab s x) (applyFocusTab t x)" "same_result (applyFocusPane s k) (applyFocusPane t k)"
    "same_result (applyMoveFloat s k a b) (applyMoveFloat t k a b)" "same_result (applyResizeFloat s k r) (applyResizeFloat t k r)"
  unfolding applyFocusTab_def applyFocusPane_def applyMoveFloat_def applyResizeFloat_def agree [OF assms]
  using assms(1) by (auto simp: Let_def raised_def agree(12) [OF assms] simp del: with_more)

lemma float_cong:
  assumes "layout_eq s t" "layout_wf s" "layout_wf t"
  shows "same_result (applyFloat s x k r) (applyFloat t x k r)" "same_result (applyUnfloat s k j n) (applyUnfloat t k j n)"
  unfolding applyFloat_def applyUnfloat_def agree [OF assms]
  using assms(1) by (auto simp: Let_def agree(12) [OF assms] simp del: with_more)

lemma resize_cong: "layout_eq s t \<Longrightarrow> same_result (applyResize s k zs) (applyResize t k zs)"
  unfolding applyResize_def by (auto simp: reads_eq)

lemma flags_cong:
  assumes "layout_eq s t"
  shows "same_result (applyOp s (Op_SetExpanded b)) (applyOp t (Op_SetExpanded b))"
    "same_result (applyOp s (Op_SetMode m)) (applyOp t (Op_SetMode m))"
  using assms by (auto simp: layout_eq_fields)

lemmas operation_cong = applySplit_cong applyMerge_cong applyCloseTab_cong applyInsertPane_cong strip_cong focus_cong float_cong

lemma applyOp_cong:
  assumes "layout_eq s t" "layout_wf s" "layout_wf t"
  shows "same_result (applyOp s op) (applyOp t op)"
  by (cases op) (simp_all only: applyOp.simps(1-15) applyOp.simps(18) operation_cong [OF assms] resize_cong [OF assms(1)]
    flags_cong [OF assms(1)] restoreFocus_cong [OF assms(1)])

end
