(* ===== verification/Undo_Log.thy ===== *)
theory Undo_Log
  imports Prelude
begin

text \<open>
  What a linear history needs from the operations it records: every accepted operation returns the
  operations that undo it, and states that look the same behave the same. The history's lemmas are
  proved here once, over any engine that keeps that contract.
\<close>

definition run_ops :: "('s \<Rightarrow> 'o \<Rightarrow> ('e, 's \<times> 'o list) res) \<Rightarrow> 's \<Rightarrow> 'o list \<Rightarrow> ('e, 's) res" where
  "run_ops app s ops = fold_res (\<lambda>t op. rbind (app t op) (\<lambda>r. Inr (fst r))) s ops"

definition record_ops ::
  "('s \<Rightarrow> 'o \<Rightarrow> ('e, 's \<times> 'o list) res) \<Rightarrow> 's \<Rightarrow> 'o list \<Rightarrow> ('e, 's \<times> 'o list) res" where
  "record_ops app s ops =
     fold_res (\<lambda>(t, u) op. rbind (app t op) (\<lambda>r. Inr (fst r, snd r @ u))) (s, []) ops"

text \<open>A list of entries that were recorded one after the other, the first from the given state.\<close>

fun chain :: "('s \<Rightarrow> 'o \<Rightarrow> ('e, 's \<times> 'o list) res) \<Rightarrow> ('o \<Rightarrow> bool) \<Rightarrow> 's \<Rightarrow> ('o list \<times> 'o list) list \<Rightarrow> bool" where
  "chain app user s [] = True"
| "chain app user s ((ops, u) # es) = (list_all user ops \<and>
     (case record_ops app s ops of Inl _ \<Rightarrow> False | Inr (t, u') \<Rightarrow> u' = u \<and> chain app user t es))"

lemma run_ops_simps [simp]:
  "run_ops app s [] = Inr s"
  "run_ops app s (op # ops) = (case app s op of Inl e \<Rightarrow> Inl e | Inr r \<Rightarrow> run_ops app (fst r) ops)"
  by (auto simp: run_ops_def rbind_def split: sum.splits)

lemma run_ops_append:
  "run_ops app s (xs @ ys) = (case run_ops app s xs of Inl e \<Rightarrow> Inl e | Inr t \<Rightarrow> run_ops app t ys)"
  by (simp add: run_ops_def fold_res_append cong: sum.case_cong)

lemma run_ops_fold: "fold_res (\<lambda>t e. run_ops app t (f e)) s es = run_ops app s (concat (map f es))"
  by (induction es arbitrary: s) (auto simp: run_ops_append split: sum.splits)

lemma record_ops_snoc:
  "record_ops app s (ops @ [op]) = (case record_ops app s ops of Inl e \<Rightarrow> Inl e
     | Inr (t, u) \<Rightarrow> (case app t op of Inl e \<Rightarrow> Inl e | Inr r \<Rightarrow> Inr (fst r, snd r @ u)))"
  by (auto simp: record_ops_def fold_res_snoc rbind_def split: sum.splits)

lemma record_ops_Nil [simp]: "record_ops app s [] = Inr (s, [])"
  by (simp add: record_ops_def)

lemma record_ops_run: "record_ops app s ops = Inr (t, u) \<Longrightarrow> run_ops app s ops = Inr t"
proof (induction ops arbitrary: t u rule: rev_induct)
  case (snoc op ops)
  then show ?case by (auto simp: record_ops_snoc run_ops_append split: sum.splits prod.splits)
qed simp

lemma record_ops_total: "run_ops app s ops = Inr t \<Longrightarrow> \<exists>u. record_ops app s ops = Inr (t, u)"
proof (induction ops arbitrary: t rule: rev_induct)
  case (snoc op ops)
  then obtain t1 where "run_ops app s ops = Inr t1" by (auto simp: run_ops_append split: sum.splits)
  moreover from snoc.IH [OF this] obtain u where "record_ops app s ops = Inr (t1, u)" by blast
  ultimately show ?case using snoc.prems by (auto simp: record_ops_snoc run_ops_append split: sum.splits)
qed simp

lemma chain_append:
  "chain app user s (es @ fs) \<longleftrightarrow> chain app user s es \<and>
     (\<exists>t. run_ops app s (concat (map fst es)) = Inr t \<and> chain app user t fs)"
proof (induction es arbitrary: s)
  case (Cons e es)
  obtain ops u where e: "e = (ops, u)" by (cases e)
  show ?case
  proof (cases "record_ops app s ops")
    case (Inl x)
    then show ?thesis by (simp add: e)
  next
    case (Inr r)
    obtain t u' where r: "r = (t, u')" by (cases r)
    have "run_ops app s ops = Inr t" using Inr unfolding r by (rule record_ops_run)
    then show ?thesis using Cons [of t] Inr r by (auto simp: e run_ops_append)
  qed
qed simp

locale undo_engine =
  fixes app :: "'s \<Rightarrow> 'o \<Rightarrow> ('e, 's \<times> 'o list) res"
    and same :: "'s \<Rightarrow> 's \<Rightarrow> bool"
    and good :: "'s \<Rightarrow> bool"
    and user :: "'o \<Rightarrow> bool"
  assumes same_refl: "same s s"
    and same_sym: "same s t \<Longrightarrow> same t s"
    and same_trans: "same s t \<Longrightarrow> same t r \<Longrightarrow> same s r"
    and app_good: "good s \<Longrightarrow> user op \<Longrightarrow> app s op = Inr (t, u) \<Longrightarrow> good t"
    and app_same: "good s \<Longrightarrow> good s' \<Longrightarrow> same s s' \<Longrightarrow> user op \<Longrightarrow> app s op = Inr (t, u) \<Longrightarrow>
          \<exists>t'. app s' op = Inr (t', u) \<and> same t t'"
    and app_undo: "good s \<Longrightarrow> user op \<Longrightarrow> app s op = Inr (t, u) \<Longrightarrow> same t t' \<Longrightarrow> good t' \<Longrightarrow>
          \<exists>r. run_ops app t' u = Inr r \<and> same r s \<and> good r"
begin

lemma run_good: "good s \<Longrightarrow> list_all user ops \<Longrightarrow> run_ops app s ops = Inr t \<Longrightarrow> good t"
  by (induction ops arbitrary: s) (auto split: sum.splits dest: app_good)

lemma run_same:
  "good s \<Longrightarrow> good s' \<Longrightarrow> same s s' \<Longrightarrow> list_all user ops \<Longrightarrow> run_ops app s ops = Inr t \<Longrightarrow>
     \<exists>t'. run_ops app s' ops = Inr t' \<and> same t t' \<and> good t'"
proof (induction ops arbitrary: s s')
  case (Cons op ops)
  then obtain t1 u where a: "app s op = Inr (t1, u)" "run_ops app t1 ops = Inr t" by (auto split: sum.splits)
  obtain t1' where b: "app s' op = Inr (t1', u)" "same t1 t1'"
    using app_same [OF Cons.prems(1-3) _ a(1)] Cons.prems(4) by auto
  have "good t1" "good t1'" using app_good a(1) b(1) Cons.prems by auto
  from Cons.IH [OF this b(2) _ a(2)] show ?case using Cons.prems(4) b(1) by auto
qed auto

lemma record_same:
  "good s \<Longrightarrow> good s' \<Longrightarrow> same s s' \<Longrightarrow> list_all user ops \<Longrightarrow> record_ops app s ops = Inr (t, u) \<Longrightarrow>
     \<exists>t'. record_ops app s' ops = Inr (t', u) \<and> same t t' \<and> good t \<and> good t'"
proof (induction ops arbitrary: t u rule: rev_induct)
  case (snoc op ops)
  then obtain t1 u1 u2 where a: "record_ops app s ops = Inr (t1, u1)" "app t1 op = Inr (t, u2)" "u = u2 @ u1"
    by (auto simp: record_ops_snoc split: sum.splits)
  have user: "list_all user ops" "user op" using snoc.prems(4) by simp_all
  obtain t1' where b: "record_ops app s' ops = Inr (t1', u1)" "same t1 t1'" "good t1" "good t1'"
    using snoc.IH [OF snoc.prems(1-3) user(1) a(1)] by blast
  obtain t' where c: "app t1' op = Inr (t', u2)" "same t t'" using app_same [OF b(3,4,2) user(2) a(2)] by blast
  have "good t" "good t'" using app_good [OF b(3) user(2) a(2)] app_good [OF b(4) user(2) c(1)] by auto
  then show ?case using b(1) c by (auto simp: a(3) record_ops_snoc)
qed simp

lemma record_undo:
  "good s \<Longrightarrow> list_all user ops \<Longrightarrow> record_ops app s ops = Inr (t, u) \<Longrightarrow> same t t' \<Longrightarrow> good t' \<Longrightarrow>
     \<exists>r. run_ops app t' u = Inr r \<and> same r s \<and> good r"
proof (induction ops arbitrary: t u t' rule: rev_induct)
  case Nil
  then show ?case using same_sym by auto
next
  case (snoc op ops)
  then obtain t1 u1 u2 where a: "record_ops app s ops = Inr (t1, u1)" "app t1 op = Inr (t, u2)" "u = u2 @ u1"
    by (auto simp: record_ops_snoc split: sum.splits)
  have "good t1" using run_good record_ops_run [OF a(1)] snoc.prems(1,2) by auto
  then obtain r1 where b: "run_ops app t' u2 = Inr r1" "same r1 t1" "good r1"
    using app_undo [OF _ _ a(2) snoc.prems(4,5)] snoc.prems(2) by auto
  from snoc.IH [OF snoc.prems(1) _ a(1) same_sym [OF b(2)] b(3)] snoc.prems(2)
  show ?case using b(1) by (auto simp: a(3) run_ops_append)
qed

lemma chain_user: "chain app user s es \<Longrightarrow> list_all user (concat (map fst es))"
proof (induction es arbitrary: s)
  case (Cons e es)
  then show ?case by (cases e) (auto split: sum.splits prod.splits)
qed simp

lemma chain_run: "chain app user s es \<Longrightarrow> \<exists>t. run_ops app s (concat (map fst es)) = Inr t"
proof (induction es arbitrary: s)
  case (Cons e es)
  then show ?case by (cases e) (auto simp: run_ops_append dest!: record_ops_run split: sum.splits prod.splits)
qed simp

lemma chain_back:
  "good s \<Longrightarrow> chain app user s es \<Longrightarrow> run_ops app s (concat (map fst es)) = Inr t \<Longrightarrow> same t t' \<Longrightarrow> good t' \<Longrightarrow>
     \<exists>r. run_ops app t' (concat (map snd (rev es))) = Inr r \<and> same r s \<and> good r"
proof (induction es arbitrary: t t' rule: rev_induct)
  case Nil
  then show ?case using same_sym by auto
next
  case (snoc e es)
  obtain ops u where e: "e = (ops, u)" by (cases e)
  obtain t1 where a: "chain app user s es" "run_ops app s (concat (map fst es)) = Inr t1"
    "list_all user ops" "record_ops app t1 ops = Inr (t, u)"
  proof -
    obtain t1 where c: "chain app user s es" "run_ops app s (concat (map fst es)) = Inr t1" "chain app user t1 [(ops, u)]"
      using snoc.prems(2) by (auto simp: e chain_append)
    then obtain t2 where d: "list_all user ops" "record_ops app t1 ops = Inr (t2, u)" by (auto split: sum.splits prod.splits)
    have "t2 = t" using snoc.prems(3) c(2) record_ops_run [OF d(2)] by (simp add: e run_ops_append)
    then show thesis using that c(1,2) d by blast
  qed
  have "good t1" using run_good [OF snoc.prems(1) chain_user [OF a(1)] a(2)] .
  then obtain r1 where b: "run_ops app t' u = Inr r1" "same r1 t1" "good r1"
    using record_undo [OF _ a(3,4) snoc.prems(4,5)] by blast
  from snoc.IH [OF snoc.prems(1) a(1,2) same_sym [OF b(2)] b(3)]
  show ?case using b(1) by (auto simp: e run_ops_append)
qed

end

end
