(* ===== verification/Dock_History.thy ===== *)
theory Dock_History
  imports Dock_Congruence Undo_Log
begin

text \<open>
  The linear operation history of the docking layout (\<open>engine/sequence.ts\<close>): recording an intent, stepping
  back and forward over intents (a run of focus-only intents is one step), and the sequencer that wraps
  them. Its laws come from the interface \<open>undo_engine\<close>, which the operation engine implements.
\<close>

section \<open>Histories\<close>

record history_entry =
  he_ops :: "layout_op list"
  he_inverse :: "layout_op list"

record history =
  hs_entries :: "history_entry list"
  hs_cursor :: nat

definition EMPTY_HISTORY :: history where
  "EMPTY_HISTORY = \<lparr>hs_entries = [], hs_cursor = 0\<rparr>"

fun isFocusOp :: "layout_op \<Rightarrow> bool" where
  "isFocusOp (Op_FocusTab _) = True"
| "isFocusOp (Op_FocusPane _) = True"
| "isFocusOp (Op_RestoreFocus _ _ _) = True"
| "isFocusOp _ = False"

definition isFocusEntry :: "history \<Rightarrow> int \<Rightarrow> bool" where
  "isFocusEntry h i \<longleftrightarrow> 0 \<le> i \<and> i < int (length (hs_entries h)) \<and> list_all isFocusOp (he_ops (hs_entries h ! nat i))"

definition canStepBack :: "history \<Rightarrow> bool" where
  "canStepBack h \<longleftrightarrow> hs_cursor h > 0"

definition canStepForward :: "history \<Rightarrow> bool" where
  "canStepForward h \<longleftrightarrow> hs_cursor h < length (hs_entries h)"

definition recordedOps :: "history \<Rightarrow> layout_op list" where
  "recordedOps h = concat (map he_ops (hs_entries h))"

definition record_intent :: "history \<Rightarrow> layout_state \<Rightarrow> layout_op list \<Rightarrow> (history \<times> layout_state) lay" where
  "record_intent h s ops = (if ops = [] then Inr (h, s)
     else rbind (record_ops applyOp s ops) (\<lambda>(next_state, inverse).
       let kept_entries = (if hs_cursor h = length (hs_entries h) then hs_entries h else take (hs_cursor h) (hs_entries h))
       in Inr (\<lparr>hs_entries = kept_entries @ [\<lparr>he_ops = ops, he_inverse = inverse\<rparr>], hs_cursor = hs_cursor h + 1\<rparr>, next_state)))"

text \<open>The two counting loops; an index outside the entries is not a focus entry, so each ends.\<close>

function back_run :: "history \<Rightarrow> nat \<Rightarrow> nat" where
  "back_run h n = (if isFocusEntry h (int (hs_cursor h) - 1 - int n) then back_run h (Suc n) else n)"
  by auto
termination
  by (relation "measure (\<lambda>(h, n). hs_cursor h - n)") (auto simp: isFocusEntry_def)

function forward_run :: "history \<Rightarrow> nat \<Rightarrow> nat" where
  "forward_run h n = (if isFocusEntry h (int (hs_cursor h) + int n) then forward_run h (Suc n) else n)"
  by auto
termination
  by (relation "measure (\<lambda>(h, n). length (hs_entries h) - (hs_cursor h + n))") (auto simp: isFocusEntry_def)

declare back_run.simps [simp del] forward_run.simps [simp del]

definition back_count :: "history \<Rightarrow> nat" where
  "back_count h = (if isFocusEntry h (int (hs_cursor h) - 1) then back_run h 1 else 1)"

definition forward_count :: "history \<Rightarrow> nat" where
  "forward_count h = (if isFocusEntry h (int (hs_cursor h)) then forward_run h 1 else 1)"

definition stepBack :: "history \<Rightarrow> layout_state \<Rightarrow> (history \<times> layout_state) option lay" where
  "stepBack h s = (if \<not> canStepBack h then Inr None
     else let count = back_count h;
              slice = take count (drop (hs_cursor h - count) (hs_entries h))
          in rbind (fold_res (\<lambda>t e. replay t (he_inverse e)) s (rev slice)) (\<lambda>t.
             Inr (Some (h\<lparr>hs_cursor := hs_cursor h - count\<rparr>, t))))"

definition stepForward :: "history \<Rightarrow> layout_state \<Rightarrow> (history \<times> layout_state) option lay" where
  "stepForward h s = (if \<not> canStepForward h then Inr None
     else let count = forward_count h;
              slice = take count (drop (hs_cursor h) (hs_entries h))
          in rbind (fold_res (\<lambda>t e. replay t (he_ops e)) s slice) (\<lambda>t.
             Inr (Some (h\<lparr>hs_cursor := hs_cursor h + count\<rparr>, t))))"

section \<open>The sequencer\<close>

record sequencer =
  sq_current :: layout_state
  sq_recorded :: history

definition new_sequencer :: "layout_state \<Rightarrow> sequencer" where
  "new_sequencer s = \<lparr>sq_current = s, sq_recorded = EMPTY_HISTORY\<rparr>"

definition dispatchAll :: "layout_op list \<Rightarrow> (sequencer, layout_error, layout_state) sx" where
  "dispatchAll ops q = (case record_intent (sq_recorded q) (sq_current q) ops of
      Inl e \<Rightarrow> (q, Inl e)
    | Inr (h, s) \<Rightarrow> (\<lparr>sq_current = s, sq_recorded = h\<rparr>, Inr s))"

definition dispatch :: "layout_op \<Rightarrow> (sequencer, layout_error, layout_state) sx" where
  "dispatch op = dispatchAll [op]"

definition undo :: "(sequencer, layout_error, bool) sx" where
  "undo q = (case stepBack (sq_recorded q) (sq_current q) of
      Inl e \<Rightarrow> (q, Inl e)
    | Inr None \<Rightarrow> (q, Inr False)
    | Inr (Some (h, s)) \<Rightarrow> (\<lparr>sq_current = s, sq_recorded = h\<rparr>, Inr True))"

definition redo :: "(sequencer, layout_error, bool) sx" where
  "redo q = (case stepForward (sq_recorded q) (sq_current q) of
      Inl e \<Rightarrow> (q, Inl e)
    | Inr None \<Rightarrow> (q, Inr False)
    | Inr (Some (h, s)) \<Rightarrow> (\<lparr>sq_current = s, sq_recorded = h\<rparr>, Inr True))"

text \<open>A session at the surface: intents, undos and redos in any order; a refused intent changes nothing.\<close>

datatype surface_command = Do_Intent "layout_op list" | Do_Undo | Do_Redo

fun command_ok :: "surface_command \<Rightarrow> bool" where
  "command_ok (Do_Intent ops) = list_all user_op ops"
| "command_ok _ = True"

fun run_command :: "sequencer \<Rightarrow> surface_command \<Rightarrow> sequencer \<times> (layout_error, unit) res" where
  "run_command q (Do_Intent ops) = (fst (dispatchAll ops q), Inr ())"
| "run_command q Do_Undo = (case undo q of (q', Inl e) \<Rightarrow> (q', Inl e) | (q', Inr b) \<Rightarrow> (q', Inr ()))"
| "run_command q Do_Redo = (case redo q of (q', Inl e) \<Rightarrow> (q', Inl e) | (q', Inr b) \<Rightarrow> (q', Inr ()))"

fun surface_session :: "sequencer \<Rightarrow> surface_command list \<Rightarrow> (layout_error, sequencer) res" where
  "surface_session q [] = Inr q"
| "surface_session q (c # cs) = (case run_command q c of (q', Inl e) \<Rightarrow> Inl e | (q', Inr _) \<Rightarrow> surface_session q' cs)"

section \<open>The engine keeps the contract of a history\<close>

lemma replay_run: "replay = run_ops applyOp"
  by (simp add: fun_eq_iff replay_def run_ops_def)


lemma same_resultD: "same_result (Inr (t, u)) q \<Longrightarrow> \<exists>t'. q = Inr (t', u) \<and> layout_eq t t'"
  by (simp add: same_result_def)

lemma replay_keyed: "replay s ops = Inr t \<Longrightarrow> keyed s \<Longrightarrow> keyed t"
  by (induction ops arbitrary: s) (auto simp: replay_run split: sum.splits dest: applyOp_keyed)

fun order_free :: "layout_op \<Rightarrow> bool" where
  "order_free (Op_RestoreFocus _ _ _) = True"
| "order_free (Op_Resize _ _) = True"
| "order_free _ = False"

definition inverse_ok :: "layout_op list \<Rightarrow> bool" where
  "inverse_ok u \<longleftrightarrow> (\<exists>a. u = [a] \<or> (\<exists>b. u = [a, b] \<and> order_free b))"

definition inverse_result :: "applied \<Rightarrow> bool" where
  "inverse_result r \<longleftrightarrow> (\<forall>t u. r = Inr (t, u) \<longrightarrow> inverse_ok u)"

lemma inverse_rules [intro!]:
  "(\<And>x. m = Inr x \<Longrightarrow> inverse_result (F x)) \<Longrightarrow> inverse_result (rbind m F)"
  "inverse_ok u \<Longrightarrow> inverse_result (Inr (s, u))" "inverse_result (Inl e)"
  by (auto simp: inverse_result_def rbind_eq_Inr)

lemma inverse_ok_simps [simp]: "inverse_ok [a]" "inverse_ok [a, b] \<longleftrightarrow> order_free b"
  by (simp_all add: inverse_ok_def)

lemma focus_order_free: "focusSnapshot s ids = Inr b \<Longrightarrow> order_free b"
  by (auto simp: focusSnapshot_def rbind_eq_Inr)

lemma inverse_shape:
  assumes "user_op op"
  shows "inverse_result (applyOp s op)"
proof -
  have "inverse_result (applySplit s k x d n m)" for k x d n m
    by (auto simp: applySplit_def wrapSplit_def Let_def simp del: with_more split: option.splits)
  moreover have "inverse_result (applyMerge s k)" for k
    by (auto simp: applyMerge_def Let_def focus_order_free simp del: with_more split: option.splits)
  moreover have "inverse_result (applyCloseTab s k)" for k
    by (auto simp: applyCloseTab_def Let_def focus_order_free simp del: with_more)
  ultimately show ?thesis
    using assms by (cases op) (auto simp: applyOpenTab_def applyInsertTab_def applyMoveTab_def applyReorderTab_def applyFocusTab_def
      applyFocusPane_def applyResize_def applyFloat_def applyUnfloat_def applyMoveFloat_def applyResizeFloat_def Let_def
      focus_order_free simp del: with_more)
qed

lemma later_cong: "layout_eq s t \<Longrightarrow> order_free b \<Longrightarrow> same_result (applyOp s b) (applyOp t b)"
  by (cases b) (simp_all add: restoreFocus_cong resize_cong)

lemma undo_from_same:
  assumes "layout_wf s" "user_op op" "applyOp s op = Inr (t, u)" "layout_eq t t'" "layout_wf t'"
  shows "\<exists>r. run_ops applyOp t' u = Inr r \<and> layout_eq r s \<and> layout_wf r"
proof -
  have wt: "layout_wf t" using applyOp_wf [OF assms(1-3)] .
  obtain r where r: "run_ops applyOp t u = Inr r" "layout_eq r s"
    using applyOp_undone [OF assms(1-3)] by (auto simp: undone_def replay_run)
  have "inverse_ok u" using inverse_shape [OF assms(2), of s] assms(3) by (simp add: inverse_result_def)
  then obtain a w where u: "u = a # w" "w = [] \<or> (\<exists>b. w = [b] \<and> order_free b)" by (auto simp: inverse_ok_def)
  obtain r1 v where r1: "applyOp t a = Inr (r1, v)" "run_ops applyOp r1 w = Inr r"
    using r(1) by (auto simp: u(1) split: sum.splits)
  obtain r1' where r1': "applyOp t' a = Inr (r1', v)" "layout_eq r1 r1'"
    using same_resultD [OF applyOp_cong [OF assms(4) wt assms(5), of a, unfolded r1(1)]] by blast
  have "\<exists>r'. run_ops applyOp t' u = Inr r' \<and> layout_eq r r'"
    using u(2)
  proof
    assume "w = []"
    then show ?thesis using r1 r1' by (simp add: u(1))
  next
    assume "\<exists>b. w = [b] \<and> order_free b"
    then obtain b where b: "w = [b]" "order_free b" by blast
    obtain x where x: "applyOp r1 b = Inr (r, x)" using r1(2) by (auto simp: b(1) split: sum.splits)
    from same_resultD [OF later_cong [OF r1'(2) b(2), unfolded x]] show ?thesis
      using r1' by (auto simp: u(1) b(1))
  qed
  then obtain r' where r': "run_ops applyOp t' u = Inr r'" "layout_eq r r'" by blast
  have e: "layout_eq r' s" using layout_eq_trans [OF layout_eq_sym [OF r'(2)] r(2)] .
  have "keyed r'" using replay_keyed r'(1) wf_keyed [OF assms(5)] by (simp add: replay_run)
  then have "layout_wf r'" using layout_wf_cong [OF assms(1) layout_eq_sym [OF e]] by blast
  then show ?thesis using r'(1) e by blast
qed

lemma do_from_same:
  "layout_wf s \<Longrightarrow> layout_wf s' \<Longrightarrow> layout_eq s s' \<Longrightarrow> user_op op \<Longrightarrow> applyOp s op = Inr (t, u) \<Longrightarrow>
     \<exists>t'. applyOp s' op = Inr (t', u) \<and> layout_eq t t'"
  using applyOp_cong [of s s' op] by (simp add: same_result_def)

interpretation dock: undo_engine applyOp layout_eq layout_wf user_op
  by (rule undo_engine.intro [OF layout_eq_refl layout_eq_sym layout_eq_trans applyOp_wf do_from_same undo_from_same])

section \<open>How far one step goes\<close>

lemma back_run_spec:
  "n \<le> back_run h n \<and> (\<forall>i. n \<le> i \<longrightarrow> i < back_run h n \<longrightarrow> isFocusEntry h (int (hs_cursor h) - 1 - int i))
     \<and> \<not> isFocusEntry h (int (hs_cursor h) - 1 - int (back_run h n))"
proof (induction h n rule: back_run.induct)
  case (1 h n)
  show ?case
  proof (cases "isFocusEntry h (int (hs_cursor h) - 1 - int n)")
    case True
    have "isFocusEntry h (int (hs_cursor h) - 1 - int i)" if "n \<le> i" "i < back_run h (Suc n)" for i
      using 1 [OF True] True that by (cases "i = n") auto
    then show ?thesis using 1 [OF True] True by (simp add: back_run.simps [of h n])
  next
    case False
    then show ?thesis by (simp add: back_run.simps [of h n])
  qed
qed

lemma forward_run_eq:
  "n \<le> m \<Longrightarrow> (\<And>i. n \<le> i \<Longrightarrow> i < m \<Longrightarrow> isFocusEntry h (int (hs_cursor h) + int i)) \<Longrightarrow>
     \<not> isFocusEntry h (int (hs_cursor h) + int m) \<Longrightarrow> forward_run h n = m"
proof (induction "m - n" arbitrary: n)
  case 0
  then show ?case by (simp add: forward_run.simps [of h n])
next
  case (Suc k)
  then have "isFocusEntry h (int (hs_cursor h) + int n)" by simp
  moreover have "forward_run h (Suc n) = m" using Suc by (intro Suc.hyps(1)) auto
  ultimately show ?case by (simp add: forward_run.simps [of h n])
qed

lemma forward_run_spec:
  "n \<le> forward_run h n \<and> (\<forall>i. n \<le> i \<longrightarrow> i < forward_run h n \<longrightarrow> isFocusEntry h (int (hs_cursor h) + int i))
     \<and> \<not> isFocusEntry h (int (hs_cursor h) + int (forward_run h n))"
proof (induction h n rule: forward_run.induct)
  case (1 h n)
  show ?case
  proof (cases "isFocusEntry h (int (hs_cursor h) + int n)")
    case True
    have "isFocusEntry h (int (hs_cursor h) + int i)" if "n \<le> i" "i < forward_run h (Suc n)" for i
      using 1 [OF True] True that by (cases "i = n") auto
    then show ?thesis using 1 [OF True] True by (simp add: forward_run.simps [of h n])
  next
    case False
    then show ?thesis by (simp add: forward_run.simps [of h n])
  qed
qed

definition at_boundary :: "history \<Rightarrow> bool" where
  "at_boundary h \<longleftrightarrow> \<not> (isFocusEntry h (int (hs_cursor h) - 1) \<and> isFocusEntry h (int (hs_cursor h)))"

lemma entry_bounds: "isFocusEntry h i \<Longrightarrow> 0 \<le> i \<and> i < int (length (hs_entries h))"
  by (simp add: isFocusEntry_def)

lemma same_entries: "hs_entries h' = hs_entries h \<Longrightarrow> isFocusEntry h' = isFocusEntry h"
  by (simp add: fun_eq_iff isFocusEntry_def)

lemma back_count_bounds: "hs_cursor h > 0 \<Longrightarrow> 1 \<le> back_count h \<and> back_count h \<le> hs_cursor h"
proof -
  assume c: "hs_cursor h > 0"
  show ?thesis
  proof (cases "isFocusEntry h (int (hs_cursor h) - 1)")
    case True
    note s = back_run_spec [of 1 h]
    have "back_run h 1 \<le> hs_cursor h"
    proof (rule ccontr)
      assume "\<not> back_run h 1 \<le> hs_cursor h"
      then have "1 \<le> hs_cursor h" "hs_cursor h < back_run h 1" using c by simp_all
      then have "isFocusEntry h (int (hs_cursor h) - 1 - int (hs_cursor h))" using s by blast
      from entry_bounds [OF this] show False by simp
    qed
    then show ?thesis using s True by (simp add: back_count_def)
  qed (use c in \<open>simp add: back_count_def\<close>)
qed

lemma forward_count_bounds: "hs_cursor h < length (hs_entries h) \<Longrightarrow> 1 \<le> forward_count h \<and> hs_cursor h + forward_count h \<le> length (hs_entries h)"
proof -
  assume c: "hs_cursor h < length (hs_entries h)"
  show ?thesis
  proof (cases "isFocusEntry h (int (hs_cursor h))")
    case True
    note s = forward_run_spec [of 1 h]
    have "hs_cursor h + forward_run h 1 \<le> length (hs_entries h)"
    proof (rule ccontr)
      assume a: "\<not> ?thesis"
      define i where "i = length (hs_entries h) - hs_cursor h"
      have "1 \<le> i" "i < forward_run h 1" "int (hs_cursor h) + int i = int (length (hs_entries h))" using a c by (auto simp: i_def)
      then have "isFocusEntry h (int (length (hs_entries h)))" using s by metis
      then show False using entry_bounds by fastforce
    qed
    then show ?thesis using s True by (simp add: forward_count_def)
  qed (use c in \<open>simp add: forward_count_def\<close>)
qed

lemma cursor_simps [simp]: "isFocusEntry (h\<lparr>hs_cursor := x\<rparr>) i = isFocusEntry h i"
  by (simp add: isFocusEntry_def)

lemma back_boundary:
  assumes "hs_cursor h > 0"
  shows "at_boundary (h\<lparr>hs_cursor := hs_cursor h - back_count h\<rparr>)"
proof -
  note b = back_count_bounds [OF assms]
  show ?thesis
  proof (cases "isFocusEntry h (int (hs_cursor h) - 1)")
    case True
    have "int (hs_cursor h - back_count h) - 1 = int (hs_cursor h) - 1 - int (back_run h 1)"
      using b True by (simp add: of_nat_diff back_count_def)
    then have "\<not> isFocusEntry h (int (hs_cursor h - back_count h) - 1)" using back_run_spec [of 1 h] by metis
    then show ?thesis by (simp add: at_boundary_def)
  next
    case False
    then have "int (hs_cursor h - back_count h) = int (hs_cursor h) - 1" using assms by (simp add: back_count_def of_nat_diff)
    then have "\<not> isFocusEntry h (int (hs_cursor h - back_count h))" using False by metis
    then show ?thesis by (simp add: at_boundary_def)
  qed
qed

lemma forward_boundary: "at_boundary (h\<lparr>hs_cursor := hs_cursor h + forward_count h\<rparr>)"
proof (cases "isFocusEntry h (int (hs_cursor h))")
  case True
  have "int (hs_cursor h + forward_count h) = int (hs_cursor h) + int (forward_run h 1)" using True by (simp add: forward_count_def)
  then have "\<not> isFocusEntry h (int (hs_cursor h + forward_count h))" using forward_run_spec [of 1 h] by metis
  then show ?thesis by (simp add: at_boundary_def)
next
  case False
  then have "int (hs_cursor h + forward_count h) - 1 = int (hs_cursor h)" by (simp add: forward_count_def)
  then have "\<not> isFocusEntry h (int (hs_cursor h + forward_count h) - 1)" using False by metis
  then show ?thesis by (simp add: at_boundary_def)
qed

lemma forward_after_back:
  assumes "hs_cursor h > 0" "at_boundary h"
  shows "forward_count (h\<lparr>hs_cursor := hs_cursor h - back_count h\<rparr>) = back_count h"
proof -
  let ?h = "h\<lparr>hs_cursor := hs_cursor h - back_count h\<rparr>" and ?b = "back_count h"
  note b = back_count_bounds [OF assms(1)]
  show ?thesis
  proof (cases "isFocusEntry h (int (hs_cursor h) - 1)")
    case True
    have f: "isFocusEntry h (int (hs_cursor h) - 1 - int i)" if "i < ?b" for i
      using back_run_spec [of 1 h] True that by (cases "i = 0") (auto simp: back_count_def simp del: diff_diff_eq)
    have at: "isFocusEntry ?h (int (hs_cursor ?h) + int i)" if "i < ?b" for i
    proof -
      have i: "int (hs_cursor ?h) + int i = int (hs_cursor h) - 1 - int (?b - 1 - i)" using b that by (simp add: of_nat_diff)
      have "isFocusEntry h (int (hs_cursor h) - 1 - int (?b - 1 - i))" using that by (intro f) simp
      then show ?thesis unfolding cursor_simps i .
    qed
    have "int (hs_cursor ?h) + int ?b = int (hs_cursor h)" using b by (simp add: of_nat_diff)
    then have "\<not> isFocusEntry ?h (int (hs_cursor ?h) + int ?b)"
      using assms(2) True unfolding cursor_simps at_boundary_def by simp
    then have "forward_run ?h 1 = ?b" using b at by (intro forward_run_eq) auto
    then show ?thesis using at [of 0] b by (simp add: forward_count_def)
  next
    case False
    then have "?b = 1" "int (hs_cursor h - 1) = int (hs_cursor h) - 1" using assms(1) by (simp_all add: back_count_def of_nat_diff)
    then show ?thesis using False by (simp add: forward_count_def)
  qed
qed

section \<open>The sequencer's invariant\<close>

abbreviation pairs :: "history_entry list \<Rightarrow> (layout_op list \<times> layout_op list) list" where
  "pairs es \<equiv> map (\<lambda>e. (he_ops e, he_inverse e)) es"

definition applied_ops :: "history \<Rightarrow> layout_op list" where
  "applied_ops h = concat (map he_ops (take (hs_cursor h) (hs_entries h)))"

text \<open>The entries were recorded in order from the initial layout, and the current one is what they give.\<close>

definition sequencer_ok :: "layout_state \<Rightarrow> sequencer \<Rightarrow> bool" where
  "sequencer_ok s0 q \<longleftrightarrow> (let h = sq_recorded q in
     chain applyOp user_op s0 (pairs (hs_entries h)) \<and> hs_cursor h \<le> length (hs_entries h) \<and> at_boundary h
     \<and> layout_wf (sq_current q) \<and> (\<exists>t. replay s0 (applied_ops h) = Inr t \<and> layout_eq t (sq_current q)))"

lemma pairs_comp [simp]: "fst \<circ> (\<lambda>e. (he_ops e, he_inverse e)) = he_ops" "snd \<circ> (\<lambda>e. (he_ops e, he_inverse e)) = he_inverse"
  by (simp_all add: fun_eq_iff)

lemma pairs_ops: "concat (map fst (pairs es)) = concat (map he_ops es)" "concat (map snd (rev (pairs es))) = concat (map he_inverse (rev es))"
  by (induction es) simp_all

lemma chain_slice:
  assumes "chain applyOp user_op s0 (pairs es)" "a + n \<le> length es" "layout_wf s0"
    "replay s0 (concat (map he_ops (take a es))) = Inr s"
  shows "chain applyOp user_op s (pairs (take n (drop a es)))" "layout_wf s"
    "\<exists>t. replay s0 (concat (map he_ops (take (a + n) es))) = Inr t
       \<and> run_ops applyOp s (concat (map he_ops (take n (drop a es)))) = Inr t \<and> layout_wf t"
proof -
  have e: "pairs es = pairs (take a es) @ pairs (take n (drop a es)) @ pairs (drop (a + n) es)"
  proof -
    have "es = take a es @ take n (drop a es) @ drop n (drop a es)" by (simp only: append_take_drop_id)
    moreover have "drop n (drop a es) = drop (a + n) es" by (simp add: add.commute)
    ultimately show ?thesis by (metis (no_types) map_append)
  qed
  have c: "chain applyOp user_op s0 (pairs (take a es))" "chain applyOp user_op s (pairs (take n (drop a es)))"
    using assms(1,4) unfolding e by (auto simp: chain_append pairs_ops replay_run)
  show "chain applyOp user_op s (pairs (take n (drop a es)))" by (rule c)
  show s: "layout_wf s"
    using dock.run_good [OF assms(3) dock.chain_user [OF c(1)]] assms(4) by (simp add: pairs_ops replay_run)
  obtain t where t: "run_ops applyOp s (concat (map he_ops (take n (drop a es)))) = Inr t"
    using dock.chain_run [OF c(2)] by (auto simp: pairs_ops)
  moreover have "take (a + n) es = take a es @ take n (drop a es)" by (rule take_add)
  moreover have "layout_wf t" using dock.run_good [OF s dock.chain_user [OF c(2)]] t by (simp add: pairs_ops)
  ultimately show "\<exists>t. replay s0 (concat (map he_ops (take (a + n) es))) = Inr t
       \<and> run_ops applyOp s (concat (map he_ops (take n (drop a es)))) = Inr t \<and> layout_wf t"
    using assms(4) by (simp add: replay_run run_ops_append)
qed

lemma new_sequencer_ok: "layout_wf s0 \<Longrightarrow> sequencer_ok s0 (new_sequencer s0)"
  by (simp add: sequencer_ok_def new_sequencer_def EMPTY_HISTORY_def at_boundary_def isFocusEntry_def applied_ops_def replay_run)

lemma dispatch_ok:
  assumes "layout_wf s0" "sequencer_ok s0 q" "list_all user_op ops"
  shows "sequencer_ok s0 (fst (dispatchAll ops q))"
proof (cases "record_ops applyOp (sq_current q) ops")
  case (Inl e)
  then show ?thesis using assms(2) by (auto simp: dispatchAll_def record_intent_def)
next
  case (Inr r)
  obtain s u where r: "record_ops applyOp (sq_current q) ops = Inr (s, u)" using Inr by (cases r) auto
  define h where "h = sq_recorded q"
  define c where "c = hs_cursor h"
  obtain t where q: "chain applyOp user_op s0 (pairs (hs_entries h))" "c \<le> length (hs_entries h)"
    "layout_wf (sq_current q)" "replay s0 (concat (map he_ops (take c (hs_entries h)))) = Inr t" "layout_eq t (sq_current q)"
    using assms(2) by (auto simp: sequencer_ok_def h_def c_def Let_def applied_ops_def)
  show ?thesis
  proof (cases "ops = []")
    case True
    then show ?thesis using assms(2) by (cases q) (simp add: dispatchAll_def record_intent_def)
  next
    case False
    define h' where "h' = \<lparr>hs_entries = take c (hs_entries h) @ [\<lparr>he_ops = ops, he_inverse = u\<rparr>], hs_cursor = c + 1\<rparr>"
    have d: "fst (dispatchAll ops q) = \<lparr>sq_current = s, sq_recorded = h'\<rparr>"
      using r False by (simp add: dispatchAll_def record_intent_def h'_def h_def c_def Let_def)
    have tw: "layout_wf t" using chain_slice(2) [OF q(1) _ assms(1) q(4), of 0] q(2) by simp
    obtain t' where t': "record_ops applyOp t ops = Inr (t', u)" "layout_eq s t'" "layout_wf s"
      using dock.record_same [OF q(3) tw layout_eq_sym [OF q(5)] assms(3) r] by blast
    have "chain applyOp user_op s0 (pairs (take c (hs_entries h)))"
      using chain_slice(1) [OF q(1) _ assms(1), of 0 c] q(2) by (simp add: replay_run)
    then have "chain applyOp user_op s0 (pairs (hs_entries h'))"
      using q(4) t'(1) assms(3) by (simp add: h'_def chain_append pairs_ops replay_run)
    moreover have "replay s0 (applied_ops h') = Inr t'"
      using q(2,4) record_ops_run [OF t'(1)] by (simp add: applied_ops_def h'_def replay_run run_ops_append)
    moreover have "at_boundary h'" using q(2) by (simp add: at_boundary_def isFocusEntry_def h'_def)
    ultimately show ?thesis
      unfolding d sequencer_ok_def using layout_eq_sym [OF t'(2)] t'(3) q(2) by (auto simp: h'_def Let_def)
  qed
qed

lemma undo_ok:
  assumes "layout_wf s0" "sequencer_ok s0 q"
  shows "\<exists>q' b. undo q = (q', Inr b) \<and> sequencer_ok s0 q' \<and> b = canStepBack (sq_recorded q)
    \<and> (b \<longrightarrow> sq_recorded q' = (sq_recorded q)\<lparr>hs_cursor := hs_cursor (sq_recorded q) - back_count (sq_recorded q)\<rparr>)"
proof (cases "canStepBack (sq_recorded q)")
  case False
  then show ?thesis using assms(2) by (intro exI [of _ q] exI [of _ False]) (simp add: undo_def stepBack_def)
next
  case True
  define h where "h = sq_recorded q"
  define c where "c = hs_cursor h - back_count h"
  define n where "n = back_count h"
  have b: "1 \<le> n" "n \<le> hs_cursor h" "hs_cursor h > 0" "c + n = hs_cursor h"
    using True back_count_bounds [of h] by (auto simp: canStepBack_def h_def n_def c_def)
  obtain t where q: "chain applyOp user_op s0 (pairs (hs_entries h))" "hs_cursor h \<le> length (hs_entries h)"
    "layout_wf (sq_current q)" "replay s0 (concat (map he_ops (take (c + n) (hs_entries h)))) = Inr t" "layout_eq t (sq_current q)"
    using assms(2) b(4) by (auto simp: sequencer_ok_def h_def Let_def applied_ops_def)
  obtain s where s: "replay s0 (concat (map he_ops (take c (hs_entries h)))) = Inr s"
    using chain_slice(3) [OF q(1) _ assms(1), of 0 c s0] q(2) b by (auto simp: replay_run)
  note ch = chain_slice [OF q(1) _ assms(1) s, of n]
  have cn: "c + n \<le> length (hs_entries h)" using b q(2) by simp
  have t: "run_ops applyOp s (concat (map he_ops (take n (drop c (hs_entries h))))) = Inr t"
    using ch(3) [OF cn] q(4) by simp
  obtain r where r: "run_ops applyOp (sq_current q) (concat (map he_inverse (rev (take n (drop c (hs_entries h)))))) = Inr r"
    "layout_eq r s" "layout_wf r"
    using dock.chain_back [OF ch(2) [OF cn] ch(1) [OF cn] _ q(5,3)] t unfolding pairs_ops by blast
  define q' where "q' = \<lparr>sq_current = r, sq_recorded = h\<lparr>hs_cursor := c\<rparr>\<rparr>"
  have cc: "hs_cursor h - n = c" by (simp add: c_def n_def)
  have u: "undo q = (q', Inr True)"
    using True r(1) by (simp add: undo_def stepBack_def h_def [symmetric] n_def [symmetric] cc Let_def
        replay_run run_ops_fold q'_def)
  have "sequencer_ok s0 q'"
    using q(1,2) b s r layout_eq_sym back_boundary [OF b(3)]
    by (auto simp: sequencer_ok_def q'_def Let_def applied_ops_def c_def)
  then show ?thesis using u True by (auto simp: q'_def h_def c_def)
qed

lemma redo_ok:
  assumes "layout_wf s0" "sequencer_ok s0 q"
  shows "\<exists>q' b. redo q = (q', Inr b) \<and> sequencer_ok s0 q' \<and> b = canStepForward (sq_recorded q)
    \<and> (b \<longrightarrow> sq_recorded q' = (sq_recorded q)\<lparr>hs_cursor := hs_cursor (sq_recorded q) + forward_count (sq_recorded q)\<rparr>)"
proof (cases "canStepForward (sq_recorded q)")
  case False
  then show ?thesis using assms(2) by (intro exI [of _ q] exI [of _ False]) (simp add: redo_def stepForward_def)
next
  case True
  define h where "h = sq_recorded q"
  define c where "c = hs_cursor h"
  define n where "n = forward_count h"
  have b: "1 \<le> n" "c + n \<le> length (hs_entries h)"
    using True forward_count_bounds [of h] by (auto simp: canStepForward_def h_def n_def c_def)
  obtain s where q: "chain applyOp user_op s0 (pairs (hs_entries h))" "layout_wf (sq_current q)"
    "replay s0 (concat (map he_ops (take c (hs_entries h)))) = Inr s" "layout_eq s (sq_current q)"
    using assms(2) by (auto simp: sequencer_ok_def h_def c_def Let_def applied_ops_def)
  note ch = chain_slice [OF q(1) b(2) assms(1) q(3)]
  obtain t where t: "replay s0 (concat (map he_ops (take (c + n) (hs_entries h)))) = Inr t"
    "run_ops applyOp s (concat (map he_ops (take n (drop c (hs_entries h))))) = Inr t"
    using ch(3) by blast
  have "list_all user_op (concat (map he_ops (take n (drop c (hs_entries h)))))"
    using dock.chain_user [OF ch(1)] by (simp add: pairs_ops)
  then obtain r where r: "run_ops applyOp (sq_current q) (concat (map he_ops (take n (drop c (hs_entries h))))) = Inr r"
    "layout_eq t r" "layout_wf r"
    using dock.run_same [OF ch(2) q(2,4) _ t(2)] by blast
  define q' where "q' = \<lparr>sq_current = r, sq_recorded = h\<lparr>hs_cursor := c + n\<rparr>\<rparr>"
  have u: "redo q = (q', Inr True)"
    using True r(1) by (simp add: redo_def stepForward_def h_def [symmetric] n_def [symmetric] c_def [symmetric] Let_def
        replay_run run_ops_fold q'_def)
  have "sequencer_ok s0 q'"
    using q(1) b t r forward_boundary [of h]
    by (auto simp: sequencer_ok_def q'_def Let_def applied_ops_def c_def n_def)
  then show ?thesis using u True by (auto simp: q'_def h_def c_def n_def)
qed

lemma session_ok:
  "layout_wf s0 \<Longrightarrow> sequencer_ok s0 q \<Longrightarrow> list_all command_ok cs \<Longrightarrow> \<exists>q'. surface_session q cs = Inr q' \<and> sequencer_ok s0 q'"
proof (induction cs arbitrary: q)
  case (Cons c cs)
  have "\<exists>q1. run_command q c = (q1, Inr ()) \<and> sequencer_ok s0 q1"
  proof (cases c)
    case (Do_Intent ops)
    then show ?thesis using dispatch_ok [OF Cons.prems(1,2), of ops] Cons.prems(3) by simp
  next
    case Do_Undo
    then show ?thesis using undo_ok [OF Cons.prems(1,2)] by auto
  next
    case Do_Redo
    then show ?thesis using redo_ok [OF Cons.prems(1,2)] by auto
  qed
  then obtain q1 where "run_command q c = (q1, Inr ())" "sequencer_ok s0 q1" by blast
  then show ?case using Cons.IH [of q1] Cons.prems by simp
qed auto

end
