(* ===== verification/Dock_Planner.thy ===== *)
theory Dock_Planner
  imports Dock_Operations
begin

text \<open>
  What the interaction layer decides before it dispatches: the limits and dock geometry
  (\<open>engine/constraints.ts\<close>), the identity mint and the starting layout (\<open>engine/initial.ts\<close>), and the plans
  that turn an intent into operations (\<open>engine/planner.ts\<close>). The mint's counter is passed along; the
  embedder's tab factory is a parameter, the identity given to the tab record it returns.
\<close>

section \<open>Limits and geometry\<close>

definition MAX_DOCK_PANES :: nat where "MAX_DOCK_PANES = 4"
definition MIN_PANE_FRACTION :: rat where "MIN_PANE_FRACTION = 12 / 100"
definition FLOAT_DEFAULT_SIZE :: "rat \<times> rat" where "FLOAT_DEFAULT_SIZE = (380, 300)"
definition DOCK_EDGE_FRACTION :: rat where "DOCK_EDGE_FRACTION = 1 / 4"

definition dockPaneCount :: "layout_state \<Rightarrow> nat lay" where
  "dockPaneCount s = rbind (dockPaneIds s) (\<lambda>ids. Inr (length ids))"

definition canSplit :: "layout_state \<Rightarrow> bool lay" where
  "canSplit s = rbind (dockPaneCount s) (\<lambda>n. Inr (n < MAX_DOCK_PANES))"

definition zoneAt :: "rat \<Rightarrow> rat \<Rightarrow> rat \<Rightarrow> dock_zone" where
  "zoneAt x y edge_width =
     (let (z0, d0) = (Zone_Left, x);
          (z1, d1) = (if 1 - x < d0 then (Zone_Right, 1 - x) else (z0, d0));
          (z2, d2) = (if y < d1 then (Zone_Top, y) else (z1, d1));
          (z3, d3) = (if 1 - y < d2 then (Zone_Bottom, 1 - y) else (z2, d2))
      in if d3 < edge_width then z3 else Zone_Center)"

fun zoneSplit :: "dock_zone \<Rightarrow> (split_axis \<times> split_direction) option" where
  "zoneSplit Zone_Center = None"
| "zoneSplit Zone_Left = Some (Row_Axis, Side_Before)"
| "zoneSplit Zone_Right = Some (Row_Axis, Side_After)"
| "zoneSplit Zone_Top = Some (Column_Axis, Side_Before)"
| "zoneSplit Zone_Bottom = Some (Column_Axis, Side_After)"

text \<open>The positions one pass pins, and the shares after it.\<close>

definition under_floor :: "rat \<Rightarrow> nat list \<Rightarrow> rat list \<Rightarrow> nat list" where
  "under_floor lowest pinned shares = filter (\<lambda>i. i \<notin> set pinned \<and> shares ! i < lowest) [0..<length shares]"

definition reshare :: "rat \<Rightarrow> nat list \<Rightarrow> rat list \<Rightarrow> rat list" where
  "reshare lowest pinned shares =
     (let remainder = 1 - of_nat (length pinned) * lowest;
          freeTotal = sum_list (map (\<lambda>i. if i \<in> set pinned then 0 else shares ! i) [0..<length shares])
      in map (\<lambda>i. if i \<in> set pinned then lowest else shares ! i / freeTotal * remainder) [0..<length shares])"

function clamp_loop :: "rat \<Rightarrow> nat list \<Rightarrow> rat list \<Rightarrow> rat list" where
  "clamp_loop lowest pinned shares = (let under = under_floor lowest pinned shares in
     if under = [] then shares
     else clamp_loop lowest (pinned @ under) (reshare lowest (pinned @ under) shares))"
  by auto
termination
proof (relation "measure (\<lambda>(lowest, pinned, shares). card ({..<length shares} - set pinned))", goal_cases)
  case (2 lowest pinned shares under)
  let ?u = "under_floor lowest pinned shares"
  obtain i where i: "i \<in> set ?u" using 2 by (cases ?u) auto
  then have "i < length shares" "i \<notin> set pinned" by (auto simp: under_floor_def)
  then have "{..<length shares} - set (pinned @ ?u) \<subset> {..<length shares} - set pinned" using i by auto
  then show ?case using 2(1) by (simp add: psubset_card_mono reshare_def Let_def)
qed simp

declare clamp_loop.simps [simp del]

definition clampSizes :: "rat list \<Rightarrow> rat \<Rightarrow> rat list" where
  "clampSizes sizes minimum = (if sizes = [] then [] else
     let lowest = min minimum (1 / of_nat (length sizes));
         positive = map (\<lambda>x. if x > 0 then x else 0) sizes;
         total = sum_list positive;
         shares = (if total > 0 then map (\<lambda>x. x / total) positive else map (\<lambda>_. 1 / of_nat (length sizes)) positive)
     in clamp_loop lowest [] shares)"

section \<open>The mint and the starting layout\<close>

record id_minter =
  im_counter :: nat

definition createIdMinter :: "nat \<Rightarrow> id_minter" where
  "createIdMinter seed = \<lparr>im_counter = seed\<rparr>"

definition mint :: "id_minter \<Rightarrow> string \<Rightarrow> string \<times> id_minter" where
  "mint m prefix = (let n = im_counter m + 1 in (prefix @ show_nat n, m\<lparr>im_counter := n\<rparr>))"

type_synonym tab_factory = "string \<Rightarrow> tab_record"

definition createInitialState :: "id_minter \<Rightarrow> tab_factory option \<Rightarrow> dock_mode \<Rightarrow> layout_state \<times> id_minter" where
  "createInitialState m makeInitialTab mode =
     (let (paneId, m1) = mint m ''pane'';
          (initial, m2) = (case makeInitialTab of None \<Rightarrow> (None, m1)
             | Some f \<Rightarrow> let (t, m') = mint m1 ''tab'' in (Some (f t), m'))
      in (\<lparr>ly_nodes = [(paneId, Pane_Node \<lparr>pn_id = paneId, pn_host = Host_Dock,
               pn_tabs = (case initial of None \<Rightarrow> [] | Some t \<Rightarrow> [tb_id t]), pn_active = map_option tb_id initial, pn_rect = None\<rparr>)],
            ly_tabs = (case initial of None \<Rightarrow> [] | Some t \<Rightarrow> [(tb_id t, t)]),
            ly_root = paneId, ly_floats = [], ly_active = paneId, ly_expanded = False, ly_mode = mode\<rparr>, m2))"

section \<open>Plans\<close>

type_synonym plan = "(layout_op list \<times> id_minter) lay"

record open_content_input =
  oc_content :: string
  oc_title :: string
  oc_kind :: string
  oc_pane :: "string option"
  oc_index :: "int option"
  oc_reveal :: bool

definition findPaneContentTab :: "layout_state \<Rightarrow> string \<Rightarrow> string \<Rightarrow> string option \<Rightarrow> string option lay" where
  "findPaneContentTab s paneId contentId kind =
     rbind (getPane s paneId) (\<lambda>p. Inr (find (\<lambda>t. case amap_get (ly_tabs s) t of None \<Rightarrow> False
       | Some tab \<Rightarrow> tb_content tab = contentId \<and> (kind = None \<or> kind = Some (tb_kind tab))) (pn_tabs p)))"

fun first_found :: "('a \<Rightarrow> 'b option lay) \<Rightarrow> 'a list \<Rightarrow> 'b option lay" where
  "first_found f [] = Inr None"
| "first_found f (x # xs) = rbind (f x) (\<lambda>r. case r of None \<Rightarrow> first_found f xs | Some y \<Rightarrow> Inr (Some y))"

definition findContentTab :: "layout_state \<Rightarrow> string \<Rightarrow> string option \<Rightarrow> string option lay" where
  "findContentTab s contentId kind = rbind (dockPaneIds s) (\<lambda>ids.
     first_found (\<lambda>p. findPaneContentTab s p contentId kind) (ids @ ly_floats s))"

definition activeDockPaneId :: "layout_state \<Rightarrow> string lay" where
  "activeDockPaneId s = rbind (getPane s (ly_active s)) (\<lambda>p.
     if pn_host p = Host_Dock then Inr (pn_id p) else firstDockPaneId s)"

definition tabInto :: "pane_node \<Rightarrow> string \<Rightarrow> string \<Rightarrow> int \<Rightarrow> layout_op" where
  "tabInto source tabId toPaneId index =
     (if pn_host source = Host_Float then Op_Unfloat (pn_id source) toPaneId index else Op_MoveTab tabId toPaneId index)"

definition planSetExpanded :: "layout_state \<Rightarrow> bool \<Rightarrow> layout_op list" where
  "planSetExpanded s b = (if ly_expanded s = b then [] else [Op_SetExpanded b])"

definition planSetMode :: "layout_state \<Rightarrow> dock_mode \<Rightarrow> layout_op list" where
  "planSetMode s m = (if ly_mode s = m then [] else [Op_SetMode m])"

definition pane_or_active :: "layout_state \<Rightarrow> string option \<Rightarrow> string lay" where
  "pane_or_active s p = (case p of Some i \<Rightarrow> Inr i | None \<Rightarrow> activeDockPaneId s)"

definition planSplitPane :: "layout_state \<Rightarrow> id_minter \<Rightarrow> string option \<Rightarrow> tab_factory option \<Rightarrow> plan" where
  "planSplitPane s m paneId makePaneTab =
     rbind (canSplit s) (\<lambda>ok. if \<not> ok then Inr ([], m) else
     rbind (pane_or_active s paneId) (\<lambda>target.
     rbind (getPane s target) (\<lambda>p. if pn_host p \<noteq> Host_Dock then Inr ([], m) else
     let (newPaneId, m1) = mint m ''pane'';
         (newSplitId, m2) = mint m1 ''split'';
         ops = [Op_Split target Row_Axis Side_After newPaneId newSplitId]
     in (case makePaneTab of None \<Rightarrow> Inr (ops, m2)
         | Some f \<Rightarrow> let (t, m3) = mint m2 ''tab'' in Inr (ops @ [Op_OpenTab newPaneId (f t) 0], m3)))))"

definition planAddTab :: "layout_state \<Rightarrow> id_minter \<Rightarrow> string \<Rightarrow> tab_factory option \<Rightarrow> plan" where
  "planAddTab s m paneId makeTab = (case makeTab of None \<Rightarrow> Inr ([], m)
     | Some f \<Rightarrow> rbind (getPane s paneId) (\<lambda>p. if pn_host p \<noteq> Host_Dock then Inr ([], m)
         else let (t, m1) = mint m ''tab'' in Inr ([Op_OpenTab paneId (f t) (int (length (pn_tabs p)))], m1)))"

definition planOpenContent :: "layout_state \<Rightarrow> id_minter \<Rightarrow> open_content_input \<Rightarrow> ((layout_op list \<times> string) \<times> id_minter) lay" where
  "planOpenContent s m input =
     rbind (if oc_reveal input then findContentTab s (oc_content input) (Some (oc_kind input)) else Inr None) (\<lambda>existing.
     case existing of Some t \<Rightarrow> Inr (([Op_FocusTab t], t), m)
     | None \<Rightarrow> rbind (pane_or_active s (oc_pane input)) (\<lambda>paneId.
         let (t, m1) = mint m ''tab'';
             tab = \<lparr>tb_id = t, tb_kind = oc_kind input, tb_content = oc_content input, tb_title = oc_title input\<rparr>
         in rbind (case oc_index input of Some i \<Rightarrow> Inr i
              | None \<Rightarrow> rbind (getPane s paneId) (\<lambda>p. Inr (int (length (pn_tabs p))))) (\<lambda>index.
            Inr (([Op_OpenTab paneId tab index], t), m1))))"

definition planDuplicateTab :: "layout_state \<Rightarrow> id_minter \<Rightarrow> string \<Rightarrow> ((layout_op list \<times> string) \<times> id_minter) lay" where
  "planDuplicateTab s m tabId =
     rbind (getTab s tabId) (\<lambda>source.
     rbind (findTabPane s tabId) (\<lambda>pane.
     rbind (if pn_host pane = Host_Dock then Inr (pn_id pane) else activeDockPaneId s) (\<lambda>host.
     rbind (if pn_host pane = Host_Dock then Inr (int (position (pn_tabs pane) tabId) + 1)
            else rbind (getPane s host) (\<lambda>p. Inr (int (length (pn_tabs p))))) (\<lambda>index.
     let (t, m1) = mint m ''tab''
     in Inr (([Op_OpenTab host (source\<lparr>tb_id := t\<rparr>) index], t), m1)))))"

definition planPlaceTab :: "layout_state \<Rightarrow> string \<Rightarrow> string \<Rightarrow> int \<Rightarrow> layout_op list lay" where
  "planPlaceTab s tabId toPaneId index =
     rbind (findTabPane s tabId) (\<lambda>source.
     rbind (getPane s toPaneId) (\<lambda>dest. if pn_host dest \<noteq> Host_Dock then Inr []
     else if pn_id source = toPaneId then
       let slot = int (position (pn_tabs source) tabId);
           new_slot = (if index > slot then index - 1 else index)
       in Inr (if new_slot = slot then [] else [Op_ReorderTab tabId new_slot])
     else Inr [tabInto source tabId toPaneId index]))"

definition planDropTab :: "layout_state \<Rightarrow> id_minter \<Rightarrow> string \<Rightarrow> string \<Rightarrow> dock_zone \<Rightarrow> tab_factory option \<Rightarrow> plan" where
  "planDropTab s m tabId targetPaneId zone makeTab =
     rbind (findTabPane s tabId) (\<lambda>source.
     rbind (getPane s targetPaneId) (\<lambda>target. if pn_host target \<noteq> Host_Dock then Inr ([], m) else
     (case zoneSplit zone of
        None \<Rightarrow> if pn_id source = targetPaneId then Inr ([], m)
                else Inr ([tabInto source tabId targetPaneId (int (length (pn_tabs target)))], m)
      | Some (axis, direction) \<Rightarrow>
          let vacates = (pn_id source = targetPaneId \<and> length (pn_tabs source) = 1) in
          if vacates \<and> makeTab = None then Inr ([], m) else
          rbind (canSplit s) (\<lambda>ok. if \<not> ok then Inr ([], m) else
          let (newPaneId, m1) = mint m ''pane'';
              (newSplitId, m2) = mint m1 ''split'';
              ops = [Op_Split targetPaneId axis direction newPaneId newSplitId];
              (backfill, m3) = (case makeTab of
                 Some f \<Rightarrow> if vacates then let (t, m') = mint m2 ''tab''
                     in ([Op_OpenTab targetPaneId (f t) (int (length (pn_tabs source)))], m') else ([], m2)
               | None \<Rightarrow> ([], m2))
          in Inr (ops @ backfill @ [tabInto source tabId newPaneId 0], m3)))))"

definition planFloatTab :: "layout_state \<Rightarrow> id_minter \<Rightarrow> string \<Rightarrow> float_rect option \<Rightarrow> (layout_op list \<times> string) \<times> id_minter" where
  "planFloatTab s m tabId rect =
     (let step = of_nat (length (ly_floats s)) * 24;
          (newPaneId, m1) = mint m ''float''
      in (([Op_Float tabId newPaneId (case rect of Some r \<Rightarrow> r
             | None \<Rightarrow> \<lparr>fr_x = 160 + step, fr_y = 120 + step, fr_width = fst FLOAT_DEFAULT_SIZE, fr_height = snd FLOAT_DEFAULT_SIZE\<rparr>)],
           newPaneId), m1))"

definition planUnfloatPane :: "layout_state \<Rightarrow> string \<Rightarrow> string option \<Rightarrow> layout_op list lay" where
  "planUnfloatPane s paneId toPaneId =
     rbind (pane_or_active s toPaneId) (\<lambda>destination.
     rbind (getPane s destination) (\<lambda>p. Inr [Op_Unfloat paneId destination (int (length (pn_tabs p)))]))"

definition planResizeSplit :: "string \<Rightarrow> rat list \<Rightarrow> rat \<Rightarrow> layout_op list" where
  "planResizeSplit splitId sizes minimum = [Op_Resize splitId (clampSizes sizes minimum)]"

text \<open>The first docked pane, the root apart, that an intent left empty.\<close>

definition emptied_pane :: "layout_state \<Rightarrow> string option lay" where
  "emptied_pane s = rbind (dockPaneIds s) (first_found (\<lambda>i. if i = ly_root s then Inr None
     else rbind (getPane s i) (\<lambda>p. Inr (if pn_tabs p = [] then Some i else None))))"

text \<open>The settling loop; every merge removes a node, so its fuel is their number.\<close>

fun settle_loop :: "nat \<Rightarrow> layout_state \<Rightarrow> layout_op list \<Rightarrow> (layout_op list \<times> layout_state) lay" where
  "settle_loop 0 s ops = Inl Endless_Tree"
| "settle_loop (Suc f) s ops = rbind (emptied_pane s) (\<lambda>e. case e of
      None \<Rightarrow> Inr (ops, s)
    | Some i \<Rightarrow> rbind (applyOp s (Op_Merge i)) (\<lambda>r. settle_loop f (fst r) (ops @ [Op_Merge i])))"

definition planSettle :: "layout_state \<Rightarrow> id_minter \<Rightarrow> tab_factory option \<Rightarrow> plan" where
  "planSettle s m makeTab =
     rbind (settle_loop (Suc (length (ly_nodes s))) s []) (\<lambda>(ops, current).
     rbind (getNode current (ly_root current)) (\<lambda>root.
     case (root, makeTab) of
       (Pane_Node p, Some f) \<Rightarrow> if pn_tabs p = [] then
          let (t, m1) = mint m ''tab'' in Inr (ops @ [Op_OpenTab (pn_id p) (f t) 0], m1) else Inr (ops, m)
     | _ \<Rightarrow> Inr (ops, m)))"

end
