(* ===== verification/Dock_Clamp.thy ===== *)
theory Dock_Clamp
  imports Dock_Planner
begin

text \<open>
  The divider clamp: the loop that pins every share under the minimum ends with shares that sum to one,
  none under the minimum.
\<close>

definition shares_ok :: "rat \<Rightarrow> nat list \<Rightarrow> rat list \<Rightarrow> bool" where
  "shares_ok lowest pinned shares \<longleftrightarrow> distinct pinned \<and> set pinned \<subseteq> {..<length shares}
     \<and> (\<forall>i \<in> set pinned. shares ! i = lowest) \<and> (\<forall>i < length shares. 0 \<le> shares ! i)
     \<and> (\<Sum>i<length shares. shares ! i) = 1 \<and> of_nat (length shares) * lowest \<le> 1"

lemma sum_list_upt: "sum_list (map f [0..<n]) = (\<Sum>i<n. f i)" for f :: "nat \<Rightarrow> rat"
  by (simp add: interv_sum_list_conv_sum_set_nat atLeast0LessThan)

lemma sum_without:
  fixes f :: "nat \<Rightarrow> rat"
  assumes "P \<subseteq> {..<n}"
  shows "(\<Sum>i<n. if i \<in> P then a else f i) = of_nat (card P) * a + (\<Sum>i\<in>{..<n} - P. f i)"
proof -
  have "(\<Sum>i<n. if i \<in> P then a else f i) = (\<Sum>i\<in>P. if i \<in> P then a else f i) + (\<Sum>i\<in>{..<n} - P. if i \<in> P then a else f i)"
    using assms by (simp add: sum.subset_diff)
  then show ?thesis by simp
qed

lemma free_total_large:
  assumes "shares_ok lowest pinned shares" "under_floor lowest pinned shares \<noteq> []"
  defines "P \<equiv> set (pinned @ under_floor lowest pinned shares)"
  shows "1 - of_nat (card P) * lowest < (\<Sum>i\<in>{..<length shares} - P. shares ! i)"
    "0 \<le> 1 - of_nat (card P) * lowest" "0 < lowest" "P \<subseteq> {..<length shares}"
proof -
  let ?n = "length shares" and ?U = "set (under_floor lowest pinned shares)"
  note ok = assms(1) [unfolded shares_ok_def]
  have u: "?U \<subseteq> {..<?n}" "?U \<inter> set pinned = {}" "finite ?U" "?U \<noteq> {}" "\<And>i. i \<in> ?U \<Longrightarrow> shares ! i < lowest"
    using assms(2) by (auto simp: under_floor_def filter_empty_conv)
  have P: "P = set pinned \<union> ?U" by (simp add: P_def)
  show sub: "P \<subseteq> {..<?n}" using ok u(1) by (auto simp: P)
  obtain i where i: "i \<in> ?U" using u(4) unfolding ex_in_conv [symmetric] by (rule exE)
  have "0 \<le> shares ! i" using ok u(1) i by auto
  then show low: "0 < lowest" using u(5) [OF i] by simp
  have card: "card P = length pinned + card ?U"
    unfolding P using ok u(2) by (subst card_Un_disjoint) (auto simp: distinct_card)
  have "(\<Sum>i<?n. shares ! i) = (\<Sum>i\<in>P. shares ! i) + (\<Sum>i\<in>{..<?n} - P. shares ! i)"
    using sub by (simp add: sum.subset_diff)
  also have "(\<Sum>i\<in>P. shares ! i) = (\<Sum>i\<in>set pinned. shares ! i) + (\<Sum>i\<in>?U. shares ! i)"
    unfolding P using u(2,3) by (intro sum.union_disjoint) auto
  also have "(\<Sum>i\<in>set pinned. shares ! i) = of_nat (length pinned) * lowest" using ok by (simp add: distinct_card)
  finally have s: "1 = of_nat (length pinned) * lowest + (\<Sum>i\<in>?U. shares ! i) + (\<Sum>i\<in>{..<?n} - P. shares ! i)"
    using ok by simp
  have "(\<Sum>i\<in>?U. shares ! i) < (\<Sum>i\<in>?U. lowest)" using u(3-5) by (intro sum_strict_mono) auto
  then have "(\<Sum>i\<in>?U. shares ! i) < of_nat (card ?U) * lowest" by simp
  then show "1 - of_nat (card P) * lowest < (\<Sum>i\<in>{..<?n} - P. shares ! i)"
    using s by (simp add: card distrib_right)
  have "card P \<le> ?n" using sub card_mono [of "{..<?n}" P] by simp
  then have "of_nat (card P) * lowest \<le> of_nat ?n * lowest" using low by (intro mult_right_mono) auto
  then show "0 \<le> 1 - of_nat (card P) * lowest" using ok by simp
qed

lemma reshare_ok:
  assumes "shares_ok lowest pinned shares" "under_floor lowest pinned shares \<noteq> []"
  shows "shares_ok lowest (pinned @ under_floor lowest pinned shares)
    (reshare lowest (pinned @ under_floor lowest pinned shares) shares)"
proof -
  let ?Q = "pinned @ under_floor lowest pinned shares" and ?n = "length shares"
  let ?F = "\<Sum>i\<in>{..<?n} - set ?Q. shares ! i" and ?R = "1 - of_nat (card (set ?Q)) * lowest"
  note ok = assms(1) [unfolded shares_ok_def] and f = free_total_large [OF assms]
  have d: "distinct ?Q" using ok by (auto simp: under_floor_def)
  have lenQ: "of_nat (length ?Q) = (of_nat (card (set ?Q)) :: rat)" using d distinct_card [of ?Q] by simp
  have tot: "sum_list (map (\<lambda>i. if i \<in> set ?Q then 0 else shares ! i) [0..<?n]) = ?F"
    unfolding sum_list_upt using sum_without [OF f(4), of 0 "\<lambda>i. shares ! i"] by simp
  have r: "reshare lowest ?Q shares = map (\<lambda>i. if i \<in> set ?Q then lowest else shares ! i / ?F * ?R) [0..<?n]"
    unfolding reshare_def Let_def tot lenQ ..
  have pos: "0 < ?F" "0 \<le> ?R" using f(1,2) by linarith+
  have "(\<Sum>i<?n. if i \<in> set ?Q then lowest else shares ! i / ?F * ?R)
      = of_nat (card (set ?Q)) * lowest + (\<Sum>i\<in>{..<?n} - set ?Q. shares ! i / ?F * ?R)"
    using f(4) by (rule sum_without)
  also have "(\<Sum>i\<in>{..<?n} - set ?Q. shares ! i / ?F * ?R) = ?F / ?F * ?R"
    by (simp only: sum_distrib_right [symmetric] sum_divide_distrib [symmetric])
  also have "\<dots> = ?R" using pos(1) by simp
  finally have sum: "(\<Sum>i<?n. if i \<in> set ?Q then lowest else shares ! i / ?F * ?R) = 1" by simp
  have nn: "0 \<le> shares ! i / ?F * ?R" if "i < ?n" for i
    using ok pos that by (intro mult_nonneg_nonneg divide_nonneg_pos) auto
  show ?thesis
    unfolding shares_ok_def r
    using d f(3,4) ok sum nn by (auto cong: if_cong)
qed

lemma clamp_loop_spec:
  "shares_ok lowest pinned shares \<Longrightarrow>
     length (clamp_loop lowest pinned shares) = length shares \<and> sum_list (clamp_loop lowest pinned shares) = 1
     \<and> (\<forall>x \<in> set (clamp_loop lowest pinned shares). lowest \<le> x)"
proof (induction lowest pinned shares rule: clamp_loop.induct)
  case (1 lowest pinned shares)
  show ?case
  proof (cases "under_floor lowest pinned shares = []")
    case True
    have "lowest \<le> shares ! i" if "i < length shares" for i
      using True that 1(2) by (cases "i \<in> set pinned") (auto simp: under_floor_def shares_ok_def filter_empty_conv not_less)
    then have "\<forall>x \<in> set shares. lowest \<le> x" by (metis in_set_conv_nth)
    moreover have "sum_list shares = 1"
      using 1(2) by (simp add: shares_ok_def sum_list_sum_nth atLeast0LessThan)
    ultimately show ?thesis using True by (simp add: clamp_loop.simps [of lowest pinned shares])
  next
    case False
    have "length (reshare lowest (pinned @ under_floor lowest pinned shares) shares) = length shares"
      by (simp add: reshare_def Let_def)
    then show ?thesis
      using 1(1) [OF refl False reshare_ok [OF 1(2) False]] False by (simp add: clamp_loop.simps [of lowest pinned shares] Let_def)
  qed
qed

text \<open>Claim C29. Whatever fractions a drag reaches (over exact rationals, without the rounding of doubles), the clamped sizes are as many, sum to one, and none is
  under the minimum share (or under an equal share, when that many panes cannot all have the minimum).\<close>

theorem clamp_sizes_bounded:
  assumes "sizes \<noteq> []"
  shows "length (clampSizes sizes minimum) = length sizes \<and> sum_list (clampSizes sizes minimum) = 1
    \<and> (\<forall>x \<in> set (clampSizes sizes minimum). min minimum (1 / of_nat (length sizes)) \<le> x)"
proof -
  define ps where "ps = map (\<lambda>x. if x > 0 then x else (0::rat)) sizes"
  define shares where "shares = (if sum_list ps > 0 then map (\<lambda>x. x / sum_list ps) ps else map (\<lambda>_. 1 / of_nat (length sizes)) ps)"
  let ?low = "min minimum (1 / of_nat (length sizes))"
  have n: "0 < (of_nat (length sizes) :: rat)" using assms by simp
  have len: "length shares = length sizes" by (simp add: shares_def ps_def)
  have nn: "\<forall>x \<in> set ps. 0 \<le> x" by (auto simp: ps_def)
  have "sum_list shares = 1"
  proof (cases "sum_list ps > 0")
    case True
    have "sum_list (map (\<lambda>x. x / t) ps) = sum_list ps / t" for t by (induction ps) (simp_all add: add_divide_distrib)
    then show ?thesis using True by (simp add: shares_def)
  next
    case False
    then show ?thesis using n by (simp add: shares_def ps_def sum_list_replicate map_replicate_const)
  qed
  moreover have "\<forall>x \<in> set shares. 0 \<le> x" using nn n by (auto simp: shares_def)
  moreover have "of_nat (length sizes) * ?low \<le> of_nat (length sizes) * (1 / of_nat (length sizes))"
    using n by (intro mult_left_mono) auto
  ultimately have "shares_ok ?low [] shares"
    using len n by (auto simp: shares_ok_def sum_list_sum_nth atLeast0LessThan)
  then show ?thesis
    using clamp_loop_spec [of ?low "[]" shares] assms len
    by (simp add: clampSizes_def Let_def ps_def [symmetric] shares_def [symmetric])
qed

theorem clamp_sizes_bounded_witness:
  "clampSizes [9/10, 5/100, 5/100] (12/100) = [76/100, 12/100, 12/100]
     \<and> sum_list (clampSizes [9/10, 5/100, 5/100] (12/100)) = 1"
  using clamp_sizes_bounded [of "[9/10, 5/100, 5/100]" "12/100"] by code_simp

end
