(* ===== verification/Dock_Settle.thy ===== *)
theory Dock_Settle
  imports Dock_Clamp Dock_Congruence
begin

text \<open>
  Walking the docked tree ends and lists its panes, merging an empty pane below the root is always
  accepted, and so the settling plan ends with every docked pane holding a tab.
\<close>

section \<open>Walking the tree\<close>

definition docked :: "layout_state \<Rightarrow> string set" where
  "docked s = {i. dock_view s i \<noteq> None}"

lemma docked_finite: "keyed s \<Longrightarrow> finite (docked s) \<and> card (docked s) \<le> length (ly_nodes s)"
proof -
  assume k: "keyed s"
  have "dock_of n \<noteq> None \<Longrightarrow> n \<noteq> None" for n by (cases n) simp_all
  then have sub: "docked s \<subseteq> dom (node_at s)" unfolding docked_def dock_view_def dom_def by blast
  have "node_at s = map_of (ly_nodes s)" by (rule ext) (simp add: amap_get_def)
  then have fin: "finite (dom (node_at s))" by (simp add: finite_dom_map_of)
  have "length (ly_nodes s) = card (dom (node_at s))" using k by (simp add: keyed_def amap_length)
  then show ?thesis using sub fin by (auto simp: card_mono finite_subset)
qed

definition below :: "layout_state \<Rightarrow> (string \<Rightarrow> nat) \<Rightarrow> string \<Rightarrow> nat" where
  "below s rank i = card {j \<in> docked s. rank j \<le> rank i}"

lemma below_child:
  assumes "finite (docked s)" "rank c < rank i" "i \<in> docked s"
  shows "below s rank c < below s rank i"
proof -
  have "i \<in> {j \<in> docked s. rank j \<le> rank i}" "i \<notin> {j \<in> docked s. rank j \<le> rank c}" using assms by auto
  moreover have "{j \<in> docked s. rank j \<le> rank c} \<subseteq> {j \<in> docked s. rank j \<le> rank i}" using assms(2) by auto
  ultimately have "{j \<in> docked s. rank j \<le> rank c} \<subset> {j \<in> docked s. rank j \<le> rank i}" by blast
  then show ?thesis unfolding below_def using assms(1) by (intro psubset_card_mono) auto
qed

lemma below_bound: "finite (docked s) \<Longrightarrow> below s rank i \<le> card (docked s)"
  unfolding below_def by (rule card_mono) auto

lemma tree_rank:
  assumes "dock_wf (dock_view s) r"
  shows "\<exists>rank. \<forall>i q c. node_at s i = Some (Split_Node q) \<longrightarrow> c \<in> set (sn_children q) \<longrightarrow> rank c < (rank i :: nat) \<and> c \<in> docked s"
proof -
  obtain rank :: "string \<Rightarrow> nat" where r: "\<And>i c. edge (dock_view s) i c \<Longrightarrow> rank c < rank i" "\<And>i c. edge (dock_view s) i c \<Longrightarrow> dock_view s c \<noteq> None"
    using dock_wf_shape [OF assms] by (rule tree_shapeE) blast
  have "rank c < rank i \<and> c \<in> docked s" if "node_at s i = Some (Split_Node q)" "c \<in> set (sn_children q)" for i q c
    using r [of i c] edge_split [OF that(1), of c] that(2) by (auto simp: docked_def)
  then show ?thesis by blast
qed

lemma split_docked: "node_at s i = Some (Split_Node q) \<Longrightarrow> i \<in> docked s"
  by (simp add: docked_def dock_view_def)

lemma docked_cases:
  assumes "i \<in> docked s"
  obtains p where "node_at s i = Some (Pane_Node p)" "pn_host p = Host_Dock" | q where "node_at s i = Some (Split_Node q)"
  using assms by (auto simp: docked_def dock_view_def dock_of_def split: option.splits layout_node.splits if_splits)

lemma descend_total:
  assumes "dock_wf (dock_view s) r" "keyed s" "i \<in> docked s"
    "\<And>q c. pick q = Some c \<Longrightarrow> c \<in> set (sn_children q)" "\<And>q. sn_children q \<noteq> [] \<Longrightarrow> pick q \<noteq> None"
  shows "\<exists>a. descend (Suc (length (ly_nodes s))) s pick i = Inr a"
proof -
  obtain rank where rank: "\<And>i q c. node_at s i = Some (Split_Node q) \<Longrightarrow> c \<in> set (sn_children q) \<Longrightarrow> rank c < (rank i :: nat) \<and> c \<in> docked s"
    using tree_rank [OF assms(1)] by blast
  note fin = docked_finite [OF assms(2)]
  have "below s rank i \<le> f \<Longrightarrow> i \<in> docked s \<Longrightarrow> \<exists>a. descend (Suc f) s pick i = Inr a" for f
  proof (induction f arbitrary: i)
    case 0
    have "{j \<in> docked s. rank j \<le> rank i} \<noteq> {}" using 0(2) by auto
    then have "0 < below s rank i" using fin unfolding below_def by (simp add: card_gt_0_iff)
    then show ?case using 0(1) by simp
  next
    case (Suc f)
    show ?case
      using Suc.prems(2)
    proof (cases rule: docked_cases)
      case (1 p)
      then show ?thesis by (simp add: getNode_def)
    next
      case (2 q)
      have "sn_children q \<noteq> []"
        using dock_wf_split [OF assms(1), of i q] 2 by (auto simp: dock_view_def split_ok_def)
      then obtain c where c: "pick q = Some c" "c \<in> set (sn_children q)" using assms(4,5) by blast
      have "below s rank c \<le> f" "c \<in> docked s"
        using rank [OF 2 c(2)] below_child [of s rank c i] fin Suc.prems by auto
      from Suc.IH [OF this] show ?thesis using 2 c(1) by (simp add: getNode_def)
    qed
  qed
  moreover have "below s rank i \<le> length (ly_nodes s)"
    using below_bound [of s rank i] fin by simp
  ultimately show ?thesis using assms(3) by blast
qed

lemma root_docked: "dock_wf (dock_view s) (ly_root s) \<Longrightarrow> ly_root s \<in> docked s"
  by (simp add: dock_wf_def tree_shape_def docked_def)

lemma firstDockPaneId_total: "dock_wf (dock_view s) (ly_root s) \<Longrightarrow> keyed s \<Longrightarrow> \<exists>a. firstDockPaneId s = Inr a"
  unfolding firstDockPaneId_def
  by (rule descend_total) (auto simp: root_docked first_child_def split: list.splits)

lemma reseat_total: "dock_wf (dock_view t) (ly_root t) \<Longrightarrow> keyed t \<Longrightarrow> \<exists>t'. reseatFocus t k = Inr t'"
  using firstDockPaneId_total [of t] by (auto simp: reseatFocus_def)

definition panes_under :: "layout_state \<Rightarrow> string \<Rightarrow> string set" where
  "panes_under s i = {k. dock_view s k = Some None \<and> (edge (dock_view s))\<^sup>*\<^sup>* i k}"

lemma walk_fold:
  "(\<And>c. c \<in> set cs \<Longrightarrow> \<exists>ps. w c = Inr ps \<and> set ps = S c) \<Longrightarrow>
     \<exists>ps. fold_res (\<lambda>out c. rbind (w c) (\<lambda>ps. Inr (out @ ps))) out cs = Inr ps \<and> set ps = set out \<union> (\<Union>c \<in> set cs. S c)"
proof (induction cs arbitrary: out)
  case (Cons c cs)
  obtain ps where ps: "w c = Inr ps" "set ps = S c" using Cons.prems by auto
  obtain rs where "fold_res (\<lambda>out c. rbind (w c) (\<lambda>ps. Inr (out @ ps))) (out @ ps) cs = Inr rs"
    "set rs = set (out @ ps) \<union> (\<Union>c \<in> set cs. S c)"
    using Cons.IH [of "out @ ps"] Cons.prems by auto
  then show ?case using ps by auto
qed simp

lemma panes_under_split:
  assumes "node_at s i = Some (Split_Node q)"
  shows "panes_under s i = (\<Union>c \<in> set (sn_children q). panes_under s c)"
proof -
  have i: "dock_view s i = Some (Some q)" using assms by (rule dock_view_split)
  have "(edge (dock_view s))\<^sup>*\<^sup>* i k \<longleftrightarrow> (\<exists>c \<in> set (sn_children q). (edge (dock_view s))\<^sup>*\<^sup>* c k)" if "k \<noteq> i" for k
    using edge_split [OF assms] that by (metis converse_rtranclpE converse_rtranclp_into_rtranclp)
  moreover have "k \<noteq> i" if "dock_view s k = Some None" for k using i that by auto
  ultimately show ?thesis unfolding panes_under_def by blast
qed

lemma walk_lists:
  assumes "layout_wf s" "i \<in> docked s"
  shows "\<exists>ps. walk_panes (Suc (length (ly_nodes s))) s i = Inr ps \<and> set ps = panes_under s i"
proof -
  note w = layout_wfD [OF assms(1)]
  obtain rank where rank: "\<And>i q c. node_at s i = Some (Split_Node q) \<Longrightarrow> c \<in> set (sn_children q) \<Longrightarrow> rank c < (rank i :: nat) \<and> c \<in> docked s"
    using tree_rank [OF w(3)] by blast
  note fin = docked_finite [OF wf_keyed [OF assms(1)]]
  have "below s rank i \<le> f \<Longrightarrow> i \<in> docked s \<Longrightarrow> \<exists>ps. walk_panes (Suc f) s i = Inr ps \<and> set ps = panes_under s i" for f
  proof (induction f arbitrary: i)
    case 0
    have "{j \<in> docked s. rank j \<le> rank i} \<noteq> {}" using 0(2) by auto
    then have "0 < below s rank i" using fin unfolding below_def by (simp add: card_gt_0_iff)
    then show ?case using 0(1) by simp
  next
    case (Suc f)
    show ?case
      using Suc.prems(2)
    proof (cases rule: docked_cases)
      case (1 p)
      have "(edge (dock_view s))\<^sup>*\<^sup>* i k \<Longrightarrow> k = i" for k
        using leaf_edge [OF 1(1)] by (metis converse_rtranclpE)
      then have "panes_under s i = {i}" using 1 by (auto simp: panes_under_def dock_view_def)
      then show ?thesis using 1 pane_node_ok(1) [OF assms(1) 1(1)] by (simp add: getNode_def)
    next
      case (2 q)
      have "\<exists>ps. walk_panes (Suc f) s c = Inr ps \<and> set ps = panes_under s c" if "c \<in> set (sn_children q)" for c
        using rank [OF 2 that] below_child [of s rank c i] fin Suc.prems by (intro Suc.IH) auto
      then have "\<exists>ps. fold_res (\<lambda>out c. rbind (walk_panes (Suc f) s c) (\<lambda>ps. Inr (out @ ps))) [] (sn_children q) = Inr ps
          \<and> set ps = set [] \<union> (\<Union>c \<in> set (sn_children q). panes_under s c)"
        by (rule walk_fold)
      then show ?thesis using 2 panes_under_split [OF 2] by (simp add: getNode_def del: walk_panes.simps) (simp add: getNode_def)
    qed
  qed
  moreover have "below s rank i \<le> length (ly_nodes s)"
    using below_bound [of s rank i] fin by simp
  ultimately show ?thesis using assms(2) by blast
qed

lemma reachable_from_root:
  assumes "layout_wf s" "i \<in> docked s"
  shows "(edge (dock_view s))\<^sup>*\<^sup>* (ly_root s) i"
proof -
  obtain rank :: "string \<Rightarrow> nat" where r: "\<And>i c. edge (dock_view s) i c \<Longrightarrow> dock_view s i \<noteq> None \<and> rank c < rank i"
    "\<And>c. dock_view s c \<noteq> None \<Longrightarrow> c \<noteq> ly_root s \<Longrightarrow> \<exists>i. edge (dock_view s) i c"
    using dock_wf_shape [OF layout_wfD(3) [OF assms(1)]] by (rule tree_shapeE) blast
  note fin = docked_finite [OF wf_keyed [OF assms(1)]]
  show ?thesis
    using assms(2)
  proof (induction "card {j \<in> docked s. rank i < rank j}" arbitrary: i rule: less_induct)
    case less
    show ?case
    proof (cases "i = ly_root s")
      case False
      then obtain P where P: "edge (dock_view s) P i" using r(2) less.prems by (auto simp: docked_def)
      have d: "P \<in> docked s" "rank i < rank P" using r(1) [OF P] by (auto simp: docked_def)
      then have "card {j \<in> docked s. rank P < rank j} < card {j \<in> docked s. rank i < rank j}"
        using fin by (intro psubset_card_mono) auto
      from less.hyps [OF this d(1)] P show ?thesis by (rule rtranclp.rtrancl_into_rtrancl)
    qed simp
  qed
qed

lemma dockPaneIds_lists:
  assumes "layout_wf s"
  shows "\<exists>ps. dockPaneIds s = Inr ps \<and> set ps = {i. dock_view s i = Some None}"
proof -
  obtain ps where "dockPaneIds s = Inr ps" "set ps = panes_under s (ly_root s)"
    using walk_lists [OF assms root_docked [OF layout_wfD(3) [OF assms]]] unfolding dockPaneIds_def by blast
  moreover have "panes_under s (ly_root s) = {i. dock_view s i = Some None}"
    using reachable_from_root [OF assms] by (auto simp: panes_under_def docked_def)
  ultimately show ?thesis by simp
qed

section \<open>Merging an empty pane\<close>

lemma has_parent:
  assumes "layout_wf s" "i \<in> docked s" "i \<noteq> ly_root s"
  obtains q where "findParent s i = Some q" "node_at s (sn_id q) = Some (Split_Node q)" "i \<in> set (sn_children q)"
proof -
  obtain P where "edge (dock_view s) P i"
    using dock_wf_shape [OF layout_wfD(3) [OF assms(1)]] assms(2,3) by (auto simp: tree_shape_def docked_def)
  then obtain q where "node_at s P = Some (Split_Node q)" "i \<in> set (sn_children q)" by (auto simp: edge_def dock_view_def dock_of_split)
  then show thesis using that split_node_ok [OF assms(1)] findParent_Some [OF assms(1)] by metis
qed

lemma replaceInParent_total: "layout_wf s \<Longrightarrow> i \<in> docked s \<Longrightarrow> \<exists>t. replaceInParent s i b = Inr t"
proof (cases "i = ly_root s")
  case True
  then show ?thesis by (auto simp: replaceInParent_def split: option.splits)
next
  case False
  assume "layout_wf s" "i \<in> docked s"
  from has_parent [OF this False] obtain q where "findParent s i = Some q" by blast
  then show ?thesis by (simp add: replaceInParent_def)
qed

lemma merge_total:
  assumes "layout_wf s" "node_at s k = Some (Pane_Node p)" "pn_host p = Host_Dock" "pn_tabs p = []" "k \<noteq> ly_root s"
  shows "\<exists>t u. applyMerge s k = Inr (t, u)"
proof -
  have g: "getPane s k = Inr p" using assms(2) by (simp add: getPane_eq)
  have "k \<in> docked s" using assms(2,3) by (simp add: docked_def dock_view_def)
  then obtain q where q: "findParent s k = Some q" "node_at s (sn_id q) = Some (Split_Node q)" "k \<in> set (sn_children q)"
    using has_parent [OF assms(1) _ assms(5)] by blast
  let ?n = "position (sn_children q) k"
  have ok: "split_ok q" using split_node_ok [OF assms(1) q(2)] by simp
  have key: "keyed s" using assms(1) by (rule wf_keyed)
  have len: "2 \<le> length (sn_children q)" "length (sn_sizes q) = length (sn_children q)" using ok by (auto simp: split_ok_def)
  have n: "?n < length (sn_children q)" using position_less [OF q(3)] by simp
  show ?thesis
  proof (cases "2 < length (sn_children q)")
    case True
    have "removeAt (sn_sizes q) ?n \<noteq> []" "\<forall>x \<in> set (removeAt (sn_sizes q) ?n). 0 < x"
      using ok True n len length_removeAt [of ?n "sn_sizes q"]
      by (auto simp: split_ok_def sizes_ok_def removeAt_def dest: in_set_takeD in_set_dropD)
    then obtain ns where ns: "normalizeSizes (removeAt (sn_sizes q) ?n) = Inr ns" using normalizeSizes_total by blast
    define t where "t = withNodes s [(k, None), (sn_id q, Some (Split_Node
      (q\<lparr>sn_children := removeAt (sn_children q) ?n, sn_sizes := ns\<rparr>)))]"
    have "dock_wf (dock_view t) (ly_root t)" "keyed t"
      using merge_child_tree [OF assms(1,2) q(2,3) True ns refl] key by (simp_all add: t_def)
    then obtain t' where "reseatFocus t k = Inr t'" using reseat_total by blast
    then show ?thesis using g assms(3,4) q(1) True ns
      by (auto simp: applyMerge_def require_def focusSnapshot_simps Let_def t_def)
  next
    case False
    define sib where "sib = sn_children q ! (1 - ?n)"
    have d: "distinct (sn_children q)" "length (sn_children q) = 2" using ok False len by (auto simp: split_ok_def)
    then obtain a b where ab: "sn_children q = [a, b]" "a \<noteq> b"
      by (metis (no_types, lifting) One_nat_def distinct_length_2_or_more length_0_conv length_Suc_conv numeral_2_eq_2)
    have sib: "set (sn_children q) = {k, sib}" "k \<noteq> sib" "\<not> length (sn_children q) \<le> 1 - ?n"
      using ab q(3) unfolding sib_def by (auto simp: position_def)
    obtain r where r: "replaceInParent s (sn_id q) sib = Inr r"
      using replaceInParent_total [OF assms(1) split_docked [OF q(2)]] by blast
    define t where "t = withNodes r [(k, None), (sn_id q, None)]"
    have "dock_wf (dock_view t) (ly_root t)"
      using assms(1) r
    proof (cases rule: replaceInParentE)
      case (under G g)
      show ?thesis using merge_under_tree(1) [OF assms(1,2) q(2) sib(1,2) under(1,2)] by (simp add: t_def under(3))
    next
      case root
      show ?thesis using merge_root_tree [OF assms(1,2) q(2) sib(1,2) root(1)] by (simp add: t_def root(3))
    qed
    moreover have "keyed t" using replaceInParent_keyed [OF key, of "sn_id q" sib] r by (simp add: t_def keyed_layout_def)
    ultimately obtain t' where "reseatFocus t k = Inr t'" using reseat_total by blast
    then show ?thesis using g assms(3,4) q(1) False sib(3) r
      by (auto simp: applyMerge_def require_def focusSnapshot_simps Let_def t_def sib_def)
  qed
qed

lemma merge_shrinks:
  assumes "layout_wf s" "applyMerge s k = Inr (t, u)"
  shows "length (ly_nodes t) < length (ly_nodes s)" "ly_tabs t = ly_tabs s" "ly_floats t = ly_floats s"
proof -
  have "layout_wf t" using merge_wf assms .
  have d: "dom (node_at t) \<subset> dom (node_at s) \<and> ly_tabs t = ly_tabs s \<and> ly_floats t = ly_floats s"
    using assms
  proof (cases rule: mergeE)
    case (child p P q ns s1)
    then obtain a where "t = s1\<lparr>ly_active := a\<rparr>" using reseatFocus_eq by blast
    moreover have "dom (node_at s1) = dom (node_at s) - {k}" "k \<in> dom (node_at s)"
      using child(1,4) by (auto simp: child(8) split: if_splits)
    ultimately show ?thesis by (auto simp: child(8))
  next
    case (under p P q sib G g s1)
    then obtain a where "t = s1\<lparr>ly_active := a\<rparr>" using reseatFocus_eq by blast
    moreover have "dom (node_at s1) = dom (node_at s) - {k, P}" "k \<in> dom (node_at s)"
      using under(1,4,7) merge_under_tree(2-4) [OF assms(1) under(1,4-8)] by (auto simp: under(9) split: if_splits)
    ultimately show ?thesis by (auto simp: under(9))
  next
    case (root p P q sib s1)
    then obtain a where "t = s1\<lparr>ly_active := a\<rparr>" using reseatFocus_eq by blast
    moreover have "dom (node_at s1) = dom (node_at s) - {k, P}" "k \<in> dom (node_at s)"
      using root(1,4) by (auto simp: root(8) split: if_splits)
    ultimately show ?thesis by (auto simp: root(8))
  qed
  have e: "node_at s = map_of (ly_nodes s)" by (rule ext) (simp add: amap_get_def)
  have "finite (dom (node_at s))" unfolding e by (rule finite_dom_map_of)
  then have "card (dom (node_at t)) < card (dom (node_at s))" using d by (simp add: psubset_card_mono)
  then show "length (ly_nodes t) < length (ly_nodes s)"
    using amap_length [OF layout_wfD(1) [OF assms(1)]] amap_length [OF layout_wfD(1) [OF \<open>layout_wf t\<close>]] by simp
  show "ly_tabs t = ly_tabs s" "ly_floats t = ly_floats s" using d by blast+
qed

section \<open>Settling\<close>

lemma first_found_spec:
  "(\<And>x. x \<in> set xs \<Longrightarrow> \<exists>r. f x = Inr r) \<Longrightarrow>
     \<exists>r. first_found f xs = Inr r \<and> (case r of None \<Rightarrow> \<forall>x \<in> set xs. f x = Inr None | Some y \<Rightarrow> \<exists>x \<in> set xs. f x = Inr (Some y))"
proof (induction xs)
  case (Cons x xs)
  obtain r where "f x = Inr r" using Cons.prems by auto
  then show ?case using Cons by (cases r) (auto split: option.splits)
qed simp

definition empty_pane :: "layout_state \<Rightarrow> string \<Rightarrow> bool" where
  "empty_pane s k \<longleftrightarrow> (\<exists>p. node_at s k = Some (Pane_Node p) \<and> pn_host p = Host_Dock \<and> pn_tabs p = [])"

lemma emptied_pane_spec:
  assumes "layout_wf s"
  shows "\<exists>e. emptied_pane s = Inr e \<and> (case e of None \<Rightarrow> \<forall>k. empty_pane s k \<longrightarrow> k = ly_root s
    | Some k \<Rightarrow> empty_pane s k \<and> k \<noteq> ly_root s)"
proof -
  define g where "g = (\<lambda>i. if i = ly_root s then Inr None else rbind (getPane s i) (\<lambda>p. Inr (if pn_tabs p = [] then Some i else None)))"
  obtain ids where ids: "dockPaneIds s = Inr ids" "set ids = {i. dock_view s i = Some None}"
    using dockPaneIds_lists [OF assms] by blast
  have docked_pane: "\<exists>p. node_at s i = Some (Pane_Node p) \<and> pn_host p = Host_Dock" if "i \<in> set ids" for i
    using that ids(2) by (simp add: dock_view_def dock_of_pane)
  have f: "g i = (if i = ly_root s then Inr None else Inr (if empty_pane s i then Some i else None))" if mem: "i \<in> set ids" for i
  proof -
    obtain p where p: "node_at s i = Some (Pane_Node p)" "pn_host p = Host_Dock" using docked_pane [OF mem] by blast
    then have "getPane s i = Inr p" by (simp add: getPane_eq)
    then show ?thesis using p by (simp add: g_def empty_pane_def)
  qed
  have total: "\<exists>r. g i = Inr r" if "i \<in> set ids" for i using f [OF that] by simp
  have "\<exists>r. first_found g ids = Inr r
      \<and> (case r of None \<Rightarrow> \<forall>x \<in> set ids. g x = Inr None | Some y \<Rightarrow> \<exists>x \<in> set ids. g x = Inr (Some y))"
    by (rule first_found_spec) (rule total)
  then obtain r where r: "first_found g ids = Inr r"
    "case r of None \<Rightarrow> \<forall>x \<in> set ids. g x = Inr None | Some y \<Rightarrow> \<exists>x \<in> set ids. g x = Inr (Some y)"
    by (elim exE conjE)
  have in_ids: "k \<in> set ids" if k: "empty_pane s k" for k
  proof -
    obtain p where "node_at s k = Some (Pane_Node p)" "pn_host p = Host_Dock" using k unfolding empty_pane_def by blast
    then show ?thesis unfolding ids(2) by (simp add: dock_view_def)
  qed
  have "emptied_pane s = Inr r" using ids(1) r(1) by (simp add: emptied_pane_def g_def)
  moreover have "case r of None \<Rightarrow> \<forall>k. empty_pane s k \<longrightarrow> k = ly_root s | Some k \<Rightarrow> empty_pane s k \<and> k \<noteq> ly_root s"
  proof (cases r)
    case None
    have "k = ly_root s" if k: "empty_pane s k" for k
    proof (rule ccontr)
      assume "k \<noteq> ly_root s"
      then have "g k = Inr (Some k)" using f [OF in_ids [OF k]] k by simp
      moreover have "g k = Inr None" using r(2) in_ids [OF k] None by simp
      ultimately show False by simp
    qed
    then show ?thesis using None by simp
  next
    case (Some k)
    then obtain x where x: "x \<in> set ids" "g x = Inr (Some k)" using r(2) by auto
    show ?thesis using x(2) f [OF x(1)] Some by (simp split: if_splits)
  qed
  ultimately show ?thesis by (intro exI [of _ r] conjI)
qed

lemma settle_loop_spec:
  "layout_wf s \<Longrightarrow> length (ly_nodes s) < f \<Longrightarrow>
     \<exists>ms t. settle_loop f s ops = Inr (ops @ ms, t) \<and> replay s ms = Inr t \<and> list_all user_op ms \<and> layout_wf t
       \<and> (\<forall>k. empty_pane t k \<longrightarrow> k = ly_root t) \<and> ly_tabs t = ly_tabs s \<and> ly_floats t = ly_floats s"
proof (induction f arbitrary: s ops)
  case (Suc f)
  obtain e where e: "emptied_pane s = Inr e"
    "case e of None \<Rightarrow> \<forall>k. empty_pane s k \<longrightarrow> k = ly_root s | Some k \<Rightarrow> empty_pane s k \<and> k \<noteq> ly_root s"
    using emptied_pane_spec [OF Suc.prems(1)] by blast
  show ?case
  proof (cases e)
    case None
    then show ?thesis using e Suc.prems(1) by (intro exI [of _ "[]"] exI [of _ s]) (simp add: replay_def)
  next
    case (Some k)
    then obtain p where "node_at s k = Some (Pane_Node p)" "pn_host p = Host_Dock" "pn_tabs p = []" "k \<noteq> ly_root s"
      using e(2) by (auto simp: empty_pane_def)
    from merge_total [OF Suc.prems(1) this] obtain s1 u where m: "applyMerge s k = Inr (s1, u)" by blast
    note sh = merge_shrinks [OF Suc.prems(1) m] and w1 = merge_wf [OF Suc.prems(1) m]
    have "length (ly_nodes s1) < f" using sh(1) Suc.prems(2) by simp
    from Suc.IH [OF w1 this, of "ops @ [Op_Merge k]"] obtain ms t where t:
      "settle_loop f s1 (ops @ [Op_Merge k]) = Inr ((ops @ [Op_Merge k]) @ ms, t)" "replay s1 ms = Inr t" "list_all user_op ms"
      "layout_wf t" "\<forall>k. empty_pane t k \<longrightarrow> k = ly_root t" "ly_tabs t = ly_tabs s1" "ly_floats t = ly_floats s1"
      by blast
    then show ?thesis using e(1) Some m sh by (intro exI [of _ "Op_Merge k # ms"] exI [of _ t]) (simp add: replay_def)
  qed
qed simp

lemma root_node:
  assumes "layout_wf s"
  obtains (split) q where "node_at s (ly_root s) = Some (Split_Node q)"
  | (pane) p where "node_at s (ly_root s) = Some (Pane_Node p)" "pn_host p = Host_Dock" "pn_id p = ly_root s"
proof -
  have "ly_root s \<in> docked s" using root_docked [OF layout_wfD(3) [OF assms]] .
  then show thesis
  proof (cases rule: docked_cases)
    case (1 p)
    then show thesis using pane [OF 1] pane_node_ok(1) [OF assms 1(1)] by simp
  next
    case (2 q)
    then show thesis using split by blast
  qed
qed

lemma openTab_total:
  assumes "layout_wf s" "node_at s k = Some (Pane_Node p)" "pn_host p = Host_Dock" "tab_at s (tb_id r) = None"
  shows "\<exists>t u. applyOpenTab s k r n = Inr (t, u)"
proof -
  have g: "getPane s k = Inr p" "pn_id p = k" using assms(2) pane_node_ok(1) [OF assms(1,2)] by (simp_all add: getPane_eq)
  then show ?thesis using assms(3,4)
    by (simp add: applyOpenTab_def assertFreeTab_def require_def focusSnapshot_simps(2) [OF g(1)] Let_def)
qed

lemma settle_root_seeded:
  assumes "layout_wf s" "node_at s (ly_root s) = Some (Pane_Node p)" "applyOpenTab s (ly_root s) r 0 = Inr (t, u)"
    "\<forall>k. empty_pane s k \<longrightarrow> k = ly_root s"
  shows "\<not> empty_pane t k" "tab_at s i = Some x \<Longrightarrow> tab_at t i = Some x" "ly_floats t = ly_floats s"
proof -
  obtain p where "node_at s (ly_root s) = Some (Pane_Node p)" "tab_at s (tb_id r) = None"
    "t = (withNodes (withTabs s [(tb_id r, Some r)]) [(ly_root s, Some (Pane_Node
       (paneWithTabs p (insertAt (pn_tabs p) 0 (tb_id r)) (Some (tb_id r)))))])\<lparr>ly_active := ly_root s\<rparr>"
    using assms(1,3) by (rule openTabE)
  then show "\<not> empty_pane t k" "tab_at s i = Some x \<Longrightarrow> tab_at t i = Some x" "ly_floats t = ly_floats s"
    using assms(4) by (auto simp: empty_pane_def paneWithTabs_def insertAt_def split: if_splits)
qed

text \<open>
  Claim C28. Settling after an intent always succeeds: on every well-formed layout, with a factory that
  names an unused tab, the plan returns operations of the recorded kinds which all apply; in the layout
  they lead to, which is well-formed again, no docked pane is empty except a root the embedder has no tab
  for, and every open tab and every floating pane is still there.
\<close>

theorem settle_fills_panes:
  assumes "layout_wf s" "\<And>f. makeTab = Some f \<Longrightarrow> tab_at s (tb_id (f (fst (mint m ''tab'')))) = None"
  shows "\<exists>ops m' t. planSettle s m makeTab = Inr (ops, m') \<and> list_all user_op ops \<and> replay s ops = Inr t \<and> layout_wf t
    \<and> (\<forall>k. empty_pane t k \<longrightarrow> k = ly_root t \<and> makeTab = None) \<and> ly_floats t = ly_floats s
    \<and> (\<forall>i r. tab_at s i = Some r \<longrightarrow> tab_at t i = Some r)"
proof -
  obtain ms c where c: "settle_loop (Suc (length (ly_nodes s))) s [] = Inr (ms, c)" "replay s ms = Inr c" "list_all user_op ms"
      "layout_wf c" "\<forall>k. empty_pane c k \<longrightarrow> k = ly_root c" "ly_tabs c = ly_tabs s" "ly_floats c = ly_floats s"
    using settle_loop_spec [OF assms(1), of "Suc (length (ly_nodes s))" "[]"] by auto
  have settled: ?thesis if "planSettle s m makeTab = Inr (ms, m)" "\<not> empty_pane c (ly_root c) \<or> makeTab = None"
    using that c by (intro exI [of _ ms] exI [of _ m] exI [of _ c]) auto
  show ?thesis
    using c(4)
  proof (cases rule: root_node)
    case (split q)
    then show ?thesis using c(1) by (intro settled) (simp_all add: planSettle_def getNode_def empty_pane_def)
  next
    case (pane p)
    show ?thesis
    proof (cases "pn_tabs p = [] \<and> makeTab \<noteq> None")
      case False
      then show ?thesis using c(1) pane
        by (intro settled) (auto simp: planSettle_def getNode_def empty_pane_def split: option.splits)
    next
      case True
      then obtain f where f: "makeTab = Some f" by blast
      obtain i m1 where i: "mint m ''tab'' = (i, m1)" by (cases "mint m ''tab''")
      have "tab_at c (tb_id (f i)) = None" using assms(2) [OF f] i c(6) by simp
      then obtain t u where t: "applyOpenTab c (ly_root c) (f i) 0 = Inr (t, u)"
        using openTab_total [OF c(4) pane(1,2)] by blast
      note seeded = settle_root_seeded [OF c(4) pane(1) t c(5)]
      have "planSettle s m makeTab = Inr (ms @ [Op_OpenTab (ly_root c) (f i) 0], m1)"
        using c(1) pane True f i by (simp add: planSettle_def getNode_def)
      moreover have "replay s (ms @ [Op_OpenTab (ly_root c) (f i) 0]) = Inr t"
        using c(2) t by (simp add: replay_def fold_res_append)
      ultimately show ?thesis
        using c seeded openTab_wf [OF c(4) t]
        by (intro exI [of _ "ms @ [Op_OpenTab (ly_root c) (f i) 0]"] exI [of _ m1] exI [of _ t]) simp
    qed
  qed
qed

end
