(* ===== verification/Dock_Properties.thy ===== *)
theory Dock_Properties
  imports Dock_History Dock_Settle
begin

text \<open>
  What the docking engine promises its surface: the starting layout is well-formed and every recorded
  operation keeps it so, every inverse the engine captures takes its operation back, and the history over
  them is exact whatever the order of intents, undos and redos.
\<close>

section \<open>The starting layout\<close>

lemma single_pane_wf:
  assumes "ly_nodes s = [(k, Pane_Node p)]"
    "pn_id p = k" "pn_host p = Host_Dock" "pn_rect p = None" "ly_root s = k" "ly_floats s = []" "ly_active s = k"
    "(pn_tabs p = [] \<and> pn_active p = None \<and> ly_tabs s = []) \<or> (\<exists>t. pn_tabs p = [tb_id t] \<and> pn_active p = Some (tb_id t) \<and> ly_tabs s = [(tb_id t, t)])"
  shows "layout_wf s"
proof -
  have d: "dock_view s = (\<lambda>i. if i = k then Some None else None)" "pane_view s = (\<lambda>i. if i = k then Some p else None)"
    using assms(1,3) by (auto simp: fun_eq_iff dock_view_def pane_view_def amap_get_def)
  have "dock_wf (dock_view s) k"
    unfolding d by (auto simp: dock_wf_def tree_shape_def edge_def)
  moreover have "panes_wf (pane_view s) (amap_get (ly_tabs s))"
    unfolding d using assms(2-4,8) by (auto simp: panes_wf_def pane_ok_def tab_partition_def owns_def amap_get_def split: if_splits)
  moreover have "focus_wf (pane_view s) (ly_floats s) (ly_active s)"
    unfolding d using assms(3,6,7) by (auto simp: focus_wf_def split: if_splits)
  ultimately show ?thesis using assms(1,5,8) by (auto simp: layout_wf_def amap_wf_def)
qed

lemma createInitialState_wf: "layout_wf (fst (createInitialState m makeTab mode))"
proof (cases makeTab)
  case None
  then show ?thesis by - (rule single_pane_wf, (simp add: createInitialState_def mint_def Let_def)+)
next
  case (Some f)
  then show ?thesis by - (rule single_pane_wf, (simp add: createInitialState_def mint_def Let_def)+)
qed

lemma sequencer_started: "sequencer_ok (fst (createInitialState m makeTab mode)) (new_sequencer (fst (createInitialState m makeTab mode)))"
  by (rule new_sequencer_ok) (rule createInitialState_wf)

lemma is_inr_ex: "(case r of Inl e \<Rightarrow> False | Inr x \<Rightarrow> True) \<Longrightarrow> \<exists>x. r = Inr x"
  by (simp split: sum.splits)

lemma replay_wf: "list_all user_op ops \<Longrightarrow> layout_wf s \<Longrightarrow> replay s ops = Inr t \<Longrightarrow> layout_wf t"
  using dock.run_good by (simp add: replay_run)

text \<open>
  Claim C27. Every layout the surface can be in is well-formed: from the starting layout, any sequence of
  recorded operations that the engine accepts leads to a layout whose nodes form one tree below the root,
  with at least two children and one positive size per child at each split, whose floating panels are the
  z-ordered ones, and in which every open tab is in exactly one pane and every tab a pane lists is open.
\<close>

theorem dock_layouts_well_formed:
  assumes "list_all user_op ops" "replay (fst (createInitialState m makeTab mode)) ops = Inr t"
  shows "layout_wf t \<and> (\<forall>i. tab_at t i \<noteq> None \<longleftrightarrow> (\<exists>!k. \<exists>p. node_at t k = Some (Pane_Node p) \<and> i \<in> set (pn_tabs p)))"
proof -
  have w: "layout_wf t" using replay_wf [OF assms(1) createInitialState_wf assms(2)] .
  then have p: "tab_partition (owns (pane_view t)) (tab_at t)" by (simp add: layout_wf_def panes_wf_def)
  have o: "(\<exists>p. node_at t k = Some (Pane_Node p) \<and> i \<in> set (pn_tabs p)) \<longleftrightarrow> owns (pane_view t) k i" for k i
    by (auto simp: owns_def pane_view_def pane_of_def split: option.splits layout_node.splits)
  have "tab_at t i \<noteq> None \<longleftrightarrow> (\<exists>!k. owns (pane_view t) k i)" for i
  proof
    assume "tab_at t i \<noteq> None"
    then obtain x where "tab_at t i = Some x" by blast
    then obtain k where k: "owns (pane_view t) k i" using p unfolding tab_partition_def by blast
    then show "\<exists>!k. owns (pane_view t) k i"
    proof (rule ex1I)
      show "owns (pane_view t) l i \<Longrightarrow> l = k" for l using p k unfolding tab_partition_def by blast
    qed
  next
    assume "\<exists>!k. owns (pane_view t) k i"
    then show "tab_at t i \<noteq> None" using p unfolding tab_partition_def by blast
  qed
  then show ?thesis using w unfolding o by blast
qed

definition sample_tab :: "string \<Rightarrow> tab_record" where
  "sample_tab i = \<lparr>tb_id = i, tb_kind = ''file'', tb_content = ''a.ts'', tb_title = ''a.ts''\<rparr>"

definition sample_ops :: "layout_op list" where
  "sample_ops = [Op_OpenTab ''pane1'' (sample_tab ''tab2'') 0, Op_Split ''pane1'' Row_Axis Side_After ''pane3'' ''split4'',
     Op_OpenTab ''pane3'' (sample_tab ''tab5'') 0, Op_MoveTab ''tab2'' ''pane3'' 1, Op_Merge ''pane1'']"

abbreviation sample_start :: layout_state where
  "sample_start \<equiv> fst (createInitialState (createIdMinter 0) None Mode_Push)"

lemma dock_layouts_well_formed_witness:
  "case replay sample_start sample_ops of Inl e \<Rightarrow> False | Inr t \<Rightarrow> layout_wf t"
proof -
  have "list_all user_op sample_ops" by code_simp
  moreover have "\<exists>t. replay sample_start sample_ops = Inr t"
    by (rule is_inr_ex) code_simp
  ultimately show ?thesis using dock_layouts_well_formed by auto
qed

text \<open>
  Claim C26. Every recorded operation is undone exactly: when the engine accepts one on a well-formed
  layout, the inverse it captured applies to the result and gives back a layout with the same nodes, tabs,
  root, panel order, focus and presentation (only the order of the keys in the node and tab records may
  differ).
\<close>

theorem dock_operation_undone:
  assumes "layout_wf s" "user_op op" "applyOp s op = Inr (s', back_ops)"
  shows "\<exists>t. replay s' back_ops = Inr t \<and> layout_eq t s"
  using applyOp_undone [OF assms] by (simp add: undone_def)

lemma dock_operation_undone_witness:
  "case applyOp sample_start (Op_Split ''pane1'' Row_Axis Side_After ''pane3'' ''split4'') of
     Inl e \<Rightarrow> False | Inr (s', back_ops) \<Rightarrow> (\<exists>t. replay s' back_ops = Inr t \<and> layout_eq t sample_start)"
proof -
  let ?op = "Op_Split ''pane1'' Row_Axis Side_After ''pane3'' ''split4''"
  have u: "user_op ?op" by code_simp
  have "case applyOp sample_start ?op of Inl e \<Rightarrow> False | Inr x \<Rightarrow> True" by code_simp
  then obtain r where r: "applyOp sample_start ?op = Inr r" using is_inr_ex by blast
  show ?thesis
    using dock_operation_undone [OF createInitialState_wf u, of "createIdMinter 0" None Mode_Push "fst r" "snd r"] r
    by (cases r) simp
qed

text \<open>
  Claim C25. The history is exact for every session: whatever intents the user dispatches (\<open>command_ok\<close>: floats
  with a positive rectangle, none of the operations that exist only as inverses) and whatever undos and redos
  come between them, an intent the engine refuses changes nothing, no undo or redo ever throws, the current layout is well-formed, and it is the
  layout that replaying the entries before the cursor from the start gives.
\<close>

theorem dock_session_exact:
  assumes "list_all command_ok commands"
  shows "\<exists>q t. surface_session (new_sequencer (fst (createInitialState m makeTab mode))) commands = Inr q
    \<and> replay (fst (createInitialState m makeTab mode)) (applied_ops (sq_recorded q)) = Inr t
    \<and> layout_eq t (sq_current q) \<and> layout_wf (sq_current q)"
  using session_ok [OF createInitialState_wf sequencer_started assms] by (force simp: sequencer_ok_def Let_def)

definition sample_commands :: "surface_command list" where
  "sample_commands = map (\<lambda>op. Do_Intent [op]) sample_ops @ [Do_Undo, Do_Undo, Do_Redo, Do_Intent [Op_FocusPane ''pane1''],
     Do_Intent [Op_FocusTab ''tab5''], Do_Undo, Do_Redo]"

lemma dock_session_exact_witness:
  "\<exists>q t. surface_session (new_sequencer sample_start) sample_commands = Inr q
     \<and> replay sample_start (applied_ops (sq_recorded q)) = Inr t \<and> layout_eq t (sq_current q) \<and> layout_wf (sq_current q)"
proof -
  have "list_all command_ok sample_commands" by code_simp
  then show ?thesis by (rule dock_session_exact)
qed

text \<open>
  Undo followed by redo changes nothing: after any session with a step to undo, both succeed,
  the history is exactly what it was, the focus-run rule included, and the layout is the same.
\<close>

theorem dock_redo_after_undo:
  assumes "list_all command_ok commands"
    "surface_session (new_sequencer (fst (createInitialState m makeTab mode))) commands = Inr q" "canStepBack (sq_recorded q)"
  shows "\<exists>q1 q2. undo q = (q1, Inr True) \<and> redo q1 = (q2, Inr True) \<and> sq_recorded q2 = sq_recorded q
    \<and> hs_cursor (sq_recorded q1) < hs_cursor (sq_recorded q) \<and> layout_eq (sq_current q2) (sq_current q)"
proof -
  let ?s0 = "fst (createInitialState m makeTab mode)" and ?h = "sq_recorded q"
  note w = createInitialState_wf [of m makeTab mode]
  have ok: "sequencer_ok ?s0 q" using session_ok [OF w sequencer_started assms(1)] assms(2) by auto
  have c: "hs_cursor ?h > 0" "at_boundary ?h" using assms(3) ok by (auto simp: canStepBack_def sequencer_ok_def Let_def)
  note b = back_count_bounds [OF c(1)]
  obtain q1 where q1: "undo q = (q1, Inr True)" "sequencer_ok ?s0 q1"
    "sq_recorded q1 = ?h\<lparr>hs_cursor := hs_cursor ?h - back_count ?h\<rparr>"
    using undo_ok [OF w ok] assms(3) by auto
  have fwd: "canStepForward (sq_recorded q1)"
    using q1(3) b ok by (auto simp: canStepForward_def sequencer_ok_def Let_def)
  obtain q2 where q2: "redo q1 = (q2, Inr True)" "sequencer_ok ?s0 q2"
    "sq_recorded q2 = (sq_recorded q1)\<lparr>hs_cursor := hs_cursor (sq_recorded q1) + forward_count (sq_recorded q1)\<rparr>"
    using redo_ok [OF w q1(2)] fwd by auto
  have "sq_recorded q2 = ?h" using q2(3) q1(3) forward_after_back [OF c] b by simp
  moreover have "layout_eq (sq_current q2) (sq_current q)"
    using ok q2(2) calculation by (auto simp: sequencer_ok_def Let_def intro: layout_eq_trans layout_eq_sym)
  ultimately show ?thesis using q1 q2(1) b by auto
qed

lemma dock_redo_after_undo_witness:
  "case surface_session (new_sequencer sample_start) sample_commands of Inl e \<Rightarrow> False
   | Inr q \<Rightarrow> (\<exists>q1 q2. undo q = (q1, Inr True) \<and> redo q1 = (q2, Inr True) \<and> sq_recorded q2 = sq_recorded q)"
proof -
  have ok: "list_all command_ok sample_commands" by code_simp
  have "case surface_session (new_sequencer sample_start) sample_commands of Inl e \<Rightarrow> False | Inr q \<Rightarrow> canStepBack (sq_recorded q)"
    by code_simp
  then obtain q where q: "surface_session (new_sequencer sample_start) sample_commands = Inr q" "canStepBack (sq_recorded q)"
    by (simp split: sum.splits)
  show ?thesis using dock_redo_after_undo [OF ok q] q(1) by auto
qed

text \<open>Settling at work: an emptied pane is merged away, an emptied root is seeded again.\<close>

lemma settle_fills_panes_witness:
  "\<exists>ops m' t. planSettle sample_start (createIdMinter 1) (Some sample_tab) = Inr (ops, m') \<and> list_all user_op ops
     \<and> replay sample_start ops = Inr t \<and> (\<forall>k. \<not> empty_pane t k)"
  using settle_fills_panes [OF createInitialState_wf, of "Some sample_tab" "createIdMinter 0" None Mode_Push "createIdMinter 1"]
  by (auto simp: createInitialState_def Let_def mint_def amap_get_def)

end
