(* ===== verification/Stream_Chunks.thy ===== *)
theory Stream_Chunks
  imports Js_Text
begin

text \<open>
  The chunk vocabulary of one model stream (\<open>packages/llm/llm/src/types.ts\<close>) and the assembler that turns
  chunks into content blocks (\<open>assembler.ts\<close>). Content blocks, usage and finish reasons are JSON payloads;
  block indices are integers. \<open>Other_Chunk\<close> is an object outside the declared vocabulary: the types rule
  it out, a stored record may still hold one.
\<close>

section \<open>Chunks\<close>

record replay_envelope =
  re_response :: json
  re_blocks :: "json list option"

datatype stream_chunk =
    Block_Start int string
  | Text_Delta int string
  | Reasoning_Delta int string
  | Tool_Delta int string "string option" string
  | Block_End int json
  | Usage_Chunk json
  | Finish_Chunk json "replay_envelope option"
  | Other_Chunk json

datatype stream_error =
    Bad_Time
  | Bad_Index string
  | Not_Lossless
  | Unhandled_Chunk
  | Record_Not_Object
  | Bad_Keys string
  | Not_String_Array string
  | Empty_Members string
  | Bad_Id
  | Bad_Name
  | Bad_Dt string
  | Dt_Length string
  | Unsafe_Member_Time string
  | Bad_Raw_Chunk
  | Unsupported_Record
  | Incomplete_Block string
  | No_Partial int

definition hasNonWhitespace :: "string \<Rightarrow> bool" where
  "hasNonWhitespace s = (\<exists>c \<in> set s. \<not> js_space c)"

section \<open>Partial blocks\<close>

record partial_block =
  pb_type :: string
  pb_text :: string
  pb_call_id :: "string option"
  pb_call_name :: "string option"
  pb_arguments :: string
  pb_block :: "json option"

definition new_partial :: "string \<Rightarrow> partial_block" where
  "new_partial t = \<lparr>pb_type = t, pb_text = [], pb_call_id = None, pb_call_name = None, pb_arguments = [], pb_block = None\<rparr>"

record assembler =
  as_partials :: "(int, partial_block) amap"
  as_order :: "int list"
  as_usage :: "json option"
  as_finish :: "json option"
  as_replay :: "replay_envelope option"

definition new_assembler :: assembler where
  "new_assembler = \<lparr>as_partials = [], as_order = [], as_usage = None, as_finish = None, as_replay = None\<rparr>"

text \<open>A block's \<open>type\<close> tag; every content block has one.\<close>

definition json_string :: "json option \<Rightarrow> string" where
  "json_string v = (case v of Some (JStr s) \<Rightarrow> s | _ \<Rightarrow> [])"

definition block_tag :: "json \<Rightarrow> string" where
  "block_tag b = json_string (jget b ''type'')"

text \<open>\<open>ensure\<close>, and the partial it returns.\<close>

definition ensure :: "int \<Rightarrow> string \<Rightarrow> assembler \<Rightarrow> assembler" where
  "ensure i t a = (case amap_get (as_partials a) i of Some _ \<Rightarrow> a
     | None \<Rightarrow> a\<lparr>as_partials := amap_set (as_partials a) i (new_partial t), as_order := as_order a @ [i]\<rparr>)"

text \<open>Writing to the partial of an index; a partial closed by \<open>block-end\<close> ignores what follows.\<close>

definition on_open :: "int \<Rightarrow> (partial_block \<Rightarrow> partial_block) \<Rightarrow> assembler \<Rightarrow> assembler" where
  "on_open i f a = (case amap_get (as_partials a) i of None \<Rightarrow> a
     | Some p \<Rightarrow> if pb_block p \<noteq> None then a else a\<lparr>as_partials := amap_set (as_partials a) i (f p)\<rparr>)"

fun assembler_push :: "stream_chunk \<Rightarrow> assembler \<Rightarrow> (stream_error, assembler) res" where
  "assembler_push (Block_Start i t) a = Inr (ensure i t a)"
| "assembler_push (Text_Delta i s) a = Inr (on_open i (\<lambda>p. p\<lparr>pb_text := pb_text p @ s\<rparr>) (ensure i ''text'' a))"
| "assembler_push (Reasoning_Delta i s) a = Inr (on_open i (\<lambda>p. p\<lparr>pb_text := pb_text p @ s\<rparr>) (ensure i ''reasoning'' a))"
| "assembler_push (Tool_Delta i c n d) a = Inr (on_open i (\<lambda>p. p\<lparr>pb_call_id := Some c,
       pb_call_name := (if n = None \<or> n = Some [] then pb_call_name p else n), pb_arguments := pb_arguments p @ d\<rparr>)
     (ensure i ''tool-call'' a))"
| "assembler_push (Block_End i b) a = Inr (on_open i (\<lambda>p. p\<lparr>pb_block := Some b\<rparr>) (ensure i (block_tag b) a))"
| "assembler_push (Usage_Chunk u) a = Inr (a\<lparr>as_usage := Some u\<rparr>)"
| "assembler_push (Finish_Chunk r e) a = Inr (a\<lparr>as_finish := Some r, as_replay := e\<rparr>)"
| "assembler_push (Other_Chunk j) a = Inl Unhandled_Chunk"

definition push_all :: "stream_chunk list \<Rightarrow> assembler \<Rightarrow> (stream_error, assembler) res" where
  "push_all cs a = fold_res (\<lambda>a c. assembler_push c a) a cs"

section \<open>Assembly\<close>

definition text_block :: "string \<Rightarrow> string \<Rightarrow> json" where
  "text_block t s = JObj [(''type'', JStr t), (''text'', JStr s)]"

definition tool_call_block :: "string \<Rightarrow> string \<Rightarrow> string \<Rightarrow> json" where
  "tool_call_block i n a = JObj [(''type'', JStr ''tool-call''), (''id'', JStr i), (''name'', JStr n), (''arguments'', JStr a)]"

definition show_int :: "int \<Rightarrow> string" where
  "show_int i = (if i < 0 then ''-'' @ show_nat (nat (- i)) else show_nat (nat i))"

definition assemble :: "partial_block \<Rightarrow> int \<Rightarrow> (stream_error, json) res" where
  "assemble p i = (case pb_block p of Some b \<Rightarrow> Inr b
     | None \<Rightarrow>
         if pb_type p = ''text'' then Inr (text_block ''text'' (pb_text p))
         else if pb_type p = ''reasoning'' then Inr (text_block ''reasoning'' (pb_text p))
         else if pb_type p = ''tool-call'' then
           Inr (tool_call_block (case pb_call_id p of None \<Rightarrow> ''call-'' @ show_int i | Some c \<Rightarrow> c)
             (case pb_call_name p of None \<Rightarrow> [] | Some n \<Rightarrow> n) (pb_arguments p))
         else Inl (Incomplete_Block (pb_type p)))"

definition mustGet :: "assembler \<Rightarrow> int \<Rightarrow> (stream_error, partial_block) res" where
  "mustGet a i = (case amap_get (as_partials a) i of None \<Rightarrow> Inl (No_Partial i) | Some p \<Rightarrow> Inr p)"

definition finish :: "assembler \<Rightarrow> json" where
  "finish a = (case as_finish a of None \<Rightarrow> JObj [(''kind'', JStr ''stop'')] | Some r \<Rightarrow> r)"

definition truncated_reply :: "assembler \<Rightarrow> bool" where
  "truncated_reply a = (jget (finish a) ''kind'' = Some (JStr ''max-tokens''))"

definition map_res :: "('a \<Rightarrow> ('e, 'b) res) \<Rightarrow> 'a list \<Rightarrow> ('e, 'b list) res" where
  "map_res f xs = fold_res (\<lambda>out x. rbind (f x) (\<lambda>y. Inr (out @ [y]))) [] xs"

definition all_blocks :: "assembler \<Rightarrow> (stream_error, json list) res" where
  "all_blocks a = map_res (\<lambda>i. rbind (mustGet a i) (\<lambda>p. assemble p i)) (as_order a)"

text \<open>The positions a truncated reply keeps, and a list filtered by them.\<close>

definition kept_flags :: "json list \<Rightarrow> bool list" where
  "kept_flags bs = map (\<lambda>b. block_tag b \<noteq> ''tool-call'') bs"

definition keep_by :: "bool list \<Rightarrow> 'a list \<Rightarrow> 'a list" where
  "keep_by flags xs = map snd (filter fst (zip flags xs))"

definition assembled :: "assembler \<Rightarrow> (stream_error, json list \<times> replay_envelope option) res" where
  "assembled a = rbind (all_blocks a) (\<lambda>all.
     let flags = kept_flags all;
         kept_blocks = (if truncated_reply a then keep_by flags all else all)
     in Inr (kept_blocks, (case as_replay a of None \<Rightarrow> None
          | Some e \<Rightarrow> (case re_blocks e of None \<Rightarrow> Some e
              | Some ms \<Rightarrow> if length ms \<noteq> length all then None
                  else if \<not> truncated_reply a \<or> length kept_blocks = length all then Some e
                  else Some \<lparr>re_response = re_response e, re_blocks = Some (keep_by flags ms)\<rparr>))))"

definition blocks :: "assembler \<Rightarrow> (stream_error, json list) res" where
  "blocks a = rbind (assembled a) (\<lambda>r. Inr (fst r))"

definition replayState :: "assembler \<Rightarrow> (stream_error, replay_envelope option) res" where
  "replayState a = rbind (assembled a) (\<lambda>r. Inr (snd r))"

definition partial_tag :: "partial_block \<Rightarrow> string" where
  "partial_tag p = (case pb_block p of Some b \<Rightarrow> block_tag b | None \<Rightarrow> pb_type p)"

definition prose_tag :: "string \<Rightarrow> bool" where
  "prose_tag t = (t = ''text'' \<or> t = ''reasoning'')"

definition interruptedBlocks :: "assembler \<Rightarrow> (stream_error, json list) res" where
  "interruptedBlocks a = rbind (map_res (\<lambda>i. rbind (mustGet a i) (\<lambda>p.
       if \<not> prose_tag (partial_tag p) then Inr None else rbind (assemble p i) (\<lambda>b. Inr (Some b)))) (as_order a))
     (\<lambda>bs. Inr (concat (map (\<lambda>b. case b of None \<Rightarrow> []
        | Some j \<Rightarrow> if prose_tag (block_tag j) \<and> js_trim (json_string (jget j ''text'')) \<noteq> [] then [j] else []) bs)))"

end
