(* ===== verification/Assistant_Stream.thy ===== *)
theory Assistant_Stream
  imports Stream_Chunks
begin

text \<open>
  The compact form of one model stream (\<open>packages/llm/llm/src/assistant-stream.ts\<close>): the accumulator that
  packs runs of deltas, the durable records, the validating expansion, and the readers that answer from
  the records alone. Times are safe integers, so sums of two are exact in doubles as well.
\<close>

section \<open>Records\<close>

datatype text_kind = Text_Kind | Reasoning_Kind

datatype stream_record =
    Rec_Text text_kind int int "int list" "string list"
  | Rec_Tool int int "int list" string "string option" "string list"
  | Rec_Chunk int stream_chunk

text \<open>The accumulator's own records remember the last time of a run.\<close>

datatype mutable_record =
    Mut_Text text_kind int int "int list" "string list" int
  | Mut_Tool int int "int list" string "string option" "string list" int
  | Mut_Chunk int stream_chunk

section \<open>The JSON form\<close>

abbreviation jint :: "int \<Rightarrow> json" where "jint i \<equiv> JNum (JInt i)"

definition replay_json :: "replay_envelope \<Rightarrow> json" where
  "replay_json e = JObj ((''response'', re_response e) # (case re_blocks e of None \<Rightarrow> [] | Some bs \<Rightarrow> [(''blocks'', JArr bs)]))"

fun chunk_json :: "stream_chunk \<Rightarrow> json" where
  "chunk_json (Block_Start i t) = JObj [(''type'', JStr ''block-start''), (''index'', jint i), (''blockType'', JStr t)]"
| "chunk_json (Text_Delta i s) = JObj [(''type'', JStr ''text-delta''), (''index'', jint i), (''text'', JStr s)]"
| "chunk_json (Reasoning_Delta i s) = JObj [(''type'', JStr ''reasoning-delta''), (''index'', jint i), (''text'', JStr s)]"
| "chunk_json (Tool_Delta i c n d) = JObj ([(''type'', JStr ''tool-call-delta''), (''index'', jint i), (''id'', JStr c)]
     @ (case n of None \<Rightarrow> [] | Some x \<Rightarrow> [(''name'', JStr x)]) @ [(''argumentsDelta'', JStr d)])"
| "chunk_json (Block_End i b) = JObj [(''type'', JStr ''block-end''), (''index'', jint i), (''block'', b)]"
| "chunk_json (Usage_Chunk u) = JObj [(''type'', JStr ''usage''), (''usage'', u)]"
| "chunk_json (Finish_Chunk r e) = JObj ([(''type'', JStr ''finish''), (''reason'', r)]
     @ (case e of None \<Rightarrow> [] | Some x \<Rightarrow> [(''replayState'', replay_json x)]))"
| "chunk_json (Other_Chunk j) = j"

text \<open>The cast of a stored object to a chunk: the declared shapes by name, anything else as it is.
  The code casts by the \<open>type\<close> field alone; an object with a declared \<open>type\<close> but missing or extra keys is outside
  the declared vocabulary and is kept here as \<open>Other_Chunk\<close>.\<close>

definition has_keys :: "json \<Rightarrow> string list \<Rightarrow> bool" where
  "has_keys v ks = (length (jkeys v) = length ks \<and> list_all (hasOwn v) ks)"

definition replay_of_json :: "json \<Rightarrow> replay_envelope option" where
  "replay_of_json v = (case (jget v ''response'', jget v ''blocks'') of
       (Some r, None) \<Rightarrow> if has_keys v [''response''] then Some \<lparr>re_response = r, re_blocks = None\<rparr> else None
     | (Some r, Some (JArr bs)) \<Rightarrow> if has_keys v [''response'', ''blocks''] then Some \<lparr>re_response = r, re_blocks = Some bs\<rparr> else None
     | _ \<Rightarrow> None)"

definition chunk_of_json :: "json \<Rightarrow> stream_chunk" where
  "chunk_of_json v =
     (let t = json_string (jget v ''type'') in
      if t = ''block-start'' \<and> has_keys v [''type'', ''index'', ''blockType''] then
        (case (jget v ''index'', jget v ''blockType'') of (Some (JNum (JInt i)), Some (JStr b)) \<Rightarrow> Block_Start i b | _ \<Rightarrow> Other_Chunk v)
      else if t = ''text-delta'' \<and> has_keys v [''type'', ''index'', ''text''] then
        (case (jget v ''index'', jget v ''text'') of (Some (JNum (JInt i)), Some (JStr s)) \<Rightarrow> Text_Delta i s | _ \<Rightarrow> Other_Chunk v)
      else if t = ''reasoning-delta'' \<and> has_keys v [''type'', ''index'', ''text''] then
        (case (jget v ''index'', jget v ''text'') of (Some (JNum (JInt i)), Some (JStr s)) \<Rightarrow> Reasoning_Delta i s | _ \<Rightarrow> Other_Chunk v)
      else if t = ''tool-call-delta'' \<and> has_keys v [''type'', ''index'', ''id'', ''argumentsDelta''] then
        (case (jget v ''index'', jget v ''id'', jget v ''argumentsDelta'') of
           (Some (JNum (JInt i)), Some (JStr c), Some (JStr d)) \<Rightarrow> Tool_Delta i c None d | _ \<Rightarrow> Other_Chunk v)
      else if t = ''tool-call-delta'' \<and> has_keys v [''type'', ''index'', ''id'', ''name'', ''argumentsDelta''] then
        (case (jget v ''index'', jget v ''id'', jget v ''name'', jget v ''argumentsDelta'') of
           (Some (JNum (JInt i)), Some (JStr c), Some (JStr n), Some (JStr d)) \<Rightarrow> Tool_Delta i c (Some n) d | _ \<Rightarrow> Other_Chunk v)
      else if t = ''block-end'' \<and> has_keys v [''type'', ''index'', ''block''] then
        (case (jget v ''index'', jget v ''block'') of (Some (JNum (JInt i)), Some b) \<Rightarrow> Block_End i b | _ \<Rightarrow> Other_Chunk v)
      else if t = ''usage'' \<and> has_keys v [''type'', ''usage''] then
        (case jget v ''usage'' of Some u \<Rightarrow> Usage_Chunk u | _ \<Rightarrow> Other_Chunk v)
      else if t = ''finish'' \<and> has_keys v [''type'', ''reason''] then
        (case jget v ''reason'' of Some r \<Rightarrow> Finish_Chunk r None | _ \<Rightarrow> Other_Chunk v)
      else if t = ''finish'' \<and> has_keys v [''type'', ''reason'', ''replayState''] then
        (case (jget v ''reason'', jget v ''replayState'') of
           (Some r, Some e) \<Rightarrow> (case replay_of_json e of Some x \<Rightarrow> Finish_Chunk r (Some x) | None \<Rightarrow> Other_Chunk v) | _ \<Rightarrow> Other_Chunk v)
      else Other_Chunk v)"

definition text_kind_name :: "text_kind \<Rightarrow> string" where
  "text_kind_name k = (case k of Text_Kind \<Rightarrow> ''text-chunks'' | Reasoning_Kind \<Rightarrow> ''reasoning-chunks'')"

fun record_json :: "stream_record \<Rightarrow> json" where
  "record_json (Rec_Text k t0 i dt ts) = JObj [(''type'', JStr (text_kind_name k)), (''time0'', jint t0), (''index'', jint i),
     (''dt'', JArr (map jint dt)), (''texts'', JArr (map JStr ts))]"
| "record_json (Rec_Tool t0 i dt c n as) = JObj ([(''type'', JStr ''tool-call-chunks''), (''time0'', jint t0), (''index'', jint i),
     (''dt'', JArr (map jint dt)), (''id'', JStr c)] @ (case n of None \<Rightarrow> [] | Some x \<Rightarrow> [(''name'', JStr x)]) @ [(''args'', JArr (map JStr as))])"
| "record_json (Rec_Chunk t c) = JObj [(''type'', JStr ''chunk''), (''time'', jint t), (''chunk'', chunk_json c)]"

section \<open>Checks\<close>

text \<open>Lossless JSON has no negative zero at any depth (\<open>snapshotJsonValue\<close> on a JSON value).\<close>

fun lossless :: "json \<Rightarrow> bool" where
  "lossless (JNum JNegZero) = False"
| "lossless (JArr xs) = list_all lossless xs"
| "lossless (JObj fs) = list_all (\<lambda>(k, v). lossless v) fs"
| "lossless _ = True"

definition num_value :: "json \<Rightarrow> int" where
  "num_value v = (case v of JNum (JInt i) \<Rightarrow> i | _ \<Rightarrow> 0)"

definition safe_int :: "int \<Rightarrow> bool" where
  "safe_int i = (\<bar>i\<bar> \<le> MAX_SAFE_INTEGER)"

definition safeTime :: "json \<Rightarrow> (stream_error, int) res" where
  "safeTime v = rbind (require (isSafeInteger v) Bad_Time) (\<lambda>_. Inr (num_value v))"

definition safeIndex :: "json \<Rightarrow> string \<Rightarrow> (stream_error, int) res" where
  "safeIndex v label = rbind (require (isSafeInteger v \<and> v \<noteq> JNum JNegZero \<and> 0 \<le> num_value v) (Bad_Index label)) (\<lambda>_. Inr (num_value v))"

definition snapshotChunk :: "stream_chunk \<Rightarrow> (stream_error, stream_chunk) res" where
  "snapshotChunk c = rbind (require (lossless (chunk_json c)) Not_Lossless) (\<lambda>_. Inr c)"

definition safeGap :: "int \<Rightarrow> int \<Rightarrow> int option" where
  "safeGap previous next_time = (let gap = next_time - previous in
     if safe_int gap \<and> previous + gap = next_time then Some gap else None)"

section \<open>The accumulator\<close>

definition last_record :: "mutable_record list \<Rightarrow> mutable_record option" where
  "last_record rs = (if rs = [] then None else Some (last rs))"

text \<open>A text or reasoning delta: it extends the last record or starts a new one.\<close>

definition push_text :: "text_kind \<Rightarrow> int \<Rightarrow> int \<Rightarrow> string \<Rightarrow> mutable_record list \<Rightarrow> mutable_record list" where
  "push_text k time i s rs =
     (let new = rs @ [Mut_Text k time i [] [s] time] in
      case last_record rs of
        Some (Mut_Text k' t0 i' dt ts lastTime) \<Rightarrow>
          (case (if k' = k then safeGap lastTime time else None) of
             Some gap \<Rightarrow> if i' = i then butlast rs @ [Mut_Text k' t0 i' (dt @ [gap]) (ts @ [s]) time] else new
           | None \<Rightarrow> new)
      | _ \<Rightarrow> new)"

definition push_tool :: "int \<Rightarrow> int \<Rightarrow> string \<Rightarrow> string option \<Rightarrow> string \<Rightarrow> mutable_record list \<Rightarrow> mutable_record list" where
  "push_tool time i c n d rs =
     (let new = rs @ [Mut_Tool time i [] c n [d] time] in
      case last_record rs of
        Some (Mut_Tool t0 i' dt c' n' as lastTime) \<Rightarrow>
          (case safeGap lastTime time of
             Some gap \<Rightarrow> if i' = i \<and> c' = c \<and> n' = n then butlast rs @ [Mut_Tool t0 i' (dt @ [gap]) c' n' (as @ [d]) time] else new
           | None \<Rightarrow> new)
      | _ \<Rightarrow> new)"

definition stream_push :: "mutable_record list \<Rightarrow> json \<times> stream_chunk \<Rightarrow> (stream_error, mutable_record list) res" where
  "stream_push rs value =
     rbind (safeTime (fst value)) (\<lambda>time.
     rbind (snapshotChunk (snd value)) (\<lambda>chunk.
     (case chunk of
        Text_Delta i s \<Rightarrow> rbind (safeIndex (jint i) ''text-delta'') (\<lambda>_. Inr (push_text Text_Kind time i s rs))
      | Reasoning_Delta i s \<Rightarrow> rbind (safeIndex (jint i) ''reasoning-delta'') (\<lambda>_. Inr (push_text Reasoning_Kind time i s rs))
      | Tool_Delta i c n d \<Rightarrow> rbind (safeIndex (jint i) ''tool-call-delta'') (\<lambda>_.
          if c = [] \<or> n = Some [] then Inr (rs @ [Mut_Chunk time chunk]) else Inr (push_tool time i c n d rs))
      | Other_Chunk j \<Rightarrow> Inl Unhandled_Chunk
      | _ \<Rightarrow> Inr (rs @ [Mut_Chunk time chunk]))))"

fun durable :: "mutable_record \<Rightarrow> stream_record" where
  "durable (Mut_Text k t0 i dt ts l) = Rec_Text k t0 i dt ts"
| "durable (Mut_Tool t0 i dt c n as l) = Rec_Tool t0 i dt c n as"
| "durable (Mut_Chunk t c) = Rec_Chunk t c"

definition stream_snapshot :: "mutable_record list \<Rightarrow> stream_record list" where
  "stream_snapshot rs = map durable rs"

section \<open>Validation and expansion\<close>

definition exactKeys :: "json \<Rightarrow> string list \<Rightarrow> string \<Rightarrow> (stream_error, unit) res" where
  "exactKeys v ks label = require (has_keys v ks) (Bad_Keys label)"

fun strings_of :: "json list \<Rightarrow> string list option" where
  "strings_of [] = Some []"
| "strings_of (JStr s # vs) = map_option ((#) s) (strings_of vs)"
| "strings_of _ = None"

definition stringArray :: "json option \<Rightarrow> string \<Rightarrow> (stream_error, string list) res" where
  "stringArray v label = (case v of
     Some (JArr xs) \<Rightarrow> (case strings_of xs of Some ss \<Rightarrow> Inr ss | None \<Rightarrow> Inl (Not_String_Array label))
   | _ \<Rightarrow> Inl (Not_String_Array label))"

fun sums_safe :: "int \<Rightarrow> int list \<Rightarrow> bool" where
  "sums_safe t [] = True"
| "sums_safe t (g # gs) = (safe_int (t + g) \<and> sums_safe (t + g) gs)"

definition own :: "json \<Rightarrow> string \<Rightarrow> json" where
  "own v k = (case jget v k of Some x \<Rightarrow> x | None \<Rightarrow> JNull)"

definition validateRun :: "json \<Rightarrow> nat \<Rightarrow> string \<Rightarrow> (stream_error, int \<times> int \<times> int list) res" where
  "validateRun v members label =
     rbind (safeTime (own v ''time0'')) (\<lambda>time0.
     rbind (safeIndex (own v ''index'') label) (\<lambda>index.
     (case jget v ''dt'' of
        Some (JArr gs) \<Rightarrow>
          rbind (require (list_all isSafeInteger gs) (Bad_Dt label)) (\<lambda>_.
          rbind (require (length gs = members - 1) (Dt_Length label)) (\<lambda>_.
          rbind (require (sums_safe time0 (map num_value gs)) (Unsafe_Member_Time label)) (\<lambda>_.
          Inr (time0, index, map num_value gs))))
      | _ \<Rightarrow> Inl (Bad_Dt label))))"

definition validate_text :: "text_kind \<Rightarrow> json \<Rightarrow> (stream_error, stream_record) res" where
  "validate_text k v =
     (let label = text_kind_name k in
      rbind (exactKeys v [''type'', ''time0'', ''index'', ''dt'', ''texts''] label) (\<lambda>_.
      rbind (stringArray (jget v ''texts'') label) (\<lambda>texts.
      rbind (require (texts \<noteq> []) (Empty_Members label)) (\<lambda>_.
      rbind (validateRun v (length texts) label) (\<lambda>(t0, i, dt).
      Inr (Rec_Text k t0 i dt texts))))))"

definition tool_id_of :: "json \<Rightarrow> (stream_error, string) res" where
  "tool_id_of v = (case jget v ''id'' of Some (JStr c) \<Rightarrow> (if c = [] then Inl Bad_Id else Inr c) | _ \<Rightarrow> Inl Bad_Id)"

definition tool_name_of :: "json \<Rightarrow> (stream_error, string option) res" where
  "tool_name_of v = (case jget v ''name'' of
     None \<Rightarrow> Inr None | Some (JStr n) \<Rightarrow> (if n = [] then Inl Bad_Name else Inr (Some n)) | Some _ \<Rightarrow> Inl Bad_Name)"

definition validate_tool :: "json \<Rightarrow> (stream_error, stream_record) res" where
  "validate_tool v =
     (let label = ''tool-call-chunks'';
          ks = (if hasOwn v ''name'' then [''type'', ''time0'', ''index'', ''dt'', ''id'', ''name'', ''args'']
                else [''type'', ''time0'', ''index'', ''dt'', ''id'', ''args'']) in
      rbind (exactKeys v ks label) (\<lambda>_.
      rbind (stringArray (jget v ''args'') label) (\<lambda>args.
      rbind (require (args \<noteq> []) (Empty_Members label)) (\<lambda>_.
      rbind (tool_id_of v) (\<lambda>c.
      rbind (tool_name_of v) (\<lambda>n.
      rbind (validateRun v (length args) label) (\<lambda>(t0, i, dt).
      Inr (Rec_Tool t0 i dt c n args))))))))"

definition validate_raw :: "json \<Rightarrow> (stream_error, stream_record) res" where
  "validate_raw v =
     rbind (exactKeys v [''type'', ''time'', ''chunk''] ''chunk'') (\<lambda>_.
     rbind (safeTime (own v ''time'')) (\<lambda>time.
     let chunk = own v ''chunk'' in
     rbind (require (isRecord chunk \<and> lossless chunk) Bad_Raw_Chunk) (\<lambda>_.
     Inr (Rec_Chunk time (chunk_of_json chunk)))))"

definition validateRecord :: "json \<Rightarrow> (stream_error, stream_record) res" where
  "validateRecord v =
     (if \<not> isRecord v then Inl Record_Not_Object
      else let t = jget v ''type'' in
        if t = Some (JStr ''text-chunks'') then validate_text Text_Kind v
        else if t = Some (JStr ''reasoning-chunks'') then validate_text Reasoning_Kind v
        else if t = Some (JStr ''tool-call-chunks'') then validate_tool v
        else if t = Some (JStr ''chunk'') then validate_raw v
        else Inl Unsupported_Record)"

fun member_times :: "int \<Rightarrow> int list \<Rightarrow> int list" where
  "member_times t [] = [t]"
| "member_times t (g # gs) = t # member_times (t + g) gs"

definition text_delta :: "text_kind \<Rightarrow> int \<Rightarrow> string \<Rightarrow> stream_chunk" where
  "text_delta k i s = (case k of Text_Kind \<Rightarrow> Text_Delta i s | Reasoning_Kind \<Rightarrow> Reasoning_Delta i s)"

fun expand_record :: "stream_record \<Rightarrow> (int \<times> stream_chunk) list" where
  "expand_record (Rec_Text k t0 i dt ts) = zip (member_times t0 dt) (map (text_delta k i) ts)"
| "expand_record (Rec_Tool t0 i dt c n as) = zip (member_times t0 dt) (map (Tool_Delta i c n) as)"
| "expand_record (Rec_Chunk t c) = [(t, c)]"

definition expandAssistantStream :: "json list \<Rightarrow> (stream_error, (int \<times> stream_chunk) list) res" where
  "expandAssistantStream stream =
     fold_res (\<lambda>out v. rbind (validateRecord v) (\<lambda>r. Inr (out @ expand_record r))) [] stream"

section \<open>Readers\<close>

definition blockIsVisible :: "json \<Rightarrow> bool" where
  "blockIsVisible b = (if block_tag b = ''tool-call'' then False
     else if prose_tag (block_tag b) then hasNonWhitespace (json_string (jget b ''text'')) else True)"

fun isTokenDelta :: "stream_chunk \<Rightarrow> bool" where
  "isTokenDelta (Text_Delta i s) = (s \<noteq> [])"
| "isTokenDelta (Reasoning_Delta i s) = (s \<noteq> [])"
| "isTokenDelta (Tool_Delta i c n d) = (d \<noteq> [] \<or> n \<noteq> None)"
| "isTokenDelta _ = False"

fun isVisibleChunk :: "stream_chunk \<Rightarrow> bool" where
  "isVisibleChunk (Text_Delta i s) = hasNonWhitespace s"
| "isVisibleChunk (Reasoning_Delta i s) = hasNonWhitespace s"
| "isVisibleChunk (Block_Start i t) = (t \<noteq> ''text'' \<and> t \<noteq> ''reasoning'' \<and> t \<noteq> ''tool-call'')"
| "isVisibleChunk (Block_End i b) = blockIsVisible b"
| "isVisibleChunk _ = False"

fun chunkHasVisibleText :: "stream_chunk \<Rightarrow> bool" where
  "chunkHasVisibleText (Text_Delta i s) = hasNonWhitespace s"
| "chunkHasVisibleText (Block_End i b) = (block_tag b = ''text'' \<and> hasNonWhitespace (json_string (jget b ''text'')))"
| "chunkHasVisibleText _ = False"

fun firstRunMemberTime :: "int \<Rightarrow> int list \<Rightarrow> string list \<Rightarrow> (string \<Rightarrow> bool) \<Rightarrow> int option" where
  "firstRunMemberTime t dt [] P = None"
| "firstRunMemberTime t dt (f # fs) P = (if P f then Some t
     else (case dt of [] \<Rightarrow> None | g # gs \<Rightarrow> firstRunMemberTime (t + g) gs fs P))"

fun runFirstTokenTime :: "stream_record \<Rightarrow> int option" where
  "runFirstTokenTime (Rec_Text k t0 i dt ts) = firstRunMemberTime t0 dt ts (\<lambda>f. f \<noteq> [])"
| "runFirstTokenTime (Rec_Tool t0 i dt c n as) = (if n \<noteq> None then Some t0 else firstRunMemberTime t0 dt as (\<lambda>f. f \<noteq> []))"
| "runFirstTokenTime (Rec_Chunk t c) = (if isTokenDelta c then Some t else None)"

fun runFirstVisibleTime :: "stream_record \<Rightarrow> int option" where
  "runFirstVisibleTime (Rec_Text k t0 i dt ts) = firstRunMemberTime t0 dt ts hasNonWhitespace"
| "runFirstVisibleTime (Rec_Tool t0 i dt c n as) = None"
| "runFirstVisibleTime (Rec_Chunk t c) = (if isVisibleChunk c then Some t else None)"

fun first_some :: "('a \<Rightarrow> 'b option) \<Rightarrow> 'a list \<Rightarrow> 'b option" where
  "first_some f [] = None"
| "first_some f (x # xs) = (case f x of Some y \<Rightarrow> Some y | None \<Rightarrow> first_some f xs)"

definition assistantStreamFirstTokenTime :: "stream_record list \<Rightarrow> int option" where
  "assistantStreamFirstTokenTime stream = first_some runFirstTokenTime stream"

definition assistantStreamHasVisibleContent :: "stream_record list \<Rightarrow> bool" where
  "assistantStreamHasVisibleContent stream = list_ex (\<lambda>r. runFirstVisibleTime r \<noteq> None) stream"

fun record_has_text :: "stream_record \<Rightarrow> bool" where
  "record_has_text (Rec_Text k t0 i dt ts) = (k = Text_Kind \<and> list_ex hasNonWhitespace ts)"
| "record_has_text (Rec_Tool t0 i dt c n as) = False"
| "record_has_text (Rec_Chunk t c) = chunkHasVisibleText c"

definition assistantStreamHasVisibleText :: "stream_record list \<Rightarrow> bool" where
  "assistantStreamHasVisibleText stream = list_ex record_has_text stream"

text \<open>The chunk types the accumulator never packs, and a chunk's type.\<close>

datatype raw_type = Raw_Block_Start | Raw_Block_End | Raw_Usage | Raw_Finish

fun chunk_raw_type :: "stream_chunk \<Rightarrow> raw_type option" where
  "chunk_raw_type (Block_Start i t) = Some Raw_Block_Start"
| "chunk_raw_type (Block_End i b) = Some Raw_Block_End"
| "chunk_raw_type (Usage_Chunk u) = Some Raw_Usage"
| "chunk_raw_type (Finish_Chunk r e) = Some Raw_Finish"
| "chunk_raw_type _ = None"

fun raw_chunk_of :: "raw_type \<Rightarrow> stream_record \<Rightarrow> stream_chunk option" where
  "raw_chunk_of ty (Rec_Chunk t c) = (if chunk_raw_type c = Some ty then Some c else None)"
| "raw_chunk_of ty _ = None"

definition lastAssistantStreamChunk :: "stream_record list \<Rightarrow> raw_type \<Rightarrow> stream_chunk option" where
  "lastAssistantStreamChunk stream ty = first_some (raw_chunk_of ty) (rev stream)"

definition assistantStreamChunks :: "stream_record list \<Rightarrow> raw_type \<Rightarrow> stream_chunk list" where
  "assistantStreamChunks stream ty = List.map_filter (raw_chunk_of ty) stream"

fun record_text :: "stream_record \<Rightarrow> string" where
  "record_text (Rec_Text k t0 i dt ts) = (if k = Text_Kind then concat ts else [])"
| "record_text (Rec_Tool t0 i dt c n as) = []"
| "record_text (Rec_Chunk t c) = (case c of Text_Delta i s \<Rightarrow> s | _ \<Rightarrow> [])"

definition joinAssistantStreamText :: "stream_record list \<Rightarrow> string" where
  "joinAssistantStreamText stream = concat (map record_text stream)"

fun merged_chunk :: "stream_record \<Rightarrow> stream_chunk" where
  "merged_chunk (Rec_Text k t0 i dt ts) = text_delta k i (concat ts)"
| "merged_chunk (Rec_Tool t0 i dt c n as) = Tool_Delta i c n (concat as)"
| "merged_chunk (Rec_Chunk t c) = c"

definition assembleAssistantStream :: "stream_record list \<Rightarrow> assembler \<Rightarrow> (stream_error, assembler) res" where
  "assembleAssistantStream stream a = push_all (map merged_chunk stream) a"

end
