(* ===== verification/Stream_Laws.thy ===== *)
theory Stream_Laws
  imports Assistant_Stream
begin

text \<open>
  The compact stream is lossless: expanding the accumulator's durable records gives back the pushed chunks,
  and every reader of the records answers what a scan of the expanded chunks would.
\<close>

section \<open>Member times\<close>

lemma member_times_nonempty [simp]: "member_times t gs \<noteq> []"
  by (cases gs) auto

lemma member_times_snoc: "member_times t (gs @ [g]) = member_times t gs @ [last (member_times t gs) + g]"
  by (induction gs arbitrary: t) auto

lemma member_times_length [simp]: "length (member_times t gs) = Suc (length gs)"
  by (induction gs arbitrary: t) auto

lemma sums_safe_snoc: "sums_safe t (gs @ [g]) \<longleftrightarrow> sums_safe t gs \<and> safe_int (last (member_times t gs) + g)"
  by (induction gs arbitrary: t) auto

section \<open>The accumulator\<close>

text \<open>What holds of every record the accumulator keeps.\<close>

fun mut_ok :: "mutable_record \<Rightarrow> bool" where
  "mut_ok (Mut_Text k t0 i dt ts l) = (safe_int t0 \<and> safe_int i \<and> 0 \<le> i \<and> list_all safe_int dt \<and> sums_safe t0 dt
     \<and> length ts = Suc (length dt) \<and> l = last (member_times t0 dt))"
| "mut_ok (Mut_Tool t0 i dt c n as l) = (safe_int t0 \<and> safe_int i \<and> 0 \<le> i \<and> list_all safe_int dt \<and> sums_safe t0 dt
     \<and> length as = Suc (length dt) \<and> l = last (member_times t0 dt) \<and> c \<noteq> [] \<and> n \<noteq> Some [])"
| "mut_ok (Mut_Chunk t c) = (safe_int t \<and> lossless (chunk_json c) \<and> (\<forall>j. c \<noteq> Other_Chunk j))"

text \<open>A push that is accepted: a safe time, a lossless chunk of the vocabulary, a safe index on a delta.\<close>

definition safe_delta_index :: "stream_chunk \<Rightarrow> bool" where
  "safe_delta_index c = (case c of Text_Delta i s \<Rightarrow> safe_int i \<and> 0 \<le> i | Reasoning_Delta i s \<Rightarrow> safe_int i \<and> 0 \<le> i
     | Tool_Delta i k n d \<Rightarrow> safe_int i \<and> 0 \<le> i | Other_Chunk j \<Rightarrow> False | _ \<Rightarrow> True)"

definition storable :: "json \<times> stream_chunk \<Rightarrow> bool" where
  "storable x = (isSafeInteger (fst x) \<and> lossless (chunk_json (snd x)) \<and> safe_delta_index (snd x))"

abbreviation expansion :: "mutable_record list \<Rightarrow> (int \<times> stream_chunk) list" where
  "expansion rs \<equiv> concat (map (\<lambda>r. expand_record (durable r)) rs)"

abbreviation timed :: "json \<times> stream_chunk \<Rightarrow> int \<times> stream_chunk" where
  "timed x \<equiv> (num_value (fst x), snd x)"

lemma safe_num_value: "isSafeInteger v \<Longrightarrow> safe_int (num_value v)"
  by (cases v rule: isSafeInteger.cases) (auto simp: num_value_def safe_int_def MAX_SAFE_INTEGER_def)

lemma safe_jint [simp]: "isSafeInteger (jint i) = safe_int i" "num_value (jint i) = i"
  by (simp_all add: safe_int_def num_value_def)

lemma safe_bounds: "safe_int i \<Longrightarrow> \<bar>i\<bar> \<le> MAX_SAFE_INTEGER"
  by (simp add: safe_int_def)

lemma safeIndex_jint: "safeIndex (jint i) label = (if safe_int i \<and> 0 \<le> i then Inr i else Inl (Bad_Index label))"
  by (auto simp: safeIndex_def require_def simp del: isSafeInteger.simps)

lemma last_recordD: "last_record rs = Some r \<Longrightarrow> rs = butlast rs @ [r]"
  by (auto simp: last_record_def split: if_splits)

lemma safeGap_SomeD: "safeGap p t = Some g \<Longrightarrow> safe_int g \<and> p + g = t"
  by (auto simp: safeGap_def Let_def split: if_splits)

text \<open>Either push extends the last run or appends a fresh record.\<close>

lemma push_text_cases:
  obtains (fresh) "push_text k t i s rs = rs @ [Mut_Text k t i [] [s] t]"
  | (extend) front0 t0 dt ts l g where "rs = front0 @ [Mut_Text k t0 i dt ts l]" "safeGap l t = Some g"
      "push_text k t i s rs = front0 @ [Mut_Text k t0 i (dt @ [g]) (ts @ [s]) t]"
proof (cases "\<exists>t0 dt ts l g. last_record rs = Some (Mut_Text k t0 i dt ts l) \<and> safeGap l t = Some g")
  case True
  then obtain t0 dt ts l g where r: "last_record rs = Some (Mut_Text k t0 i dt ts l)" "safeGap l t = Some g" by blast
  show thesis
    by (rule extend [OF last_recordD [OF r(1)] r(2)]) (simp add: push_text_def r)
next
  case False
  then show thesis
    by (intro fresh) (auto simp: push_text_def Let_def split: option.splits mutable_record.splits if_splits)
qed

lemma push_tool_cases:
  obtains (fresh) "push_tool t i c n d rs = rs @ [Mut_Tool t i [] c n [d] t]"
  | (extend) front0 t0 dt as l g where "rs = front0 @ [Mut_Tool t0 i dt c n as l]" "safeGap l t = Some g"
      "push_tool t i c n d rs = front0 @ [Mut_Tool t0 i (dt @ [g]) c n (as @ [d]) t]"
proof (cases "\<exists>t0 dt as l g. last_record rs = Some (Mut_Tool t0 i dt c n as l) \<and> safeGap l t = Some g")
  case True
  then obtain t0 dt as l g where r: "last_record rs = Some (Mut_Tool t0 i dt c n as l)" "safeGap l t = Some g" by blast
  show thesis
    by (rule extend [OF last_recordD [OF r(1)] r(2)]) (simp add: push_tool_def r)
next
  case False
  then show thesis
    by (intro fresh) (auto simp: push_tool_def Let_def split: option.splits mutable_record.splits if_splits)
qed

lemma push_text_ok:
  assumes "list_all mut_ok rs" "safe_int t" "safe_int i" "0 \<le> i"
  shows "list_all mut_ok (push_text k t i s rs) \<and> expansion (push_text k t i s rs) = expansion rs @ [(t, text_delta k i s)]"
proof (cases rule: push_text_cases [of k t i s rs])
  case fresh
  then show ?thesis using assms by simp
next
  case (extend front0 t0 dt ts l g)
  note g = safeGap_SomeD [OF extend(2)]
  have m: "mut_ok (Mut_Text k t0 i dt ts l)" using assms(1) extend(1) by simp
  have "zip (member_times t0 (dt @ [g])) (map (text_delta k i) (ts @ [s]))
      = zip (member_times t0 dt) (map (text_delta k i) ts) @ [(t, text_delta k i s)]"
    using m g by (simp add: member_times_snoc)
  then show ?thesis
    using assms g m unfolding extend(3) unfolding extend(1) by (simp add: sums_safe_snoc member_times_snoc)
qed

lemma push_tool_ok:
  assumes "list_all mut_ok rs" "safe_int t" "safe_int i" "0 \<le> i" "c \<noteq> []" "n \<noteq> Some []"
  shows "list_all mut_ok (push_tool t i c n d rs) \<and> expansion (push_tool t i c n d rs) = expansion rs @ [(t, Tool_Delta i c n d)]"
proof (cases rule: push_tool_cases [of t i c n d rs])
  case fresh
  then show ?thesis using assms by simp
next
  case (extend front0 t0 dt as l g)
  note g = safeGap_SomeD [OF extend(2)]
  have m: "mut_ok (Mut_Tool t0 i dt c n as l)" using assms(1) extend(1) by simp
  have "zip (member_times t0 (dt @ [g])) (map (Tool_Delta i c n) (as @ [d]))
      = zip (member_times t0 dt) (map (Tool_Delta i c n) as) @ [(t, Tool_Delta i c n d)]"
    using m g by (simp add: member_times_snoc)
  then show ?thesis
    using assms g m unfolding extend(3) unfolding extend(1) by (simp add: sums_safe_snoc member_times_snoc)
qed

lemma stream_push_ok:
  assumes "list_all mut_ok rs" "stream_push rs x = Inr rs'"
  shows "list_all mut_ok rs' \<and> expansion rs' = expansion rs @ [timed x]"
proof -
  obtain v c where x: "x = (v, c)" by (cases x)
  have t: "safe_int (num_value v)" "lossless (chunk_json c)"
    using assms(2) safe_num_value by (auto simp: x stream_push_def safeTime_def snapshotChunk_def rbind_eq_Inr)
  note d = x stream_push_def safeTime_def snapshotChunk_def safeIndex_jint rbind_eq_Inr
  show ?thesis
  proof (cases c)
    case (Text_Delta i s)
    then show ?thesis using assms t push_text_ok [OF assms(1) t(1), of i Text_Kind s]
      by (auto simp: d text_delta_def split: if_splits)
  next
    case (Reasoning_Delta i s)
    then show ?thesis using assms t push_text_ok [OF assms(1) t(1), of i Reasoning_Kind s]
      by (auto simp: d text_delta_def split: if_splits)
  next
    case (Tool_Delta i k n d)
    then show ?thesis using assms t push_tool_ok [OF assms(1) t(1), of i k n d]
      by (auto simp: d split: if_splits)
  qed (use assms t in \<open>auto simp: d split: if_splits\<close>)
qed

lemma stream_push_accepts: "is_ok (stream_push rs x) = storable x"
  by (cases x; cases "snd x") (auto simp del: chunk_json.simps simp: stream_push_def safeTime_def snapshotChunk_def safeIndex_jint storable_def
      safe_delta_index_def require_def)

lemma accumulator_ok:
  "list_all mut_ok rs \<Longrightarrow> fold_res stream_push rs xs = Inr rs' \<Longrightarrow>
     list_all mut_ok rs' \<and> expansion rs' = expansion rs @ map timed xs"
proof (induction xs arbitrary: rs)
  case (Cons x xs)
  then obtain r1 where r1: "stream_push rs x = Inr r1" "fold_res stream_push r1 xs = Inr rs'"
    by (auto split: sum.splits)
  from stream_push_ok [OF Cons.prems(1) r1(1)] Cons.IH [OF _ r1(2)] show ?case by simp
qed simp

lemma accumulator_accepts: "is_ok (fold_res stream_push rs xs) = list_all storable xs"
proof (induction xs arbitrary: rs)
  case (Cons x xs)
  show ?case
  proof (cases "stream_push rs x")
    case (Inl e)
    then show ?thesis using stream_push_accepts [of rs x] by simp
  next
    case (Inr r)
    then show ?thesis using stream_push_accepts [of rs x] Cons.IH [of r] by simp
  qed
qed simp

section \<open>Reading records back\<close>

lemma strings_of_map [simp]: "strings_of (map JStr xs) = Some xs"
  by (induction xs) auto

lemma validateRun_json:
  assumes "jget v ''time0'' = Some (jint t0)" "jget v ''index'' = Some (jint i)" "jget v ''dt'' = Some (JArr (map jint dt))"
    "safe_int t0" "safe_int i" "0 \<le> i" "list_all safe_int dt" "sums_safe t0 dt" "n = Suc (length dt)"
  shows "validateRun v n label = Inr (t0, i, dt)"
proof -
  have "map num_value (map jint dt) = dt" by (induction dt) (simp_all add: num_value_def)
  moreover have "list_all isSafeInteger (map jint dt)"
    using assms(7) by (auto simp: list_all_iff simp del: isSafeInteger.simps)
  ultimately show ?thesis
    using assms by (simp add: validateRun_def own_def safeTime_def safeIndex_jint require_def del: isSafeInteger.simps)
qed

lemma replay_of_json_back [simp]: "replay_of_json (replay_json e) = Some e"
  by (cases "re_blocks e") (simp_all add: replay_of_json_def replay_json_def has_keys_def hasOwn_def)

lemma chunk_of_json_back: "(\<forall>j. c \<noteq> Other_Chunk j) \<Longrightarrow> chunk_of_json (chunk_json c) = c"
  by (cases c) (auto simp: chunk_of_json_def json_string_def has_keys_def hasOwn_def split: option.splits)

lemma isRecord_chunk_json: "(\<forall>j. c \<noteq> Other_Chunk j) \<Longrightarrow> isRecord (chunk_json c)"
  by (cases c) auto

lemma validateRecord_durable:
  assumes "mut_ok m"
  shows "validateRecord (record_json (durable m)) = Inr (durable m)"
proof (cases m)
  case (Mut_Text k t0 i dt ts l)
  let ?v = "record_json (durable m)"
  have ts: "ts \<noteq> []" using assms Mut_Text by auto
  have "validateRun ?v (length ts) (text_kind_name k) = Inr (t0, i, dt)"
    using assms Mut_Text by (intro validateRun_json) auto
  then show ?thesis using Mut_Text ts
    by (cases k) (auto simp: validateRecord_def validate_text_def exactKeys_def has_keys_def hasOwn_def stringArray_def require_def text_kind_name_def)
next
  case (Mut_Tool t0 i dt c n as l)
  let ?v = "record_json (durable m)"
  have as: "as \<noteq> []" using assms Mut_Tool by auto
  have "validateRun ?v (length as) ''tool-call-chunks'' = Inr (t0, i, dt)"
    using assms Mut_Tool by (intro validateRun_json) auto
  then show ?thesis using Mut_Tool as assms
    by (cases n) (auto simp: validateRecord_def validate_tool_def exactKeys_def has_keys_def hasOwn_def stringArray_def
        require_def tool_id_of_def tool_name_of_def)
next
  case (Mut_Chunk t c)
  then show ?thesis
    using assms chunk_of_json_back [of c] isRecord_chunk_json [of c]
    by (simp add: validateRecord_def validate_raw_def exactKeys_def has_keys_def hasOwn_def own_def safeTime_def require_def Let_def
        del: isSafeInteger.simps)
qed

lemma expand_validated:
  "list_all (\<lambda>(v, r). validateRecord v = Inr r) (zip vs rs) \<Longrightarrow> length vs = length rs \<Longrightarrow>
     fold_res (\<lambda>out v. rbind (validateRecord v) (\<lambda>r. Inr (out @ expand_record r))) out vs = Inr (out @ concat (map expand_record rs))"
proof (induction vs arbitrary: rs out)
  case (Cons v vs)
  then show ?case by (cases rs) auto
qed simp

lemma expand_snapshot:
  assumes "list_all mut_ok rs"
  shows "expandAssistantStream (map record_json (stream_snapshot rs)) = Inr (expansion rs)"
proof -
  have "list_all (\<lambda>(v, r). validateRecord v = Inr r) (zip (map record_json (stream_snapshot rs)) (stream_snapshot rs))"
    using assms by (induction rs) (auto simp: stream_snapshot_def validateRecord_durable)
  then show ?thesis
    using expand_validated [of "map record_json (stream_snapshot rs)" "stream_snapshot rs" "[]"]
    by (simp add: expandAssistantStream_def stream_snapshot_def comp_def)
qed

text \<open>
  Claim C30. The compact stream is lossless: the accumulator takes exactly the chunks whose time is a safe
  integer, whose content is lossless JSON of the chunk vocabulary and whose delta index is a safe
  non-negative integer; and validating and expanding the durable form of what it kept gives back every
  pushed chunk with its time, in order.
\<close>

theorem stream_lossless:
  "case fold_res stream_push [] xs of
     Inl e \<Rightarrow> \<not> list_all storable xs
   | Inr rs \<Rightarrow> list_all storable xs \<and> expandAssistantStream (map record_json (stream_snapshot rs)) = Inr (map timed xs)"
proof (cases "fold_res stream_push [] xs")
  case (Inl e)
  then show ?thesis using accumulator_accepts [of "[]" xs] by simp
next
  case (Inr rs)
  then show ?thesis using accumulator_accepts [of "[]" xs] accumulator_ok [of "[]" xs rs] expand_snapshot [of rs] by simp
qed

section \<open>Readers\<close>

text \<open>What validation checks of a record, and what the readers rely on.\<close>

fun record_ok :: "stream_record \<Rightarrow> bool" where
  "record_ok (Rec_Text k t0 i dt ts) = (length ts = Suc (length dt))"
| "record_ok (Rec_Tool t0 i dt c n as) = (length as = Suc (length dt) \<and> c \<noteq> [] \<and> n \<noteq> Some [])"
| "record_ok (Rec_Chunk t c) = True"

lemma validateRun_length:
  assumes "validateRun v n label = Inr (t0, i, dt)"
  shows "length dt = n - 1"
proof -
  obtain gs where gs: "jget v ''dt'' = Some (JArr gs)"
    using assms unfolding validateRun_def rbind_eq_Inr by (cases "jget v ''dt''"; cases "the (jget v ''dt'')") auto
  then have "dt = map num_value gs" "length gs = n - 1"
    using assms by (auto simp: validateRun_def rbind_eq_Inr)
  then show ?thesis by simp
qed

lemma validate_run_ok:
  "validate_text k v = Inr r \<Longrightarrow> record_ok r" "validate_tool v = Inr r \<Longrightarrow> record_ok r" "validate_raw v = Inr r \<Longrightarrow> record_ok r"
proof -
  show "record_ok r" if run: "validate_text k v = Inr r"
  proof -
    obtain ts t0 i dt where "ts \<noteq> []" "validateRun v (length ts) (text_kind_name k) = Inr (t0, i, dt)" "r = Rec_Text k t0 i dt ts"
      using run unfolding validate_text_def rbind_eq_Inr Let_def by auto
    then show ?thesis using validateRun_length by simp
  qed
  show "validate_raw v = Inr r \<Longrightarrow> record_ok r"
    by (auto simp: validate_raw_def rbind_eq_Inr Let_def)
  assume tool: "validate_tool v = Inr r"
  obtain args c n t0 i dt where a: "args \<noteq> []" "tool_id_of v = Inr c"
      "tool_name_of v = Inr n" "validateRun v (length args) ''tool-call-chunks'' = Inr (t0, i, dt)" "r = Rec_Tool t0 i dt c n args"
    using tool unfolding validate_tool_def rbind_eq_Inr Let_def by auto
  have "c \<noteq> []" using a(2) by (auto simp: tool_id_of_def split: option.splits json.splits if_splits)
  moreover have "n \<noteq> Some []" using a(3) by (auto simp: tool_name_of_def split: option.splits json.splits if_splits)
  ultimately show "record_ok r" using a(1,5) validateRun_length [OF a(4)] by simp
qed

lemma validateRecord_ok: "validateRecord v = Inr r \<Longrightarrow> record_ok r"
  by (auto simp: validateRecord_def Let_def split: if_splits intro: validate_run_ok)

lemma first_some_append: "first_some f (xs @ ys) = (case first_some f xs of Some y \<Rightarrow> Some y | None \<Rightarrow> first_some f ys)"
  by (induction xs) (auto split: option.splits)

text \<open>A reader of records that agrees with a scan on each record agrees with it on the whole stream.\<close>

lemma first_some_expand:
  assumes "list_all record_ok rs" "\<And>r. record_ok r \<Longrightarrow> f r = first_some g (expand_record r)"
  shows "first_some f rs = first_some g (concat (map expand_record rs))"
  using assms by (induction rs) (auto simp: first_some_append split: option.splits)

lemma list_ex_expand:
  assumes "list_all record_ok rs" "\<And>r. record_ok r \<Longrightarrow> f r = list_ex g (expand_record r)"
  shows "list_ex f rs = list_ex g (concat (map expand_record rs))"
  using assms by (induction rs) auto

definition at_time :: "(stream_chunk \<Rightarrow> bool) \<Rightarrow> int \<times> stream_chunk \<Rightarrow> int option" where
  "at_time P x = (if P (snd x) then Some (fst x) else None)"

lemma firstRunMemberTime_scan:
  "length fs = Suc (length dt) \<Longrightarrow> (\<And>f. Q (mk f) = P f) \<Longrightarrow>
     firstRunMemberTime t dt fs P = first_some (at_time Q) (zip (member_times t dt) (map mk fs))"
proof (induction fs arbitrary: t dt)
  case (Cons f fs)
  show ?case
  proof (cases dt)
    case Nil
    then show ?thesis using Cons.prems by (simp add: at_time_def)
  next
    case (Cons g gs)
    then show ?thesis using Cons.IH [of gs "t + g"] Cons.prems by (simp add: at_time_def)
  qed
qed simp

lemma always_first: "(\<And>f. Q (mk f)) \<Longrightarrow> fs \<noteq> [] \<Longrightarrow> first_some (at_time Q) (zip (member_times t dt) (map mk fs)) = Some t"
  by (cases dt; cases fs) (auto simp: at_time_def)

lemma token_time_scan: "record_ok r \<Longrightarrow> runFirstTokenTime r = first_some (at_time isTokenDelta) (expand_record r)"
proof (cases r)
  case (Rec_Text k t0 i dt ts)
  assume "record_ok r"
  then show ?thesis using Rec_Text
    by (cases k) (auto simp: text_delta_def intro!: firstRunMemberTime_scan)
next
  case (Rec_Tool t0 i dt c n as)
  assume "record_ok r"
  then have l: "length as = Suc (length dt)" using Rec_Tool by simp
  show ?thesis
  proof (cases n)
    case None
    then show ?thesis using Rec_Tool l by (auto intro!: firstRunMemberTime_scan)
  next
    case (Some x)
    have "first_some (at_time isTokenDelta) (zip (member_times t0 dt) (map (Tool_Delta i c n) as)) = Some t0"
      using l Some by (intro always_first) auto
    then show ?thesis using Rec_Tool Some by simp
  qed
qed (simp add: at_time_def)

lemma never_found: "(\<And>f. \<not> Q (mk f)) \<Longrightarrow> first_some (at_time Q) (zip ts (map mk fs)) = None"
  by (induction ts fs rule: list_induct2') (auto simp: at_time_def)

lemma visible_time_scan: "record_ok r \<Longrightarrow> runFirstVisibleTime r = first_some (at_time isVisibleChunk) (expand_record r)"
proof (cases r)
  case (Rec_Text k t0 i dt ts)
  assume "record_ok r"
  then show ?thesis using Rec_Text
    by (cases k) (auto simp: text_delta_def intro!: firstRunMemberTime_scan)
qed (auto simp: never_found at_time_def)

lemma first_some_ex: "(first_some (at_time P) xs \<noteq> None) = list_ex (\<lambda>x. P (snd x)) xs"
  by (induction xs) (auto simp: at_time_def)

lemma list_ex_zip: "length ts = length fs \<Longrightarrow> list_ex (\<lambda>x. P (snd x)) (zip ts (map mk fs)) = list_ex (\<lambda>f. P (mk f)) fs"
  by (induction ts fs rule: list_induct2) auto

lemma list_ex_never [simp]: "\<not> list_ex (\<lambda>f. False) fs"
  by (induction fs) auto

lemma has_text_scan: "record_ok r \<Longrightarrow> record_has_text r = list_ex (\<lambda>x. chunkHasVisibleText (snd x)) (expand_record r)"
proof (cases r)
  case (Rec_Text k t0 i dt ts)
  assume "record_ok r"
  then have "length (member_times t0 dt) = length ts" using Rec_Text by simp
  then show ?thesis using Rec_Text by (cases k) (simp_all add: list_ex_zip text_delta_def)
next
  case (Rec_Tool t0 i dt c n as)
  assume "record_ok r"
  then have "length (member_times t0 dt) = length as" using Rec_Tool by simp
  then show ?thesis using Rec_Tool by (simp add: list_ex_zip)
qed simp

definition delta_text :: "stream_chunk \<Rightarrow> string" where
  "delta_text c = (case c of Text_Delta i s \<Rightarrow> s | _ \<Rightarrow> [])"

lemma concat_zip: "length ts = length fs \<Longrightarrow> concat (map (\<lambda>x. h (snd x)) (zip ts (map mk fs))) = concat (map (\<lambda>f. h (mk f)) fs)"
  by (induction ts fs rule: list_induct2) auto

lemma text_scan: "record_ok r \<Longrightarrow> record_text r = concat (map (\<lambda>x. delta_text (snd x)) (expand_record r))"
proof (cases r)
  case (Rec_Text k t0 i dt ts)
  assume "record_ok r"
  then have "length (member_times t0 dt) = length ts" using Rec_Text by simp
  then show ?thesis using Rec_Text by (cases k) (simp_all add: concat_zip text_delta_def delta_text_def)
next
  case (Rec_Tool t0 i dt c n as)
  assume "record_ok r"
  then have "length (member_times t0 dt) = length as" using Rec_Tool by simp
  then show ?thesis using Rec_Tool by (simp add: concat_zip delta_text_def)
qed (simp add: delta_text_def)

lemma join_scan: "list_all record_ok rs \<Longrightarrow> joinAssistantStreamText rs = concat (map (\<lambda>x. delta_text (snd x)) (concat (map expand_record rs)))"
  by (induction rs) (auto simp: joinAssistantStreamText_def text_scan)

definition of_type :: "raw_type \<Rightarrow> int \<times> stream_chunk \<Rightarrow> stream_chunk option" where
  "of_type ty x = (if chunk_raw_type (snd x) = Some ty then Some (snd x) else None)"

lemma of_type_delta [simp]: "of_type ty (t, text_delta k i s) = None" "of_type ty (t, Tool_Delta i c n d) = None"
  by (cases k) (simp_all add: of_type_def text_delta_def)

lemma map_filter_none: "(\<And>t f. g (t, mk f) = None) \<Longrightarrow> List.map_filter g (zip ts (map mk fs)) = []"
  by (induction ts fs rule: list_induct2') (auto simp: List.map_filter_simps)

lemma raw_scan: "List.map_filter (of_type ty) (expand_record r) = (case raw_chunk_of ty r of None \<Rightarrow> [] | Some c \<Rightarrow> [c])"
  by (cases r) (auto simp: map_filter_none [of "of_type ty"] List.map_filter_simps of_type_def [of ty "(_, _)"])

lemma raw_chunks_scan: "assistantStreamChunks rs ty = List.map_filter (of_type ty) (concat (map expand_record rs))"
  by (induction rs) (auto simp: assistantStreamChunks_def List.map_filter_simps map_filter_append raw_scan split: option.splits)

lemma first_some_rev: "first_some f (rev xs) = (if List.map_filter f xs = [] then None else Some (last (List.map_filter f xs)))"
  by (induction xs) (auto simp: first_some_append List.map_filter_simps split: option.splits)

lemma last_chunk_scan: "lastAssistantStreamChunk rs ty =
    (let cs = assistantStreamChunks rs ty in if cs = [] then None else Some (last cs))"
  by (simp add: lastAssistantStreamChunk_def assistantStreamChunks_def first_some_rev)

lemma fold_res_extends:
  "fold_res (\<lambda>out x. rbind (f x) (\<lambda>y. Inr (out @ [y]))) out xs = Inr ys \<Longrightarrow> \<exists>zs. ys = out @ zs"
proof (induction xs arbitrary: out)
  case (Cons x xs)
  then obtain y where y: "fold_res (\<lambda>out x. rbind (f x) (\<lambda>y. Inr (out @ [y]))) (out @ [y]) xs = Inr ys"
    by (cases "f x") auto
  from Cons.IH [OF y] show ?case by auto
qed simp

lemma validated_records:
  "map_res validateRecord vs = Inr rs \<Longrightarrow> list_all record_ok rs \<and> expandAssistantStream vs = Inr (concat (map expand_record rs))"
proof -
  have *: "fold_res (\<lambda>out x. rbind (validateRecord x) (\<lambda>y. Inr (out @ [y]))) out vs = Inr (out @ qs) \<Longrightarrow>
      length vs = length qs \<and> list_all (\<lambda>(v, r). validateRecord v = Inr r) (zip vs qs)" for out qs vs
  proof (induction vs arbitrary: out qs)
    case (Cons v vs)
    then obtain r where r: "validateRecord v = Inr r"
      "fold_res (\<lambda>out x. rbind (validateRecord x) (\<lambda>y. Inr (out @ [y]))) (out @ [r]) vs = Inr (out @ qs)"
      by (cases "validateRecord v") auto
    have "\<exists>zs. out @ qs = (out @ [r]) @ zs"
      using r(2) by (rule fold_res_extends)
    then obtain zs where zs: "qs = r # zs" by auto
    then show ?case using Cons.IH [of "out @ [r]" zs] r by simp
  qed simp
  assume a: "map_res validateRecord vs = Inr rs"
  then have z: "length vs = length rs" "list_all (\<lambda>(v, r). validateRecord v = Inr r) (zip vs rs)"
    using * [of "[]" vs rs] by (auto simp: map_res_def)
  have "list_all record_ok rs"
    using z by (induction vs rs rule: list_induct2) (auto intro: validateRecord_ok)
  then show ?thesis using expand_validated [OF z(2,1), of "[]"] by (simp add: expandAssistantStream_def)
qed

end
