(* ===== verification/Stream_Assembly.thy ===== *)
theory Stream_Assembly
  imports Stream_Laws
begin

text \<open>
  Assembly: feeding an assembler from the compact records equals feeding it every chunk, and the blocks it
  ends with are those a direct reading of the chunk list gives.
\<close>

section \<open>Records and chunks assemble alike\<close>

lemma amap_set_twice [simp]: "amap_set (amap_set m k v) k w = amap_set m k w"
  by (induction m k v rule: amap_set.induct) auto

lemma amap_set_same [simp]: "amap_get m k = Some v \<Longrightarrow> amap_set m k v = m"
  by (induction m k v rule: amap_set.induct) (auto simp: amap_get_def)

lemma ensure_again [simp]: "ensure i t (ensure i u a) = ensure i u a"
  by (auto simp: ensure_def split: option.splits)

lemma ensure_on_open [simp]: "ensure i t (on_open i f (ensure i u a)) = on_open i f (ensure i u a)"
  by (auto simp: ensure_def on_open_def split: option.splits)

lemma on_open_twice:
  assumes "\<And>p. pb_block (f p) = pb_block p"
  shows "on_open i g (on_open i f a) = on_open i (g \<circ> f) a"
  using assms by (auto simp: on_open_def split: option.splits)

text \<open>Two deltas of one run push as one with their fragments joined.\<close>

lemma push_text_twice:
  "rbind (assembler_push (text_delta k i s) a) (assembler_push (text_delta k i t)) = assembler_push (text_delta k i (s @ t)) a"
  by (cases k) (simp_all add: text_delta_def on_open_twice comp_def)

lemma push_tool_twice:
  "rbind (assembler_push (Tool_Delta i c n s) a) (assembler_push (Tool_Delta i c n t)) = assembler_push (Tool_Delta i c n (s @ t)) a"
  by (cases n; cases "n = Some []") (simp_all add: on_open_twice comp_def)

lemma push_all_simps [simp]:
  "push_all [] a = Inr a" "push_all (c # cs) a = rbind (assembler_push c a) (push_all cs)"
  by (simp_all add: push_all_def rbind_def split: sum.splits)

lemma push_all_append: "push_all (cs @ ds) a = rbind (push_all cs a) (push_all ds)"
  by (induction cs arbitrary: a) (auto simp: rbind_def split: sum.splits)

lemma push_run:
  assumes "\<And>s t a. rbind (assembler_push (mk s) a) (assembler_push (mk t)) = assembler_push (mk (s @ t)) a"
  shows "fs \<noteq> [] \<Longrightarrow> push_all (map mk fs) a = assembler_push (mk (concat fs)) a"
proof (induction fs rule: rev_induct)
  case (snoc f fs)
  show ?case
  proof (cases "fs = []")
    case True
    then show ?thesis by (simp add: rbind_def split: sum.splits)
  next
    case False
    have "push_all (map mk (fs @ [f])) a = rbind (assembler_push (mk (concat fs)) a) (push_all [mk f])"
      using snoc.IH [OF False] by (simp add: push_all_append del: push_all_simps)
    also have "\<dots> = rbind (assembler_push (mk (concat fs)) a) (assembler_push (mk f))"
      by (simp add: rbind_def split: sum.splits)
    finally show ?thesis using assms by simp
  qed
qed simp

lemma map_snd_zip_times: "length ts = length fs \<Longrightarrow> map snd (zip ts fs) = fs"
  by simp

lemma push_record: "record_ok r \<Longrightarrow> push_all (map snd (expand_record r)) a = assembler_push (merged_chunk r) a"
proof (cases r)
  case (Rec_Text k t0 i dt ts)
  assume "record_ok r"
  then have "ts \<noteq> []" "length (member_times t0 dt) = length ts" using Rec_Text by auto
  then show ?thesis using Rec_Text push_run [of "text_delta k i" ts, OF push_text_twice] by simp
next
  case (Rec_Tool t0 i dt c n as)
  assume "record_ok r"
  then have "as \<noteq> []" "length (member_times t0 dt) = length as" using Rec_Tool by auto
  then show ?thesis using Rec_Tool push_run [of "Tool_Delta i c n" as, OF push_tool_twice] by simp
qed (simp add: rbind_def split: sum.splits)

lemma assemble_records: "list_all record_ok rs \<Longrightarrow> assembleAssistantStream rs a = push_all (map snd (concat (map expand_record rs))) a"
proof (induction rs arbitrary: a)
  case (Cons r rs)
  then show ?case using push_record [of r]
    by (auto simp: assembleAssistantStream_def push_all_append rbind_def split: sum.splits)
qed (simp add: assembleAssistantStream_def)

text \<open>
  Claim C31. Reading a stored stream from its records is reading its chunks: once every record of the durable
  stream validates, the first-token time, the visibility tests, the joined text, the raw chunks of a type
  and the last of them, and the assembler fed from the records, all equal what the expanded chunk sequence
  gives.
\<close>

theorem stream_readers_agree:
  assumes "map_res validateRecord stream = Inr records"
  shows "\<exists>chunks. expandAssistantStream stream = Inr chunks
    \<and> assistantStreamFirstTokenTime records = first_some (at_time isTokenDelta) chunks
    \<and> assistantStreamHasVisibleContent records = list_ex (\<lambda>x. isVisibleChunk (snd x)) chunks
    \<and> assistantStreamHasVisibleText records = list_ex (\<lambda>x. chunkHasVisibleText (snd x)) chunks
    \<and> joinAssistantStreamText records = concat (map (\<lambda>x. delta_text (snd x)) chunks)
    \<and> assistantStreamChunks records ty = List.map_filter (of_type ty) chunks
    \<and> lastAssistantStreamChunk records ty = first_some (of_type ty) (rev chunks)
    \<and> assembleAssistantStream records a = push_all (map snd chunks) a"
proof -
  let ?chunks = "concat (map expand_record records)"
  have ok: "list_all record_ok records" "expandAssistantStream stream = Inr ?chunks"
    using validated_records [OF assms] by auto
  have visible: "list_ex (\<lambda>r. runFirstVisibleTime r \<noteq> None) records = list_ex (\<lambda>x. isVisibleChunk (snd x)) ?chunks"
    by (rule list_ex_expand [OF ok(1)]) (simp only: visible_time_scan first_some_ex)
  have shown: "list_ex record_has_text records = list_ex (\<lambda>x. chunkHasVisibleText (snd x)) ?chunks"
    by (rule list_ex_expand [OF ok(1) has_text_scan])
  have last_chunk: "lastAssistantStreamChunk records ty = first_some (of_type ty) (rev ?chunks)"
    by (simp add: last_chunk_scan raw_chunks_scan first_some_rev Let_def)
  show ?thesis
    using ok(2) visible shown last_chunk first_some_expand [OF ok(1) token_time_scan] join_scan [OF ok(1)] raw_chunks_scan [of records ty]
      assemble_records [OF ok(1), of a]
    by (simp add: assistantStreamFirstTokenTime_def assistantStreamHasVisibleContent_def assistantStreamHasVisibleText_def)
qed

definition sample_stream :: "json list" where
  "sample_stream = map record_json [Rec_Chunk 1 (Block_Start 0 ''text''), Rec_Text Text_Kind 2 0 [3, 0] [[], ''Hi'', '' there''],
     Rec_Tool 9 1 [] ''c1'' (Some ''read'') [''{}''], Rec_Chunk 10 (Finish_Chunk (JObj [(''kind'', JStr ''tool-calls'')]) None)]"

lemma stream_readers_agree_witness:
  "case map_res validateRecord sample_stream of Inl e \<Rightarrow> False
   | Inr records \<Rightarrow> (\<exists>chunks. expandAssistantStream sample_stream = Inr chunks
       \<and> assistantStreamFirstTokenTime records = first_some (at_time isTokenDelta) chunks
       \<and> assembleAssistantStream records new_assembler = push_all (map snd chunks) new_assembler)"
proof -
  have "case map_res validateRecord sample_stream of Inl e \<Rightarrow> False | Inr records \<Rightarrow> True" by code_simp
  then obtain records where r: "map_res validateRecord sample_stream = Inr records" by (auto split: sum.splits)
  show ?thesis using stream_readers_agree [OF r, of Raw_Finish new_assembler] r by auto
qed

section \<open>The blocks of a chunk list\<close>

fun chunk_index :: "stream_chunk \<Rightarrow> int option" where
  "chunk_index (Block_Start i t) = Some i"
| "chunk_index (Text_Delta i s) = Some i"
| "chunk_index (Reasoning_Delta i s) = Some i"
| "chunk_index (Tool_Delta i c n d) = Some i"
| "chunk_index (Block_End i b) = Some i"
| "chunk_index _ = None"

fun chunk_tag :: "stream_chunk \<Rightarrow> string" where
  "chunk_tag (Block_Start i t) = t"
| "chunk_tag (Text_Delta i s) = ''text''"
| "chunk_tag (Reasoning_Delta i s) = ''reasoning''"
| "chunk_tag (Tool_Delta i c n d) = ''tool-call''"
| "chunk_tag (Block_End i b) = block_tag b"
| "chunk_tag _ = []"

definition prose_of :: "stream_chunk \<Rightarrow> string" where
  "prose_of c = (case c of Text_Delta i s \<Rightarrow> s | Reasoning_Delta i s \<Rightarrow> s | _ \<Rightarrow> [])"

definition arguments_of :: "stream_chunk \<Rightarrow> string" where
  "arguments_of c = (case c of Tool_Delta i k n d \<Rightarrow> d | _ \<Rightarrow> [])"

definition call_id_of :: "stream_chunk \<Rightarrow> string option" where
  "call_id_of c = (case c of Tool_Delta i k n d \<Rightarrow> Some k | _ \<Rightarrow> None)"

definition call_name_of :: "stream_chunk \<Rightarrow> string option" where
  "call_name_of c = (case c of Tool_Delta i k n d \<Rightarrow> if n = Some [] then None else n | _ \<Rightarrow> None)"

definition closing_block :: "stream_chunk \<Rightarrow> json option" where
  "closing_block c = (case c of Block_End i b \<Rightarrow> Some b | _ \<Rightarrow> None)"

definition usage_of :: "stream_chunk \<Rightarrow> json option" where
  "usage_of c = (case c of Usage_Chunk u \<Rightarrow> Some u | _ \<Rightarrow> None)"

definition reason_of :: "stream_chunk \<Rightarrow> json option" where
  "reason_of c = (case c of Finish_Chunk r e \<Rightarrow> Some r | _ \<Rightarrow> None)"

definition declared :: "stream_chunk \<Rightarrow> bool" where
  "declared c = (case c of Other_Chunk j \<Rightarrow> False | _ \<Rightarrow> True)"

text \<open>The chunks of one block, the partial they leave while open, and the block they make.\<close>

definition own_chunks :: "int \<Rightarrow> stream_chunk list \<Rightarrow> stream_chunk list" where
  "own_chunks i cs = filter (\<lambda>c. chunk_index c = Some i) cs"

definition open_partial :: "stream_chunk list \<Rightarrow> partial_block" where
  "open_partial cs = \<lparr>pb_type = chunk_tag (hd cs), pb_text = concat (map prose_of cs), pb_call_id = first_some call_id_of (rev cs),
     pb_call_name = first_some call_name_of (rev cs), pb_arguments = concat (map arguments_of cs), pb_block = None\<rparr>"

definition block_spec :: "stream_chunk list \<Rightarrow> int \<Rightarrow> (stream_error, json) res" where
  "block_spec cs i = (case first_some closing_block (own_chunks i cs) of Some b \<Rightarrow> Inr b
     | None \<Rightarrow> assemble (open_partial (own_chunks i cs)) i)"

definition seen_next :: "int list \<Rightarrow> stream_chunk \<Rightarrow> int list" where
  "seen_next seen c = (case chunk_index c of None \<Rightarrow> seen | Some i \<Rightarrow> if i \<in> set seen then seen else seen @ [i])"

definition first_seen :: "stream_chunk list \<Rightarrow> int list" where
  "first_seen cs = foldl seen_next [] cs"

lemma own_chunks_snoc: "own_chunks i (cs @ [c]) = own_chunks i cs @ (if chunk_index c = Some i then [c] else [])"
  by (simp add: own_chunks_def)

lemma first_seen_snoc [simp]: "first_seen (cs @ [c]) = seen_next (first_seen cs) c" "first_seen [] = []"
  by (simp_all add: first_seen_def)

lemma first_seen_iff: "i \<in> set (first_seen cs) \<longleftrightarrow> own_chunks i cs \<noteq> []"
  by (induction cs rule: rev_induct) (auto simp: seen_next_def own_chunks_def split: option.splits if_splits)

text \<open>What a partial is after the chunks of its block.\<close>

definition partial_after :: "stream_chunk list \<Rightarrow> partial_block option \<Rightarrow> bool" where
  "partial_after cs p = (if cs = [] then p = None
     else (case first_some closing_block cs of Some b \<Rightarrow> (\<exists>q. p = Some q \<and> pb_block q = Some b)
       | None \<Rightarrow> p = Some (open_partial cs)))"

definition assembler_after :: "stream_chunk list \<Rightarrow> assembler \<Rightarrow> bool" where
  "assembler_after cs a \<longleftrightarrow> (\<forall>i. partial_after (own_chunks i cs) (amap_get (as_partials a) i)) \<and> as_order a = first_seen cs
     \<and> as_usage a = first_some usage_of (rev cs) \<and> as_finish a = first_some reason_of (rev cs)"

lemma partial_known: "partial_after cs p \<Longrightarrow> p = None \<longleftrightarrow> cs = []"
  by (auto simp: partial_after_def split: option.splits if_splits)

text \<open>One chunk of a block, on its partial.\<close>

fun on_partial :: "stream_chunk \<Rightarrow> partial_block \<Rightarrow> partial_block" where
  "on_partial (Text_Delta i s) p = p\<lparr>pb_text := pb_text p @ s\<rparr>"
| "on_partial (Reasoning_Delta i s) p = p\<lparr>pb_text := pb_text p @ s\<rparr>"
| "on_partial (Tool_Delta i c n d) p = p\<lparr>pb_call_id := Some c,
     pb_call_name := (if n = None \<or> n = Some [] then pb_call_name p else n), pb_arguments := pb_arguments p @ d\<rparr>"
| "on_partial (Block_End i b) p = p\<lparr>pb_block := Some b\<rparr>"
| "on_partial _ p = p"

definition step_partial :: "stream_chunk \<Rightarrow> partial_block option \<Rightarrow> partial_block option" where
  "step_partial c p = (let q = (case p of None \<Rightarrow> new_partial (chunk_tag c) | Some q \<Rightarrow> q)
     in Some (if pb_block q \<noteq> None then q else on_partial c q))"

lemma push_block_chunk:
  assumes "chunk_index c = Some i"
  shows "\<exists>b. assembler_push c a = Inr b \<and> as_order b = (if amap_get (as_partials a) i = None then as_order a @ [i] else as_order a)
    \<and> as_usage b = as_usage a \<and> as_finish b = as_finish a
    \<and> (\<forall>j. amap_get (as_partials b) j = (if j = i then step_partial c (amap_get (as_partials a) i) else amap_get (as_partials a) j))"
  using assms
  by (cases c) (auto simp: ensure_def on_open_def step_partial_def new_partial_def Let_def split: option.splits)

lemma step_partial_after:
  assumes "partial_after cs p" "chunk_index c = Some i"
  shows "partial_after (cs @ [c]) (step_partial c p)"
proof (cases "cs = []")
  case True
  then show ?thesis using assms
    by (cases c) (auto simp: partial_after_def step_partial_def open_partial_def new_partial_def closing_block_def
        prose_of_def arguments_of_def call_id_of_def call_name_of_def Let_def)
next
  case False
  show ?thesis
  proof (cases "first_some closing_block cs")
    case (Some b)
    then obtain q where "p = Some q" "pb_block q = Some b" using assms(1) False by (auto simp: partial_after_def)
    then show ?thesis using Some by (simp add: partial_after_def first_some_append step_partial_def)
  next
    case None
    then have "p = Some (open_partial cs)" using assms(1) False by (auto simp: partial_after_def)
    then show ?thesis using None False assms(2)
      by (cases c) (auto simp: partial_after_def first_some_append step_partial_def open_partial_def closing_block_def
          prose_of_def arguments_of_def call_id_of_def call_name_of_def)
  qed
qed

lemma push_after:
  assumes "assembler_after cs a" "declared c"
  shows "\<exists>b. assembler_push c a = Inr b \<and> assembler_after (cs @ [c]) b"
proof (cases "chunk_index c")
  case None
  have own: "own_chunks i (cs @ [c]) = own_chunks i cs" for i using None by (simp add: own_chunks_snoc)
  have "first_seen (cs @ [c]) = first_seen cs" using None by (simp add: seen_next_def)
  then show ?thesis using None assms own
    by (cases c) (auto simp: assembler_after_def declared_def usage_of_def reason_of_def)
next
  case (Some i)
  obtain b where b: "assembler_push c a = Inr b" "as_order b = (if amap_get (as_partials a) i = None then as_order a @ [i] else as_order a)"
    "as_usage b = as_usage a" "as_finish b = as_finish a"
    "\<And>j. amap_get (as_partials b) j = (if j = i then step_partial c (amap_get (as_partials a) i) else amap_get (as_partials a) j)"
    using push_block_chunk [OF Some, of a] by blast
  have p: "partial_after (own_chunks j cs) (amap_get (as_partials a) j)" for j using assms(1) by (simp add: assembler_after_def)
  have "partial_after (own_chunks j (cs @ [c])) (amap_get (as_partials b) j)" for j
    using p [of j] step_partial_after [OF p [of i] Some] Some by (simp add: own_chunks_snoc b(5))
  moreover have "as_order b = first_seen (cs @ [c])"
    using assms(1) partial_known [OF p [of i]] Some by (simp add: b(2) assembler_after_def seen_next_def first_seen_iff)
  moreover have "usage_of c = None" "reason_of c = None" using Some by (cases c; simp add: usage_of_def reason_of_def)+
  ultimately show ?thesis using assms(1) b(1,3,4) by (simp add: assembler_after_def)
qed

lemma push_all_after:
  "list_all declared cs \<Longrightarrow> \<exists>a. push_all cs new_assembler = Inr a \<and> assembler_after cs a"
proof (induction cs rule: rev_induct)
  case Nil
  show ?case by (simp add: assembler_after_def new_assembler_def own_chunks_def partial_after_def)
next
  case (snoc c cs)
  then obtain a where a: "push_all cs new_assembler = Inr a" "assembler_after cs a" by auto
  with push_after [OF a(2), of c] snoc.prems show ?case by (auto simp: push_all_append)
qed

lemma fold_collect_cong:
  "(\<forall>x \<in> set xs. f x = g x) \<Longrightarrow> fold_res (\<lambda>out x. rbind (f x) (\<lambda>y. Inr (out @ [y]))) out xs
     = fold_res (\<lambda>out x. rbind (g x) (\<lambda>y. Inr (out @ [y]))) out xs"
  by (induction xs arbitrary: out) (auto simp: rbind_def split: sum.splits)

lemma map_res_cong: "\<forall>x \<in> set xs. f x = g x \<Longrightarrow> map_res f xs = map_res g xs"
  unfolding map_res_def by (rule fold_collect_cong)

lemma all_blocks_after:
  assumes "assembler_after cs a"
  shows "all_blocks a = map_res (block_spec cs) (first_seen cs)"
proof -
  have "rbind (mustGet a i) (\<lambda>p. assemble p i) = block_spec cs i" if seen: "i \<in> set (first_seen cs)" for i
  proof -
    have p: "partial_after (own_chunks i cs) (amap_get (as_partials a) i)" "own_chunks i cs \<noteq> []"
      using assms seen by (simp_all add: assembler_after_def first_seen_iff)
    show ?thesis
    proof (cases "first_some closing_block (own_chunks i cs)")
      case None
      then show ?thesis using p by (simp add: partial_after_def block_spec_def mustGet_def)
    next
      case (Some b)
      then obtain q where "amap_get (as_partials a) i = Some q" "pb_block q = Some b"
        using p by (auto simp: partial_after_def)
      then show ?thesis using Some by (simp add: block_spec_def mustGet_def assemble_def)
    qed
  qed
  then have "map_res (\<lambda>i. rbind (mustGet a i) (\<lambda>p. assemble p i)) (first_seen cs) = map_res (block_spec cs) (first_seen cs)"
    by (intro map_res_cong ballI)
  then show ?thesis using assms by (simp add: all_blocks_def assembler_after_def)
qed

lemma keep_by_flags: "keep_by (kept_flags bs) bs = filter (\<lambda>b. block_tag b \<noteq> ''tool-call'') bs"
  by (induction bs) (auto simp: keep_by_def kept_flags_def)

lemma keep_by_length: "length flags = length xs \<Longrightarrow> length flags = length ys \<Longrightarrow> length (keep_by flags xs) = length (keep_by flags ys)"
proof (induction flags arbitrary: xs ys)
  case (Cons f fs)
  then obtain x xs' y ys' where "xs = x # xs'" "ys = y # ys'" by (metis length_Suc_conv)
  then show ?case using Cons.IH [of xs' ys'] Cons.prems by (simp add: keep_by_def)
qed (simp add: keep_by_def)

text \<open>
  Claim C32. The assembler's blocks are those of the chunk list: any sequence of declared chunks is accepted;
  the reply has one block per index in the order the indices first appeared; a block closed by \<open>block-end\<close> is
  the first closing payload whatever follows it, an open one is its own deltas joined; a reply cut off at
  the token limit loses exactly its tool calls; and usage and finish reason are the last reported.
\<close>

theorem assembler_blocks:
  assumes "list_all declared chunks"
  shows "\<exists>a. push_all chunks new_assembler = Inr a
    \<and> blocks a = rbind (map_res (block_spec chunks) (first_seen chunks))
        (\<lambda>bs. Inr (if truncated_reply a then filter (\<lambda>b. block_tag b \<noteq> ''tool-call'') bs else bs))
    \<and> as_usage a = first_some usage_of (rev chunks)
    \<and> finish a = (case first_some reason_of (rev chunks) of None \<Rightarrow> JObj [(''kind'', JStr ''stop'')] | Some r \<Rightarrow> r)"
proof -
  obtain a where a: "push_all chunks new_assembler = Inr a" "assembler_after chunks a" using push_all_after [OF assms] by blast
  show ?thesis
    using a all_blocks_after [OF a(2)]
    by (intro exI [of _ a]) (auto simp: blocks_def assembled_def keep_by_flags Let_def assembler_after_def finish_def rbind_def split: sum.splits)
qed

definition sample_chunks :: "stream_chunk list" where
  "sample_chunks = [Text_Delta 1 ''a'', Block_Start 0 ''reasoning'', Reasoning_Delta 0 ''b'', Text_Delta 1 ''c'',
     Block_End 0 (text_block ''reasoning'' ''B''), Reasoning_Delta 0 ''late'', Tool_Delta 2 ''k'' (Some ''read'') ''{}'',
     Finish_Chunk (JObj [(''kind'', JStr ''max-tokens'')]) None]"

lemma assembler_blocks_witness:
  "list_all declared sample_chunks \<and> (\<exists>a. push_all sample_chunks new_assembler = Inr a
     \<and> as_usage a = first_some usage_of (rev sample_chunks))
   \<and> rbind (push_all sample_chunks new_assembler) blocks = Inr [text_block ''text'' ''ac'', text_block ''reasoning'' ''B'']"
proof -
  have d: "list_all declared sample_chunks" by code_simp
  have "rbind (push_all sample_chunks new_assembler) blocks = Inr [text_block ''text'' ''ac'', text_block ''reasoning'' ''B'']"
    by code_simp
  then show ?thesis using assembler_blocks [OF d] d by blast
qed

text \<open>
  Replay metadata never drifts from the content it describes: whenever an assembler reports
  per-block metadata, it has exactly one entry per emitted block.
\<close>

theorem replay_metadata_aligned:
  assumes "replayState a = Inr (Some e)" "re_blocks e = Some entries"
  shows "\<exists>bs. blocks a = Inr bs \<and> length entries = length bs"
proof -
  obtain all where all: "all_blocks a = Inr all"
    using assms(1) by (cases "all_blocks a") (auto simp: replayState_def assembled_def)
  obtain e0 ms where e0: "as_replay a = Some e0" "re_blocks e0 = Some ms"
    using assms all by (auto simp: replayState_def assembled_def Let_def split: option.splits if_splits)
  have ms: "length ms = length all"
    using assms all e0 by (simp add: replayState_def assembled_def Let_def split: if_splits)
  then have len: "length (keep_by (kept_flags all) ms) = length (keep_by (kept_flags all) all)"
    by (intro keep_by_length) (simp_all add: kept_flags_def)
  show ?thesis
  proof (cases "truncated_reply a \<and> length (keep_by (kept_flags all) all) \<noteq> length all")
    case True
    then have "entries = keep_by (kept_flags all) ms"
      using assms all e0 ms by (auto simp: replayState_def assembled_def Let_def)
    then show ?thesis using True all len by (simp add: blocks_def assembled_def Let_def)
  next
    case False
    then have "entries = ms" using assms all e0 ms by (auto simp: replayState_def assembled_def Let_def split: if_splits)
    then show ?thesis using False all ms by (auto simp: blocks_def assembled_def Let_def)
  qed
qed

definition sample_reply :: assembler where
  "sample_reply = new_assembler\<lparr>as_partials := [(0, (new_partial ''text'')\<lparr>pb_text := ''hi''\<rparr>), (1, new_partial ''tool-call'')], as_order := [0, 1],
     as_finish := Some (JObj [(''kind'', JStr ''max-tokens'')]), as_replay := Some \<lparr>re_response = JNull, re_blocks = Some [JBool True, JBool False]\<rparr>\<rparr>"

lemma replay_metadata_aligned_witness:
  "\<exists>bs. blocks sample_reply = Inr bs \<and> length [JBool True] = length bs"
proof -
  have r: "replayState sample_reply = Inr (Some \<lparr>re_response = JNull, re_blocks = Some [JBool True]\<rparr>)" by code_simp
  show ?thesis using replay_metadata_aligned [OF r, of "[JBool True]"] by simp
qed

section \<open>Interrupted replies\<close>

definition visible_prose :: "json \<Rightarrow> bool" where
  "visible_prose b = (prose_tag (block_tag b) \<and> js_trim (json_string (jget b ''text'')) \<noteq> [])"

lemma fold_collect_all:
  "(\<forall>x \<in> set xs. f x = Inr (g x)) \<Longrightarrow> fold_res (\<lambda>out x. rbind (f x) (\<lambda>y. Inr (out @ [y]))) out xs = Inr (out @ map g xs)"
  by (induction xs arbitrary: out) auto

lemma map_res_all: "\<forall>x \<in> set xs. f x = Inr (g x) \<Longrightarrow> map_res f xs = Inr (map g xs)"
  using fold_collect_all [of xs f g "[]"] by (simp add: map_res_def)

lemma map_res_elems:
  assumes "map_res f xs = Inr ys"
  shows "map f xs = map Inr ys"
proof -
  have "fold_res (\<lambda>out x. rbind (f x) (\<lambda>y. Inr (out @ [y]))) out xs = Inr (out @ ys) \<Longrightarrow> map f xs = map Inr ys" for out
  proof (induction xs arbitrary: out ys)
    case (Cons x xs)
    then obtain y where y: "f x = Inr y" "fold_res (\<lambda>out x. rbind (f x) (\<lambda>y. Inr (out @ [y]))) (out @ [y]) xs = Inr (out @ ys)"
      by (cases "f x") auto
    from fold_res_extends [OF y(2)] obtain zs where "out @ ys = (out @ [y]) @ zs" by blast
    then have "ys = y # zs" by simp
    then show ?case using y Cons.IH [of "out @ [y]" zs] by simp
  qed simp
  from this [of "[]"] show ?thesis using assms by (simp add: map_res_def)
qed

lemma assemble_prose: "prose_tag (partial_tag p) \<Longrightarrow> \<exists>b. assemble p i = Inr b \<and> block_tag b = partial_tag p"
  by (auto simp: assemble_def partial_tag_def prose_tag_def text_block_def block_tag_def json_string_def split: option.splits)

lemma assemble_tag: "assemble p i = Inr b \<Longrightarrow> block_tag b = partial_tag p"
  by (auto simp: assemble_def partial_tag_def text_block_def tool_call_block_def block_tag_def json_string_def split: option.splits if_splits)

text \<open>
  An interrupted reply can always be finalized safely: after any sequence of declared chunks the
  interrupted blocks are computed without an error, each of them is text or reasoning with visible content
  (never a tool call), and they are exactly those of the full reply whenever that one can be assembled.
\<close>

theorem interrupted_blocks_safe:
  assumes "list_all declared chunks" "push_all chunks new_assembler = Inr a"
  shows "\<exists>bs. interruptedBlocks a = Inr bs \<and> list_all visible_prose bs
    \<and> (case all_blocks a of Inl _ \<Rightarrow> True | Inr all \<Rightarrow> bs = filter visible_prose all)"
proof -
  have after: "assembler_after chunks a" using push_all_after [OF assms(1)] assms(2) by auto
  define part where "part i = the (amap_get (as_partials a) i)" for i
  define pick where "pick i = (if prose_tag (partial_tag (part i)) then Some (projr (assemble (part i) i)) else None)" for i
  define keep where "keep b = (case b of None \<Rightarrow> [] | Some j \<Rightarrow> if visible_prose j then [j] else [])" for b
  have got: "mustGet a i = Inr (part i)" if "i \<in> set (as_order a)" for i
  proof -
    have "amap_get (as_partials a) i \<noteq> None"
      using that after partial_known [of "own_chunks i chunks" "amap_get (as_partials a) i"] by (auto simp: assembler_after_def first_seen_iff)
    then show ?thesis by (auto simp: mustGet_def part_def split: option.splits)
  qed
  have "map_res (\<lambda>i. rbind (mustGet a i) (\<lambda>p. if \<not> prose_tag (partial_tag p) then Inr None else rbind (assemble p i) (\<lambda>b. Inr (Some b))))
      (as_order a) = Inr (map pick (as_order a))"
  proof (intro map_res_all ballI)
    fix i assume "i \<in> set (as_order a)"
    then show "rbind (mustGet a i) (\<lambda>p. if \<not> prose_tag (partial_tag p) then Inr None else rbind (assemble p i) (\<lambda>b. Inr (Some b))) = Inr (pick i)"
      using got assemble_prose [of "part i" i] by (auto simp: pick_def)
  qed
  then have bs: "interruptedBlocks a = Inr (concat (map keep (map pick (as_order a))))"
    unfolding interruptedBlocks_def keep_def visible_prose_def by simp
  have "list_all visible_prose (keep b)" for b by (simp add: keep_def split: option.splits)
  then have prose: "list_all visible_prose (concat (map keep bs))" for bs by (induction bs) auto
  have same: "concat (map keep (map pick (as_order a))) = filter visible_prose all" if "all_blocks a = Inr all" for all
  proof -
    have elems: "map (\<lambda>i. rbind (mustGet a i) (\<lambda>p. assemble p i)) (as_order a) = map Inr all"
      using that map_res_elems unfolding all_blocks_def by blast
    have "map (\<lambda>i. assemble (part i) i) is = map Inr bs \<Longrightarrow> concat (map keep (map pick is)) = filter visible_prose bs" for "is" bs
    proof (induction "is" arbitrary: bs)
      case (Cons i "is")
      then obtain b bs' where "bs = b # bs'" "assemble (part i) i = Inr b" by (cases bs) auto
      then show ?case using Cons assemble_tag [of "part i" i b] by (auto simp: pick_def keep_def visible_prose_def)
    qed simp
    moreover have "map (\<lambda>i. rbind (mustGet a i) (\<lambda>p. assemble p i)) (as_order a) = map (\<lambda>i. assemble (part i) i) (as_order a)"
      using got by simp
    ultimately show ?thesis using elems by simp
  qed
  show ?thesis
    by (rule exI [of _ "concat (map keep (map pick (as_order a)))"]) 
      (cases "all_blocks a"; use bs prose [of "map pick (as_order a)"] same in simp)
qed

lemma interrupted_blocks_safe_witness:
  "case push_all sample_chunks new_assembler of Inl e \<Rightarrow> False
   | Inr a \<Rightarrow> (\<exists>bs. interruptedBlocks a = Inr bs \<and> list_all visible_prose bs)"
proof -
  have d: "list_all declared sample_chunks" by code_simp
  have "case push_all sample_chunks new_assembler of Inl e \<Rightarrow> False | Inr a \<Rightarrow> True" by code_simp
  then obtain a where a: "push_all sample_chunks new_assembler = Inr a" by (auto split: sum.splits)
  show ?thesis using interrupted_blocks_safe [OF d a] a by auto
qed

end
