(* ===== verification/Utf8.thy ===== *)
theory Utf8
  imports Prelude "HOL-Library.Word"
begin

text \<open>
  UTF-8 as the platform's \<open>TextEncoder\<close> and \<open>TextDecoder\<close> compute it: a string is the list of its Unicode
  scalar values, a byte is an \<open>8 word\<close>. The decoder is the standard's state machine, which replaces each
  malformed piece by U+FFFD and drops one leading byte order mark.
\<close>

type_synonym byte = "8 word"

definition byte_of :: "nat \<Rightarrow> byte" where
  "byte_of n = word_of_nat n"

lemma unat_byte_of [simp]: "n < 256 \<Longrightarrow> unat (byte_of n) = n"
  by (simp add: byte_of_def unat_of_nat take_bit_nat_eq_self)

definition scalar :: "nat \<Rightarrow> bool" where
  "scalar c \<longleftrightarrow> c < 0xD800 \<or> (0xDFFF < c \<and> c < 0x110000)"

section \<open>Encoding\<close>

definition encode_char :: "nat \<Rightarrow> byte list" where
  "encode_char c =
     (if c < 0x80 then [byte_of c]
      else if c < 0x800 then [byte_of (0xC0 + c div 64), byte_of (0x80 + c mod 64)]
      else if c < 0x10000 then [byte_of (0xE0 + c div 4096), byte_of (0x80 + c div 64 mod 64), byte_of (0x80 + c mod 64)]
      else [byte_of (0xF0 + c div 262144), byte_of (0x80 + c div 4096 mod 64), byte_of (0x80 + c div 64 mod 64), byte_of (0x80 + c mod 64)])"

definition utf8_encode :: "nat list \<Rightarrow> byte list" where
  "utf8_encode cs = concat (map encode_char cs)"

section \<open>Decoding\<close>

definition REPLACEMENT :: nat where "REPLACEMENT = 0xFFFD"

text \<open>Between code points, or with bytes still needed: their number, the value so far, the range of the next.\<close>

datatype decoder = Idle | Need nat nat nat nat

definition decode_lead :: "nat \<Rightarrow> decoder \<times> nat list" where
  "decode_lead n =
     (if n < 0x80 then (Idle, [n])
      else if 0xC2 \<le> n \<and> n \<le> 0xDF then (Need 1 (n - 0xC0) 0x80 0xBF, [])
      else if 0xE0 \<le> n \<and> n \<le> 0xEF then
        (Need 2 (n - 0xE0) (if n = 0xE0 then 0xA0 else 0x80) (if n = 0xED then 0x9F else 0xBF), [])
      else if 0xF0 \<le> n \<and> n \<le> 0xF4 then
        (Need 3 (n - 0xF0) (if n = 0xF0 then 0x90 else 0x80) (if n = 0xF4 then 0x8F else 0xBF), [])
      else (Idle, [REPLACEMENT]))"

fun decode_step :: "decoder \<Rightarrow> nat \<Rightarrow> decoder \<times> nat list" where
  "decode_step Idle n = decode_lead n"
| "decode_step (Need k cp lo hi) n =
     (if lo \<le> n \<and> n \<le> hi then
        let cp' = cp * 64 + (n - 0x80) in (if k = 1 then (Idle, [cp']) else (Need (k - 1) cp' 0x80 0xBF, []))
      else let (d, out) = decode_lead n in (d, REPLACEMENT # out))"

fun decode_run :: "decoder \<Rightarrow> byte list \<Rightarrow> nat list" where
  "decode_run d [] = (if d = Idle then [] else [REPLACEMENT])"
| "decode_run d (b # bs) = (let (d', out) = decode_step d (unat b) in out @ decode_run d' bs)"

definition strip_bom :: "nat list \<Rightarrow> nat list" where
  "strip_bom cs = (case cs of c # cs' \<Rightarrow> if c = 0xFEFF then cs' else cs | [] \<Rightarrow> [])"

definition utf8_decode :: "byte list \<Rightarrow> nat list" where
  "utf8_decode bs = strip_bom (decode_run Idle bs)"

section \<open>Round trip\<close>

lemma scalar_bound: "scalar c \<Longrightarrow> c < 0x110000"
  by (auto simp: scalar_def)

lemma split2: "c div 64 * 64 + c mod 64 = (c::nat)"
  by (rule div_mult_mod_eq)

lemma split3: "(c div 4096 * 64 + c div 64 mod 64) * 64 + c mod 64 = (c::nat)"
proof -
  have "c div 4096 = c div 64 div 64" by (simp add: div_mult2_eq [symmetric])
  then have "c div 4096 * 64 + c div 64 mod 64 = c div 64" by (simp only: split2)
  then show ?thesis by (simp only: split2)
qed

lemma split4: "((c div 262144 * 64 + c div 4096 mod 64) * 64 + c div 64 mod 64) * 64 + c mod 64 = (c::nat)"
proof -
  have "c div 262144 = c div 4096 div 64" by (simp add: div_mult2_eq [symmetric])
  then have "c div 262144 * 64 + c div 4096 mod 64 = c div 4096" by (simp only: split2)
  then show ?thesis by (simp only: split3)
qed

lemma decode_char:
  assumes "scalar c"
  shows "decode_run Idle (encode_char c @ bs) = c # decode_run Idle bs"
proof -
  have m: "c mod 64 < 64" "c div 64 mod 64 < 64" "c div 4096 mod 64 < 64" by simp_all
  consider "c < 0x80" | "0x80 \<le> c" "c < 0x800" | "0x800 \<le> c" "c < 0x10000" | "0x10000 \<le> c" "c < 0x110000"
    using scalar_bound [OF assms] by linarith
  then show ?thesis
  proof cases
    case 1
    then show ?thesis by (simp add: encode_char_def decode_lead_def)
  next
    case 2
    define q where "q = c div 64"
    have q: "2 \<le> q" "q < 32" using 2 by (auto simp: q_def)
    have "encode_char c = [byte_of (0xC0 + q), byte_of (0x80 + c mod 64)]" using 2 by (simp add: encode_char_def q_def)
    then show ?thesis using q m split2 [of c] by (simp add: decode_lead_def q_def [symmetric])
  next
    case 3
    define q r t where "q = c div 4096" and "r = c div 64 mod 64" and "t = c mod 64"
    have b: "q < 16" "r < 64" "t < 64" "(q * 64 + r) * 64 + t = c"
      using 3 split3 [of c] by (auto simp: q_def r_def t_def)
    then have "q = 0 \<Longrightarrow> 32 \<le> r" "q = 13 \<Longrightarrow> r \<le> 31" using 3 assms by (auto simp: scalar_def)
    moreover have "encode_char c = [byte_of (0xE0 + q), byte_of (0x80 + r), byte_of (0x80 + t)]"
      using 3 by (simp add: encode_char_def q_def r_def t_def)
    ultimately show ?thesis using b by (simp add: decode_lead_def)
  next
    case 4
    define q r t u where "q = c div 262144" and "r = c div 4096 mod 64" and "t = c div 64 mod 64" and "u = c mod 64"
    have b: "r < 64" "t < 64" "u < 64" "((q * 64 + r) * 64 + t) * 64 + u = c"
      using 4 split4 [of c] by (auto simp: q_def r_def t_def u_def)
    then have "q \<le> 4" "q = 0 \<Longrightarrow> 16 \<le> r" "q = 4 \<Longrightarrow> r \<le> 15" using 4 by auto
    moreover have "encode_char c = [byte_of (0xF0 + q), byte_of (0x80 + r), byte_of (0x80 + t), byte_of (0x80 + u)]"
      using 4 by (simp add: encode_char_def q_def r_def t_def u_def)
    ultimately show ?thesis using b by (simp add: decode_lead_def)
  qed
qed

lemma decode_encoded: "list_all scalar cs \<Longrightarrow> decode_run Idle (utf8_encode cs) = cs"
  by (induction cs) (simp_all add: utf8_encode_def decode_char)

lemma utf8_roundtrip: "list_all scalar cs \<Longrightarrow> utf8_decode (utf8_encode cs) = strip_bom cs"
  by (simp add: utf8_decode_def decode_encoded)

end
