(* ===== verification/Output_Retention.thy ===== *)
theory Output_Retention
  imports Json Utf8
begin

text \<open>
  Bounded output (\<open>packages/util/output-retention/src/index.ts\<close>): the item retainer, the text retainer with
  its rolling suffix window, the trims that move each cut to a code point boundary, and the notices.
  Bytes are \<open>8 word\<close> values; a text is the list of its Unicode scalar values.
\<close>

section \<open>Results\<close>

datatype omitted = Omitted_None | Omitted_Exact nat | Omitted_Unknown

record push_decision =
  pd_kept :: bool
  pd_truncated :: bool

record 'a retained_items =
  ri_items :: "'a list"
  ri_truncated :: bool
  ri_seen :: nat
  ri_kept :: nat
  ri_omitted :: omitted

record retained_text =
  rt_text :: "nat list"
  rt_truncated :: bool
  rt_omitted :: omitted

datatype retention_error = Bad_Budget string

text \<open>\<open>Number.isInteger\<close> accepts negative zero, which is not below zero.\<close>

fun assertBudget :: "jnum \<Rightarrow> string \<Rightarrow> (retention_error, nat) res" where
  "assertBudget (JInt i) name = (if i < 0 then Inl (Bad_Budget name) else Inr (nat i))"
| "assertBudget JNegZero name = Inr 0"
| "assertBudget (JFrac q) name = Inl (Bad_Budget name)"

section \<open>Items\<close>

record 'a item_retainer =
  ir_max :: nat
  ir_items :: "'a list"
  ir_seen :: nat
  ir_omitted :: nat

definition new_item_retainer :: "jnum \<Rightarrow> (retention_error, 'a item_retainer) res" where
  "new_item_retainer maxItems = rbind (assertBudget maxItems ''maxItems'') (\<lambda>n.
     Inr \<lparr>ir_max = n, ir_items = [], ir_seen = 0, ir_omitted = 0\<rparr>)"

definition item_push :: "'a item_retainer \<Rightarrow> 'a \<Rightarrow> 'a item_retainer \<times> push_decision" where
  "item_push r x = (let r1 = r\<lparr>ir_seen := ir_seen r + 1\<rparr> in
     if length (ir_items r1) < ir_max r1 then (r1\<lparr>ir_items := ir_items r1 @ [x]\<rparr>, \<lparr>pd_kept = True, pd_truncated = False\<rparr>)
     else (r1\<lparr>ir_omitted := ir_omitted r1 + 1\<rparr>, \<lparr>pd_kept = False, pd_truncated = True\<rparr>))"

definition exact_or_none :: "nat \<Rightarrow> omitted" where
  "exact_or_none n = (if n > 0 then Omitted_Exact n else Omitted_None)"

definition item_finish :: "'a item_retainer \<Rightarrow> 'a retained_items" where
  "item_finish r = \<lparr>ri_items = ir_items r, ri_truncated = ir_omitted r > 0, ri_seen = ir_seen r, ri_kept = length (ir_items r),
     ri_omitted = exact_or_none (ir_omitted r)\<rparr>"

section \<open>Cutting at code points\<close>

unbundle bit_operations_syntax

definition continuation :: "byte \<Rightarrow> bool" where
  "continuation b \<longleftrightarrow> b AND 0xC0 = 0x80"

text \<open>The backward scan: the index of the last byte it stops at, at most three continuation bytes back.\<close>

fun scan_back :: "byte list \<Rightarrow> nat \<Rightarrow> int \<Rightarrow> int" where
  "scan_back bs 0 i = i"
| "scan_back bs (Suc f) i =
     (if i \<ge> 0 \<and> continuation (bs ! nat i) \<and> int (length bs) - i \<le> 3 then scan_back bs f (i - 1) else i)"

definition lead_length :: "byte \<Rightarrow> nat" where
  "lead_length b = (if b < 0x80 then 1 else if b < 0xE0 then 2 else if b < 0xF0 then 3 else if b < 0xF8 then 4 else 0)"

definition trimTrailingPartialUtf8 :: "byte list \<Rightarrow> byte list" where
  "trimTrailingPartialUtf8 bs =
     (let i = scan_back bs 4 (int (length bs) - 1) in
      if i < 0 then bs
      else let expected = lead_length (bs ! nat i) in
        if expected = 0 then bs
        else if length bs - nat i < expected then take (nat i) bs else bs)"

definition trimLeadingContinuationUtf8 :: "byte list \<Rightarrow> byte list" where
  "trimLeadingContinuationUtf8 bs = dropWhile continuation bs"

section \<open>Text\<close>

datatype text_strategy = Head jnum | Tail jnum | Head_Tail jnum jnum

record text_retainer =
  tr_prefix_cap :: nat
  tr_suffix_cap :: nat
  tr_prefix :: "byte list list"
  tr_prefix_held :: nat
  tr_suffix :: "byte list list"
  tr_suffix_held :: nat
  tr_total :: nat

definition text_retainer_of :: "nat \<Rightarrow> nat \<Rightarrow> text_retainer" where
  "text_retainer_of p s = \<lparr>tr_prefix_cap = p, tr_suffix_cap = s, tr_prefix = [], tr_prefix_held = 0,
     tr_suffix = [], tr_suffix_held = 0, tr_total = 0\<rparr>"

fun new_text_retainer :: "text_strategy \<Rightarrow> (retention_error, text_retainer) res" where
  "new_text_retainer (Head n) = rbind (assertBudget n ''maxBytes'') (\<lambda>k. Inr (text_retainer_of k 0))"
| "new_text_retainer (Tail n) = rbind (assertBudget n ''maxBytes'') (\<lambda>k. Inr (text_retainer_of 0 k))"
| "new_text_retainer (Head_Tail n m) = rbind (assertBudget n ''headBytes'') (\<lambda>k.
     rbind (assertBudget m ''tailBytes'') (\<lambda>l. Inr (text_retainer_of k l)))"

definition omittedAt :: "text_retainer \<Rightarrow> nat \<Rightarrow> nat" where
  "omittedAt r seen_bytes = (let prefixLen = min seen_bytes (tr_prefix_cap r);
       suffixLen = min (seen_bytes - prefixLen) (tr_suffix_cap r) in seen_bytes - prefixLen - suffixLen)"

text \<open>A chunk is raw bytes or a string, which is encoded.\<close>

datatype text_chunk = Raw_Bytes "byte list" | Chars "nat list"

fun chunk_bytes :: "text_chunk \<Rightarrow> byte list" where
  "chunk_bytes (Raw_Bytes bs) = bs"
| "chunk_bytes (Chars cs) = utf8_encode cs"

text \<open>Dropping the leading chunks that have slid out of the window.\<close>

fun slide :: "nat \<Rightarrow> byte list list \<Rightarrow> nat \<Rightarrow> byte list list \<times> nat" where
  "slide cap [] held = ([], held)"
| "slide cap (h # cs) held = (if held - length h \<ge> cap then slide cap cs (held - length h) else (h # cs, held))"

definition trim_window :: "nat \<Rightarrow> byte list list \<times> nat \<Rightarrow> byte list list \<times> nat" where
  "trim_window cap w = (case w of
     (h # cs, held) \<Rightarrow> if held > cap then (drop (held - cap) h # cs, cap) else w
   | _ \<Rightarrow> w)"

definition push_prefix :: "byte list \<Rightarrow> text_retainer \<Rightarrow> text_retainer" where
  "push_prefix bs r = (let n = min (tr_prefix_cap r - tr_prefix_held r) (length bs) in
     if n > 0 then r\<lparr>tr_prefix := tr_prefix r @ [take n bs], tr_prefix_held := tr_prefix_held r + n\<rparr> else r)"

definition push_suffix :: "byte list \<Rightarrow> text_retainer \<Rightarrow> text_retainer" where
  "push_suffix bs r = (if tr_suffix_cap r > 0 then
     let (chunks, held) = trim_window (tr_suffix_cap r)
           (slide (tr_suffix_cap r) (tr_suffix r @ [bs]) (tr_suffix_held r + length bs))
     in r\<lparr>tr_suffix := chunks, tr_suffix_held := held\<rparr> else r)"

definition text_push :: "text_retainer \<Rightarrow> text_chunk \<Rightarrow> text_retainer \<times> push_decision" where
  "text_push r chunk =
     (let bs = chunk_bytes chunk;
          seen_bytes = tr_total r + length bs;
          r' = push_suffix bs (push_prefix bs (r\<lparr>tr_total := seen_bytes\<rparr>))
      in (r', \<lparr>pd_kept = \<not> omittedAt r' seen_bytes > omittedAt r' (tr_total r), pd_truncated = omittedAt r' seen_bytes > 0\<rparr>))"

definition kept_halves :: "text_retainer \<Rightarrow> byte list \<times> byte list" where
  "kept_halves r =
     (let prefixLen = min (tr_total r) (tr_prefix_cap r);
          suffixLen = min (tr_total r - prefixLen) (tr_suffix_cap r);
          prefix = concat (tr_prefix r);
          suffix = drop (tr_suffix_held r - suffixLen) (concat (tr_suffix r))
      in if omittedAt r (tr_total r) > 0 then (trimTrailingPartialUtf8 prefix, trimLeadingContinuationUtf8 suffix)
         else (prefix, suffix))"

definition text_finish :: "text_retainer \<Rightarrow> retained_text" where
  "text_finish r =
     (let (prefix, suffix) = kept_halves r;
          text_out = (if omittedAt r (tr_total r) > 0 then utf8_decode prefix @ utf8_decode suffix
                      else utf8_decode (prefix @ suffix));
          omitted = tr_total r - length prefix - length suffix
      in \<lparr>rt_text = text_out, rt_truncated = omitted > 0, rt_omitted = exact_or_none omitted\<rparr>)"

section \<open>Notices\<close>

definition describeOmitted :: "omitted \<Rightarrow> string \<Rightarrow> string" where
  "describeOmitted om noun = (case om of
     Omitted_None \<Rightarrow> []
   | Omitted_Exact n \<Rightarrow> ''Omitted '' @ show_nat n @ '' '' @ noun @ ''.''
   | Omitted_Unknown \<Rightarrow> ''More '' @ noun @ '' were omitted.'')"

definition formatRetentionNotice :: "omitted \<Rightarrow> string \<Rightarrow> string \<Rightarrow> string" where
  "formatRetentionNotice om noun recovery =
     concat (case filter (\<lambda>p. p \<noteq> []) [describeOmitted om noun, recovery] of [] \<Rightarrow> [] | p # ps \<Rightarrow> p # concat (map (\<lambda>q. ['' '', q]) ps))"

section \<open>The retained bytes\<close>

definition last_bytes :: "nat \<Rightarrow> 'a list \<Rightarrow> 'a list" where
  "last_bytes n xs = drop (length xs - n) xs"

definition retainer_inv :: "byte list \<Rightarrow> text_retainer \<Rightarrow> bool" where
  "retainer_inv bs r \<longleftrightarrow> tr_total r = length bs
     \<and> concat (tr_prefix r) = take (tr_prefix_cap r) bs \<and> tr_prefix_held r = min (length bs) (tr_prefix_cap r)
     \<and> concat (tr_suffix r) = (if tr_suffix_cap r = 0 then [] else last_bytes (tr_suffix_cap r) bs)
     \<and> tr_suffix_held r = (if tr_suffix_cap r = 0 then 0 else min (length bs) (tr_suffix_cap r))"

lemma slide_suffix:
  "slide cap cs (length (concat cs)) = (ds, held) \<Longrightarrow>
     \<exists>xs. cs = xs @ ds \<and> held = length (concat ds) \<and> (xs = [] \<or> held \<ge> cap) \<and> (ds = [] \<or> length (concat (List.tl ds)) < cap)"
proof (induction cs)
  case (Cons h cs)
  show ?case
  proof (cases "length (concat cs) \<ge> cap")
    case True
    then have "slide cap cs (length (concat cs)) = (ds, held)" using Cons.prems by simp
    from Cons.IH [OF this] obtain xs where x: "cs = xs @ ds" "held = length (concat ds)" "xs = [] \<or> held \<ge> cap"
      "ds = [] \<or> length (concat (List.tl ds)) < cap" by blast
    then have "held \<ge> cap" using True by auto
    then show ?thesis using x by (intro exI [of _ "h # xs"]) simp
  next
    case False
    then show ?thesis using Cons.prems by (intro exI [of _ "[]"]) auto
  qed
qed simp

lemma last_bytes_append: "n \<le> length ys \<Longrightarrow> last_bytes n (xs @ ys) = last_bytes n ys"
  by (simp add: last_bytes_def)

lemma last_bytes_again: "last_bytes n (last_bytes n xs @ ys) = last_bytes n (xs @ ys)"
proof -
  have "length xs - n + (length (last_bytes n xs @ ys) - n) = length (xs @ ys) - n" by (auto simp: last_bytes_def)
  moreover have "last_bytes n xs @ ys = drop (length xs - n) (xs @ ys)" by (simp add: last_bytes_def)
  ultimately show ?thesis by (simp add: last_bytes_def add.commute)
qed

lemma length_last_bytes [simp]: "length (last_bytes n xs) = min (length xs) n"
  by (simp add: last_bytes_def)

lemma trim_window_suffix:
  assumes "trim_window cap (slide cap cs (length (concat cs))) = (chunks, held)"
  shows "concat chunks = last_bytes cap (concat cs)" "held = min (length (concat cs)) cap"
proof -
  obtain ds h where w: "slide cap cs (length (concat cs)) = (ds, h)" by (cases "slide cap cs (length (concat cs))")
  obtain xs where x: "cs = xs @ ds" "h = length (concat ds)" "xs = [] \<or> h \<ge> cap" "ds = [] \<or> length (concat (List.tl ds)) < cap"
    using slide_suffix [OF w] by blast
  have "concat chunks = last_bytes cap (concat cs) \<and> held = min (length (concat cs)) cap"
  proof (cases "h > cap")
    case True
    then obtain d es where d: "ds = d # es" using x by (cases ds) auto
    then have c: "chunks = drop (h - cap) d # es" "held = cap" using assms True by (auto simp: w trim_window_def)
    have "h - cap \<le> length d" using x(2,4) by (simp add: d)
    then have "concat chunks = last_bytes cap (concat ds)" by (simp add: c d last_bytes_def x(2))
    moreover have "last_bytes cap (concat cs) = last_bytes cap (concat ds)"
      using True x(2) by (simp add: x(1) last_bytes_append)
    ultimately show ?thesis using True x(1,2) c(2) by simp
  next
    case False
    then have c: "chunks = ds" "held = h" using assms by (auto simp: w trim_window_def split: list.splits)
    show ?thesis
    proof (cases "xs = []")
      case True
      then show ?thesis using False c x(1,2) by (simp add: last_bytes_def)
    next
      case ne: False
      then have "h = cap" using x(3) False by simp
      then show ?thesis using c x(1,2) by (simp add: last_bytes_append) (simp add: last_bytes_def)
    qed
  qed
  then show "concat chunks = last_bytes cap (concat cs)" "held = min (length (concat cs)) cap" by auto
qed

lemma push_prefix_inv:
  assumes "concat (tr_prefix r) = take (tr_prefix_cap r) bs" "tr_prefix_held r = min (length bs) (tr_prefix_cap r)"
  shows "concat (tr_prefix (push_prefix cs r)) = take (tr_prefix_cap r) (bs @ cs)"
    "tr_prefix_held (push_prefix cs r) = min (length (bs @ cs)) (tr_prefix_cap r)"
  using assms by (auto simp: push_prefix_def Let_def min_def)

lemma push_suffix_inv:
  assumes "concat (tr_suffix r) = (if tr_suffix_cap r = 0 then [] else last_bytes (tr_suffix_cap r) bs)"
    "tr_suffix_held r = (if tr_suffix_cap r = 0 then 0 else min (length bs) (tr_suffix_cap r))"
  shows "concat (tr_suffix (push_suffix cs r)) = (if tr_suffix_cap r = 0 then [] else
       last_bytes (tr_suffix_cap r) (bs @ cs))"
    "tr_suffix_held (push_suffix cs r) = (if tr_suffix_cap r = 0 then 0 else min (length (bs @ cs)) (tr_suffix_cap r))"
proof -
  let ?cap = "tr_suffix_cap r"
  have "concat (tr_suffix (push_suffix cs r)) = last_bytes ?cap (bs @ cs)
      \<and> tr_suffix_held (push_suffix cs r) = min (length (bs @ cs)) ?cap" if pos: "?cap > 0"
  proof -
    obtain chunks held where w: "trim_window ?cap (slide ?cap (tr_suffix r @ [cs]) (tr_suffix_held r + length cs)) = (chunks, held)"
      by (cases "trim_window ?cap (slide ?cap (tr_suffix r @ [cs]) (tr_suffix_held r + length cs))")
    have c: "concat (tr_suffix r @ [cs]) = last_bytes ?cap bs @ cs"
      "tr_suffix_held r + length cs = length (concat (tr_suffix r @ [cs]))"
      using assms pos by auto
    note t = trim_window_suffix [OF w [unfolded c(2)]]
    have "concat chunks = last_bytes ?cap (bs @ cs)"
      using t(1) unfolding c(1) by (simp add: last_bytes_again)
    moreover have "held = min (length (bs @ cs)) ?cap" using t(2) unfolding c(1) by auto
    moreover have "push_suffix cs r = r\<lparr>tr_suffix := chunks, tr_suffix_held := held\<rparr>" using w pos by (simp add: push_suffix_def)
    ultimately show ?thesis by simp
  qed
  then show "concat (tr_suffix (push_suffix cs r)) = (if tr_suffix_cap r = 0 then [] else
       last_bytes (tr_suffix_cap r) (bs @ cs))"
    "tr_suffix_held (push_suffix cs r) = (if tr_suffix_cap r = 0 then 0 else min (length (bs @ cs)) (tr_suffix_cap r))"
    using assms by (auto simp: push_suffix_def)
qed

lemma push_frames [simp]:
  "tr_prefix_cap (push_prefix cs r) = tr_prefix_cap r" "tr_suffix_cap (push_prefix cs r) = tr_suffix_cap r"
  "tr_prefix_cap (push_suffix cs r) = tr_prefix_cap r" "tr_suffix_cap (push_suffix cs r) = tr_suffix_cap r"
  "tr_total (push_prefix cs r) = tr_total r" "tr_total (push_suffix cs r) = tr_total r"
  "tr_suffix (push_prefix cs r) = tr_suffix r" "tr_suffix_held (push_prefix cs r) = tr_suffix_held r"
  "tr_prefix (push_suffix cs r) = tr_prefix r" "tr_prefix_held (push_suffix cs r) = tr_prefix_held r"
  by (simp_all add: push_prefix_def push_suffix_def Let_def split: prod.splits)

lemma text_push_inv:
  assumes "retainer_inv bs r"
  shows "retainer_inv (bs @ chunk_bytes c) (fst (text_push r c))"
    "tr_prefix_cap (fst (text_push r c)) = tr_prefix_cap r" "tr_suffix_cap (fst (text_push r c)) = tr_suffix_cap r"
proof -
  let ?r = "push_prefix (chunk_bytes c) (r\<lparr>tr_total := tr_total r + length (chunk_bytes c)\<rparr>)"
  have "fst (text_push r c) = push_suffix (chunk_bytes c) ?r" by (simp add: text_push_def Let_def)
  then show "retainer_inv (bs @ chunk_bytes c) (fst (text_push r c))"
    "tr_prefix_cap (fst (text_push r c)) = tr_prefix_cap r" "tr_suffix_cap (fst (text_push r c)) = tr_suffix_cap r"
    using assms push_suffix_inv [of ?r bs "chunk_bytes c"]
      push_prefix_inv [of "r\<lparr>tr_total := tr_total r + length (chunk_bytes c)\<rparr>" bs "chunk_bytes c"]
    by (simp_all add: retainer_inv_def)
qed

definition push_chunks :: "text_retainer \<Rightarrow> text_chunk list \<Rightarrow> text_retainer" where
  "push_chunks r cs = foldl (\<lambda>r c. fst (text_push r c)) r cs"

definition stream_bytes :: "text_chunk list \<Rightarrow> byte list" where
  "stream_bytes cs = concat (map chunk_bytes cs)"

lemma push_chunks_inv:
  "retainer_inv bs r \<Longrightarrow> retainer_inv (bs @ stream_bytes cs) (push_chunks r cs)
     \<and> tr_prefix_cap (push_chunks r cs) = tr_prefix_cap r \<and> tr_suffix_cap (push_chunks r cs) = tr_suffix_cap r"
proof (induction cs arbitrary: bs r)
  case (Cons c cs)
  from Cons.IH [OF text_push_inv(1) [OF Cons.prems, of c]] text_push_inv(2,3) [OF Cons.prems, of c]
  show ?case by (simp add: push_chunks_def stream_bytes_def)
qed (simp add: push_chunks_def stream_bytes_def)

lemma started_inv: "retainer_inv [] (text_retainer_of p s)"
  by (simp add: retainer_inv_def text_retainer_of_def last_bytes_def)

end
