(* ===== verification/Retention_Laws.thy ===== *)
theory Retention_Laws
  imports Output_Retention
begin

text \<open>
  What the retainers promise: bounded memory, exact counts, and a text that is a whole-character prefix and
  suffix of the stream however its bytes were chunked.
\<close>

section \<open>Lead and continuation bytes\<close>

lemma continuation_table: "list_all (\<lambda>n. continuation (byte_of n) = (128 \<le> n \<and> n < 192)) [0..<256]"
  by code_simp

lemma continuation_byte: "n < 256 \<Longrightarrow> continuation (byte_of n) = (128 \<le> n \<and> n < 192)"
  using continuation_table by (simp add: list_all_iff del: upt_conv_Cons)

lemma lead_length_byte: "n < 256 \<Longrightarrow> lead_length (byte_of n) = (if n < 128 then 1 else if n < 224 then 2 else if n < 240 then 3 else if n < 248 then 4 else 0)"
  by (simp add: lead_length_def word_less_nat_alt)

text \<open>An encoded character is a lead byte and the continuation bytes it announces.\<close>

lemma encode_char_shape:
  assumes "scalar c"
  obtains b bs where "encode_char c = b # bs" "\<not> continuation b" "list_all continuation bs" "lead_length b = Suc (length bs)" "length bs \<le> 3"
proof -
  have m: "c mod 64 < 64" "c div 64 mod 64 < 64" "c div 4096 mod 64 < 64" by simp_all
  consider "c < 0x80" | "0x80 \<le> c" "c < 0x800" | "0x800 \<le> c" "c < 0x10000" | "0x10000 \<le> c" "c < 0x110000"
    using scalar_bound [OF assms] by linarith
  then show thesis
  proof cases
    case 1
    then show thesis using that [of "byte_of c" "[]"] by (simp add: encode_char_def continuation_byte lead_length_byte)
  next
    case 2
    define q where "q = c div 64"
    have "q < 32" using 2 by (auto simp: q_def)
    then show thesis using 2 m that [of "byte_of (0xC0 + q)" "[byte_of (0x80 + c mod 64)]"]
      by (simp add: encode_char_def continuation_byte lead_length_byte q_def)
  next
    case 3
    define q where "q = c div 4096"
    have "q < 16" using 3 by (auto simp: q_def)
    then show thesis using 3 m that [of "byte_of (0xE0 + q)" "[byte_of (0x80 + c div 64 mod 64), byte_of (0x80 + c mod 64)]"]
      by (simp add: encode_char_def continuation_byte lead_length_byte q_def)
  next
    case 4
    define q where "q = c div 262144"
    have "q < 8" using 4 by (auto simp: q_def)
    then show thesis
      using 4 m that [of "byte_of (0xF0 + q)" "[byte_of (0x80 + c div 4096 mod 64), byte_of (0x80 + c div 64 mod 64), byte_of (0x80 + c mod 64)]"]
      by (simp add: encode_char_def continuation_byte lead_length_byte q_def)
  qed
qed

lemma utf8_encode_simps [simp]:
  "utf8_encode [] = []" "utf8_encode (c # cs) = encode_char c @ utf8_encode cs" "utf8_encode (cs @ ds) = utf8_encode cs @ utf8_encode ds"
  by (simp_all add: utf8_encode_def)

lemma encode_char_nonempty [simp]: "encode_char c \<noteq> []"
  by (simp add: encode_char_def)

section \<open>The cuts\<close>

lemma scan_back_run:
  assumes "\<not> continuation b" "list_all continuation bs" "length bs \<le> 3"
  shows "j \<le> length bs \<Longrightarrow> j < f \<Longrightarrow> scan_back (pre @ b # bs) f (int (length pre + j)) = int (length pre)"
proof (induction j arbitrary: f)
  case 0
  then obtain f' where "f = Suc f'" by (cases f) auto
  then show ?case using assms(1) by (simp add: nth_append)
next
  case (Suc j)
  then obtain f' where f: "f = Suc f'" by (cases f) auto
  let ?i = "int (length pre + Suc j)"
  have "continuation ((pre @ b # bs) ! nat ?i)"
    using assms(2) Suc.prems(1) by (simp only: nat_int) (simp add: nth_append list_all_length)
  moreover have "int (length (pre @ b # bs)) - ?i \<le> 3" using assms(3) by simp
  ultimately have "?i \<ge> 0 \<and> continuation ((pre @ b # bs) ! nat ?i) \<and> int (length (pre @ b # bs)) - ?i \<le> 3" by simp
  then have "scan_back (pre @ b # bs) f ?i = scan_back (pre @ b # bs) f' (?i - 1)"
    unfolding f scan_back.simps by (rule if_P)
  moreover have "?i - 1 = int (length pre + j)" by simp
  ultimately have "scan_back (pre @ b # bs) f ?i = scan_back (pre @ b # bs) f' (int (length pre + j))" by (simp only:)
  then show ?case using Suc.IH [of f'] Suc.prems f by simp
qed

lemma trim_trailing_run:
  assumes "\<not> continuation b" "list_all continuation bs" "length bs \<le> 3" "lead_length b \<noteq> 0"
  shows "trimTrailingPartialUtf8 (pre @ b # bs) = (if Suc (length bs) < lead_length b then pre else pre @ b # bs)"
proof -
  have "int (length (pre @ b # bs)) - 1 = int (length pre + length bs)" by simp
  then have "scan_back (pre @ b # bs) 4 (int (length (pre @ b # bs)) - 1) = int (length pre)"
    using scan_back_run [OF assms(1-3), of "length bs" 4 pre] assms(3) by simp
  then show ?thesis using assms(4) by (simp add: trimTrailingPartialUtf8_def)
qed

lemma trim_whole:
  assumes "list_all scalar cs"
  shows "trimTrailingPartialUtf8 (utf8_encode cs) = utf8_encode cs" "dropWhile continuation (utf8_encode cs) = utf8_encode cs"
proof -
  show "trimTrailingPartialUtf8 (utf8_encode cs) = utf8_encode cs"
  proof (cases cs rule: rev_cases)
    case Nil
    then show ?thesis by (simp add: trimTrailingPartialUtf8_def numeral_eq_Suc)
  next
    case (snoc ds c)
    then have "scalar c" using assms by simp
    then obtain b bs where "encode_char c = b # bs" "\<not> continuation b" "list_all continuation bs" "lead_length b = Suc (length bs)" "length bs \<le> 3"
      by (rule encode_char_shape)
    then show ?thesis using snoc by (simp add: trim_trailing_run)
  qed
  show "dropWhile continuation (utf8_encode cs) = utf8_encode cs"
  proof (cases cs)
    case (Cons c ds)
    then have "scalar c" using assms by simp
    then obtain b bs where "encode_char c = b # bs" "\<not> continuation b" by (rule encode_char_shape)
    then show ?thesis using Cons by simp
  qed simp
qed

text \<open>A byte position falls in one character: the whole ones before it and the rest of the one it cuts.\<close>

lemma cut_position:
  assumes "list_all scalar cs" "n < length (utf8_encode cs)"
  obtains i k where "i < length cs" "k < length (encode_char (cs ! i))" "n = length (utf8_encode (take i cs)) + k"
    "take n (utf8_encode cs) = utf8_encode (take i cs) @ take k (encode_char (cs ! i))"
    "drop n (utf8_encode cs) = drop k (encode_char (cs ! i)) @ utf8_encode (drop (Suc i) cs)"
  using assms
proof (induction cs arbitrary: n thesis)
  case (Cons c cs)
  show thesis
  proof (cases "n < length (encode_char c)")
    case True
    then show thesis using Cons.prems(1) [of 0 n] by simp
  next
    case False
    define m where "m = n - length (encode_char c)"
    have m: "n = length (encode_char c) + m" "m < length (utf8_encode cs)" using False Cons.prems(3) by (auto simp: m_def)
    obtain i k where "i < length cs" "k < length (encode_char (cs ! i))" "m = length (utf8_encode (take i cs)) + k"
      "take m (utf8_encode cs) = utf8_encode (take i cs) @ take k (encode_char (cs ! i))"
      "drop m (utf8_encode cs) = drop k (encode_char (cs ! i)) @ utf8_encode (drop (Suc i) cs)"
      using Cons.IH [OF _ _ m(2)] Cons.prems(2) by auto
    then show thesis using Cons.prems(1) [of "Suc i" k] m(1) by simp
  qed
qed simp

lemma prefix_cut:
  assumes "list_all scalar cs" "n < length (utf8_encode cs)"
  obtains i where "i < length cs" "trimTrailingPartialUtf8 (take n (utf8_encode cs)) = utf8_encode (take i cs)"
    "length (utf8_encode (take i cs)) \<le> n" "n < length (utf8_encode (take (Suc i) cs))"
proof -
  obtain i k where c: "i < length cs" "k < length (encode_char (cs ! i))" "n = length (utf8_encode (take i cs)) + k"
    "take n (utf8_encode cs) = utf8_encode (take i cs) @ take k (encode_char (cs ! i))"
    using assms by (rule cut_position)
  have s: "scalar (cs ! i)" "list_all scalar (take i cs)" using assms(1) c(1) by (auto simp: list_all_length)
  have "trimTrailingPartialUtf8 (take n (utf8_encode cs)) = utf8_encode (take i cs)"
  proof (cases k)
    case 0
    then show ?thesis using trim_whole(1) [OF s(2)] by (simp add: c(4))
  next
    case (Suc m)
    obtain b bs where b: "encode_char (cs ! i) = b # bs" "\<not> continuation b" "list_all continuation bs" "lead_length b = Suc (length bs)" "length bs \<le> 3"
      using s(1) by (rule encode_char_shape)
    have "list_all continuation (take m bs)" using b(3) by (simp add: list_all_length)
    then show ?thesis using b c(2) Suc by (simp add: c(4) trim_trailing_run)
  qed
  moreover have "n < length (utf8_encode (take (Suc i) cs))" using c(1-3) by (simp add: take_Suc_conv_app_nth)
  ultimately show thesis using that [OF c(1)] c(3) by simp
qed

lemma suffix_cut:
  assumes "list_all scalar cs" "0 < n" "n \<le> length (utf8_encode cs)"
  obtains j where "0 < j" "j \<le> length cs" "dropWhile continuation (drop n (utf8_encode cs)) = utf8_encode (drop j cs)"
    "n \<le> length (utf8_encode (take j cs))" "length (utf8_encode (take (j - 1) cs)) < n"
proof (cases "n = length (utf8_encode cs)")
  case True
  then obtain ds c where "cs = ds @ [c]" using assms(2) by (cases cs rule: rev_cases) auto
  then show thesis using True that [of "length cs"] by simp
next
  case False
  then have "n < length (utf8_encode cs)" using assms(3) by simp
  with assms(1) obtain i k where c: "i < length cs" "k < length (encode_char (cs ! i))" "n = length (utf8_encode (take i cs)) + k"
    "drop n (utf8_encode cs) = drop k (encode_char (cs ! i)) @ utf8_encode (drop (Suc i) cs)"
    by (rule cut_position)
  have s: "scalar (cs ! i)" "list_all scalar (drop m cs)" for m using assms(1) c(1) by (auto simp: list_all_length)
  obtain b bs where b: "encode_char (cs ! i) = b # bs" "\<not> continuation b" "list_all continuation bs" using s(1) by (rule encode_char_shape)
  show thesis
  proof (cases k)
    case 0
    then have "drop n (utf8_encode cs) = utf8_encode (drop i cs)" using c(1,4) by (simp add: Cons_nth_drop_Suc [symmetric])
    moreover have i: "0 < i" using c(3) 0 assms(2) by (cases i) auto
    moreover have "take i cs = take (i - 1) cs @ [cs ! (i - 1)]" using i c(1) by (metis Suc_diff_1 less_imp_diff_less take_Suc_conv_app_nth)
    then have "length (utf8_encode (take (i - 1) cs)) < length (utf8_encode (take i cs))" by simp
    ultimately show thesis using that [of i] trim_whole(2) [OF s(2)] c(1,3) 0 by simp
  next
    case (Suc m)
    have "list_all continuation (drop m bs)" using b(3) by (simp add: list_all_length)
    then have "dropWhile continuation (drop n (utf8_encode cs)) = dropWhile continuation (utf8_encode (drop (Suc i) cs))"
      by (simp add: c(4) b(1) Suc list_all_iff)
    moreover have "n \<le> length (utf8_encode (take (Suc i) cs))" using c(1-3) by (simp add: take_Suc_conv_app_nth)
    ultimately show thesis using that [of "Suc i"] trim_whole(2) [OF s(2)] c(1,3) Suc by simp
  qed
qed

section \<open>The retained text\<close>

text \<open>
  Claim C33. The text retainer works in bounded memory and loses nothing it could keep: after any chunks, raw
  or string, it holds exactly the first \<open>prefixCap\<close> and the last \<open>suffixCap\<close> bytes of the stream, its counters
  are right, and its decision on each further chunk says truthfully whether a byte was dropped.
\<close>

theorem retainer_window:
  "let r = push_chunks (text_retainer_of p s) chunks; bs = stream_bytes chunks in
     concat (tr_prefix r) = take p bs \<and> concat (tr_suffix r) = (if s = 0 then [] else last_bytes s bs)
     \<and> tr_prefix_held r + tr_suffix_held r \<le> p + s \<and> tr_total r = length bs
     \<and> omittedAt r (tr_total r) = length bs - (p + s)
     \<and> snd (text_push r c) = \<lparr>pd_kept = (max (p + s) (length bs + length (chunk_bytes c)) = max (p + s) (length bs)),
          pd_truncated = (p + s < length bs + length (chunk_bytes c))\<rparr>"
proof -
  let ?r = "push_chunks (text_retainer_of p s) chunks" and ?bs = "stream_bytes chunks"
  have i: "retainer_inv ?bs ?r" "tr_prefix_cap ?r = p" "tr_suffix_cap ?r = s"
    using push_chunks_inv [OF started_inv [of p s], of chunks] by (simp_all add: text_retainer_of_def)
  have om: "omittedAt q n = n - (p + s)" if "tr_prefix_cap q = p" "tr_suffix_cap q = s" for q n
    using that by (auto simp: omittedAt_def Let_def min_def)
  have "snd (text_push ?r c) = \<lparr>pd_kept = (max (p + s) (length ?bs + length (chunk_bytes c)) = max (p + s) (length ?bs)),
          pd_truncated = (p + s < length ?bs + length (chunk_bytes c))\<rparr>"
    using i by (auto simp: text_push_def Let_def om retainer_inv_def)
  moreover have "tr_prefix_held ?r + tr_suffix_held ?r \<le> p + s" using i by (simp add: retainer_inv_def add_mono)
  ultimately show ?thesis using i om by (simp add: Let_def retainer_inv_def)
qed

lemma budget_halves:
  assumes "retainer_inv bs r" "tr_prefix_cap r = p" "tr_suffix_cap r = s"
  shows "kept_halves r = (if length bs > p + s then (trimTrailingPartialUtf8 (take p bs), dropWhile continuation (last_bytes s bs))
     else (take p bs, drop p bs))"
proof -
  have om: "omittedAt r (length bs) = length bs - (p + s)" using assms by (auto simp: omittedAt_def Let_def min_def)
  have suffix: "drop (tr_suffix_held r - min (length bs - min (length bs) p) s) (concat (tr_suffix r))
      = (if length bs > p + s then last_bytes s bs else drop p bs)"
    using assms by (auto simp: retainer_inv_def last_bytes_def min_def)
  have prefix: "concat (tr_prefix r) = take p bs" "tr_total r = length bs" using assms by (simp_all add: retainer_inv_def)
  show ?thesis
    unfolding kept_halves_def Let_def prefix assms(2,3) suffix om by (simp add: trimLeadingContinuationUtf8_def)
qed

lemma length_encode_mono: "i \<le> j \<Longrightarrow> length (utf8_encode (take i cs)) \<le> length (utf8_encode (take j cs))"
proof -
  assume "i \<le> j"
  then have "take j cs = take i cs @ take (j - i) (drop i cs)" by (metis le_add_diff_inverse take_add)
  then show ?thesis by simp
qed

text \<open>
  The two halves of the result as the platform decoder gives them: it drops a byte order mark that begins
  a decoded side.
\<close>

lemma retained_text_halves:
  assumes "list_all scalar cs" "stream_bytes chunks = utf8_encode cs"
  shows "\<exists>i j. i \<le> j \<and> j \<le> length cs
    \<and> text_finish (push_chunks (text_retainer_of p s) chunks) =
        \<lparr>rt_text = strip_bom (take i cs) @ strip_bom (drop j cs), rt_truncated = (i < j),
         rt_omitted = exact_or_none (length (utf8_encode (take (j - i) (drop i cs))))\<rparr>
    \<and> (i < j \<longrightarrow> length (utf8_encode (take i cs)) \<le> p \<and> p < length (utf8_encode (take (Suc i) cs))
         \<and> length (utf8_encode (drop j cs)) \<le> s \<and> s < length (utf8_encode (drop (j - 1) cs)))"
proof -
  let ?r = "push_chunks (text_retainer_of p s) chunks" and ?bs = "utf8_encode cs"
  have i: "retainer_inv ?bs ?r" "tr_prefix_cap ?r = p" "tr_suffix_cap ?r = s"
    using push_chunks_inv [OF started_inv [of p s], of chunks] assms(2) by (simp_all add: text_retainer_of_def)
  have om: "omittedAt ?r (tr_total ?r) = length ?bs - (p + s)" "tr_total ?r = length ?bs"
    using i by (auto simp: omittedAt_def Let_def min_def retainer_inv_def)
  note halves = budget_halves [OF i]
  show ?thesis
  proof (cases "length ?bs > p + s")
    case False
    then have "text_finish ?r = \<lparr>rt_text = strip_bom cs, rt_truncated = False, rt_omitted = Omitted_None\<rparr>"
      using om halves utf8_roundtrip [OF assms(1)] by (simp add: text_finish_def exact_or_none_def Let_def)
    then show ?thesis by (intro exI [of _ "length cs"]) (simp add: exact_or_none_def strip_bom_def)
  next
    case True
    then have pl: "p < length ?bs" by simp
    obtain a where a: "a < length cs" "trimTrailingPartialUtf8 (take p ?bs) = utf8_encode (take a cs)"
      "length (utf8_encode (take a cs)) \<le> p" "p < length (utf8_encode (take (Suc a) cs))"
      using prefix_cut [OF assms(1) pl] by blast
    have n: "0 < length ?bs - s" "length ?bs - s \<le> length ?bs" using True by auto
    obtain j where j: "0 < j" "j \<le> length cs" "dropWhile continuation (drop (length ?bs - s) ?bs) = utf8_encode (drop j cs)"
      "length ?bs - s \<le> length (utf8_encode (take j cs))" "length (utf8_encode (take (j - 1) cs)) < length ?bs - s"
      using suffix_cut [OF assms(1) n] by blast
    have whole: "length (utf8_encode (take k cs)) + length (utf8_encode (drop k cs)) = length ?bs" for k
      by (metis append_take_drop_id length_append utf8_encode_simps(3))
    have lt: "a < j"
    proof (rule ccontr)
      assume "\<not> a < j"
      then have "length (utf8_encode (take j cs)) \<le> length (utf8_encode (take a cs))" by (intro length_encode_mono) simp
      then show False using a(3) j(4) True by linarith
    qed
    have mid: "length ?bs - length (utf8_encode (take a cs)) - length (utf8_encode (drop j cs)) = length (utf8_encode (take (j - a) (drop a cs)))"
    proof -
      have "cs = take a cs @ take (j - a) (drop a cs) @ drop j cs"
        using lt by (metis append.assoc append_take_drop_id le_add_diff_inverse less_imp_le take_add)
      then have "length ?bs = length (utf8_encode (take a cs)) + length (utf8_encode (take (j - a) (drop a cs))) + length (utf8_encode (drop j cs))"
        by (metis add.assoc length_append utf8_encode_simps(3))
      then show ?thesis by simp
    qed
    have pos: "0 < length (utf8_encode (take (j - a) (drop a cs)))"
    proof -
      have "0 < j - a" "drop a cs \<noteq> []" using lt a(1) by simp_all
      then obtain x xs where "take (j - a) (drop a cs) = x # xs" by (cases "take (j - a) (drop a cs)") auto
      then show ?thesis by simp
    qed
    have less: "length (utf8_encode (take a cs)) + length (utf8_encode (drop j cs)) < length ?bs" using mid pos by linarith
    have "text_finish ?r = \<lparr>rt_text = strip_bom (take a cs) @ strip_bom (drop j cs), rt_truncated = True,
        rt_omitted = exact_or_none (length (utf8_encode (take (j - a) (drop a cs))))\<rparr>"
      using True om halves a(2) j(3) mid pos less assms(1)
      by (simp add: text_finish_def last_bytes_def Let_def utf8_roundtrip list_all_length)
    moreover have "length (utf8_encode (drop j cs)) \<le> s" "s < length (utf8_encode (drop (j - 1) cs))"
      using whole [of j] whole [of "j - 1"] j(4,5) True by linarith+
    ultimately show ?thesis using a j lt by (intro exI [of _ a] exI [of _ j]) simp
  qed
qed

text \<open>Two-byte characters cut by both caps, in chunks that split them.\<close>

definition sample_text :: "nat list" where
  "sample_text = [0x61, 0xE9, 0xE9, 0x62, 0xE9, 0x63]"

definition sample_pieces :: "text_chunk list" where
  "sample_pieces = [Raw_Bytes (take 2 (utf8_encode sample_text)), Chars [], Raw_Bytes (drop 2 (utf8_encode sample_text))]"

lemma sample_pieces_stream: "list_all scalar sample_text" "stream_bytes sample_pieces = utf8_encode sample_text"
  by (simp add: sample_text_def scalar_def) (simp add: stream_bytes_def sample_pieces_def del: utf8_encode_simps(2,3))

lemma strip_bom_absent: "0xFEFF \<notin> set cs \<Longrightarrow> strip_bom cs = cs"
  by (cases cs) (auto simp: strip_bom_def)

lemma encode_gap:
  assumes "i \<le> j"
  shows "length (utf8_encode (take (j - i) (drop i cs))) = length (utf8_encode cs) - length (utf8_encode (take i cs @ drop j cs))"
proof -
  have "cs = take i cs @ take (j - i) (drop i cs) @ drop j cs"
    using assms by (metis append_take_drop_id le_add_diff_inverse take_add append.assoc)
  then have "length (utf8_encode cs) = length (utf8_encode (take i cs)) + length (utf8_encode (take (j - i) (drop i cs))) + length (utf8_encode (drop j cs))"
    by (metis add.assoc length_append utf8_encode_simps(3))
  then show ?thesis by simp
qed

text \<open>
  Claim C34. Truncated output is whole characters with an honest count: when the pushed chunks are the UTF-8
  bytes of a text without a byte order mark, cut into pieces anywhere, the result is the text's first \<open>i\<close>
  characters followed by its last ones from \<open>j\<close> on, each side as many whole characters as fit its cap, with
  no replacement character introduced, and the reported omission is exactly the bytes of the stream that
  are absent from the returned text.
\<close>

theorem retained_text_exact:
  assumes "list_all scalar cs" "0xFEFF \<notin> set cs" "stream_bytes chunks = utf8_encode cs"
  shows "\<exists>i j. i \<le> j \<and> j \<le> length cs
    \<and> text_finish (push_chunks (text_retainer_of p s) chunks) =
        \<lparr>rt_text = take i cs @ drop j cs, rt_truncated = (i < j),
         rt_omitted = exact_or_none (length (stream_bytes chunks) - length (utf8_encode (take i cs @ drop j cs)))\<rparr>
    \<and> (i < j \<longrightarrow> length (utf8_encode (take i cs)) \<le> p \<and> p < length (utf8_encode (take (Suc i) cs))
         \<and> length (utf8_encode (drop j cs)) \<le> s \<and> s < length (utf8_encode (drop (j - 1) cs)))"
proof -
  have "strip_bom (take i cs) = take i cs" "strip_bom (drop i cs) = drop i cs" for i
    using assms(2) by (auto intro!: strip_bom_absent dest: in_set_takeD in_set_dropD)
  then show ?thesis using retained_text_halves [OF assms(1,3), of p s] encode_gap [of _ _ cs] assms(3) by (metis (lifting))
qed

theorem retained_text_exact_witness:
  "\<exists>i j. i \<le> j \<and> j \<le> length sample_text \<and> text_finish (push_chunks (text_retainer_of 2 2) sample_pieces) =
        \<lparr>rt_text = take i sample_text @ drop j sample_text, rt_truncated = (i < j), rt_omitted = exact_or_none
           (length (stream_bytes sample_pieces) - length (utf8_encode (take i sample_text @ drop j sample_text)))\<rparr>"
proof -
  have "0xFEFF \<notin> set sample_text" by (simp add: sample_text_def)
  from retained_text_exact [OF sample_pieces_stream(1) this sample_pieces_stream(2), of 2 2] show ?thesis by blast
qed

text \<open>
  The byte order mark is a real exception: when a tail of four bytes keeps a mark and the letter after
  it, the decoder drops the mark, and the reported omission counts
  two of the five bytes that are absent from the text.
\<close>

definition bom_text :: "nat list" where
  "bom_text = [0x61, 0x62, 0xFEFF, 0x63]"

lemma bom_bytes:
  "utf8_encode bom_text = [0x61, 0x62, 0xEF, 0xBB, 0xBF, 0x63]" "utf8_encode [0xFEFF, 0x63] = [0xEF, 0xBB, 0xBF, 0x63]"
  by (simp_all add: bom_text_def utf8_encode_def encode_char_def byte_of_def)

lemma bom_lost_uncounted:
  "text_finish (push_chunks (text_retainer_of 0 4) [Raw_Bytes (utf8_encode bom_text)])
     = \<lparr>rt_text = [0x63], rt_truncated = True, rt_omitted = Omitted_Exact 2\<rparr>"
  "length (utf8_encode bom_text) - length (utf8_encode [0x63]) = 5"
proof -
  have d: "utf8_decode [0xEF, 0xBB, 0xBF, 0x63] = [0x63]"
    using utf8_roundtrip [of "[0xFEFF, 0x63]"] unfolding bom_bytes by (simp add: strip_bom_def scalar_def)
  let ?bs = "[0x61, 0x62, 0xEF, 0xBB, 0xBF, 0x63] :: byte list"
  let ?r = "push_chunks (text_retainer_of 0 4) [Raw_Bytes ?bs]"
  have i: "retainer_inv ?bs ?r" "tr_prefix_cap ?r = 0" "tr_suffix_cap ?r = 4"
    using push_chunks_inv [OF started_inv [of 0 4], of "[Raw_Bytes ?bs]"]
    by (simp_all add: text_retainer_of_def stream_bytes_def)
  have "dropWhile continuation (last_bytes 4 ?bs) = [0xEF, 0xBB, 0xBF, 0x63]"
    by (simp add: last_bytes_def continuation_def)
  moreover have "trimTrailingPartialUtf8 [] = []" by (simp add: trimTrailingPartialUtf8_def Let_def)
  ultimately have "kept_halves ?r = ([], [0xEF, 0xBB, 0xBF, 0x63])" using budget_halves [OF i] by simp
  moreover have "tr_total ?r = 6" "omittedAt ?r 6 = 2" using i by (simp_all add: retainer_inv_def omittedAt_def)
  ultimately show "text_finish (push_chunks (text_retainer_of 0 4) [Raw_Bytes (utf8_encode bom_text)])
     = \<lparr>rt_text = [0x63], rt_truncated = True, rt_omitted = Omitted_Exact 2\<rparr>"
    unfolding bom_bytes by (simp add: text_finish_def d exact_or_none_def) (simp add: utf8_decode_def strip_bom_def)
  show "length (utf8_encode bom_text) - length (utf8_encode [0x63]) = 5"
    by (simp add: bom_text_def utf8_encode_def encode_char_def)
qed

section \<open>Items\<close>

definition item_pushes :: "'a item_retainer \<Rightarrow> 'a list \<Rightarrow> 'a item_retainer" where
  "item_pushes r xs = foldl (\<lambda>r x. fst (item_push r x)) r xs"

lemma item_pushes_state:
  "length (ir_items r) \<le> ir_max r \<Longrightarrow> ir_seen r = length (ir_items r) + ir_omitted r \<Longrightarrow> (ir_omitted r > 0 \<longrightarrow> length (ir_items r) = ir_max r) \<Longrightarrow>
     ir_items (item_pushes r xs) = ir_items r @ take (ir_max r - length (ir_items r)) xs
     \<and> ir_omitted (item_pushes r xs) = ir_omitted r + (length xs - (ir_max r - length (ir_items r)))
     \<and> ir_seen (item_pushes r xs) = ir_seen r + length xs"
proof (induction xs arbitrary: r)
  case (Cons x xs)
  have "item_pushes r (x # xs) = item_pushes (fst (item_push r x)) xs" by (simp add: item_pushes_def)
  then show ?case using Cons.prems Cons.IH [of "fst (item_push r x)"]
    by (cases "length (ir_items r) < ir_max r") (auto simp: item_push_def Let_def take_Cons')
qed (simp add: item_pushes_def)

text \<open>The item retainer keeps the first units and counts the rest exactly.\<close>

lemma item_retainer_exact:
  "new_item_retainer n = Inr r \<Longrightarrow> item_finish (item_pushes r xs) = \<lparr>ri_items = take (ir_max r) xs, ri_truncated = (ir_max r < length xs),
     ri_seen = length xs, ri_kept = min (length xs) (ir_max r), ri_omitted = exact_or_none (length xs - ir_max r)\<rparr>"
  using item_pushes_state [of r xs] by (auto simp: new_item_retainer_def rbind_eq_Inr item_finish_def)

end
