(* ===== verification/Turn_Usage.thy ===== *)
theory Turn_Usage
  imports Assistant_Stream
begin

text \<open>
  Exact token accounting of one turn (\<open>packages/llm/token-meter/src/turn-usage.ts\<close>) and the running
  token-usage projection (\<open>usage-projection.ts\<close>). The log is read through the events both of them look at;
  usage reports are JSON payloads, streams are the durable records of theory Assistant-Stream. The
  specification is the grammar of an attempt lifecycle: a turn is a list of steps, a step a list of retried
  attempts and how it ended.
\<close>

section \<open>Events\<close>

text \<open>Turn and step numbers, then the payload: usage reported on the message, its stream, and its route.\<close>

type_synonym route = "string \<times> string"

datatype meter_event =
    Turn_Start nat
  | Turn_End nat
  | Step_Start nat nat
  | Step_End nat nat
  | Assistant_Attempt nat nat "stream_record list"
  | Assistant_Reply nat nat "json option" "stream_record list" route
  | Llm_Retry nat nat
  | Retry_Started nat nat
  | Unmetered_Event

definition streamUsage :: "stream_record list \<Rightarrow> json option" where
  "streamUsage stream = (case lastAssistantStreamChunk stream Raw_Usage of Some (Usage_Chunk u) \<Rightarrow> Some u | _ \<Rightarrow> None)"

section \<open>One attempt's usage\<close>

record attempt =
  at_input :: int
  at_output :: int
  at_total :: int
  at_cache_read :: "int option"
  at_cache_write :: "int option"
  at_reasoning :: "int option"
  at_route :: "route option"

definition isCount :: "json \<Rightarrow> bool" where
  "isCount v = (case v of JNum n \<Rightarrow> isSafeInteger v \<and> 0 \<le> jnum_int n | _ \<Rightarrow> False)"

text \<open>A field that is a count, and a field that is absent or a count.\<close>

definition count_field :: "json \<Rightarrow> string \<Rightarrow> int option" where
  "count_field u k = (case jget u k of Some (JNum n) \<Rightarrow> if isCount (JNum n) then Some (jnum_int n) else None | _ \<Rightarrow> None)"

definition optional_count :: "json \<Rightarrow> string \<Rightarrow> bool" where
  "optional_count u k = (case jget u k of None \<Rightarrow> True | Some v \<Rightarrow> isCount v)"

fun safe_total :: "int \<Rightarrow> int list \<Rightarrow> int option" where
  "safe_total acc [] = Some acc"
| "safe_total acc (v # vs) = (if \<bar>acc + v\<bar> \<le> MAX_SAFE_INTEGER then safe_total (acc + v) vs else None)"

definition safeSum :: "int list \<Rightarrow> int option" where
  "safeSum vs = safe_total 0 vs"

definition messageRoute :: "route \<Rightarrow> route option" where
  "messageRoute r = (if fst r \<noteq> [] \<and> snd r \<noteq> [] then Some r else None)"

fun opt_list :: "'a option \<Rightarrow> 'a list" where
  "opt_list None = []"
| "opt_list (Some x) = [x]"

text \<open>The exact total of a report: its own total when consistent, otherwise the sum of complete buckets.\<close>

definition exact_total :: "json \<Rightarrow> int \<Rightarrow> int \<Rightarrow> int option" where
  "exact_total u known out =
     (let complete = (count_field u ''cacheReadTokens'' \<noteq> None \<and> count_field u ''cacheWriteTokens'' \<noteq> None) in
      case jget u ''totalTokens'' of
        Some _ \<Rightarrow> (case count_field u ''totalTokens'' of
            None \<Rightarrow> None
          | Some t \<Rightarrow>
              if \<not> isCount (jint (t - out)) \<or> t - out < known then None
              else if complete \<and> t - out \<noteq> known then None
              else Some t)
      | None \<Rightarrow> if complete then safeSum [known, out] else None)"

definition normalizeUsage :: "json \<Rightarrow> route option \<Rightarrow> attempt option" where
  "normalizeUsage u r =
     (case (count_field u ''inputTokens'', count_field u ''outputTokens'') of
        (Some inp, Some out) \<Rightarrow>
          if \<not> optional_count u ''cacheReadTokens'' \<or> \<not> optional_count u ''cacheWriteTokens'' then None
          else if \<not> optional_count u ''reasoningTokens''
              \<or> (case count_field u ''reasoningTokens'' of Some n \<Rightarrow> n > out | None \<Rightarrow> False) then None
          else (case safeSum (inp # opt_list (count_field u ''cacheReadTokens'') @ opt_list (count_field u ''cacheWriteTokens'')) of
              None \<Rightarrow> None
            | Some known \<Rightarrow> (case exact_total u known out of
                None \<Rightarrow> None
              | Some t \<Rightarrow> Some \<lparr>at_input = inp, at_output = out, at_total = t,
                  at_cache_read = count_field u ''cacheReadTokens'', at_cache_write = count_field u ''cacheWriteTokens'',
                  at_reasoning = count_field u ''reasoningTokens'', at_route = r\<rparr>))
      | _ \<Rightarrow> None)"

section \<open>The turn's usage\<close>

record turn_usage =
  tu_input :: int
  tu_output :: int
  tu_total :: int
  tu_cache_read :: "int option"
  tu_cache_write :: "int option"
  tu_reasoning :: "int option"
  tu_routes :: "route list option"

text \<open>A bucket of the aggregate: the safe sum when every attempt reported it.\<close>

definition bucket_sum :: "(attempt \<Rightarrow> int option) \<Rightarrow> attempt list \<Rightarrow> int option" where
  "bucket_sum f as = (if list_all (\<lambda>a. f a \<noteq> None) as then safeSum (map (the \<circ> f) as) else None)"

definition route_key :: "route \<Rightarrow> string" where
  "route_key r = fst r @ [char_of (0::nat)] @ snd r"

definition unique_routes :: "route list \<Rightarrow> route list" where
  "unique_routes rs = map snd (fold (\<lambda>r m. amap_set m (route_key r) r) rs [])"

definition aggregateAttempts :: "attempt list \<Rightarrow> turn_usage option" where
  "aggregateAttempts as =
     (if as = [] then None
      else case (safeSum (map at_input as), safeSum (map at_output as), safeSum (map at_total as)) of
        (Some i, Some out, Some t) \<Rightarrow> Some \<lparr>tu_input = i, tu_output = out, tu_total = t,
           tu_cache_read = bucket_sum at_cache_read as, tu_cache_write = bucket_sum at_cache_write as,
           tu_reasoning = bucket_sum at_reasoning as,
           tu_routes = (if list_all (\<lambda>a. at_route a \<noteq> None) as then Some (unique_routes (map (the \<circ> at_route) as)) else None)\<rparr>
      | _ \<Rightarrow> None)"

section \<open>The attempt lifecycle\<close>

datatype settled_by = By_Message | By_Retry

datatype attempt_state =
    Idle
  | Open nat nat "json option"
  | Finish_Closed nat nat
  | Settled nat nat settled_by

record usage_state =
  us_state :: attempt_state
  us_attempts :: "attempt list"
  us_turn :: "nat option"
  us_saw_end :: bool

definition usage_start :: usage_state where
  "usage_start = \<lparr>us_state = Idle, us_attempts = [], us_turn = None, us_saw_end = False\<rparr>"

text \<open>A step's verdict: the next state, or the flag \<open>invalid\<close>, after which nothing more is read.\<close>

type_synonym usage_step = "(unit, usage_state) res"

text \<open>\<open>closeOpen\<close>\<close>

definition closeOpen :: "route option \<Rightarrow> usage_state \<Rightarrow> usage_step" where
  "closeOpen r s = (case us_state s of
     Open t p (Some u) \<Rightarrow> (case normalizeUsage u r of
         None \<Rightarrow> Inl () | Some a \<Rightarrow> Inr (s\<lparr>us_attempts := us_attempts s @ [a]\<rparr>))
   | _ \<Rightarrow> Inl ())"

fun sameAttempt :: "attempt_state \<Rightarrow> nat \<Rightarrow> nat \<Rightarrow> bool" where
  "sameAttempt Idle t p = False"
| "sameAttempt (Open t' p' u) t p = (t' = t \<and> p' = p)"
| "sameAttempt (Finish_Closed t' p') t p = (t' = t \<and> p' = p)"
| "sameAttempt (Settled t' p' b) t p = (t' = t \<and> p' = p)"

fun is_open :: "attempt_state \<Rightarrow> bool" where
  "is_open (Open t p u) = True"
| "is_open _ = False"

fun is_settled :: "attempt_state \<Rightarrow> bool" where
  "is_settled (Settled t p b) = True"
| "is_settled _ = False"

fun open_sample :: "attempt_state \<Rightarrow> json option" where
  "open_sample (Open t p u) = u"
| "open_sample _ = None"

text \<open>One event of an open turn \<open>turn\<close>, the turn's own boundaries aside.\<close>

fun turn_event :: "nat \<Rightarrow> usage_state \<Rightarrow> meter_event \<Rightarrow> usage_step" where
  "turn_event turn s (Step_Start t p) =
     (if t \<noteq> turn \<or> us_state s \<noteq> Idle then Inl () else Inr (s\<lparr>us_state := Open turn p None\<rparr>))"
| "turn_event turn s (Retry_Started t p) =
     (if t = turn \<and> us_state s = Settled t p By_Retry then Inr (s\<lparr>us_state := Open turn p None\<rparr>) else Inl ())"
| "turn_event turn s (Assistant_Attempt t p stream) =
     (if t \<noteq> turn \<or> \<not> is_open (us_state s) \<or> \<not> sameAttempt (us_state s) t p then Inl ()
      else let sample = (case streamUsage stream of Some u \<Rightarrow> Some u | None \<Rightarrow> open_sample (us_state s)) in
        rbind (closeOpen None (s\<lparr>us_state := Open turn p sample\<rparr>)) (\<lambda>s'. Inr (s'\<lparr>us_state := Finish_Closed turn p\<rparr>)))"
| "turn_event turn s (Assistant_Reply t p reported stream r) =
     (if t \<noteq> turn \<or> \<not> is_open (us_state s) \<or> \<not> sameAttempt (us_state s) t p then Inl ()
      else let sample = (case reported of Some u \<Rightarrow> Some u | None \<Rightarrow> streamUsage stream);
               s1 = (if sample \<noteq> None then s\<lparr>us_state := Open t p sample\<rparr> else s) in
        rbind (closeOpen (messageRoute r) s1) (\<lambda>s'. Inr (s'\<lparr>us_state := Settled turn p By_Message\<rparr>)))"
| "turn_event turn s (Llm_Retry t p) =
     (if t \<noteq> turn \<or> \<not> sameAttempt (us_state s) t p \<or> is_settled (us_state s) then Inl ()
      else rbind (if is_open (us_state s) then closeOpen None s else Inr s) (\<lambda>s'. Inr (s'\<lparr>us_state := Settled turn p By_Retry\<rparr>)))"
| "turn_event turn s (Step_End t p) =
     (if t \<noteq> turn \<or> \<not> sameAttempt (us_state s) t p then Inl ()
      else rbind (if is_open (us_state s) then closeOpen None s else Inr s) (\<lambda>s'. Inr (s'\<lparr>us_state := Idle\<rparr>)))"
| "turn_event turn s _ = Inr s"

definition usage_event :: "usage_state \<Rightarrow> meter_event \<Rightarrow> usage_step" where
  "usage_event s e =
     (case e of
        Turn_Start t \<Rightarrow> if us_turn s \<noteq> None \<or> us_state s \<noteq> Idle then Inl () else Inr (s\<lparr>us_turn := Some t\<rparr>)
      | _ \<Rightarrow> (case us_turn s of
          None \<Rightarrow> Inl ()
        | Some turn \<Rightarrow> (case e of
            Turn_End t \<Rightarrow> if t \<noteq> turn \<or> us_state s \<noteq> Idle \<or> us_saw_end s then Inl () else Inr (s\<lparr>us_saw_end := True\<rparr>)
          | _ \<Rightarrow> if us_saw_end s then Inl () else turn_event turn s e)))"

definition deriveTurnTokenUsage :: "meter_event list \<Rightarrow> turn_usage option" where
  "deriveTurnTokenUsage es = (case fold_res usage_event usage_start es of
     Inl _ \<Rightarrow> None
   | Inr s \<Rightarrow> if \<not> us_saw_end s \<or> us_state s \<noteq> Idle then None else aggregateAttempts (us_attempts s))"

section \<open>The running projection\<close>

record buckets =
  bk_input :: rat
  bk_output :: rat
  bk_cache_read :: rat
  bk_cache_write :: rat

definition zeroBuckets :: buckets where
  "zeroBuckets = \<lparr>bk_input = 0, bk_output = 0, bk_cache_read = 0, bk_cache_write = 0\<rparr>"

fun jnum_rat :: "jnum \<Rightarrow> rat" where
  "jnum_rat (JInt i) = of_int i"
| "jnum_rat JNegZero = 0"
| "jnum_rat (JFrac q) = q"

text \<open>A numeric field, zero when absent (\<open>?? 0\<close>; the two first fields are always present).\<close>

definition number_field :: "json \<Rightarrow> string \<Rightarrow> rat" where
  "number_field u k = (case jget u k of Some (JNum n) \<Rightarrow> jnum_rat n | _ \<Rightarrow> 0)"

definition bucketsFrom :: "json \<Rightarrow> buckets" where
  "bucketsFrom u = \<lparr>bk_input = number_field u ''inputTokens'', bk_output = number_field u ''outputTokens'',
     bk_cache_read = number_field u ''cacheReadTokens'', bk_cache_write = number_field u ''cacheWriteTokens''\<rparr>"

definition addReplacing :: "buckets \<Rightarrow> buckets option \<Rightarrow> buckets \<Rightarrow> buckets" where
  "addReplacing totals previous next_sample =
     (let p = (case previous of Some b \<Rightarrow> b | None \<Rightarrow> zeroBuckets) in
      \<lparr>bk_input = bk_input totals - bk_input p + bk_input next_sample,
       bk_output = bk_output totals - bk_output p + bk_output next_sample,
       bk_cache_read = bk_cache_read totals - bk_cache_read p + bk_cache_read next_sample,
       bk_cache_write = bk_cache_write totals - bk_cache_write p + bk_cache_write next_sample\<rparr>)"

text \<open>\<open>usageOf\<close>: the report on the message, else the last one of the stream; with its attempt.\<close>

fun usageOf :: "meter_event \<Rightarrow> json option" where
  "usageOf (Assistant_Reply t p (Some u) stream r) = Some u"
| "usageOf (Assistant_Reply t p None stream r) = streamUsage stream"
| "usageOf (Assistant_Attempt t p stream) = streamUsage stream"
| "usageOf _ = None"

fun attempt_of :: "meter_event \<Rightarrow> nat \<times> nat" where
  "attempt_of (Assistant_Reply t p u stream r) = (t, p)"
| "attempt_of (Assistant_Attempt t p stream) = (t, p)"
| "attempt_of _ = (0, 0)"

record token_usage_state =
  tk_totals :: buckets
  tk_last :: "((nat \<times> nat) \<times> buckets) option"

definition token_usage_init :: token_usage_state where
  "token_usage_init = \<lparr>tk_totals = zeroBuckets, tk_last = None\<rparr>"

definition token_usage_sample :: "token_usage_state \<Rightarrow> nat \<times> nat \<Rightarrow> json \<Rightarrow> token_usage_state" where
  "token_usage_sample s k u =
     (let b = bucketsFrom u;
          previous = (case tk_last s of Some (k', b') \<Rightarrow> if k' = k then Some b' else None | None \<Rightarrow> None)
      in if previous = Some b then s else \<lparr>tk_totals = addReplacing (tk_totals s) previous b, tk_last = Some (k, b)\<rparr>)"

definition token_usage_apply :: "token_usage_state \<Rightarrow> meter_event \<Rightarrow> token_usage_state" where
  "token_usage_apply s e = (case e of
     Retry_Started t p \<Rightarrow> (case tk_last s of Some (k, b) \<Rightarrow> if k = (t, p) then s\<lparr>tk_last := None\<rparr> else s | None \<Rightarrow> s)
   | _ \<Rightarrow> (case usageOf e of None \<Rightarrow> s | Some u \<Rightarrow> token_usage_sample s (attempt_of e) u))"

definition tokenUsage :: "meter_event list \<Rightarrow> buckets" where
  "tokenUsage es = tk_totals (foldl token_usage_apply token_usage_init es)"

end
