(* ===== verification/Usage_Laws.thy ===== *)
theory Usage_Laws
  imports Turn_Usage
begin

text \<open>
  The turn accounting against its grammar, what the aggregate says about the attempts, and the agreement
  with the running projection (\<open>packages/llm/token-meter/src\<close>).
\<close>

section \<open>The grammar of a turn\<close>

text \<open>How a step ended: with a reply, with a failed attempt, or with a retry that was scheduled and dropped.\<close>

datatype step_end =
    Replied "json option" "stream_record list" route
  | Failed "stream_record list"
  | Gave_Up "stream_record list"

type_synonym step_log = "nat \<times> stream_record list list \<times> step_end"

definition retried :: "nat \<Rightarrow> nat \<Rightarrow> stream_record list \<Rightarrow> meter_event list" where
  "retried t p stream = [Assistant_Attempt t p stream, Llm_Retry t p, Retry_Started t p]"

fun ending :: "nat \<Rightarrow> nat \<Rightarrow> step_end \<Rightarrow> meter_event list" where
  "ending t p (Replied u stream r) = [Assistant_Reply t p u stream r]"
| "ending t p (Failed stream) = [Assistant_Attempt t p stream]"
| "ending t p (Gave_Up stream) = [Assistant_Attempt t p stream, Llm_Retry t p]"

fun step_events :: "nat \<Rightarrow> step_log \<Rightarrow> meter_event list" where
  "step_events t (p, streams, e) = Step_Start t p # concat (map (retried t p) streams) @ ending t p e @ [Step_End t p]"

definition turn_events :: "nat \<Rightarrow> step_log list \<Rightarrow> meter_event list" where
  "turn_events t steps = Turn_Start t # concat (map (step_events t) steps) @ [Turn_End t]"

text \<open>The usage each attempt reported, with the route of a reply.\<close>

type_synonym report = "json option \<times> route option"

fun end_report :: "step_end \<Rightarrow> report" where
  "end_report (Replied u stream r) = ((case u of Some v \<Rightarrow> Some v | None \<Rightarrow> streamUsage stream), messageRoute r)"
| "end_report (Failed stream) = (streamUsage stream, None)"
| "end_report (Gave_Up stream) = (streamUsage stream, None)"

fun step_reports :: "step_log \<Rightarrow> report list" where
  "step_reports (p, streams, e) = map (\<lambda>s. (streamUsage s, None)) streams @ [end_report e]"

definition turn_reports :: "step_log list \<Rightarrow> report list" where
  "turn_reports steps = concat (map step_reports steps)"

definition report_attempt :: "report \<Rightarrow> attempt option" where
  "report_attempt r = (case fst r of None \<Rightarrow> None | Some u \<Rightarrow> normalizeUsage u (snd r))"

definition attempts_of :: "report list \<Rightarrow> attempt list option" where
  "attempts_of rs = those (map report_attempt rs)"

lemma report_attempt_None [simp]: "report_attempt (None, r) = None"
  by (simp add: report_attempt_def)

lemma those_append: "those (xs @ ys) = Option.bind (those xs) (\<lambda>as. map_option ((@) as) (those ys))"
  by (induction xs; cases "those ys") (auto split: option.splits bind_splits)

lemma attempts_of_append: "attempts_of (xs @ ys) = Option.bind (attempts_of xs) (\<lambda>as. map_option ((@) as) (attempts_of ys))"
  by (simp add: attempts_of_def those_append)

lemma attempts_of_snoc:
  "attempts_of rs = Some as \<Longrightarrow> report_attempt r = Some a \<Longrightarrow> attempts_of (rs @ [r]) = Some (as @ [a])"
  by (simp add: attempts_of_append) (simp add: attempts_of_def)

lemma attempts_of_snoc_eq:
  "attempts_of rs = Some as \<Longrightarrow> attempts_of (rs @ [r]) = map_option (\<lambda>a. as @ [a]) (report_attempt r)"
  by (cases "report_attempt r") (simp_all add: attempts_of_append, simp_all add: attempts_of_def)

lemma attempts_of_simps [simp]:
  "attempts_of [] = Some []"
  "attempts_of (r # rs) = Option.bind (report_attempt r) (\<lambda>a. map_option ((#) a) (attempts_of rs))"
  by (auto simp: attempts_of_def split: option.splits)

section \<open>Runs of the machine\<close>

definition mid :: "nat \<Rightarrow> attempt_state \<Rightarrow> attempt list \<Rightarrow> usage_state" where
  "mid t q as = \<lparr>us_state = q, us_attempts = as, us_turn = Some t, us_saw_end = False\<rparr>"

lemma mid_fields [simp]:
  "us_state (mid t q as) = q" "us_attempts (mid t q as) = as" "us_turn (mid t q as) = Some t" "\<not> us_saw_end (mid t q as)"
  "(mid t q as)\<lparr>us_state := q'\<rparr> = mid t q' as" "(mid t q as)\<lparr>us_attempts := as'\<rparr> = mid t q as'"
  by (simp_all add: mid_def)

lemma mid_eq [simp]: "mid t q as = mid t' q' as' \<longleftrightarrow> t = t' \<and> q = q' \<and> as = as'"
  by (auto simp: mid_def)

lemma closeOpen_mid [simp]:
  "closeOpen r (mid t (Open t' p u) as) =
     (case report_attempt (u, r) of None \<Rightarrow> Inl () | Some a \<Rightarrow> Inr (mid t (Open t' p u) (as @ [a])))"
  by (auto simp: closeOpen_def report_attempt_def split: option.splits)

text \<open>What a turn has read so far within its current step.\<close>

datatype phase =
    At_Rest
  | Running nat "stream_record list list"
  | Attempted nat "stream_record list list" "stream_record list"
  | Retrying nat "stream_record list list" "stream_record list"
  | Answered nat "stream_record list list" "json option" "stream_record list" route

fun phase_events :: "nat \<Rightarrow> phase \<Rightarrow> meter_event list" where
  "phase_events t At_Rest = []"
| "phase_events t (Running p ss) = Step_Start t p # concat (map (retried t p) ss)"
| "phase_events t (Attempted p ss s) = Step_Start t p # concat (map (retried t p) ss) @ [Assistant_Attempt t p s]"
| "phase_events t (Retrying p ss s) = Step_Start t p # concat (map (retried t p) ss) @ [Assistant_Attempt t p s, Llm_Retry t p]"
| "phase_events t (Answered p ss u s r) = Step_Start t p # concat (map (retried t p) ss) @ [Assistant_Reply t p u s r]"

fun phase_reports :: "phase \<Rightarrow> report list" where
  "phase_reports At_Rest = []"
| "phase_reports (Running p ss) = map (\<lambda>s. (streamUsage s, None)) ss"
| "phase_reports (Attempted p ss s) = map (\<lambda>s. (streamUsage s, None)) ss @ [end_report (Failed s)]"
| "phase_reports (Retrying p ss s) = map (\<lambda>s. (streamUsage s, None)) ss @ [end_report (Gave_Up s)]"
| "phase_reports (Answered p ss u s r) = map (\<lambda>s. (streamUsage s, None)) ss @ [end_report (Replied u s r)]"

fun phase_state :: "nat \<Rightarrow> phase \<Rightarrow> attempt_state" where
  "phase_state t At_Rest = Idle"
| "phase_state t (Running p ss) = Open t p None"
| "phase_state t (Attempted p ss s) = Finish_Closed t p"
| "phase_state t (Retrying p ss s) = Settled t p By_Retry"
| "phase_state t (Answered p ss u s r) = Settled t p By_Message"

definition reached :: "nat \<Rightarrow> step_log list \<Rightarrow> phase \<Rightarrow> meter_event list \<Rightarrow> usage_state \<Rightarrow> bool" where
  "reached t steps ph es s \<longleftrightarrow> es = concat (map (step_events t) steps) @ phase_events t ph
     \<and> (\<exists>as. attempts_of (turn_reports steps @ phase_reports ph) = Some as \<and> s = mid t (phase_state t ph) as)"

text \<open>The next phase, when the event fits the grammar.\<close>

fun next_phase :: "nat \<Rightarrow> step_log list \<Rightarrow> phase \<Rightarrow> meter_event \<Rightarrow> (step_log list \<times> phase) option" where
  "next_phase t steps At_Rest (Step_Start t' p) = (if t' = t then Some (steps, Running p []) else None)"
| "next_phase t steps (Running p ss) (Assistant_Attempt t' p' s) = (if t' = t \<and> p' = p then Some (steps, Attempted p ss s) else None)"
| "next_phase t steps (Running p ss) (Assistant_Reply t' p' u s r) = (if t' = t \<and> p' = p then Some (steps, Answered p ss u s r) else None)"
| "next_phase t steps (Attempted p ss s) (Llm_Retry t' p') = (if t' = t \<and> p' = p then Some (steps, Retrying p ss s) else None)"
| "next_phase t steps (Attempted p ss s) (Step_End t' p') = (if t' = t \<and> p' = p then Some (steps @ [(p, ss, Failed s)], At_Rest) else None)"
| "next_phase t steps (Retrying p ss s) (Retry_Started t' p') = (if t' = t \<and> p' = p then Some (steps, Running p (ss @ [s])) else None)"
| "next_phase t steps (Retrying p ss s) (Step_End t' p') = (if t' = t \<and> p' = p then Some (steps @ [(p, ss, Gave_Up s)], At_Rest) else None)"
| "next_phase t steps (Answered p ss u s r) (Step_End t' p') = (if t' = t \<and> p' = p then Some (steps @ [(p, ss, Replied u s r)], At_Rest) else None)"
| "next_phase t steps ph e = None"

definition boundary :: "meter_event \<Rightarrow> bool" where
  "boundary e = (case e of Turn_Start t \<Rightarrow> True | Turn_End t \<Rightarrow> True | Unmetered_Event \<Rightarrow> True | _ \<Rightarrow> False)"

lemma next_phase_events:
  "next_phase t steps ph e = Some (steps', ph') \<Longrightarrow>
     concat (map (step_events t) steps') @ phase_events t ph' = concat (map (step_events t) steps) @ phase_events t ph @ [e]"
  by (cases ph; cases e; simp add: retried_def split: if_splits; clarsimp simp: retried_def)

text \<open>The report an event closes, and the machine in step with the phases.\<close>

fun event_reports :: "meter_event \<Rightarrow> report list" where
  "event_reports (Assistant_Attempt t p s) = [(streamUsage s, None)]"
| "event_reports (Assistant_Reply t p u s r) = [end_report (Replied u s r)]"
| "event_reports _ = []"

lemma next_phase_reports:
  "next_phase t steps ph e = Some (steps', ph') \<Longrightarrow>
     turn_reports steps' @ phase_reports ph' = (turn_reports steps @ phase_reports ph) @ event_reports e"
  by (cases ph; cases e; simp add: turn_reports_def split: if_splits; clarsimp)

lemma turn_event_phase:
  "\<not> boundary e \<Longrightarrow> turn_event t (mid t (phase_state t ph) as) e = (case next_phase t steps ph e of None \<Rightarrow> Inl ()
     | Some (steps', ph') \<Rightarrow> (case attempts_of (event_reports e) of
         None \<Rightarrow> Inl () | Some bs \<Rightarrow> Inr (mid t (phase_state t ph') (as @ bs))))"
proof (cases ph)
  case At_Rest
  assume "\<not> boundary e"
  with At_Rest show ?thesis by (cases e) (simp_all add: boundary_def)
next
  case (Running p ss)
  assume "\<not> boundary e"
  with Running show ?thesis
  proof (cases e)
    case (Assistant_Attempt t' p' s)
    with Running show ?thesis by (cases "report_attempt (streamUsage s, None)"; cases "streamUsage s") auto
  next
    case (Assistant_Reply t' p' u s r)
    define sample where "sample = (case u of Some v \<Rightarrow> Some v | None \<Rightarrow> streamUsage s)"
    show ?thesis
      by (cases sample; cases "report_attempt (sample, messageRoute r)"; cases "t' = t"; cases "p' = p")
        (simp_all add: Running Assistant_Reply sample_def [symmetric] report_attempt_def)
  qed (simp_all add: boundary_def)
next
  case (Attempted p ss s)
  assume nb: "\<not> boundary e"
  show ?thesis by (insert nb, cases e; simp add: Attempted boundary_def)
next
  case (Retrying p ss s)
  assume nb: "\<not> boundary e"
  show ?thesis
  proof (cases e)
    case (Retry_Started t' p')
    then show ?thesis using Retrying by (cases "t' = t"; cases "p' = p") auto
  qed (insert nb, simp_all add: Retrying boundary_def)
next
  case (Answered p ss u s r)
  assume nb: "\<not> boundary e"
  show ?thesis by (insert nb, cases e; simp add: Answered boundary_def)
qed

section \<open>Parsing a turn\<close>

fun parse :: "nat \<Rightarrow> step_log list \<times> phase \<Rightarrow> meter_event list \<Rightarrow> (step_log list \<times> phase) option" where
  "parse t sp [] = Some sp"
| "parse t sp (e # es) = (case next_phase t (fst sp) (snd sp) e of None \<Rightarrow> None | Some sp' \<Rightarrow> parse t sp' es)"

lemma parse_events:
  "parse t (steps, ph) es = Some (steps', ph') \<Longrightarrow>
     concat (map (step_events t) steps') @ phase_events t ph' = concat (map (step_events t) steps) @ phase_events t ph @ es
     \<and> turn_reports steps' @ phase_reports ph' = turn_reports steps @ phase_reports ph @ concat (map event_reports es)"
proof (induction es arbitrary: steps ph)
  case (Cons e es)
  then obtain s1 p1 where n: "next_phase t steps ph e = Some (s1, p1)" "parse t (s1, p1) es = Some (steps', ph')"
    by (auto split: option.splits)
  from Cons.IH [OF n(2)] next_phase_events [OF n(1)] next_phase_reports [OF n(1)] show ?case
    by (metis (no_types, lifting) append.assoc append_Cons append_Nil concat.simps(2) list.simps(9))
qed simp

lemma parse_append: "parse t sp (xs @ ys) = Option.bind (parse t sp xs) (\<lambda>sp'. parse t sp' ys)"
  by (induction xs arbitrary: sp) (auto split: option.splits)

lemma parse_retried: "parse t (steps, Running p ss) (concat (map (retried t p) xs)) = Some (steps, Running p (ss @ xs))"
  by (induction xs arbitrary: ss) (simp_all add: retried_def)

lemma parse_step: "parse t (steps, At_Rest) (step_events t x) = Some (steps @ [x], At_Rest)"
proof -
  obtain p ss e where x: "x = (p, ss, e)" by (cases x)
  show ?thesis by (cases e) (simp_all add: x parse_append parse_retried)
qed

lemma parse_steps: "parse t (steps, At_Rest) (concat (map (step_events t) xs)) = Some (steps @ xs, At_Rest)"
  by (induction xs arbitrary: steps) (simp_all add: parse_append parse_step)

lemma attempts_of_Cons_append:
  "attempts_of (xs @ ys) = (case attempts_of xs of None \<Rightarrow> None | Some as \<Rightarrow> (case attempts_of ys of None \<Rightarrow> None | Some bs \<Rightarrow> Some (as @ bs)))"
  by (auto simp: attempts_of_append split: option.splits)

lemma usage_event_mid:
  "\<not> boundary e \<Longrightarrow> usage_event (mid t q as) e = turn_event t (mid t q as) e"
  by (cases e) (simp_all add: usage_event_def boundary_def)

lemma run_parse:
  "list_all (\<lambda>e. \<not> boundary e) es \<Longrightarrow> fold_res usage_event (mid t (phase_state t ph) as) es =
     (case parse t (steps, ph) es of None \<Rightarrow> Inl ()
      | Some (steps', ph') \<Rightarrow> (case attempts_of (concat (map event_reports es)) of
          None \<Rightarrow> Inl () | Some bs \<Rightarrow> Inr (mid t (phase_state t ph') (as @ bs))))"
proof (induction es arbitrary: steps ph as)
  case (Cons e es)
  have nb: "\<not> boundary e" using Cons.prems by simp
  show ?case
  proof (cases "next_phase t steps ph e")
    case None
    then show ?thesis using turn_event_phase [OF nb, of t ph as steps] by (simp add: usage_event_mid [OF nb])
  next
    case (Some sp)
    obtain s1 p1 where sp: "sp = (s1, p1)" by (cases sp)
    show ?thesis
    proof (cases "attempts_of (event_reports e)")
      case None
      then have "fold_res usage_event (mid t (phase_state t ph) as) (e # es) = Inl ()"
        using turn_event_phase [OF nb, of t ph as steps] Some sp by (simp add: usage_event_mid [OF nb])
      then show ?thesis using None by (simp add: attempts_of_Cons_append split: option.split prod.split)
    next
      case bs: (Some bs)
      have "usage_event (mid t (phase_state t ph) as) e = Inr (mid t (phase_state t p1) (as @ bs))"
        using turn_event_phase [OF nb, of t ph as steps] Some sp bs by (simp add: usage_event_mid [OF nb])
      then have "fold_res usage_event (mid t (phase_state t ph) as) (e # es) = fold_res usage_event (mid t (phase_state t p1) (as @ bs)) es"
        by simp
      then show ?thesis using Cons.IH [of p1 "as @ bs" s1] Cons.prems Some sp bs
        by (simp add: attempts_of_Cons_append split: option.split prod.split)
    qed
  qed
qed simp

section \<open>The frame of a turn\<close>

definition metered :: "meter_event \<Rightarrow> bool" where
  "metered e = (e \<noteq> Unmetered_Event)"

definition turn_mark :: "meter_event \<Rightarrow> bool" where
  "turn_mark e = (case e of Turn_Start t \<Rightarrow> True | Turn_End t \<Rightarrow> True | _ \<Rightarrow> False)"

lemma boundary_cases: "boundary e \<longleftrightarrow> turn_mark e \<or> \<not> metered e"
  by (cases e) (simp_all add: boundary_def turn_mark_def metered_def)

lemma run_metered:
  "list_all (\<lambda>e. \<not> turn_mark e) es \<Longrightarrow>
     fold_res usage_event (mid t (phase_state t ph) as) es = fold_res usage_event (mid t (phase_state t ph) as) (filter metered es)"
proof (induction es arbitrary: ph as)
  case (Cons e es)
  show ?case
  proof (cases "metered e")
    case False
    then have "usage_event (mid t (phase_state t ph) as) e = Inr (mid t (phase_state t ph) as)"
      by (simp add: metered_def usage_event_def)
    then show ?thesis using Cons False by simp
  next
    case True
    then have nb: "\<not> boundary e" using Cons.prems by (simp add: boundary_cases)
    show ?thesis
      using turn_event_phase [OF nb, of t ph as "[]"] Cons True
      by (auto simp: usage_event_mid [OF nb] split: option.splits)
  qed
qed simp

lemma run_inside:
  assumes "list_all (\<lambda>e. \<not> turn_mark e) es"
  shows "fold_res usage_event (mid t Idle []) es =
     (case parse t ([], At_Rest) (filter metered es) of None \<Rightarrow> Inl ()
      | Some (steps', ph') \<Rightarrow> (case attempts_of (concat (map event_reports (filter metered es))) of
          None \<Rightarrow> Inl () | Some bs \<Rightarrow> Inr (mid t (phase_state t ph') bs)))"
proof -
  have "list_all (\<lambda>e. \<not> boundary e) (filter metered es)"
    using assms by (auto simp: list_all_iff boundary_cases)
  from run_parse [OF this, of t At_Rest "[]" "[]"] run_metered [OF assms, of t At_Rest "[]"]
  show ?thesis by (simp only: phase_state.simps append_Nil)
qed

lemma ended_stuck: "us_saw_end s \<Longrightarrow> us_turn s \<noteq> None \<Longrightarrow> usage_event s e = Inl ()"
  by (cases e) (auto simp: usage_event_def)

lemma usage_start_first:
  "usage_event usage_start e = (case e of Turn_Start t \<Rightarrow> Inr (mid t Idle []) | _ \<Rightarrow> Inl ())"
  by (cases e) (simp_all add: usage_event_def usage_start_def mid_def)

lemma derive_framed:
  assumes "list_all (\<lambda>e. \<not> turn_mark e) mids"
  shows "deriveTurnTokenUsage (Turn_Start t # mids @ [Turn_End t]) =
     (case parse t ([], At_Rest) (filter metered mids) of
        Some (steps, At_Rest) \<Rightarrow> Option.bind (attempts_of (turn_reports steps)) aggregateAttempts
      | _ \<Rightarrow> None)"
proof -
  define p where "p = parse t ([], At_Rest) (filter metered mids)"
  define rs where "rs = attempts_of (concat (map event_reports (filter metered mids)))"
  have run: "fold_res usage_event (mid t Idle []) mids = (case p of None \<Rightarrow> Inl ()
      | Some (steps', ph') \<Rightarrow> (case rs of None \<Rightarrow> Inl () | Some bs \<Rightarrow> Inr (mid t (phase_state t ph') bs)))"
    unfolding p_def rs_def by (rule run_inside [OF assms])
  have at_end: "usage_event (mid t (phase_state t ph) bs) (Turn_End t) =
      (if ph = At_Rest then Inr ((mid t Idle bs)\<lparr>us_saw_end := True\<rparr>) else Inl ())" for ph bs
    by (cases ph) (simp_all add: usage_event_def)
  have reports: "turn_reports steps = concat (map event_reports (filter metered mids))" if "p = Some (steps, At_Rest)" for steps
    using parse_events [of t "[]" At_Rest "filter metered mids" steps At_Rest] that by (simp add: p_def turn_reports_def)
  show ?thesis
  proof (cases p)
    case None
    then show ?thesis using run by (simp add: deriveTurnTokenUsage_def usage_start_first fold_res_append p_def)
  next
    case (Some sp)
    obtain steps ph where sp: "sp = (steps, ph)" by (cases sp)
    show ?thesis
    proof (cases rs)
      case None
      then have "deriveTurnTokenUsage (Turn_Start t # mids @ [Turn_End t]) = None"
        using run Some sp by (simp add: deriveTurnTokenUsage_def usage_start_first fold_res_append)
      then show ?thesis using None Some sp reports rs_def by (cases ph) (auto simp: p_def)
    next
      case bs: (Some bs)
      then show ?thesis using run Some sp reports rs_def at_end [of ph bs]
        by (cases ph) (auto simp: p_def deriveTurnTokenUsage_def usage_start_first fold_res_append)
    qed
  qed
qed

lemma derive_frame:
  assumes "deriveTurnTokenUsage es = Some u"
  obtains t mids where "es = Turn_Start t # mids @ [Turn_End t]" "list_all (\<lambda>e. \<not> turn_mark e) mids"
proof -
  obtain s where s: "fold_res usage_event usage_start es = Inr s" "us_saw_end s"
    using assms by (auto simp: deriveTurnTokenUsage_def split: sum.splits if_splits)
  obtain t es1 where t: "es = Turn_Start t # es1" "fold_res usage_event (mid t Idle []) es1 = Inr s"
  proof (cases es)
    case Nil
    then show ?thesis using s by (auto simp: usage_start_def)
  next
    case (Cons e es1)
    then show ?thesis using s that by (cases e) (simp_all add: usage_start_first)
  qed
  define mids where "mids = takeWhile (\<lambda>e. \<not> turn_mark e) es1"
  define ends where "ends = dropWhile (\<lambda>e. \<not> turn_mark e) es1"
  have inner: "list_all (\<lambda>e. \<not> turn_mark e) mids" by (auto simp: mids_def list_all_iff dest: set_takeWhileD)
  have split: "es1 = mids @ ends" by (simp add: mids_def ends_def)
  obtain steps ph bs where m: "fold_res usage_event (mid t Idle []) mids = Inr (mid t (phase_state t ph) bs)"
    using t(2) split run_inside [OF inner, of t] by (auto simp: fold_res_append split: sum.splits option.splits)
  then have rest: "fold_res usage_event (mid t (phase_state t ph) bs) ends = Inr s" using t(2) split by (simp add: fold_res_append)
  show ?thesis
  proof (cases ends)
    case Nil
    then show ?thesis using rest s(2) by auto
  next
    case (Cons e more_events)
    then have "turn_mark e" using hd_dropWhile [of "\<lambda>e. \<not> turn_mark e" es1] by (simp add: ends_def)
    then have e: "e = Turn_End t" "fold_res usage_event ((mid t (phase_state t ph) bs)\<lparr>us_saw_end := True\<rparr>) more_events = Inr s"
      using rest Cons by (auto simp: turn_mark_def usage_event_def split: meter_event.splits if_splits)
    have "more_events = []"
      using e(2) ended_stuck [of "(mid t (phase_state t ph) bs)\<lparr>us_saw_end := True\<rparr>"] by (cases more_events) (auto simp: mid_def)
    then show ?thesis using that t(1) split Cons e inner by simp
  qed
qed

section \<open>Sums\<close>

text \<open>A normalised attempt, and the sums of a list of them.\<close>

definition opt_value :: "int option \<Rightarrow> int" where
  "opt_value v = (case v of Some n \<Rightarrow> n | None \<Rightarrow> 0)"

definition attempt_ok :: "attempt \<Rightarrow> bool" where
  "attempt_ok a \<longleftrightarrow> 0 \<le> at_input a \<and> 0 \<le> at_output a \<and> 0 \<le> opt_value (at_cache_read a) \<and> 0 \<le> opt_value (at_cache_write a)
     \<and> 0 \<le> opt_value (at_reasoning a) \<and> opt_value (at_reasoning a) \<le> at_output a
     \<and> at_input a + opt_value (at_cache_read a) + opt_value (at_cache_write a) + at_output a \<le> at_total a
     \<and> at_total a \<le> MAX_SAFE_INTEGER"

lemma safe_total_eq:
  "list_all (\<lambda>v. 0 \<le> v) vs \<Longrightarrow> 0 \<le> acc \<Longrightarrow> acc \<le> MAX_SAFE_INTEGER \<Longrightarrow>
     safe_total acc vs = (if acc + sum_list vs \<le> MAX_SAFE_INTEGER then Some (acc + sum_list vs) else None)"
proof (induction vs arbitrary: acc)
  case (Cons v vs)
  have "0 \<le> sum_list vs" using Cons.prems(1) by (auto simp: list_all_iff intro: sum_list_nonneg)
  then show ?case using Cons by (auto simp: add.assoc)
qed simp

lemma safeSum_eq:
  "list_all (\<lambda>v. 0 \<le> v) vs \<Longrightarrow> safeSum vs = (if sum_list vs \<le> MAX_SAFE_INTEGER then Some (sum_list vs) else None)"
  by (simp add: safeSum_def safe_total_eq MAX_SAFE_INTEGER_def)

lemma isCount_int: "isCount (jint i) \<longleftrightarrow> 0 \<le> i \<and> i \<le> MAX_SAFE_INTEGER"
  by (auto simp: isCount_def)

lemma count_field_bounds: "count_field u k = Some n \<Longrightarrow> 0 \<le> n \<and> n \<le> MAX_SAFE_INTEGER"
proof -
  assume "count_field u k = Some n"
  then obtain x where x: "isCount (JNum x)" "n = jnum_int x" by (auto simp: count_field_def split: option.splits json.splits if_splits)
  then show ?thesis by (cases x) (auto simp: isCount_def MAX_SAFE_INTEGER_def)
qed

lemma normalize_ok:
  assumes "normalizeUsage u r = Some a"
  shows "attempt_ok a"
proof -
  obtain inp out known t where f: "count_field u ''inputTokens'' = Some inp" "count_field u ''outputTokens'' = Some out"
      "safeSum (inp # opt_list (count_field u ''cacheReadTokens'') @ opt_list (count_field u ''cacheWriteTokens'')) = Some known"
      "exact_total u known out = Some t"
      "case count_field u ''reasoningTokens'' of Some n \<Rightarrow> n \<le> out | None \<Rightarrow> True"
      "a = \<lparr>at_input = inp, at_output = out, at_total = t, at_cache_read = count_field u ''cacheReadTokens'',
        at_cache_write = count_field u ''cacheWriteTokens'', at_reasoning = count_field u ''reasoningTokens'', at_route = r\<rparr>"
    using assms by (auto simp: normalizeUsage_def split: option.splits if_splits)
  note b = count_field_bounds [of u]
  have known: "known = inp + opt_value (count_field u ''cacheReadTokens'') + opt_value (count_field u ''cacheWriteTokens'')"
    using f(3) b [OF f(1)] b [of "''cacheReadTokens''"] b [of "''cacheWriteTokens''"]
    by (cases "count_field u ''cacheReadTokens''"; cases "count_field u ''cacheWriteTokens''")
      (auto simp: safeSum_eq opt_value_def split: if_splits)
  have "known + out \<le> t \<and> t \<le> MAX_SAFE_INTEGER"
  proof (cases "jget u ''totalTokens''")
    case None
    have "0 \<le> known" using known b [OF f(1)] b [of "''cacheReadTokens''"] b [of "''cacheWriteTokens''"]
      by (cases "count_field u ''cacheReadTokens''"; cases "count_field u ''cacheWriteTokens''") (auto simp: opt_value_def)
    then show ?thesis using None f(4) b [OF f(2)]
      by (auto simp: exact_total_def Let_def safeSum_eq split: if_splits)
  next
    case (Some v)
    then obtain t' where t': "count_field u ''totalTokens'' = Some t'" using f(4) by (auto simp: exact_total_def split: option.splits)
    then show ?thesis using Some f(4) b [OF t'] by (auto simp: exact_total_def Let_def split: if_splits)
  qed
  then show ?thesis
    using f b [OF f(1)] b [OF f(2)] b [of "''cacheReadTokens''"] b [of "''cacheWriteTokens''"] b [of "''reasoningTokens''"] known
    by (auto simp: attempt_ok_def opt_value_def split: option.splits)
qed

lemma attempts_ok: "attempts_of rs = Some as \<Longrightarrow> list_all attempt_ok as"
proof (induction rs arbitrary: as)
  case (Cons r rs)
  then obtain a bs where "report_attempt r = Some a" "attempts_of rs = Some bs" "as = a # bs"
    by (auto split: bind_splits)
  then show ?case using Cons.IH normalize_ok by (auto simp: report_attempt_def split: option.splits)
qed simp

text \<open>The usage a list of attempts adds up to.\<close>

definition all_reported :: "(attempt \<Rightarrow> int option) \<Rightarrow> attempt list \<Rightarrow> int option" where
  "all_reported f as = (if list_all (\<lambda>a. f a \<noteq> None) as then Some (sum_list (map (\<lambda>a. opt_value (f a)) as)) else None)"

definition total_usage :: "attempt list \<Rightarrow> turn_usage" where
  "total_usage as = \<lparr>tu_input = sum_list (map at_input as), tu_output = sum_list (map at_output as),
     tu_total = sum_list (map at_total as), tu_cache_read = all_reported at_cache_read as,
     tu_cache_write = all_reported at_cache_write as, tu_reasoning = all_reported at_reasoning as,
     tu_routes = (if list_all (\<lambda>a. at_route a \<noteq> None) as then Some (unique_routes (map (the \<circ> at_route) as)) else None)\<rparr>"

lemma sums_below_total:
  assumes "list_all attempt_ok as" "\<And>a. attempt_ok a \<Longrightarrow> 0 \<le> f a \<and> f a \<le> at_total a"
  shows "0 \<le> sum_list (map f as) \<and> sum_list (map f as) \<le> sum_list (map at_total as) \<and> list_all (\<lambda>v. 0 \<le> v) (map f as)"
  using assms(1) by (induction as) (use assms(2) in \<open>auto simp: add_mono\<close>)

lemma ok_bounds:
  assumes "attempt_ok a"
  shows "0 \<le> at_input a \<and> at_input a \<le> at_total a" "0 \<le> at_output a \<and> at_output a \<le> at_total a"
    "0 \<le> opt_value (at_cache_read a) \<and> opt_value (at_cache_read a) \<le> at_total a"
    "0 \<le> opt_value (at_cache_write a) \<and> opt_value (at_cache_write a) \<le> at_total a"
    "0 \<le> opt_value (at_reasoning a) \<and> opt_value (at_reasoning a) \<le> at_total a" "0 \<le> at_total a \<and> at_total a \<le> at_total a"
  using assms by (auto simp: attempt_ok_def)

lemma bucket_sum_eq:
  assumes "list_all attempt_ok as" "sum_list (map at_total as) \<le> MAX_SAFE_INTEGER"
    "\<And>a. attempt_ok a \<Longrightarrow> 0 \<le> opt_value (f a) \<and> opt_value (f a) \<le> at_total a"
  shows "bucket_sum f as = all_reported f as"
proof (cases "list_all (\<lambda>a. f a \<noteq> None) as")
  case True
  then have m: "map (the \<circ> f) as = map (\<lambda>a. opt_value (f a)) as"
    by (auto simp: list_all_iff opt_value_def split: option.splits)
  show ?thesis
    using sums_below_total [OF assms(1), of "\<lambda>a. opt_value (f a)", OF assms(3)] assms(2) True
    unfolding bucket_sum_def all_reported_def m by (simp add: safeSum_eq)
qed (simp add: bucket_sum_def all_reported_def)

lemma aggregate_eq:
  assumes "list_all attempt_ok as"
  shows "aggregateAttempts as =
     (if as \<noteq> [] \<and> sum_list (map at_total as) \<le> MAX_SAFE_INTEGER then Some (total_usage as) else None)"
proof -
  note below = sums_below_total [OF assms]
  have s: "safeSum (map f as) = (if sum_list (map f as) \<le> MAX_SAFE_INTEGER then Some (sum_list (map f as)) else None)"
    if "\<And>a. attempt_ok a \<Longrightarrow> 0 \<le> f a \<and> f a \<le> at_total a" for f
    using below [OF that] by (simp add: safeSum_eq)
  show ?thesis
  proof (cases "sum_list (map at_total as) \<le> MAX_SAFE_INTEGER")
    case True
    then have "sum_list (map at_input as) \<le> MAX_SAFE_INTEGER" "sum_list (map at_output as) \<le> MAX_SAFE_INTEGER"
      using below [of at_input, OF ok_bounds(1)] below [of at_output, OF ok_bounds(2)] by auto
    then show ?thesis
      using True s [of at_input, OF ok_bounds(1)] s [of at_output, OF ok_bounds(2)] s [of at_total, OF ok_bounds(6)]
        bucket_sum_eq [OF assms True ok_bounds(3)] bucket_sum_eq [OF assms True ok_bounds(4)] bucket_sum_eq [OF assms True ok_bounds(5)]
      by (simp add: aggregateAttempts_def total_usage_def)
  next
    case False
    then show ?thesis using s [of at_total, OF ok_bounds(6)] by (simp add: aggregateAttempts_def split: option.split)
  qed
qed

section \<open>Exactness\<close>

lemma derive_attempts:
  "deriveTurnTokenUsage es = Some u \<longleftrightarrow>
     (\<exists>t mids steps as. es = Turn_Start t # mids @ [Turn_End t] \<and> list_all (\<lambda>e. \<not> turn_mark e) mids
        \<and> filter metered mids = concat (map (step_events t) steps)
        \<and> attempts_of (turn_reports steps) = Some as \<and> aggregateAttempts as = Some u)" (is "?l \<longleftrightarrow> ?r")
proof
  assume ?l
  then obtain t mids where es: "es = Turn_Start t # mids @ [Turn_End t]" "list_all (\<lambda>e. \<not> turn_mark e) mids" by (rule derive_frame)
  then obtain steps where p: "parse t ([], At_Rest) (filter metered mids) = Some (steps, At_Rest)"
      "Option.bind (attempts_of (turn_reports steps)) aggregateAttempts = Some u"
    using \<open>?l\<close> derive_framed [OF es(2), of t] by (auto split: option.splits phase.splits)
  obtain as where "attempts_of (turn_reports steps) = Some as" "aggregateAttempts as = Some u"
    using p(2) by (auto simp: bind_eq_Some_conv)
  moreover have "filter metered mids = concat (map (step_events t) steps)" using parse_events [OF p(1)] by simp
  ultimately show ?r using es by blast
next
  assume ?r
  then obtain t mids steps as where "es = Turn_Start t # mids @ [Turn_End t]" "list_all (\<lambda>e. \<not> turn_mark e) mids"
      "filter metered mids = concat (map (step_events t) steps)"
      "attempts_of (turn_reports steps) = Some as" "aggregateAttempts as = Some u" by blast
  then show ?l using derive_framed [of mids t] parse_steps [of t "[]" steps] by simp
qed

lemma unmarked_steps: "list_all (\<lambda>e. \<not> turn_mark e) (concat (map (step_events t) steps))"
proof (induction steps)
  case (Cons x steps)
  obtain p ss e where x: "x = (p, ss, e)" by (cases x)
  have "list_all (\<lambda>e. \<not> turn_mark e) (concat (map (retried t p) ss))"
    by (induction ss) (simp_all add: retried_def turn_mark_def)
  then show ?case using Cons by (cases e) (simp_all add: x turn_mark_def)
qed simp

lemma unmarked_filter:
  "filter metered mids = concat (map (step_events t) steps) \<Longrightarrow> list_all (\<lambda>e. \<not> turn_mark e) mids"
proof -
  assume f: "filter metered mids = concat (map (step_events t) steps)"
  have "\<not> turn_mark e" if "e \<in> set mids" for e
  proof (cases "metered e")
    case True
    then have "e \<in> set (concat (map (step_events t) steps))" using that f [symmetric] by auto
    then show ?thesis using unmarked_steps by (auto simp: list_all_iff)
  next
    case False
    then show ?thesis by (simp add: metered_def turn_mark_def)
  qed
  then show ?thesis by (simp add: list_all_iff)
qed

text \<open>
  Claim C35. A turn's usage is disclosed exactly when it can be proven: the derivation returns a value if
  and only if the log is one turn whose events follow the attempt grammar, every attempt's report is
  complete and consistent, there is at least one attempt and the totals add up to a safe integer; and then
  the value is the sum of every attempt, an optional bucket being present exactly when all reported it.
\<close>

theorem turn_usage_exact:
  "deriveTurnTokenUsage es = Some u \<longleftrightarrow>
     (\<exists>t mids steps as. es = Turn_Start t # mids @ [Turn_End t]
        \<and> filter metered mids = concat (map (step_events t) steps)
        \<and> attempts_of (turn_reports steps) = Some as \<and> as \<noteq> []
        \<and> sum_list (map at_total as) \<le> MAX_SAFE_INTEGER \<and> u = total_usage as)"
proof -
  have "aggregateAttempts as = Some u \<longleftrightarrow> as \<noteq> [] \<and> sum_list (map at_total as) \<le> MAX_SAFE_INTEGER \<and> u = total_usage as"
    if "attempts_of rs = Some as" for rs as
    using aggregate_eq [OF attempts_ok [OF that]] by auto
  then show ?thesis unfolding derive_attempts by (metis unmarked_filter)
qed

section \<open>Agreement with the projection\<close>

text \<open>The sum of the reports of a turn, as the projection counts them.\<close>

definition add_buckets :: "buckets \<Rightarrow> buckets \<Rightarrow> buckets" where
  "add_buckets a b = addReplacing a None b"

definition report_sum :: "buckets \<Rightarrow> report list \<Rightarrow> buckets" where
  "report_sum b rs = foldl (\<lambda>b r. case fst r of None \<Rightarrow> b | Some u \<Rightarrow> add_buckets b (bucketsFrom u)) b rs"

definition project :: "token_usage_state \<Rightarrow> meter_event list \<Rightarrow> token_usage_state" where
  "project s es = foldl token_usage_apply s es"

lemma project_append: "project s (xs @ ys) = project (project s xs) ys"
  by (simp add: project_def)

definition slot_free :: "token_usage_state \<Rightarrow> nat \<Rightarrow> nat \<Rightarrow> bool" where
  "slot_free s t p = (case tk_last s of None \<Rightarrow> True | Some (k, b) \<Rightarrow> k \<noteq> (t, p))"

lemma sample_free:
  "slot_free s t p \<Longrightarrow> token_usage_sample s (t, p) u =
     \<lparr>tk_totals = add_buckets (tk_totals s) (bucketsFrom u), tk_last = Some ((t, p), bucketsFrom u)\<rparr>"
  by (auto simp: slot_free_def token_usage_sample_def add_buckets_def Let_def split: option.splits prod.splits)

lemma project_retried:
  assumes "slot_free s t p" "streamUsage str = Some u"
  shows "project s (retried t p str) = \<lparr>tk_totals = add_buckets (tk_totals s) (bucketsFrom u), tk_last = None\<rparr>"
  using sample_free [OF assms(1), of u] assms(2) by (simp add: project_def retried_def token_usage_apply_def)

lemma project_retries:
  assumes "slot_free s t p" "list_all (\<lambda>str. streamUsage str \<noteq> None) ss"
  shows "slot_free (project s (concat (map (retried t p) ss))) t p
     \<and> tk_totals (project s (concat (map (retried t p) ss))) = report_sum (tk_totals s) (map (\<lambda>x. (streamUsage x, None)) ss)"
  using assms
proof (induction ss arbitrary: s)
  case Nil
  then show ?case by (simp add: project_def report_sum_def)
next
  case (Cons str ss)
  obtain u where u: "streamUsage str = Some u" using Cons.prems(2) by auto
  have s1: "project s (retried t p str) = \<lparr>tk_totals = add_buckets (tk_totals s) (bucketsFrom u), tk_last = None\<rparr>"
    using project_retried [OF Cons.prems(1) u] .
  have "slot_free (project s (retried t p str)) t p" by (simp add: s1 slot_free_def)
  from Cons.IH [OF this] Cons.prems(2) show ?case by (simp add: project_append s1 u report_sum_def)
qed

lemma project_ending:
  assumes "slot_free s t p" "end_report e = (Some u, r)"
  shows "project s (ending t p e @ [Step_End t p]) =
     \<lparr>tk_totals = add_buckets (tk_totals s) (bucketsFrom u), tk_last = Some ((t, p), bucketsFrom u)\<rparr>"
  using sample_free [OF assms(1), of u] assms(2)
  by (cases e) (auto simp: project_def token_usage_apply_def split: option.splits)

lemma reported: "attempts_of rs = Some as \<Longrightarrow> list_all (\<lambda>r. fst r \<noteq> None) rs"
  by (induction rs arbitrary: as) (auto simp: report_attempt_def split: option.splits bind_splits)

lemma project_step:
  assumes "slot_free s t p" "list_all (\<lambda>r. fst r \<noteq> None) (step_reports (p, ss, e))"
  shows "tk_totals (project s (step_events t (p, ss, e))) = report_sum (tk_totals s) (step_reports (p, ss, e))
     \<and> (\<exists>b. tk_last (project s (step_events t (p, ss, e))) = Some ((t, p), b))"
proof -
  obtain u r where u: "end_report e = (Some u, r)" using assms(2) by (cases "end_report e") auto
  have "list_all (\<lambda>str. streamUsage str \<noteq> None) ss" using assms(2) by (simp add: list_all_iff)
  note m = project_retries [OF assms(1) this]
  have "project s [Step_Start t p] = s" by (simp add: project_def token_usage_apply_def)
  then have "project s (step_events t (p, ss, e)) = project (project s (concat (map (retried t p) ss))) (ending t p e @ [Step_End t p])"
    using project_append [of s "[Step_Start t p]"] by (simp add: project_append)
  then show ?thesis using m project_ending [of "project s (concat (map (retried t p) ss))" t p e u r] u
    by (simp add: report_sum_def)
qed

lemma report_sum_append: "report_sum b (xs @ ys) = report_sum (report_sum b xs) ys"
  by (simp add: report_sum_def)

lemma project_steps:
  assumes "list_all (\<lambda>r. fst r \<noteq> None) (turn_reports steps)" "distinct (map fst steps)"
    "\<forall>p \<in> set (map fst steps). slot_free s t p"
  shows "tk_totals (project s (concat (map (step_events t) steps))) = report_sum (tk_totals s) (turn_reports steps)"
  using assms
proof (induction steps arbitrary: s)
  case Nil
  then show ?case by (simp add: project_def report_sum_def turn_reports_def)
next
  case (Cons x steps)
  obtain p ss e where x: "x = (p, ss, e)" by (cases x)
  define s1 where "s1 = project s (step_events t x)"
  have s1: "tk_totals s1 = report_sum (tk_totals s) (step_reports x)" "\<exists>b. tk_last s1 = Some ((t, p), b)"
    using project_step [of s t p ss e] Cons.prems by (auto simp: x s1_def turn_reports_def)
  then have "\<forall>p \<in> set (map fst steps). slot_free s1 t p" using Cons.prems(2) by (force simp: slot_free_def x)
  from Cons.IH [OF _ _ this] Cons.prems(1,2) show ?case
    by (simp add: turn_reports_def project_append s1_def [symmetric] s1(1) report_sum_append)
qed

lemma project_metered: "project s (filter metered es) = project s es"
  by (induction es arbitrary: s) (auto simp: project_def metered_def token_usage_apply_def)

text \<open>The buckets of a normalised report are its attempt's.\<close>

lemma number_field_count:
  assumes "count_field u k = Some n"
  shows "number_field u k = of_int n"
proof -
  obtain x where x: "jget u k = Some (JNum x)" "isCount (JNum x)" "n = jnum_int x"
    using assms by (auto simp: count_field_def split: option.splits json.splits if_splits)
  then show ?thesis by (cases x) (auto simp: number_field_def isCount_def)
qed

lemma optional_number:
  assumes "optional_count u k"
  shows "number_field u k = of_int (opt_value (count_field u k))"
proof (cases "count_field u k")
  case None
  then have "jget u k = None" using assms
    by (auto simp: optional_count_def count_field_def isCount_def split: option.splits json.splits)
  then show ?thesis using None by (simp add: number_field_def opt_value_def)
next
  case (Some n)
  then show ?thesis using number_field_count [OF Some] by (simp add: opt_value_def)
qed

lemma buckets_of_attempt:
  assumes "normalizeUsage u r = Some a"
  shows "bk_input (bucketsFrom u) = of_int (at_input a)" "bk_output (bucketsFrom u) = of_int (at_output a)"
    "bk_cache_read (bucketsFrom u) = of_int (opt_value (at_cache_read a))"
    "bk_cache_write (bucketsFrom u) = of_int (opt_value (at_cache_write a))"
proof -
  have f: "count_field u ''inputTokens'' = Some (at_input a)" "count_field u ''outputTokens'' = Some (at_output a)"
      "optional_count u ''cacheReadTokens''" "optional_count u ''cacheWriteTokens''"
      "at_cache_read a = count_field u ''cacheReadTokens''" "at_cache_write a = count_field u ''cacheWriteTokens''"
    using assms by (auto simp: normalizeUsage_def split: option.splits if_splits)
  then show "bk_input (bucketsFrom u) = of_int (at_input a)" "bk_output (bucketsFrom u) = of_int (at_output a)"
    "bk_cache_read (bucketsFrom u) = of_int (opt_value (at_cache_read a))"
    "bk_cache_write (bucketsFrom u) = of_int (opt_value (at_cache_write a))"
    by (simp_all add: bucketsFrom_def number_field_count optional_number)
qed

lemma report_sum_attempts:
  "attempts_of rs = Some as \<Longrightarrow>
     bk_input (report_sum b rs) = bk_input b + of_int (sum_list (map at_input as))
   \<and> bk_output (report_sum b rs) = bk_output b + of_int (sum_list (map at_output as))
   \<and> bk_cache_read (report_sum b rs) = bk_cache_read b + of_int (sum_list (map (\<lambda>a. opt_value (at_cache_read a)) as))
   \<and> bk_cache_write (report_sum b rs) = bk_cache_write b + of_int (sum_list (map (\<lambda>a. opt_value (at_cache_write a)) as))"
proof (induction rs arbitrary: as b)
  case (Cons r rs)
  then obtain a bs where a: "report_attempt r = Some a" "attempts_of rs = Some bs" "as = a # bs" by (auto split: bind_splits)
  then obtain u where u: "fst r = Some u" "normalizeUsage u (snd r) = Some a" by (auto simp: report_attempt_def split: option.splits)
  have "report_sum b (r # rs) = report_sum (add_buckets b (bucketsFrom u)) rs" by (simp add: report_sum_def u)
  then show ?case using Cons.IH [OF a(2), of "add_buckets b (bucketsFrom u)"] buckets_of_attempt [OF u(2)] a(3)
    by (simp add: add_buckets_def addReplacing_def zeroBuckets_def Let_def)
qed (simp add: report_sum_def)

fun step_number :: "meter_event \<Rightarrow> nat option" where
  "step_number (Step_Start t p) = Some p"
| "step_number _ = None"

lemma step_numbers:
  "List.map_filter step_number (concat (map (step_events t) steps)) = map fst steps"
proof (induction steps)
  case (Cons x steps)
  obtain p ss e where x: "x = (p, ss, e)" by (cases x)
  have "List.map_filter step_number (concat (map (retried t p) ss)) = []"
    by (induction ss) (simp_all add: retried_def List.map_filter_simps)
  then show ?case using Cons by (cases e) (simp_all add: x List.map_filter_simps map_filter_append)
qed (simp add: List.map_filter_simps)

text \<open>
  Claim C36. The two accounts of a turn agree: when a turn's exact usage can be derived and its step numbers
  are distinct, the running token-usage projection over the same events reports the same input and output,
  and the same cache buckets whenever the turn discloses them.
\<close>

theorem usage_accounts_agree:
  assumes "deriveTurnTokenUsage es = Some u" "distinct (List.map_filter step_number es)"
  shows "bk_input (tokenUsage es) = of_int (tu_input u) \<and> bk_output (tokenUsage es) = of_int (tu_output u)
     \<and> (\<forall>c. tu_cache_read u = Some c \<longrightarrow> bk_cache_read (tokenUsage es) = of_int c)
     \<and> (\<forall>c. tu_cache_write u = Some c \<longrightarrow> bk_cache_write (tokenUsage es) = of_int c)"
proof -
  obtain t mids steps as where w: "es = Turn_Start t # mids @ [Turn_End t]"
      "filter metered mids = concat (map (step_events t) steps)"
      "attempts_of (turn_reports steps) = Some as" "u = total_usage as" "list_all (\<lambda>e. \<not> turn_mark e) mids"
    using assms(1) unfolding derive_attempts
    by (metis aggregate_eq attempts_ok option.distinct(1) option.inject)
  have unstarted: "List.map_filter step_number xs = List.map_filter step_number (filter metered xs)" for xs
    by (induction xs) (auto simp: List.map_filter_simps metered_def split: option.split)
  have "distinct (map fst steps)"
    using assms(2) step_numbers [of t steps] unstarted [of mids] w(1,2)
    by (simp add: List.map_filter_simps map_filter_append)
  then have t: "tk_totals (project token_usage_init mids) = report_sum zeroBuckets (turn_reports steps)"
    using project_steps [OF reported [OF w(3)], of token_usage_init t] project_metered [of token_usage_init mids] w(2)
    by (simp add: slot_free_def token_usage_init_def)
  have edge: "token_usage_apply s (Turn_Start t) = s" "token_usage_apply s (Turn_End t) = s" for s
    by (simp_all add: token_usage_apply_def)
  have "tokenUsage es = report_sum zeroBuckets (turn_reports steps)"
    using t by (simp add: tokenUsage_def w(1) edge project_def)
  then show ?thesis
    using report_sum_attempts [OF w(3), of zeroBuckets]
    by (auto simp: w(4) total_usage_def all_reported_def zeroBuckets_def split: if_splits)
qed

definition usage_demo :: "meter_event list" where
  "usage_demo = [Turn_Start 0, Step_Start 0 1,
     Assistant_Attempt 0 1 [Rec_Chunk 5 (Usage_Chunk (JObj [(''inputTokens'', jint 4), (''outputTokens'', jint 1), (''totalTokens'', jint 5)]))],
     Llm_Retry 0 1, Retry_Started 0 1, Unmetered_Event,
     Assistant_Reply 0 1 (Some (JObj [(''inputTokens'', jint 3), (''outputTokens'', jint 2), (''cacheReadTokens'', jint 1), (''cacheWriteTokens'', jint 0)])) [] (''p'', ''m''),
     Step_End 0 1, Turn_End 0]"

theorem usage_accounts_agree_witness:
  "bk_input (tokenUsage usage_demo) = 7 \<and> bk_output (tokenUsage usage_demo) = 3"
proof -
  have d: "deriveTurnTokenUsage usage_demo = Some \<lparr>tu_input = 7, tu_output = 3, tu_total = 11, tu_cache_read = None,
      tu_cache_write = None, tu_reasoning = None, tu_routes = None\<rparr>" by code_simp
  have "distinct (List.map_filter step_number usage_demo)" by code_simp
  from usage_accounts_agree [OF d this] show ?thesis by simp
qed

end
