(* ===== verification/Request_Header.thy ===== *)
theory Request_Header
  imports Session_Surface Stream_Chunks
begin

text \<open>
  The text of a JSON value (\<open>JSON.stringify\<close>) and the request header fold
  (\<open>packages/core/session/src/request-header.ts\<close>, with \<open>callConfigEquals\<close> of
  \<open>packages/llm/llm/src/call-config.ts\<close>). How a fraction prints is the parameter \<open>ft\<close>; integers print in
  decimal, as they do below \<open>10\<^sup>2\<^sup>1\<close>.
\<close>

section \<open>JSON text\<close>

fun stringify :: "(rat \<Rightarrow> string) \<Rightarrow> json \<Rightarrow> string" where
  "stringify ft JNull = ''null''"
| "stringify ft (JBool b) = (if b then ''true'' else ''false'')"
| "stringify ft (JNum (JInt i)) = show_int i"
| "stringify ft (JNum JNegZero) = ''0''"
| "stringify ft (JNum (JFrac q)) = ft q"
| "stringify ft (JStr s) = json_quote s"
| "stringify ft (JArr xs) = ''['' @ join_comma (map (stringify ft) xs) @ '']''"
| "stringify ft (JObj fs) = ''{'' @ join_comma (map (\<lambda>(k, v). json_quote k @ '':'' @ stringify ft v) fs) @ ''}''"

section \<open>Request headers\<close>

text \<open>A header is a JSON object; \<open>hdr_entry\<close> is one entry of the canonical one, when present.\<close>

definition hdr_entry :: "json \<Rightarrow> string \<Rightarrow> (string \<times> json) list" where
  "hdr_entry h k = (case jget h k of None \<Rightarrow> [] | Some v \<Rightarrow> [(k, v)])"

definition adapter_default :: "json \<Rightarrow> string \<Rightarrow> json option" where
  "adapter_default h k = (case jget h ''adapterDefaults'' of None \<Rightarrow> None | Some d \<Rightarrow> jget d k)"

definition header_tool_list :: "json \<Rightarrow> json list" where
  "header_tool_list h = (case jget h ''tools'' of Some (JArr ts) \<Rightarrow> ts | _ \<Rightarrow> [])"

definition canonicalHeader :: "json \<Rightarrow> json" where
  "canonicalHeader h = JObj (hdr_entry h ''config''
     @ (if adapter_default h ''reasoningEffort'' = Some (JBool True) \<or> adapter_default h ''maxTokens'' = Some (JBool True)
        then hdr_entry h ''adapterDefaults'' else [])
     @ (if header_tool_list h \<noteq> [] then [(''tools'', JArr (header_tool_list h))] else []))"

text \<open>Strict equality of scalars, \<open>undefined\<close> included.\<close>

fun strict_eq :: "json option \<Rightarrow> json option \<Rightarrow> bool" where
  "strict_eq (Some (JNum a)) (Some (JNum b)) = num_eq a b"
| "strict_eq a b = (a = b)"

definition string_items :: "json \<Rightarrow> json option list" where
  "string_items v = (case v of JArr xs \<Rightarrow> map Some xs | _ \<Rightarrow> [])"

definition callConfigEquals :: "json \<Rightarrow> json \<Rightarrow> bool" where
  "callConfigEquals a b =
     (if \<not> list_all (\<lambda>k. strict_eq (jget a k) (jget b k)) [''provider'', ''model'', ''reasoningEffort'', ''temperature'', ''maxTokens'']
      then False
      else case (jget a ''stop'', jget b ''stop'') of
        (Some s, Some t) \<Rightarrow> length (string_items s) = length (string_items t)
          \<and> list_all (\<lambda>(x, y). strict_eq x y) (zip (string_items s) (string_items t))
      | (x, y) \<Rightarrow> x = y)"

definition sameSchema :: "(rat \<Rightarrow> string) \<Rightarrow> json \<Rightarrow> json \<Rightarrow> bool" where
  "sameSchema ft a b = (stringify ft a = stringify ft b)"

definition config_of :: "json \<Rightarrow> json" where
  "config_of h = (case jget h ''config'' of None \<Rightarrow> JNull | Some c \<Rightarrow> c)"

definition headerEquals :: "(rat \<Rightarrow> string) \<Rightarrow> json \<Rightarrow> json \<Rightarrow> bool" where
  "headerEquals ft a b =
     (if \<not> callConfigEquals (config_of a) (config_of b)
         \<or> \<not> strict_eq (adapter_default a ''reasoningEffort'') (adapter_default b ''reasoningEffort'')
         \<or> \<not> strict_eq (adapter_default a ''maxTokens'') (adapter_default b ''maxTokens'')
      then False
      else let ta = header_tool_list a; tb = header_tool_list b in
        length ta = length tb \<and> list_all (\<lambda>(x, y). sameSchema ft x y) (zip ta tb))"

definition event_header :: "raw_event \<Rightarrow> json option" where
  "event_header e = (if etype e = ''request/header'' then
     Some (case jget (edata e) ''header'' of Some h \<Rightarrow> h | None \<Rightarrow> JNull) else None)"

definition foldRequestHeader :: "raw_event list \<Rightarrow> json option \<Rightarrow> json option" where
  "foldRequestHeader events from =
     foldl (\<lambda>s e. case event_header e of Some h \<Rightarrow> Some (canonicalHeader h) | None \<Rightarrow> s) from events"

lemma foldRequestHeader_append: "foldRequestHeader (xs @ ys) from = foldRequestHeader ys (foldRequestHeader xs from)"
  by (simp add: foldRequestHeader_def split: option.split)

lemma foldRequestHeader_snoc:
  "foldRequestHeader (xs @ [e]) from = (case event_header e of Some h \<Rightarrow> Some (canonicalHeader h) | None \<Rightarrow> foldRequestHeader xs from)"
  by (simp add: foldRequestHeader_def split: option.split)

lemma header_tools_canonical [simp]: "header_tool_list (canonicalHeader h) = header_tool_list h"
proof -
  have "jget (canonicalHeader h) ''tools'' = (if header_tool_list h \<noteq> [] then Some (JArr (header_tool_list h)) else None)"
    by (auto simp: canonicalHeader_def hdr_entry_def split: option.splits)
  then show ?thesis by (simp add: header_tool_list_def [of "canonicalHeader h"])
qed

lemma adapter_default_canonical:
  "adapter_default h k = Some (JBool True) \<Longrightarrow> k \<in> {''reasoningEffort'', ''maxTokens''} \<Longrightarrow>
     adapter_default (canonicalHeader h) k = Some (JBool True)"
  by (auto simp: adapter_default_def canonicalHeader_def hdr_entry_def split: option.splits)

text \<open>Normalising twice is normalising once, so a stored canonical header folds to itself.\<close>

lemma canonicalHeader_idem: "canonicalHeader (canonicalHeader h) = canonicalHeader h"
proof -
  define flag where "flag h' = (adapter_default h' ''reasoningEffort'' = Some (JBool True) \<or> adapter_default h' ''maxTokens'' = Some (JBool True))" for h'
  have c: "canonicalHeader h' = JObj (hdr_entry h' ''config'' @ (if flag h' then hdr_entry h' ''adapterDefaults'' else [])
      @ (if header_tool_list h' \<noteq> [] then [(''tools'', JArr (header_tool_list h'))] else []))" for h'
    by (simp add: canonicalHeader_def flag_def)
  have g: "jget (canonicalHeader h) ''config'' = jget h ''config''"
      "jget (canonicalHeader h) ''adapterDefaults'' = (if flag h then jget h ''adapterDefaults'' else None)"
    by (auto simp: c hdr_entry_def split: option.splits)
  then have e: "hdr_entry (canonicalHeader h) ''config'' = hdr_entry h ''config''"
      "hdr_entry (canonicalHeader h) ''adapterDefaults'' = (if flag h then hdr_entry h ''adapterDefaults'' else [])"
    by (simp_all add: hdr_entry_def)
  have "flag (canonicalHeader h) = flag h" by (auto simp: flag_def adapter_default_def g split: option.splits)
  then show ?thesis by (simp add: c [of "canonicalHeader h"] e) (simp add: c)
qed

end
