(* ===== verification/Token_Meter.thy ===== *)
theory Token_Meter
  imports Turn_Usage Surface_Laws Request_Header
begin

text \<open>
  Context metering (\<open>packages/llm/token-meter/src\<close>): the fixed-density estimator (\<open>estimate.ts\<close>), the
  priced surface with its plan and commit (\<open>surface-fold.ts\<close>), the context-breakdown projection
  (\<open>breakdown-projection.ts\<close>), and the constant-size context-pressure projection with its shadow prices
  (\<open>surface-projection.ts\<close>, \<open>usage-projection.ts\<close>). Events and messages are raw JSON, as in theory
  Session-Surface.
\<close>

section \<open>Estimates\<close>

definition ceil4 :: "nat \<Rightarrow> nat" where
  "ceil4 n = (n + 3) div 4"

definition is_type :: "string \<Rightarrow> json \<Rightarrow> bool" where
  "is_type t b = (jget b ''type'' = Some (JStr t))"

definition string_of :: "json \<Rightarrow> string \<Rightarrow> string" where
  "string_of b k = json_string (jget b k)"

definition estimateStructuralBlock :: "(rat \<Rightarrow> string) \<Rightarrow> json \<Rightarrow> nat" where
  "estimateStructuralBlock ft b =
     (let reference = (if is_type ''image'' b then (case b of JObj fs \<Rightarrow> JObj (amap_del fs ''offloaded'') | _ \<Rightarrow> b) else b)
      in 4 + ceil4 (length (stringify ft reference)))"

definition estimateContent :: "(rat \<Rightarrow> string) \<Rightarrow> json list \<Rightarrow> nat" where
  "estimateContent ft bs = sum_list (map (\<lambda>b.
     if is_type ''text'' b \<or> is_type ''reasoning'' b then ceil4 (length (string_of b ''text'')) + 4
     else if is_type ''tool-call'' b then ceil4 (length (string_of b ''name'')) + ceil4 (length (string_of b ''arguments'')) + 4
     else estimateStructuralBlock ft b) bs)"

definition content_of :: "json \<Rightarrow> json list" where
  "content_of m = (case jget m ''content'' of Some (JArr bs) \<Rightarrow> bs | _ \<Rightarrow> [])"

definition estimateSystemMessage :: "(rat \<Rightarrow> string) \<Rightarrow> json \<Rightarrow> nat" where
  "estimateSystemMessage ft m = (if content_of m = [] then 0
     else ceil4 (sum_list (map (\<lambda>b. if is_type ''text'' b then length (string_of b ''text'') else length (stringify ft b)) (content_of m))) + 4)"

definition estimateMessage :: "(rat \<Rightarrow> string) \<Rightarrow> json \<Rightarrow> nat" where
  "estimateMessage ft m = (if jget m ''role'' = Some (JStr ''system'') then estimateSystemMessage ft m
     else estimateContent ft (content_of m) + 4)"

definition estimateToolsTokens :: "(rat \<Rightarrow> string) \<Rightarrow> json option \<Rightarrow> nat" where
  "estimateToolsTokens ft header = (case header of
     None \<Rightarrow> 0
   | Some h \<Rightarrow> if header_tool_list h = [] then 0 else ceil4 (length (stringify ft (JArr (header_tool_list h)))) + 4)"

section \<open>The priced surface\<close>

record meter_node =
  mn_seq :: nat
  mn_tokens :: nat
  mn_image_tokens :: nat
  mn_file_tokens :: nat
  mn_images :: "json list"
  mn_files :: "json list"

datatype meter_error = Invalid_Range nat nat nat | Wrong_Shadow_Price nat | Bad_Claim_Seq

text \<open>Where a plan commits.\<close>

datatype target = At_End | At_Range nat nat

record 'n token_plan =
  tp_tokens :: nat
  tp_delta :: int
  tp_node :: 'n
  tp_target :: target

definition attachment_of :: "json \<Rightarrow> json" where
  "attachment_of b = (case jget b ''attachment'' of Some a \<Rightarrow> a | None \<Rightarrow> JNull)"

definition collectProjectedAttachments ::
  "(rat \<Rightarrow> string) \<Rightarrow> json list \<Rightarrow> json list \<times> json list \<times> nat \<times> nat" where
  "collectProjectedAttachments ft bs = foldl (\<lambda>(images, files, it, ft_tokens) b.
     if is_type ''image'' b then (images @ [b], files, it + estimateStructuralBlock ft b, ft_tokens)
     else if is_type ''file'' b then (images, files @ [attachment_of b], it, ft_tokens + estimateStructuralBlock ft b)
     else (images, files, it, ft_tokens)) ([], [], 0, 0) bs"

definition analyzeNode :: "(rat \<Rightarrow> string) \<Rightarrow> nat \<Rightarrow> json option \<Rightarrow> meter_node" where
  "analyzeNode ft s message = (case message of
     None \<Rightarrow> \<lparr>mn_seq = s, mn_tokens = 0, mn_image_tokens = 0, mn_file_tokens = 0, mn_images = [], mn_files = []\<rparr>
   | Some m \<Rightarrow> (case collectProjectedAttachments ft (content_of m) of (images, files, it, fl) \<Rightarrow>
       \<lparr>mn_seq = s, mn_tokens = estimateMessage ft m, mn_image_tokens = it, mn_file_tokens = fl,
        mn_images = images, mn_files = files\<rparr>))"

text \<open>The two bounds of a replacement operation.\<close>

definition op_start :: "raw_event \<Rightarrow> nat" where
  "op_start e = (case surface_op e of Some op \<Rightarrow> seq_field op ''startSeq'' | None \<Rightarrow> 0)"

definition op_end :: "raw_event \<Rightarrow> nat" where
  "op_end e = (case surface_op e of Some op \<Rightarrow> seq_field op ''endSeq'' | None \<Rightarrow> 0)"

text \<open>The surface passed in is the list of sequence numbers and prices.\<close>

definition planSurfaceTokens ::
  "(rat \<Rightarrow> string) \<Rightarrow> (nat \<times> nat) list \<Rightarrow> raw_event \<Rightarrow> (meter_error, meter_node token_plan) res" where
  "planSurfaceTokens ft priced e =
     (let node = analyzeNode ft (eseq e) (deriveEventMessage e []); tokens = mn_tokens node in
      if surface_op e = Some (JStr ''append'') then
        Inr \<lparr>tp_tokens = tokens, tp_delta = int tokens, tp_node = node, tp_target = At_End\<rparr>
      else (case (index_of (map fst priced) (op_start e), index_of (map fst priced) (op_end e)) of
        (Some i, Some j) \<Rightarrow>
          if i > j then Inl (Invalid_Range (eseq e) (op_start e) (op_end e))
          else Inr \<lparr>tp_tokens = tokens, tp_delta = int tokens - int (sum_list (map snd (take (j + 1 - i) (drop i priced)))),
                 tp_node = node, tp_target = At_Range i j\<rparr>
      | _ \<Rightarrow> Inl (Invalid_Range (eseq e) (op_start e) (op_end e))))"

definition commitSurfaceTokens :: "'n list \<Rightarrow> 'n token_plan \<Rightarrow> 'n list" where
  "commitSurfaceTokens ns plan = (case tp_target plan of
     At_End \<Rightarrow> ns @ [tp_node plan]
   | At_Range i j \<Rightarrow> spliced ns i (j - i + 1) [tp_node plan])"

section \<open>The context breakdown\<close>

record breakdown_node =
  bn_seq :: nat
  bn_tokens :: nat
  bn_system :: bool

record breakdown =
  bd_nodes :: "breakdown_node list"
  bd_system :: nat
  bd_tools :: nat
  bd_messages :: int

definition breakdown_init :: breakdown where
  "breakdown_init = \<lparr>bd_nodes = [], bd_system = 0, bd_tools = 0, bd_messages = 0\<rparr>"

definition last_system :: "breakdown_node list \<Rightarrow> nat" where
  "last_system ns = (case filter (\<lambda>n. bn_system n \<and> bn_tokens n > 0) ns of [] \<Rightarrow> 0 | xs \<Rightarrow> bn_tokens (last xs))"

definition breakdown_apply :: "(rat \<Rightarrow> string) \<Rightarrow> breakdown \<Rightarrow> raw_event \<Rightarrow> (meter_error, breakdown) res" where
  "breakdown_apply ft s e = (case event_header e of
     Some h \<Rightarrow> Inr (s\<lparr>bd_tools := estimateToolsTokens ft (Some (canonicalHeader h))\<rparr>)
   | None \<Rightarrow>
       if \<not> isSurfaceEvent e then Inr s
       else rbind (planSurfaceTokens ft (map (\<lambda>n. (bn_seq n, bn_tokens n)) (bd_nodes s)) e) (\<lambda>plan.
         let ns = commitSurfaceTokens (bd_nodes s)
               \<lparr>tp_tokens = tp_tokens plan, tp_delta = tp_delta plan,
                tp_node = \<lparr>bn_seq = eseq e, bn_tokens = tp_tokens plan, bn_system = (etype e = ''system/message'')\<rparr>,
                tp_target = tp_target plan\<rparr>;
             system = last_system ns
         in Inr \<lparr>bd_nodes = ns, bd_system = system, bd_tools = bd_tools s,
               bd_messages = int (bd_system s) + bd_messages s + tp_delta plan - int system\<rparr>))"

definition breakdown_fold :: "(rat \<Rightarrow> string) \<Rightarrow> raw_event list \<Rightarrow> (meter_error, breakdown) res" where
  "breakdown_fold ft es = fold_res (breakdown_apply ft) breakdown_init es"

section \<open>Shadow prices\<close>

record shadow_claim =
  sc_start :: nat
  sc_end :: nat
  sc_tokens :: rat

definition claim_seq :: "json \<Rightarrow> string \<Rightarrow> (meter_error, nat) res" where
  "claim_seq rng k = (case jget rng k of Some v \<Rightarrow> if isEventSeq v then Inr (seq_val v) else Inl Bad_Claim_Seq | None \<Rightarrow> Inl Bad_Claim_Seq)"

definition is_pricing :: "raw_event \<Rightarrow> bool" where
  "is_pricing e = (etype e = ''compaction/summary'' \<or> etype e = ''compaction/prune'')"

definition armed_claim :: "raw_event \<Rightarrow> (meter_error, shadow_claim) res" where
  "armed_claim e =
     (let rng = (case jget (edata e) ''shadowedRange'' of Some r \<Rightarrow> r | None \<Rightarrow> JNull) in
      rbind (claim_seq rng ''start'') (\<lambda>s. rbind (claim_seq rng ''end'') (\<lambda>t.
        Inr \<lparr>sc_start = s, sc_end = t, sc_tokens = number_field (edata e) ''shadowedTokenCount''\<rparr>)))"

text \<open>\<open>foldSurfaceProjection\<close>: the signed change of the total and the claim to carry.\<close>

definition foldSurfaceProjection ::
  "(rat \<Rightarrow> string) \<Rightarrow> shadow_claim option \<Rightarrow> raw_event \<Rightarrow> (meter_error, rat \<times> shadow_claim option) res" where
  "foldSurfaceProjection ft claim e =
     (if is_pricing e then rbind (armed_claim e) (\<lambda>c. Inr (0, Some c))
      else if \<not> isSurfaceEvent e then Inr (0, None)
      else let tokens = (case deriveEventMessage e [] of None \<Rightarrow> 0 | Some m \<Rightarrow> estimateMessage ft m) in
        if surface_op e = Some (JStr ''append'') then Inr (of_nat tokens, None)
        else (case claim of
          None \<Rightarrow> Inr (0, None)
        | Some c \<Rightarrow> if sc_start c \<noteq> op_start e \<or> sc_end c \<noteq> op_end e then Inl (Wrong_Shadow_Price (eseq e))
            else Inr (of_nat tokens - sc_tokens c, None)))"

section \<open>The context pressure\<close>

record pressure =
  cp_window :: "json option"
  cp_tokens :: "rat option"
  cp_surface :: rat
  cp_sampled :: "rat option"
  cp_claim :: "shadow_claim option"

definition pressure_init :: pressure where
  "pressure_init = \<lparr>cp_window = None, cp_tokens = None, cp_surface = 0, cp_sampled = None, cp_claim = None\<rparr>"

definition pressureFrom :: "json \<Rightarrow> rat" where
  "pressureFrom u = number_field u ''inputTokens'' + number_field u ''cacheReadTokens'' + number_field u ''cacheWriteTokens''"

text \<open>The last usage chunk of a stored stream, and the usage an event reports.\<close>

definition usage_record :: "json \<Rightarrow> json option" where
  "usage_record r = (if is_type ''chunk'' r then (case jget r ''chunk'' of
     Some c \<Rightarrow> if is_type ''usage'' c then Some c else None | None \<Rightarrow> None) else None)"

definition stored_usage :: "raw_event \<Rightarrow> json option" where
  "stored_usage e = (case jget (edata e) ''stream'' of Some (JArr rs) \<Rightarrow>
     (case first_some usage_record (rev rs) of Some c \<Rightarrow> jget c ''usage'' | None \<Rightarrow> None) | _ \<Rightarrow> None)"

definition event_usage :: "raw_event \<Rightarrow> json option" where
  "event_usage e =
     (if etype e = ''assistant/message'' \<and> jget (edata e) ''usage'' \<noteq> None then jget (edata e) ''usage''
      else if etype e \<noteq> ''assistant/message'' \<and> etype e \<noteq> ''assistant/attempt'' then None
      else stored_usage e)"

definition pressure_apply :: "(rat \<Rightarrow> string) \<Rightarrow> pressure \<Rightarrow> raw_event \<Rightarrow> (meter_error, pressure) res" where
  "pressure_apply ft s e = rbind (foldSurfaceProjection ft (cp_claim s) e) (\<lambda>(delta, claim).
     let s1 = (if etype e = ''request/context'' then s\<lparr>cp_window := jget (edata e) ''contextWindow''\<rparr> else s);
         s2 = (case event_usage e of None \<Rightarrow> s1
               | Some u \<Rightarrow> s1\<lparr>cp_tokens := Some (pressureFrom u), cp_sampled := Some (cp_surface s1)\<rparr>);
         s3 = s2\<lparr>cp_surface := cp_surface s2 + delta\<rparr>
     in Inr (s3\<lparr>cp_claim := claim\<rparr>))"

definition pressure_fold :: "(rat \<Rightarrow> string) \<Rightarrow> raw_event list \<Rightarrow> (meter_error, pressure) res" where
  "pressure_fold ft es = fold_res (pressure_apply ft) pressure_init es"

text \<open>What the view publishes: the window, the pressure, and the projected size of the next request.\<close>

definition projectedTokens :: "pressure \<Rightarrow> rat option" where
  "projectedTokens s = (case (cp_tokens s, cp_sampled s) of
     (Some p, Some sampled) \<Rightarrow> Some (max 0 (p + cp_surface s - sampled)) | _ \<Rightarrow> None)"

end
