(* ===== verification/Meter_Laws.thy ===== *)
theory Meter_Laws
  imports Token_Meter
begin

text \<open>
  The meters against the surface fold of theory Session-Surface: on every log the fold accepts, the context
  breakdown prices exactly the nodes of the surface, and the constant-size pressure projection carries the
  same total whenever each replacement is preceded by an honest shadow price.
\<close>

section \<open>Prices\<close>

definition price :: "(rat \<Rightarrow> string) \<Rightarrow> raw_event \<Rightarrow> nat" where
  "price ft e = (case deriveEventMessage e [] of None \<Rightarrow> 0 | Some m \<Rightarrow> estimateMessage ft m)"

lemma analyzed_price: "mn_tokens (analyzeNode ft s (deriveEventMessage e [])) = price ft e"
  by (auto simp: analyzeNode_def price_def split: option.split prod.split)

text \<open>The total of a surface of the log \<open>evs\<close>.\<close>

definition surface_total :: "(rat \<Rightarrow> string) \<Rightarrow> raw_event list \<Rightarrow> nat list \<Rightarrow> nat" where
  "surface_total ft evs ns = sum_list (map (\<lambda>s. price ft (evs ! s)) ns)"

lemma surface_total_append: "surface_total ft evs (xs @ ys) = surface_total ft evs xs + surface_total ft evs ys"
  by (simp add: surface_total_def)

lemma surface_total_spliced:
  assumes "i + n \<le> length xs"
  shows "int (surface_total ft evs (spliced xs i n ys))
     = int (surface_total ft evs xs) + int (surface_total ft evs ys) - int (surface_total ft evs (take n (drop i xs)))"
proof -
  have "surface_total ft evs xs = surface_total ft evs (take i xs @ take n (drop i xs) @ drop (i + n) xs)"
    by (simp add: take_slice_drop [of xs i n, symmetric])
  then show ?thesis by (simp add: spliced_def surface_total_append)
qed

section \<open>The accepted operations\<close>

lemma surfaceOpOf_append: "surfaceOpOf e = Inr (Some OpAppend) \<Longrightarrow> surface_op e = Some (JStr ''append'')"
  by (auto simp: surfaceOpOf_def split: if_splits option.splits)

lemma surfaceOpOf_replace:
  "surfaceOpOf e = Inr (Some (OpReplace s t)) \<Longrightarrow>
     surface_op e \<noteq> Some (JStr ''append'') \<and> surface_op e \<noteq> None \<and> op_start e = s \<and> op_end e = t"
  by (auto simp: surfaceOpOf_def op_start_def op_end_def split: if_splits option.splits)

definition unprojected :: "projection_def list \<Rightarrow> bool" where
  "unprojected ps = list_all (\<lambda>p. \<not> isSurfaceEligibleType (p_type p)) ps"

lemma unprojected_find: "unprojected ps \<Longrightarrow> find_projection ps t = Some p \<Longrightarrow> \<not> isSurfaceEligibleType t"
  by (auto simp: unprojected_def find_projection_def find_Some_iff list_all_iff)

text \<open>What a planned event does to the surface, in the terms the meters read.\<close>

lemma planned_event:
  assumes "planSurfaceEvent ps st e q evs base = Inr plan" "unprojected ps"
  obtains (off) "\<not> isSurfaceEvent e" "nodes (applySurfacePlan st plan) = nodes st"
    | (append) "isSurfaceEvent e" "surface_op e = Some (JStr ''append'')" "nodes (applySurfacePlan st plan) = nodes st @ [q]"
    | (replace) i j where "isSurfaceEvent e" "surface_op e \<noteq> Some (JStr ''append'')"
        "replacementRange st (op_start e) (op_end e) = Inr (i, j, take (j + 1 - i) (drop i (nodes st)))"
        "nodes (applySurfacePlan st plan) = spliced (nodes st) i (j - i + 1) [q]"
proof (cases rule: planSurfaceEvent_cases [OF assms(1)])
  case (1 p ms)
  then have "\<not> isSurfaceEvent e" using unprojected_find [OF assms(2)] by (auto simp: isSurfaceEvent_def)
  then show ?thesis using 1 off by simp
next
  case 2
  then show ?thesis using off by simp
next
  case 3
  have "\<exists>op. surfaceOpOf e = Inr op \<and> op = Some OpAppend"
    using assms(1) 3
    by (auto simp: planSurfaceEvent_def rbind_eq_Inr dest!: validateSurfaceMetadata_Inr
      split: if_splits option.splits surface_op_t.splits dest: plan_replace_Inr)
  then show ?thesis using append 3 surfaceOpOf_append by auto
next
  case (4 s t i j sh)
  have "surfaceOpOf e = Inr (Some (OpReplace s t))"
    using assms(1) 4
    by (auto simp: planSurfaceEvent_def rbind_eq_Inr dest!: validateSurfaceMetadata_Inr
      split: if_splits option.splits surface_op_t.splits dest!: plan_replace_Inr)
  then have o': "surface_op e \<noteq> Some (JStr ''append'')" "op_start e = s" "op_end e = t" using surfaceOpOf_replace by auto
  have "sh = take (j + 1 - i) (drop i (nodes st))" using replacementRange_Inr [OF 4(5)] by simp
  then show ?thesis using replace [of i j] 4 o' by simp
qed

lemma planned_seq: "planSurfaceEvent ps st e q evs base = Inr plan \<Longrightarrow> eseq e = q"
  by (auto simp: planSurfaceEvent_def split: if_splits)

lemma replacementRange_index:
  "replacementRange st s t = Inr (i, j, sh) \<Longrightarrow> index_of (nodes st) s = Some i \<and> index_of (nodes st) t = Some j \<and> i \<le> j \<and> j < length (nodes st)"
  by (frule replacementRange_Inr) (auto simp: replacementRange_def split: option.splits if_splits)

section \<open>The breakdown\<close>

definition node_of :: "(rat \<Rightarrow> string) \<Rightarrow> raw_event list \<Rightarrow> nat \<Rightarrow> breakdown_node" where
  "node_of ft evs s = \<lparr>bn_seq = s, bn_tokens = price ft (evs ! s), bn_system = (etype (evs ! s) = ''system/message'')\<rparr>"

lemma node_of_fields [simp]: "bn_seq (node_of ft evs s) = s" "bn_tokens (node_of ft evs s) = price ft (evs ! s)"
  by (simp_all add: node_of_def)

lemma planned_tokens:
  assumes "planSurfaceEvent ps st (evs ! k) k evs base = Inr plan" "unprojected ps" "isSurfaceEvent (evs ! k)"
    and "priced = map (\<lambda>s. (s, price ft (evs ! s))) (nodes st)"
  shows "\<exists>tplan. planSurfaceTokens ft priced (evs ! k) = Inr tplan \<and> tp_tokens tplan = price ft (evs ! k)
     \<and> int (surface_total ft evs (nodes st)) + tp_delta tplan = int (surface_total ft evs (nodes (applySurfacePlan st plan)))
     \<and> commitSurfaceTokens (map (node_of ft evs) (nodes st)) (\<lparr>tp_tokens = tp_tokens tplan, tp_delta = tp_delta tplan,
          tp_node = node_of ft evs k, tp_target = tp_target tplan\<rparr>) = map (node_of ft evs) (nodes (applySurfacePlan st plan))"
proof -
  let ?e = "evs ! k"
  have q: "eseq ?e = k" using planned_seq [OF assms(1)] .
  have tok: "mn_tokens (analyzeNode ft (eseq ?e) (deriveEventMessage ?e [])) = price ft ?e" by (rule analyzed_price)
  have one: "surface_total ft evs [k] = price ft ?e" by (simp add: surface_total_def)
  show ?thesis
    using assms(1,2)
  proof (cases rule: planned_event)
    case off
    then show ?thesis using assms(3) by simp
  next
    case append
    then show ?thesis
      by (simp add: planSurfaceTokens_def Let_def tok commitSurfaceTokens_def surface_total_append one)
  next
    case (replace i j)
    note ix = replacementRange_index [OF replace(3)]
    have fst: "map fst priced = nodes st" by (simp add: assms(4) comp_def)
    have sum: "sum_list (map snd (take (j + 1 - i) (drop i priced))) = surface_total ft evs (take (j - i + 1) (drop i (nodes st)))"
      using ix by (simp add: assms(4) take_map drop_map comp_def surface_total_def Suc_diff_le)
    have sp: "int (surface_total ft evs (spliced (nodes st) i (j - i + 1) [k]))
        = int (surface_total ft evs (nodes st)) + int (price ft ?e) - int (surface_total ft evs (take (j - i + 1) (drop i (nodes st))))"
      using surface_total_spliced [of i "j - i + 1" "nodes st" ft evs "[k]"] ix by (simp add: one)
    have "map (node_of ft evs) (spliced (nodes st) i (j - i + 1) [k]) = spliced (map (node_of ft evs) (nodes st)) i (j - i + 1) [node_of ft evs k]"
      by (simp add: spliced_def take_map drop_map)
    then show ?thesis
      using replace ix sum sp by (simp add: planSurfaceTokens_def Let_def tok fst commitSurfaceTokens_def)
  qed
qed

lemma last_system_le: "last_system ns \<le> sum_list (map bn_tokens ns)"
proof -
  define xs where "xs = filter (\<lambda>n. bn_system n \<and> bn_tokens n > 0) ns"
  show ?thesis
  proof (cases xs)
    case Nil
    then show ?thesis by (simp add: last_system_def xs_def)
  next
    case (Cons a as)
    then have "last xs \<in> set xs" by simp
    then have "last xs \<in> set ns" by (simp add: xs_def)
    then have "bn_tokens (last xs) \<le> sum_list (map bn_tokens ns)" by (intro member_le_sum_list) auto
    then show ?thesis using Cons by (simp add: last_system_def xs_def)
  qed
qed

text \<open>What holds of a breakdown whatever the events: its shares add up to its entries, so no share is negative.\<close>

definition breakdown_wf :: "breakdown \<Rightarrow> bool" where
  "breakdown_wf b \<longleftrightarrow> bd_system b = last_system (bd_nodes b)
     \<and> int (bd_system b) + bd_messages b = int (sum_list (map bn_tokens (bd_nodes b)))"

lemma breakdown_wf_messages: "breakdown_wf b \<Longrightarrow> 0 \<le> bd_messages b"
  using last_system_le [of "bd_nodes b"] unfolding breakdown_wf_def by linarith

lemma sum_spliced_one:
  fixes f :: "'a \<Rightarrow> nat"
  assumes "i + n \<le> length xs"
  shows "int (sum_list (map f (spliced xs i n [y]))) = int (sum_list (map f xs)) + int (f y) - int (sum_list (map f (take n (drop i xs))))"
proof -
  have "sum_list (map f xs) = sum_list (map f (take i xs @ take n (drop i xs) @ drop (i + n) xs))"
    by (simp add: take_slice_drop [of xs i n, symmetric])
  then show ?thesis by (simp add: spliced_def)
qed

lemma committed_sum:
  assumes "planSurfaceTokens ft (map (\<lambda>n. (bn_seq n, bn_tokens n)) ns) e = Inr plan" "bn_tokens y = tp_tokens plan"
  shows "int (sum_list (map bn_tokens (commitSurfaceTokens ns \<lparr>tp_tokens = k, tp_delta = d, tp_node = y, tp_target = tp_target plan\<rparr>)))
    = int (sum_list (map bn_tokens ns)) + tp_delta plan"
proof (cases "surface_op e = Some (JStr ''append'')")
  case True
  then show ?thesis using assms by (auto simp: planSurfaceTokens_def Let_def commitSurfaceTokens_def)
next
  case False
  then obtain i j where ij: "index_of (map bn_seq ns) (op_start e) = Some i" "index_of (map bn_seq ns) (op_end e) = Some j" "i \<le> j"
      "tp_target plan = At_Range i j"
      "tp_delta plan = int (tp_tokens plan) - int (sum_list (map bn_tokens (take (j + 1 - i) (drop i ns))))"
    using assms(1) by (auto simp: planSurfaceTokens_def Let_def comp_def take_map drop_map split: option.splits if_splits)
  have "i + (j - i + 1) \<le> length ns" using index_of_Some [OF ij(2)] ij(3) by simp
  from sum_spliced_one [OF this, of bn_tokens y] show ?thesis
    using ij(3-5) assms(2) by (simp add: commitSurfaceTokens_def Suc_diff_le)
qed

interpretation context_unit: event_projection breakdown_init "breakdown_apply ft" breakdown_wf for ft
proof unfold_locales
  show "breakdown_wf breakdown_init" by (simp add: breakdown_wf_def breakdown_init_def last_system_def)
next
  fix b e b'
  assume wf: "breakdown_wf b" and run: "breakdown_apply ft b e = Inr b'"
  show "breakdown_wf b'"
  proof (cases "event_header e = None \<and> isSurfaceEvent e")
    case False
    then show ?thesis using wf run by (auto simp: breakdown_apply_def breakdown_wf_def split: option.splits if_splits)
  next
    case True
    define y where "y plan = \<lparr>bn_seq = eseq e, bn_tokens = tp_tokens plan, bn_system = (etype e = ''system/message'')\<rparr>"
      for plan :: "meter_node token_plan"
    obtain plan where p: "planSurfaceTokens ft (map (\<lambda>n. (bn_seq n, bn_tokens n)) (bd_nodes b)) e = Inr plan"
        "b' = (let ns = commitSurfaceTokens (bd_nodes b) \<lparr>tp_tokens = tp_tokens plan, tp_delta = tp_delta plan, tp_node = y plan,
              tp_target = tp_target plan\<rparr> in \<lparr>bd_nodes = ns, bd_system = last_system ns, bd_tools = bd_tools b,
           bd_messages = int (bd_system b) + bd_messages b + tp_delta plan - int (last_system ns)\<rparr>)"
      using True run by (auto simp: breakdown_apply_def rbind_eq_Inr Let_def y_def)
    show ?thesis using committed_sum [OF p(1), of "y plan"] wf p(2) by (simp add: Let_def breakdown_wf_def y_def)
  qed
qed

definition breakdown_inv :: "(rat \<Rightarrow> string) \<Rightarrow> raw_event list \<Rightarrow> nat \<Rightarrow> surface_state \<Rightarrow> breakdown \<Rightarrow> bool" where
  "breakdown_inv ft evs k st b \<longleftrightarrow> bd_nodes b = map (node_of ft evs) (nodes st) \<and> bd_system b = last_system (bd_nodes b)
     \<and> int (bd_system b) + bd_messages b = int (surface_total ft evs (nodes st))
     \<and> bd_tools b = estimateToolsTokens ft (foldRequestHeader (take k evs) None)"

lemma header_not_surface: "event_header e = Some h \<Longrightarrow> \<not> isSurfaceEvent e"
  by (auto simp: event_header_def isSurfaceEvent_def isSurfaceEligibleType_def SURFACE_EVENT_TYPES_def split: if_splits)

lemma breakdown_step:
  assumes "breakdown_inv ft evs k st b" "k < length evs" "unprojected ps"
    and plan: "planSurfaceEvent ps st (evs ! k) k evs base = Inr plan"
  shows "\<exists>b'. breakdown_apply ft b (evs ! k) = Inr b' \<and> breakdown_inv ft evs (Suc k) (applySurfacePlan st plan) b'"
proof -
  let ?e = "evs ! k"
  have hdr: "foldRequestHeader (take (Suc k) evs) None =
      (case event_header ?e of Some h \<Rightarrow> Some (canonicalHeader h) | None \<Rightarrow> foldRequestHeader (take k evs) None)"
    using assms(2) by (simp add: take_Suc_conv_app_nth foldRequestHeader_snoc)
  have still: "nodes (applySurfacePlan st plan) = nodes st" if "\<not> isSurfaceEvent ?e"
    by (rule planned_event [OF plan assms(3)]) (use that in auto)
  show ?thesis
  proof (cases "event_header ?e")
    case (Some h)
    then show ?thesis using assms(1) still [OF header_not_surface [OF Some]]
      by (auto simp: breakdown_apply_def breakdown_inv_def hdr)
  next
    case None
    show ?thesis
    proof (cases "isSurfaceEvent ?e")
      case False
      then show ?thesis using assms(1) still [OF False] None by (auto simp: breakdown_apply_def breakdown_inv_def hdr)
    next
      case True
      have pr: "map (\<lambda>n. (bn_seq n, bn_tokens n)) (bd_nodes b) = map (\<lambda>s. (s, price ft (evs ! s))) (nodes st)"
        using assms(1) by (simp add: breakdown_inv_def)
      from planned_tokens [OF plan assms(3) True pr] obtain tplan where tp:
        "planSurfaceTokens ft (map (\<lambda>n. (bn_seq n, bn_tokens n)) (bd_nodes b)) ?e = Inr tplan" "tp_tokens tplan = price ft ?e"
        "int (surface_total ft evs (nodes st)) + tp_delta tplan = int (surface_total ft evs (nodes (applySurfacePlan st plan)))"
        "commitSurfaceTokens (map (node_of ft evs) (nodes st)) (\<lparr>tp_tokens = tp_tokens tplan, tp_delta = tp_delta tplan,
          tp_node = node_of ft evs k, tp_target = tp_target tplan\<rparr>) = map (node_of ft evs) (nodes (applySurfacePlan st plan))"
        by blast
      have node: "\<lparr>bn_seq = eseq ?e, bn_tokens = price ft ?e, bn_system = (etype ?e = ''system/message'')\<rparr> = node_of ft evs k"
        using planned_seq [OF plan] by (simp add: node_of_def)
      have inv: "bd_nodes b = map (node_of ft evs) (nodes st)" "bd_tools b = estimateToolsTokens ft (foldRequestHeader (take k evs) None)"
        "int (bd_system b) + bd_messages b = int (surface_total ft evs (nodes st))" using assms(1) by (auto simp: breakdown_inv_def)
      show ?thesis using True None tp(1) tp(3) tp(4) [unfolded tp(2)] inv
        by (simp add: breakdown_apply_def breakdown_inv_def hdr Let_def tp(2) node)
    qed
  qed
qed

lemma breakdown_state_at:
  assumes "state_at ps evs 0 n = Inr st" "n \<le> length evs" "unprojected ps"
  shows "\<exists>b. breakdown_fold ft (take n evs) = Inr b \<and> breakdown_inv ft evs n st b"
  using assms(1,2)
proof (induction rule: state_at_induct)
  case base
  show ?case
    by (simp add: breakdown_fold_def breakdown_inv_def breakdown_init_def createFoldState_def last_system_def
      surface_total_def foldRequestHeader_def estimateToolsTokens_def)
next
  case (step k st plan)
  then obtain b where b: "breakdown_fold ft (take k evs) = Inr b" "breakdown_inv ft evs k st b" by blast
  obtain b' where "breakdown_apply ft b (evs ! k) = Inr b'" "breakdown_inv ft evs (Suc k) (applySurfacePlan st plan) b'"
    using breakdown_step [OF b(2) step(1) assms(3), of 0 plan] step(3) by auto
  then show ?case using b(1) step(1) by (simp add: breakdown_fold_def take_Suc_conv_app_nth fold_res_snoc)
qed

text \<open>
  Claim C37. The context breakdown is exact: on every log the surface fold accepts it never fails, its
  entries are the surface nodes with the prices of their own messages, the system share is the last nonempty
  system prompt on the surface, system and message shares (never negative) add up to the price of the whole
  surface, and the tool share prices the latest request header.
\<close>

theorem context_breakdown_exact:
  assumes "foldSurface ps evs = Inr (st, rs)" "unprojected ps"
  shows "\<exists>b. breakdown_fold ft evs = Inr b \<and> bd_nodes b = map (node_of ft evs) (nodes st)
     \<and> bd_system b = last_system (bd_nodes b) \<and> 0 \<le> bd_messages b
     \<and> int (bd_system b) + bd_messages b = int (surface_total ft evs (nodes st))
     \<and> bd_tools b = estimateToolsTokens ft (foldRequestHeader evs None)"
proof -
  obtain b where b: "breakdown_fold ft evs = Inr b" "breakdown_inv ft evs (length evs) st b"
    using breakdown_state_at [OF foldSurface_state_at [OF assms(1)] le_refl assms(2)] by auto
  have "0 \<le> bd_messages b"
    using context_unit.replay_inv [of ft evs b] b(1) breakdown_wf_messages by (simp add: breakdown_fold_def)
  then show ?thesis using b by (auto simp: breakdown_inv_def)
qed

section \<open>The pressure\<close>

text \<open>
  The shadow-price protocol: a pricing event names a valid range, and a replacement directly follows the
  pricing event of its exact range, with the price of the nodes it shadows.
\<close>

definition replaces :: "raw_event \<Rightarrow> bool" where
  "replaces e = (isSurfaceEvent e \<and> surface_op e \<noteq> Some (JStr ''append''))"

definition shadow_priced :: "(rat \<Rightarrow> string) \<Rightarrow> projection_def list \<Rightarrow> raw_event list \<Rightarrow> nat \<Rightarrow> bool" where
  "shadow_priced ft ps evs k = (0 < k \<and> is_pricing (evs ! (k - 1)) \<and>
     (case state_at ps evs 0 k of Inl _ \<Rightarrow> False
      | Inr st \<Rightarrow> (case replacementRange st (op_start (evs ! k)) (op_end (evs ! k)) of Inl _ \<Rightarrow> False
          | Inr (i, j, sh) \<Rightarrow> armed_claim (evs ! (k - 1)) = Inr \<lparr>sc_start = op_start (evs ! k), sc_end = op_end (evs ! k),
              sc_tokens = of_nat (surface_total ft evs sh)\<rparr>)))"

definition honest :: "(rat \<Rightarrow> string) \<Rightarrow> projection_def list \<Rightarrow> raw_event list \<Rightarrow> bool" where
  "honest ft ps evs = list_all (\<lambda>k. (is_pricing (evs ! k) \<longrightarrow> is_ok (armed_claim (evs ! k)))
     \<and> (replaces (evs ! k) \<longrightarrow> shadow_priced ft ps evs k)) [0..<length evs]"

text \<open>The last event before a position that reported usage, and the surface a prefix ends with.\<close>

definition usage_before :: "raw_event list \<Rightarrow> nat \<Rightarrow> nat option" where
  "usage_before evs k = List.find (\<lambda>i. event_usage (evs ! i) \<noteq> None) (rev [0..<k])"

definition total_at :: "(rat \<Rightarrow> string) \<Rightarrow> projection_def list \<Rightarrow> raw_event list \<Rightarrow> nat \<Rightarrow> nat" where
  "total_at ft ps evs k = (case state_at ps evs 0 k of Inl _ \<Rightarrow> 0 | Inr st \<Rightarrow> surface_total ft evs (nodes st))"

definition carried :: "raw_event list \<Rightarrow> nat \<Rightarrow> shadow_claim option" where
  "carried evs k = (if 0 < k \<and> is_pricing (evs ! (k - 1)) then (case armed_claim (evs ! (k - 1)) of Inr c \<Rightarrow> Some c | Inl _ \<Rightarrow> None)
     else None)"

definition pressure_inv :: "(rat \<Rightarrow> string) \<Rightarrow> projection_def list \<Rightarrow> raw_event list \<Rightarrow> nat \<Rightarrow> pressure \<Rightarrow> bool" where
  "pressure_inv ft ps evs k s \<longleftrightarrow> cp_surface s = of_nat (total_at ft ps evs k) \<and> cp_claim s = carried evs k
     \<and> cp_tokens s = map_option (\<lambda>i. pressureFrom (the (event_usage (evs ! i)))) (usage_before evs k)
     \<and> cp_sampled s = map_option (\<lambda>i. of_nat (total_at ft ps evs i)) (usage_before evs k)"

lemma pricing_off: "is_pricing e \<Longrightarrow> \<not> isSurfaceEvent e"
  by (auto simp: is_pricing_def isSurfaceEvent_def isSurfaceEligibleType_def SURFACE_EVENT_TYPES_def)

lemma usage_before_Suc:
  "usage_before evs (Suc k) = (if event_usage (evs ! k) \<noteq> None then Some k else usage_before evs k)"
  by (simp add: usage_before_def)

lemma folded_surface:
  assumes "state_at ps evs 0 k = Inr st" "k < length evs" "unprojected ps" "honest ft ps evs"
    and plan: "planSurfaceEvent ps st (evs ! k) k evs 0 = Inr plan"
  shows "\<exists>d. foldSurfaceProjection ft (carried evs k) (evs ! k) = Inr (d, carried evs (Suc k))
     \<and> of_nat (total_at ft ps evs k) + d = of_nat (total_at ft ps evs (Suc k))"
proof -
  let ?e = "evs ! k"
  have here: "total_at ft ps evs k = surface_total ft evs (nodes st)" using assms(1) by (simp add: total_at_def)
  have "state_at ps evs 0 (Suc k) = Inr (applySurfacePlan st plan)"
    unfolding state_at_Suc_Inr using assms(1) plan by auto
  then have there: "total_at ft ps evs (Suc k) = surface_total ft evs (nodes (applySurfacePlan st plan))"
    by (simp add: total_at_def del: state_at.simps)
  have hon: "is_pricing ?e \<Longrightarrow> is_ok (armed_claim ?e)" "replaces ?e \<Longrightarrow> shadow_priced ft ps evs k"
    using assms(2,4) by (auto simp: honest_def list_all_iff)
  have one: "surface_total ft evs [k] = price ft ?e" by (simp add: surface_total_def)
  have pr: "(case deriveEventMessage ?e [] of None \<Rightarrow> 0 | Some m \<Rightarrow> estimateMessage ft m) = price ft ?e"
    by (simp add: price_def)
  have nocarry: "carried evs (Suc k) = None" if "isSurfaceEvent ?e" using that pricing_off by (auto simp: carried_def)
  show ?thesis
    using plan assms(3)
  proof (cases rule: planned_event)
    case off
    show ?thesis
    proof (cases "is_pricing ?e")
      case True
      then obtain c where "armed_claim ?e = Inr c" using hon(1) by (auto simp: is_ok_iff)
      then show ?thesis using True off by (simp add: foldSurfaceProjection_def carried_def here there)
    next
      case False
      then show ?thesis using off by (simp add: foldSurfaceProjection_def carried_def here there)
    qed
  next
    case append
    then show ?thesis using pricing_off [of ?e] nocarry
      by (auto simp: foldSurfaceProjection_def Let_def pr here there surface_total_append one)
  next
    case (replace i j)
    have "replaces ?e" using replace by (simp add: replaces_def)
    then have priced: "0 < k" "is_pricing (evs ! (k - 1))"
      "armed_claim (evs ! (k - 1)) = Inr \<lparr>sc_start = op_start ?e, sc_end = op_end ?e,
         sc_tokens = of_nat (surface_total ft evs (take (j + 1 - i) (drop i (nodes st))))\<rparr>"
      using hon(2) replace(3) assms(1) by (auto simp: shadow_priced_def)
    note ix = replacementRange_index [OF replace(3)]
    have sp: "int (surface_total ft evs (spliced (nodes st) i (j - i + 1) [k]))
        = int (surface_total ft evs (nodes st)) + int (price ft ?e) - int (surface_total ft evs (take (j + 1 - i) (drop i (nodes st))))"
      using surface_total_spliced [of i "j - i + 1" "nodes st" ft evs "[k]"] ix by (simp add: one Suc_diff_le)
    define gone where "gone = surface_total ft evs (take (j + 1 - i) (drop i (nodes st)))"
    have "of_nat (surface_total ft evs (nodes st)) + (of_nat (price ft ?e) - of_nat gone)
        = (of_nat (surface_total ft evs (spliced (nodes st) i (j - i + 1) [k])) :: rat)"
      using arg_cong [OF sp, of "of_int :: int \<Rightarrow> rat"] by (simp add: gone_def)
    moreover have "foldSurfaceProjection ft (carried evs k) ?e = Inr (of_nat (price ft ?e) - of_nat gone, None)"
      using replace priced pricing_off [of ?e] by (auto simp: foldSurfaceProjection_def Let_def pr carried_def gone_def)
    ultimately show ?thesis using nocarry replace by (simp add: here there)
  qed
qed

lemma pressure_step:
  assumes "state_at ps evs 0 k = Inr st" "k < length evs" "unprojected ps" "honest ft ps evs"
    and plan: "planSurfaceEvent ps st (evs ! k) k evs 0 = Inr plan" and "pressure_inv ft ps evs k s"
  shows "\<exists>s'. pressure_apply ft s (evs ! k) = Inr s' \<and> pressure_inv ft ps evs (Suc k) s'"
proof -
  obtain d where d: "foldSurfaceProjection ft (carried evs k) (evs ! k) = Inr (d, carried evs (Suc k))"
      "of_nat (total_at ft ps evs k) + d = of_nat (total_at ft ps evs (Suc k))"
    using folded_surface [OF assms(1-5)] by blast
  show ?thesis
    using assms(6) d
    by (auto simp: pressure_apply_def pressure_inv_def Let_def usage_before_Suc split: option.split)
qed

lemma pressure_state_at:
  assumes "state_at ps evs 0 n = Inr st" "n \<le> length evs" "unprojected ps" "honest ft ps evs"
  shows "\<exists>s. pressure_fold ft (take n evs) = Inr s \<and> pressure_inv ft ps evs n s"
  using assms(1,2)
proof (induction rule: state_at_induct)
  case base
  show ?case
    by (simp add: pressure_fold_def pressure_inv_def pressure_init_def total_at_def createFoldState_def surface_total_def
      carried_def usage_before_def)
next
  case (step k st plan)
  then obtain s where s: "pressure_fold ft (take k evs) = Inr s" "pressure_inv ft ps evs k s" by blast
  have "planSurfaceEvent ps st (evs ! k) k evs 0 = Inr plan" using step(3) by simp
  from pressure_step [OF step(2,1) assms(3,4) this s(2)] obtain s' where
    "pressure_apply ft s (evs ! k) = Inr s'" "pressure_inv ft ps evs (Suc k) s'" by blast
  then show ?case using s(1) step(1) by (simp add: pressure_fold_def take_Suc_conv_app_nth fold_res_snoc)
qed

text \<open>
  Claim C38. The constant-size pressure projection keeps the exact price of the surface: on a log the
  surface fold accepts whose replacements follow honest shadow prices it never fails, its running total is
  the price of the current surface, and the projected size of the next request is the last reported pressure
  plus what the surface gained or lost since that report, never below zero.
\<close>

theorem context_pressure_exact:
  assumes "foldSurface ps evs = Inr (st, rs)" "unprojected ps" "honest ft ps evs"
  shows "\<exists>s. pressure_fold ft evs = Inr s \<and> cp_surface s = of_nat (surface_total ft evs (nodes st))
     \<and> projectedTokens s = map_option (\<lambda>i. max 0 (pressureFrom (the (event_usage (evs ! i)))
          + of_nat (surface_total ft evs (nodes st)) - of_nat (total_at ft ps evs i))) (usage_before evs (length evs))"
proof -
  note at_end = foldSurface_state_at [OF assms(1)]
  obtain s where s: "pressure_fold ft evs = Inr s" "pressure_inv ft ps evs (length evs) s"
    using pressure_state_at [OF at_end le_refl assms(2,3)] by auto
  have "total_at ft ps evs (length evs) = surface_total ft evs (nodes st)" by (simp add: total_at_def at_end)
  then show ?thesis using s by (cases "usage_before evs (length evs)") (auto simp: pressure_inv_def projectedTokens_def)
qed

section \<open>A metered log\<close>

definition text_msg :: "string \<Rightarrow> string \<Rightarrow> json" where
  "text_msg role s = JObj [(''role'', JStr role), (''content'', JArr [JObj [(''type'', JStr ''text''), (''text'', JStr s)]])]"

definition metered_demo :: "raw_event list" where
  "metered_demo =
    [ev0 ''system/message'' 0 (JObj [(''message'', text_msg ''system'' ''be brief'')]) (Some (JStr ''append'')) None,
     ev0 ''user/message'' 1 (text_msg ''user'' ''hello'') (Some (JStr ''append'')) None,
     ev0 ''assistant/message'' 2 (JObj [(''message'', text_msg ''assistant'' ''hi''),
        (''usage'', JObj [(''inputTokens'', jint 20), (''outputTokens'', jint 3)])]) (Some (JStr ''append'')) None,
     ev0 ''compaction/summary'' 3 (JObj [(''shadowedRange'', JObj [(''start'', jint 1), (''end'', jint 2)]),
        (''shadowedTokenCount'', jint 19)]) None None,
     ev0 ''user/message'' 4 (text_msg ''user'' ''sum'')
       (Some (JObj [(''op'', JStr ''replace''), (''startSeq'', jint 1), (''endSeq'', jint 2)])) (Some (seqs_json [1, 2]))]"

lemma metered_fold:
  "foldSurface [] metered_demo = Inr (demo_state\<lparr>nodes := [0, 4]\<rparr>, [\<lparr>r_seq = 4, r_start = 1, r_end = 2, shadowedSeqs = [1, 2]\<rparr>])"
  by code_simp

lemma metered_prices:
  "surface_total (\<lambda>_. []) metered_demo [0, 4] = 15" "total_at (\<lambda>_. []) [] metered_demo 2 = 16"
  "usage_before metered_demo (length metered_demo) = Some 2"
  "event_usage (metered_demo ! 2) = Some (JObj [(''inputTokens'', jint 20), (''outputTokens'', jint 3)])"
  by code_simp+

theorem context_breakdown_exact_witness:
  "\<exists>b. breakdown_fold (\<lambda>_. []) metered_demo = Inr b \<and> 0 \<le> bd_messages b \<and> int (bd_system b) + bd_messages b = 15"
proof -
  have "unprojected []" by (simp add: unprojected_def)
  from context_breakdown_exact [OF metered_fold this, of "\<lambda>_. []"] show ?thesis
    by (auto simp: metered_prices)
qed

theorem context_pressure_exact_witness:
  "\<exists>s. pressure_fold (\<lambda>_. []) metered_demo = Inr s \<and> cp_surface s = 15 \<and> projectedTokens s = Some 19"
proof -
  have u: "unprojected []" by (simp add: unprojected_def)
  have "honest (\<lambda>_. []) [] metered_demo" by code_simp
  from context_pressure_exact [OF metered_fold u this] show ?thesis
    by (auto simp: metered_prices pressureFrom_def number_field_def)
qed

end
