(* ===== verification/Retry.thy ===== *)
theory Retry
  imports Request_Header
begin

text \<open>
  Model-request retries: the provider policy (\<open>packages/llm/llm/src/retry-policy.ts\<close>), the executor with
  its projection state (\<open>packages/llm/llm-retry/src/index.ts\<close>, \<open>history.ts\<close>), and the invariant companion
  over the durable records (\<open>invariant.ts\<close>). Delays are rationals; the random sample, the fresh identifier,
  the downstream handler's outcome and the abort signals are inputs of one recovery.
\<close>

section \<open>Policies\<close>

definition MAX_TIMER_DELAY_MS :: rat where
  "MAX_TIMER_DELAY_MS = 2147483647"

record backoff =
  bo_initial :: rat
  bo_max :: rat
  bo_jitter :: rat

datatype policy = Normal_Policy int "string list" backoff | Always_Policy backoff

datatype policy_error =
    Unknown_Key string | Bad_Initial_Delay | Bad_Max_Delay | Initial_Above_Max | Bad_Jitter
  | Bad_Max_Retries | No_Codes | Empty_Code | Duplicate_Codes | Bad_Mode

definition DEFAULT_RETRYABLE_CODES :: "string list" where
  "DEFAULT_RETRYABLE_CODES = [''EMPTY_RESPONSE'', ''RATE_LIMIT'', ''SERVER'', ''TIMEOUT'', ''TRANSPORT'']"

fun json_rat :: "json \<Rightarrow> rat option" where
  "json_rat (JNum (JInt i)) = Some (of_int i)"
| "json_rat (JNum JNegZero) = Some 0"
| "json_rat (JNum (JFrac q)) = Some q"
| "json_rat _ = None"

text \<open>A setting with its default (\<open>config?.key ?? default\<close>).\<close>

definition setting :: "json option \<Rightarrow> string \<Rightarrow> json \<Rightarrow> json" where
  "setting config k d = (case config of None \<Rightarrow> d | Some c \<Rightarrow> (case jget c k of None \<Rightarrow> d | Some JNull \<Rightarrow> d | Some v \<Rightarrow> v))"

definition validateKeys :: "json \<Rightarrow> string list \<Rightarrow> (policy_error, unit) res" where
  "validateKeys v allowed = (case filter (\<lambda>k. \<not> List.member allowed k) (jkeys v) of [] \<Rightarrow> Inr () | k # _ \<Rightarrow> Inl (Unknown_Key k))"

definition timer_delay :: "json \<Rightarrow> rat option" where
  "timer_delay v = (case json_rat v of Some q \<Rightarrow> if 0 < q \<and> q \<le> MAX_TIMER_DELAY_MS then Some q else None | None \<Rightarrow> None)"

definition need :: "'a option \<Rightarrow> 'e \<Rightarrow> ('e, 'a) res" where
  "need v e = (case v of Some x \<Rightarrow> Inr x | None \<Rightarrow> Inl e)"

definition resolveBackoff :: "json option \<Rightarrow> (policy_error, backoff) res" where
  "resolveBackoff config =
     rbind (case config of None \<Rightarrow> Inr () | Some c \<Rightarrow> validateKeys c [''initialDelayMs'', ''maxDelayMs'', ''jitterRatio'']) (\<lambda>_.
     rbind (need (timer_delay (setting config ''initialDelayMs'' (JNum (JInt 500)))) Bad_Initial_Delay) (\<lambda>initial.
     rbind (need (timer_delay (setting config ''maxDelayMs'' (JNum (JInt 10000)))) Bad_Max_Delay) (\<lambda>mx.
     rbind (require (initial \<le> mx) Initial_Above_Max) (\<lambda>_.
     rbind (need (json_rat (setting config ''jitterRatio'' (JNum (JFrac (1 / 10))))) Bad_Jitter) (\<lambda>jitter.
     rbind (require (0 \<le> jitter \<and> jitter \<le> 1) Bad_Jitter) (\<lambda>_.
       Inr \<lparr>bo_initial = initial, bo_max = mx, bo_jitter = jitter\<rparr>))))))"

definition code_list :: "json \<Rightarrow> json list" where
  "code_list v = (case v of JArr xs \<Rightarrow> xs | _ \<Rightarrow> [])"

definition POLICY_KEYS :: "string list" where
  "POLICY_KEYS = [''mode'', ''maxRetries'', ''retryableCodes'', ''backoff'']"

definition safe_count :: "json \<Rightarrow> int \<Rightarrow> bool" where
  "safe_count v low = (case v of JNum n \<Rightarrow> isSafeInteger v \<and> low \<le> jnum_int n | _ \<Rightarrow> False)"

fun int_of :: "json \<Rightarrow> int" where
  "int_of (JNum n) = jnum_int n"
| "int_of _ = 0"

definition resolveRetryPolicy :: "json option \<Rightarrow> (policy_error, policy) res" where
  "resolveRetryPolicy config = (case config of
     None \<Rightarrow> rbind (resolveBackoff None) (\<lambda>b. Inr (Normal_Policy 5 DEFAULT_RETRYABLE_CODES b))
   | Some c \<Rightarrow>
       if jget c ''mode'' = Some (JStr ''normal'') then
         rbind (validateKeys c POLICY_KEYS) (\<lambda>_.
         let maxRetries = setting config ''maxRetries'' (JNum (JInt 5));
             codes = code_list (setting config ''retryableCodes'' (JArr (map JStr DEFAULT_RETRYABLE_CODES))) in
         rbind (require (safe_count maxRetries 0) Bad_Max_Retries) (\<lambda>_.
         rbind (require (codes \<noteq> []) No_Codes) (\<lambda>_.
         rbind (require (list_all (\<lambda>v. nonempty_string (Some v)) codes) Empty_Code) (\<lambda>_.
         rbind (require (distinct codes) Duplicate_Codes) (\<lambda>_.
         rbind (resolveBackoff (jget c ''backoff'')) (\<lambda>b.
           Inr (Normal_Policy (int_of maxRetries) (map (\<lambda>v. json_string (Some v)) codes) b)))))))
       else if jget c ''mode'' = Some (JStr ''always'') then
         rbind (validateKeys c POLICY_KEYS) (\<lambda>_. rbind (resolveBackoff (jget c ''backoff'')) (\<lambda>b. Inr (Always_Policy b)))
       else Inl Bad_Mode)"

section \<open>Events\<close>

text \<open>The events the retry plug-in reads; its own records are JSON payloads.\<close>

datatype retry_event =
    Rt_Turn_Start nat
  | Rt_Turn_End nat
  | Rt_Step_Start nat nat
  | Rt_Step_End nat nat
  | Rt_Header string
  | Rt_Retry json
  | Rt_Started json
  | Rt_Other

definition find_last :: "('a \<Rightarrow> bool) \<Rightarrow> 'a list \<Rightarrow> 'a option" where
  "find_last P xs = List.find P (rev xs)"

fun header_provider :: "retry_event \<Rightarrow> string option" where
  "header_provider (Rt_Header p) = Some p"
| "header_provider _ = None"

definition closes_step :: "retry_event \<Rightarrow> bool" where
  "closes_step e = (case e of Rt_Step_End t p \<Rightarrow> True | Rt_Turn_End t \<Rightarrow> True | _ \<Rightarrow> False)"

definition last_provider :: "retry_event list \<Rightarrow> string option" where
  "last_provider es = (case filter (\<lambda>e. header_provider e \<noteq> None) es of [] \<Rightarrow> None | xs \<Rightarrow> header_provider (last xs))"

definition providerForOpenStep :: "retry_event list \<Rightarrow> nat \<Rightarrow> nat \<Rightarrow> string option" where
  "providerForOpenStep es turn stp =
     (if \<not> list_ex (\<lambda>e. e = Rt_Step_Start turn stp) es
         \<or> list_ex closes_step (takeWhile (\<lambda>e. e \<noteq> Rt_Step_Start turn stp) (rev es)) then None
      else last_provider es)"

section \<open>The companion\<close>

datatype retry_fault =
    Bad_Retry_Id | Failure_Not_Object | Failure_Message | Failure_Code | Failure_Status | Failure_Retry_After
  | Failure_Request_Id | Bad_Retry_Number | Bad_Provider | Bad_Policy_Key | Above_Max_Retries | Always_Has_Max
  | Bad_Retry_Mode | Bad_Delay | Outside_Turn | Wrong_Turn | Outside_Step | Wrong_Step | Wrong_Provider
  | Wrong_Retry_Number | Changed_Retry_Id | Foreign_Retry_Id | Not_Scheduled | Started_Elsewhere | Started_Twice

definition optionally :: "json option \<Rightarrow> (json \<Rightarrow> bool) \<Rightarrow> bool" where
  "optionally v P = (case v of None \<Rightarrow> True | Some x \<Rightarrow> P x)"

definition http_status :: "json \<Rightarrow> bool" where
  "http_status v = (case v of JNum (JInt i) \<Rightarrow> 100 \<le> i \<and> i \<le> 599 | _ \<Rightarrow> False)"

definition positive_number :: "json \<Rightarrow> bool" where
  "positive_number v = (case json_rat v of Some q \<Rightarrow> 0 < q | None \<Rightarrow> False)"

definition validateFailure :: "json option \<Rightarrow> (retry_fault, unit) res" where
  "validateFailure v = (case v of
     Some f \<Rightarrow>
       rbind (require (case f of JObj _ \<Rightarrow> True | JArr _ \<Rightarrow> True | _ \<Rightarrow> False) Failure_Not_Object) (\<lambda>_.
       rbind (require (nonempty_string (jget f ''message'')) Failure_Message) (\<lambda>_.
       rbind (require (nonempty_string (jget f ''code'')) Failure_Code) (\<lambda>_.
       rbind (require (optionally (jget f ''status'') http_status) Failure_Status) (\<lambda>_.
       rbind (require (optionally (jget f ''providerRetryAfterMs'') positive_number) Failure_Retry_After) (\<lambda>_.
       require (optionally (jget f ''requestId'') (\<lambda>x. nonempty_string (Some x))) Failure_Request_Id)))))
   | None \<Rightarrow> Inl Failure_Not_Object)"

definition retry_no :: "json \<Rightarrow> int" where
  "retry_no d = (case jget d ''retry'' of Some v \<Rightarrow> int_of v | None \<Rightarrow> 0)"

definition field_is :: "json \<Rightarrow> string \<Rightarrow> nat \<Rightarrow> bool" where
  "field_is d k n = strict_eq (jget d k) (Some (JNum (JInt (int n))))"

definition validate_mode :: "json \<Rightarrow> (retry_fault, unit) res" where
  "validate_mode d =
     (if jget d ''mode'' = Some (JStr ''normal'') then
        require (case jget d ''maxRetries'' of Some m \<Rightarrow> safe_count m 1 \<and> retry_no d \<le> int_of m | None \<Rightarrow> False) Above_Max_Retries
      else if jget d ''mode'' = Some (JStr ''always'') then require (\<not> hasOwn d ''maxRetries'') Always_Has_Max
      else Inl Bad_Retry_Mode)"

definition timer_value :: "json option \<Rightarrow> bool" where
  "timer_value v = (case v of Some j \<Rightarrow> (case json_rat j of Some q \<Rightarrow> 0 \<le> q \<and> q \<le> MAX_TIMER_DELAY_MS | None \<Rightarrow> False) | None \<Rightarrow> False)"

definition turn_boundary :: "retry_event \<Rightarrow> bool" where
  "turn_boundary e = (case e of Rt_Turn_Start t \<Rightarrow> True | Rt_Turn_End t \<Rightarrow> True | _ \<Rightarrow> False)"

definition step_boundary :: "retry_event \<Rightarrow> bool" where
  "step_boundary e = (case e of Rt_Step_Start t p \<Rightarrow> True | Rt_Step_End t p \<Rightarrow> True | _ \<Rightarrow> False)"

text \<open>A record of the same provider-policy chain in the same step.\<close>

definition same_chain :: "json \<Rightarrow> retry_event \<Rightarrow> bool" where
  "same_chain d e = (case e of
     Rt_Retry p \<Rightarrow> strict_eq (jget p ''turn'') (jget d ''turn'') \<and> strict_eq (jget p ''step'') (jget d ''step'')
       \<and> strict_eq (jget p ''provider'') (jget d ''provider'') \<and> strict_eq (jget p ''policyKey'') (jget d ''policyKey'')
   | _ \<Rightarrow> False)"

fun retry_data :: "retry_event \<Rightarrow> json" where
  "retry_data (Rt_Retry d) = d"
| "retry_data (Rt_Started d) = d"
| "retry_data _ = JNull"

definition owns_id :: "json option \<Rightarrow> retry_event \<Rightarrow> bool" where
  "owns_id v e = (case e of Rt_Retry d \<Rightarrow> strict_eq (jget d ''retryId'') v | Rt_Started d \<Rightarrow> strict_eq (jget d ''retryId'') v | _ \<Rightarrow> False)"

definition validate_place :: "retry_event list \<Rightarrow> json \<Rightarrow> (retry_fault, unit) res" where
  "validate_place history d =
     (case find_last turn_boundary history of
        Some (Rt_Turn_Start t) \<Rightarrow> rbind (require (field_is d ''turn'' t) Wrong_Turn) (\<lambda>_.
          (case find_last step_boundary history of
             Some (Rt_Step_Start t' p) \<Rightarrow>
               rbind (require (field_is d ''step'' p \<and> field_is d ''turn'' t') Wrong_Step) (\<lambda>_.
               require (jget d ''provider'' = map_option JStr (providerForOpenStep history t p)) Wrong_Provider)
           | _ \<Rightarrow> Inl Outside_Step))
      | _ \<Rightarrow> Inl Outside_Turn)"

definition validate_chain :: "retry_event list \<Rightarrow> json \<Rightarrow> (retry_fault, unit) res" where
  "validate_chain history d =
     (case find_last (same_chain d) history of
        None \<Rightarrow> rbind (require (retry_no d = 1) Wrong_Retry_Number) (\<lambda>_.
          require (\<not> list_ex (owns_id (jget d ''retryId'')) history) Foreign_Retry_Id)
      | Some e \<Rightarrow> rbind (require (retry_no d = retry_no (retry_data e) + 1) Wrong_Retry_Number) (\<lambda>_.
          require (strict_eq (jget (retry_data e) ''retryId'') (jget d ''retryId'')) Changed_Retry_Id))"

definition validateRetry :: "retry_event list \<Rightarrow> json \<Rightarrow> (retry_fault, unit) res" where
  "validateRetry history d =
     rbind (require (nonempty_string (jget d ''retryId'')) Bad_Retry_Id) (\<lambda>_.
     rbind (validateFailure (jget d ''failure'')) (\<lambda>_.
     rbind (require (case jget d ''retry'' of Some v \<Rightarrow> safe_count v 1 | None \<Rightarrow> False) Bad_Retry_Number) (\<lambda>_.
     rbind (require (nonempty_string (jget d ''provider'')) Bad_Provider) (\<lambda>_.
     rbind (require (nonempty_string (jget d ''policyKey'')) Bad_Policy_Key) (\<lambda>_.
     rbind (validate_mode d) (\<lambda>_.
     rbind (require (timer_value (jget d ''delayMs'')) Bad_Delay) (\<lambda>_.
     rbind (validate_place history d) (\<lambda>_.
     validate_chain history d))))))))"

definition same_retry :: "json \<Rightarrow> json \<Rightarrow> bool" where
  "same_retry d p = (strict_eq (jget p ''retryId'') (jget d ''retryId'') \<and> strict_eq (jget p ''retry'') (jget d ''retry''))"

definition scheduled_for :: "json \<Rightarrow> retry_event \<Rightarrow> bool" where
  "scheduled_for d e = (case e of Rt_Retry p \<Rightarrow> same_retry d p | _ \<Rightarrow> False)"

definition started_for :: "json \<Rightarrow> retry_event \<Rightarrow> bool" where
  "started_for d e = (case e of Rt_Started p \<Rightarrow> same_retry d p | _ \<Rightarrow> False)"

definition validateStarted :: "retry_event list \<Rightarrow> json \<Rightarrow> (retry_fault, unit) res" where
  "validateStarted history d =
     rbind (require (nonempty_string (jget d ''retryId'')) Bad_Retry_Id) (\<lambda>_.
     case find_last (scheduled_for d) history of
       None \<Rightarrow> Inl Not_Scheduled
     | Some e \<Rightarrow>
         rbind (require (strict_eq (jget (retry_data e) ''turn'') (jget d ''turn'') \<and> strict_eq (jget (retry_data e) ''step'') (jget d ''step''))
           Started_Elsewhere) (\<lambda>_.
         require (\<not> list_ex (started_for d) history) Started_Twice))"

definition validate_event :: "retry_event list \<Rightarrow> retry_event \<Rightarrow> (retry_fault, unit) res" where
  "validate_event history e = (case e of
     Rt_Retry d \<Rightarrow> validateRetry history d | Rt_Started d \<Rightarrow> validateStarted history d | _ \<Rightarrow> Inr ())"

text \<open>Loading a session: each event is checked against what precedes it.\<close>

definition next_history :: "retry_event list \<Rightarrow> retry_event \<Rightarrow> (retry_fault, retry_event list) res" where
  "next_history history e = rbind (validate_event history e) (\<lambda>_. Inr (history @ [e]))"

definition validate_session :: "retry_event list \<Rightarrow> (retry_fault, unit) res" where
  "validate_session es = rbind (fold_res next_history [] es) (\<lambda>_. Inr ())"

section \<open>The executor\<close>

text \<open>Rationals as JSON numbers.\<close>

definition num_json :: "rat \<Rightarrow> json" where
  "num_json q = (if of_int \<lfloor>q\<rfloor> = q then JNum (JInt \<lfloor>q\<rfloor>) else JNum (JFrac q))"

text \<open>\<open>2 ** 1024\<close> is infinite, so the cap applies.\<close>

definition localDelay :: "backoff \<Rightarrow> int \<Rightarrow> rat \<Rightarrow> rat" where
  "localDelay b retry random =
     (let exponent = nat (min (retry - 1) 1024);
          exponential = (if exponent = 1024 then bo_max b else min (bo_initial b * 2 ^ exponent) (bo_max b));
          jitter = 1 - bo_jitter b + 2 * bo_jitter b * random
      in min (exponential * jitter) (bo_max b))"

fun policy_backoff :: "policy \<Rightarrow> backoff" where
  "policy_backoff (Normal_Policy m codes b) = b"
| "policy_backoff (Always_Policy b) = b"

fun retryPolicyKey :: "(rat \<Rightarrow> string) \<Rightarrow> policy \<Rightarrow> string" where
  "retryPolicyKey ft (Always_Policy b) =
     stringify ft (JArr [JStr ''always'', num_json (bo_initial b), num_json (bo_max b), num_json (bo_jitter b)])"
| "retryPolicyKey ft (Normal_Policy m codes b) =
     stringify ft (JArr [JStr ''normal'', JNum (JInt m), JArr (map JStr (sort codes)), num_json (bo_initial b), num_json (bo_max b),
       num_json (bo_jitter b)])"

definition retryStateKey :: "(rat \<Rightarrow> string) \<Rightarrow> string \<Rightarrow> string \<Rightarrow> string" where
  "retryStateKey ft provider policyKey = stringify ft (JArr [JStr provider, JStr policyKey])"

text \<open>The projection: the last retry of each provider and policy within the current step.\<close>

record retry_entry =
  re_retry :: int
  re_id :: string

type_synonym retry_state = "(string, retry_entry) amap"

definition text_field :: "json \<Rightarrow> string \<Rightarrow> string" where
  "text_field d k = json_string (jget d k)"

definition retry_apply :: "(rat \<Rightarrow> string) \<Rightarrow> retry_state \<Rightarrow> retry_event \<Rightarrow> retry_state" where
  "retry_apply ft s e = (case e of
     Rt_Step_Start t p \<Rightarrow> []
   | Rt_Turn_End t \<Rightarrow> []
   | Rt_Retry d \<Rightarrow> amap_set s (retryStateKey ft (text_field d ''provider'') (text_field d ''policyKey''))
       \<lparr>re_retry = retry_no d, re_id = text_field d ''retryId''\<rparr>
   | _ \<Rightarrow> s)"

definition retry_fold :: "(rat \<Rightarrow> string) \<Rightarrow> retry_event list \<Rightarrow> retry_state" where
  "retry_fold ft es = foldl (retry_apply ft) [] es"

text \<open>What recovery answers: nothing, a retry, or the downstream handler's failure.\<close>

datatype action = No_Action | Retry_Action

datatype outcome = Answered_With action | Threw

record recovery_env =
  en_aborted :: bool             \<comment> \<open>either signal, when the handler is entered\<close>
  en_downstream :: outcome       \<comment> \<open>what \<open>next()\<close> settles to\<close>
  en_aborted_later :: bool       \<comment> \<open>either signal, after \<open>next()\<close> settled\<close>
  en_random :: rat
  en_uuid :: string
  en_waited :: bool              \<comment> \<open>the delay ended without an abort\<close>

definition retry_record :: "policy \<Rightarrow> string \<Rightarrow> nat \<Rightarrow> nat \<Rightarrow> string \<Rightarrow> string \<Rightarrow> int \<Rightarrow> rat \<Rightarrow> json \<Rightarrow> json" where
  "retry_record pol retryId turn stp provider key retry delay failure =
     JObj ([(''retryId'', JStr retryId), (''turn'', JNum (JInt (int turn))), (''step'', JNum (JInt (int stp))),
            (''provider'', JStr provider)]
       @ (case pol of
            Normal_Policy m codes b \<Rightarrow> [(''mode'', JStr ''normal''), (''policyKey'', JStr key), (''retry'', JNum (JInt retry)),
              (''maxRetries'', JNum (JInt m))]
          | Always_Policy b \<Rightarrow> [(''mode'', JStr ''always''), (''policyKey'', JStr key), (''retry'', JNum (JInt retry))])
       @ [(''delayMs'', num_json delay), (''failure'', failure)])"

definition started_record :: "string \<Rightarrow> nat \<Rightarrow> nat \<Rightarrow> int \<Rightarrow> json" where
  "started_record retryId turn stp retry =
     JObj [(''retryId'', JStr retryId), (''turn'', JNum (JInt (int turn))), (''step'', JNum (JInt (int stp))), (''retry'', JNum (JInt retry))]"

text \<open>The records a recovery appends: one before the wait, one after it.\<close>

definition recovery_delay :: "policy \<Rightarrow> json \<Rightarrow> int \<Rightarrow> rat \<Rightarrow> rat option" where
  "recovery_delay pol failure retry random =
     (let b = policy_backoff pol in
      case (case jget failure ''providerRetryAfterMs'' of None \<Rightarrow> None | Some v \<Rightarrow> json_rat v) of
        Some q \<Rightarrow>
          if q > 0 then
            (if q > bo_max b then (case pol of Normal_Policy m codes b' \<Rightarrow> None | Always_Policy b' \<Rightarrow> Some (localDelay b retry random))
             else Some q)
          else Some (localDelay b retry random)
      | None \<Rightarrow> Some (localDelay b retry random))"

definition recover_locally ::
  "(rat \<Rightarrow> string) \<Rightarrow> retry_state \<Rightarrow> nat \<Rightarrow> nat \<Rightarrow> string \<Rightarrow> json \<Rightarrow> policy \<Rightarrow> bool \<Rightarrow> recovery_env \<Rightarrow> outcome \<times> json list \<times> json list" where
  "recover_locally ft state turn stp provider failure pol aborted env =
     (let key = retryPolicyKey ft pol;
          previous = amap_get state (retryStateKey ft provider key);
          previousRetry = (case previous of Some e \<Rightarrow> re_retry e | None \<Rightarrow> 0);
          exhausted = (case pol of Normal_Policy m codes b \<Rightarrow> previousRetry \<ge> m | Always_Policy b \<Rightarrow> False)
      in if exhausted then (en_downstream env, [], [])
         else let retry = previousRetry + 1; retryId = (case previous of Some e \<Rightarrow> re_id e | None \<Rightarrow> en_uuid env) in
           (case recovery_delay pol failure retry (en_random env) of
              None \<Rightarrow> (en_downstream env, [], [])
            | Some delay \<Rightarrow>
                if aborted then (Answered_With No_Action, [], [])
                else let scheduled = [retry_record pol retryId turn stp provider key retry delay failure] in
                  if \<not> en_waited env then (Answered_With No_Action, scheduled, [])
                  else (Answered_With Retry_Action, scheduled, [started_record retryId turn stp retry])))"

definition recover ::
  "(rat \<Rightarrow> string) \<Rightarrow> retry_state \<Rightarrow> nat \<Rightarrow> nat \<Rightarrow> string \<Rightarrow> json \<Rightarrow> policy option \<Rightarrow> recovery_env \<Rightarrow> outcome \<times> json list \<times> json list" where
  "recover ft state turn stp provider failure pol env = (case pol of
     None \<Rightarrow> (en_downstream env, [], [])
   | Some (Always_Policy b) \<Rightarrow>
       if en_aborted env then (Answered_With No_Action, [], [])
       else if en_aborted_later env then (Answered_With No_Action, [], [])
       else if en_downstream env = Answered_With Retry_Action then (Answered_With Retry_Action, [], [])
       else recover_locally ft state turn stp provider failure (Always_Policy b) False env
   | Some (Normal_Policy m codes b) \<Rightarrow>
       if \<not> List.member codes (text_field failure ''code'') then (en_downstream env, [], [])
       else recover_locally ft state turn stp provider failure (Normal_Policy m codes b) (en_aborted env) env)"

end
