(* ===== verification/Retry_Laws.thy ===== *)
theory Retry_Laws
  imports Retry
begin

text \<open>
  What the retry records mean: identifiers and counters of every chain in an accepted log, the bounds of a
  scheduled delay, and that the executor only writes records its companion accepts
  (\<open>packages/llm/llm-retry/src\<close>).
\<close>

section \<open>Keys\<close>

text \<open>Reading one escaped character back.\<close>

definition hex_value :: "char \<Rightarrow> nat" where
  "hex_value c = (let n = of_char c in if n < 58 then n - 48 else n - 87)"

fun unescape :: "string \<Rightarrow> (char \<times> string) option" where
  "unescape [] = None"
| "unescape (c # cs) =
     (if c \<noteq> CHR 0x5C then Some (c, cs)
      else case cs of [] \<Rightarrow> None
      | x # xs \<Rightarrow>
          if x = CHR ''b'' then Some (char_of (8::nat), xs) else if x = CHR ''t'' then Some (char_of (9::nat), xs)
          else if x = CHR ''n'' then Some (char_of (10::nat), xs) else if x = CHR ''f'' then Some (char_of (12::nat), xs)
          else if x = CHR ''r'' then Some (char_of (13::nat), xs)
          else if x = CHR ''u'' then (case xs of a # b # h # l # ys \<Rightarrow> Some (char_of (16 * hex_value h + hex_value l), ys) | _ \<Rightarrow> None)
          else Some (x, xs))"

lemma hex_value_digit: "n < 16 \<Longrightarrow> hex_value (hex_digit n) = n"
  by (simp add: hex_value_def hex_digit_def Let_def)

lemma char_eq_of: "of_char c = (n::nat) \<Longrightarrow> c = char_of n"
  by auto

lemma char_of_codes: "char_of (34::nat) = CHR 0x22" "char_of (92::nat) = CHR 0x5C"
  by code_simp+

lemma unescape_escape: "unescape (json_escape c @ x) = Some (c, x)"
proof -
  define n where "n = (of_char c :: nat)"
  have c: "c = char_of n" by (simp add: n_def)
  have e: "json_escape c = (if n = 34 then [CHR 0x5C, c] else if n = 92 then [CHR 0x5C, c]
     else if n = 8 then [CHR 0x5C, CHR ''b''] else if n = 9 then [CHR 0x5C, CHR ''t'']
     else if n = 10 then [CHR 0x5C, CHR ''n''] else if n = 12 then [CHR 0x5C, CHR ''f'']
     else if n = 13 then [CHR 0x5C, CHR ''r'']
     else if n < 32 then [CHR 0x5C, CHR ''u'', CHR ''0'', CHR ''0'', hex_digit (n div 16), hex_digit (n mod 16)]
     else [c])" by (simp add: json_escape_def n_def Let_def)
  consider "n = 34" | "n = 92" | "n = 8" | "n = 9" | "n = 10" | "n = 12" | "n = 13"
    | "n < 32" "n \<notin> {8, 9, 10, 12, 13}" | "\<not> n < 32" "n \<noteq> 34" "n \<noteq> 92" by auto
  then show ?thesis
  proof cases
    case 1
    have "c = CHR 0x22" using c 1 char_of_codes by simp
    then show ?thesis using e 1 by simp
  next
    case 2
    have "c = CHR 0x5C" using c 2 char_of_codes by simp
    then show ?thesis using e 2 by simp
  next
    case 8
    have "hex_value (hex_digit (n div 16)) = n div 16" "hex_value (hex_digit (n mod 16)) = n mod 16"
      using 8(1) by (intro hex_value_digit; simp)+
    then show ?thesis using e 8 c by simp
  next
    case 9
    have "c \<noteq> CHR 0x5C"
    proof
      assume "c = CHR 0x5C"
      then have "n = 92" by (simp add: n_def)
      then show False using 9(3) by simp
    qed
    then show ?thesis using e 9 by simp
  qed (use e c in simp_all)
qed

lemma escape_prefix:
  assumes "concat (map json_escape a) @ CHR 0x22 # x = concat (map json_escape b) @ CHR 0x22 # y"
  shows "a = b \<and> x = y"
  using assms
proof (induction a arbitrary: b)
  case Nil
  show ?case
  proof (cases b)
    case (Cons d ds)
    have "unescape (CHR 0x22 # x) = unescape (json_escape d @ concat (map json_escape ds) @ CHR 0x22 # y)"
      using Nil Cons by simp
    then have "d = CHR 0x22" unfolding unescape_escape by simp
    then have "json_escape d = [CHR 0x5C, CHR 0x22]" by (simp add: json_escape_def)
    then show ?thesis using Nil Cons by simp
  qed (use Nil in simp)
next
  case (Cons c cs)
  show ?case
  proof (cases b)
    case Nil
    have "unescape (CHR 0x22 # y) = unescape (json_escape c @ concat (map json_escape cs) @ CHR 0x22 # x)"
      using Nil Cons.prems by simp
    then have "c = CHR 0x22" unfolding unescape_escape by simp
    then have "json_escape c = [CHR 0x5C, CHR 0x22]" by (simp add: json_escape_def)
    then show ?thesis using Nil Cons.prems by simp
  next
    case b: (Cons d ds)
    have "unescape (json_escape c @ concat (map json_escape cs) @ CHR 0x22 # x)
        = unescape (json_escape d @ concat (map json_escape ds) @ CHR 0x22 # y)" using Cons.prems b by simp
    then have "c = d" "concat (map json_escape cs) @ CHR 0x22 # x = concat (map json_escape ds) @ CHR 0x22 # y"
      by (simp_all add: unescape_escape)
    then show ?thesis using Cons.IH b by blast
  qed
qed

lemma retryStateKey_inj: "retryStateKey ft p k = retryStateKey ft p' k' \<longleftrightarrow> p = p' \<and> k = k'"
proof
  assume "retryStateKey ft p k = retryStateKey ft p' k'"
  then have "concat (map json_escape p) @ CHR 0x22 # '','' @ json_quote k @ '']'' = concat (map json_escape p') @ CHR 0x22 # '','' @ json_quote k' @ '']''"
    by (simp add: retryStateKey_def json_quote_def)
  from escape_prefix [OF this] have p: "p = p'" "json_quote k @ '']'' = json_quote k' @ '']''" by simp_all
  then have "concat (map json_escape k) @ CHR 0x22 # [] = concat (map json_escape k') @ CHR 0x22 # []"
    by (simp add: json_quote_def)
  from escape_prefix [OF this] p(1) show "p = p' \<and> k = k'" by simp
qed simp

section \<open>Histories\<close>

lemma strict_eq_refl [simp]: "strict_eq v v"
  by (cases "(v, v)" rule: strict_eq.cases) simp_all

lemma strict_eq_num: "strict_eq (Some (JNum a)) v \<longleftrightarrow> (\<exists>b. v = Some (JNum b) \<and> num_eq a b)"
  by (cases "(Some (JNum a), v)" rule: strict_eq.cases) auto

lemma strict_eq_sym: "strict_eq a b \<longleftrightarrow> strict_eq b a"
proof (cases "\<exists>x y. a = Some (JNum x) \<and> b = Some (JNum y)")
  case True
  then show ?thesis by (auto simp: num_eq_sym)
next
  case False
  then have "strict_eq a b = (a = b)" "strict_eq b a = (b = a)"
    by (auto elim!: strict_eq.elims)
  then show ?thesis by auto
qed

lemma strict_eq_trans: "strict_eq a b \<Longrightarrow> strict_eq b c \<Longrightarrow> strict_eq a c"
proof -
  assume h: "strict_eq a b" "strict_eq b c"
  show ?thesis
  proof (cases "\<exists>x. a = Some (JNum x)")
    case True
    then obtain x y z where "a = Some (JNum x)" "b = Some (JNum y)" "num_eq x y" "c = Some (JNum z)" "num_eq y z"
      using h by (auto simp: strict_eq_num)
    then show ?thesis using num_eq_trans by auto
  next
    case False
    then have "a = b" using h(1) by (auto elim!: strict_eq.elims)
    then show ?thesis using h(2) by simp
  qed
qed

lemma strict_eq_string [simp]: "strict_eq (Some (JStr s)) v \<longleftrightarrow> v = Some (JStr s)" "strict_eq v (Some (JStr s)) \<longleftrightarrow> v = Some (JStr s)"
proof -
  show "strict_eq (Some (JStr s)) v \<longleftrightarrow> v = Some (JStr s)" by (auto elim!: strict_eq.elims)
  then show "strict_eq v (Some (JStr s)) \<longleftrightarrow> v = Some (JStr s)" by (simp add: strict_eq_sym [of v])
qed

lemma find_last_snoc [simp]: "find_last P (xs @ [x]) = (if P x then Some x else find_last P xs)"
  by (simp add: find_last_def)

lemma find_last_Nil [simp]: "find_last P [] = None"
  by (simp add: find_last_def)

lemma find_last_None: "find_last P xs = None \<longleftrightarrow> list_all (\<lambda>x. \<not> P x) xs"
  by (auto simp: find_last_def find_None_iff list_all_iff)

lemma find_last_Some:
  assumes "find_last P xs = Some x"
  shows "\<exists>a b. xs = a @ x # b \<and> P x \<and> list_all (\<lambda>y. \<not> P y) b"
  using assms
proof (induction xs rule: rev_induct)
  case (snoc y ys)
  show ?case
  proof (cases "P y")
    case True
    then have "ys @ [y] = ys @ x # []" "P x" using snoc.prems by auto
    then show ?thesis by (intro exI [of _ ys] exI [of _ "[]"]) simp
  next
    case False
    then obtain a b where "ys = a @ x # b" "P x" "list_all (\<lambda>y. \<not> P y) b" using snoc by auto
    then show ?thesis using False by (intro exI [of _ a] exI [of _ "b @ [y]"]) simp
  qed
qed simp

lemma find_last_unfold: "P x \<Longrightarrow> list_all (\<lambda>y. \<not> P y) b \<Longrightarrow> find_last P (a @ x # b) = Some x"
proof (induction b rule: rev_induct)
  case (snoc y ys)
  then show ?case using find_last_snoc [of P "a @ x # ys" y] by simp
qed simp

lemma find_last_skip: "list_all (\<lambda>y. \<not> P y) a \<Longrightarrow> find_last P (a @ b) = find_last P b"
proof (induction b rule: rev_induct)
  case Nil
  then show ?case by (simp add: find_last_None)
next
  case (snoc y ys)
  then show ?case using find_last_snoc [of P "a @ ys" y] by simp
qed

lemma find_last_cong: "(\<And>x. x \<in> set xs \<Longrightarrow> P x = Q x) \<Longrightarrow> find_last P xs = find_last Q xs"
  by (induction xs rule: rev_induct) auto

definition accepted :: "retry_event list \<Rightarrow> bool" where
  "accepted h \<longleftrightarrow> validate_session h = Inr ()"

lemma session_history: "fold_res next_history h es = Inr h' \<Longrightarrow> h' = h @ es"
proof (induction es arbitrary: h)
  case (Cons e es)
  then obtain g where g: "next_history h e = Inr g" "fold_res next_history g es = Inr h'" by (auto split: sum.splits)
  from Cons.IH [OF g(2)] g(1) show ?case by (auto simp: next_history_def rbind_eq_Inr)
qed simp

lemma accepted_snoc: "accepted (es @ [e]) \<longleftrightarrow> accepted es \<and> validate_event es e = Inr ()"
proof (cases "fold_res next_history [] es")
  case (Inl x)
  then show ?thesis by (simp add: accepted_def validate_session_def fold_res_snoc)
next
  case (Inr h)
  then have "h = es" using session_history [of "[]" es h] by simp
  then show ?thesis using Inr by (auto simp: accepted_def validate_session_def fold_res_snoc rbind_eq_Inr next_history_def)
qed

text \<open>The companion is a projection whose state is the accepted history.\<close>

interpretation retry_log: event_projection "[]" next_history accepted
proof unfold_locales
  show "accepted []" by (simp add: accepted_def validate_session_def)
next
  fix h e h'
  assume "accepted h" "next_history h e = Inr h'"
  then show "accepted h'" by (auto simp: next_history_def rbind_eq_Inr accepted_snoc)
qed

lemma accepted_fold: "accepted h \<longleftrightarrow> fold_res next_history [] h = Inr h"
  using session_history [of "[]" h] retry_log.replay_inv [of h]
  by (cases "fold_res next_history [] h") (auto simp: accepted_def validate_session_def)

lemma accepted_prefix: "accepted (xs @ ys) \<Longrightarrow> accepted xs"
  using retry_log.rejected_prefix_rejects [of xs _ ys] session_history [of "[]" xs]
  by (cases "fold_res next_history [] xs") (auto simp: accepted_fold)

lemma accepted_at: "accepted (a @ e # b) \<Longrightarrow> validate_event a e = Inr ()"
  using accepted_prefix [of "a @ [e]" b] by (simp add: accepted_snoc)

lemma accepted_retry: "accepted (a @ Rt_Retry d # b) \<Longrightarrow> validateRetry a d = Inr ()"
  using accepted_at [of a "Rt_Retry d" b] by (simp add: validate_event_def)

lemma validateRetry_facts:
  assumes "validateRetry h d = Inr ()"
  shows "nonempty_string (jget d ''retryId'')" "case jget d ''retry'' of Some v \<Rightarrow> safe_count v 1 | None \<Rightarrow> False"
    "nonempty_string (jget d ''provider'')" "nonempty_string (jget d ''policyKey'')" "validate_mode d = Inr ()"
    "validate_place h d = Inr ()" "validate_chain h d = Inr ()"
  using assms by (auto simp: validateRetry_def rbind_eq_Inr)

section \<open>Chains\<close>

lemma same_chain_retry: "same_chain d e \<Longrightarrow> \<exists>p. e = Rt_Retry p"
  by (cases e) (simp_all add: same_chain_def)

lemma same_chain_refl [simp]: "same_chain d (Rt_Retry d)"
  by (simp add: same_chain_def)

lemma same_chain_sym: "same_chain d (Rt_Retry p) \<longleftrightarrow> same_chain p (Rt_Retry d)"
  by (auto simp: same_chain_def strict_eq_sym)

lemma same_chain_trans: "same_chain d (Rt_Retry p) \<Longrightarrow> same_chain p e \<Longrightarrow> same_chain d e"
  by (cases e) (auto simp: same_chain_def intro: strict_eq_trans)

lemma same_chain_cong: "same_chain d (Rt_Retry p) \<Longrightarrow> same_chain d e = same_chain p e"
  using same_chain_trans same_chain_sym by blast

lemma validate_chain_first:
  "validate_chain h d = Inr () \<Longrightarrow> find_last (same_chain d) h = None \<Longrightarrow>
     retry_no d = 1 \<and> \<not> list_ex (owns_id (jget d ''retryId'')) h"
  by (simp add: validate_chain_def rbind_eq_Inr)

lemma validate_chain_next:
  "validate_chain h d = Inr () \<Longrightarrow> find_last (same_chain d) h = Some e \<Longrightarrow>
     retry_no d = retry_no (retry_data e) + 1 \<and> strict_eq (jget (retry_data e) ''retryId'') (jget d ''retryId'')"
  by (simp add: validate_chain_def rbind_eq_Inr)

lemma chain_count:
  "accepted (a @ Rt_Retry d # b) \<Longrightarrow> retry_no d = int (length (filter (same_chain d) a)) + 1"
proof (induction "length a" arbitrary: a d b rule: less_induct)
  case less
  note chain = validateRetry_facts(7) [OF accepted_retry [OF less(2)]]
  show ?case
  proof (cases "find_last (same_chain d) a")
    case None
    then have "filter (same_chain d) a = []" by (simp add: find_last_None list_all_iff filter_empty_conv)
    then show ?thesis using validate_chain_first [OF chain None] by simp
  next
    case (Some e)
    obtain a1 a2 where a: "a = a1 @ e # a2" "same_chain d e" "list_all (\<lambda>y. \<not> same_chain d y) a2"
      using find_last_Some [OF Some] by blast
    obtain p where p: "e = Rt_Retry p" using same_chain_retry [OF a(2)] by blast
    have "accepted (a1 @ Rt_Retry p # a2 @ Rt_Retry d # b)" using less(2) a(1) p by simp
    moreover have "length a1 < length a" using a(1) by simp
    ultimately have "retry_no p = int (length (filter (same_chain p) a1)) + 1" using less(1) by blast
    moreover have "filter (same_chain p) a1 = filter (same_chain d) a1"
      using same_chain_cong [OF a(2) [unfolded p]] by (intro filter_cong refl) simp
    moreover have "filter (same_chain d) a2 = []" using a(3) by (simp add: list_all_iff filter_empty_conv)
    ultimately show ?thesis using validate_chain_next [OF chain Some] p a(1,2) by simp
  qed
qed

lemma chain_ids:
  "accepted (a @ Rt_Retry d # b) \<Longrightarrow> Rt_Retry p \<in> set a \<Longrightarrow>
     same_chain d (Rt_Retry p) \<longleftrightarrow> strict_eq (jget p ''retryId'') (jget d ''retryId'')"
proof (induction "length a" arbitrary: a d b p rule: less_induct)
  case less
  note chain = validateRetry_facts(7) [OF accepted_retry [OF less(2)]]
  have IH: "same_chain q (Rt_Retry r) \<longleftrightarrow> strict_eq (jget r ''retryId'') (jget q ''retryId'')"
    if "a = c @ Rt_Retry q # c'" "Rt_Retry r \<in> set c" for c q c' r
  proof -
    have "accepted (c @ Rt_Retry q # c' @ Rt_Retry d # b)" using less(2) that(1) by simp
    moreover have "length c < length a" using that(1) by simp
    ultimately show ?thesis using less(1) that(2) by blast
  qed
  show ?case
  proof (cases "find_last (same_chain d) a")
    case None
    then have "\<not> same_chain d (Rt_Retry p)" "\<not> owns_id (jget d ''retryId'') (Rt_Retry p)"
      using validate_chain_first [OF chain None] None less(3) by (auto simp: find_last_None list_all_iff list_ex_iff)
    then show ?thesis by (simp add: owns_id_def)
  next
    case (Some e)
    obtain a1 a2 where a: "a = a1 @ e # a2" "same_chain d e" "list_all (\<lambda>y. \<not> same_chain d y) a2"
      using find_last_Some [OF Some] by blast
    obtain q where q: "e = Rt_Retry q" using same_chain_retry [OF a(2)] by blast
    have id: "strict_eq (jget q ''retryId'') (jget d ''retryId'')" using validate_chain_next [OF chain Some] q by simp
    have cong: "strict_eq v (jget q ''retryId'') = strict_eq v (jget d ''retryId'')" for v
      using id strict_eq_trans strict_eq_sym by blast
    consider "Rt_Retry p \<in> set a1" | "p = q" | "Rt_Retry p \<in> set a2" using less(3) a(1) q by auto
    then show ?thesis
    proof cases
      case 1
      then show ?thesis using IH [of a1 q a2 p] a(1,2) q same_chain_cong [of d q] cong by simp
    next
      case 2
      then show ?thesis using id a(2) q by simp
    next
      case 3
      then obtain c c' where c: "a2 = c @ Rt_Retry p # c'" by (meson split_list)
      then have "same_chain p (Rt_Retry q) \<longleftrightarrow> strict_eq (jget q ''retryId'') (jget p ''retryId'')"
        using IH [of "a1 @ Rt_Retry q # c" p c' q] a(1) q by simp
      moreover have no: "\<not> same_chain d (Rt_Retry p)" using a(3) 3 by (auto simp: list_all_iff)
      moreover have "\<not> same_chain p (Rt_Retry q)" using no a(2) q same_chain_trans same_chain_sym by metis
      ultimately have "\<not> strict_eq (jget q ''retryId'') (jget p ''retryId'')" by simp
      then have "\<not> strict_eq (jget p ''retryId'') (jget d ''retryId'')" using cong strict_eq_sym by blast
      then show ?thesis using no by simp
    qed
  qed
qed

lemma started_once:
  assumes "accepted (a @ Rt_Started d # b)"
  shows "list_ex (scheduled_for d) a \<and> \<not> list_ex (started_for d) (a @ b)"
proof -
  have v: "validateStarted a d = Inr ()" using accepted_at [OF assms] by (simp add: validate_event_def)
  have "\<not> started_for d e" if later: "e \<in> set b" for e
  proof
    assume s: "started_for d e"
    then obtain p where p: "e = Rt_Started p" "same_retry d p" by (cases e) (auto simp: started_for_def)
    obtain c c' where "b = c @ Rt_Started p # c'" using split_list [of "Rt_Started p" b] later p(1) by auto
    then have "validateStarted (a @ Rt_Started d # c) p = Inr ()"
      using accepted_at [of "a @ Rt_Started d # c" "Rt_Started p" c'] assms by (simp add: validate_event_def)
    then have "\<not> started_for p (Rt_Started d)" by (auto simp: validateStarted_def rbind_eq_Inr split: option.splits)
    then show False using p(2) by (auto simp: started_for_def same_retry_def strict_eq_sym)
  qed
  moreover have "find_last (scheduled_for d) a \<noteq> None" "\<not> list_ex (started_for d) a"
    using v by (auto simp: validateStarted_def rbind_eq_Inr split: option.splits)
  ultimately show ?thesis by (auto simp: find_last_None list_ex_iff list_all_iff)
qed

lemma normal_bounded: "validate_mode d = Inr () \<Longrightarrow> jget d ''mode'' = Some (JStr ''normal'') \<Longrightarrow> retry_no d \<le> int_of (the (jget d ''maxRetries''))"
  by (auto simp: validate_mode_def split: option.splits)

text \<open>
  Claim C39. The retry records of an accepted log count what happened: the records of one provider-policy
  chain of a step carry the numbers 1, 2, 3 and so on, within the bound of a normal policy; two records
  carry the same identifier exactly when they belong to one chain; and every started attempt was scheduled
  before it and is started only once in the whole log.
\<close>

theorem retry_chains_counted:
  assumes "validate_session h = Inr ()"
  shows "(\<forall>a d b. h = a @ Rt_Retry d # b \<longrightarrow> retry_no d = int (length (filter (same_chain d) a)) + 1
       \<and> (jget d ''mode'' = Some (JStr ''normal'') \<longrightarrow> retry_no d \<le> int_of (the (jget d ''maxRetries'')))
       \<and> (\<forall>p. Rt_Retry p \<in> set a \<longrightarrow> same_chain d (Rt_Retry p) = strict_eq (jget p ''retryId'') (jget d ''retryId'')))
     \<and> (\<forall>a d b. h = a @ Rt_Started d # b \<longrightarrow> list_ex (scheduled_for d) a \<and> \<not> list_ex (started_for d) (a @ b))"
proof (intro conjI allI impI)
  fix a d b
  assume h: "h = a @ Rt_Retry d # b"
  then have acc: "accepted (a @ Rt_Retry d # b)" using assms by (simp add: accepted_def)
  show "retry_no d = int (length (filter (same_chain d) a)) + 1" by (rule chain_count [OF acc])
  show "retry_no d \<le> int_of (the (jget d ''maxRetries''))" if "jget d ''mode'' = Some (JStr ''normal'')"
    by (rule normal_bounded [OF validateRetry_facts(5) [OF accepted_retry [OF acc]] that])
  show "same_chain d (Rt_Retry p) = strict_eq (jget p ''retryId'') (jget d ''retryId'')" if "Rt_Retry p \<in> set a" for p
    by (rule chain_ids [OF acc that])
next
  fix a d b
  assume "h = a @ Rt_Started d # b"
  then have "accepted (a @ Rt_Started d # b)" using assms by (simp add: accepted_def)
  note once = started_once [OF this]
  show "list_ex (scheduled_for d) a" "\<not> list_ex (started_for d) (a @ b)" using once by blast+
qed

section \<open>Delays\<close>

definition backoff_ok :: "backoff \<Rightarrow> bool" where
  "backoff_ok b \<longleftrightarrow> 0 < bo_initial b \<and> bo_initial b \<le> bo_max b \<and> bo_max b \<le> MAX_TIMER_DELAY_MS \<and> 0 \<le> bo_jitter b \<and> bo_jitter b \<le> 1"

fun policy_ok :: "policy \<Rightarrow> bool" where
  "policy_ok (Normal_Policy m codes b) \<longleftrightarrow> 0 \<le> m \<and> m \<le> MAX_SAFE_INTEGER \<and> backoff_ok b"
| "policy_ok (Always_Policy b) \<longleftrightarrow> backoff_ok b"

lemma resolveBackoff_ok: "resolveBackoff config = Inr b \<Longrightarrow> backoff_ok b"
  by (auto simp: resolveBackoff_def rbind_eq_Inr need_def backoff_ok_def timer_delay_def split: option.splits if_splits)

lemma safe_count_bounds: "safe_count v low \<Longrightarrow> low \<le> int_of v \<and> int_of v \<le> MAX_SAFE_INTEGER"
proof -
  assume "safe_count v low"
  then obtain n where "v = JNum n" "isSafeInteger v" "low \<le> jnum_int n" by (auto simp: safe_count_def split: json.splits)
  then show ?thesis by (cases n) (auto simp: MAX_SAFE_INTEGER_def)
qed

lemma resolve_ok: "resolveRetryPolicy config = Inr pol \<Longrightarrow> policy_ok pol"
  by (auto simp: resolveRetryPolicy_def rbind_eq_Inr Let_def MAX_SAFE_INTEGER_def dest: resolveBackoff_ok
    split: option.splits if_splits)
    (auto dest!: safe_count_bounds resolveBackoff_ok simp: MAX_SAFE_INTEGER_def)

lemma localDelay_bounds:
  assumes "backoff_ok b" "0 \<le> random" "random \<le> 1"
  shows "0 \<le> localDelay b retry random \<and> localDelay b retry random \<le> bo_max b"
proof -
  have j: "0 \<le> 1 - bo_jitter b + 2 * bo_jitter b * random"
    using assms by (auto simp: backoff_ok_def)
  have "0 \<le> (if nat (min (retry - 1) 1024) = 1024 then bo_max b else min (bo_initial b * 2 ^ nat (min (retry - 1) 1024)) (bo_max b))"
    using assms(1) by (auto simp: backoff_ok_def)
  then have "0 \<le> (if nat (min (retry - 1) 1024) = 1024 then bo_max b else min (bo_initial b * 2 ^ nat (min (retry - 1) 1024)) (bo_max b))
      * (1 - bo_jitter b + 2 * bo_jitter b * random)" using j by (rule mult_nonneg_nonneg)
  then show ?thesis using assms(1) by (auto simp: localDelay_def Let_def backoff_ok_def)
qed

lemma recovery_delay_bounds:
  assumes "recovery_delay pol failure retry random = Some q" "backoff_ok (policy_backoff pol)" "0 \<le> random" "random \<le> 1"
  shows "0 \<le> q \<and> q \<le> bo_max (policy_backoff pol)"
  using assms(1) localDelay_bounds [OF assms(2-4)]
  by (auto simp: recovery_delay_def Let_def split: option.splits if_splits policy.splits)

lemma num_json_rat [simp]: "json_rat (num_json q) = Some q"
  by (simp add: num_json_def)

section \<open>The state within a step\<close>

definition open_request :: "retry_event list \<Rightarrow> nat \<Rightarrow> nat \<Rightarrow> string \<Rightarrow> bool" where
  "open_request h turn stp provider \<longleftrightarrow> find_last turn_boundary h = Some (Rt_Turn_Start turn)
     \<and> find_last step_boundary h = Some (Rt_Step_Start turn stp) \<and> providerForOpenStep h turn stp = Some provider
     \<and> provider \<noteq> [] \<and> count_list h (Rt_Step_Start turn stp) = 1"

lemma open_request_split:
  assumes "open_request h turn stp provider"
  obtains a b where "h = a @ Rt_Step_Start turn stp # b" "list_all (\<lambda>e. \<not> step_boundary e \<and> \<not> closes_step e) b"
    "Rt_Step_Start turn stp \<notin> set a"
proof -
  let ?s = "Rt_Step_Start turn stp"
  obtain a b where h: "h = a @ ?s # b" "list_all (\<lambda>e. \<not> step_boundary e) b"
    using assms find_last_Some [of step_boundary h ?s] by (auto simp: open_request_def)
  have "?s \<notin> set b" using h(2) by (auto simp: list_all_iff step_boundary_def)
  then have "takeWhile (\<lambda>e. e \<noteq> ?s) (rev h) = rev b"
    unfolding h(1) by (simp, subst takeWhile_append2) auto
  then have "\<not> list_ex closes_step (rev b)"
    using assms by (auto simp: open_request_def providerForOpenStep_def split: if_splits)
  then have "list_all (\<lambda>e. \<not> step_boundary e \<and> \<not> closes_step e) b" using h(2) by (auto simp: list_ex_iff list_all_iff)
  moreover have "?s \<notin> set a" using assms unfolding open_request_def h(1) by (simp add: count_list_0_iff)
  ultimately show ?thesis using that [OF h(1)] by blast
qed

definition chain_of :: "string \<Rightarrow> string \<Rightarrow> retry_event \<Rightarrow> bool" where
  "chain_of p k e = (case e of Rt_Retry d \<Rightarrow> text_field d ''provider'' = p \<and> text_field d ''policyKey'' = k | _ \<Rightarrow> False)"

lemma state_within_step:
  "list_all (\<lambda>e. \<not> step_boundary e \<and> \<not> closes_step e) b \<Longrightarrow>
     amap_get (foldl (retry_apply ft) [] b) (retryStateKey ft p k) =
       map_option (\<lambda>e. \<lparr>re_retry = retry_no (retry_data e), re_id = text_field (retry_data e) ''retryId''\<rparr>) (find_last (chain_of p k) b)"
proof (induction b rule: rev_induct)
  case (snoc e b)
  then show ?case
    by (cases e) (auto simp: retry_apply_def chain_of_def retryStateKey_inj step_boundary_def closes_step_def)
qed simp

lemma field_is_nat: "field_is d k n \<longleftrightarrow> strict_eq (jget d k) (Some (JNum (JInt (int n))))"
  by (simp add: field_is_def)

lemma placed:
  assumes "accepted (a @ Rt_Retry d # b)" "find_last step_boundary a = Some (Rt_Step_Start t p)"
  shows "field_is d ''turn'' t \<and> field_is d ''step'' p"
  using validateRetry_facts(6) [OF accepted_retry [OF assms(1)]] assms(2)
  by (auto simp: validate_place_def rbind_eq_Inr split: option.splits retry_event.splits)

lemma placed_somewhere:
  assumes "accepted (a @ Rt_Retry d # b)"
  obtains t p where "find_last step_boundary a = Some (Rt_Step_Start t p)" "field_is d ''turn'' t" "field_is d ''step'' p"
proof -
  obtain t p where "find_last step_boundary a = Some (Rt_Step_Start t p)"
    using validateRetry_facts(6) [OF accepted_retry [OF assms]]
    by (auto simp: validate_place_def rbind_eq_Inr split: option.splits retry_event.splits)
  then show ?thesis using that placed [OF assms] by blast
qed

lemma field_is_both: "field_is d k m \<Longrightarrow> field_is p k n \<Longrightarrow> strict_eq (jget p k) (jget d k) \<longleftrightarrow> m = n"
proof -
  assume d: "field_is d k m" and p: "field_is p k n"
  have e: "strict_eq (Some (JNum (JInt (int m)))) (Some (JNum (JInt (int n)))) \<longleftrightarrow> m = n" by simp
  show ?thesis using d p e strict_eq_trans strict_eq_sym unfolding field_is_def by blast
qed

lemma text_of: "nonempty_string (jget d k) \<Longrightarrow> jget d k = Some (JStr (text_field d k)) \<and> text_field d k \<noteq> []"
  by (cases "jget d k" rule: nonempty_string.cases) (auto simp: text_field_def json_string_def)

lemma state_is_chain:
  assumes "accepted h" "open_request h turn stp provider"
    and d: "field_is d ''turn'' turn" "field_is d ''step'' stp" "jget d ''provider'' = Some (JStr p)" "jget d ''policyKey'' = Some (JStr k)"
  shows "amap_get (retry_fold ft h) (retryStateKey ft p k) =
       map_option (\<lambda>e. \<lparr>re_retry = retry_no (retry_data e), re_id = text_field (retry_data e) ''retryId''\<rparr>) (find_last (same_chain d) h)"
proof -
  let ?s = "Rt_Step_Start turn stp"
  obtain a b where h: "h = a @ ?s # b" "list_all (\<lambda>e. \<not> step_boundary e \<and> \<not> closes_step e) b" "?s \<notin> set a"
    using open_request_split [OF assms(2)] by blast
  have "retry_fold ft h = foldl (retry_apply ft) [] b" by (simp add: retry_fold_def h(1) retry_apply_def)
  then have st: "amap_get (retry_fold ft h) (retryStateKey ft p k) =
       map_option (\<lambda>e. \<lparr>re_retry = retry_no (retry_data e), re_id = text_field (retry_data e) ''retryId''\<rparr>) (find_last (chain_of p k) b)"
    using state_within_step [OF h(2)] by simp
  have before: "\<not> same_chain d e" if e: "e \<in> set a" for e
  proof
    assume s: "same_chain d e"
    then obtain q where q: "e = Rt_Retry q" using same_chain_retry by blast
    obtain c c' where c: "a = c @ Rt_Retry q # c'" using split_list [of e a] e q by auto
    then have "accepted (c @ Rt_Retry q # (c' @ ?s # b))" using assms(1) h(1) by simp
    from placed_somewhere [OF this] obtain t' p' where w: "find_last step_boundary c = Some (Rt_Step_Start t' p')"
      "field_is q ''turn'' t'" "field_is q ''step'' p'" by blast
    have "t' = turn" "p' = stp"
      using s q field_is_both [OF d(1) w(2)] field_is_both [OF d(2) w(3)] by (auto simp: same_chain_def)
    then have "?s \<in> set c" using find_last_Some [OF w(1)] by auto
    then show False using h(3) c by simp
  qed
  have "same_chain d e = chain_of p k e" if e: "e \<in> set b" for e
  proof (cases "\<exists>q. e = Rt_Retry q")
    case True
    then obtain q where q: "e = Rt_Retry q" by blast
    obtain c c' where c: "b = c @ Rt_Retry q # c'" using split_list [of e b] e q by auto
    have acc: "accepted ((a @ ?s # c) @ Rt_Retry q # c')" using assms(1) h(1) c by simp
    have "list_all (\<lambda>y. \<not> step_boundary y) c" using h(2) c by (simp add: list_all_iff)
    then have "find_last step_boundary (a @ ?s # c) = Some ?s" by (intro find_last_unfold) (simp_all add: step_boundary_def)
    note w = placed [OF acc this]
    note f = validateRetry_facts [OF accepted_retry [OF acc]]
    show ?thesis
      using field_is_both [OF d(1), of q turn] field_is_both [OF d(2), of q stp] w text_of [OF f(3)] text_of [OF f(4)]
      by (simp add: q same_chain_def chain_of_def d(3,4))
  next
    case False
    then show ?thesis by (cases e) (simp_all add: same_chain_def chain_of_def)
  qed
  then have "find_last (same_chain d) b = find_last (chain_of p k) b" by (rule find_last_cong)
  moreover have "list_all (\<lambda>e. \<not> same_chain d e) (a @ [?s])" using before by (auto simp: list_all_iff same_chain_def)
  then have "find_last (same_chain d) h = find_last (same_chain d) b"
    using find_last_skip [of "same_chain d" "a @ [?s]" b] h(1) by simp
  ultimately show ?thesis using st by simp
qed

section \<open>What the executor writes\<close>

lemma retry_record_fields:
  "jget (retry_record pol i t p pr k n q f) ''retryId'' = Some (JStr i)"
  "jget (retry_record pol i t p pr k n q f) ''turn'' = Some (JNum (JInt (int t)))"
  "jget (retry_record pol i t p pr k n q f) ''step'' = Some (JNum (JInt (int p)))"
  "jget (retry_record pol i t p pr k n q f) ''provider'' = Some (JStr pr)"
  "jget (retry_record pol i t p pr k n q f) ''policyKey'' = Some (JStr k)"
  "jget (retry_record pol i t p pr k n q f) ''retry'' = Some (JNum (JInt n))"
  "jget (retry_record pol i t p pr k n q f) ''delayMs'' = Some (num_json q)"
  "jget (retry_record pol i t p pr k n q f) ''failure'' = Some f"
  by (cases pol; simp add: retry_record_def)+

lemma retry_record_mode:
  assumes "1 \<le> n" "case pol of Normal_Policy m codes b \<Rightarrow> n \<le> m \<and> m \<le> MAX_SAFE_INTEGER | Always_Policy b \<Rightarrow> True"
  shows "validate_mode (retry_record pol i t p pr k n q f) = Inr ()"
  using assms by (cases pol) (auto simp: validate_mode_def retry_record_def retry_no_def safe_count_def hasOwn_def)

lemma policy_key_nonempty: "retryPolicyKey ft pol \<noteq> []"
  by (cases pol) simp_all

lemma open_place:
  assumes "open_request h turn stp provider" "field_is d ''turn'' turn" "field_is d ''step'' stp" "jget d ''provider'' = Some (JStr provider)"
  shows "validate_place h d = Inr ()"
  using assms by (simp add: validate_place_def open_request_def require_def)

definition fresh_env :: "recovery_env \<Rightarrow> retry_event list \<Rightarrow> bool" where
  "fresh_env env h \<longleftrightarrow> en_uuid env \<noteq> [] \<and> \<not> list_ex (owns_id (Some (JStr (en_uuid env)))) h \<and> 0 \<le> en_random env \<and> en_random env \<le> 1"

lemma scheduled_accepted:
  assumes acc: "accepted h" and "open_request h turn stp provider" "fresh_env env h" "policy_ok pol" "validateFailure (Some failure) = Inr ()"
    and len: "int (length h) < MAX_SAFE_INTEGER"
    and run: "recover_locally ft (retry_fold ft h) turn stp provider failure pol aborted env = (out, scheduled, started)" "d \<in> set scheduled"
  shows "validateRetry h d = Inr () \<and> (\<exists>q. jget d ''delayMs'' = Some (num_json q) \<and> 0 \<le> q \<and> q \<le> bo_max (policy_backoff pol))
     \<and> (\<forall>s \<in> set started. same_retry s d \<and> nonempty_string (jget s ''retryId'')
          \<and> jget s ''turn'' = jget d ''turn'' \<and> jget s ''step'' = jget d ''step'' \<and> jget s ''retryId'' = jget d ''retryId'')"
proof -
  define key where "key = retryPolicyKey ft pol"
  define prev where "prev = amap_get (retry_fold ft h) (retryStateKey ft provider key)"
  define n where "n = (case prev of Some e \<Rightarrow> re_retry e | None \<Rightarrow> 0) + 1"
  define i where "i = (case prev of Some e \<Rightarrow> re_id e | None \<Rightarrow> en_uuid env)"
  have bound: "case pol of Normal_Policy m codes b \<Rightarrow> n \<le> m | Always_Policy b \<Rightarrow> True"
    and q: "\<exists>q. recovery_delay pol failure n (en_random env) = Some q \<and> d = retry_record pol i turn stp provider key n q failure
       \<and> (\<forall>s \<in> set started. s = started_record i turn stp n)"
    using run unfolding recover_locally_def Let_def key_def [symmetric] prev_def [symmetric] n_def [symmetric] i_def [symmetric]
    by (auto simp: n_def split: if_splits option.splits policy.splits)
  then obtain q where q: "recovery_delay pol failure n (en_random env) = Some q" "d = retry_record pol i turn stp provider key n q failure"
    "\<forall>s \<in> set started. s = started_record i turn stp n" by blast
  note f = retry_record_fields [of pol i turn stp provider key n q failure, folded q(2)]
  have place: "field_is d ''turn'' turn" "field_is d ''step'' stp" by (simp_all add: field_is_def f)
  have prev_chain: "prev = map_option (\<lambda>e. \<lparr>re_retry = retry_no (retry_data e), re_id = text_field (retry_data e) ''retryId''\<rparr>) (find_last (same_chain d) h)"
    unfolding prev_def by (rule state_is_chain [OF acc assms(2) place f(4,5)])
  have d_no: "retry_no d = n" by (simp add: retry_no_def f)
  have chain: "validate_chain h d = Inr () \<and> 1 \<le> n \<and> n \<le> int (length h) + 1 \<and> i \<noteq> []"
  proof (cases "find_last (same_chain d) h")
    case None
    then show ?thesis using assms(3) prev_chain
      by (simp add: validate_chain_def d_no n_def i_def f fresh_env_def require_def)
  next
    case (Some e)
    obtain a b where h: "h = a @ e # b" "same_chain d e" using find_last_Some [OF Some] by blast
    obtain p where p: "e = Rt_Retry p" using same_chain_retry [OF h(2)] by blast
    have pa: "accepted (a @ Rt_Retry p # b)" using acc h(1) p by simp
    have c: "retry_no p = int (length (filter (same_chain p) a)) + 1" by (rule chain_count [OF pa])
    have "length (filter (same_chain p) a) \<le> length a" by (rule length_filter_le)
    then have "length (filter (same_chain p) a) \<le> length a + length b" by (rule trans_le_add1)
    then have "1 \<le> retry_no p" "retry_no p \<le> int (length h)" using c h(1) by auto
    moreover have "n = retry_no p + 1" "i = text_field p ''retryId''" using prev_chain Some p by (simp_all add: n_def i_def)
    moreover note text_of [OF validateRetry_facts(1) [OF accepted_retry [OF pa]]]
    ultimately show ?thesis using Some p by (simp add: validate_chain_def d_no f require_def)
  qed
  have ok: "backoff_ok (policy_backoff pol)" using assms(4) by (cases pol) simp_all
  have delay: "0 \<le> q \<and> q \<le> bo_max (policy_backoff pol)"
    using recovery_delay_bounds [OF q(1) ok] assms(3) by (simp add: fresh_env_def)
  have mode: "validate_mode d = Inr ()"
    unfolding q(2) using bound assms(4) chain by (intro retry_record_mode) (auto split: policy.splits)
  have num: "safe_count (JNum (JInt n)) 1" using chain len by (simp add: safe_count_def)
  have "timer_value (jget d ''delayMs'')" using delay ok by (auto simp: f timer_value_def backoff_ok_def)
  then have "validateRetry h d = Inr ()"
    using open_place [OF assms(2) place f(4)] chain mode num assms(2,5) policy_key_nonempty [of ft pol]
    by (simp add: validateRetry_def f open_request_def key_def require_def)
  then show ?thesis using delay q(3) f chain by (auto simp: started_record_def same_retry_def)
qed

lemma started_member: "list_ex (started_for s) h \<Longrightarrow> \<exists>p. Rt_Started p \<in> set h \<and> same_retry s p"
proof (induction h)
  case (Cons e h)
  then show ?case by (cases e) (auto simp: started_for_def)
qed simp

lemma scheduled_member: "list_ex (scheduled_for s) h \<Longrightarrow> \<exists>p. Rt_Retry p \<in> set h \<and> same_retry s p"
proof (induction h)
  case (Cons e h)
  then show ?case by (cases e) (auto simp: scheduled_for_def)
qed simp

lemma unstarted:
  assumes "accepted (h @ [Rt_Retry d])" "same_retry s d"
  shows "\<not> list_ex (started_for s) h"
proof
  assume "list_ex (started_for s) h"
  then obtain p where p: "Rt_Started p \<in> set h" "same_retry s p" using started_member by blast
  obtain a b where h: "h = a @ Rt_Started p # b" using split_list [OF p(1)] by blast
  have "accepted (a @ Rt_Started p # b @ [Rt_Retry d])" using assms(1) h by simp
  then obtain q where q: "Rt_Retry q \<in> set a" "same_retry p q"
    using started_once [of a p "b @ [Rt_Retry d]"] scheduled_member by blast
  have same: "strict_eq (jget q k) (jget d k)" if "k \<in> {''retryId'', ''retry''}" for k
    using that p(2) q(2) assms(2) strict_eq_trans strict_eq_sym unfolding same_retry_def by blast
  obtain c c' where c: "a = c @ Rt_Retry q # c'" using split_list [OF q(1)] by blast
  have acc_q: "accepted (c @ Rt_Retry q # (c' @ Rt_Started p # b @ [Rt_Retry d]))" using assms(1) h c by simp
  have chain: "same_chain d (Rt_Retry q)" using chain_ids [of h d "[]" q] assms(1) same h q(1) by simp
  have "filter (same_chain q) c = filter (same_chain d) c" using same_chain_cong [OF chain] by (intro filter_cong refl) simp
  then have "retry_no q < retry_no d" using chain_count [OF acc_q] chain_count [of h d "[]"] assms(1) h c chain by simp
  moreover have "retry_no q = retry_no d"
  proof -
    have e: "strict_eq (jget q ''retry'') (jget d ''retry'')" using same by simp
    obtain v where v: "jget q ''retry'' = Some v" "safe_count v 1"
      using validateRetry_facts(2) [OF accepted_retry [OF acc_q]] by (auto split: option.splits)
    obtain x where x: "v = JNum x" using v(2) by (auto simp: safe_count_def split: json.splits)
    obtain y where y: "jget d ''retry'' = Some (JNum y)" "num_eq x y" using e v(1) x by (auto simp: strict_eq_num)
    have "jnum_int x = jnum_int y" using y(2) by (cases "(x, y)" rule: num_eq.cases) auto
    then show ?thesis using v(1) x y(1) by (simp add: retry_no_def)
  qed
  ultimately show False by simp
qed

lemma started_accepted:
  assumes "accepted (h @ [Rt_Retry d])" "same_retry s d" "nonempty_string (jget s ''retryId'')"
    "jget s ''turn'' = jget d ''turn''" "jget s ''step'' = jget d ''step''" "\<not> list_ex (owns_id (jget s ''retryId'')) mid_events"
  shows "validateStarted (h @ Rt_Retry d # mid_events) s = Inr ()"
proof -
  have quiet: "list_all (\<lambda>e. \<not> scheduled_for s e) mid_events" "\<not> list_ex (started_for s) mid_events"
    using assms(6) by (auto simp: list_all_iff list_ex_iff scheduled_for_def started_for_def owns_id_def same_retry_def split: retry_event.splits)
  have "find_last (scheduled_for s) (h @ Rt_Retry d # mid_events) = Some (Rt_Retry d)"
    using assms(2) quiet(1) by (intro find_last_unfold) (simp_all add: scheduled_for_def)
  then show ?thesis using unstarted [OF assms(1,2)] quiet(2) assms(3-5)
    by (simp add: validateStarted_def started_for_def require_def)
qed

text \<open>
  Claim C40. The retry executor never breaks its own protocol: on an accepted log, inside an open request,
  with the state its projection folded and any resolved policy, the record it writes before waiting is one
  the companion accepts, its delay lies between zero and the policy's maximum, and the record it writes after
  the wait is accepted too, whatever other events were logged meanwhile.
\<close>

theorem recovery_records_accepted:
  assumes "validate_session h = Inr ()" "open_request h turn stp provider" "fresh_env env h"
    and "resolveRetryPolicy config = Inr pol" "validateFailure (Some failure) = Inr ()" "int (length h) < MAX_SAFE_INTEGER"
    and "recover ft (retry_fold ft h) turn stp provider failure (Some pol) env = (out, scheduled, started)"
    and "d \<in> set scheduled"
  shows "validateRetry h d = Inr ()
     \<and> (\<exists>q. jget d ''delayMs'' = Some (num_json q) \<and> 0 \<le> q \<and> q \<le> bo_max (policy_backoff pol))
     \<and> (\<forall>s \<in> set started. \<forall>mid_events. \<not> list_ex (owns_id (jget s ''retryId'')) mid_events
          \<longrightarrow> validateStarted (h @ Rt_Retry d # mid_events) s = Inr ())"
proof -
  obtain aborted where run: "recover_locally ft (retry_fold ft h) turn stp provider failure pol aborted env = (out, scheduled, started)"
    using assms(7,8) by (auto simp: recover_def split: policy.splits if_splits)
  have acc: "accepted h" using assms(1) by (simp add: accepted_def)
  note w = scheduled_accepted [OF acc assms(2,3) resolve_ok [OF assms(4)] assms(5,6) run assms(8)]
  have "accepted (h @ [Rt_Retry d])" using acc w by (simp add: accepted_snoc validate_event_def)
  then show ?thesis using w started_accepted by blast
qed

section \<open>A recovered request\<close>

definition demo_policy :: policy where
  "demo_policy = Normal_Policy 2 [''SERVER''] \<lparr>bo_initial = 2, bo_max = 8, bo_jitter = 0\<rparr>"

definition demo_config :: json where
  "demo_config = JObj [(''mode'', JStr ''normal''), (''maxRetries'', JNum (JInt 2)), (''retryableCodes'', JArr [JStr ''SERVER'']),
     (''backoff'', JObj [(''initialDelayMs'', JNum (JInt 2)), (''maxDelayMs'', JNum (JInt 8)), (''jitterRatio'', JNum (JInt 0))])]"

definition demo_failure :: json where
  "demo_failure = JObj [(''message'', JStr ''down''), (''code'', JStr ''SERVER''), (''status'', JNum (JInt 503))]"

definition demo_record :: "int \<Rightarrow> rat \<Rightarrow> json" where
  "demo_record n q = retry_record demo_policy ''u'' 0 1 ''p'' (retryPolicyKey (\<lambda>_. []) demo_policy) n q demo_failure"

definition demo_open :: "retry_event list" where
  "demo_open = [Rt_Header ''p'', Rt_Turn_Start 0, Rt_Step_Start 0 1]"

definition demo_env :: recovery_env where
  "demo_env = \<lparr>en_aborted = False, en_downstream = Answered_With No_Action, en_aborted_later = False, en_random = 1 / 2,
     en_uuid = ''u'', en_waited = True\<rparr>"

definition demo_retries :: "retry_event list" where
  "demo_retries = demo_open @ [Rt_Retry (demo_record 1 2), Rt_Started (started_record ''u'' 0 1 1), Rt_Retry (demo_record 2 4)]"

theorem retry_chains_counted_witness:
  "retry_no (demo_record 2 4) = int (length (filter (same_chain (demo_record 2 4)) (take 5 demo_retries))) + 1
   \<and> retry_no (demo_record 2 4) \<le> int_of (the (jget (demo_record 2 4) ''maxRetries''))"
proof -
  have ok: "validate_session demo_retries = Inr ()" by code_simp
  have "demo_retries = take 5 demo_retries @ Rt_Retry (demo_record 2 4) # []" by (simp add: demo_retries_def demo_open_def)
  moreover have "jget (demo_record 2 4) ''mode'' = Some (JStr ''normal'')" by code_simp
  ultimately show ?thesis using retry_chains_counted [OF ok] by blast
qed

theorem recovery_records_accepted_witness:
  "validateRetry demo_open (demo_record 1 2) = Inr ()
   \<and> validateStarted (demo_open @ [Rt_Retry (demo_record 1 2), Rt_Other]) (started_record ''u'' 0 1 1) = Inr ()"
proof -
  have h: "validate_session demo_open = Inr ()" "open_request demo_open 0 1 ''p''" "fresh_env demo_env demo_open"
    "resolveRetryPolicy (Some demo_config) = Inr demo_policy" "validateFailure (Some demo_failure) = Inr ()"
    "int (length demo_open) < MAX_SAFE_INTEGER"
    "recover (\<lambda>_. []) (retry_fold (\<lambda>_. []) demo_open) 0 1 ''p'' demo_failure (Some demo_policy) demo_env
       = (Answered_With Retry_Action, [demo_record 1 2], [started_record ''u'' 0 1 1])"
    by code_simp+
  have "\<not> list_ex (owns_id (jget (started_record ''u'' 0 1 1) ''retryId'')) [Rt_Other]" by code_simp
  then show ?thesis using recovery_records_accepted [OF h] by auto
qed

end
