(* ===== verification/Spec2Isabelle.thy ===== *)
theory Spec2Isabelle
  imports Surface_Laws Surface_Manager Repair_Laws Seq_Ranges Deque Byte_Queues Inbox Consumed_Work
    Goal_Service_Laws Registry_Laws Tool_Pairing Compaction_Laws Schedule_Properties Dock_Properties Stream_Assembly Retention_Laws
    Usage_Laws Meter_Laws Retry_Laws
begin

text \<open>
  A verification development of the harness core: the append-only session log and what is folded from it,
  the durable services that write it, the model stream that fills it, and the layout engine of its client.
  Paths are below \<open>packages/\<close>.

  \<^bold>\<open>The program and how its parts interact.\<close> A session is an append-only, contiguously numbered log of typed
  events. Everything else is a fold of that log or a writer into it. The \<^emph>\<open>surface\<close> is the list of events the
  model sees; appends extend it, replacements splice a range of it, and an incremental manager serves reads.
  \<^emph>\<open>Projections\<close> fold the log into states (goals, inbox, reminders, token usage, retries) kept in watermarked
  cells and checkpoint rows by a registry. \<^emph>\<open>Services\<close> (goal service, inbox facade, schedule runtime, retry
  executor) decide on a projected state and append events their own fold must replay. \<^emph>\<open>Companions\<close> check at
  run time that the log obeys a protocol (turns and steps, compaction brackets, retry chains). A model reply
  arrives as a stream of chunks, packed into durable records and assembled into content blocks; its usage
  feeds the meters. Byte-bounded queues and retainers carry output to clients, and the web client's docking
  engine keeps a layout with exact undo.

  \<^bold>\<open>Shared ground.\<close> Theory Prelude has results with errors as values (\<open>res\<close>, \<open>rbind\<close>, \<open>fold_res\<close>), operations
  that throw after changing state (\<open>sx\<close>), splices, insertion-ordered maps (\<open>amap\<close>), and two interfaces:
  \<open>event_projection\<close> (a fold with an invariant, resumable from a checkpoint) and \<open>log_reader\<close> (an incremental
  reader of a growing log). Json, Js-Text, Js-Date and Utf8 model the language: JSON values with JavaScript's
  numbers, trimming, quoting, the proleptic calendar, and the UTF-8 encoder and decoder.

  \<^bold>\<open>Session log\<close> (\<open>core/session/src\<close>). Session-Events is the typed vocabulary (\<open>types.ts\<close>). Session-Surface is
  \<open>surface.ts\<close> on raw JSON events: validation, planning, committing, the complete fold and the manager;
  Surface-Laws proves nodes distinct and eligible, every event attributed, the system prompt protected;
  Surface-Manager proves the incremental manager equal to the complete fold (the \<open>log_reader\<close> interpretation
  \<open>mr\<close> is in Compaction-Laws). Session-Repair and Repair-Laws are \<open>repair.ts\<close>, \<open>fork.ts\<close> and \<open>invariant.ts\<close>:
  closers and fork seeds make a log accepted and balanced. Seq-Ranges is the codec of \<open>seq-ranges.ts\<close>,
  Request-Header is \<open>request-header.ts\<close> with \<open>JSON.stringify\<close>.

  \<^bold>\<open>Projections\<close> (\<open>session/session-projection/src\<close>). Projection-Registry models registration, cells, reads and
  restore from checkpoint rows; Registry-Laws shows that a read is the fold of the whole log, that a restore
  from honest rows is too, and that a log shorter than a row is detected.

  \<^bold>\<open>Agent work\<close> (\<open>core/agent-loop/src/inbox.ts\<close>, \<open>core/agent/src/consumed-work.ts\<close>). Inbox conserves messages:
  each is pending or settled exactly once (interpretation \<open>ib\<close>). Consumed-Work is the account of finished turns.

  \<^bold>\<open>Goals\<close> (\<open>goal/goal/src\<close>). Goal-Fold and Goal-Laws are the strict decoder and replay (\<open>fold.ts\<close>,
  interpretation \<open>gp\<close>); Goal-Service and Goal-Service-Laws are the lenient projection and the service
  (\<open>index.ts\<close>): what the service accepts, the strict fold replays.

  \<^bold>\<open>Compaction\<close> (\<open>compaction/compaction/src\<close>). Tool-Pairing is \<open>tool-pairing.ts\<close> with its incremental cache,
  proved transparent over any growing view of a surface (locale \<open>surface_view\<close>, interpretation \<open>sv\<close>).
  Compaction and Compaction-Laws are the companion (\<open>invariant.ts\<close>): brackets around records that name
  them, in the turn that owns them; reload; honest spans.

  \<^bold>\<open>Reminders\<close> (\<open>schedule/schedule/src\<close>). Schedule, Schedule-Laws and Schedule-Properties: records and their
  decoding, occurrence arithmetic, the fold, the projection (interpretation \<open>schedule_unit\<close>) and the runtime's
  decision; drives dispatch everything due and settle.

  \<^bold>\<open>Model stream\<close> (\<open>llm/llm/src\<close>). Stream-Chunks is the chunk vocabulary and \<open>assembler.ts\<close>; Assistant-Stream is
  \<open>assistant-stream.ts\<close>. Stream-Laws proves the compact form lossless, Stream-Assembly that every reader of the
  records and the assembler fed from them agree with the chunk sequence, and what the blocks are.

  \<^bold>\<open>Metering\<close> (\<open>llm/token-meter/src\<close>). Turn-Usage is \<open>turn-usage.ts\<close> and the token-usage projection; Usage-Laws
  characterises the derivation by a grammar of attempts and relates the two accounts. Token-Meter is
  \<open>estimate.ts\<close>, \<open>surface-fold.ts\<close>, \<open>breakdown-projection.ts\<close>, \<open>surface-projection.ts\<close> and the pressure part of
  \<open>usage-projection.ts\<close>; Meter-Laws proves both projections price exactly the surface that Session-Surface
  folds (interpretation \<open>context_unit\<close>).

  \<^bold>\<open>Retries\<close> (\<open>llm/llm/src/retry-policy.ts\<close>, \<open>llm/llm-retry/src\<close>). Retry models policy resolution, the executor
  with its projection state, and the companion; Retry-Laws (interpretation \<open>retry_log\<close>) proves chains counted
  and that the executor's records are always accepted.

  \<^bold>\<open>Queues and output.\<close> Deque is \<open>util/deque/src\<close>, a ring buffer proved to be a list (locale \<open>fifo_store\<close>,
  interpretation \<open>dq\<close>); Byte-Queues is the terminal follower and the gateway's uplink inbox on top of it.
  Output-Retention and Retention-Laws are \<open>util/output-retention/src\<close>: bounded memory, whole characters and
  an honest omission for texts without a byte order mark (the mark is the exception Retention-Laws evaluates).

  \<^bold>\<open>Docking\<close> (\<open>client/ui-dockkit/src/engine\<close>). Dock-Layout (\<open>tree.ts\<close>, \<open>types.ts\<close>), Dock-Operations
  (\<open>operations.ts\<close>), Dock-Planner (\<open>constraints.ts\<close>, \<open>initial.ts\<close>, \<open>planner.ts\<close>) and Dock-History
  (\<open>sequence.ts\<close>) are the model. Dock-Invariant, Dock-Tree, Dock-Cases and Dock-Preserve prove layouts stay
  well-formed; Dock-Undo and Dock-Congruence that captured inverses are exact up to the order of keys nothing
  reads; Undo-Log proves a linear history exact over any engine with that contract (locale \<open>undo_engine\<close>,
  interpretation \<open>dock\<close>); Dock-Settle and Dock-Clamp are the settling loop and the divider clamp;
  Dock-Properties states the results.

  \<^bold>\<open>Bounds and fuel.\<close> Sequence numbers and counts are naturals or integers; where the code tests
  \<open>Number.isSafeInteger\<close> the test is in the model, and sums that stay below it are exact in doubles. Tree walks
  and the settling loop carry fuel bounded by the number of nodes, and Dock-Settle proves it never runs out on
  a well-formed layout; the rounds of schedule drives carry fuel, and enough of it is part of the theorem; the
  backward scan of a UTF-8 cut carries fuel four, the most its own bound of three continuation bytes allows.
  All other loops are structural or have a termination proof. Fractions (divider shares, delays) are rationals,
  so rounding of doubles is not modelled; characters are code units below 256, or scalar values in Utf8.

  \<^bold>\<open>Parameters.\<close> Plug-in code and the host are arguments: message projections of the surface, the projection
  units of the registry, the time zone database, tab factories, the byte size of a frame, the text of a
  fraction, and for a recovery the downstream handler's outcome, the abort signals, the timer, the random
  sample and the fresh identifier.

  \<^bold>\<open>Not modelled.\<close> Promise scheduling, timers and event-bus installation around the modelled folds; the session
  store's clock and plug-in glue; file formats, locking and migrations of the persistence layer; model,
  protocol and tool adapters; policies that call a model to write a summary; the meter's route-specific image
  prices; process, file and network services; the type-runtime compiler and generated catalogues; and all
  rendering and pointer handling of the clients. They are I/O, generated code, or orchestration without a
  state of their own beyond the logs and projections modelled here.
\<close>

end
